(* ===== verification/Prelude.thy ===== *)
theory Prelude
  imports
    Main
    "HOL-Library.Word"
    "HOL-Library.AList"
    "HOL-Library.Multiset"
    "HOL-Library.Char_ord"
    "HOL-Library.List_Lexorder"
    "HOL-Library.Product_Lexorder"
begin

text \<open>
  Types, lemma collections and generic lemmas that every component shares.

  A Go string is a sequence of bytes, and so is an Isabelle \<open>string\<close> (a list of 8-bit
  characters); the byte-wise order of \<open>List_Lexorder\<close> over \<open>Char_ord\<close> is the order
  of Go's \<open><\<close> on strings.  A Go \<open>int64\<close> is an \<open>int\<close>; where the code does
  arithmetic on it, \<open>i64\<close> writes the wrap-around out.  A Go error return is
  \<open>Inl\<close>, or \<open>Some\<close> error where there is no other result.
\<close>

named_theorems json_simps \<open>evaluation of JSON field decoding over encoded objects\<close>
named_theorems fold_simps \<open>projections of a lane state after one event\<close>
named_theorems store_simps \<open>projections of the store after one operation\<close>

section \<open>Machine integers\<close>

text \<open>Two's complement wrap-around of a 64-bit signed result.\<close>

definition i64 :: "int \<Rightarrow> int" where
  "i64 x = (x + 2 ^ 63) mod 2 ^ 64 - 2 ^ 63"

definition in_i64 :: "int \<Rightarrow> bool" where
  "in_i64 x \<longleftrightarrow> - (2 ^ 63) \<le> x \<and> x < 2 ^ 63"

lemma i64_id [simp]: "in_i64 x \<Longrightarrow> i64 x = x"
  by (simp add: i64_def in_i64_def)

lemma i64_range: "in_i64 (i64 x)"
  by (simp add: i64_def in_i64_def)

section \<open>Lists\<close>

lemma foldl_inv:
  assumes "P a" and "\<And>s x. x \<in> set xs \<Longrightarrow> P s \<Longrightarrow> P (f s x)"
  shows "P (foldl f a xs)"
  using assms by (induction xs arbitrary: a) auto

lemma foldl_fixed:
  assumes "\<And>s x. x \<in> set xs \<Longrightarrow> f s x = s"
  shows "foldl f a xs = a"
  using assms by (induction xs arbitrary: a) auto

text \<open>
  Sorting by an injective key forgets the order of the input, and sorting a list that is
  sorted already changes nothing.
\<close>

lemma sort_key_determined:
  assumes "mset xs = mset ys" and "inj_on k (set xs)"
  shows "sort_key k xs = sort_key k ys"
  by (rule sort_key_inj_key_eq) (use assms in auto)

section \<open>Substrings\<close>

text \<open>\<open>bytes.Contains\<close> and \<open>strings.Contains\<close>.\<close>

fun infix_of :: "'a list \<Rightarrow> 'a list \<Rightarrow> bool" where
  "infix_of w [] = (w = [])"
| "infix_of w (x # xs) = (take (length w) (x # xs) = w \<or> infix_of w xs)"

lemma infix_of_iff: "infix_of w s \<longleftrightarrow> (\<exists>a b. s = a @ w @ b)"
proof (induction s)
  case (Cons x xs)
  have t: "take (length w) (x # xs) = w \<longleftrightarrow> (\<exists>b. x # xs = w @ b)" by (metis append_eq_conv_conj append_take_drop_id)
  have "(\<exists>a b. x # xs = a @ w @ b) \<longleftrightarrow> (\<exists>b. x # xs = w @ b) \<or> (\<exists>a b. xs = a @ w @ b)"
    by (metis append_Cons append_Nil list.inject neq_Nil_conv)
  then show ?case using Cons.IH t by simp
qed simp

end
