(* ===== verification/Go_Text.thy ===== *)
theory Go_Text
  imports Prelude
begin

text \<open>
  The parts of Go's \<open>strings\<close>, \<open>unicode\<close>, \<open>unicode/utf8\<close>, \<open>encoding/hex\<close> and
  \<open>path/filepath\<close> (Unix build) that the modelled code uses on text: decoding a byte string
  into runes, trimming white space, counting and testing runes, prefixes, and paths.
  They model the language's standard library, so they carry no source lines of their own.
\<close>

section \<open>Runes\<close>

abbreviation byte_of :: "char \<Rightarrow> nat" where
  "byte_of c \<equiv> of_char c"

definition cont_byte :: "char \<Rightarrow> bool" where
  "cont_byte c \<longleftrightarrow> 128 \<le> byte_of c \<and> byte_of c < 192"

text \<open>
  \<open>utf8.DecodeRune\<close>: the first rune and its width.  A byte that starts no well-formed
  sequence is the replacement rune of width one.
\<close>

definition rune_error :: nat where "rune_error = 65533"

definition decode2 :: "nat \<Rightarrow> string \<Rightarrow> nat \<times> nat" where
  "decode2 b cs = (case cs of
     c1 # _ \<Rightarrow> if cont_byte c1 then ((b mod 32) * 64 + byte_of c1 mod 64, 2) else (rune_error, 1)
   | _ \<Rightarrow> (rune_error, 1))"

definition decode3 :: "nat \<Rightarrow> string \<Rightarrow> nat \<times> nat" where
  "decode3 b cs = (case cs of
     c1 # c2 # _ \<Rightarrow>
       if cont_byte c1 \<and> cont_byte c2 \<and> (b = 224 \<longrightarrow> 160 \<le> byte_of c1) \<and> (b = 237 \<longrightarrow> byte_of c1 < 160)
       then ((b mod 16) * 4096 + (byte_of c1 mod 64) * 64 + byte_of c2 mod 64, 3)
       else (rune_error, 1)
   | _ \<Rightarrow> (rune_error, 1))"

definition decode4 :: "nat \<Rightarrow> string \<Rightarrow> nat \<times> nat" where
  "decode4 b cs = (case cs of
     c1 # c2 # c3 # _ \<Rightarrow>
       if cont_byte c1 \<and> cont_byte c2 \<and> cont_byte c3
          \<and> (b = 240 \<longrightarrow> 144 \<le> byte_of c1) \<and> (b = 244 \<longrightarrow> byte_of c1 < 144)
       then ((b mod 8) * 262144 + (byte_of c1 mod 64) * 4096 + (byte_of c2 mod 64) * 64
              + byte_of c3 mod 64, 4)
       else (rune_error, 1)
   | _ \<Rightarrow> (rune_error, 1))"

definition decode_rune :: "char \<Rightarrow> string \<Rightarrow> nat \<times> nat" where
  "decode_rune c cs = (let b = byte_of c in
     if b < 128 then (b, 1)
     else if b < 194 then (rune_error, 1)
     else if b < 224 then decode2 b cs
     else if b < 240 then decode3 b cs
     else if b < 245 then decode4 b cs
     else (rune_error, 1))"

text \<open>A string as its runes, each with the bytes it was read from.\<close>

fun runes :: "string \<Rightarrow> (nat \<times> string) list" where
  "runes [] = []"
| "runes (c # cs) =
     (let (r, n) = decode_rune c cs
      in (r, c # take (n - 1) cs) # runes (drop (n - 1) cs))"

definition unrunes :: "(nat \<times> string) list \<Rightarrow> string" where
  "unrunes rs = concat (map snd rs)"

lemma unrunes_runes [simp]: "unrunes (runes s) = s"
  by (induction s rule: runes.induct) (auto simp: unrunes_def split: prod.splits)

definition rune_count :: "string \<Rightarrow> nat" where
  "rune_count s = length (runes s)"

text \<open>\<open>strings.IndexFunc(s, p) >= 0\<close>\<close>

definition has_rune :: "(nat \<Rightarrow> bool) \<Rightarrow> string \<Rightarrow> bool" where
  "has_rune p s \<longleftrightarrow> list_ex (\<lambda>r. p (fst r)) (runes s)"

definition is_space :: "nat \<Rightarrow> bool" where
  "is_space r \<longleftrightarrow> (9 \<le> r \<and> r \<le> 13) \<or> r = 32 \<or> r = 133 \<or> r = 160 \<or> r = 5760
     \<or> (8192 \<le> r \<and> r \<le> 8202) \<or> r = 8232 \<or> r = 8233 \<or> r = 8239 \<or> r = 8287 \<or> r = 12288"

definition is_control :: "nat \<Rightarrow> bool" where
  "is_control r \<longleftrightarrow> r < 32 \<or> (127 \<le> r \<and> r < 160)"

text \<open>\<open>strings.TrimSpace\<close>\<close>

definition trim_space :: "string \<Rightarrow> string" where
  "trim_space s = unrunes (rev (dropWhile (is_space \<circ> fst) (rev (dropWhile (is_space \<circ> fst) (runes s)))))"

lemma trim_space_Nil [simp]: "trim_space [] = []"
  by (simp add: trim_space_def unrunes_def)

lemma length_unrunes_dropWhile: "length (unrunes (dropWhile p rs)) \<le> length (unrunes rs)"
  by (induction rs) (auto simp: unrunes_def)

lemma length_unrunes_rev: "length (unrunes (rev rs)) = length (unrunes rs)"
  by (induction rs) (auto simp: unrunes_def)

lemma length_trim_space: "length (trim_space s) \<le> length s"
proof -
  have "length (trim_space s)
      \<le> length (unrunes (rev (dropWhile (is_space \<circ> fst) (runes s))))"
    unfolding trim_space_def length_unrunes_rev
    by (rule order_trans [OF length_unrunes_dropWhile]) (simp add: length_unrunes_rev)
  also have "\<dots> \<le> length (unrunes (runes s))"
    unfolding length_unrunes_rev by (rule length_unrunes_dropWhile)
  finally show ?thesis by simp
qed

text \<open>
  Decoding is local: a rune is read from its own bytes, and cutting the string at a rune
  boundary, on either side, leaves the other runes as they are.  So trimming twice is trimming
  once.
\<close>

lemma decode_rune_width: "0 < snd (decode_rune c cs) \<and> snd (decode_rune c cs) \<le> Suc (length cs)"
  by (auto simp: decode_rune_def decode2_def decode3_def decode4_def Let_def split: list.splits)

lemma decode_rune_take:
  "snd (decode_rune c cs) - 1 \<le> m \<Longrightarrow> decode_rune c (take m cs) = decode_rune c cs"
  by (cases m; cases cs; cases "m - 1"; cases "tl cs"; cases "m - 2"; cases "tl (tl cs)")
    (auto simp: decode_rune_def decode2_def decode3_def decode4_def Let_def split: list.splits if_splits)

lemma runes_drop: "runes (unrunes (drop k (runes s))) = drop k (runes s)"
proof (induction s arbitrary: k rule: runes.induct)
  case 1
  then show ?case by (simp add: unrunes_def)
next
  case (2 c cs)
  obtain r n where d: "decode_rune c cs = (r, n)" by fastforce
  show ?case
  proof (cases k)
    case 0
    then show ?thesis by (metis drop0 unrunes_runes)
  next
    case (Suc j)
    then show ?thesis using 2 [OF d [symmetric] refl] d by simp
  qed
qed

lemma runes_take: "runes (unrunes (take k (runes s))) = take k (runes s)"
proof (induction s arbitrary: k rule: runes.induct)
  case 1
  then show ?case by (simp add: unrunes_def)
next
  case (2 c cs)
  obtain r n where d: "decode_rune c cs = (r, n)" by fastforce
  show ?case
  proof (cases k)
    case 0
    then show ?thesis by (simp add: unrunes_def)
  next
    case (Suc j)
    let ?t = "unrunes (take j (runes (drop (n - 1) cs)))"
    have n: "n - 1 \<le> length cs" using decode_rune_width [of c cs] d by auto
    obtain w where w: "cs = take (n - 1) cs @ ?t @ w"
    proof -
      have "drop (n - 1) cs = ?t @ unrunes (drop j (runes (drop (n - 1) cs)))"
        by (metis append_take_drop_id concat_append map_append unrunes_def unrunes_runes)
      then show thesis using that by (metis append_take_drop_id)
    qed
    let ?m = "n - 1 + length ?t"
    have t: "take ?m cs = take (n - 1) cs @ ?t"
      by (subst w) (use n in simp)
    have "decode_rune c (take (n - 1) cs @ ?t) = (r, n)"
      using decode_rune_take [of c cs ?m] d t by simp
    moreover have "length (take (n - 1) cs) = n - 1" using n by simp
    ultimately have "runes (c # take (n - 1) cs @ ?t) = (r, c # take (n - 1) cs) # runes ?t"
      by simp
    then show ?thesis using 2 [OF d [symmetric] refl, of j] d Suc by (simp add: unrunes_def)
  qed
qed

lemma dropWhile_rev_take: "\<exists>k. rev (dropWhile p (rev xs)) = take k xs"
proof -
  have "rev (dropWhile p (rev xs)) = take (length xs - length (takeWhile p (rev xs))) xs"
    by (simp add: dropWhile_eq_drop rev_drop)
  then show ?thesis by blast
qed

lemma trim_space_idem [simp]: "trim_space (trim_space s) = trim_space s"
proof -
  let ?p = "is_space \<circ> fst"
  let ?a = "dropWhile ?p (runes s)"
  let ?b = "rev (dropWhile ?p (rev ?a))"
  obtain k where k: "?b = take k ?a" using dropWhile_rev_take by blast
  obtain j where j: "?a = drop j (runes s)" using dropWhile_eq_drop by blast
  have "runes (unrunes ?a) = ?a" unfolding j by (rule runes_drop)
  then have r: "runes (unrunes ?b) = ?b" unfolding k by (metis runes_take)
  have hd: "dropWhile ?p ?b = ?b"
  proof (cases ?b)
    case (Cons x xs)
    then have "?a \<noteq> []" and "hd ?a = x" using k by (cases ?a; cases k; simp)+
    then have "\<not> ?p x" using hd_dropWhile by blast
    then show ?thesis using Cons by simp
  next
    case Nil
    show ?thesis unfolding Nil by simp
  qed
  have "dropWhile ?p (rev ?b) = rev ?b"
    by (simp add: dropWhile_idem)
  then show ?thesis
    unfolding trim_space_def r [unfolded trim_space_def] by (simp add: r hd)
qed

text \<open>What \<open>json.Marshal\<close> stores for a Go string: every byte of no valid sequence becomes U+FFFD.\<close>

definition replacement :: string where
  "replacement = [CHR 0xEF, CHR 0xBF, CHR 0xBD]"

definition valid_utf8 :: "string \<Rightarrow> string" where
  "valid_utf8 s = concat (map (\<lambda>(r, bs). if r = rune_error \<and> length bs = 1 then replacement else bs) (runes s))"

definition utf8_ok :: "string \<Rightarrow> bool" where
  "utf8_ok s \<longleftrightarrow> valid_utf8 s = s"

lemma valid_utf8_Nil [simp]: "valid_utf8 [] = []"
  by (simp add: valid_utf8_def)

definition ascii :: "string \<Rightarrow> bool" where
  "ascii s \<longleftrightarrow> list_all (\<lambda>c. byte_of c < 128) s"

lemma runes_ascii: "ascii s \<Longrightarrow> runes s = map (\<lambda>c. (byte_of c, [c])) s"
  by (induction s) (auto simp: ascii_def decode_rune_def)

lemma utf8_ok_ascii: "ascii s \<Longrightarrow> utf8_ok s"
proof -
  assume a: "ascii s"
  then have "map (\<lambda>(r, bs). if r = rune_error \<and> length bs = 1 then replacement else bs) (runes s)
      = map (\<lambda>c. [c]) s"
    unfolding runes_ascii [OF a] by (auto simp: ascii_def list_all_iff rune_error_def)
  then have "valid_utf8 s = concat (map (\<lambda>c. [c]) s)"
    by (simp add: valid_utf8_def)
  then show ?thesis by (simp add: utf8_ok_def)
qed

section \<open>ASCII case\<close>

text \<open>The two cases of an ASCII letter differ in bit 5.\<close>

definition set_bit5 :: "bool \<Rightarrow> char \<Rightarrow> char" where
  "set_bit5 v c = (case c of Char b0 b1 b2 b3 b4 b5 b6 b7 \<Rightarrow> Char b0 b1 b2 b3 b4 v b6 b7)"

definition lower_char :: "char \<Rightarrow> char" where
  "lower_char c = (if 65 \<le> byte_of c \<and> byte_of c \<le> 90 then set_bit5 True c else c)"

definition upper_char :: "char \<Rightarrow> char" where
  "upper_char c = (if 97 \<le> byte_of c \<and> byte_of c \<le> 122 then set_bit5 False c else c)"

definition lower :: "string \<Rightarrow> string" where
  "lower s = map lower_char s"

section \<open>Prefixes, hex and paths\<close>

definition has_prefix :: "string \<Rightarrow> string \<Rightarrow> bool" where
  "has_prefix s p \<longleftrightarrow> take (length p) s = p"

text \<open>\<open>strings.CutPrefix\<close>\<close>

definition cut_prefix :: "string \<Rightarrow> string \<Rightarrow> string option" where
  "cut_prefix s p = (if has_prefix s p then Some (drop (length p) s) else None)"

lemma cut_prefix_Some: "cut_prefix s p = Some r \<longleftrightarrow> s = p @ r"
  by (auto simp: cut_prefix_def has_prefix_def) (metis append_take_drop_id)

definition hex_digit :: "char \<Rightarrow> bool" where
  "hex_digit c \<longleftrightarrow> (48 \<le> byte_of c \<and> byte_of c \<le> 57)
     \<or> (97 \<le> byte_of c \<and> byte_of c \<le> 102) \<or> (65 \<le> byte_of c \<and> byte_of c \<le> 70)"

text \<open>\<open>hex.DecodeString\<close> as far as the code looks: the number of decoded bytes, if it decodes.\<close>

definition hex_decoded_length :: "string \<Rightarrow> nat option" where
  "hex_decoded_length s = (if even (length s) \<and> list_all hex_digit s then Some (length s div 2) else None)"

fun split_on :: "char \<Rightarrow> string \<Rightarrow> string list" where
  "split_on d [] = [[]]"
| "split_on d (c # cs) = (if c = d then [] # split_on d cs
     else (case split_on d cs of [] \<Rightarrow> [[c]] | w # ws \<Rightarrow> (c # w) # ws))"

text \<open>\<open>strings.ReplaceAll(s, "\r\n", "\n")\<close>\<close>

fun replace_crlf :: "string \<Rightarrow> string" where
  "replace_crlf (a # b # cs) = (if a = CHR 0x0D \<and> b = CHR 0x0A then CHR 0x0A # replace_crlf cs else a # replace_crlf (b # cs))"
| "replace_crlf cs = cs"

abbreviation slash :: char where
  "slash \<equiv> CHR ''/''"

text \<open>\<open>filepath.Base\<close>: trailing slashes go, then the last element.\<close>

definition base_name :: "string \<Rightarrow> string" where
  "base_name p = (if p = [] then ''.'' else
     (let q = rev (dropWhile (\<lambda>c. c = slash) (rev p)) in
      if q = [] then ''/'' else last (split_on slash q)))"

definition is_abs :: "string \<Rightarrow> bool" where
  "is_abs p \<longleftrightarrow> has_prefix p ''/''"

text \<open>\<open>filepath.Clean\<close>: the elements kept, in reverse, after \<open>.\<close> and \<open>..\<close> are resolved.\<close>

fun clean_elems :: "bool \<Rightarrow> string list \<Rightarrow> string list \<Rightarrow> string list" where
  "clean_elems rooted acc [] = acc"
| "clean_elems rooted acc (e # es) =
     (if e = [] \<or> e = ''.'' then clean_elems rooted acc es
      else if e = ''..'' then
        (if acc \<noteq> [] \<and> hd acc \<noteq> ''..'' then clean_elems rooted (tl acc) es
         else if rooted then clean_elems rooted acc es
         else clean_elems rooted (e # acc) es)
      else clean_elems rooted (e # acc) es)"

fun join_with :: "char \<Rightarrow> string list \<Rightarrow> string" where
  "join_with d [] = []"
| "join_with d [w] = w"
| "join_with d (w # ws) = w @ d # join_with d ws"

definition clean_path :: "string \<Rightarrow> string" where
  "clean_path p = (let rooted = is_abs p;
                       body = join_with slash (rev (clean_elems rooted [] (split_on slash p)))
     in if rooted then slash # body else if body = [] then ''.'' else body)"

section \<open>Evaluation\<close>

text \<open>With these equations \<open>simp\<close> evaluates the text functions on literal strings.\<close>

lemmas text_eval = trim_space_def rune_count_def has_rune_def valid_utf8_def utf8_ok_def
  decode_rune_def decode2_def decode3_def decode4_def cont_byte_def rune_error_def unrunes_def
  is_space_def is_control_def lower_def lower_char_def upper_char_def set_bit5_def
  has_prefix_def cut_prefix_def hex_digit_def is_abs_def clean_path_def base_name_def Let_def

end
