(* ===== verification/Json.thy ===== *)
theory Json
  imports Go_Text
begin

text \<open>
  JSON values and the two directions of Go's \<open>encoding/json\<close> that the ledger and the runner
  protocol rely on.  A payload text stands for the value it parses to, \<open>None\<close> when it is not
  JSON.  Decoding into a struct goes through the members in order: a member whose key matches
  a field name (exactly or up to case) is stored into the field, \<open>null\<close> leaves a scalar field
  as it is, a value of the wrong type fails the whole call, and unknown members are ignored.
  Encoding stores strings with ill-formed bytes replaced, and \<open>omitempty\<close> fields only when
  they are not empty.
\<close>

datatype json =
    JNull
  | JBool bool
  | JInt int
  | JReal string
  | JStr string
  | JArr "json list"
  | JObj "(string \<times> json) list"

type_synonym members = "(string \<times> json) list"

section \<open>Decoding\<close>

text \<open>
  Does a member key name a field?  Go folds case, and two runes outside ASCII fold to a letter:
  U+017F (bytes C5 BF) to \<open>s\<close> and U+212A (bytes E2 84 AA) to \<open>k\<close>.
\<close>

fun key_match :: "string \<Rightarrow> string \<Rightarrow> bool" where
  "key_match [] k \<longleftrightarrow> k = []"
| "key_match (n # ns) [] \<longleftrightarrow> False"
| "key_match (n # ns) (c # cs) \<longleftrightarrow>
     (if n = c \<or> upper_char n = upper_char c then key_match ns cs
      else if upper_char n = CHR ''S'' \<and> take 2 (c # cs) = [CHR 0xC5, CHR 0xBF]
      then key_match ns (drop 1 cs)
      else if upper_char n = CHR ''K'' \<and> take 3 (c # cs) = [CHR 0xE2, CHR 0x84, CHR 0xAA]
      then key_match ns (drop 2 cs)
      else False)"

text \<open>A decoder takes the field's present value and gives the new one, \<open>None\<close> for a type error.\<close>

type_synonym 'a decoder = "'a \<Rightarrow> json \<Rightarrow> 'a option"

definition field_step :: "'a decoder \<Rightarrow> string \<Rightarrow> 'a option \<Rightarrow> string \<times> json \<Rightarrow> 'a option" where
  "field_step dec name acc m =
     (if key_match name (fst m) then (case acc of None \<Rightarrow> None | Some x \<Rightarrow> dec x (snd m)) else acc)"

definition field :: "'a decoder \<Rightarrow> string \<Rightarrow> 'a \<Rightarrow> members \<Rightarrow> 'a option" where
  "field dec name d ms = foldl (field_step dec name) (Some d) ms"

fun dec_str :: "string decoder" where
  "dec_str x JNull = Some x"
| "dec_str x (JStr s) = Some s"
| "dec_str x _ = None"

fun dec_bool :: "bool decoder" where
  "dec_bool x JNull = Some x"
| "dec_bool x (JBool b) = Some b"
| "dec_bool x _ = None"

fun dec_int :: "int decoder" where
  "dec_int x JNull = Some x"
| "dec_int x (JInt n) = (if in_i64 n then Some n else None)"
| "dec_int x _ = None"

text \<open>A pointer field: \<open>null\<close> is the nil pointer.\<close>

fun dec_ptr :: "'a \<Rightarrow> 'a decoder \<Rightarrow> 'a option decoder" where
  "dec_ptr z dec x JNull = Some None"
| "dec_ptr z dec x v = map_option Some (dec (case x of None \<Rightarrow> z | Some y \<Rightarrow> y) v)"

text \<open>A slice field: \<open>null\<close> is the nil slice; element \<open>i\<close> is decoded over the old element \<open>i\<close>.\<close>

fun dec_elems :: "'a \<Rightarrow> 'a decoder \<Rightarrow> 'a list \<Rightarrow> json list \<Rightarrow> 'a list option" where
  "dec_elems z dec xs [] = Some []"
| "dec_elems z dec xs (v # vs) =
     (case dec (case xs of [] \<Rightarrow> z | x # _ \<Rightarrow> x) v of None \<Rightarrow> None
      | Some y \<Rightarrow> map_option ((#) y) (dec_elems z dec (case xs of [] \<Rightarrow> [] | _ # r \<Rightarrow> r) vs))"

fun dec_list :: "'a \<Rightarrow> 'a decoder \<Rightarrow> 'a list decoder" where
  "dec_list z dec xs JNull = Some []"
| "dec_list z dec xs (JArr vs) = dec_elems z dec xs vs"
| "dec_list z dec xs _ = None"

text \<open>
  A struct: \<open>null\<close> changes nothing, an object is handed to the field decoders, anything else
  is a type error.
\<close>

fun dec_struct :: "('a \<Rightarrow> members \<Rightarrow> 'a option) \<Rightarrow> 'a decoder" where
  "dec_struct f x JNull = Some x"
| "dec_struct f x (JObj ms) = f x ms"
| "dec_struct f x _ = None"

text \<open>\<open>json.Unmarshal\<close> into a fresh value \<open>z\<close>: \<open>None\<close> is its error.\<close>

definition unmarshal :: "'a decoder \<Rightarrow> 'a \<Rightarrow> json option \<Rightarrow> 'a option" where
  "unmarshal dec z payload = (case payload of None \<Rightarrow> None | Some v \<Rightarrow> dec z v)"

lemma unmarshal_None [simp]: "unmarshal dec z None = None"
  and unmarshal_Some [simp]: "unmarshal dec z (Some v) = dec z v"
  by (simp_all add: unmarshal_def)

section \<open>Encoding\<close>

definition jstr :: "string \<Rightarrow> json" where
  "jstr s = JStr (valid_utf8 s)"

text \<open>A field with \<open>omitempty\<close>.\<close>

definition opt_str :: "string \<Rightarrow> string \<Rightarrow> members" where
  "opt_str name s = (if s = [] then [] else [(name, jstr s)])"

definition opt_bool :: "string \<Rightarrow> bool \<Rightarrow> members" where
  "opt_bool name b = (if b then [(name, JBool True)] else [])"

text \<open>A \<open>nil\<close> slice is \<open>null\<close>; the model writes it for the empty list where the source may pass one.\<close>

definition jstrs :: "string list \<Rightarrow> json" where
  "jstrs ss = JArr (map jstr ss)"

section \<open>Decoding what was encoded\<close>

lemma field_Nil [json_simps]: "field dec name d [] = Some d"
  by (simp add: field_def)

lemma foldl_field_None: "foldl (field_step dec name) None ms = None"
  by (induction ms) (auto simp: field_step_def)

lemma field_Cons [json_simps]:
  "field dec name d ((k, v) # ms) =
     (if key_match name k then (case dec d v of None \<Rightarrow> None | Some d' \<Rightarrow> field dec name d' ms)
      else field dec name d ms)"
  by (cases "dec d v") (simp_all add: field_def field_step_def foldl_field_None)

lemma field_append [json_simps]:
  "field dec name d (ms @ ns) =
     (case field dec name d ms of None \<Rightarrow> None | Some d' \<Rightarrow> field dec name d' ns)"
  by (cases "field dec name d ms") (simp_all add: field_def foldl_field_None)

lemma field_opt_str_other [json_simps]:
  "\<not> key_match name k \<Longrightarrow> field dec name d (opt_str k s) = Some d"
  by (simp add: opt_str_def json_simps)

lemma field_opt_str_same [json_simps]:
  "key_match name k \<Longrightarrow> field dec_str name [] (opt_str k s) = Some (valid_utf8 s)"
  by (simp add: opt_str_def json_simps jstr_def)

lemma field_opt_bool_other [json_simps]:
  "\<not> key_match name k \<Longrightarrow> field dec name d (opt_bool k b) = Some d"
  by (simp add: opt_bool_def json_simps)

lemma field_opt_bool_same [json_simps]:
  "key_match name k \<Longrightarrow> field dec_bool name False (opt_bool k b) = Some b"
  by (simp add: opt_bool_def json_simps)

lemma dec_str_jstr [json_simps]: "dec_str x (jstr s) = Some (valid_utf8 s)"
  by (simp add: jstr_def)

lemma dec_elems_jstr: "dec_elems z dec_str xs (map jstr ss) = Some (map valid_utf8 ss)"
  by (induction ss arbitrary: xs) (auto simp: json_simps)

lemma dec_list_jstrs [json_simps]: "dec_list z dec_str xs (jstrs ss) = Some (map valid_utf8 ss)"
  by (simp add: jstrs_def dec_elems_jstr)

text \<open>Key matching on literal field names evaluates with these.\<close>

lemmas key_simps = upper_char_def set_bit5_def

lemma key_match_refl [simp]: "key_match k k"
  by (induction k) auto

lemma key_match_examples:
  "\<not> key_match ''task_links'' ''tool''" "key_match ''name'' ''NAME''"
  "key_match ''task'' [CHR ''t'', CHR ''a'', CHR 0xC5, CHR 0xBF, CHR 0xE2, CHR 0x84, CHR 0xAA]"
  by (simp_all add: key_simps)

end
