(* ===== verification/Ledger_Types.thy ===== *)
theory Ledger_Types
  imports Json "HOL-Library.Monad_Syntax"
begin

text \<open>
  The data of \<open>runtime/internal/ledger\<close>: lane events, the folded lane state, task and pull
  request links, and the JSON payloads of the events with their encoders (what the writers
  store) and decoders (what the fold reads).  Field names carry a two-letter prefix per struct;
  an embedded struct is a field of its own.  \<open>EventType\<close> is a datatype with one constructor per
  constant and \<open>OtherEvent\<close> for any other text a row may hold.
\<close>

section \<open>Events\<close>

datatype event_type =
    EventCreated | EventLaunchStarted | EventRunnerReady | EventProviderBound | EventAttached
  | EventActivity | EventIdle | EventRenamed | EventDescriptionDerived | EventUserKillRequested
  | EventRunnerExited | EventRunnerLost | EventRunnerArtifactsRetired | EventReaped | EventReopened
  | EventArchived | EventDaemonRestart | EventMovedTo | EventMovedFrom | EventProviderRebound
  | EventMessageRelayed | EventWorktreeCleanRequested | EventWorktreeCleaned
  | EventTaskLinked | EventTaskUnlinked
  | EventPullRequestLinked | EventPullRequestUnlinked | EventPullRequestObserved | EventPullRequestAdded
  | OtherEvent string

text \<open>The text of the constant, as stored in the \<open>type\<close> column.\<close>

fun event_type_text :: "event_type \<Rightarrow> string" where
  "event_type_text EventCreated = ''created''"
| "event_type_text EventLaunchStarted = ''launch_started''"
| "event_type_text EventRunnerReady = ''runner_ready''"
| "event_type_text EventProviderBound = ''provider_bound''"
| "event_type_text EventAttached = ''attached''"
| "event_type_text EventActivity = ''activity''"
| "event_type_text EventIdle = ''idle''"
| "event_type_text EventRenamed = ''renamed''"
| "event_type_text EventDescriptionDerived = ''description_derived''"
| "event_type_text EventUserKillRequested = ''user_kill_requested''"
| "event_type_text EventRunnerExited = ''runner_exited''"
| "event_type_text EventRunnerLost = ''runner_lost''"
| "event_type_text EventRunnerArtifactsRetired = ''runner_artifacts_retired''"
| "event_type_text EventReaped = ''reaped''"
| "event_type_text EventReopened = ''reopened''"
| "event_type_text EventArchived = ''archived''"
| "event_type_text EventDaemonRestart = ''daemon_restart''"
| "event_type_text EventMovedTo = ''moved_to''"
| "event_type_text EventMovedFrom = ''moved_from''"
| "event_type_text EventProviderRebound = ''provider_rebound''"
| "event_type_text EventMessageRelayed = ''message_relayed''"
| "event_type_text EventWorktreeCleanRequested = ''worktree_clean_requested''"
| "event_type_text EventWorktreeCleaned = ''worktree_cleaned''"
| "event_type_text EventTaskLinked = ''task_linked''"
| "event_type_text EventTaskUnlinked = ''task_unlinked''"
| "event_type_text EventPullRequestLinked = ''pull_request_linked''"
| "event_type_text EventPullRequestUnlinked = ''pull_request_unlinked''"
| "event_type_text EventPullRequestObserved = ''pull_request_observed''"
| "event_type_text EventPullRequestAdded = ''pull_request_added''"
| "event_type_text (OtherEvent s) = s"

text \<open>One row of \<open>lane_events\<close>.\<close>

record event =
  ev_Seq :: int
  ev_EventID :: string
  ev_LaneID :: string
  ev_Type :: event_type
  ev_AtMS :: int
  ev_Actor :: string
  ev_SchemaVersion :: int
  ev_Payload :: "json option"

record meta =
  mt_EventID :: string
  mt_LaneID :: string
  mt_AtMS :: int
  mt_Actor :: string

abbreviation ActorUser :: string where "ActorUser \<equiv> ''user''"
abbreviation ActorDaemon :: string where "ActorDaemon \<equiv> ''daemon''"
abbreviation ActorRunner :: string where "ActorRunner \<equiv> ''runner''"
abbreviation ActorProvider :: string where "ActorProvider \<equiv> ''provider''"
abbreviation ActorRecovery :: string where "ActorRecovery \<equiv> ''recovery''"
abbreviation ActorAdopt :: string where "ActorAdopt \<equiv> ''adopt''"

abbreviation CreatorSession :: string where "CreatorSession \<equiv> ''session''"
abbreviation CreatorUser :: string where "CreatorUser \<equiv> ''user''"
abbreviation CreatorExternal :: string where "CreatorExternal \<equiv> ''external''"

abbreviation DescriptionExplicit :: string where "DescriptionExplicit \<equiv> ''explicit''"
abbreviation DescriptionFirstMessage :: string where "DescriptionFirstMessage \<equiv> ''first-message''"

abbreviation ActivityHumanInput :: string where "ActivityHumanInput \<equiv> ''human_input''"
abbreviation ActivitySessionInput :: string where "ActivitySessionInput \<equiv> ''session_input''"
abbreviation ActivityProviderEvent :: string where "ActivityProviderEvent \<equiv> ''provider_event''"

section \<open>Task and pull request links\<close>

record task_link =
  tl_Ref :: string
  tl_Project :: string
  tl_PullRequestURL :: string

record lane_task =
  lt_Link :: task_link
  lt_LinkedAtMS :: int

record pull_request_ref =
  rf_URL :: string
  rf_Host :: string
  rf_Owner :: string
  rf_Repo :: string
  rf_Number :: int

record pull_request_observation =
  ob_State :: string
  ob_Draft :: bool
  ob_MergedAt :: string
  ob_MergeCommit :: string
  ob_HeadRef :: string
  ob_HeadSHA :: string
  ob_BaseRef :: string
  ob_Mergeable :: string
  ob_Checks :: string
  ob_ChecksTotal :: int
  ob_ChecksFailing :: int
  ob_ChecksPending :: int

record lane_pull_request =
  lp_Ref :: pull_request_ref
  lp_LinkedAtMS :: int
  lp_Observed :: bool
  lp_ObservedAtMS :: int
  lp_Observation :: pull_request_observation
  lp_Merged :: bool
  lp_Tasks :: "lane_task list"

abbreviation lp_URL :: "lane_pull_request \<Rightarrow> string" where
  "lp_URL p \<equiv> rf_URL (lp_Ref p)"

definition empty_task_link :: task_link where
  "empty_task_link = \<lparr>tl_Ref = [], tl_Project = [], tl_PullRequestURL = []\<rparr>"

definition empty_ref :: pull_request_ref where
  "empty_ref = \<lparr>rf_URL = [], rf_Host = [], rf_Owner = [], rf_Repo = [], rf_Number = 0\<rparr>"

definition empty_observation :: pull_request_observation where
  "empty_observation = \<lparr>ob_State = [], ob_Draft = False, ob_MergedAt = [], ob_MergeCommit = [],
     ob_HeadRef = [], ob_HeadSHA = [], ob_BaseRef = [], ob_Mergeable = [], ob_Checks = [],
     ob_ChecksTotal = 0, ob_ChecksFailing = 0, ob_ChecksPending = 0\<rparr>"

definition link_of_ref :: "pull_request_ref \<Rightarrow> int \<Rightarrow> lane_pull_request" where
  "link_of_ref r at = \<lparr>lp_Ref = r, lp_LinkedAtMS = at, lp_Observed = False, lp_ObservedAtMS = 0,
     lp_Observation = empty_observation, lp_Merged = False, lp_Tasks = []\<rparr>"

definition empty_pull_request :: lane_pull_request where
  "empty_pull_request = link_of_ref empty_ref 0"

section \<open>The folded lane state\<close>

record lane_state =
  ls_LaneID :: string
  ls_Name :: string
  ls_Description :: string
  ls_DescriptionSource :: string
  ls_Kind :: string
  ls_Tool :: string
  ls_Cwd :: string
  ls_Profile :: string
  ls_ConfigDir :: string
  ls_WorktreePath :: string
  ls_Branch :: string
  ls_Base :: string
  ls_SourceRepo :: string
  ls_ResumeArgv :: "string list"
  ls_ProviderUUID :: string
  ls_CreatorKind :: string
  ls_CreatorID :: string
  ls_DelegationKind :: string
  ls_StartOperationID :: string
  ls_PromptOperationID :: string
  ls_RequestFingerprint :: string
  ls_CreatedAtMS :: int
  ls_LastEventAtMS :: int
  ls_LastActivityAtMS :: int
  ls_LastHumanInputAtMS :: int
  ls_LastProviderActivityAtMS :: int
  ls_LastActivitySource :: string
  ls_LatestEvent :: event_type
  ls_ClosedAtMS :: int
  ls_ArchivedAtMS :: int
  ls_ExitCode :: "int option"
  ls_ExitSignal :: "string option"
  ls_EndInitiatorKind :: string
  ls_EndInitiatorID :: string
  ls_EndInitiatorName :: string
  ls_EndClient :: string
  ls_EndReason :: string
  ls_EndOperationID :: string
  ls_Created :: bool
  ls_LaunchStarted :: bool
  ls_RunnerReady :: bool
  ls_ProviderBound :: bool
  ls_Attached :: bool
  ls_ManagedActive :: bool
  ls_UserKillRequested :: bool
  ls_RunnerExited :: bool
  ls_RunnerLost :: bool
  ls_Reaped :: bool
  ls_ReopenedAs :: string
  ls_Archived :: bool
  ls_ProviderReboundAs :: string
  ls_MovedToMachine :: string
  ls_MovedToLaneID :: string
  ls_MovedToSeq :: int
  ls_MovedFromMachine :: string
  ls_MovedFromLaneID :: string
  ls_MovedFromSeq :: int
  ls_WorktreeCleanRequested :: bool
  ls_WorktreeCleanBranchHead :: string
  ls_WorktreeCleaned :: bool
  ls_WorktreeCleanedAtMS :: int
  ls_WorktreeBranchRemoved :: bool
  ls_PullRequest :: lane_pull_request
  ls_LastLifecycleAtMS :: int
  ls_Tasks :: "lane_task list"
  ls_PullRequests :: "lane_pull_request list"
  ls_ReopenedSuccessors :: "string list"

end
