(* ===== verification/Provider_Args.thy ===== *)
theory Provider_Args
  imports Go_Text
begin

text \<open>
  \<open>runtime/internal/providerargs/providerargs.go\<close>: how the Claude and Codex command lines
  spell a conversation id, a model and the Codex \<open>-c key=value\<close> settings.  Every definition is
  the function of the same name; a flag and its value are read from one argument list.
\<close>

section \<open>The flag tables\<close>

definition claudeResumeFlags :: "string list" where
  "claudeResumeFlags = [''--resume'', ''-r'']"

definition claudeIdentityFlags :: "string list" where
  "claudeIdentityFlags = [''--session-id'', ''--resume'', ''-r'']"

definition codexResumeFlags :: "string list" where
  "codexResumeFlags = [''resume'', ''--resume'']"

section \<open>Reading an argument list\<close>

text \<open>\<open>conversationUUID\<close>: groups of 8, 4, 4, 4 and 12 hexadecimal digits of either case.\<close>

definition uuid_shape :: "string \<Rightarrow> bool" where
  "uuid_shape s = (case split_on CHR ''-'' s of
     [a, b, c, d, e] \<Rightarrow> length a = 8 \<and> length b = 4 \<and> length c = 4 \<and> length d = 4 \<and> length e = 12
       \<and> list_all hex_digit (a @ b @ c @ d @ e)
   | _ \<Rightarrow> False)"

definition IsConversationUUID :: "string \<Rightarrow> bool" where
  "IsConversationUUID value = uuid_shape (trim_space value)"

text \<open>The values one argument contributes for one name, given the arguments after it.\<close>

definition value_for :: "string \<Rightarrow> string list \<Rightarrow> string \<Rightarrow> string list" where
  "value_for argument rest name =
     (if argument = name then (case rest of [] \<Rightarrow> [] | next # _ \<Rightarrow> [trim_space next])
      else if has_prefix name ''--'' then
        (case cut_prefix argument (name @ ''='') of Some v \<Rightarrow> [trim_space v] | None \<Rightarrow> [])
      else [])"

fun Values :: "string list \<Rightarrow> string list \<Rightarrow> string list" where
  "Values [] names = []"
| "Values (argument # rest) names = concat (map (value_for argument rest) names) @ Values rest names"

definition Value :: "string list \<Rightarrow> string list \<Rightarrow> string" where
  "Value args names = (case Values args names of [] \<Rightarrow> [] | v # _ \<Rightarrow> v)"

definition mentions :: "string \<Rightarrow> string \<Rightarrow> bool" where
  "mentions argument name \<longleftrightarrow>
     argument = name \<or> (has_prefix name ''--'' \<and> has_prefix argument (name @ ''=''))"

definition Has :: "string list \<Rightarrow> string list \<Rightarrow> bool" where
  "Has args names \<longleftrightarrow> list_ex (\<lambda>argument. list_ex (mentions argument) names) args"

definition HasValue :: "string list \<Rightarrow> string list \<Rightarrow> bool" where
  "HasValue args names \<longleftrightarrow> Values args names \<noteq> []"

definition is_config_flag :: "string \<Rightarrow> bool" where
  "is_config_flag a \<longleftrightarrow> a = ''-c'' \<or> a = ''--config''"

definition quote_char :: "char \<Rightarrow> bool" where
  "quote_char c \<longleftrightarrow> c = CHR 0x22 \<or> c = CHR 0x27"

definition trim_quotes :: "string \<Rightarrow> string" where
  "trim_quotes s = rev (dropWhile quote_char (rev (dropWhile quote_char s)))"

fun ConfigValue :: "string list \<Rightarrow> string \<Rightarrow> string" where
  "ConfigValue (a # b # rest) key =
     (if is_config_flag a then
        (case cut_prefix b (key @ ''='') of
           Some v \<Rightarrow> trim_quotes (trim_space v)
         | None \<Rightarrow> ConfigValue (b # rest) key)
      else ConfigValue (b # rest) key)"
| "ConfigValue _ key = []"

fun HasConfigValue :: "string list \<Rightarrow> string \<Rightarrow> bool" where
  "HasConfigValue (a # b # rest) key =
     ((is_config_flag a \<and> has_prefix b (key @ ''='')) \<or> HasConfigValue (b # rest) key)"
| "HasConfigValue _ key = False"

fun firstIdentity :: "string list \<Rightarrow> string" where
  "firstIdentity [] = []"
| "firstIdentity (c # cs) = (if c = [] \<or> has_prefix c ''-'' then firstIdentity cs else c)"

definition ClaudeSessionID :: "string list \<Rightarrow> string" where
  "ClaudeSessionID args = firstIdentity (Values args claudeIdentityFlags)"

definition ClaudeResumeID :: "string list \<Rightarrow> string" where
  "ClaudeResumeID args = firstIdentity (Values args claudeResumeFlags)"

definition CodexConversationID :: "string list \<Rightarrow> string" where
  "CodexConversationID args = firstIdentity (Values args codexResumeFlags)"

definition HasClaudeIdentity :: "string list \<Rightarrow> bool" where
  "HasClaudeIdentity args = Has args claudeIdentityFlags"

section \<open>Rewriting an argument list\<close>

text \<open>How one argument matches the first of the names it matches.\<close>

datatype match_kind = NoMatch | Separated | Joined

fun flag_match :: "string \<Rightarrow> string list \<Rightarrow> match_kind" where
  "flag_match a [] = NoMatch"
| "flag_match a (name # names) =
     (if a = name then Separated
      else if has_prefix name ''--'' \<and> has_prefix a (name @ ''='') then Joined
      else flag_match a names)"

fun without_flags :: "string list \<Rightarrow> string list \<Rightarrow> string list" where
  "without_flags names [] = []"
| "without_flags names (a # rest) =
     (case flag_match a names of
        Separated \<Rightarrow> without_flags names (drop 1 rest)
      | Joined \<Rightarrow> without_flags names rest
      | NoMatch \<Rightarrow> a # without_flags names rest)"

definition WithValue :: "string list \<Rightarrow> string \<Rightarrow> string list \<Rightarrow> string list" where
  "WithValue args value names =
     (let v = trim_space value in
      without_flags names args @ (if v \<noteq> [] then [hd names, v] else []))"

fun without_config :: "string \<Rightarrow> string list \<Rightarrow> string list" where
  "without_config key (a # b # rest) =
     (if is_config_flag a \<and> has_prefix b (key @ ''='') then without_config key rest
      else a # without_config key (b # rest))"
| "without_config key args = args"

definition WithConfigValue :: "string list \<Rightarrow> string \<Rightarrow> string \<Rightarrow> string list" where
  "WithConfigValue args key value =
     (let v = trim_space value in
      without_config key args @ (if v \<noteq> [] then [''-c'', key @ ''='' @ v] else []))"

section \<open>Lemmas\<close>

lemma value_for_empty: "\<not> mentions a name \<Longrightarrow> value_for a rest name = []"
  by (auto simp: value_for_def mentions_def cut_prefix_def)

lemma flag_match_NoMatch: "flag_match a names = NoMatch \<longleftrightarrow> (\<forall>name \<in> set names. \<not> mentions a name)"
  by (induction names) (auto simp: mentions_def)

lemma without_flags_unmentioned:
  "a \<in> set (without_flags names args) \<Longrightarrow> name \<in> set names \<Longrightarrow> \<not> mentions a name"
  by (induction names args rule: without_flags.induct)
    (auto simp: flag_match_NoMatch split: match_kind.splits)

lemma Values_unmentioned:
  assumes "\<And>a name. a \<in> set xs \<Longrightarrow> name \<in> set names \<Longrightarrow> \<not> mentions a name"
  shows "Values (xs @ ys) names = Values ys names"
  using assms by (induction xs) (auto simp: value_for_empty concat_eq_Nil_conv)

lemma concat_value_for_hd:
  assumes "distinct (n # ns)" and "\<And>m. m \<in> set ns \<Longrightarrow> \<not> mentions n m"
  shows "concat (map (value_for n [v]) (n # ns)) = [trim_space v]"
proof -
  have "concat (map (value_for n [v]) ns) = []"
    using assms(2) by (simp add: concat_eq_Nil_conv value_for_empty)
  then show ?thesis by (simp add: value_for_def)
qed

text \<open>After \<open>WithValue\<close> an argument list gives the flag exactly one value, the trimmed one
  that was set, however often and in whichever spelling the flag occurred before.  The value is
  not itself one of the flags, and the canonical spelling does not read as another one.\<close>

lemma WithValue_single:
  assumes "distinct (n # ns)" and "\<And>m. m \<in> set ns \<Longrightarrow> \<not> mentions n m"
    and "trim_space value \<noteq> []" and "\<And>m. m \<in> set (n # ns) \<Longrightarrow> \<not> mentions (trim_space value) m"
  shows "Values (WithValue args value (n # ns)) (n # ns) = [trim_space value]"
proof -
  let ?v = "trim_space value"
  have "Values (WithValue args value (n # ns)) (n # ns) = Values [n, ?v] (n # ns)"
    unfolding WithValue_def Let_def using assms(3) without_flags_unmentioned
    by (simp only: if_True list.sel(1) simp_thms) (rule Values_unmentioned, blast)
  also have "\<dots> = concat (map (value_for n [?v]) (n # ns)) @ concat (map (value_for ?v []) (n # ns))"
    by simp
  also have "concat (map (value_for ?v []) (n # ns)) = []"
    using assms(4) by (simp add: concat_eq_Nil_conv value_for_empty)
  finally show ?thesis using concat_value_for_hd [OF assms(1,2), of ?v] by simp
qed

lemma WithValue_single_witness:
  "Values (WithValue [''codex'', ''-m'', ''a'', ''--model=b'', ''run''] '' o3 '' [''--model'', ''-m''])
     [''--model'', ''-m''] = [''o3'']"
proof -
  have t: "trim_space '' o3 '' = ''o3''" by (simp add: text_eval)
  have "Values (WithValue [''codex'', ''-m'', ''a'', ''--model=b'', ''run''] '' o3 '' [''--model'', ''-m''])
     [''--model'', ''-m''] = [trim_space '' o3 '']"
    by (rule WithValue_single) (auto simp: mentions_def has_prefix_def t)
  then show ?thesis by (simp add: t)
qed

text \<open>No config flag is directly followed by another one.\<close>

fun config_wf :: "string list \<Rightarrow> bool" where
  "config_wf (a # b # rest) \<longleftrightarrow> \<not> (is_config_flag a \<and> is_config_flag b) \<and> config_wf (b # rest)"
| "config_wf _ \<longleftrightarrow> True"

lemma has_prefix_config_flag: "is_config_flag b \<Longrightarrow> \<not> has_prefix b (key @ ''='')"
proof
  assume b: "is_config_flag b" and "has_prefix b (key @ ''='')"
  then have "CHR ''='' \<in> set b" unfolding has_prefix_def
    by (metis in_set_conv_decomp in_set_takeD)
  with b show False by (auto simp: is_config_flag_def)
qed

lemma config_wf_tl: "config_wf (a # rest) \<Longrightarrow> config_wf rest"
  by (cases rest) auto

lemma HasConfigValue_Cons: "\<not> is_config_flag p \<Longrightarrow> HasConfigValue (p # xs) key = HasConfigValue xs key"
  by (cases xs) auto

lemma without_config_none: "config_wf args \<Longrightarrow> \<not> HasConfigValue (without_config key args) key"
proof (induction key args rule: without_config.induct)
  case (1 key a b rest)
  show ?case
  proof (cases "is_config_flag a \<and> has_prefix b (key @ ''='')")
    case True
    then show ?thesis using 1(1) 1(3) config_wf_tl [of b rest] by simp
  next
    case False
    with 1 have IH: "\<not> HasConfigValue (without_config key (b # rest)) key" by simp
    show ?thesis
    proof (cases "is_config_flag a")
      case True
      with 1(3) have "\<not> is_config_flag b" by simp
      then obtain xs where "without_config key (b # rest) = b # xs" by (cases rest) auto
      with IH True False show ?thesis by simp
    qed (use IH False in \<open>simp add: HasConfigValue_Cons\<close>)
  qed
qed auto

lemma ConfigValue_skip:
  "\<not> HasConfigValue xs key \<Longrightarrow> ConfigValue (xs @ [''-c'', key @ ''='' @ v]) key
     = trim_quotes (trim_space v)"
proof (induction xs key rule: HasConfigValue.induct)
  case (1 a b rest key)
  then show ?case by (auto simp: cut_prefix_def)
next
  case "2_2"
  have "\<not> has_prefix ''-c'' (k @ ''='')" for k
    by (rule has_prefix_config_flag) (simp add: is_config_flag_def)
  then show ?case by (auto simp: cut_prefix_def has_prefix_def is_config_flag_def)
qed (auto simp: cut_prefix_def has_prefix_def is_config_flag_def)

text \<open>Reading a Codex setting back after \<open>WithConfigValue\<close> gives the value that was set, without
  its quotes, whatever settings of the same key the list held, as long as no config flag is
  directly followed by another config flag.\<close>

lemma ConfigValue_WithConfigValue:
  assumes "config_wf args" and "trim_space value \<noteq> []"
  shows "ConfigValue (WithConfigValue args key value) key = trim_quotes (trim_space value)"
  using ConfigValue_skip [OF without_config_none [OF assms(1)], of key "trim_space value"] assms(2)
  by (simp add: WithConfigValue_def Let_def)

lemma ConfigValue_WithConfigValue_witness:
  "ConfigValue (WithConfigValue [''codex'', ''-c'', ''k=1'', ''-c'', ''k=2''] ''k'' ''high'') ''k'' = ''high''"
proof -
  have t: "trim_space ''high'' = ''high''" by (simp add: text_eval)
  have "ConfigValue (WithConfigValue [''codex'', ''-c'', ''k=1'', ''-c'', ''k=2''] ''k'' ''high'') ''k''
      = trim_quotes (trim_space ''high'')"
    by (rule ConfigValue_WithConfigValue) (simp_all add: t is_config_flag_def)
  then show ?thesis by (simp add: t trim_quotes_def quote_char_def)
qed

text \<open>Without that condition the promise of one trailing entry fails: removing a setting can
  join a config flag to a later argument, and the old argument is then read instead of the new
  value.\<close>

lemma WithConfigValue_stale:
  "WithConfigValue [''-c'', ''-c'', ''k=a'', ''k=b''] ''k'' ''c'' = [''-c'', ''k=b'', ''-c'', ''k=c'']
   \<and> ConfigValue (WithConfigValue [''-c'', ''-c'', ''k=a'', ''k=b''] ''k'' ''c'') ''k'' = ''b''"
  by (simp add: WithConfigValue_def is_config_flag_def trim_quotes_def quote_char_def text_eval)

text \<open>\<open>HasValue\<close> counts an empty joined value: after \<open>--flag=\<close> it reports a value although
  the value is empty.\<close>

lemma HasValue_empty_joined:
  "HasValue [''--model=''] [''--model'', ''-m''] \<and> Value [''--model=''] [''--model'', ''-m''] = []"
  by (simp add: HasValue_def Value_def value_for_def has_prefix_def cut_prefix_def)

end
