(* ===== verification/Recipes.thy ===== *)
theory Recipes
  imports Provider_Args Ledger_Types
begin

text \<open>
  \<open>runtime/internal/ledger/recipe.go\<close> and the validators at the end of \<open>store.go\<close>: which
  provider commands may become durable resume recipes, who may be recorded as a creator, and
  which actors an event may name.  The lemmas show that a recipe holds nothing of the original
  command line but its program and one conversation id, and that what the recipe builders
  produce is what the validator accepts.
\<close>

section \<open>Recipes\<close>

definition program_base :: "string \<Rightarrow> string" where
  "program_base cmd = lower (base_name cmd)"

definition is_claude :: "string \<Rightarrow> string \<Rightarrow> bool" where
  "is_claude tool cmd \<longleftrightarrow> tool = ''claude-code'' \<or> program_base cmd = ''claude''"

definition is_codex :: "string \<Rightarrow> string \<Rightarrow> bool" where
  "is_codex tool cmd \<longleftrightarrow> tool = ''codex'' \<or> program_base cmd = ''codex''"

text \<open>The loop over candidates: the first conversation id makes the recipe.\<close>

fun first_recipe :: "string \<Rightarrow> string \<Rightarrow> string list \<Rightarrow> string \<times> string list" where
  "first_recipe cmd mode [] = ([], [])"
| "first_recipe cmd mode (candidate # rest) =
     (if IsConversationUUID candidate then (candidate, [cmd, mode, candidate])
      else first_recipe cmd mode rest)"

definition SafeResumeRecipe :: "string \<Rightarrow> string \<Rightarrow> string list \<Rightarrow> string \<times> string list" where
  "SafeResumeRecipe tool cmd args =
     (if is_claude tool cmd then first_recipe cmd ''--resume'' (Values args claudeIdentityFlags)
      else if is_codex tool cmd then first_recipe cmd ''resume'' (Values args codexResumeFlags)
      else ([], []))"

definition ExistingProviderResume :: "string \<Rightarrow> string list \<Rightarrow> string \<times> string list" where
  "ExistingProviderResume cmd args =
     (if program_base cmd = ''claude'' then first_recipe cmd ''--resume'' (Values args claudeResumeFlags)
      else if program_base cmd = ''codex'' then first_recipe cmd ''resume'' (Values args codexResumeFlags)
      else ([], []))"

definition ResumeRecipeForProvider :: "string \<Rightarrow> string \<Rightarrow> string \<Rightarrow> string list" where
  "ResumeRecipeForProvider tool cmd providerUUID =
     (if \<not> IsConversationUUID providerUUID then []
      else if is_claude tool cmd then [cmd, ''--resume'', providerUUID]
      else if is_codex tool cmd then [cmd, ''resume'', providerUUID]
      else [])"

section \<open>Validation\<close>

definition validActor :: "string \<Rightarrow> bool" where
  "validActor actor \<longleftrightarrow>
     actor \<in> {ActorUser, ActorDaemon, ActorRunner, ActorProvider, ActorRecovery, ActorAdopt}"

definition digits :: "string \<Rightarrow> bool" where
  "digits s \<longleftrightarrow> s \<noteq> [] \<and> list_all (\<lambda>c. 48 \<le> byte_of c \<and> byte_of c \<le> 57) s"

text \<open>\<open>userCreatorPattern\<close>: a Unix uid, or a Windows SID of at least two groups.\<close>

definition user_creator :: "string \<Rightarrow> bool" where
  "user_creator s \<longleftrightarrow>
     (case cut_prefix s ''uid:'' of Some n \<Rightarrow> digits n
      | None \<Rightarrow> (case cut_prefix s ''sid:S-'' of None \<Rightarrow> False
                 | Some r \<Rightarrow> (let groups = split_on CHR ''-'' r
                             in 2 \<le> length groups \<and> list_all digits groups)))"

datatype creator_error =
    CreatorIDRequired
  | InvalidCreatorSession string
  | InvalidUserCreator string
  | InvalidExternalCreator
  | InvalidCreatorKind string

definition ValidateCreator :: "string \<Rightarrow> string \<Rightarrow> creator_error option" where
  "ValidateCreator kind i =
     (if trim_space i \<noteq> i \<or> i = [] then Some CreatorIDRequired
      else if kind = CreatorSession then
        (if \<not> IsConversationUUID i then Some (InvalidCreatorSession i) else None)
      else if kind = CreatorUser then
        (if \<not> user_creator i then Some (InvalidUserCreator i) else None)
      else if kind = CreatorExternal then
        (if length i > 256 \<or> list_ex (\<lambda>c. c = CHR 0x0D \<or> c = CHR 0x0A \<or> c = CHR 0x00) i
         then Some InvalidExternalCreator else None)
      else Some (InvalidCreatorKind kind))"

datatype resume_error =
    ArgvWithoutProvider
  | InvalidProviderUUID string
  | ProviderWithoutArgv
  | NotMinimalRecipe

definition validateResumeIdentity :: "string \<Rightarrow> string \<Rightarrow> string list \<Rightarrow> resume_error option" where
  "validateResumeIdentity tool providerUUID argv =
     (if providerUUID = [] then (if argv \<noteq> [] then Some ArgvWithoutProvider else None)
      else if \<not> IsConversationUUID providerUUID then Some (InvalidProviderUUID providerUUID)
      else case argv of [] \<Rightarrow> Some ProviderWithoutArgv
      | cmd # _ \<Rightarrow>
          (let expected = ResumeRecipeForProvider tool cmd providerUUID;
               expected' = (if tool = [] then
                              (if program_base cmd = ''claude''
                               then ResumeRecipeForProvider ''claude-code'' cmd providerUUID
                               else if program_base cmd = ''codex''
                               then ResumeRecipeForProvider ''codex'' cmd providerUUID
                               else expected)
                            else expected)
           in if argv \<noteq> expected' then Some NotMinimalRecipe else None))"

datatype worktree_error = WorktreePathNotAbsolute | BranchRequired

definition validateWorktreeCleanIdentity :: "string \<Rightarrow> string \<Rightarrow> worktree_error option" where
  "validateWorktreeCleanIdentity path branch =
     (if \<not> is_abs path then Some WorktreePathNotAbsolute
      else if trim_space branch = [] then Some BranchRequired
      else None)"

section \<open>What a recipe can hold\<close>

text \<open>A recipe names a program, one of the two resume modes and one conversation id.\<close>

definition minimal_recipe :: "string \<Rightarrow> string list \<Rightarrow> bool" where
  "minimal_recipe u argv \<longleftrightarrow> IsConversationUUID u \<and>
     (\<exists>cmd \<in> set argv. argv = [cmd, ''--resume'', u] \<or> argv = [cmd, ''resume'', u])"

lemma no_uuid_Nil [simp]: "\<not> IsConversationUUID []"
  by (simp add: IsConversationUUID_def uuid_shape_def)

lemma first_recipe_cases:
  "first_recipe cmd mode cs = ([], []) \<and> list_all (\<lambda>c. \<not> IsConversationUUID c) cs
   \<or> (\<exists>u \<in> set cs. first_recipe cmd mode cs = (u, [cmd, mode, u]) \<and> IsConversationUUID u)"
  by (induction cs) auto

lemma Values_mono: "set names \<subseteq> set names' \<Longrightarrow> set (Values args names) \<subseteq> set (Values args names')"
  by (induction args) auto

lemma ResumeRecipe_minimal: "argv = ResumeRecipeForProvider tool cmd u \<Longrightarrow> argv \<noteq> [] \<Longrightarrow> minimal_recipe u argv"
  by (auto simp: ResumeRecipeForProvider_def minimal_recipe_def split: if_splits)

lemma SafeResumeRecipe_cases:
  assumes "SafeResumeRecipe tool cmd args = (u, argv)"
  shows "u = [] \<and> argv = []
    \<or> IsConversationUUID u \<and> u \<in> set (Values args (claudeIdentityFlags @ codexResumeFlags))
       \<and> argv = ResumeRecipeForProvider tool cmd u \<and> argv \<noteq> []"
proof -
  have v: "set (Values args claudeIdentityFlags) \<subseteq> set (Values args (claudeIdentityFlags @ codexResumeFlags))"
    "set (Values args codexResumeFlags) \<subseteq> set (Values args (claudeIdentityFlags @ codexResumeFlags))"
    by (intro Values_mono; simp)+
  show ?thesis
    using assms v first_recipe_cases [of cmd "''--resume''" "Values args claudeIdentityFlags"]
      first_recipe_cases [of cmd "''resume''" "Values args codexResumeFlags"]
    by (auto simp: SafeResumeRecipe_def ResumeRecipeForProvider_def split: if_splits)
qed

text \<open>
  The second look at the program name in the validator changes nothing: without a tool the
  recipe builder falls back on the program name itself.
\<close>

lemma validateResumeIdentity_None:
  "validateResumeIdentity tool u argv = None \<longleftrightarrow>
     (u = [] \<and> argv = []) \<or>
     (IsConversationUUID u \<and> (\<exists>cmd rest. argv = cmd # rest \<and> argv = ResumeRecipeForProvider tool cmd u))"
  by (cases argv)
    (auto simp: validateResumeIdentity_def ResumeRecipeForProvider_def is_claude_def is_codex_def Let_def)

lemma split_on_in: "x \<in> set s \<Longrightarrow> x = d \<or> (\<exists>w \<in> set (split_on d s). x \<in> set w)"
proof (induction s)
  case (Cons c s)
  then show ?case by (cases "split_on d s"; cases "x = c"; cases "c = d") auto
qed simp

lemma uuid_shape_ascii: "uuid_shape s \<Longrightarrow> ascii s"
  unfolding ascii_def list_all_iff
proof
  fix x assume u: "uuid_shape s" and "x \<in> set s"
  then consider "x = CHR ''-''" | w where "w \<in> set (split_on CHR ''-'' s)" "x \<in> set w"
    using split_on_in by blast
  then show "byte_of x < 128"
  proof cases
    case 2
    then have "hex_digit x" using u
      by (auto simp: uuid_shape_def list_all_iff split: list.splits)
    then show ?thesis by (auto simp: hex_digit_def)
  qed simp
qed

lemma trim_space_runes:
  obtains pre post where "runes s = pre @ runes (trim_space s) @ post"
    and "list_all (is_space \<circ> fst) (pre @ post)"
proof -
  let ?p = "is_space \<circ> fst"
  let ?a = "dropWhile ?p (runes s)"
  let ?b = "rev (dropWhile ?p (rev ?a))"
  obtain k where k: "?b = take k ?a" using dropWhile_rev_take by blast
  obtain j where j: "?a = drop j (runes s)" using dropWhile_eq_drop by blast
  have "runes (unrunes ?a) = ?a" unfolding j by (rule runes_drop)
  then have "runes (unrunes ?b) = ?b" unfolding k by (metis runes_take)
  then have b: "runes (trim_space s) = ?b" by (simp add: trim_space_def)
  have "rev ?a = takeWhile ?p (rev ?a) @ rev ?b" by simp
  then have "?a = ?b @ rev (takeWhile ?p (rev ?a))" by (metis rev_append rev_rev_ident)
  then have "runes s = takeWhile ?p (runes s) @ ?b @ rev (takeWhile ?p (rev ?a))"
    by (metis takeWhile_dropWhile_id)
  then show thesis unfolding b [symmetric]
    by (rule that) (auto simp: list_all_iff dest: set_takeWhileD)
qed

text \<open>A conversation id is text: \<open>json.Marshal\<close> stores it as it is.\<close>

lemma uuid_valid_utf8: "IsConversationUUID u \<Longrightarrow> valid_utf8 u = u"
proof -
  assume "IsConversationUUID u"
  then have a: "ascii (trim_space u)" by (simp add: IsConversationUUID_def uuid_shape_ascii)
  obtain pre post where r: "runes u = pre @ runes (trim_space u) @ post"
    and sp: "list_all (is_space \<circ> fst) (pre @ post)"
    by (rule trim_space_runes)
  have e: "\<not> is_space rune_error" by (simp add: is_space_def rune_error_def)
  have "is_space r" if "(r, bs) \<in> set (pre @ post)" for r bs
    using bspec [OF sp [unfolded list_all_iff] that] by simp
  then have "r \<noteq> rune_error" if "(r, bs) \<in> set (pre @ post)" for r bs
    using that e by blast
  moreover have "r \<noteq> rune_error" if "(r, bs) \<in> set (runes (trim_space u))" for r bs
    using that a by (auto simp: runes_ascii list_all_iff ascii_def rune_error_def)
  ultimately have "r \<noteq> rune_error" if "(r, bs) \<in> set (runes u)" for r bs
    using that unfolding r by auto
  then have "map (\<lambda>(r, bs). if r = rune_error \<and> length bs = 1 then replacement else bs) (runes u)
      = map snd (runes u)" by (intro map_cong) auto
  then show ?thesis unfolding valid_utf8_def by (simp only: unrunes_def [symmetric] unrunes_runes)
qed

section \<open>Properties\<close>

text \<open>Whatever command a session was launched with, the recipe recorded to resume it is accepted
  by the ledger's validation, and besides the program it holds only a resume mode and one
  conversation id that the arguments themselves named: never a prompt or another argument.\<close>

lemma SafeResumeRecipe_minimal:
  assumes "SafeResumeRecipe tool cmd args = (u, argv)"
  shows "validateResumeIdentity tool u argv = None
    \<and> (argv = [] \<and> u = []
       \<or> argv \<in> {[cmd, ''--resume'', u], [cmd, ''resume'', u]} \<and> IsConversationUUID u
         \<and> u \<in> set (Values args (claudeIdentityFlags @ codexResumeFlags)))"
  using SafeResumeRecipe_cases [OF assms] unfolding validateResumeIdentity_None
  by (auto simp: ResumeRecipeForProvider_def split: if_splits)

definition sample_uuid :: string where
  "sample_uuid = ''12345678-1234-1234-1234-1234567890ab''"

lemma sample_uuid_ok: "IsConversationUUID sample_uuid"
  unfolding IsConversationUUID_def uuid_shape_def sample_uuid_def
  by (simp add: text_eval)

lemma SafeResumeRecipe_minimal_witness:
  "validateResumeIdentity ''claude-code'' sample_uuid [''claude'', ''--resume'', sample_uuid] = None"
proof -
  have t: "trim_space sample_uuid = sample_uuid" "trim_space ''-p'' = ''-p''"
    "trim_space ''fix it'' = ''fix it''"
    unfolding sample_uuid_def by (simp_all add: text_eval)
  have c: "cut_prefix sample_uuid f = None" if "f \<in> {''--session-id='', ''--resume=''}" for f
    using that by (auto simp: sample_uuid_def text_eval)
  have "SafeResumeRecipe ''claude-code'' ''claude'' [''-p'', ''fix it'', ''--resume'', sample_uuid]
      = (sample_uuid, [''claude'', ''--resume'', sample_uuid])"
    using sample_uuid_ok c
    by (simp add: SafeResumeRecipe_def is_claude_def value_for_def claudeIdentityFlags_def t
        cut_prefix_def has_prefix_def)
  from SafeResumeRecipe_minimal [OF this] show ?thesis by blast
qed

text \<open>The ledger accepts a conversation id that carries white space around it, and so records a
  resume command that differs from the one for the same conversation without it.\<close>

lemma padded_uuid_accepted:
  "validateResumeIdentity ''codex'' ('' '' @ sample_uuid) [''codex'', ''resume'', '' '' @ sample_uuid] = None
   \<and> [''codex'', ''resume'', '' '' @ sample_uuid] \<noteq> ResumeRecipeForProvider ''codex'' ''codex'' sample_uuid"
proof -
  have "IsConversationUUID ('' '' @ sample_uuid)"
    unfolding IsConversationUUID_def uuid_shape_def sample_uuid_def
    by (simp add: text_eval)
  then show ?thesis using sample_uuid_ok
    by (simp add: validateResumeIdentity_def ResumeRecipeForProvider_def is_claude_def is_codex_def
      program_base_def base_name_def lower_def lower_char_def Let_def)
qed

end
