(* ===== verification/Ledger_Payloads.thy ===== *)
theory Ledger_Payloads
  imports Ledger_Types
begin

text \<open>
  The JSON payloads of the lane events (\<open>store.go\<close>, \<open>task_link.go\<close>, \<open>pull_request.go\<close>): per payload
  struct the record, \<open>dec_\<close> (what \<open>json.Unmarshal\<close> does with the members of an object), \<open>enc_\<close>
  (the members \<open>json.Marshal\<close> writes) and the round trip \<open>dec_enc_\<close>.  \<open>clean_\<close> is the value with
  ill-formed bytes of its strings replaced, the only thing a round trip changes.
\<close>

definition dec_task_link :: "task_link \<Rightarrow> members \<Rightarrow> task_link option" where
  "dec_task_link p ms = do {
     x0 \<leftarrow> field dec_str ''ref'' (tl_Ref p) ms;
     x1 \<leftarrow> field dec_str ''project'' (tl_Project p) ms;
     x2 \<leftarrow> field dec_str ''pull_request_url'' (tl_PullRequestURL p) ms;
     Some \<lparr>tl_Ref = x0, tl_Project = x1, tl_PullRequestURL = x2\<rparr> }"

definition enc_task_link :: "task_link \<Rightarrow> members" where
  "enc_task_link p =
     [(''ref'', jstr (tl_Ref p))] @
     opt_str ''project'' (tl_Project p) @
     opt_str ''pull_request_url'' (tl_PullRequestURL p)"

definition clean_task_link :: "task_link \<Rightarrow> task_link" where
  "clean_task_link p = \<lparr>tl_Ref = valid_utf8 (tl_Ref p), tl_Project = valid_utf8 (tl_Project p), tl_PullRequestURL = valid_utf8 (tl_PullRequestURL p)\<rparr>"

lemma dec_enc_task_link [json_simps]:
  "dec_task_link empty_task_link (enc_task_link p) = Some (clean_task_link p)"
  by (simp add: dec_task_link_def enc_task_link_def clean_task_link_def empty_task_link_def json_simps key_simps split: option.splits)

text \<open>Lists of task links, with and without \<open>omitempty\<close>.\<close>

definition jlinks :: "task_link list \<Rightarrow> json" where
  "jlinks ls = JArr (map (\<lambda>l. JObj (enc_task_link l)) ls)"

definition opt_links :: "string \<Rightarrow> task_link list \<Rightarrow> members" where
  "opt_links name ls = (if ls = [] then [] else [(name, jlinks ls)])"

definition jint_ptr :: "int option \<Rightarrow> json" where
  "jint_ptr x = (case x of None \<Rightarrow> JNull | Some n \<Rightarrow> JInt n)"

definition jstr_ptr :: "string option \<Rightarrow> json" where
  "jstr_ptr x = (case x of None \<Rightarrow> JNull | Some s \<Rightarrow> jstr s)"

lemma dec_elems_jlinks [json_simps]:
  "dec_elems empty_task_link (dec_struct dec_task_link) [] (map (\<lambda>l. JObj (enc_task_link l)) ls)
     = Some (map clean_task_link ls)"
  by (induction ls) (simp_all add: json_simps)

lemma dec_list_jlinks [json_simps]:
  "dec_list empty_task_link (dec_struct dec_task_link) [] (jlinks ls) = Some (map clean_task_link ls)"
  by (simp add: jlinks_def json_simps)

lemma field_opt_links_other [json_simps]:
  "\<not> key_match name k \<Longrightarrow> field dec name d (opt_links k ls) = Some d"
  by (simp add: opt_links_def json_simps)

lemma field_opt_links_same [json_simps]:
  "key_match name k \<Longrightarrow>
     field (dec_list empty_task_link (dec_struct dec_task_link)) name [] (opt_links k ls)
     = Some (map clean_task_link ls)"
  by (simp add: opt_links_def json_simps)

lemma dec_ptr_jint [json_simps]:
  "list_all in_i64 (case x of None \<Rightarrow> [] | Some n \<Rightarrow> [n]) \<Longrightarrow> dec_ptr 0 dec_int None (jint_ptr x) = Some x"
  by (cases x) (simp_all add: jint_ptr_def)

lemma dec_ptr_jstr [json_simps]: "dec_ptr [] dec_str None (jstr_ptr x) = Some (map_option valid_utf8 x)"
  by (cases x) (simp_all add: jstr_ptr_def jstr_def)

definition dec_pull_request_ref :: "pull_request_ref \<Rightarrow> members \<Rightarrow> pull_request_ref option" where
  "dec_pull_request_ref p ms = do {
     x0 \<leftarrow> field dec_str ''url'' (rf_URL p) ms;
     x1 \<leftarrow> field dec_str ''host'' (rf_Host p) ms;
     x2 \<leftarrow> field dec_str ''owner'' (rf_Owner p) ms;
     x3 \<leftarrow> field dec_str ''repo'' (rf_Repo p) ms;
     x4 \<leftarrow> field dec_int ''number'' (rf_Number p) ms;
     Some \<lparr>rf_URL = x0, rf_Host = x1, rf_Owner = x2, rf_Repo = x3, rf_Number = x4\<rparr> }"

definition enc_pull_request_ref :: "pull_request_ref \<Rightarrow> members" where
  "enc_pull_request_ref p =
     [(''url'', jstr (rf_URL p))] @
     [(''host'', jstr (rf_Host p))] @
     [(''owner'', jstr (rf_Owner p))] @
     [(''repo'', jstr (rf_Repo p))] @
     [(''number'', JInt (rf_Number p))]"

definition clean_pull_request_ref :: "pull_request_ref \<Rightarrow> pull_request_ref" where
  "clean_pull_request_ref p = \<lparr>rf_URL = valid_utf8 (rf_URL p), rf_Host = valid_utf8 (rf_Host p), rf_Owner = valid_utf8 (rf_Owner p), rf_Repo = valid_utf8 (rf_Repo p), rf_Number = rf_Number p\<rparr>"

lemma dec_enc_pull_request_ref [json_simps]:
  "in_i64 (rf_Number p) \<Longrightarrow> dec_pull_request_ref empty_ref (enc_pull_request_ref p) = Some (clean_pull_request_ref p)"
  by (simp add: dec_pull_request_ref_def enc_pull_request_ref_def clean_pull_request_ref_def empty_ref_def json_simps key_simps split: option.splits)

definition dec_pull_request_observation :: "pull_request_observation \<Rightarrow> members \<Rightarrow> pull_request_observation option" where
  "dec_pull_request_observation p ms = do {
     x0 \<leftarrow> field dec_str ''state'' (ob_State p) ms;
     x1 \<leftarrow> field dec_bool ''draft'' (ob_Draft p) ms;
     x2 \<leftarrow> field dec_str ''merged_at'' (ob_MergedAt p) ms;
     x3 \<leftarrow> field dec_str ''merge_commit'' (ob_MergeCommit p) ms;
     x4 \<leftarrow> field dec_str ''head_ref'' (ob_HeadRef p) ms;
     x5 \<leftarrow> field dec_str ''head_sha'' (ob_HeadSHA p) ms;
     x6 \<leftarrow> field dec_str ''base_ref'' (ob_BaseRef p) ms;
     x7 \<leftarrow> field dec_str ''mergeable'' (ob_Mergeable p) ms;
     x8 \<leftarrow> field dec_str ''checks'' (ob_Checks p) ms;
     x9 \<leftarrow> field dec_int ''checks_total'' (ob_ChecksTotal p) ms;
     x10 \<leftarrow> field dec_int ''checks_failing'' (ob_ChecksFailing p) ms;
     x11 \<leftarrow> field dec_int ''checks_pending'' (ob_ChecksPending p) ms;
     Some \<lparr>ob_State = x0, ob_Draft = x1, ob_MergedAt = x2, ob_MergeCommit = x3, ob_HeadRef = x4, ob_HeadSHA = x5, ob_BaseRef = x6, ob_Mergeable = x7, ob_Checks = x8, ob_ChecksTotal = x9, ob_ChecksFailing = x10, ob_ChecksPending = x11\<rparr> }"

definition enc_pull_request_observation :: "pull_request_observation \<Rightarrow> members" where
  "enc_pull_request_observation p =
     [(''state'', jstr (ob_State p))] @
     opt_bool ''draft'' (ob_Draft p) @
     opt_str ''merged_at'' (ob_MergedAt p) @
     opt_str ''merge_commit'' (ob_MergeCommit p) @
     opt_str ''head_ref'' (ob_HeadRef p) @
     opt_str ''head_sha'' (ob_HeadSHA p) @
     opt_str ''base_ref'' (ob_BaseRef p) @
     [(''mergeable'', jstr (ob_Mergeable p))] @
     [(''checks'', jstr (ob_Checks p))] @
     [(''checks_total'', JInt (ob_ChecksTotal p))] @
     [(''checks_failing'', JInt (ob_ChecksFailing p))] @
     [(''checks_pending'', JInt (ob_ChecksPending p))]"

definition clean_pull_request_observation :: "pull_request_observation \<Rightarrow> pull_request_observation" where
  "clean_pull_request_observation p = \<lparr>ob_State = valid_utf8 (ob_State p), ob_Draft = ob_Draft p, ob_MergedAt = valid_utf8 (ob_MergedAt p), ob_MergeCommit = valid_utf8 (ob_MergeCommit p), ob_HeadRef = valid_utf8 (ob_HeadRef p), ob_HeadSHA = valid_utf8 (ob_HeadSHA p), ob_BaseRef = valid_utf8 (ob_BaseRef p), ob_Mergeable = valid_utf8 (ob_Mergeable p), ob_Checks = valid_utf8 (ob_Checks p), ob_ChecksTotal = ob_ChecksTotal p, ob_ChecksFailing = ob_ChecksFailing p, ob_ChecksPending = ob_ChecksPending p\<rparr>"

lemma dec_enc_pull_request_observation [json_simps]:
  "in_i64 (ob_ChecksTotal p) \<Longrightarrow> in_i64 (ob_ChecksFailing p) \<Longrightarrow> in_i64 (ob_ChecksPending p) \<Longrightarrow> dec_pull_request_observation empty_observation (enc_pull_request_observation p) = Some (clean_pull_request_observation p)"
  by (simp add: dec_pull_request_observation_def enc_pull_request_observation_def clean_pull_request_observation_def empty_observation_def json_simps key_simps split: option.splits)

record message_author =
  ma_Kind :: string
  ma_ID :: string
  ma_Name :: string
  ma_Client :: string

definition zero_message_author :: message_author where
  "zero_message_author = \<lparr>ma_Kind = [], ma_ID = [], ma_Name = [], ma_Client = []\<rparr>"

definition dec_message_author :: "message_author \<Rightarrow> members \<Rightarrow> message_author option" where
  "dec_message_author p ms = do {
     x0 \<leftarrow> field dec_str ''kind'' (ma_Kind p) ms;
     x1 \<leftarrow> field dec_str ''id'' (ma_ID p) ms;
     x2 \<leftarrow> field dec_str ''name'' (ma_Name p) ms;
     x3 \<leftarrow> field dec_str ''client'' (ma_Client p) ms;
     Some \<lparr>ma_Kind = x0, ma_ID = x1, ma_Name = x2, ma_Client = x3\<rparr> }"

definition enc_message_author :: "message_author \<Rightarrow> members" where
  "enc_message_author p =
     [(''kind'', jstr (ma_Kind p))] @
     [(''id'', jstr (ma_ID p))] @
     [(''name'', jstr (ma_Name p))] @
     [(''client'', jstr (ma_Client p))]"

definition clean_message_author :: "message_author \<Rightarrow> message_author" where
  "clean_message_author p = \<lparr>ma_Kind = valid_utf8 (ma_Kind p), ma_ID = valid_utf8 (ma_ID p), ma_Name = valid_utf8 (ma_Name p), ma_Client = valid_utf8 (ma_Client p)\<rparr>"

lemma dec_enc_message_author [json_simps]:
  "dec_message_author zero_message_author (enc_message_author p) = Some (clean_message_author p)"
  by (simp add: dec_message_author_def enc_message_author_def clean_message_author_def zero_message_author_def json_simps key_simps split: option.splits)

record createdPayload =
  cp_Name :: string
  cp_Description :: string
  cp_DescriptionSource :: string
  cp_Kind :: string
  cp_Tool :: string
  cp_Cwd :: string
  cp_Profile :: string
  cp_ConfigDir :: string
  cp_WorktreePath :: string
  cp_Branch :: string
  cp_Base :: string
  cp_SourceRepo :: string
  cp_ResumeArgv :: "string list"
  cp_LaneUUID :: string
  cp_ProviderUUID :: string
  cp_CreatorKind :: string
  cp_CreatorID :: string
  cp_DelegationKind :: string
  cp_StartOperationID :: string
  cp_PromptOperationID :: string
  cp_RequestFingerprint :: string
  cp_TaskLinks :: "task_link list"

definition zero_createdPayload :: createdPayload where
  "zero_createdPayload = \<lparr>cp_Name = [], cp_Description = [], cp_DescriptionSource = [], cp_Kind = [], cp_Tool = [], cp_Cwd = [], cp_Profile = [], cp_ConfigDir = [], cp_WorktreePath = [], cp_Branch = [], cp_Base = [], cp_SourceRepo = [], cp_ResumeArgv = [], cp_LaneUUID = [], cp_ProviderUUID = [], cp_CreatorKind = [], cp_CreatorID = [], cp_DelegationKind = [], cp_StartOperationID = [], cp_PromptOperationID = [], cp_RequestFingerprint = [], cp_TaskLinks = []\<rparr>"

definition dec_createdPayload :: "createdPayload \<Rightarrow> members \<Rightarrow> createdPayload option" where
  "dec_createdPayload p ms = do {
     x0 \<leftarrow> field dec_str ''name'' (cp_Name p) ms;
     x1 \<leftarrow> field dec_str ''description'' (cp_Description p) ms;
     x2 \<leftarrow> field dec_str ''description_source'' (cp_DescriptionSource p) ms;
     x3 \<leftarrow> field dec_str ''kind'' (cp_Kind p) ms;
     x4 \<leftarrow> field dec_str ''tool'' (cp_Tool p) ms;
     x5 \<leftarrow> field dec_str ''cwd'' (cp_Cwd p) ms;
     x6 \<leftarrow> field dec_str ''profile'' (cp_Profile p) ms;
     x7 \<leftarrow> field dec_str ''config_dir'' (cp_ConfigDir p) ms;
     x8 \<leftarrow> field dec_str ''worktree_path'' (cp_WorktreePath p) ms;
     x9 \<leftarrow> field dec_str ''branch'' (cp_Branch p) ms;
     x10 \<leftarrow> field dec_str ''base'' (cp_Base p) ms;
     x11 \<leftarrow> field dec_str ''source_repo'' (cp_SourceRepo p) ms;
     x12 \<leftarrow> field (dec_list [] dec_str) ''argv'' (cp_ResumeArgv p) ms;
     x13 \<leftarrow> field dec_str ''lane_uuid'' (cp_LaneUUID p) ms;
     x14 \<leftarrow> field dec_str ''provider_uuid'' (cp_ProviderUUID p) ms;
     x15 \<leftarrow> field dec_str ''creator_kind'' (cp_CreatorKind p) ms;
     x16 \<leftarrow> field dec_str ''creator_id'' (cp_CreatorID p) ms;
     x17 \<leftarrow> field dec_str ''delegation_kind'' (cp_DelegationKind p) ms;
     x18 \<leftarrow> field dec_str ''start_operation_id'' (cp_StartOperationID p) ms;
     x19 \<leftarrow> field dec_str ''prompt_operation_id'' (cp_PromptOperationID p) ms;
     x20 \<leftarrow> field dec_str ''request_fingerprint'' (cp_RequestFingerprint p) ms;
     x21 \<leftarrow> field (dec_list empty_task_link (dec_struct dec_task_link)) ''task_links'' (cp_TaskLinks p) ms;
     Some \<lparr>cp_Name = x0, cp_Description = x1, cp_DescriptionSource = x2, cp_Kind = x3, cp_Tool = x4, cp_Cwd = x5, cp_Profile = x6, cp_ConfigDir = x7, cp_WorktreePath = x8, cp_Branch = x9, cp_Base = x10, cp_SourceRepo = x11, cp_ResumeArgv = x12, cp_LaneUUID = x13, cp_ProviderUUID = x14, cp_CreatorKind = x15, cp_CreatorID = x16, cp_DelegationKind = x17, cp_StartOperationID = x18, cp_PromptOperationID = x19, cp_RequestFingerprint = x20, cp_TaskLinks = x21\<rparr> }"

definition enc_createdPayload :: "createdPayload \<Rightarrow> members" where
  "enc_createdPayload p =
     opt_str ''name'' (cp_Name p) @
     opt_str ''description'' (cp_Description p) @
     opt_str ''description_source'' (cp_DescriptionSource p) @
     opt_str ''kind'' (cp_Kind p) @
     [(''tool'', jstr (cp_Tool p))] @
     [(''cwd'', jstr (cp_Cwd p))] @
     opt_str ''profile'' (cp_Profile p) @
     opt_str ''config_dir'' (cp_ConfigDir p) @
     opt_str ''worktree_path'' (cp_WorktreePath p) @
     opt_str ''branch'' (cp_Branch p) @
     opt_str ''base'' (cp_Base p) @
     opt_str ''source_repo'' (cp_SourceRepo p) @
     [(''argv'', jstrs (cp_ResumeArgv p))] @
     [(''lane_uuid'', jstr (cp_LaneUUID p))] @
     opt_str ''provider_uuid'' (cp_ProviderUUID p) @
     [(''creator_kind'', jstr (cp_CreatorKind p))] @
     [(''creator_id'', jstr (cp_CreatorID p))] @
     opt_str ''delegation_kind'' (cp_DelegationKind p) @
     opt_str ''start_operation_id'' (cp_StartOperationID p) @
     opt_str ''prompt_operation_id'' (cp_PromptOperationID p) @
     opt_str ''request_fingerprint'' (cp_RequestFingerprint p) @
     opt_links ''task_links'' (cp_TaskLinks p)"

definition clean_createdPayload :: "createdPayload \<Rightarrow> createdPayload" where
  "clean_createdPayload p = \<lparr>cp_Name = valid_utf8 (cp_Name p), cp_Description = valid_utf8 (cp_Description p), cp_DescriptionSource = valid_utf8 (cp_DescriptionSource p), cp_Kind = valid_utf8 (cp_Kind p), cp_Tool = valid_utf8 (cp_Tool p), cp_Cwd = valid_utf8 (cp_Cwd p), cp_Profile = valid_utf8 (cp_Profile p), cp_ConfigDir = valid_utf8 (cp_ConfigDir p), cp_WorktreePath = valid_utf8 (cp_WorktreePath p), cp_Branch = valid_utf8 (cp_Branch p), cp_Base = valid_utf8 (cp_Base p), cp_SourceRepo = valid_utf8 (cp_SourceRepo p), cp_ResumeArgv = map valid_utf8 (cp_ResumeArgv p), cp_LaneUUID = valid_utf8 (cp_LaneUUID p), cp_ProviderUUID = valid_utf8 (cp_ProviderUUID p), cp_CreatorKind = valid_utf8 (cp_CreatorKind p), cp_CreatorID = valid_utf8 (cp_CreatorID p), cp_DelegationKind = valid_utf8 (cp_DelegationKind p), cp_StartOperationID = valid_utf8 (cp_StartOperationID p), cp_PromptOperationID = valid_utf8 (cp_PromptOperationID p), cp_RequestFingerprint = valid_utf8 (cp_RequestFingerprint p), cp_TaskLinks = map clean_task_link (cp_TaskLinks p)\<rparr>"

lemma dec_enc_createdPayload [json_simps]:
  "dec_createdPayload zero_createdPayload (enc_createdPayload p) = Some (clean_createdPayload p)"
  by (simp add: dec_createdPayload_def enc_createdPayload_def clean_createdPayload_def zero_createdPayload_def json_simps key_simps split: option.splits)

record providerPayload =
  pp_ProviderUUID :: string
  pp_ResumeArgv :: "string list"

definition zero_providerPayload :: providerPayload where
  "zero_providerPayload = \<lparr>pp_ProviderUUID = [], pp_ResumeArgv = []\<rparr>"

definition dec_providerPayload :: "providerPayload \<Rightarrow> members \<Rightarrow> providerPayload option" where
  "dec_providerPayload p ms = do {
     x0 \<leftarrow> field dec_str ''provider_uuid'' (pp_ProviderUUID p) ms;
     x1 \<leftarrow> field (dec_list [] dec_str) ''argv'' (pp_ResumeArgv p) ms;
     Some \<lparr>pp_ProviderUUID = x0, pp_ResumeArgv = x1\<rparr> }"

definition enc_providerPayload :: "providerPayload \<Rightarrow> members" where
  "enc_providerPayload p =
     [(''provider_uuid'', jstr (pp_ProviderUUID p))] @
     [(''argv'', jstrs (pp_ResumeArgv p))]"

definition clean_providerPayload :: "providerPayload \<Rightarrow> providerPayload" where
  "clean_providerPayload p = \<lparr>pp_ProviderUUID = valid_utf8 (pp_ProviderUUID p), pp_ResumeArgv = map valid_utf8 (pp_ResumeArgv p)\<rparr>"

lemma dec_enc_providerPayload [json_simps]:
  "dec_providerPayload zero_providerPayload (enc_providerPayload p) = Some (clean_providerPayload p)"
  by (simp add: dec_providerPayload_def enc_providerPayload_def clean_providerPayload_def zero_providerPayload_def json_simps key_simps split: option.splits)

record providerReboundPayload =
  rp_ProviderUUID :: string
  rp_NewLaneID :: string

definition zero_providerReboundPayload :: providerReboundPayload where
  "zero_providerReboundPayload = \<lparr>rp_ProviderUUID = [], rp_NewLaneID = []\<rparr>"

definition dec_providerReboundPayload :: "providerReboundPayload \<Rightarrow> members \<Rightarrow> providerReboundPayload option" where
  "dec_providerReboundPayload p ms = do {
     x0 \<leftarrow> field dec_str ''provider_uuid'' (rp_ProviderUUID p) ms;
     x1 \<leftarrow> field dec_str ''new_lane_id'' (rp_NewLaneID p) ms;
     Some \<lparr>rp_ProviderUUID = x0, rp_NewLaneID = x1\<rparr> }"

definition enc_providerReboundPayload :: "providerReboundPayload \<Rightarrow> members" where
  "enc_providerReboundPayload p =
     [(''provider_uuid'', jstr (rp_ProviderUUID p))] @
     [(''new_lane_id'', jstr (rp_NewLaneID p))]"

definition clean_providerReboundPayload :: "providerReboundPayload \<Rightarrow> providerReboundPayload" where
  "clean_providerReboundPayload p = \<lparr>rp_ProviderUUID = valid_utf8 (rp_ProviderUUID p), rp_NewLaneID = valid_utf8 (rp_NewLaneID p)\<rparr>"

lemma dec_enc_providerReboundPayload [json_simps]:
  "dec_providerReboundPayload zero_providerReboundPayload (enc_providerReboundPayload p) = Some (clean_providerReboundPayload p)"
  by (simp add: dec_providerReboundPayload_def enc_providerReboundPayload_def clean_providerReboundPayload_def zero_providerReboundPayload_def json_simps key_simps split: option.splits)

record activityPayload =
  ap_Source :: string

definition zero_activityPayload :: activityPayload where
  "zero_activityPayload = \<lparr>ap_Source = []\<rparr>"

definition dec_activityPayload :: "activityPayload \<Rightarrow> members \<Rightarrow> activityPayload option" where
  "dec_activityPayload p ms = do {
     x0 \<leftarrow> field dec_str ''source'' (ap_Source p) ms;
     Some \<lparr>ap_Source = x0\<rparr> }"

definition enc_activityPayload :: "activityPayload \<Rightarrow> members" where
  "enc_activityPayload p =
     [(''source'', jstr (ap_Source p))]"

definition clean_activityPayload :: "activityPayload \<Rightarrow> activityPayload" where
  "clean_activityPayload p = \<lparr>ap_Source = valid_utf8 (ap_Source p)\<rparr>"

lemma dec_enc_activityPayload [json_simps]:
  "dec_activityPayload zero_activityPayload (enc_activityPayload p) = Some (clean_activityPayload p)"
  by (simp add: dec_activityPayload_def enc_activityPayload_def clean_activityPayload_def zero_activityPayload_def json_simps key_simps split: option.splits)

record messageRelayedPayload =
  mp_Author :: message_author
  mp_ContentSHA256 :: string
  mp_ContentBytes :: int
  mp_NormalizedSHA256 :: string
  mp_NormalizedBytes :: int
  mp_OperationID :: string

definition zero_messageRelayedPayload :: messageRelayedPayload where
  "zero_messageRelayedPayload = \<lparr>mp_Author = zero_message_author, mp_ContentSHA256 = [], mp_ContentBytes = 0, mp_NormalizedSHA256 = [], mp_NormalizedBytes = 0, mp_OperationID = []\<rparr>"

definition dec_messageRelayedPayload :: "messageRelayedPayload \<Rightarrow> members \<Rightarrow> messageRelayedPayload option" where
  "dec_messageRelayedPayload p ms = do {
     x0 \<leftarrow> field (dec_struct dec_message_author) ''author'' (mp_Author p) ms;
     x1 \<leftarrow> field dec_str ''content_sha256'' (mp_ContentSHA256 p) ms;
     x2 \<leftarrow> field dec_int ''content_bytes'' (mp_ContentBytes p) ms;
     x3 \<leftarrow> field dec_str ''normalized_sha256'' (mp_NormalizedSHA256 p) ms;
     x4 \<leftarrow> field dec_int ''normalized_bytes'' (mp_NormalizedBytes p) ms;
     x5 \<leftarrow> field dec_str ''operation_id'' (mp_OperationID p) ms;
     Some \<lparr>mp_Author = x0, mp_ContentSHA256 = x1, mp_ContentBytes = x2, mp_NormalizedSHA256 = x3, mp_NormalizedBytes = x4, mp_OperationID = x5\<rparr> }"

definition enc_messageRelayedPayload :: "messageRelayedPayload \<Rightarrow> members" where
  "enc_messageRelayedPayload p =
     [(''author'', JObj (enc_message_author (mp_Author p)))] @
     [(''content_sha256'', jstr (mp_ContentSHA256 p))] @
     [(''content_bytes'', JInt (mp_ContentBytes p))] @
     [(''normalized_sha256'', jstr (mp_NormalizedSHA256 p))] @
     [(''normalized_bytes'', JInt (mp_NormalizedBytes p))] @
     opt_str ''operation_id'' (mp_OperationID p)"

definition clean_messageRelayedPayload :: "messageRelayedPayload \<Rightarrow> messageRelayedPayload" where
  "clean_messageRelayedPayload p = \<lparr>mp_Author = clean_message_author (mp_Author p), mp_ContentSHA256 = valid_utf8 (mp_ContentSHA256 p), mp_ContentBytes = mp_ContentBytes p, mp_NormalizedSHA256 = valid_utf8 (mp_NormalizedSHA256 p), mp_NormalizedBytes = mp_NormalizedBytes p, mp_OperationID = valid_utf8 (mp_OperationID p)\<rparr>"

lemma dec_enc_messageRelayedPayload [json_simps]:
  "in_i64 (mp_ContentBytes p) \<Longrightarrow> in_i64 (mp_NormalizedBytes p) \<Longrightarrow> dec_messageRelayedPayload zero_messageRelayedPayload (enc_messageRelayedPayload p) = Some (clean_messageRelayedPayload p)"
  by (simp add: dec_messageRelayedPayload_def enc_messageRelayedPayload_def clean_messageRelayedPayload_def zero_messageRelayedPayload_def json_simps key_simps split: option.splits)

record worktreeCleanRequestedPayload =
  wr_WorktreePath :: string
  wr_Branch :: string
  wr_BranchHead :: string

definition zero_worktreeCleanRequestedPayload :: worktreeCleanRequestedPayload where
  "zero_worktreeCleanRequestedPayload = \<lparr>wr_WorktreePath = [], wr_Branch = [], wr_BranchHead = []\<rparr>"

definition dec_worktreeCleanRequestedPayload :: "worktreeCleanRequestedPayload \<Rightarrow> members \<Rightarrow> worktreeCleanRequestedPayload option" where
  "dec_worktreeCleanRequestedPayload p ms = do {
     x0 \<leftarrow> field dec_str ''worktree_path'' (wr_WorktreePath p) ms;
     x1 \<leftarrow> field dec_str ''branch'' (wr_Branch p) ms;
     x2 \<leftarrow> field dec_str ''branch_head'' (wr_BranchHead p) ms;
     Some \<lparr>wr_WorktreePath = x0, wr_Branch = x1, wr_BranchHead = x2\<rparr> }"

definition enc_worktreeCleanRequestedPayload :: "worktreeCleanRequestedPayload \<Rightarrow> members" where
  "enc_worktreeCleanRequestedPayload p =
     [(''worktree_path'', jstr (wr_WorktreePath p))] @
     [(''branch'', jstr (wr_Branch p))] @
     [(''branch_head'', jstr (wr_BranchHead p))]"

definition clean_worktreeCleanRequestedPayload :: "worktreeCleanRequestedPayload \<Rightarrow> worktreeCleanRequestedPayload" where
  "clean_worktreeCleanRequestedPayload p = \<lparr>wr_WorktreePath = valid_utf8 (wr_WorktreePath p), wr_Branch = valid_utf8 (wr_Branch p), wr_BranchHead = valid_utf8 (wr_BranchHead p)\<rparr>"

lemma dec_enc_worktreeCleanRequestedPayload [json_simps]:
  "dec_worktreeCleanRequestedPayload zero_worktreeCleanRequestedPayload (enc_worktreeCleanRequestedPayload p) = Some (clean_worktreeCleanRequestedPayload p)"
  by (simp add: dec_worktreeCleanRequestedPayload_def enc_worktreeCleanRequestedPayload_def clean_worktreeCleanRequestedPayload_def zero_worktreeCleanRequestedPayload_def json_simps key_simps split: option.splits)

record worktreeCleanedPayload =
  wc_WorktreePath :: string
  wc_Branch :: string
  wc_BranchRemoved :: bool

definition zero_worktreeCleanedPayload :: worktreeCleanedPayload where
  "zero_worktreeCleanedPayload = \<lparr>wc_WorktreePath = [], wc_Branch = [], wc_BranchRemoved = False\<rparr>"

definition dec_worktreeCleanedPayload :: "worktreeCleanedPayload \<Rightarrow> members \<Rightarrow> worktreeCleanedPayload option" where
  "dec_worktreeCleanedPayload p ms = do {
     x0 \<leftarrow> field dec_str ''worktree_path'' (wc_WorktreePath p) ms;
     x1 \<leftarrow> field dec_str ''branch'' (wc_Branch p) ms;
     x2 \<leftarrow> field dec_bool ''branch_removed'' (wc_BranchRemoved p) ms;
     Some \<lparr>wc_WorktreePath = x0, wc_Branch = x1, wc_BranchRemoved = x2\<rparr> }"

definition enc_worktreeCleanedPayload :: "worktreeCleanedPayload \<Rightarrow> members" where
  "enc_worktreeCleanedPayload p =
     [(''worktree_path'', jstr (wc_WorktreePath p))] @
     [(''branch'', jstr (wc_Branch p))] @
     [(''branch_removed'', JBool (wc_BranchRemoved p))]"

definition clean_worktreeCleanedPayload :: "worktreeCleanedPayload \<Rightarrow> worktreeCleanedPayload" where
  "clean_worktreeCleanedPayload p = \<lparr>wc_WorktreePath = valid_utf8 (wc_WorktreePath p), wc_Branch = valid_utf8 (wc_Branch p), wc_BranchRemoved = wc_BranchRemoved p\<rparr>"

lemma dec_enc_worktreeCleanedPayload [json_simps]:
  "dec_worktreeCleanedPayload zero_worktreeCleanedPayload (enc_worktreeCleanedPayload p) = Some (clean_worktreeCleanedPayload p)"
  by (simp add: dec_worktreeCleanedPayload_def enc_worktreeCleanedPayload_def clean_worktreeCleanedPayload_def zero_worktreeCleanedPayload_def json_simps key_simps split: option.splits)

record renamePayload =
  np_Name :: string

definition zero_renamePayload :: renamePayload where
  "zero_renamePayload = \<lparr>np_Name = []\<rparr>"

definition dec_renamePayload :: "renamePayload \<Rightarrow> members \<Rightarrow> renamePayload option" where
  "dec_renamePayload p ms = do {
     x0 \<leftarrow> field dec_str ''name'' (np_Name p) ms;
     Some \<lparr>np_Name = x0\<rparr> }"

definition enc_renamePayload :: "renamePayload \<Rightarrow> members" where
  "enc_renamePayload p =
     [(''name'', jstr (np_Name p))]"

definition clean_renamePayload :: "renamePayload \<Rightarrow> renamePayload" where
  "clean_renamePayload p = \<lparr>np_Name = valid_utf8 (np_Name p)\<rparr>"

lemma dec_enc_renamePayload [json_simps]:
  "dec_renamePayload zero_renamePayload (enc_renamePayload p) = Some (clean_renamePayload p)"
  by (simp add: dec_renamePayload_def enc_renamePayload_def clean_renamePayload_def zero_renamePayload_def json_simps key_simps split: option.splits)

record descriptionPayload =
  dp_Description :: string
  dp_Source :: string

definition zero_descriptionPayload :: descriptionPayload where
  "zero_descriptionPayload = \<lparr>dp_Description = [], dp_Source = []\<rparr>"

definition dec_descriptionPayload :: "descriptionPayload \<Rightarrow> members \<Rightarrow> descriptionPayload option" where
  "dec_descriptionPayload p ms = do {
     x0 \<leftarrow> field dec_str ''description'' (dp_Description p) ms;
     x1 \<leftarrow> field dec_str ''description_source'' (dp_Source p) ms;
     Some \<lparr>dp_Description = x0, dp_Source = x1\<rparr> }"

definition enc_descriptionPayload :: "descriptionPayload \<Rightarrow> members" where
  "enc_descriptionPayload p =
     [(''description'', jstr (dp_Description p))] @
     [(''description_source'', jstr (dp_Source p))]"

definition clean_descriptionPayload :: "descriptionPayload \<Rightarrow> descriptionPayload" where
  "clean_descriptionPayload p = \<lparr>dp_Description = valid_utf8 (dp_Description p), dp_Source = valid_utf8 (dp_Source p)\<rparr>"

lemma dec_enc_descriptionPayload [json_simps]:
  "dec_descriptionPayload zero_descriptionPayload (enc_descriptionPayload p) = Some (clean_descriptionPayload p)"
  by (simp add: dec_descriptionPayload_def enc_descriptionPayload_def clean_descriptionPayload_def zero_descriptionPayload_def json_simps key_simps split: option.splits)

record userKillPayload =
  kp_InitiatorKind :: string
  kp_InitiatorID :: string
  kp_InitiatorName :: string
  kp_Client :: string
  kp_Reason :: string
  kp_OperationID :: string

definition zero_userKillPayload :: userKillPayload where
  "zero_userKillPayload = \<lparr>kp_InitiatorKind = [], kp_InitiatorID = [], kp_InitiatorName = [], kp_Client = [], kp_Reason = [], kp_OperationID = []\<rparr>"

definition dec_userKillPayload :: "userKillPayload \<Rightarrow> members \<Rightarrow> userKillPayload option" where
  "dec_userKillPayload p ms = do {
     x0 \<leftarrow> field dec_str ''initiator_kind'' (kp_InitiatorKind p) ms;
     x1 \<leftarrow> field dec_str ''initiator_id'' (kp_InitiatorID p) ms;
     x2 \<leftarrow> field dec_str ''initiator_name'' (kp_InitiatorName p) ms;
     x3 \<leftarrow> field dec_str ''client'' (kp_Client p) ms;
     x4 \<leftarrow> field dec_str ''reason'' (kp_Reason p) ms;
     x5 \<leftarrow> field dec_str ''operation_id'' (kp_OperationID p) ms;
     Some \<lparr>kp_InitiatorKind = x0, kp_InitiatorID = x1, kp_InitiatorName = x2, kp_Client = x3, kp_Reason = x4, kp_OperationID = x5\<rparr> }"

definition enc_userKillPayload :: "userKillPayload \<Rightarrow> members" where
  "enc_userKillPayload p =
     opt_str ''initiator_kind'' (kp_InitiatorKind p) @
     opt_str ''initiator_id'' (kp_InitiatorID p) @
     opt_str ''initiator_name'' (kp_InitiatorName p) @
     opt_str ''client'' (kp_Client p) @
     opt_str ''reason'' (kp_Reason p) @
     opt_str ''operation_id'' (kp_OperationID p)"

definition clean_userKillPayload :: "userKillPayload \<Rightarrow> userKillPayload" where
  "clean_userKillPayload p = \<lparr>kp_InitiatorKind = valid_utf8 (kp_InitiatorKind p), kp_InitiatorID = valid_utf8 (kp_InitiatorID p), kp_InitiatorName = valid_utf8 (kp_InitiatorName p), kp_Client = valid_utf8 (kp_Client p), kp_Reason = valid_utf8 (kp_Reason p), kp_OperationID = valid_utf8 (kp_OperationID p)\<rparr>"

lemma dec_enc_userKillPayload [json_simps]:
  "dec_userKillPayload zero_userKillPayload (enc_userKillPayload p) = Some (clean_userKillPayload p)"
  by (simp add: dec_userKillPayload_def enc_userKillPayload_def clean_userKillPayload_def zero_userKillPayload_def json_simps key_simps split: option.splits)

record runnerExitPayload =
  xp_Code :: "int option"
  xp_Signal :: "string option"

definition zero_runnerExitPayload :: runnerExitPayload where
  "zero_runnerExitPayload = \<lparr>xp_Code = None, xp_Signal = None\<rparr>"

definition dec_runnerExitPayload :: "runnerExitPayload \<Rightarrow> members \<Rightarrow> runnerExitPayload option" where
  "dec_runnerExitPayload p ms = do {
     x0 \<leftarrow> field (dec_ptr 0 dec_int) ''code'' (xp_Code p) ms;
     x1 \<leftarrow> field (dec_ptr [] dec_str) ''signal'' (xp_Signal p) ms;
     Some \<lparr>xp_Code = x0, xp_Signal = x1\<rparr> }"

definition enc_runnerExitPayload :: "runnerExitPayload \<Rightarrow> members" where
  "enc_runnerExitPayload p =
     [(''code'', jint_ptr (xp_Code p))] @
     [(''signal'', jstr_ptr (xp_Signal p))]"

definition clean_runnerExitPayload :: "runnerExitPayload \<Rightarrow> runnerExitPayload" where
  "clean_runnerExitPayload p = \<lparr>xp_Code = xp_Code p, xp_Signal = map_option valid_utf8 (xp_Signal p)\<rparr>"

lemma dec_enc_runnerExitPayload [json_simps]:
  "list_all in_i64 (case xp_Code p of None \<Rightarrow> [] | Some n \<Rightarrow> [n]) \<Longrightarrow> dec_runnerExitPayload zero_runnerExitPayload (enc_runnerExitPayload p) = Some (clean_runnerExitPayload p)"
  by (simp add: dec_runnerExitPayload_def enc_runnerExitPayload_def clean_runnerExitPayload_def zero_runnerExitPayload_def json_simps key_simps split: option.splits)

record reopenedPayload =
  op_NewLaneID :: string

definition zero_reopenedPayload :: reopenedPayload where
  "zero_reopenedPayload = \<lparr>op_NewLaneID = []\<rparr>"

definition dec_reopenedPayload :: "reopenedPayload \<Rightarrow> members \<Rightarrow> reopenedPayload option" where
  "dec_reopenedPayload p ms = do {
     x0 \<leftarrow> field dec_str ''newLaneId'' (op_NewLaneID p) ms;
     Some \<lparr>op_NewLaneID = x0\<rparr> }"

definition enc_reopenedPayload :: "reopenedPayload \<Rightarrow> members" where
  "enc_reopenedPayload p =
     [(''newLaneId'', jstr (op_NewLaneID p))]"

definition clean_reopenedPayload :: "reopenedPayload \<Rightarrow> reopenedPayload" where
  "clean_reopenedPayload p = \<lparr>op_NewLaneID = valid_utf8 (op_NewLaneID p)\<rparr>"

lemma dec_enc_reopenedPayload [json_simps]:
  "dec_reopenedPayload zero_reopenedPayload (enc_reopenedPayload p) = Some (clean_reopenedPayload p)"
  by (simp add: dec_reopenedPayload_def enc_reopenedPayload_def clean_reopenedPayload_def zero_reopenedPayload_def json_simps key_simps split: option.splits)

record movedToPayload =
  vt_TargetEndpoint :: string
  vt_NewLaneID :: string
  vt_CheckpointRef :: string

definition zero_movedToPayload :: movedToPayload where
  "zero_movedToPayload = \<lparr>vt_TargetEndpoint = [], vt_NewLaneID = [], vt_CheckpointRef = []\<rparr>"

definition dec_movedToPayload :: "movedToPayload \<Rightarrow> members \<Rightarrow> movedToPayload option" where
  "dec_movedToPayload p ms = do {
     x0 \<leftarrow> field dec_str ''target_endpoint'' (vt_TargetEndpoint p) ms;
     x1 \<leftarrow> field dec_str ''new_lane_id'' (vt_NewLaneID p) ms;
     x2 \<leftarrow> field dec_str ''checkpoint_ref'' (vt_CheckpointRef p) ms;
     Some \<lparr>vt_TargetEndpoint = x0, vt_NewLaneID = x1, vt_CheckpointRef = x2\<rparr> }"

definition enc_movedToPayload :: "movedToPayload \<Rightarrow> members" where
  "enc_movedToPayload p =
     [(''target_endpoint'', jstr (vt_TargetEndpoint p))] @
     [(''new_lane_id'', jstr (vt_NewLaneID p))] @
     opt_str ''checkpoint_ref'' (vt_CheckpointRef p)"

definition clean_movedToPayload :: "movedToPayload \<Rightarrow> movedToPayload" where
  "clean_movedToPayload p = \<lparr>vt_TargetEndpoint = valid_utf8 (vt_TargetEndpoint p), vt_NewLaneID = valid_utf8 (vt_NewLaneID p), vt_CheckpointRef = valid_utf8 (vt_CheckpointRef p)\<rparr>"

lemma dec_enc_movedToPayload [json_simps]:
  "dec_movedToPayload zero_movedToPayload (enc_movedToPayload p) = Some (clean_movedToPayload p)"
  by (simp add: dec_movedToPayload_def enc_movedToPayload_def clean_movedToPayload_def zero_movedToPayload_def json_simps key_simps split: option.splits)

record movedFromPayload =
  mf_SourceEndpoint :: string
  mf_SourceLaneID :: string

definition zero_movedFromPayload :: movedFromPayload where
  "zero_movedFromPayload = \<lparr>mf_SourceEndpoint = [], mf_SourceLaneID = []\<rparr>"

definition dec_movedFromPayload :: "movedFromPayload \<Rightarrow> members \<Rightarrow> movedFromPayload option" where
  "dec_movedFromPayload p ms = do {
     x0 \<leftarrow> field dec_str ''source_endpoint'' (mf_SourceEndpoint p) ms;
     x1 \<leftarrow> field dec_str ''source_lane_id'' (mf_SourceLaneID p) ms;
     Some \<lparr>mf_SourceEndpoint = x0, mf_SourceLaneID = x1\<rparr> }"

definition enc_movedFromPayload :: "movedFromPayload \<Rightarrow> members" where
  "enc_movedFromPayload p =
     [(''source_endpoint'', jstr (mf_SourceEndpoint p))] @
     [(''source_lane_id'', jstr (mf_SourceLaneID p))]"

definition clean_movedFromPayload :: "movedFromPayload \<Rightarrow> movedFromPayload" where
  "clean_movedFromPayload p = \<lparr>mf_SourceEndpoint = valid_utf8 (mf_SourceEndpoint p), mf_SourceLaneID = valid_utf8 (mf_SourceLaneID p)\<rparr>"

lemma dec_enc_movedFromPayload [json_simps]:
  "dec_movedFromPayload zero_movedFromPayload (enc_movedFromPayload p) = Some (clean_movedFromPayload p)"
  by (simp add: dec_movedFromPayload_def enc_movedFromPayload_def clean_movedFromPayload_def zero_movedFromPayload_def json_simps key_simps split: option.splits)

record taskLinksPayload =
  tp_Links :: "task_link list"

definition zero_taskLinksPayload :: taskLinksPayload where
  "zero_taskLinksPayload = \<lparr>tp_Links = []\<rparr>"

definition dec_taskLinksPayload :: "taskLinksPayload \<Rightarrow> members \<Rightarrow> taskLinksPayload option" where
  "dec_taskLinksPayload p ms = do {
     x0 \<leftarrow> field (dec_list empty_task_link (dec_struct dec_task_link)) ''links'' (tp_Links p) ms;
     Some \<lparr>tp_Links = x0\<rparr> }"

definition enc_taskLinksPayload :: "taskLinksPayload \<Rightarrow> members" where
  "enc_taskLinksPayload p =
     [(''links'', jlinks (tp_Links p))]"

definition clean_taskLinksPayload :: "taskLinksPayload \<Rightarrow> taskLinksPayload" where
  "clean_taskLinksPayload p = \<lparr>tp_Links = map clean_task_link (tp_Links p)\<rparr>"

lemma dec_enc_taskLinksPayload [json_simps]:
  "dec_taskLinksPayload zero_taskLinksPayload (enc_taskLinksPayload p) = Some (clean_taskLinksPayload p)"
  by (simp add: dec_taskLinksPayload_def enc_taskLinksPayload_def clean_taskLinksPayload_def zero_taskLinksPayload_def json_simps key_simps split: option.splits)

record pullRequestUnlinkedPayload =
  up_URL :: string

definition zero_pullRequestUnlinkedPayload :: pullRequestUnlinkedPayload where
  "zero_pullRequestUnlinkedPayload = \<lparr>up_URL = []\<rparr>"

definition dec_pullRequestUnlinkedPayload :: "pullRequestUnlinkedPayload \<Rightarrow> members \<Rightarrow> pullRequestUnlinkedPayload option" where
  "dec_pullRequestUnlinkedPayload p ms = do {
     x0 \<leftarrow> field dec_str ''url'' (up_URL p) ms;
     Some \<lparr>up_URL = x0\<rparr> }"

definition enc_pullRequestUnlinkedPayload :: "pullRequestUnlinkedPayload \<Rightarrow> members" where
  "enc_pullRequestUnlinkedPayload p =
     [(''url'', jstr (up_URL p))]"

definition clean_pullRequestUnlinkedPayload :: "pullRequestUnlinkedPayload \<Rightarrow> pullRequestUnlinkedPayload" where
  "clean_pullRequestUnlinkedPayload p = \<lparr>up_URL = valid_utf8 (up_URL p)\<rparr>"

lemma dec_enc_pullRequestUnlinkedPayload [json_simps]:
  "dec_pullRequestUnlinkedPayload zero_pullRequestUnlinkedPayload (enc_pullRequestUnlinkedPayload p) = Some (clean_pullRequestUnlinkedPayload p)"
  by (simp add: dec_pullRequestUnlinkedPayload_def enc_pullRequestUnlinkedPayload_def clean_pullRequestUnlinkedPayload_def zero_pullRequestUnlinkedPayload_def json_simps key_simps split: option.splits)

section \<open>Payloads with an embedded struct\<close>

text \<open>\<open>pullRequestAddedPayload\<close> embeds the reference, \<open>pullRequestObservedPayload\<close> the observation:
  their members are members of the payload object.\<close>

record pullRequestAddedPayload =
  da_Ref :: pull_request_ref
  da_TaskLinks :: "task_link list"

definition zero_pullRequestAddedPayload :: pullRequestAddedPayload where
  "zero_pullRequestAddedPayload = \<lparr>da_Ref = empty_ref, da_TaskLinks = []\<rparr>"

definition dec_pullRequestAddedPayload ::
    "pullRequestAddedPayload \<Rightarrow> members \<Rightarrow> pullRequestAddedPayload option" where
  "dec_pullRequestAddedPayload p ms = do {
     r \<leftarrow> dec_pull_request_ref (da_Ref p) ms;
     ls \<leftarrow> field (dec_list empty_task_link (dec_struct dec_task_link)) ''task_links'' (da_TaskLinks p) ms;
     Some \<lparr>da_Ref = r, da_TaskLinks = ls\<rparr> }"

definition enc_pullRequestAddedPayload :: "pullRequestAddedPayload \<Rightarrow> members" where
  "enc_pullRequestAddedPayload p =
     enc_pull_request_ref (da_Ref p) @ opt_links ''task_links'' (da_TaskLinks p)"

record pullRequestObservedPayload =
  dv_URL :: string
  dv_Observation :: pull_request_observation

definition zero_pullRequestObservedPayload :: pullRequestObservedPayload where
  "zero_pullRequestObservedPayload = \<lparr>dv_URL = [], dv_Observation = empty_observation\<rparr>"

definition dec_pullRequestObservedPayload ::
    "pullRequestObservedPayload \<Rightarrow> members \<Rightarrow> pullRequestObservedPayload option" where
  "dec_pullRequestObservedPayload p ms = do {
     u \<leftarrow> field dec_str ''url'' (dv_URL p) ms;
     ob \<leftarrow> dec_pull_request_observation (dv_Observation p) ms;
     Some \<lparr>dv_URL = u, dv_Observation = ob\<rparr> }"

definition enc_pullRequestObservedPayload :: "pullRequestObservedPayload \<Rightarrow> members" where
  "enc_pullRequestObservedPayload p =
     [(''url'', jstr (dv_URL p))] @ enc_pull_request_observation (dv_Observation p)"

end
