(* ===== verification/Task_Links.thy ===== *)
theory Task_Links
  imports Ledger_Payloads
begin

text \<open>
  \<open>runtime/internal/ledger/task_link.go\<close> without its fold: validation of task links and the
  identity rules by which linking and unlinking change the list a session or a pull request
  holds.  Linking is a \<open>settling\<close> step: a link that has been applied stays applied, so
  recording the same batch again changes nothing.
\<close>

section \<open>Validation\<close>

definition maxTaskLinks :: nat where "maxTaskLinks = 64"

datatype link_error =
    TaskReferenceRequired
  | TooManyTaskReferences
  | NotCanonicalForm string
  | NotCanonical string
  | ProjectOnForeignReference string
  | InvalidPullRequestURL string string

definition validateTaskLink :: "task_link \<Rightarrow> link_error option" where
  "validateTaskLink link =
     (if \<not> has_prefix (tl_Ref link) ''sw:'' \<and> \<not> has_prefix (tl_Ref link) ''gh:''
      then Some (NotCanonicalForm (tl_Ref link))
      else if list_ex (\<lambda>value. length value > 200 \<or> has_rune is_space value \<or> has_rune is_control value)
                [tl_Ref link, tl_Project link]
      then Some (NotCanonical (tl_Ref link))
      else if tl_Project link \<noteq> [] \<and> \<not> has_prefix (tl_Ref link) ''sw:''
      then Some (ProjectOnForeignReference (tl_Ref link))
      else if tl_PullRequestURL link \<noteq> [] \<and>
              (\<not> has_prefix (tl_PullRequestURL link) ''https://github.com/''
               \<or> length (tl_PullRequestURL link) > 300 \<or> has_rune is_space (tl_PullRequestURL link))
      then Some (InvalidPullRequestURL (tl_Ref link) (tl_PullRequestURL link))
      else None)"

fun first_link_error :: "task_link list \<Rightarrow> link_error option" where
  "first_link_error [] = None"
| "first_link_error (l # ls) =
     (case validateTaskLink l of Some e \<Rightarrow> Some e | None \<Rightarrow> first_link_error ls)"

definition validateTaskLinks :: "task_link list \<Rightarrow> link_error option" where
  "validateTaskLinks links =
     (if links = [] then Some TaskReferenceRequired
      else if length links > maxTaskLinks then Some TooManyTaskReferences
      else first_link_error links)"

definition validateCreatedTaskLinks :: "task_link list \<Rightarrow> link_error option" where
  "validateCreatedTaskLinks links = (if links = [] then None else validateTaskLinks links)"

section \<open>Linking and unlinking\<close>

definition sameTaskIdentity :: "lane_task \<Rightarrow> task_link \<Rightarrow> bool" where
  "sameTaskIdentity task link \<longleftrightarrow>
     tl_Ref (lt_Link task) = tl_Ref link \<and> tl_Project (lt_Link task) = tl_Project link"

datatype task_link_effect = TaskLinkUnchanged | TaskLinkResolves | TaskLinkAdds

text \<open>The scan, with the position reached and the last unresolved entry seen (\<open>-1\<close>: none).\<close>

fun classify_from :: "lane_task list \<Rightarrow> task_link \<Rightarrow> int \<Rightarrow> int \<Rightarrow> task_link_effect \<times> int" where
  "classify_from [] link position unresolved =
     (if unresolved \<ge> 0 then (TaskLinkResolves, unresolved) else (TaskLinkAdds, -1))"
| "classify_from (task # rest) link position unresolved =
     (if tl_Ref (lt_Link task) \<noteq> tl_Ref link then classify_from rest link (position + 1) unresolved
      else if sameTaskIdentity task link \<or> tl_Project link = [] then (TaskLinkUnchanged, -1)
      else if tl_Project (lt_Link task) = [] then classify_from rest link (position + 1) position
      else classify_from rest link (position + 1) unresolved)"

definition ClassifyTaskLink :: "lane_task list \<Rightarrow> task_link \<Rightarrow> task_link_effect \<times> int" where
  "ClassifyTaskLink current link = classify_from current link 0 (-1)"

definition set_project :: "string \<Rightarrow> lane_task \<Rightarrow> lane_task" where
  "set_project p task = task\<lparr>lt_Link := (lt_Link task)\<lparr>tl_Project := p\<rparr>\<rparr>"

definition linkTask :: "int \<Rightarrow> lane_task list \<Rightarrow> task_link \<Rightarrow> lane_task list" where
  "linkTask atMS current link =
     (case ClassifyTaskLink current link of
        (TaskLinkResolves, index) \<Rightarrow>
          current[nat index := set_project (tl_Project link) (current ! nat index)]
      | (TaskLinkAdds, _) \<Rightarrow>
          (if length current < maxTaskLinks
           then current @ [\<lparr>lt_Link = link, lt_LinkedAtMS = atMS\<rparr>] else current)
      | (TaskLinkUnchanged, _) \<Rightarrow> current)"

definition without_url :: "task_link \<Rightarrow> task_link" where
  "without_url link = link\<lparr>tl_PullRequestURL := []\<rparr>"

definition LinkTasks :: "lane_task list \<Rightarrow> task_link list \<Rightarrow> int \<Rightarrow> lane_task list" where
  "LinkTasks current links atMS = foldl (\<lambda>next link. linkTask atMS next (without_url link)) current links"

definition UnlinkTasks :: "lane_task list \<Rightarrow> task_link list \<Rightarrow> lane_task list" where
  "UnlinkTasks current links = filter (\<lambda>task. \<not> list_ex (sameTaskIdentity task) links) current"

section \<open>The scan as a fact about the set of entries\<close>

abbreviation task_id :: "lane_task \<Rightarrow> string \<times> string" where
  "task_id t \<equiv> (tl_Ref (lt_Link t), tl_Project (lt_Link t))"

definition task_ids :: "lane_task list \<Rightarrow> (string \<times> string) list" where
  "task_ids ts = map task_id ts"

lemma task_ids_simps [simp]:
  "task_ids [] = []" "task_ids (t # ts) = task_id t # task_ids ts"
  "task_ids (ts @ us) = task_ids ts @ task_ids us" "length (task_ids ts) = length ts"
  by (simp_all add: task_ids_def)

text \<open>A link is applied when an entry has its identity, or any entry of the reference if no
  project is stated.\<close>

definition applied :: "lane_task list \<Rightarrow> task_link \<Rightarrow> bool" where
  "applied ts link \<longleftrightarrow> (\<exists>(r, p) \<in> set (task_ids ts).
     r = tl_Ref link \<and> (p = tl_Project link \<or> tl_Project link = []))"

definition unresolved_at :: "lane_task list \<Rightarrow> string \<Rightarrow> nat \<Rightarrow> bool" where
  "unresolved_at ts r i \<longleftrightarrow> i < length ts \<and> task_ids ts ! i = (r, [])"

lemma classify_Unchanged:
  "applied ts link \<Longrightarrow> classify_from ts link position unresolved = (TaskLinkUnchanged, -1)"
proof (induction ts arbitrary: position unresolved)
  case Nil
  then show ?case by (simp add: applied_def)
next
  case (Cons task rest)
  show ?case
  proof (cases "tl_Ref (lt_Link task) = tl_Ref link
      \<and> (tl_Project (lt_Link task) = tl_Project link \<or> tl_Project link = [])")
    case True
    then show ?thesis by (auto simp: sameTaskIdentity_def)
  next
    case False
    then have "applied rest link" using Cons.prems by (auto simp: applied_def)
    then show ?thesis using False Cons.IH by (auto simp: sameTaskIdentity_def)
  qed
qed

lemma classify_not_applied:
  assumes "\<not> applied ts link" and "0 \<le> position"
  shows "(\<exists>i. unresolved_at ts (tl_Ref link) i
            \<and> classify_from ts link position unresolved = (TaskLinkResolves, position + int i))
     \<or> ((\<forall>i. \<not> unresolved_at ts (tl_Ref link) i)
            \<and> classify_from ts link position unresolved =
                (if unresolved \<ge> 0 then (TaskLinkResolves, unresolved) else (TaskLinkAdds, -1)))"
  using assms
proof (induction ts link position unresolved rule: classify_from.induct)
  case (1 link position unresolved)
  then show ?case by (simp add: unresolved_at_def)
next
  case (2 task rest link position unresolved)
  have na: "\<not> applied rest link" using 2(4) by (auto simp: applied_def)
  have next_entry: "tl_Ref (lt_Link task) = tl_Ref link \<Longrightarrow>
      tl_Project (lt_Link task) \<noteq> tl_Project link \<and> tl_Project link \<noteq> []"
    using 2(4) by (auto simp: applied_def)
  have shift: "unresolved_at (task # rest) r i \<longleftrightarrow>
      (case i of 0 \<Rightarrow> task_id task = (r, []) | Suc j \<Rightarrow> unresolved_at rest r j)" for r i
    by (auto simp: unresolved_at_def split: nat.splits)
  show ?case
  proof (cases "\<exists>j. unresolved_at rest (tl_Ref link) j")
    case True
    let ?u = "if task_id task = (tl_Ref link, []) then position else unresolved"
    have "classify_from (task # rest) link position unresolved
        = classify_from rest link (position + 1) ?u"
      using next_entry by (auto simp: sameTaskIdentity_def)
    moreover obtain i where "unresolved_at rest (tl_Ref link) i"
      "classify_from rest link (position + 1) ?u = (TaskLinkResolves, position + 1 + int i)"
      using True 2 na next_entry by (fastforce simp: sameTaskIdentity_def split: if_splits)
    ultimately have "unresolved_at (task # rest) (tl_Ref link) (Suc i)
        \<and> classify_from (task # rest) link position unresolved = (TaskLinkResolves, position + int (Suc i))"
      by (simp add: shift)
    then show ?thesis by blast
  next
    case False
    show ?thesis
    proof (cases "task_id task = (tl_Ref link, [])")
      case True
      then have "classify_from (task # rest) link position unresolved = (TaskLinkResolves, position + int 0)"
        using False 2 na next_entry by (auto simp: sameTaskIdentity_def)
      then show ?thesis using True by (intro disjI1 exI [of _ 0]) (simp add: shift)
    next
      case nu: False
      then have "classify_from (task # rest) link position unresolved
          = classify_from rest link (position + 1) unresolved"
        using next_entry by (auto simp: sameTaskIdentity_def)
      then show ?thesis using False 2 na next_entry nu
        by (auto simp: shift sameTaskIdentity_def split: nat.splits if_splits)
    qed
  qed
qed

text \<open>The four outcomes of linking one reference.\<close>

lemma linkTask_cases:
  obtains (Unchanged) "applied ts link" "linkTask at ts link = ts"
  | (Resolves) i where "\<not> applied ts link" "unresolved_at ts (tl_Ref link) i"
      "linkTask at ts link = ts[i := set_project (tl_Project link) (ts ! i)]"
  | (Adds) "\<not> applied ts link" "\<And>i. \<not> unresolved_at ts (tl_Ref link) i" "length ts < maxTaskLinks"
      "linkTask at ts link = ts @ [\<lparr>lt_Link = link, lt_LinkedAtMS = at\<rparr>]"
  | (Full) "\<not> applied ts link" "\<And>i. \<not> unresolved_at ts (tl_Ref link) i" "maxTaskLinks \<le> length ts"
      "linkTask at ts link = ts"
proof (cases "applied ts link")
  case True
  then show thesis
    using Unchanged classify_Unchanged by (simp add: linkTask_def ClassifyTaskLink_def)
next
  case False
  from classify_not_applied [OF False order_refl, of "-1"] show thesis
  proof (elim disjE exE conjE)
    fix i
    assume "unresolved_at ts (tl_Ref link) i"
      "classify_from ts link 0 (-1) = (TaskLinkResolves, 0 + int i)"
    with False show thesis by (intro Resolves) (simp_all add: linkTask_def ClassifyTaskLink_def)
  next
    assume u: "\<forall>i. \<not> unresolved_at ts (tl_Ref link) i"
      and c: "classify_from ts link 0 (-1)
        = (if (0::int) \<le> -1 then (TaskLinkResolves, -1) else (TaskLinkAdds, -1))"
    show thesis
    proof (cases "length ts < maxTaskLinks")
      case True
      with False u c show thesis by (intro Adds) (simp_all add: linkTask_def ClassifyTaskLink_def)
    next
      case nl: False
      with False u c show thesis by (intro Full) (simp_all add: linkTask_def ClassifyTaskLink_def)
    qed
  qed
qed

lemma task_id_set_project [simp]: "task_id (set_project p t) = (tl_Ref (lt_Link t), p)"
  by (simp add: set_project_def)

lemma set_project_time [simp]: "lt_LinkedAtMS (set_project p t) = lt_LinkedAtMS t"
  by (simp add: set_project_def)

lemma task_ids_update:
  "unresolved_at ts r i \<Longrightarrow> task_ids (ts[i := set_project p (ts ! i)]) = (task_ids ts)[i := (r, p)]"
  by (auto simp: task_ids_def unresolved_at_def map_update)

section \<open>The invariant of a task list\<close>

definition wf_tasks :: "lane_task list \<Rightarrow> bool" where
  "wf_tasks ts \<longleftrightarrow> distinct (task_ids ts) \<and> length ts \<le> maxTaskLinks"

lemma wf_tasks_Nil [simp]: "wf_tasks []"
  by (simp add: wf_tasks_def)

lemma linkTask_wf: "wf_tasks ts \<Longrightarrow> wf_tasks (linkTask at ts link)"
proof (cases rule: linkTask_cases [where ts = ts and link = link and at = at])
  case (Resolves i)
  assume w: "wf_tasks ts"
  have "(tl_Ref link, tl_Project link) \<notin> set (task_ids ts)"
    using Resolves(1) by (auto simp: applied_def)
  then have "distinct ((task_ids ts)[i := (tl_Ref link, tl_Project link)])"
    using w by (simp add: wf_tasks_def distinct_list_update)
  then show ?thesis using w Resolves by (simp add: wf_tasks_def task_ids_update)
next
  case Adds
  assume w: "wf_tasks ts"
  have "(tl_Ref link, tl_Project link) \<notin> set (task_ids ts)"
    using Adds(1) by (auto simp: applied_def)
  then show ?thesis using w Adds by (simp add: wf_tasks_def)
qed simp_all

lemma LinkTasks_wf: "wf_tasks ts \<Longrightarrow> wf_tasks (LinkTasks ts links at)"
  unfolding LinkTasks_def by (rule foldl_inv) (auto intro: linkTask_wf)

lemma distinct_task_ids_filter: "distinct (task_ids ts) \<Longrightarrow> distinct (task_ids (filter p ts))"
  unfolding task_ids_def by (rule distinct_map_filter)

lemma UnlinkTasks_wf: "wf_tasks ts \<Longrightarrow> wf_tasks (UnlinkTasks ts links)"
  unfolding wf_tasks_def UnlinkTasks_def
  by (meson distinct_task_ids_filter le_trans length_filter_le)

section \<open>Linking settles\<close>

text \<open>
  The contract: applying \<open>x\<close> settles it, a settled \<open>x\<close> has no further effect, and no other
  application unsettles it.  Then a whole batch is idempotent.
\<close>

locale settling =
  fixes step :: "'t \<Rightarrow> 's \<Rightarrow> 'x \<Rightarrow> 's"
    and settled :: "'s \<Rightarrow> 'x \<Rightarrow> bool"
  assumes step_settles: "settled (step t s x) x"
    and settled_step: "settled s x \<Longrightarrow> step t s x = s"
    and settled_keep: "settled s x \<Longrightarrow> settled (step t s y) x"
begin

lemma settled_run: "settled s x \<Longrightarrow> settled (foldl (step t) s ys) x"
  by (induction ys arbitrary: s) (auto intro: settled_keep)

lemma run_settles: "x \<in> set xs \<Longrightarrow> settled (foldl (step t) s xs) x"
  by (induction xs arbitrary: s) (auto intro: settled_run step_settles)

lemma run_idle: "(\<And>x. x \<in> set xs \<Longrightarrow> settled s x) \<Longrightarrow> foldl (step t) s xs = s"
  by (rule foldl_inv [where P = "\<lambda>s'. s' = s"]) (auto simp: settled_step)

lemma run_idempotent: "foldl (step t') (foldl (step t) s xs) xs = foldl (step t) s xs"
  by (rule run_idle) (rule run_settles)

end

definition link_step :: "int \<Rightarrow> lane_task list \<Rightarrow> task_link \<Rightarrow> lane_task list" where
  "link_step at ts link = linkTask at ts (without_url link)"

definition link_settled :: "lane_task list \<Rightarrow> task_link \<Rightarrow> bool" where
  "link_settled ts link \<longleftrightarrow> applied ts link
     \<or> ((\<forall>i. \<not> unresolved_at ts (tl_Ref link) i) \<and> maxTaskLinks \<le> length ts)"

lemma without_url_simps [simp]:
  "tl_Ref (without_url l) = tl_Ref l" "tl_Project (without_url l) = tl_Project l"
  "applied ts (without_url l) = applied ts l"
  by (simp_all add: without_url_def applied_def)

lemma applied_linkTask_same:
  "applied (linkTask at ts link) link \<or>
     ((\<forall>i. \<not> unresolved_at ts (tl_Ref link) i) \<and> maxTaskLinks \<le> length ts \<and> linkTask at ts link = ts)"
proof (cases rule: linkTask_cases [where ts = ts and link = link and at = at])
  case (Resolves i)
  then have "(tl_Ref link, tl_Project link) \<in> set (task_ids (linkTask at ts link))"
    by (simp add: task_ids_update unresolved_at_def set_update_memI)
  then show ?thesis by (auto simp: applied_def)
qed (auto simp: applied_def)

lemma applied_linkTask: "applied ts link \<Longrightarrow> applied (linkTask at ts other) link"
proof (cases rule: linkTask_cases [where ts = ts and link = other and at = at])
  case (Resolves i)
  assume "applied ts link"
  then obtain r p where rp: "(r, p) \<in> set (task_ids ts)" "r = tl_Ref link"
    "p = tl_Project link \<or> tl_Project link = []" by (auto simp: applied_def)
  then obtain j where j: "j < length ts" "task_ids ts ! j = (r, p)" by (auto simp: in_set_conv_nth)
  let ?ids = "(task_ids ts)[i := (tl_Ref other, tl_Project other)]"
  show ?thesis
  proof (cases "j = i")
    case True
    then have "r = tl_Ref other" "p = []" using j Resolves(2) by (auto simp: unresolved_at_def)
    then have "(tl_Ref link, tl_Project other) \<in> set ?ids" "tl_Project link = []"
      using rp Resolves(2) by (auto simp: unresolved_at_def set_update_memI)
    then show ?thesis using Resolves by (auto simp: applied_def task_ids_update)
  next
    case False
    then have "?ids ! j = (r, p)" using j by simp
    then have "(r, p) \<in> set ?ids" using j by (metis length_list_update nth_mem task_ids_simps(4))
    then show ?thesis using Resolves rp by (auto simp: applied_def task_ids_update)
  qed
qed (auto simp: applied_def)

lemma linkTask_full:
  assumes "\<And>i. \<not> unresolved_at ts r i" and "maxTaskLinks \<le> length ts"
  shows "maxTaskLinks \<le> length (linkTask at ts other) \<and> \<not> unresolved_at (linkTask at ts other) r j"
proof (cases rule: linkTask_cases [where ts = ts and link = other and at = at])
  case (Resolves i)
  then have "(tl_Ref other, []) \<in> set (task_ids ts)"
    unfolding unresolved_at_def by (metis nth_mem task_ids_simps(4))
  then have "tl_Project other \<noteq> []" using Resolves(1) by (auto simp: applied_def)
  then show ?thesis using assms Resolves
    by (auto simp: unresolved_at_def task_ids_update nth_list_update)
qed (use assms in auto)

interpretation link: settling link_step link_settled
proof
  show "link_settled (link_step t s x) x" for t s x
    using applied_linkTask_same [of t s "without_url x"]
    by (auto simp: link_step_def link_settled_def)
  show "link_step t s x = s" if "link_settled s x" for t s x
    using that by (cases rule: linkTask_cases [where ts = s and link = "without_url x" and at = t])
      (auto simp: link_step_def link_settled_def)
  show "link_settled (link_step t s y) x" if "link_settled s x" for t s x y
    using that applied_linkTask [of s x] linkTask_full [of s "tl_Ref x"]
    unfolding link_settled_def link_step_def by blast
qed

lemma LinkTasks_foldl: "LinkTasks ts links at = foldl (link_step at) ts links"
  by (simp add: LinkTasks_def link_step_def [abs_def])

section \<open>Properties\<close>

text \<open>C36: linking any batch of references to a task list and unlinking any other keeps the list free
  of two entries of one identity and within its bound of 64.\<close>

theorem tasks_invariant:
  assumes "wf_tasks ts"
  shows "wf_tasks (LinkTasks ts links at) \<and> wf_tasks (UnlinkTasks ts links)"
  using assms by (simp add: LinkTasks_wf UnlinkTasks_wf)

theorem tasks_invariant_witness:
  "wf_tasks (LinkTasks [] [\<lparr>tl_Ref = ''sw:tsk_1'', tl_Project = [], tl_PullRequestURL = []\<rparr>] 5)
   \<and> wf_tasks (UnlinkTasks [] [])"
  using tasks_invariant [of "[]"] by (simp add: UnlinkTasks_def)

text \<open>Recording the same batch of links again, at any later time, changes nothing: not the
  entries, not their order, not the times they were linked at.\<close>

lemma LinkTasks_idempotent:
  "LinkTasks (LinkTasks ts links at) links at' = LinkTasks ts links at"
  unfolding LinkTasks_foldl by (rule link.run_idempotent)

definition keeps_entries :: "lane_task list \<Rightarrow> lane_task list \<Rightarrow> bool" where
  "keeps_entries old new \<longleftrightarrow> length old \<le> length new \<and>
     (\<forall>i < length old. lt_LinkedAtMS (new ! i) = lt_LinkedAtMS (old ! i)
        \<and> tl_Ref (lt_Link (new ! i)) = tl_Ref (lt_Link (old ! i))
        \<and> (tl_Project (lt_Link (old ! i)) \<noteq> [] \<longrightarrow> new ! i = old ! i))"

lemma keeps_entries_refl: "keeps_entries ts ts"
  by (simp add: keeps_entries_def)

lemma keeps_entries_trans: "keeps_entries a b \<Longrightarrow> keeps_entries b c \<Longrightarrow> keeps_entries a c"
  unfolding keeps_entries_def by (metis order_less_le_trans le_trans)

lemma linkTask_keeps: "keeps_entries ts (linkTask at ts link)"
proof (cases rule: linkTask_cases [where ts = ts and link = link and at = at])
  case (Resolves i)
  then show ?thesis
    by (auto simp: keeps_entries_def unresolved_at_def nth_list_update set_project_def task_ids_def)
qed (auto simp: keeps_entries_def nth_append)

text \<open>Linking never moves a reference from one project to another and never drops one: every
  entry that names a project stays with its time, and an unresolved entry stays or is resolved in
  place, keeping the time it was linked at.\<close>

lemma LinkTasks_keeps: "keeps_entries ts (LinkTasks ts links at)"
  unfolding LinkTasks_def
  by (rule foldl_inv [where P = "keeps_entries ts"])
    (auto intro: keeps_entries_refl keeps_entries_trans linkTask_keeps)

text \<open>Unlinking removes exactly the entries whose reference and project a link names, and keeps
  the others in order.\<close>

lemma UnlinkTasks_exact:
  "task_ids (UnlinkTasks ts links)
     = filter (\<lambda>i. i \<notin> (\<lambda>l. (tl_Ref l, tl_Project l)) ` set links) (task_ids ts)"
proof -
  have "list_ex (sameTaskIdentity t) links \<longleftrightarrow> task_id t \<in> (\<lambda>l. (tl_Ref l, tl_Project l)) ` set links" for t
    by (auto simp: list_ex_iff sameTaskIdentity_def image_iff)
  then show ?thesis
    by (induction ts) (simp_all add: UnlinkTasks_def)
qed

end
