(* ===== verification/Lane_Store.thy ===== *)
theory Lane_Store
  imports Ledger_Types Recipes Task_Links
begin

text \<open>
  The store of \<open>runtime/internal/ledger/store.go\<close>: the \<open>lane_events\<close> table as its SQL schema
  declares it, the append of one event with activity coalescing, and the batch append of
  archived lanes.

  A row is an \<open>event\<close>.  The schema's constraints are in \<open>insert_row\<close>: \<open>seq\<close> is an
  autoincrement key, one more than the largest ever committed; \<open>event_id\<close> is unique;
  \<open>payload_json\<close> is valid JSON.  The two triggers forbid update and delete, and no statement of
  the store does either.  What the outside decides in one call is the record \<open>env\<close>: the clock and
  the event id source at each use, and whether SQLite or the file system fails at each point.
  A transaction that fails is rolled back (\<open>defer transaction.Rollback()\<close>).
\<close>

section \<open>State, environment, errors\<close>

record store =
  st_Rows :: "event list"
  st_LastSeq :: int
  st_Latest :: "(string \<times> int) list"
  st_Probes :: int
  st_WindowMS :: int

definition empty_store :: "int \<Rightarrow> store" where
  "empty_store windowMS = \<lparr>st_Rows = [], st_LastSeq = 0, st_Latest = [], st_Probes = 0, st_WindowMS = windowMS\<rparr>"

record env =
  en_Clock :: "nat \<Rightarrow> int"
  en_NewEventID :: "nat \<Rightarrow> string option"
  en_Query :: bool
  en_Begin :: bool
  en_Insert :: "nat \<Rightarrow> bool"
  en_Commit :: bool
  en_Secure :: bool

datatype record_error =
    LaneUUIDMismatch string string
  | InvalidResumeIdentity resume_error
  | InvalidCreator creator_error
  | InvalidDelegationKind string
  | InvalidDescriptionSource string
  | DescriptionRequired
  | PartialWorktreeProvenance
  | WorktreeNotCwd string string
  | PartialProfileProvenance
  | ConfigDirNotAbsolute
  | InvalidTaskLinks link_error
  | InvalidRebindUUID string
  | NewLaneRequired
  | SameLane
  | PartialInitiator
  | InvalidField string
  | InvalidActivitySource string
  | AuthorNotSession
  | InvalidByteCounts
  | EndpointAndLaneRequired
  | InvalidWorktreeIdentity worktree_error
  | BranchHeadRequired
  | InvalidPullRequest
  | URLRequired
  | StateRequired
  | TaskLinkNamesOther

datatype store_error =
    Invalid record_error
  | LaneIDRequired
  | DuplicateLane string
  | ActorRequired
  | InvalidActor string
  | EventIDFailed
  | ReadFailed
  | BeginFailed
  | InsertFailed
  | CommitFailed
  | SecureFailed

section \<open>The table\<close>

definition insert_row :: "event \<Rightarrow> event list \<times> int \<Rightarrow> (event list \<times> int) option" where
  "insert_row row table =
     (let (rows, seq) = table in
      if seq \<ge> 2 ^ 63 - 1 \<or> ev_EventID row \<in> ev_EventID ` set rows \<or> ev_Payload row = None then None
      else Some (rows @ [row\<lparr>ev_Seq := seq + 1\<rparr>], seq + 1))"

fun insert_rows :: "(nat \<Rightarrow> bool) \<Rightarrow> nat \<Rightarrow> event list \<Rightarrow> event list \<times> int \<Rightarrow> (event list \<times> int) option" where
  "insert_rows ok i [] table = Some table"
| "insert_rows ok i (row # rest) table =
     (if \<not> ok i then None
      else case insert_row row table of None \<Rightarrow> None
           | Some table' \<Rightarrow> insert_rows ok (i + 1) rest table')"

text \<open>
  The part of \<open>append\<close> and \<open>RecordArchived\<close> from \<open>BeginTx\<close> on.  An error of \<open>secureFiles\<close> comes
  after the commit: the rows are in the table although the call reports an error.
\<close>

definition transaction :: "env \<Rightarrow> event list \<Rightarrow> store \<Rightarrow> store_error option \<times> store" where
  "transaction env rows st =
     (if \<not> en_Begin env then (Some BeginFailed, st)
      else case insert_rows (en_Insert env) 0 rows (st_Rows st, st_LastSeq st) of
        None \<Rightarrow> (Some InsertFailed, st)
      | Some (rows', seq) \<Rightarrow>
          if \<not> en_Commit env then (Some CommitFailed, st)
          else (let st' = st\<lparr>st_Rows := rows', st_LastSeq := seq\<rparr>
                in (if \<not> en_Secure env then Some SecureFailed else None, st')))"

section \<open>Coalescing\<close>

definition coalesceEntryLimit :: nat where "coalesceEntryLimit = 50000"

definition coalesceKey :: "string \<Rightarrow> event_type \<Rightarrow> string" where
  "coalesceKey laneID kind = laneID @ CHR 0x00 # event_type_text kind"

definition rememberCoalesced :: "string \<Rightarrow> int \<Rightarrow> store \<Rightarrow> store" where
  "rememberCoalesced key atMS st =
     (let latest = (if length (st_Latest st) \<ge> coalesceEntryLimit then [] else st_Latest st) in
      case map_of latest key of
        Some current \<Rightarrow> if atMS > current then st\<lparr>st_Latest := AList.update key atMS latest\<rparr>
                        else st\<lparr>st_Latest := latest\<rparr>
      | None \<Rightarrow> st\<lparr>st_Latest := AList.update key atMS latest\<rparr>)"

definition knownCoalesced :: "string \<Rightarrow> int \<Rightarrow> store \<Rightarrow> int option" where
  "knownCoalesced key atMS st =
     (case map_of (st_Latest st) key of
        None \<Rightarrow> None
      | Some latest \<Rightarrow> if latest > atMS then None else Some latest)"

text \<open>\<open>SELECT MAX(at_ms) FROM lane_events WHERE lane_id = ? AND type = ? AND at_ms <= ?\<close>\<close>

definition newest_at_most :: "string \<Rightarrow> event_type \<Rightarrow> int \<Rightarrow> event list \<Rightarrow> int option" where
  "newest_at_most laneID kind atMS rows =
     (let times = map ev_AtMS (filter (\<lambda>r. ev_LaneID r = laneID
                     \<and> event_type_text (ev_Type r) = event_type_text kind \<and> ev_AtMS r \<le> atMS) rows)
      in if times = [] then None else Some (Max (set times)))"

definition within :: "store \<Rightarrow> int \<Rightarrow> int \<Rightarrow> bool" where
  "within st atMS latest \<longleftrightarrow> i64 (atMS - latest) < st_WindowMS st"

definition coalesced ::
    "env \<Rightarrow> string \<Rightarrow> event_type \<Rightarrow> string \<Rightarrow> int \<Rightarrow> store \<Rightarrow> (store_error + bool) \<times> store" where
  "coalesced env key kind laneID atMS st =
     (case knownCoalesced key atMS st of
        Some latest \<Rightarrow> (Inr (within st atMS latest), st)
      | None \<Rightarrow>
          (let st1 = st\<lparr>st_Probes := i64 (st_Probes st + 1)\<rparr> in
           if \<not> en_Query env then (Inl ReadFailed, st1)
           else case newest_at_most laneID kind atMS (st_Rows st1) of
             None \<Rightarrow> (Inr False, st1)
           | Some latest \<Rightarrow> (Inr (within st atMS latest), rememberCoalesced key latest st1)))"

section \<open>Appending\<close>

definition new_row :: "string \<Rightarrow> string \<Rightarrow> event_type \<Rightarrow> int \<Rightarrow> string \<Rightarrow> json \<Rightarrow> event" where
  "new_row eventID laneID kind atMS actor payload =
     \<lparr>ev_Seq = 0, ev_EventID = eventID, ev_LaneID = laneID, ev_Type = kind, ev_AtMS = atMS,
      ev_Actor = actor, ev_SchemaVersion = 1, ev_Payload = Some payload\<rparr>"

definition append_time :: "env \<Rightarrow> meta \<Rightarrow> int" where
  "append_time env meta = (if mt_AtMS meta = 0 then en_Clock env 0 else mt_AtMS meta)"

definition append_event ::
    "env \<Rightarrow> event_type \<Rightarrow> meta \<Rightarrow> json \<Rightarrow> bool \<Rightarrow> store \<Rightarrow> store_error option \<times> store" where
  "append_event env kind meta payload coalesce st =
     (if mt_LaneID meta = [] then (Some LaneIDRequired, st) else
      let at = append_time env meta in
      if mt_Actor meta = [] then (Some ActorRequired, st)
      else if \<not> validActor (mt_Actor meta) then (Some (InvalidActor (mt_Actor meta)), st)
      else case (if mt_EventID meta = [] then en_NewEventID env 0 else Some (mt_EventID meta)) of
        None \<Rightarrow> (Some EventIDFailed, st)
      | Some eventID \<Rightarrow>
          (let key = coalesceKey (mt_LaneID meta) kind;
               (probe, st1) = (if coalesce then coalesced env key kind (mt_LaneID meta) at st
                               else (Inr False, st))
           in case probe of
             Inl e \<Rightarrow> (Some e, st1)
           | Inr True \<Rightarrow> (None, st1)
           | Inr False \<Rightarrow>
               (case transaction env [new_row eventID (mt_LaneID meta) kind at (mt_Actor meta) payload] st1 of
                  (Some e, st2) \<Rightarrow> (Some e, st2)
                | (None, st2) \<Rightarrow> (None, if coalesce then rememberCoalesced key at st2 else st2))))"

definition default_actor :: "string \<Rightarrow> meta \<Rightarrow> meta" where
  "default_actor actor meta = (if mt_Actor meta = [] then meta\<lparr>mt_Actor := actor\<rparr> else meta)"

definition observe :: "env \<Rightarrow> event_type \<Rightarrow> meta \<Rightarrow> string \<Rightarrow> json \<Rightarrow> store \<Rightarrow> store_error option \<times> store" where
  "observe env kind meta actor payload st = append_event env kind (default_actor actor meta) payload False st"

text \<open>
  \<open>RecordArchived\<close>: the batch is checked and completed before the transaction begins.  The clock
  and the id source are asked once per value that needs them; \<open>i\<close> numbers the values.
\<close>

fun archive_rows :: "env \<Rightarrow> nat \<Rightarrow> string list \<Rightarrow> meta list \<Rightarrow> store_error + event list" where
  "archive_rows env i seen [] = Inr []"
| "archive_rows env i seen (v # vs) =
     (if mt_LaneID v = [] then Inl LaneIDRequired
      else if mt_LaneID v \<in> set seen then Inl (DuplicateLane (mt_LaneID v))
      else
        (let at = (if mt_AtMS v = 0 then en_Clock env i else mt_AtMS v);
             actor = mt_Actor (default_actor ActorUser v)
         in if \<not> validActor actor then Inl (InvalidActor actor)
            else case (if mt_EventID v = [] then en_NewEventID env i else Some (mt_EventID v)) of
              None \<Rightarrow> Inl EventIDFailed
            | Some eventID \<Rightarrow>
                map_sum id ((#) (new_row eventID (mt_LaneID v) EventArchived at actor (JObj [])))
                  (archive_rows env (i + 1) (mt_LaneID v # seen) vs)))"

definition RecordArchived :: "env \<Rightarrow> meta list \<Rightarrow> store \<Rightarrow> store_error option \<times> store" where
  "RecordArchived env values st =
     (if values = [] then (None, st)
      else case archive_rows env 0 [] values of
        Inl e \<Rightarrow> (Some e, st)
      | Inr rows \<Rightarrow> transaction env rows st)"

section \<open>Reading\<close>

text \<open>\<open>Events\<close>: all rows, or one lane's, by sequence.\<close>

definition Events :: "bool \<Rightarrow> string \<Rightarrow> store \<Rightarrow> store_error + event list" where
  "Events ok laneID st =
     (if \<not> ok then Inl ReadFailed
      else Inr (sort_key ev_Seq (if laneID \<noteq> [] then filter (\<lambda>r. ev_LaneID r = laneID) (st_Rows st)
                                 else st_Rows st)))"

end
