(* ===== verification/Pull_Requests.thy ===== *)
theory Pull_Requests
  imports Task_Links
begin

text \<open>
  \<open>runtime/internal/ledger/pull_request.go\<close> and the fold of \<open>task_link.go\<close>: how pull request and
  task link facts change the links a lane holds.  \<open>clonePullRequest\<close> copies the tasks slice; a
  value of the model is its own copy, so it does not appear.
\<close>

definition maxPullRequestLinks :: nat where "maxPullRequestLinks = 32"

datatype ref_error = RefPartRequired | RefNumberNotPositive

definition validatePullRequestRef :: "pull_request_ref \<Rightarrow> ref_error option" where
  "validatePullRequestRef ref =
     (if trim_space (rf_URL ref) = [] \<or> trim_space (rf_Host ref) = []
         \<or> trim_space (rf_Owner ref) = [] \<or> trim_space (rf_Repo ref) = [] then Some RefPartRequired
      else if rf_Number ref < 1 then Some RefNumberNotPositive
      else None)"

section \<open>The list of links\<close>

fun find_from :: "lane_pull_request list \<Rightarrow> string \<Rightarrow> int \<Rightarrow> int" where
  "find_from [] url index = -1"
| "find_from (p # ps) url index = (if lp_URL p = url then index else find_from ps url (index + 1))"

definition findPullRequest :: "lane_pull_request list \<Rightarrow> string \<Rightarrow> int" where
  "findPullRequest links url = (if url = [] then -1 else find_from links url 0)"

definition appendPullRequest ::
    "lane_pull_request list \<Rightarrow> lane_pull_request \<Rightarrow> lane_pull_request list" where
  "appendPullRequest links link = (if length links \<ge> maxPullRequestLinks then links else links @ [link])"

definition removePullRequest :: "lane_pull_request list \<Rightarrow> string \<Rightarrow> lane_pull_request list" where
  "removePullRequest links url = filter (\<lambda>p. lp_URL p \<noteq> url) links"

definition syncPrimaryPullRequest :: "lane_state \<Rightarrow> string \<Rightarrow> lane_state" where
  "syncPrimaryPullRequest s url =
     (let index = findPullRequest (ls_PullRequests s) url in
      if index < 0 then s\<lparr>ls_PullRequest := empty_pull_request\<rparr>
      else s\<lparr>ls_PullRequest := ls_PullRequests s ! nat index\<rparr>)"

section \<open>The folds\<close>

definition observePullRequest :: "lane_state \<Rightarrow> event \<Rightarrow> lane_state" where
  "observePullRequest s e =
     (case unmarshal (dec_struct dec_pullRequestObservedPayload) zero_pullRequestObservedPayload (ev_Payload e) of
        None \<Rightarrow> s
      | Some payload \<Rightarrow>
          (let index = findPullRequest (ls_PullRequests s) (dv_URL payload) in
           if index < 0 \<or> lp_Merged (ls_PullRequests s ! nat index) then s
           else (let current = (ls_PullRequests s ! nat index)\<lparr>
                         lp_Observed := True, lp_ObservedAtMS := ev_AtMS e,
                         lp_Observation := dv_Observation payload,
                         lp_Merged := ob_State (dv_Observation payload) = ''merged''\<rparr>
                 in syncPrimaryPullRequest
                      (s\<lparr>ls_PullRequests := (ls_PullRequests s)[nat index := current]\<rparr>)
                      (lp_URL (ls_PullRequest s)))))"

definition fold_linked :: "lane_state \<Rightarrow> event \<Rightarrow> lane_state" where
  "fold_linked s e =
     (case unmarshal (dec_struct dec_pull_request_ref) empty_ref (ev_Payload e) of
        None \<Rightarrow> s
      | Some payload \<Rightarrow>
          if validatePullRequestRef payload \<noteq> None then s
          else if rf_URL payload = lp_URL (ls_PullRequest s) then s
          else (let kept = (if lp_URL (ls_PullRequest s) \<noteq> []
                            then removePullRequest (ls_PullRequests s) (lp_URL (ls_PullRequest s))
                            else ls_PullRequests s);
                    links = (if findPullRequest kept (rf_URL payload) < 0
                             then appendPullRequest kept (link_of_ref payload (ev_AtMS e)) else kept)
                in syncPrimaryPullRequest (s\<lparr>ls_PullRequests := links\<rparr>) (rf_URL payload)))"

definition fold_added :: "lane_state \<Rightarrow> event \<Rightarrow> lane_state" where
  "fold_added s e =
     (case unmarshal (dec_struct dec_pullRequestAddedPayload) zero_pullRequestAddedPayload (ev_Payload e) of
        None \<Rightarrow> s
      | Some payload \<Rightarrow>
          if validatePullRequestRef (da_Ref payload) \<noteq> None
             \<or> findPullRequest (ls_PullRequests s) (rf_URL (da_Ref payload)) \<ge> 0 then s
          else (let link = link_of_ref (da_Ref payload) (ev_AtMS e);
                    link' = (if validateCreatedTaskLinks (da_TaskLinks payload) = None
                             then link\<lparr>lp_Tasks := LinkTasks [] (da_TaskLinks payload) (ev_AtMS e)\<rparr>
                             else link);
                    primary = lp_URL (ls_PullRequest s)
                in syncPrimaryPullRequest
                     (s\<lparr>ls_PullRequests := appendPullRequest (ls_PullRequests s) link'\<rparr>)
                     (if primary = [] then rf_URL (da_Ref payload) else primary)))"

definition fold_unlinked :: "lane_state \<Rightarrow> event \<Rightarrow> lane_state" where
  "fold_unlinked s e =
     (case unmarshal (dec_struct dec_pullRequestUnlinkedPayload) zero_pullRequestUnlinkedPayload (ev_Payload e) of
        None \<Rightarrow> s
      | Some payload \<Rightarrow>
          if findPullRequest (ls_PullRequests s) (up_URL payload) < 0 then s
          else (let links = removePullRequest (ls_PullRequests s) (up_URL payload);
                    primary = lp_URL (ls_PullRequest s);
                    primary' = (if primary = up_URL payload
                                then (if links = [] then [] else lp_URL (last links)) else primary)
                in syncPrimaryPullRequest (s\<lparr>ls_PullRequests := links\<rparr>) primary'))"

definition foldPullRequest :: "lane_state \<Rightarrow> event \<Rightarrow> lane_state" where
  "foldPullRequest s e = (case ev_Type e of
     EventPullRequestLinked \<Rightarrow> fold_linked s e
   | EventPullRequestAdded \<Rightarrow> fold_added s e
   | EventPullRequestUnlinked \<Rightarrow> fold_unlinked s e
   | EventPullRequestObserved \<Rightarrow> observePullRequest s e
   | _ \<Rightarrow> s)"

text \<open>The targets of a batch in the order they are first named, and one target's links.\<close>

definition target_order :: "task_link list \<Rightarrow> string list" where
  "target_order links = foldl (\<lambda>order link.
     if tl_PullRequestURL link \<in> set order then order else order @ [tl_PullRequestURL link]) [] links"

definition by_target :: "task_link list \<Rightarrow> string \<Rightarrow> task_link list" where
  "by_target links target = filter (\<lambda>link. tl_PullRequestURL link = target) links"

definition apply_links :: "event \<Rightarrow> lane_task list \<Rightarrow> task_link list \<Rightarrow> lane_task list" where
  "apply_links e current links =
     (if ev_Type e = EventTaskUnlinked then UnlinkTasks current links
      else LinkTasks current links (ev_AtMS e))"

definition fold_target :: "event \<Rightarrow> task_link list \<Rightarrow> lane_state \<Rightarrow> string \<Rightarrow> lane_state" where
  "fold_target e all s target =
     (if target = [] then s\<lparr>ls_Tasks := apply_links e (ls_Tasks s) (by_target all target)\<rparr>
      else (let index = findPullRequest (ls_PullRequests s) target in
            if index \<ge> 0 then
              s\<lparr>ls_PullRequests := (ls_PullRequests s)[nat index :=
                   (ls_PullRequests s ! nat index)\<lparr>lp_Tasks :=
                     apply_links e (lp_Tasks (ls_PullRequests s ! nat index)) (by_target all target)\<rparr>]\<rparr>
            else s))"

definition foldTaskLinks :: "lane_state \<Rightarrow> event \<Rightarrow> lane_state" where
  "foldTaskLinks s e =
     (case unmarshal (dec_struct dec_taskLinksPayload) zero_taskLinksPayload (ev_Payload e) of
        None \<Rightarrow> s
      | Some payload \<Rightarrow>
          if validateTaskLinks (tp_Links payload) \<noteq> None then s
          else syncPrimaryPullRequest
                 (foldl (fold_target e (tp_Links payload)) s (target_order (tp_Links payload)))
                 (lp_URL (ls_PullRequest s)))"

section \<open>Finding a link\<close>

lemma find_from_spec:
  "(find_from ps url k = -1 \<and> url \<notin> lp_URL ` set ps)
   \<or> (\<exists>i < length ps. find_from ps url k = k + int i \<and> lp_URL (ps ! i) = url)"
proof (induction ps arbitrary: k)
  case (Cons p ps)
  show ?case
  proof (cases "lp_URL p = url")
    case False
    from Cons [of "k + 1"] show ?thesis
    proof (elim disjE exE conjE)
      fix i assume "i < length ps" "find_from ps url (k + 1) = k + 1 + int i" "lp_URL (ps ! i) = url"
      with False show ?thesis by (intro disjI2 exI [of _ "Suc i"]) simp
    qed (use False in auto)
  qed (intro disjI2 exI [of _ 0], simp)
qed simp

lemma findPullRequest_cases:
  obtains (Absent) "findPullRequest ps url = -1" "url = [] \<or> url \<notin> lp_URL ` set ps"
  | (Found) i where "findPullRequest ps url = int i" "i < length ps" "lp_URL (ps ! i) = url" "url \<noteq> []"
proof (cases "url = []")
  case True
  then show thesis using Absent by (simp add: findPullRequest_def)
next
  case False
  then show thesis using find_from_spec [of ps url 0] Absent Found
    by (auto simp: findPullRequest_def)
qed

lemma findPullRequest_neg: "findPullRequest ps url < 0 \<longleftrightarrow> url = [] \<or> url \<notin> lp_URL ` set ps"
  by (cases rule: findPullRequest_cases [of ps url]) auto

lemma findPullRequest_nonneg: "0 \<le> findPullRequest ps url \<longleftrightarrow> url \<noteq> [] \<and> url \<in> lp_URL ` set ps"
  using findPullRequest_neg [of ps url] by linarith

lemma validatePullRequestRef_URL: "validatePullRequestRef r = None \<Longrightarrow> rf_URL r \<noteq> []"
  by (auto simp: validatePullRequestRef_def split: if_splits)

section \<open>The invariant\<close>

text \<open>
  The links have distinct, non-empty URLs and stay within the bound, every link's tasks are well
  formed, and the singular primary field is a copy of one of them, or empty when there is none.
\<close>

definition wf_links :: "lane_pull_request list \<Rightarrow> bool" where
  "wf_links ps \<longleftrightarrow> distinct (map lp_URL ps) \<and> length ps \<le> maxPullRequestLinks
     \<and> (\<forall>p \<in> set ps. lp_URL p \<noteq> [] \<and> wf_tasks (lp_Tasks p))"

definition primary_ok :: "lane_state \<Rightarrow> bool" where
  "primary_ok s \<longleftrightarrow> (if ls_PullRequests s = [] then ls_PullRequest s = empty_pull_request
     else ls_PullRequest s \<in> set (ls_PullRequests s))"

definition links_inv :: "lane_state \<Rightarrow> bool" where
  "links_inv s \<longleftrightarrow> wf_links (ls_PullRequests s) \<and> primary_ok s \<and> wf_tasks (ls_Tasks s)"

lemma empty_pull_request_URL [simp]: "lp_URL empty_pull_request = []"
  by (simp add: empty_pull_request_def link_of_ref_def empty_ref_def)

lemma primary_URL:
  assumes "links_inv s"
  shows "lp_URL (ls_PullRequest s) \<in> lp_URL ` set (ls_PullRequests s) \<or>
    (ls_PullRequests s = [] \<and> lp_URL (ls_PullRequest s) = [])"
  using assms by (auto simp: links_inv_def primary_ok_def split: if_splits)

lemma syncPrimary_inv:
  assumes "wf_links (ls_PullRequests s)" and "wf_tasks (ls_Tasks s)"
    and "url \<in> lp_URL ` set (ls_PullRequests s) \<or> ls_PullRequests s = []"
  shows "links_inv (syncPrimaryPullRequest s url)"
proof (cases rule: findPullRequest_cases [of "ls_PullRequests s" url])
  case Absent
  have "[] \<notin> lp_URL ` set (ls_PullRequests s)" using assms(1) by (auto simp: wf_links_def)
  then have "ls_PullRequests s = []" using Absent assms(3) by auto
  then show ?thesis using Absent assms
    by (simp add: links_inv_def primary_ok_def syncPrimaryPullRequest_def)
next
  case (Found i)
  then show ?thesis using assms
    by (auto simp: links_inv_def primary_ok_def syncPrimaryPullRequest_def)
qed

lemma wf_links_remove: "wf_links ps \<Longrightarrow> wf_links (removePullRequest ps url)"
  unfolding wf_links_def removePullRequest_def
  by (auto intro: distinct_map_filter le_trans [OF length_filter_le])

lemma wf_links_append:
  "wf_links ps \<Longrightarrow> lp_URL p \<notin> lp_URL ` set ps \<Longrightarrow> lp_URL p \<noteq> [] \<Longrightarrow> wf_tasks (lp_Tasks p)
     \<Longrightarrow> wf_links (appendPullRequest ps p)"
  by (auto simp: wf_links_def appendPullRequest_def)

lemma map_URL_update:
  "i < length ps \<Longrightarrow> lp_URL p = lp_URL (ps ! i) \<Longrightarrow> map lp_URL (ps[i := p]) = map lp_URL ps"
  by (metis list_update_id map_update nth_map)

lemma in_set_update: "q \<in> set (ps[i := p]) \<Longrightarrow> q = p \<or> q \<in> set ps"
  using set_update_subset_insert by fast

lemma wf_links_update:
  assumes "wf_links ps" and "i < length ps" and "lp_URL p = lp_URL (ps ! i)" and "wf_tasks (lp_Tasks p)"
  shows "wf_links (ps[i := p])"
proof -
  have "map lp_URL (ps[i := p]) = map lp_URL ps"
    using assms(2,3) by (rule map_URL_update)
  moreover have "lp_URL q \<noteq> [] \<and> wf_tasks (lp_Tasks q)" if "q \<in> set (ps[i := p])" for q
  proof -
    have "lp_URL p \<noteq> []" unfolding assms(3) using assms(1,2) nth_mem unfolding wf_links_def by blast
    then show ?thesis using in_set_update [OF that] assms(1,4) unfolding wf_links_def by blast
  qed
  ultimately show ?thesis using assms(1) by (simp add: wf_links_def)
qed

lemma URLs_update: "i < length ps \<Longrightarrow> lp_URL p = lp_URL (ps ! i) \<Longrightarrow> lp_URL ` set (ps[i := p]) = lp_URL ` set ps"
  by (metis list.set_map map_URL_update)

lemma removePullRequest_URLs: "lp_URL ` set (removePullRequest ps url) = lp_URL ` set ps - {url}"
  by (auto simp: removePullRequest_def)

lemma length_remove_lt:
  "url \<in> lp_URL ` set ps \<Longrightarrow> length (removePullRequest ps url) < length ps"
  unfolding removePullRequest_def by (auto intro: length_filter_less)

lemma link_of_ref_simps [simp]:
  "lp_Ref (link_of_ref r at) = r" "lp_Tasks (link_of_ref r at) = []" "lp_Merged (link_of_ref r at) = False"
  by (simp_all add: link_of_ref_def)

lemma fold_linked_inv:
  assumes inv: "links_inv s"
  shows "links_inv (fold_linked s e)"
proof (cases "unmarshal (dec_struct dec_pull_request_ref) empty_ref (ev_Payload e)")
  case None
  then show ?thesis using inv by (simp add: fold_linked_def)
next
  case (Some r)
  let ?primary = "lp_URL (ls_PullRequest s)"
  let ?kept = "if ?primary \<noteq> [] then removePullRequest (ls_PullRequests s) ?primary else ls_PullRequests s"
  have w: "wf_links ?kept" "wf_tasks (ls_Tasks s)"
    using inv by (auto simp: links_inv_def wf_links_remove)
  have room: "length ?kept < maxPullRequestLinks"
  proof (cases "?primary = []")
    case True
    then have "ls_PullRequests s = []"
      using primary_URL [OF inv] inv by (auto simp: links_inv_def wf_links_def)
    then show ?thesis using True by (simp add: maxPullRequestLinks_def)
  next
    case False
    then have "length ?kept < length (ls_PullRequests s)"
      using primary_URL [OF inv] length_remove_lt by auto
    then show ?thesis using inv by (simp add: links_inv_def wf_links_def)
  qed
  show ?thesis
  proof (cases "validatePullRequestRef r = None \<and> rf_URL r \<noteq> ?primary")
    case True
    then have u: "rf_URL r \<noteq> []" using validatePullRequestRef_URL by blast
    let ?links = "if findPullRequest ?kept (rf_URL r) < 0
      then appendPullRequest ?kept (link_of_ref r (ev_AtMS e)) else ?kept"
    have "wf_links ?links \<and> rf_URL r \<in> lp_URL ` set ?links"
    proof (cases "findPullRequest ?kept (rf_URL r) < 0")
      case a: True
      then have "rf_URL r \<notin> lp_URL ` set ?kept" using u by (simp add: findPullRequest_neg)
      then show ?thesis using a u w(1) room wf_links_append [of ?kept "link_of_ref r (ev_AtMS e)"]
        by (auto simp: appendPullRequest_def)
    next
      case False
      then show ?thesis using w(1) u by (simp add: findPullRequest_neg)
    qed
    then have "links_inv (syncPrimaryPullRequest (s\<lparr>ls_PullRequests := ?links\<rparr>) (rf_URL r))"
      using w by (intro syncPrimary_inv) auto
    then show ?thesis using Some True by (simp add: fold_linked_def Let_def)
  next
    case False
    then show ?thesis using Some inv by (auto simp: fold_linked_def)
  qed
qed

lemma fold_added_inv:
  assumes inv: "links_inv s"
  shows "links_inv (fold_added s e)"
proof (cases "unmarshal (dec_struct dec_pullRequestAddedPayload) zero_pullRequestAddedPayload (ev_Payload e)")
  case None
  then show ?thesis using inv by (simp add: fold_added_def)
next
  case (Some d)
  let ?primary = "lp_URL (ls_PullRequest s)"
  let ?url = "rf_URL (da_Ref d)"
  let ?link = "link_of_ref (da_Ref d) (ev_AtMS e)"
  let ?link' = "if validateCreatedTaskLinks (da_TaskLinks d) = None
     then ?link\<lparr>lp_Tasks := LinkTasks [] (da_TaskLinks d) (ev_AtMS e)\<rparr> else ?link"
  let ?links = "appendPullRequest (ls_PullRequests s) ?link'"
  let ?p = "if ?primary = [] then ?url else ?primary"
  show ?thesis
  proof (cases "validatePullRequestRef (da_Ref d) = None \<and> findPullRequest (ls_PullRequests s) ?url < 0")
    case True
    then have u: "?url \<noteq> []" "?url \<notin> lp_URL ` set (ls_PullRequests s)"
      using validatePullRequestRef_URL by (auto simp: findPullRequest_neg)
    have "wf_links ?links"
      using inv u by (intro wf_links_append) (auto simp: links_inv_def LinkTasks_wf)
    moreover have "?p \<in> lp_URL ` set ?links"
      using primary_URL [OF inv] inv
      by (cases "?primary = []") (auto simp: appendPullRequest_def links_inv_def wf_links_def maxPullRequestLinks_def)
    ultimately have "links_inv (syncPrimaryPullRequest (s\<lparr>ls_PullRequests := ?links\<rparr>) ?p)"
      using inv by (intro syncPrimary_inv) (auto simp: links_inv_def)
    then show ?thesis using Some True by (simp add: fold_added_def Let_def)
  next
    case False
    then show ?thesis using Some inv by (auto simp: fold_added_def not_less)
  qed
qed

lemma fold_unlinked_inv:
  assumes inv: "links_inv s"
  shows "links_inv (fold_unlinked s e)"
proof (cases "unmarshal (dec_struct dec_pullRequestUnlinkedPayload) zero_pullRequestUnlinkedPayload (ev_Payload e)")
  case None
  then show ?thesis using inv by (simp add: fold_unlinked_def)
next
  case (Some d)
  let ?primary = "lp_URL (ls_PullRequest s)"
  let ?links = "removePullRequest (ls_PullRequests s) (up_URL d)"
  let ?p = "if ?primary = up_URL d then (if ?links = [] then [] else lp_URL (last ?links)) else ?primary"
  have "?p \<in> lp_URL ` set ?links \<or> ?links = []"
  proof (cases "?primary = up_URL d")
    case True
    then show ?thesis by simp
  next
    case False
    then have "?primary \<in> lp_URL ` set ?links \<or> ls_PullRequests s = []"
      unfolding removePullRequest_URLs using primary_URL [OF inv] by blast
    then show ?thesis using False by (auto simp: removePullRequest_def)
  qed
  then have "links_inv (syncPrimaryPullRequest (s\<lparr>ls_PullRequests := ?links\<rparr>) ?p)"
    using inv by (intro syncPrimary_inv) (auto simp: links_inv_def wf_links_remove)
  then show ?thesis using Some inv by (simp add: fold_unlinked_def Let_def)
qed

lemma primary_URL_update:
  assumes "links_inv s" and "i < length (ls_PullRequests s)" and "lp_URL p = lp_URL (ls_PullRequests s ! i)"
    and "ps = (ls_PullRequests s)[i := p]"
  shows "lp_URL (ls_PullRequest s) \<in> lp_URL ` set ps \<or> ps = []"
  using primary_URL [OF assms(1)] URLs_update [OF assms(2,3)] assms(4) by auto

lemma observePullRequest_inv:
  assumes inv: "links_inv s"
  shows "links_inv (observePullRequest s e)"
proof (cases "unmarshal (dec_struct dec_pullRequestObservedPayload) zero_pullRequestObservedPayload (ev_Payload e)")
  case None
  then show ?thesis using inv by (simp add: observePullRequest_def)
next
  case (Some d)
  show ?thesis
  proof (cases rule: findPullRequest_cases [of "ls_PullRequests s" "dv_URL d"])
    case Absent
    then show ?thesis using Some inv by (simp add: observePullRequest_def)
  next
    case (Found i)
    let ?c = "(ls_PullRequests s ! i)\<lparr>lp_Observed := True, lp_ObservedAtMS := ev_AtMS e,
      lp_Observation := dv_Observation d, lp_Merged := ob_State (dv_Observation d) = ''merged''\<rparr>"
    have t: "wf_tasks (lp_Tasks ?c)" using inv Found(2) by (auto simp: links_inv_def wf_links_def)
    have "wf_links ((ls_PullRequests s)[i := ?c])"
      using inv Found(2) t by (intro wf_links_update) (auto simp: links_inv_def)
    moreover have "lp_URL (ls_PullRequest s) \<in> lp_URL ` set ((ls_PullRequests s)[i := ?c])
        \<or> (ls_PullRequests s)[i := ?c] = []"
      by (rule primary_URL_update [OF inv Found(2) _ refl]) simp
    ultimately have "links_inv (syncPrimaryPullRequest
        (s\<lparr>ls_PullRequests := (ls_PullRequests s)[i := ?c]\<rparr>) (lp_URL (ls_PullRequest s)))"
      using inv by (intro syncPrimary_inv) (auto simp: links_inv_def)
    then show ?thesis using Some Found inv by (simp add: observePullRequest_def Let_def)
  qed
qed

lemma foldPullRequest_inv: "links_inv s \<Longrightarrow> links_inv (foldPullRequest s e)"
  by (cases "ev_Type e")
    (simp_all add: foldPullRequest_def fold_linked_inv fold_added_inv fold_unlinked_inv observePullRequest_inv)

lemma apply_links_wf: "wf_tasks ts \<Longrightarrow> wf_tasks (apply_links e ts ls)"
  by (simp add: apply_links_def LinkTasks_wf UnlinkTasks_wf)

text \<open>While the targets of a batch are folded, the primary field still has its old URL.\<close>

definition links_mid :: "string list \<Rightarrow> lane_state \<Rightarrow> bool" where
  "links_mid urls s \<longleftrightarrow> wf_links (ls_PullRequests s) \<and> wf_tasks (ls_Tasks s)
     \<and> map lp_URL (ls_PullRequests s) = urls"

lemma fold_target_mid: "links_mid urls s \<Longrightarrow> links_mid urls (fold_target e all s target)"
proof (cases rule: findPullRequest_cases [of "ls_PullRequests s" target])
  case Absent
  then show "links_mid urls s \<Longrightarrow> ?thesis"
    by (auto simp: links_mid_def fold_target_def apply_links_wf)
next
  case (Found i)
  assume m: "links_mid urls s"
  let ?p = "(ls_PullRequests s ! i)\<lparr>lp_Tasks :=
     apply_links e (lp_Tasks (ls_PullRequests s ! i)) (by_target all target)\<rparr>"
  have "wf_links ((ls_PullRequests s)[i := ?p])"
    using m Found(2) by (intro wf_links_update) (auto simp: links_mid_def wf_links_def apply_links_wf)
  moreover have "map lp_URL ((ls_PullRequests s)[i := ?p]) = map lp_URL (ls_PullRequests s)"
    using Found(2) by (intro map_URL_update) auto
  ultimately show ?thesis using m Found by (simp add: links_mid_def fold_target_def)
qed

lemma foldTaskLinks_inv:
  assumes inv: "links_inv s"
  shows "links_inv (foldTaskLinks s e)"
proof (cases "unmarshal (dec_struct dec_taskLinksPayload) zero_taskLinksPayload (ev_Payload e)")
  case None
  then show ?thesis using inv by (simp add: foldTaskLinks_def)
next
  case (Some d)
  let ?urls = "map lp_URL (ls_PullRequests s)"
  let ?s = "foldl (fold_target e (tp_Links d)) s (target_order (tp_Links d))"
  have "links_mid ?urls ?s"
    by (rule foldl_inv) (use inv fold_target_mid in \<open>auto simp: links_inv_def links_mid_def\<close>)
  then have m: "wf_links (ls_PullRequests ?s)" "wf_tasks (ls_Tasks ?s)"
    "map lp_URL (ls_PullRequests ?s) = map lp_URL (ls_PullRequests s)"
    by (auto simp: links_mid_def)
  then have "lp_URL ` set (ls_PullRequests ?s) = lp_URL ` set (ls_PullRequests s)"
    "ls_PullRequests ?s = [] \<longleftrightarrow> ls_PullRequests s = []"
    by (metis list.set_map, metis map_is_Nil_conv)
  then have "links_inv (syncPrimaryPullRequest ?s (lp_URL (ls_PullRequest s)))"
    using m primary_URL [OF inv] by (intro syncPrimary_inv) auto
  then show ?thesis using Some inv by (simp add: foldTaskLinks_def)
qed

section \<open>What the link folds leave alone\<close>

text \<open>Association facts have no lifecycle authority: they change the three link fields only.\<close>

definition only_links :: "lane_state \<Rightarrow> lane_state \<Rightarrow> bool" where
  "only_links s s' \<longleftrightarrow> (\<exists>a b c. s' = s\<lparr>ls_PullRequest := a, ls_PullRequests := b, ls_Tasks := c\<rparr>)"

lemma only_linksI: "s' = s\<lparr>ls_PullRequest := a, ls_PullRequests := b, ls_Tasks := c\<rparr> \<Longrightarrow> only_links s s'"
  unfolding only_links_def by blast

lemma only_links_refl: "only_links s s"
  by (rule only_linksI [where a = "ls_PullRequest s" and b = "ls_PullRequests s" and c = "ls_Tasks s"]) simp

lemma only_links_trans:
  assumes "only_links s t" and "only_links t u"
  shows "only_links s u"
proof -
  obtain a b c where t: "t = s\<lparr>ls_PullRequest := a, ls_PullRequests := b, ls_Tasks := c\<rparr>"
    using assms(1) unfolding only_links_def by blast
  obtain a' b' c' where u: "u = t\<lparr>ls_PullRequest := a', ls_PullRequests := b', ls_Tasks := c'\<rparr>"
    using assms(2) unfolding only_links_def by blast
  show ?thesis by (rule only_linksI [where a = a' and b = b' and c = c']) (simp add: t u)
qed

lemma only_links_prs: "only_links s (s\<lparr>ls_PullRequests := b\<rparr>)"
  by (rule only_linksI [where a = "ls_PullRequest s" and c = "ls_Tasks s"]) simp

lemma only_links_tasks: "only_links s (s\<lparr>ls_Tasks := c\<rparr>)"
  by (rule only_linksI [where a = "ls_PullRequest s" and b = "ls_PullRequests s"]) simp

lemma only_links_primary: "only_links s (s\<lparr>ls_PullRequest := a\<rparr>)"
  by (rule only_linksI [where b = "ls_PullRequests s" and c = "ls_Tasks s"]) simp

lemma only_links_sync: "only_links s (syncPrimaryPullRequest s url)"
  by (simp add: syncPrimaryPullRequest_def Let_def only_links_primary)

lemmas only_links_intros = only_links_refl only_links_sync only_links_prs only_links_tasks
  only_links_trans [OF only_links_prs only_links_sync]

lemma foldPullRequest_only: "only_links s (foldPullRequest s e)"
  by (cases "ev_Type e")
    (auto simp: foldPullRequest_def fold_linked_def fold_added_def fold_unlinked_def
      observePullRequest_def Let_def only_links_intros split: option.splits)

lemma fold_target_only: "only_links s (fold_target e all s target)"
  by (auto simp: fold_target_def Let_def only_links_intros)

lemma foldTaskLinks_only: "only_links s (foldTaskLinks s e)"
proof -
  have "only_links s (foldl (fold_target e ls) s order)" for ls order
    by (rule foldl_inv [where P = "only_links s"]) (auto intro: only_links_refl only_links_trans fold_target_only)
  then show ?thesis
    by (auto simp: foldTaskLinks_def only_links_refl intro: only_links_trans [OF _ only_links_sync] split: option.splits)
qed

section \<open>Merged is kept\<close>

definition merged_kept :: "lane_pull_request list \<Rightarrow> lane_pull_request list \<Rightarrow> bool" where
  "merged_kept ps qs \<longleftrightarrow> (\<forall>p \<in> set ps. \<forall>q \<in> set qs. lp_URL p = lp_URL q \<longrightarrow>
     lp_LinkedAtMS q = lp_LinkedAtMS p \<and>
     (lp_Merged p \<longrightarrow> lp_Merged q \<and> lp_Observation q = lp_Observation p \<and> lp_ObservedAtMS q = lp_ObservedAtMS p))"

lemma same_URL_eq: "wf_links ps \<Longrightarrow> p \<in> set ps \<Longrightarrow> q \<in> set ps \<Longrightarrow> lp_URL p = lp_URL q \<Longrightarrow> p = q"
  unfolding wf_links_def by (metis distinct_map inj_onD)

lemma merged_kept_new:
  assumes "wf_links ps" and "\<And>q. q \<in> set qs \<Longrightarrow> q \<in> set ps \<or> lp_URL q \<notin> lp_URL ` set ps"
  shows "merged_kept ps qs"
  unfolding merged_kept_def
proof (intro ballI impI)
  fix p q assume "p \<in> set ps" "q \<in> set qs" "lp_URL p = lp_URL q"
  then have "p = q" using assms same_URL_eq by (metis imageI)
  then show "lp_LinkedAtMS q = lp_LinkedAtMS p \<and> (lp_Merged p \<longrightarrow> lp_Merged q
    \<and> lp_Observation q = lp_Observation p \<and> lp_ObservedAtMS q = lp_ObservedAtMS p)" by simp
qed

lemma merged_kept_refl: "wf_links ps \<Longrightarrow> merged_kept ps ps"
  by (rule merged_kept_new) auto

lemma merged_kept_update:
  assumes "wf_links ps" and "i < length ps" and "merged_kept [ps ! i] [p]" and "lp_URL p = lp_URL (ps ! i)"
  shows "merged_kept ps (ps[i := p])"
  unfolding merged_kept_def
proof (intro ballI impI)
  fix a b assume a: "a \<in> set ps" and b: "b \<in> set (ps[i := p])" and u: "lp_URL a = lp_URL b"
  from b consider "b = p" | "b \<in> set ps" using in_set_update by fast
  then show "lp_LinkedAtMS b = lp_LinkedAtMS a \<and> (lp_Merged a \<longrightarrow> lp_Merged b
    \<and> lp_Observation b = lp_Observation a \<and> lp_ObservedAtMS b = lp_ObservedAtMS a)"
  proof cases
    case 1
    then have "a = ps ! i" using same_URL_eq [OF assms(1) a nth_mem [OF assms(2)]] u assms(4) by simp
    then show ?thesis using 1 assms(3,4) by (auto simp: merged_kept_def)
  next
    case 2
    then show ?thesis using same_URL_eq [OF assms(1) a 2 u] by simp
  qed
qed

lemma sync_PullRequests [simp]: "ls_PullRequests (syncPrimaryPullRequest s url) = ls_PullRequests s"
  by (simp add: syncPrimaryPullRequest_def Let_def)

lemma observePullRequest_merged:
  assumes inv: "links_inv s"
  shows "merged_kept (ls_PullRequests s) (ls_PullRequests (observePullRequest s e))"
proof (cases "unmarshal (dec_struct dec_pullRequestObservedPayload) zero_pullRequestObservedPayload (ev_Payload e)")
  case None
  then show ?thesis using inv by (simp add: observePullRequest_def merged_kept_refl links_inv_def)
next
  case (Some d)
  have w: "wf_links (ls_PullRequests s)" using inv by (simp add: links_inv_def)
  show ?thesis
  proof (cases rule: findPullRequest_cases [of "ls_PullRequests s" "dv_URL d"])
    case Absent
    then show ?thesis using Some w by (simp add: observePullRequest_def merged_kept_refl)
  next
    case (Found i)
    show ?thesis
    proof (cases "lp_Merged (ls_PullRequests s ! i)")
      case True
      then show ?thesis using Some Found w by (simp add: observePullRequest_def merged_kept_refl)
    next
      case False
      then show ?thesis using Some Found
        by (simp add: observePullRequest_def Let_def merged_kept_update [OF w] merged_kept_def [of "[_]"])
    qed
  qed
qed

lemma foldPullRequest_merged:
  assumes inv: "links_inv s"
  shows "merged_kept (ls_PullRequests s) (ls_PullRequests (foldPullRequest s e))"
proof (cases "ev_Type e = EventPullRequestObserved")
  case True
  then show ?thesis using observePullRequest_merged [OF inv] by (simp add: foldPullRequest_def)
next
  case False
  have w: "wf_links (ls_PullRequests s)" using inv by (simp add: links_inv_def)
  have "q \<in> set (ls_PullRequests s) \<or> lp_URL q \<notin> lp_URL ` set (ls_PullRequests s)"
    if "q \<in> set (ls_PullRequests (foldPullRequest s e))" for q
    using that False
    by (cases "ev_Type e")
      (auto simp: foldPullRequest_def fold_linked_def fold_added_def fold_unlinked_def Let_def
        appendPullRequest_def removePullRequest_def findPullRequest_neg not_le image_iff
        dest: validatePullRequestRef_URL split: option.splits if_splits)
  then show ?thesis by (rule merged_kept_new [OF w])
qed

text \<open>A task fact changes nothing of a link but its tasks.\<close>

definition link_facts ::
    "lane_pull_request \<Rightarrow> pull_request_ref \<times> int \<times> bool \<times> int \<times> pull_request_observation \<times> bool" where
  "link_facts p = (lp_Ref p, lp_LinkedAtMS p, lp_Observed p, lp_ObservedAtMS p, lp_Observation p, lp_Merged p)"

lemma fold_target_facts:
  "map link_facts (ls_PullRequests (fold_target e all s target)) = map link_facts (ls_PullRequests s)"
proof (cases rule: findPullRequest_cases [of "ls_PullRequests s" target])
  case (Found i)
  then have "map link_facts ((ls_PullRequests s)[i := (ls_PullRequests s ! i)\<lparr>lp_Tasks := ts\<rparr>])
      = map link_facts (ls_PullRequests s)" for ts
    by (intro nth_equalityI) (auto simp: nth_list_update link_facts_def)
  then show ?thesis using Found by (simp add: fold_target_def)
qed (auto simp: fold_target_def)

lemma foldTaskLinks_facts:
  "map link_facts (ls_PullRequests (foldTaskLinks s e)) = map link_facts (ls_PullRequests s)"
proof -
  have "map link_facts (ls_PullRequests (foldl (fold_target e ls) s order)) = map link_facts (ls_PullRequests s)"
    for ls order
    by (rule foldl_inv [where P = "\<lambda>t. map link_facts (ls_PullRequests t) = map link_facts (ls_PullRequests s)"])
      (simp_all add: fold_target_facts)
  then show ?thesis by (auto simp: foldTaskLinks_def split: option.splits)
qed

lemma merged_kept_facts:
  assumes w: "wf_links ps" and facts: "map link_facts qs = map link_facts ps"
  shows "merged_kept ps qs"
  unfolding merged_kept_def
proof (intro ballI impI)
  fix p q assume p: "p \<in> set ps" and "q \<in> set qs" and u: "lp_URL p = lp_URL q"
  then obtain j where j: "j < length qs" "q = qs ! j" by (auto simp: in_set_conv_nth)
  then have f: "j < length ps" "link_facts (ps ! j) = link_facts q"
    using facts by (metis length_map, metis length_map nth_map)
  then have "p = ps ! j" using same_URL_eq [OF w p nth_mem] u by (auto simp: link_facts_def)
  then show "lp_LinkedAtMS q = lp_LinkedAtMS p \<and> (lp_Merged p \<longrightarrow> lp_Merged q
    \<and> lp_Observation q = lp_Observation p \<and> lp_ObservedAtMS q = lp_ObservedAtMS p)"
    using f(2) by (auto simp: link_facts_def)
qed

lemma foldTaskLinks_merged:
  "links_inv s \<Longrightarrow> merged_kept (ls_PullRequests s) (ls_PullRequests (foldTaskLinks s e))"
  by (rule merged_kept_facts [OF _ foldTaskLinks_facts]) (simp add: links_inv_def)

end
