(* ===== verification/Lane_Writers.thy ===== *)
theory Lane_Writers
  imports Lane_Store Ledger_Payloads Pull_Requests
begin

text \<open>
  Every writer of the ledger: \<open>store.go\<close> \<open>RecordCreated\<close> to \<open>RecordWorktreeCleaned\<close>,
  \<open>task_link.go\<close> and \<open>pull_request.go\<close> \<open>Record...\<close>, and \<open>DecodeMessageRelayed\<close>.  A value struct of
  the code is its embedded \<open>Meta\<close> and fields that are those of the event's payload, so a writer
  takes the \<open>meta\<close> and a payload record; \<open>checked_...\<close> is its validation and normalisation.
\<close>

abbreviation invalid :: "record_error \<Rightarrow> store \<Rightarrow> store_error option \<times> store" where
  "invalid e st \<equiv> (Some (Invalid e), st)"

section \<open>Boundaries\<close>

definition same_lane_ids :: "meta \<Rightarrow> createdPayload \<Rightarrow> meta \<times> createdPayload" where
  "same_lane_ids meta v =
     (let meta' = (if mt_LaneID meta = [] then meta\<lparr>mt_LaneID := cp_LaneUUID v\<rparr> else meta);
          v' = (if cp_LaneUUID v = [] then v\<lparr>cp_LaneUUID := mt_LaneID meta'\<rparr> else v)
      in (meta', v'))"

definition checked_description :: "createdPayload \<Rightarrow> record_error + createdPayload" where
  "checked_description v =
     (let v1 = v\<lparr>cp_Description := trim_space (cp_Description v)\<rparr> in
      if cp_Description v1 = [] then Inr (v1\<lparr>cp_DescriptionSource := []\<rparr>)
      else if cp_DescriptionSource v1 = [] then Inr (v1\<lparr>cp_DescriptionSource := DescriptionExplicit\<rparr>)
      else if cp_DescriptionSource v1 \<noteq> DescriptionExplicit
      then Inl (InvalidDescriptionSource (cp_DescriptionSource v1))
      else Inr v1)"

definition worktree_fields :: "createdPayload \<Rightarrow> nat" where
  "worktree_fields v = length (filter (\<lambda>f. trim_space f \<noteq> [])
     [cp_WorktreePath v, cp_Branch v, cp_Base v, cp_SourceRepo v])"

definition provenance_error :: "createdPayload \<Rightarrow> record_error option" where
  "provenance_error v =
     (if worktree_fields v \<noteq> 0 \<and> worktree_fields v \<noteq> 4 then Some PartialWorktreeProvenance
      else if cp_WorktreePath v \<noteq> [] \<and> clean_path (cp_WorktreePath v) \<noteq> clean_path (cp_Cwd v)
      then Some (WorktreeNotCwd (cp_WorktreePath v) (cp_Cwd v))
      else if (cp_Profile v = []) \<noteq> (cp_ConfigDir v = []) then Some PartialProfileProvenance
      else if cp_ConfigDir v \<noteq> [] \<and> \<not> is_abs (cp_ConfigDir v) then Some ConfigDirNotAbsolute
      else map_option InvalidTaskLinks (validateCreatedTaskLinks (cp_TaskLinks v)))"

definition checked_created :: "meta \<Rightarrow> createdPayload \<Rightarrow> record_error + meta \<times> createdPayload" where
  "checked_created meta0 v0 =
     (let (meta, v) = same_lane_ids meta0 v0 in
      if cp_LaneUUID v \<noteq> mt_LaneID meta then Inl (LaneUUIDMismatch (cp_LaneUUID v) (mt_LaneID meta))
      else case validateResumeIdentity (cp_Tool v) (cp_ProviderUUID v) (cp_ResumeArgv v) of
        Some e \<Rightarrow> Inl (InvalidResumeIdentity e)
      | None \<Rightarrow>
         (case ValidateCreator (cp_CreatorKind v) (cp_CreatorID v) of
            Some e \<Rightarrow> Inl (InvalidCreator e)
          | None \<Rightarrow>
             if cp_DelegationKind v \<noteq> [] \<and> cp_DelegationKind v \<noteq> ''user'' \<and> cp_DelegationKind v \<noteq> ''agent''
             then Inl (InvalidDelegationKind (cp_DelegationKind v))
             else case checked_description v of
               Inl e \<Rightarrow> Inl e
             | Inr v1 \<Rightarrow>
                (case provenance_error v1 of
                   Some e \<Rightarrow> Inl e
                 | None \<Rightarrow> Inr (default_actor ActorDaemon meta, v1))))"

definition RecordCreated :: "env \<Rightarrow> meta \<Rightarrow> createdPayload \<Rightarrow> store \<Rightarrow> store_error option \<times> store" where
  "RecordCreated env meta v st =
     (case checked_created meta v of
        Inl e \<Rightarrow> invalid e st
      | Inr (meta', v') \<Rightarrow> append_event env EventCreated meta' (JObj (enc_createdPayload v')) False st)"

definition RecordProviderRebound ::
    "env \<Rightarrow> meta \<Rightarrow> providerReboundPayload \<Rightarrow> store \<Rightarrow> store_error option \<times> store" where
  "RecordProviderRebound env meta v st =
     (if rp_ProviderUUID v = [] \<or> \<not> IsConversationUUID (rp_ProviderUUID v)
      then invalid (InvalidRebindUUID (rp_ProviderUUID v)) st
      else if rp_NewLaneID v = [] then invalid NewLaneRequired st
      else if mt_LaneID meta = rp_NewLaneID v then invalid SameLane st
      else append_event env EventProviderRebound (default_actor ActorUser meta)
             (JObj (enc_providerReboundPayload v)) False st)"

text \<open>A display field: at most \<open>limit\<close> runes, none of them a control character.\<close>

definition bad_field :: "nat \<Rightarrow> string \<Rightarrow> bool" where
  "bad_field limit value \<longleftrightarrow> rune_count value > limit \<or> has_rune is_control value"

definition kill_field_error :: "userKillPayload \<Rightarrow> record_error option" where
  "kill_field_error v =
     (if bad_field 128 (kp_InitiatorName v) then Some (InvalidField ''initiator name'')
      else if bad_field 64 (kp_Client v) then Some (InvalidField ''client'')
      else if bad_field 280 (kp_Reason v) then Some (InvalidField ''reason'')
      else if bad_field 128 (kp_OperationID v) then Some (InvalidField ''operation id'')
      else None)"

definition RecordUserKill :: "env \<Rightarrow> meta \<Rightarrow> userKillPayload \<Rightarrow> store \<Rightarrow> store_error option \<times> store" where
  "RecordUserKill env meta v st =
     (if (kp_InitiatorKind v = []) \<noteq> (kp_InitiatorID v = []) then invalid PartialInitiator st
      else case (if kp_InitiatorKind v \<noteq> [] then ValidateCreator (kp_InitiatorKind v) (kp_InitiatorID v)
                 else None) of
        Some e \<Rightarrow> invalid (InvalidCreator e) st
      | None \<Rightarrow>
         (case kill_field_error v of
            Some e \<Rightarrow> invalid e st
          | None \<Rightarrow> append_event env EventUserKillRequested (default_actor ActorUser meta)
                      (JObj (enc_userKillPayload v)) False st))"

section \<open>Observations\<close>

abbreviation observe_empty :: "env \<Rightarrow> event_type \<Rightarrow> string \<Rightarrow> meta \<Rightarrow> store \<Rightarrow> store_error option \<times> store" where
  "observe_empty env kind actor meta st \<equiv> observe env kind meta actor (JObj []) st"

definition RecordLaunchStarted where "RecordLaunchStarted env = observe_empty env EventLaunchStarted ActorDaemon"
definition RecordRunnerReady where "RecordRunnerReady env = observe_empty env EventRunnerReady ActorRunner"
definition RecordAttached where "RecordAttached env = observe_empty env EventAttached ActorDaemon"
definition RecordIdle where "RecordIdle env = observe_empty env EventIdle ActorDaemon"
definition RecordRunnerLost where "RecordRunnerLost env = observe_empty env EventRunnerLost ActorDaemon"
definition RecordRunnerArtifactsRetired where
  "RecordRunnerArtifactsRetired env = observe_empty env EventRunnerArtifactsRetired ActorDaemon"
definition RecordReaped where "RecordReaped env = observe_empty env EventReaped ActorDaemon"
definition RecordDaemonRestart where "RecordDaemonRestart env = observe_empty env EventDaemonRestart ActorDaemon"

definition RecordProviderBound :: "env \<Rightarrow> meta \<Rightarrow> providerPayload \<Rightarrow> store \<Rightarrow> store_error option \<times> store" where
  "RecordProviderBound env meta v st =
     (case validateResumeIdentity [] (pp_ProviderUUID v) (pp_ResumeArgv v) of
        Some e \<Rightarrow> invalid (InvalidResumeIdentity e) st
      | None \<Rightarrow> observe env EventProviderBound meta ActorProvider (JObj (enc_providerPayload v)) st)"

definition RecordActivity :: "env \<Rightarrow> meta \<Rightarrow> activityPayload \<Rightarrow> store \<Rightarrow> store_error option \<times> store" where
  "RecordActivity env meta v st =
     (let source = ap_Source v in
      if source \<noteq> ActivityHumanInput \<and> source \<noteq> ActivitySessionInput \<and> source \<noteq> ActivityProviderEvent
      then invalid (InvalidActivitySource source) st
      else
       (let actor = (if source = ActivitySessionInput then ActorDaemon
                     else if source = ActivityProviderEvent then ActorProvider else ActorUser)
        in append_event env EventActivity (default_actor actor meta) (JObj (enc_activityPayload v)) True st))"

definition RecordRenamed :: "env \<Rightarrow> meta \<Rightarrow> renamePayload \<Rightarrow> store \<Rightarrow> store_error option \<times> store" where
  "RecordRenamed env meta v st = observe env EventRenamed meta ActorUser (JObj (enc_renamePayload v)) st"

definition RecordDescriptionDerived ::
    "env \<Rightarrow> meta \<Rightarrow> descriptionPayload \<Rightarrow> store \<Rightarrow> store_error option \<times> store" where
  "RecordDescriptionDerived env meta v0 st =
     (let v = v0\<lparr>dp_Description := trim_space (dp_Description v0)\<rparr> in
      if dp_Description v = [] then invalid DescriptionRequired st
      else if dp_Source v \<noteq> DescriptionFirstMessage then invalid (InvalidDescriptionSource (dp_Source v)) st
      else observe env EventDescriptionDerived meta ActorUser (JObj (enc_descriptionPayload v)) st)"

definition RecordRunnerExited :: "env \<Rightarrow> meta \<Rightarrow> runnerExitPayload \<Rightarrow> store \<Rightarrow> store_error option \<times> store" where
  "RecordRunnerExited env meta v st =
     observe env EventRunnerExited meta ActorRunner (JObj (enc_runnerExitPayload v)) st"

definition RecordReopened :: "env \<Rightarrow> meta \<Rightarrow> reopenedPayload \<Rightarrow> store \<Rightarrow> store_error option \<times> store" where
  "RecordReopened env meta v st =
     observe env EventReopened meta ActorRecovery (JObj (enc_reopenedPayload v)) st"

section \<open>Attribution, migration, worktrees\<close>

definition relayed_error :: "messageRelayedPayload \<Rightarrow> record_error option" where
  "relayed_error v =
     (let author = mp_Author v in
      if ma_Kind author \<noteq> CreatorSession then Some AuthorNotSession
      else case ValidateCreator (ma_Kind author) (ma_ID author) of
        Some e \<Rightarrow> Some (InvalidCreator e)
      | None \<Rightarrow>
         (if trim_space (ma_Name author) = [] \<or> bad_field 128 (ma_Name author)
          then Some (InvalidField ''author name'')
          else if trim_space (ma_Client author) = [] \<or> bad_field 64 (ma_Client author)
          then Some (InvalidField ''client'')
          else if hex_decoded_length (mp_ContentSHA256 v) \<noteq> Some 32
          then Some (InvalidField ''content digest'')
          else if hex_decoded_length (mp_NormalizedSHA256 v) \<noteq> Some 32
          then Some (InvalidField ''normalized digest'')
          else if mp_ContentBytes v \<le> 0 \<or> mp_NormalizedBytes v < 0 \<or> mp_NormalizedBytes v > mp_ContentBytes v
          then Some InvalidByteCounts
          else if length (mp_OperationID v) > 128 \<or> has_rune is_control (mp_OperationID v)
          then Some (InvalidField ''operation id'')
          else None))"

definition RecordMessageRelayed ::
    "env \<Rightarrow> meta \<Rightarrow> messageRelayedPayload \<Rightarrow> store \<Rightarrow> store_error option \<times> store" where
  "RecordMessageRelayed env meta v st =
     (case relayed_error v of
        Some e \<Rightarrow> invalid e st
      | None \<Rightarrow> append_event env EventMessageRelayed (default_actor ActorDaemon meta)
                  (JObj (enc_messageRelayedPayload v)) False st)"

definition DecodeMessageRelayed :: "event \<Rightarrow> (meta \<times> messageRelayedPayload) option" where
  "DecodeMessageRelayed e =
     (if ev_Type e \<noteq> EventMessageRelayed then None
      else map_option (\<lambda>p. (\<lparr>mt_EventID = ev_EventID e, mt_LaneID = ev_LaneID e,
               mt_AtMS = ev_AtMS e, mt_Actor = ev_Actor e\<rparr>, p))
             (unmarshal (dec_struct dec_messageRelayedPayload) zero_messageRelayedPayload (ev_Payload e)))"

definition RecordMovedTo :: "env \<Rightarrow> meta \<Rightarrow> movedToPayload \<Rightarrow> store \<Rightarrow> store_error option \<times> store" where
  "RecordMovedTo env meta v st =
     (if vt_TargetEndpoint v = [] \<or> vt_NewLaneID v = [] then invalid EndpointAndLaneRequired st
      else append_event env EventMovedTo (default_actor ActorUser meta) (JObj (enc_movedToPayload v)) False st)"

definition RecordMovedFrom :: "env \<Rightarrow> meta \<Rightarrow> movedFromPayload \<Rightarrow> store \<Rightarrow> store_error option \<times> store" where
  "RecordMovedFrom env meta v st =
     (if mf_SourceEndpoint v = [] \<or> mf_SourceLaneID v = [] then invalid EndpointAndLaneRequired st
      else append_event env EventMovedFrom (default_actor ActorDaemon meta) (JObj (enc_movedFromPayload v)) False st)"

definition RecordWorktreeCleanRequested ::
    "env \<Rightarrow> meta \<Rightarrow> worktreeCleanRequestedPayload \<Rightarrow> store \<Rightarrow> store_error option \<times> store" where
  "RecordWorktreeCleanRequested env meta v st =
     (case validateWorktreeCleanIdentity (wr_WorktreePath v) (wr_Branch v) of
        Some e \<Rightarrow> invalid (InvalidWorktreeIdentity e) st
      | None \<Rightarrow>
          if trim_space (wr_BranchHead v) = [] then invalid BranchHeadRequired st
          else append_event env EventWorktreeCleanRequested (default_actor ActorUser meta)
                 (JObj (enc_worktreeCleanRequestedPayload v)) False st)"

definition RecordWorktreeCleaned ::
    "env \<Rightarrow> meta \<Rightarrow> worktreeCleanedPayload \<Rightarrow> store \<Rightarrow> store_error option \<times> store" where
  "RecordWorktreeCleaned env meta v st =
     (case validateWorktreeCleanIdentity (wc_WorktreePath v) (wc_Branch v) of
        Some e \<Rightarrow> invalid (InvalidWorktreeIdentity e) st
      | None \<Rightarrow> append_event env EventWorktreeCleaned (default_actor ActorDaemon meta)
                  (JObj (enc_worktreeCleanedPayload v)) False st)"

section \<open>Task and pull request links\<close>

definition RecordTaskLinked :: "env \<Rightarrow> meta \<Rightarrow> taskLinksPayload \<Rightarrow> store \<Rightarrow> store_error option \<times> store" where
  "RecordTaskLinked env meta v st =
     (case validateTaskLinks (tp_Links v) of
        Some e \<Rightarrow> invalid (InvalidTaskLinks e) st
      | None \<Rightarrow> append_event env EventTaskLinked (default_actor ActorUser meta)
                  (JObj (enc_taskLinksPayload v)) False st)"

definition RecordTaskUnlinked :: "env \<Rightarrow> meta \<Rightarrow> taskLinksPayload \<Rightarrow> store \<Rightarrow> store_error option \<times> store" where
  "RecordTaskUnlinked env meta v st =
     (case validateTaskLinks (tp_Links v) of
        Some e \<Rightarrow> invalid (InvalidTaskLinks e) st
      | None \<Rightarrow> append_event env EventTaskUnlinked (default_actor ActorUser meta)
                  (JObj (enc_taskLinksPayload v)) False st)"

definition RecordPullRequestLinked :: "env \<Rightarrow> meta \<Rightarrow> pull_request_ref \<Rightarrow> store \<Rightarrow> store_error option \<times> store" where
  "RecordPullRequestLinked env meta ref st =
     (if validatePullRequestRef ref \<noteq> None then invalid InvalidPullRequest st
      else append_event env EventPullRequestLinked (default_actor ActorUser meta)
             (JObj (enc_pull_request_ref ref)) False st)"

definition RecordPullRequestAdded ::
    "env \<Rightarrow> meta \<Rightarrow> pullRequestAddedPayload \<Rightarrow> store \<Rightarrow> store_error option \<times> store" where
  "RecordPullRequestAdded env meta v st =
     (if validatePullRequestRef (da_Ref v) \<noteq> None then invalid InvalidPullRequest st
      else if list_ex (\<lambda>l. tl_PullRequestURL l \<noteq> [] \<and> tl_PullRequestURL l \<noteq> rf_URL (da_Ref v)) (da_TaskLinks v)
      then invalid TaskLinkNamesOther st
      else
       (let links = map without_url (da_TaskLinks v) in
        case validateCreatedTaskLinks links of
          Some e \<Rightarrow> invalid (InvalidTaskLinks e) st
        | None \<Rightarrow> append_event env EventPullRequestAdded (default_actor ActorUser meta)
                    (JObj (enc_pullRequestAddedPayload (v\<lparr>da_TaskLinks := links\<rparr>))) False st))"

definition RecordPullRequestUnlinked ::
    "env \<Rightarrow> meta \<Rightarrow> pullRequestUnlinkedPayload \<Rightarrow> store \<Rightarrow> store_error option \<times> store" where
  "RecordPullRequestUnlinked env meta v st =
     (if trim_space (up_URL v) = [] then invalid URLRequired st
      else append_event env EventPullRequestUnlinked (default_actor ActorUser meta)
             (JObj (enc_pullRequestUnlinkedPayload v)) False st)"

definition RecordPullRequestObserved ::
    "env \<Rightarrow> meta \<Rightarrow> pullRequestObservedPayload \<Rightarrow> store \<Rightarrow> store_error option \<times> store" where
  "RecordPullRequestObserved env meta v st =
     (if trim_space (dv_URL v) = [] then invalid URLRequired st
      else if trim_space (ob_State (dv_Observation v)) = [] then invalid StateRequired st
      else append_event env EventPullRequestObserved (default_actor ActorDaemon meta)
             (JObj (enc_pullRequestObservedPayload v)) False st)"

section \<open>One call\<close>

datatype store_op =
    OpCreated meta createdPayload
  | OpProviderRebound meta providerReboundPayload
  | OpUserKill meta userKillPayload
  | OpLaunchStarted meta
  | OpRunnerReady meta
  | OpProviderBound meta providerPayload
  | OpAttached meta
  | OpActivity meta activityPayload
  | OpIdle meta
  | OpRenamed meta renamePayload
  | OpDescriptionDerived meta descriptionPayload
  | OpRunnerExited meta runnerExitPayload
  | OpRunnerLost meta
  | OpRunnerArtifactsRetired meta
  | OpReaped meta
  | OpReopened meta reopenedPayload
  | OpDaemonRestart meta
  | OpMessageRelayed meta messageRelayedPayload
  | OpMovedTo meta movedToPayload
  | OpMovedFrom meta movedFromPayload
  | OpArchived "meta list"
  | OpWorktreeCleanRequested meta worktreeCleanRequestedPayload
  | OpWorktreeCleaned meta worktreeCleanedPayload
  | OpTaskLinked meta taskLinksPayload
  | OpTaskUnlinked meta taskLinksPayload
  | OpPullRequestLinked meta pull_request_ref
  | OpPullRequestAdded meta pullRequestAddedPayload
  | OpPullRequestUnlinked meta pullRequestUnlinkedPayload
  | OpPullRequestObserved meta pullRequestObservedPayload

fun run_op :: "env \<Rightarrow> store_op \<Rightarrow> store \<Rightarrow> store_error option \<times> store" where
  "run_op env (OpCreated m v) st = RecordCreated env m v st"
| "run_op env (OpProviderRebound m v) st = RecordProviderRebound env m v st"
| "run_op env (OpUserKill m v) st = RecordUserKill env m v st"
| "run_op env (OpLaunchStarted m) st = RecordLaunchStarted env m st"
| "run_op env (OpRunnerReady m) st = RecordRunnerReady env m st"
| "run_op env (OpProviderBound m v) st = RecordProviderBound env m v st"
| "run_op env (OpAttached m) st = RecordAttached env m st"
| "run_op env (OpActivity m v) st = RecordActivity env m v st"
| "run_op env (OpIdle m) st = RecordIdle env m st"
| "run_op env (OpRenamed m v) st = RecordRenamed env m v st"
| "run_op env (OpDescriptionDerived m v) st = RecordDescriptionDerived env m v st"
| "run_op env (OpRunnerExited m v) st = RecordRunnerExited env m v st"
| "run_op env (OpRunnerLost m) st = RecordRunnerLost env m st"
| "run_op env (OpRunnerArtifactsRetired m) st = RecordRunnerArtifactsRetired env m st"
| "run_op env (OpReaped m) st = RecordReaped env m st"
| "run_op env (OpReopened m v) st = RecordReopened env m v st"
| "run_op env (OpDaemonRestart m) st = RecordDaemonRestart env m st"
| "run_op env (OpMessageRelayed m v) st = RecordMessageRelayed env m v st"
| "run_op env (OpMovedTo m v) st = RecordMovedTo env m v st"
| "run_op env (OpMovedFrom m v) st = RecordMovedFrom env m v st"
| "run_op env (OpArchived ms) st = RecordArchived env ms st"
| "run_op env (OpWorktreeCleanRequested m v) st = RecordWorktreeCleanRequested env m v st"
| "run_op env (OpWorktreeCleaned m v) st = RecordWorktreeCleaned env m v st"
| "run_op env (OpTaskLinked m v) st = RecordTaskLinked env m v st"
| "run_op env (OpTaskUnlinked m v) st = RecordTaskUnlinked env m v st"
| "run_op env (OpPullRequestLinked m v) st = RecordPullRequestLinked env m v st"
| "run_op env (OpPullRequestAdded m v) st = RecordPullRequestAdded env m v st"
| "run_op env (OpPullRequestUnlinked m v) st = RecordPullRequestUnlinked env m v st"
| "run_op env (OpPullRequestObserved m v) st = RecordPullRequestObserved env m v st"

lemmas writer_defs = RecordProviderRebound_def RecordUserKill_def
  RecordLaunchStarted_def RecordRunnerReady_def RecordProviderBound_def RecordAttached_def
  RecordActivity_def RecordIdle_def RecordRenamed_def RecordDescriptionDerived_def
  RecordRunnerExited_def RecordRunnerLost_def RecordRunnerArtifactsRetired_def RecordReaped_def
  RecordReopened_def RecordDaemonRestart_def RecordMessageRelayed_def RecordMovedTo_def
  RecordMovedFrom_def RecordWorktreeCleanRequested_def RecordWorktreeCleaned_def
  RecordTaskLinked_def RecordTaskUnlinked_def RecordPullRequestLinked_def
  RecordPullRequestAdded_def RecordPullRequestUnlinked_def RecordPullRequestObserved_def

end
