(* ===== verification/Lane_Events.thy ===== *)
theory Lane_Events
  imports Pull_Requests
begin

text \<open>
  \<open>runtime/internal/ledger/fold_events.go\<close>: the effect of one committed event on the state of
  its lane.  One definition per handler of the source, composed by \<open>applyLaneEvent\<close>.
\<close>

abbreviation decoded :: "('a \<Rightarrow> members \<Rightarrow> 'a option) \<Rightarrow> 'a \<Rightarrow> event \<Rightarrow> 'a option" where
  "decoded dec z e \<equiv> unmarshal (dec_struct dec) z (ev_Payload e)"

text \<open>\<open>&LaneState{LaneID: id}\<close>\<close>

definition empty_lane :: "string \<Rightarrow> lane_state" where
  "empty_lane lane = \<lparr>ls_LaneID = lane, ls_Name = [], ls_Description = [], ls_DescriptionSource = [],
     ls_Kind = [], ls_Tool = [], ls_Cwd = [], ls_Profile = [], ls_ConfigDir = [],
     ls_WorktreePath = [], ls_Branch = [], ls_Base = [], ls_SourceRepo = [], ls_ResumeArgv = [],
     ls_ProviderUUID = [], ls_CreatorKind = [], ls_CreatorID = [], ls_DelegationKind = [],
     ls_StartOperationID = [], ls_PromptOperationID = [], ls_RequestFingerprint = [],
     ls_CreatedAtMS = 0, ls_LastEventAtMS = 0, ls_LastActivityAtMS = 0, ls_LastHumanInputAtMS = 0,
     ls_LastProviderActivityAtMS = 0, ls_LastActivitySource = [], ls_LatestEvent = OtherEvent [],
     ls_ClosedAtMS = 0, ls_ArchivedAtMS = 0, ls_ExitCode = None, ls_ExitSignal = None,
     ls_EndInitiatorKind = [], ls_EndInitiatorID = [], ls_EndInitiatorName = [], ls_EndClient = [],
     ls_EndReason = [], ls_EndOperationID = [], ls_Created = False, ls_LaunchStarted = False,
     ls_RunnerReady = False, ls_ProviderBound = False, ls_Attached = False, ls_ManagedActive = False,
     ls_UserKillRequested = False, ls_RunnerExited = False, ls_RunnerLost = False, ls_Reaped = False,
     ls_ReopenedAs = [], ls_Archived = False, ls_ProviderReboundAs = [], ls_MovedToMachine = [],
     ls_MovedToLaneID = [], ls_MovedToSeq = 0, ls_MovedFromMachine = [], ls_MovedFromLaneID = [],
     ls_MovedFromSeq = 0, ls_WorktreeCleanRequested = False, ls_WorktreeCleanBranchHead = [],
     ls_WorktreeCleaned = False, ls_WorktreeCleanedAtMS = 0, ls_WorktreeBranchRemoved = False,
     ls_PullRequest = empty_pull_request, ls_LastLifecycleAtMS = 0, ls_Tasks = [],
     ls_PullRequests = [], ls_ReopenedSuccessors = []\<rparr>"

definition mayBecomeManaged :: "lane_state \<Rightarrow> bool" where
  "mayBecomeManaged s \<longleftrightarrow>
     \<not> ls_UserKillRequested s \<and> \<not> ls_RunnerExited s \<and> \<not> ls_Reaped s \<and> ls_ReopenedAs s = []"

fun isLifecycleEvent :: "event_type \<Rightarrow> bool" where
  "isLifecycleEvent EventCreated = True"
| "isLifecycleEvent EventLaunchStarted = True"
| "isLifecycleEvent EventRunnerReady = True"
| "isLifecycleEvent EventProviderBound = True"
| "isLifecycleEvent EventAttached = True"
| "isLifecycleEvent EventActivity = True"
| "isLifecycleEvent EventUserKillRequested = True"
| "isLifecycleEvent EventRunnerExited = True"
| "isLifecycleEvent EventRunnerLost = True"
| "isLifecycleEvent EventReaped = True"
| "isLifecycleEvent EventReopened = True"
| "isLifecycleEvent _ = False"

section \<open>Handlers\<close>

definition applyCreatedEvent :: "lane_state \<Rightarrow> event \<Rightarrow> lane_state" where
  "applyCreatedEvent s e =
     (if ls_Created s then s
      else case decoded dec_createdPayload zero_createdPayload e of
        None \<Rightarrow> s
      | Some p \<Rightarrow>
         (let s' = s\<lparr>
            ls_Created := True, ls_CreatedAtMS := ev_AtMS e, ls_Name := cp_Name p,
            ls_Description := cp_Description p, ls_DescriptionSource := cp_DescriptionSource p,
            ls_Kind := cp_Kind p, ls_Tool := cp_Tool p, ls_Cwd := cp_Cwd p,
            ls_Profile := cp_Profile p, ls_ConfigDir := cp_ConfigDir p,
            ls_WorktreePath := cp_WorktreePath p, ls_Branch := cp_Branch p, ls_Base := cp_Base p,
            ls_SourceRepo := cp_SourceRepo p, ls_ResumeArgv := cp_ResumeArgv p,
            ls_ProviderUUID := cp_ProviderUUID p, ls_CreatorKind := cp_CreatorKind p,
            ls_CreatorID := cp_CreatorID p, ls_DelegationKind := cp_DelegationKind p,
            ls_StartOperationID := cp_StartOperationID p,
            ls_PromptOperationID := cp_PromptOperationID p,
            ls_RequestFingerprint := cp_RequestFingerprint p\<rparr>
          in if validateTaskLinks (cp_TaskLinks p) = None
             then s'\<lparr>ls_Tasks := LinkTasks [] (cp_TaskLinks p) (ev_AtMS e)\<rparr> else s'))"

definition applyProviderIdentityEvent :: "lane_state \<Rightarrow> event \<Rightarrow> lane_state" where
  "applyProviderIdentityEvent s e = (case ev_Type e of
     EventProviderBound \<Rightarrow>
       (case decoded dec_providerPayload zero_providerPayload e of None \<Rightarrow> s
        | Some p \<Rightarrow> s\<lparr>ls_ProviderBound := True, ls_ProviderUUID := pp_ProviderUUID p,
                      ls_ResumeArgv := pp_ResumeArgv p\<rparr>)
   | EventProviderRebound \<Rightarrow>
       (case decoded dec_providerReboundPayload zero_providerReboundPayload e of None \<Rightarrow> s
        | Some p \<Rightarrow> if rp_ProviderUUID p = ls_ProviderUUID s
                    then s\<lparr>ls_ProviderReboundAs := rp_NewLaneID p\<rparr> else s)
   | EventMovedTo \<Rightarrow>
       (case decoded dec_movedToPayload zero_movedToPayload e of None \<Rightarrow> s
        | Some p \<Rightarrow> s\<lparr>ls_MovedToMachine := vt_TargetEndpoint p, ls_MovedToLaneID := vt_NewLaneID p,
                      ls_MovedToSeq := ev_Seq e\<rparr>)
   | EventMovedFrom \<Rightarrow>
       (case decoded dec_movedFromPayload zero_movedFromPayload e of None \<Rightarrow> s
        | Some p \<Rightarrow> s\<lparr>ls_MovedFromMachine := mf_SourceEndpoint p, ls_MovedFromLaneID := mf_SourceLaneID p,
                      ls_MovedFromSeq := ev_Seq e\<rparr>)
   | _ \<Rightarrow> s)"

text \<open>A lost runner that comes back reopens the lane, unless something else ended it.\<close>

definition runner_back :: "lane_state \<Rightarrow> lane_state" where
  "runner_back s =
     (let s1 = (if ls_RunnerLost s \<and> \<not> ls_UserKillRequested s \<and> \<not> ls_RunnerExited s
                   \<and> \<not> ls_Reaped s \<and> ls_ReopenedAs s = [] then s\<lparr>ls_ClosedAtMS := 0\<rparr> else s);
          s2 = s1\<lparr>ls_RunnerLost := False\<rparr>
      in s2\<lparr>ls_ManagedActive := mayBecomeManaged s2\<rparr>)"

definition applyRunnerPresenceEvent :: "lane_state \<Rightarrow> event \<Rightarrow> lane_state" where
  "applyRunnerPresenceEvent s e = (case ev_Type e of
     EventLaunchStarted \<Rightarrow> s\<lparr>ls_LaunchStarted := True\<rparr>
   | EventRunnerReady \<Rightarrow> runner_back (s\<lparr>ls_RunnerReady := True\<rparr>)
   | EventAttached \<Rightarrow> runner_back (s\<lparr>ls_Attached := True\<rparr>)
   | _ \<Rightarrow> s)"

definition applyActivityEvent :: "lane_state \<Rightarrow> event \<Rightarrow> lane_state" where
  "applyActivityEvent s e =
     (case decoded dec_activityPayload zero_activityPayload e of
        None \<Rightarrow> s
      | Some p \<Rightarrow>
         (let src = ap_Source p;
              (s', valid) =
                (if src = ActivityHumanInput then
                   (if ev_AtMS e > ls_LastHumanInputAtMS s
                    then s\<lparr>ls_LastHumanInputAtMS := ev_AtMS e\<rparr> else s, True)
                 else if src = ActivitySessionInput then (s, True)
                 else if src = ActivityProviderEvent then
                   (if ev_AtMS e > ls_LastProviderActivityAtMS s
                    then s\<lparr>ls_LastProviderActivityAtMS := ev_AtMS e\<rparr> else s, True)
                 else (s, False))
          in if valid \<and> (ev_AtMS e > ls_LastActivityAtMS s'
                 \<or> (ev_AtMS e = ls_LastActivityAtMS s' \<and> src = ActivityHumanInput))
             then s'\<lparr>ls_LastActivityAtMS := ev_AtMS e, ls_LastActivitySource := src\<rparr> else s'))"

definition applyMetadataEvent :: "lane_state \<Rightarrow> event \<Rightarrow> lane_state" where
  "applyMetadataEvent s e = (case ev_Type e of
     EventRenamed \<Rightarrow>
       (case decoded dec_renamePayload zero_renamePayload e of None \<Rightarrow> s
        | Some p \<Rightarrow> s\<lparr>ls_Name := np_Name p\<rparr>)
   | EventDescriptionDerived \<Rightarrow>
       (case decoded dec_descriptionPayload zero_descriptionPayload e of None \<Rightarrow> s
        | Some p \<Rightarrow> if dp_Source p = DescriptionFirstMessage
                       \<and> ls_DescriptionSource s = [] \<and> ls_Description s = []
                    then s\<lparr>ls_Description := dp_Description p, ls_DescriptionSource := dp_Source p\<rparr> else s)
   | EventWorktreeCleanRequested \<Rightarrow>
       (case decoded dec_worktreeCleanRequestedPayload zero_worktreeCleanRequestedPayload e of None \<Rightarrow> s
        | Some p \<Rightarrow> if wr_WorktreePath p = ls_WorktreePath s \<and> wr_Branch p = ls_Branch s
                       \<and> wr_BranchHead p \<noteq> []
                    then s\<lparr>ls_WorktreeCleanRequested := True, ls_WorktreeCleanBranchHead := wr_BranchHead p\<rparr>
                    else s)
   | EventWorktreeCleaned \<Rightarrow>
       (case decoded dec_worktreeCleanedPayload zero_worktreeCleanedPayload e of None \<Rightarrow> s
        | Some p \<Rightarrow> if wc_WorktreePath p = ls_WorktreePath s \<and> wc_Branch p = ls_Branch s
                    then s\<lparr>ls_WorktreeCleaned := True, ls_WorktreeCleanedAtMS := ev_AtMS e,
                           ls_WorktreeBranchRemoved := wc_BranchRemoved p\<rparr>
                    else s)
   | _ \<Rightarrow> s)"

definition close_at :: "int \<Rightarrow> lane_state \<Rightarrow> lane_state" where
  "close_at at s = (if ls_ClosedAtMS s = 0 then s\<lparr>ls_ClosedAtMS := at\<rparr> else s)"

definition applyUserKill :: "lane_state \<Rightarrow> event \<Rightarrow> lane_state" where
  "applyUserKill s e =
     (let s' = (if ls_UserKillRequested s then s else
                (let s1 = s\<lparr>ls_UserKillRequested := True\<rparr>;
                     s2 = (case decoded dec_userKillPayload zero_userKillPayload e of None \<Rightarrow> s1
                           | Some p \<Rightarrow> s1\<lparr>ls_EndInitiatorKind := kp_InitiatorKind p,
                                 ls_EndInitiatorID := kp_InitiatorID p,
                                 ls_EndInitiatorName := kp_InitiatorName p, ls_EndClient := kp_Client p,
                                 ls_EndReason := kp_Reason p, ls_EndOperationID := kp_OperationID p\<rparr>)
                 in close_at (ev_AtMS e) s2))
      in s'\<lparr>ls_ManagedActive := False\<rparr>)"

definition applyReopened :: "lane_state \<Rightarrow> event \<Rightarrow> lane_state" where
  "applyReopened s e =
     (case decoded dec_reopenedPayload zero_reopenedPayload e of None \<Rightarrow> s
      | Some p \<Rightarrow>
         (let new = op_NewLaneID p;
              succ = (if new \<noteq> [] \<and> new \<notin> set (ls_ReopenedSuccessors s)
                      then ls_ReopenedSuccessors s @ [new] else ls_ReopenedSuccessors s)
          in close_at (ev_AtMS e)
               (s\<lparr>ls_ReopenedAs := new, ls_ReopenedSuccessors := succ, ls_ManagedActive := False\<rparr>)))"

definition applyClosureEvent :: "lane_state \<Rightarrow> event \<Rightarrow> lane_state" where
  "applyClosureEvent s e = (case ev_Type e of
     EventUserKillRequested \<Rightarrow> applyUserKill s e
   | EventRunnerExited \<Rightarrow>
       (let s' = close_at (ev_AtMS e) (s\<lparr>ls_RunnerExited := True, ls_ManagedActive := False\<rparr>) in
        case decoded dec_runnerExitPayload zero_runnerExitPayload e of None \<Rightarrow> s'
        | Some p \<Rightarrow> s'\<lparr>ls_ExitCode := xp_Code p, ls_ExitSignal := xp_Signal p\<rparr>)
   | EventRunnerLost \<Rightarrow> close_at (ev_AtMS e) (s\<lparr>ls_RunnerLost := True, ls_ManagedActive := False\<rparr>)
   | EventReaped \<Rightarrow> close_at (ev_AtMS e) (s\<lparr>ls_Reaped := True, ls_ManagedActive := False\<rparr>)
   | EventReopened \<Rightarrow> applyReopened s e
   | EventArchived \<Rightarrow> s\<lparr>ls_Archived := True, ls_ArchivedAtMS := ev_AtMS e, ls_ManagedActive := False\<rparr>
   | _ \<Rightarrow> s)"

text \<open>The bookkeeping every event gets before its handler runs.\<close>

definition note_event :: "lane_state \<Rightarrow> event \<Rightarrow> lane_state" where
  "note_event s e =
     (let s1 = (if ev_AtMS e > ls_LastEventAtMS s then s\<lparr>ls_LastEventAtMS := ev_AtMS e\<rparr> else s);
          s2 = s1\<lparr>ls_LatestEvent := ev_Type e\<rparr>
      in if isLifecycleEvent (ev_Type e) \<and> ev_AtMS e > ls_LastLifecycleAtMS s2
         then s2\<lparr>ls_LastLifecycleAtMS := ev_AtMS e\<rparr> else s2)"

definition applyLaneEvent :: "lane_state \<Rightarrow> event \<Rightarrow> lane_state" where
  "applyLaneEvent s0 e = (let s = note_event s0 e in case ev_Type e of
     EventCreated \<Rightarrow> applyCreatedEvent s e
   | EventProviderBound \<Rightarrow> applyProviderIdentityEvent s e
   | EventProviderRebound \<Rightarrow> applyProviderIdentityEvent s e
   | EventMovedTo \<Rightarrow> applyProviderIdentityEvent s e
   | EventMovedFrom \<Rightarrow> applyProviderIdentityEvent s e
   | EventLaunchStarted \<Rightarrow> applyRunnerPresenceEvent s e
   | EventRunnerReady \<Rightarrow> applyRunnerPresenceEvent s e
   | EventAttached \<Rightarrow> applyRunnerPresenceEvent s e
   | EventActivity \<Rightarrow> applyActivityEvent s e
   | EventRenamed \<Rightarrow> applyMetadataEvent s e
   | EventDescriptionDerived \<Rightarrow> applyMetadataEvent s e
   | EventWorktreeCleanRequested \<Rightarrow> applyMetadataEvent s e
   | EventWorktreeCleaned \<Rightarrow> applyMetadataEvent s e
   | EventUserKillRequested \<Rightarrow> applyClosureEvent s e
   | EventRunnerExited \<Rightarrow> applyClosureEvent s e
   | EventRunnerLost \<Rightarrow> applyClosureEvent s e
   | EventReaped \<Rightarrow> applyClosureEvent s e
   | EventReopened \<Rightarrow> applyClosureEvent s e
   | EventArchived \<Rightarrow> applyClosureEvent s e
   | EventPullRequestLinked \<Rightarrow> foldPullRequest s e
   | EventPullRequestUnlinked \<Rightarrow> foldPullRequest s e
   | EventPullRequestObserved \<Rightarrow> foldPullRequest s e
   | EventPullRequestAdded \<Rightarrow> foldPullRequest s e
   | EventTaskLinked \<Rightarrow> foldTaskLinks s e
   | EventTaskUnlinked \<Rightarrow> foldTaskLinks s e
   | _ \<Rightarrow> s)"

section \<open>What each handler leaves alone\<close>

lemmas handler_defs = applyCreatedEvent_def applyProviderIdentityEvent_def applyRunnerPresenceEvent_def
  applyActivityEvent_def applyMetadataEvent_def applyClosureEvent_def applyUserKill_def
  applyReopened_def close_at_def runner_back_def Let_def

lemma only_links_keep:
  assumes "only_links s s'"
  shows "ls_UserKillRequested s' = ls_UserKillRequested s" "ls_RunnerExited s' = ls_RunnerExited s"
    "ls_RunnerLost s' = ls_RunnerLost s" "ls_Reaped s' = ls_Reaped s" "ls_ReopenedAs s' = ls_ReopenedAs s"
    "ls_Archived s' = ls_Archived s" "ls_Created s' = ls_Created s" "ls_ManagedActive s' = ls_ManagedActive s"
    "ls_ClosedAtMS s' = ls_ClosedAtMS s" "ls_LastEventAtMS s' = ls_LastEventAtMS s"
    "ls_LastLifecycleAtMS s' = ls_LastLifecycleAtMS s" "ls_LastActivityAtMS s' = ls_LastActivityAtMS s"
    "ls_LastHumanInputAtMS s' = ls_LastHumanInputAtMS s"
    "ls_LastProviderActivityAtMS s' = ls_LastProviderActivityAtMS s"
    "ls_ReopenedSuccessors s' = ls_ReopenedSuccessors s" "ls_LaneID s' = ls_LaneID s"
    "ls_EndInitiatorKind s' = ls_EndInitiatorKind s" "ls_EndInitiatorID s' = ls_EndInitiatorID s"
    "ls_EndReason s' = ls_EndReason s" "ls_EndOperationID s' = ls_EndOperationID s"
    "ls_EndInitiatorName s' = ls_EndInitiatorName s" "ls_EndClient s' = ls_EndClient s"
    "ls_CreatedAtMS s' = ls_CreatedAtMS s"
  using assms by (auto simp: only_links_def)

lemmas fold_pr_keep [fold_simps] = only_links_keep [OF foldPullRequest_only]
lemmas fold_task_keep [fold_simps] = only_links_keep [OF foldTaskLinks_only]

lemma note_event_keep [fold_simps]:
  "ls_UserKillRequested (note_event s e) = ls_UserKillRequested s"
  "ls_RunnerExited (note_event s e) = ls_RunnerExited s" "ls_RunnerLost (note_event s e) = ls_RunnerLost s"
  "ls_Reaped (note_event s e) = ls_Reaped s" "ls_ReopenedAs (note_event s e) = ls_ReopenedAs s"
  "ls_Archived (note_event s e) = ls_Archived s" "ls_Created (note_event s e) = ls_Created s"
  "ls_ManagedActive (note_event s e) = ls_ManagedActive s" "ls_ClosedAtMS (note_event s e) = ls_ClosedAtMS s"
  "ls_LastEventAtMS (note_event s e) = max (ls_LastEventAtMS s) (ev_AtMS e)"
  "ls_LastLifecycleAtMS (note_event s e) =
     (if isLifecycleEvent (ev_Type e) then max (ls_LastLifecycleAtMS s) (ev_AtMS e) else ls_LastLifecycleAtMS s)"
  "ls_LastActivityAtMS (note_event s e) = ls_LastActivityAtMS s"
  "ls_LastHumanInputAtMS (note_event s e) = ls_LastHumanInputAtMS s"
  "ls_LastProviderActivityAtMS (note_event s e) = ls_LastProviderActivityAtMS s"
  "ls_ReopenedSuccessors (note_event s e) = ls_ReopenedSuccessors s" "ls_LaneID (note_event s e) = ls_LaneID s"
  "ls_EndInitiatorKind (note_event s e) = ls_EndInitiatorKind s"
  "ls_EndInitiatorID (note_event s e) = ls_EndInitiatorID s"
  "ls_EndInitiatorName (note_event s e) = ls_EndInitiatorName s" "ls_EndClient (note_event s e) = ls_EndClient s"
  "ls_EndReason (note_event s e) = ls_EndReason s" "ls_EndOperationID (note_event s e) = ls_EndOperationID s"
  "ls_CreatedAtMS (note_event s e) = ls_CreatedAtMS s"
  "ls_PullRequests (note_event s e) = ls_PullRequests s" "ls_PullRequest (note_event s e) = ls_PullRequest s"
  "ls_Tasks (note_event s e) = ls_Tasks s"
  by (auto simp: note_event_def Let_def)

lemma applyLaneEvent_LaneID [simp]: "ls_LaneID (applyLaneEvent s e) = ls_LaneID s"
  by (cases "ev_Type e")
    (auto simp: applyLaneEvent_def handler_defs fold_simps split: option.splits)

section \<open>The invariant of a folded lane\<close>

text \<open>
  An active lane has not been ended in any way; the links are well formed; the activity times
  are ordered below the lifecycle time and that below the event time; the successors of a
  reopened lane are distinct and include the latest one.
\<close>

definition lane_inv :: "lane_state \<Rightarrow> bool" where
  "lane_inv s \<longleftrightarrow> (ls_ManagedActive s \<longrightarrow> mayBecomeManaged s \<and> \<not> ls_RunnerLost s)
     \<and> links_inv s
     \<and> ls_LastHumanInputAtMS s \<le> ls_LastActivityAtMS s
     \<and> ls_LastProviderActivityAtMS s \<le> ls_LastActivityAtMS s
     \<and> ls_LastActivityAtMS s \<le> ls_LastLifecycleAtMS s
     \<and> ls_LastLifecycleAtMS s \<le> ls_LastEventAtMS s
     \<and> distinct (ls_ReopenedSuccessors s)
     \<and> (ls_ReopenedAs s \<noteq> [] \<longrightarrow> ls_ReopenedAs s \<in> set (ls_ReopenedSuccessors s))"

lemma links_inv_cong:
  "ls_PullRequests s = ls_PullRequests s' \<Longrightarrow> ls_PullRequest s = ls_PullRequest s' \<Longrightarrow> ls_Tasks s = ls_Tasks s'
     \<Longrightarrow> links_inv s = links_inv s'"
  by (simp add: links_inv_def primary_ok_def)

lemma empty_lane_inv: "lane_inv (empty_lane lane)"
  by (simp add: lane_inv_def empty_lane_def links_inv_def wf_links_def primary_ok_def)

lemma links_inv_note [simp]: "links_inv (note_event s e) = links_inv s"
  by (rule links_inv_cong) (simp_all add: fold_simps)

lemma applyLaneEvent_links_inv: "links_inv s \<Longrightarrow> links_inv (applyLaneEvent s e)"
proof -
  assume inv: "links_inv s"
  then have n: "links_inv (note_event s e)" by simp
  show ?thesis
  proof (cases "\<exists>f \<in> {foldPullRequest, foldTaskLinks}. applyLaneEvent s e = f (note_event s e) e")
    case True
    then show ?thesis using n foldPullRequest_inv foldTaskLinks_inv by auto
  next
    case False
    have w: "wf_links (ls_PullRequests s)" "primary_ok s" "wf_tasks (ls_Tasks s)"
      using inv by (auto simp: links_inv_def)
    have "ls_PullRequests (applyLaneEvent s e) = ls_PullRequests s
        \<and> ls_PullRequest (applyLaneEvent s e) = ls_PullRequest s
        \<and> wf_tasks (ls_Tasks (applyLaneEvent s e))"
      using False w(3) by (cases "ev_Type e")
        (auto simp: applyLaneEvent_def handler_defs fold_simps LinkTasks_wf split: option.splits)
    then show ?thesis using w by (simp add: links_inv_def primary_ok_def)
  qed
qed

lemma applyLaneEvent_active:
  "(ls_ManagedActive s \<longrightarrow> mayBecomeManaged s \<and> \<not> ls_RunnerLost s) \<Longrightarrow>
   ls_ManagedActive (applyLaneEvent s e) \<longrightarrow>
     mayBecomeManaged (applyLaneEvent s e) \<and> \<not> ls_RunnerLost (applyLaneEvent s e)"
  by (cases "ev_Type e")
    (auto simp: applyLaneEvent_def handler_defs fold_simps mayBecomeManaged_def split: option.splits)

lemma applyLaneEvent_times:
  "ls_LastHumanInputAtMS s \<le> ls_LastActivityAtMS s \<and> ls_LastProviderActivityAtMS s \<le> ls_LastActivityAtMS s
     \<and> ls_LastActivityAtMS s \<le> ls_LastLifecycleAtMS s \<and> ls_LastLifecycleAtMS s \<le> ls_LastEventAtMS s \<Longrightarrow>
   ls_LastHumanInputAtMS (applyLaneEvent s e) \<le> ls_LastActivityAtMS (applyLaneEvent s e)
     \<and> ls_LastProviderActivityAtMS (applyLaneEvent s e) \<le> ls_LastActivityAtMS (applyLaneEvent s e)
     \<and> ls_LastActivityAtMS (applyLaneEvent s e) \<le> ls_LastLifecycleAtMS (applyLaneEvent s e)
     \<and> ls_LastLifecycleAtMS (applyLaneEvent s e) \<le> ls_LastEventAtMS (applyLaneEvent s e)"
  by (cases "ev_Type e")
    (auto simp: applyLaneEvent_def handler_defs fold_simps split: option.splits)

lemma applyLaneEvent_successors:
  "distinct (ls_ReopenedSuccessors s) \<and> (ls_ReopenedAs s \<noteq> [] \<longrightarrow> ls_ReopenedAs s \<in> set (ls_ReopenedSuccessors s)) \<Longrightarrow>
   distinct (ls_ReopenedSuccessors (applyLaneEvent s e)) \<and>
     (ls_ReopenedAs (applyLaneEvent s e) \<noteq> [] \<longrightarrow>
       ls_ReopenedAs (applyLaneEvent s e) \<in> set (ls_ReopenedSuccessors (applyLaneEvent s e)))"
  by (cases "ev_Type e")
    (auto simp: applyLaneEvent_def handler_defs fold_simps split: option.splits)

lemma applyLaneEvent_inv: "lane_inv s \<Longrightarrow> lane_inv (applyLaneEvent s e)"
  unfolding lane_inv_def
  using applyLaneEvent_links_inv applyLaneEvent_active applyLaneEvent_times applyLaneEvent_successors
  by blast

end
