(* ===== verification/Keyed_Fold.thy ===== *)
theory Keyed_Fold
  imports Prelude
begin

text \<open>
  Reducing an event stream into one state per key, the shape of the ledger's fold, of its
  incremental projection and of every other per-lane map.  A Go map is an association list with
  distinct keys; its iteration order never matters, because every reader sorts the result.
\<close>

definition keyed_step ::
    "('e \<Rightarrow> 'k) \<Rightarrow> ('e \<Rightarrow> bool) \<Rightarrow> ('k \<Rightarrow> 's) \<Rightarrow> ('s \<Rightarrow> 'e \<Rightarrow> 's) \<Rightarrow> ('k \<times> 's) list \<Rightarrow> 'e \<Rightarrow> ('k \<times> 's) list" where
  "keyed_step key live init step states e =
     (if live e then
        AList.update (key e)
          (step (case map_of states (key e) of None \<Rightarrow> init (key e) | Some s \<Rightarrow> s) e) states
      else states)"

text \<open>The state of one key after a stream, from its state before (\<open>None\<close>: no entry).\<close>

definition key_result ::
    "('e \<Rightarrow> 'k) \<Rightarrow> ('e \<Rightarrow> bool) \<Rightarrow> ('k \<Rightarrow> 's) \<Rightarrow> ('s \<Rightarrow> 'e \<Rightarrow> 's) \<Rightarrow> 's option \<Rightarrow> 'k \<Rightarrow> 'e list \<Rightarrow> 's option" where
  "key_result key live init step old k es =
     (let mine = filter (\<lambda>e. live e \<and> key e = k) es in
      if mine = [] then old
      else Some (foldl step (case old of None \<Rightarrow> init k | Some s \<Rightarrow> s) mine))"

lemma lookup_keyed:
  "map_of (foldl (keyed_step key live init step) states es) k
     = key_result key live init step (map_of states k) k es"
proof (induction es arbitrary: states)
  case Nil
  then show ?case by (simp add: key_result_def)
next
  case (Cons e es)
  show ?case
    unfolding foldl.simps Cons.IH
    by (cases "map_of states k")
      (auto simp: key_result_def keyed_step_def update_conv' Let_def split: option.splits)
qed

lemma distinct_keyed:
  "distinct (map fst states) \<Longrightarrow> distinct (map fst (foldl (keyed_step key live init step) states es))"
  by (induction es arbitrary: states) (auto simp: keyed_step_def distinct_update)

lemma key_result_append:
  "key_result key live init step old k (es @ fs)
     = key_result key live init step (key_result key live init step old k es) k fs"
  by (auto simp: key_result_def Let_def)

text \<open>A stream reduced into a map of its own, started from the entries of another one.\<close>

lemma key_result_prior:
  "key_result key live init step old k es =
     (case key_result key live (\<lambda>k. case old of None \<Rightarrow> init k | Some s \<Rightarrow> s) step None k es of
        None \<Rightarrow> old | Some s \<Rightarrow> Some s)"
  by (auto simp: key_result_def Let_def)

locale keyed_fold =
  fixes key :: "'e \<Rightarrow> 'k"
    and live :: "'e \<Rightarrow> bool"
    and init :: "'k \<Rightarrow> 's"
    and step :: "'s \<Rightarrow> 'e \<Rightarrow> 's"
    and ident :: "'s \<Rightarrow> 'k"
  assumes ident_init: "ident (init k) = k"
    and ident_step: "ident (step s e) = ident s"
begin

abbreviation kstep :: "('k \<times> 's) list \<Rightarrow> 'e \<Rightarrow> ('k \<times> 's) list" where
  "kstep \<equiv> keyed_step key live init step"

abbreviation result :: "'s option \<Rightarrow> 'k \<Rightarrow> 'e list \<Rightarrow> 's option" where
  "result \<equiv> key_result key live init step"

lemmas lookup_run = lookup_keyed [of key live init step]
lemmas distinct_run = distinct_keyed [of _ key live init step]
lemmas result_append = key_result_append [of key live init step]

lemma ident_foldl: "ident (foldl step s es) = ident s"
  by (induction es arbitrary: s) (auto simp: ident_step)

lemma ident_result: "(\<And>s. old = Some s \<Longrightarrow> ident s = k) \<Longrightarrow> result old k es = Some s \<Longrightarrow> ident s = k"
  by (auto simp: key_result_def Let_def ident_foldl ident_init split: if_splits option.splits)

lemma ident_run:
  assumes "\<And>k s. map_of states k = Some s \<Longrightarrow> ident s = k"
    and "map_of (foldl kstep states es) k = Some s"
  shows "ident s = k"
  using assms ident_result unfolding lookup_run by blast

lemma inv_run:
  assumes "\<And>k. P (init k)" and "\<And>s e. live e \<Longrightarrow> P s \<Longrightarrow> P (step s e)"
    and "map_of (foldl kstep [] es) k = Some s"
  shows "P s"
proof -
  have "P (foldl step (init k) (filter (\<lambda>e. live e \<and> key e = k) es))"
    by (rule foldl_inv) (use assms(1,2) in auto)
  then show ?thesis using assms(3)
    by (auto simp: lookup_run key_result_def Let_def split: if_splits)
qed

end

section \<open>Reading a map in key order\<close>

text \<open>The values, sorted by the key each value carries: two maps with the same entries read the same.\<close>

lemma sorted_values_determined:
  fixes ident :: "'s \<Rightarrow> 'k::linorder"
  assumes "distinct (map fst xs)" and "distinct (map fst ys)" and "map_of xs = map_of ys"
    and "\<And>k s. map_of xs k = Some s \<Longrightarrow> ident s = k"
  shows "sort_key ident (map snd xs) = sort_key ident (map snd ys)"
proof (rule sort_key_determined)
  have "set xs = set ys"
    using assms(1-3) by (metis map_of_eqI map_of_inject_set)
  then have "mset xs = mset ys"
    using assms(1,2) by (metis distinct_map set_eq_iff_mset_eq_distinct)
  then show "mset (map snd xs) = mset (map snd ys)" by simp
  show "inj_on ident (set (map snd xs))"
  proof (rule inj_onI)
    fix a b assume "a \<in> set (map snd xs)" "b \<in> set (map snd xs)" "ident a = ident b"
    then obtain j k where "(j, a) \<in> set xs" "(k, b) \<in> set xs" by auto
    then show "a = b" using assms(1,4) \<open>ident a = ident b\<close>
      by (metis map_of_eq_Some_iff option.inject)
  qed
qed

lemma set_values: "distinct (map fst xs) \<Longrightarrow> s \<in> set (map snd xs) \<longleftrightarrow> (\<exists>k. map_of xs k = Some s)"
  by force

end
