(* ===== verification/Lane_Fold.thy ===== *)
theory Lane_Fold
  imports Lane_Events Keyed_Fold
begin

text \<open>
  \<open>runtime/internal/ledger/fold.go\<close>: the fold of an event stream into lane states, the
  classification of lanes against what is running, and the recovery plan.
\<close>

section \<open>The order of events\<close>

text \<open>The order the stable sort of \<open>Fold\<close> uses: sequence number, then event id.\<close>

datatype event_key = EventKey (key_seq: int) (key_id: string)

instantiation event_key :: linorder
begin

definition less_eq_event_key :: "event_key \<Rightarrow> event_key \<Rightarrow> bool" where
  "less_eq_event_key a b \<longleftrightarrow> (if key_seq a \<noteq> key_seq b then key_seq a < key_seq b else key_id a \<le> key_id b)"

definition less_event_key :: "event_key \<Rightarrow> event_key \<Rightarrow> bool" where
  "less_event_key a b \<longleftrightarrow> (if key_seq a \<noteq> key_seq b then key_seq a < key_seq b else key_id a < key_id b)"

instance
  by standard (auto simp: less_eq_event_key_def less_event_key_def event_key.expand split: if_splits)

end

definition event_key :: "event \<Rightarrow> event_key" where
  "event_key e = EventKey (ev_Seq e) (ev_EventID e)"

section \<open>Fold\<close>

definition fold_step :: "(string \<times> lane_state) list \<Rightarrow> event \<Rightarrow> (string \<times> lane_state) list" where
  "fold_step = keyed_step ev_LaneID (\<lambda>e. ev_LaneID e \<noteq> []) empty_lane applyLaneEvent"

definition snapshotLaneStates :: "(string \<times> lane_state) list \<Rightarrow> lane_state list" where
  "snapshotLaneStates states = sort_key ls_LaneID (map snd states)"

definition Fold :: "event list \<Rightarrow> lane_state list" where
  "Fold events = snapshotLaneStates (foldl fold_step [] (sort_key event_key events))"

interpretation lane: keyed_fold ev_LaneID "\<lambda>e. ev_LaneID e \<noteq> []" empty_lane applyLaneEvent ls_LaneID
proof
  show "ls_LaneID (empty_lane lane) = lane" for lane by (simp add: empty_lane_def)
  show "ls_LaneID (applyLaneEvent s e) = ls_LaneID s" for s e by simp
qed

text \<open>The events of one lane in committed order, and the lane's state they reduce to.\<close>

definition lane_events :: "string \<Rightarrow> event list \<Rightarrow> event list" where
  "lane_events lane es = filter (\<lambda>e. ev_LaneID e = lane) es"

definition lane_result :: "string \<Rightarrow> event list \<Rightarrow> lane_state" where
  "lane_result lane es = foldl applyLaneEvent (empty_lane lane) (lane_events lane es)"

lemma lookup_fold:
  "map_of (foldl fold_step [] es) lane =
     (if lane \<noteq> [] \<and> lane_events lane es \<noteq> [] then Some (lane_result lane es) else None)"
proof -
  have "filter (\<lambda>e. ev_LaneID e \<noteq> [] \<and> ev_LaneID e = lane) es
      = (if lane = [] then [] else lane_events lane es)"
    unfolding lane_events_def by (auto intro: filter_cong)
  then show ?thesis
    by (simp add: fold_step_def lane.lookup_run key_result_def lane_result_def Let_def)
qed

lemma distinct_fold: "distinct (map fst (foldl fold_step [] es))"
  unfolding fold_step_def by (rule lane.distinct_run) simp

lemma ident_fold: "map_of (foldl fold_step [] es) k = Some s \<Longrightarrow> ls_LaneID s = k"
  unfolding fold_step_def by (rule lane.ident_run [of "[]"]) auto

lemma snapshot_set:
  "distinct (map fst states) \<Longrightarrow> s \<in> set (snapshotLaneStates states) \<longleftrightarrow> (\<exists>k. map_of states k = Some s)"
  by (force simp: snapshotLaneStates_def)

lemma snapshot_ids:
  assumes "distinct (map fst states)" and "\<And>k s. map_of states k = Some s \<Longrightarrow> ls_LaneID s = k"
  shows "sorted (map ls_LaneID (snapshotLaneStates states))"
    and "distinct (map ls_LaneID (snapshotLaneStates states))"
proof -
  show "sorted (map ls_LaneID (snapshotLaneStates states))"
    by (simp add: snapshotLaneStates_def)
  have "map ls_LaneID (map snd states) = map fst states"
    using assms by (auto simp: map_eq_conv)
  moreover have "mset (map ls_LaneID (snapshotLaneStates states)) = mset (map ls_LaneID (map snd states))"
    by (simp add: snapshotLaneStates_def multiset.map_comp)
  ultimately show "distinct (map ls_LaneID (snapshotLaneStates states))"
    using assms(1) by (metis mset_eq_imp_distinct_iff)
qed

lemma foldl_lane_inv: "lane_inv s \<Longrightarrow> lane_inv (foldl applyLaneEvent s es)"
  by (rule foldl_inv) (auto intro: applyLaneEvent_inv)

lemma Fold_member:
  "s \<in> set (Fold events) \<longleftrightarrow> (\<exists>lane. lane \<noteq> [] \<and> lane_events lane (sort_key event_key events) \<noteq> []
     \<and> s = lane_result lane (sort_key event_key events))"
  unfolding Fold_def snapshot_set [OF distinct_fold] lookup_fold by auto

section \<open>Classification\<close>

datatype lane_class = ClassLiveManaged | ClassClosed | ClassUnexpectedlyLost | ClassExternal

datatype anomaly =
    AnomalyClosedButRunning | AnomalyNeverBecameReady | AnomalyResumeSourceMissing | AnomalyProviderUnbound

record runtime_state =
  rs_Running :: bool
  rs_ResumeSourceKnown :: bool
  rs_ResumeSourceExists :: bool
  rs_TranscriptMirrorUsable :: bool

record classification =
  cl_Lane :: lane_state
  cl_Class :: lane_class
  cl_Anomalies :: "anomaly list"
  cl_TranscriptMirrorUsable :: bool

definition isProviderTool :: "string \<Rightarrow> bool" where
  "isProviderTool tool \<longleftrightarrow> tool = ''claude-code'' \<or> tool = ''codex''"

definition lane_closed :: "lane_state \<Rightarrow> bool" where
  "lane_closed lane \<longleftrightarrow> ls_UserKillRequested lane \<or> ls_RunnerExited lane \<or> ls_Reaped lane
     \<or> ls_ReopenedAs lane \<noteq> [] \<or> ls_Archived lane"

definition ClassifyLane :: "lane_state \<Rightarrow> runtime_state \<Rightarrow> classification" where
  "ClassifyLane lane runtime =
     (let closed = lane_closed lane;
          class = (if closed then ClassClosed
                   else if \<not> ls_Created lane \<and> rs_Running runtime then ClassExternal
                   else if ls_Created lane \<and> rs_Running runtime then ClassLiveManaged
                   else if ls_Created lane then ClassUnexpectedlyLost
                   else ClassClosed);
          anomalies =
            (if closed \<and> rs_Running runtime then [AnomalyClosedButRunning] else [])
            @ (if ls_Created lane \<and> \<not> ls_RunnerReady lane \<and> \<not> ls_Attached lane
               then [AnomalyNeverBecameReady] else [])
            @ (if ls_Created lane \<and> isProviderTool (ls_Tool lane) \<and> ls_ProviderUUID lane = []
               then [AnomalyProviderUnbound] else [])
            @ (if class = ClassUnexpectedlyLost \<and> ls_ProviderUUID lane \<noteq> []
                  \<and> rs_ResumeSourceKnown runtime \<and> \<not> rs_ResumeSourceExists runtime
               then [AnomalyResumeSourceMissing] else [])
      in \<lparr>cl_Lane = lane, cl_Class = class, cl_Anomalies = anomalies,
          cl_TranscriptMirrorUsable = rs_TranscriptMirrorUsable runtime\<rparr>)"

definition zero_runtime :: runtime_state where
  "zero_runtime = \<lparr>rs_Running = False, rs_ResumeSourceKnown = False, rs_ResumeSourceExists = False,
     rs_TranscriptMirrorUsable = False\<rparr>"

definition runtime_of :: "(string \<times> runtime_state) list \<Rightarrow> string \<Rightarrow> runtime_state" where
  "runtime_of runtime lane = (case map_of runtime lane of None \<Rightarrow> zero_runtime | Some r \<Rightarrow> r)"

definition add_external ::
    "(string \<times> lane_state) list \<Rightarrow> string \<times> runtime_state \<Rightarrow> (string \<times> lane_state) list" where
  "add_external states r =
     (if map_of states (fst r) = None \<and> rs_Running (snd r)
      then AList.update (fst r) (empty_lane (fst r)) states else states)"

definition ClassifyAll :: "lane_state list \<Rightarrow> (string \<times> runtime_state) list \<Rightarrow> classification list" where
  "ClassifyAll lanes runtime =
     (let states = foldl (\<lambda>m l. AList.update (ls_LaneID l) l m) [] lanes;
          states' = foldl add_external states runtime
      in sort_key (\<lambda>c. ls_LaneID (cl_Lane c))
           (map (\<lambda>(id, lane). ClassifyLane lane (runtime_of runtime id)) states'))"

definition HasAnomaly :: "classification \<Rightarrow> anomaly \<Rightarrow> bool" where
  "HasAnomaly c a \<longleftrightarrow> list_ex (\<lambda>candidate. candidate = a) (cl_Anomalies c)"

section \<open>The recovery plan\<close>

record recovery_recipe =
  rr_SourceLaneID :: string
  rr_Name :: string
  rr_Tool :: string
  rr_Cwd :: string
  rr_Cmd :: string
  rr_Args :: "string list"
  rr_ProviderUUID :: string
  rr_LastActivityAtMS :: int
  rr_LastActivitySource :: string
  rr_Blocked :: bool
  rr_TranscriptRecovery :: bool
  rr_Anomalies :: "anomaly list"

definition recipe_of :: "classification \<Rightarrow> recovery_recipe option" where
  "recipe_of c =
     (let lane = cl_Lane c; missing = HasAnomaly c AnomalyResumeSourceMissing in
      if cl_Class c \<noteq> ClassUnexpectedlyLost then None
      else case ls_ResumeArgv lane of [] \<Rightarrow> None
      | cmd # args \<Rightarrow> Some \<lparr>rr_SourceLaneID = ls_LaneID lane, rr_Name = ls_Name lane, rr_Tool = ls_Tool lane,
          rr_Cwd = ls_Cwd lane, rr_Cmd = cmd, rr_Args = args, rr_ProviderUUID = ls_ProviderUUID lane,
          rr_LastActivityAtMS = ls_LastActivityAtMS lane,
          rr_LastActivitySource = ls_LastActivitySource lane,
          rr_Blocked = (missing \<and> \<not> cl_TranscriptMirrorUsable c),
          rr_TranscriptRecovery = (missing \<and> cl_TranscriptMirrorUsable c),
          rr_Anomalies = cl_Anomalies c\<rparr>)"

text \<open>The comparison handed to the sort.\<close>

definition recipe_less :: "recovery_recipe \<Rightarrow> recovery_recipe \<Rightarrow> bool" where
  "recipe_less a b =
     (if rr_LastActivityAtMS a \<noteq> rr_LastActivityAtMS b then rr_LastActivityAtMS a > rr_LastActivityAtMS b
      else if rr_LastActivitySource a \<noteq> rr_LastActivitySource b
      then rr_LastActivitySource a = ActivityHumanInput
      else rr_SourceLaneID a < rr_SourceLaneID b)"

text \<open>
  \<open>sort.Slice\<close> is an insertion sort for up to 12 elements: each element in turn moves left while
  it compares less than its neighbour.  The prefix sorted so far is kept in reverse.
\<close>

fun insert_left :: "('a \<Rightarrow> 'a \<Rightarrow> bool) \<Rightarrow> 'a \<Rightarrow> 'a list \<Rightarrow> 'a list" where
  "insert_left lt x [] = [x]"
| "insert_left lt x (y # ys) = (if lt x y then y # insert_left lt x ys else x # y # ys)"

definition sort_slice :: "('a \<Rightarrow> 'a \<Rightarrow> bool) \<Rightarrow> 'a list \<Rightarrow> 'a list" where
  "sort_slice lt xs = rev (foldl (\<lambda>acc x. insert_left lt x acc) [] xs)"

definition BuildRecoveryPlan :: "classification list \<Rightarrow> recovery_recipe list" where
  "BuildRecoveryPlan cs = sort_slice recipe_less (List.map_filter recipe_of cs)"

section \<open>Sorting lemmas\<close>

lemma mset_insert_left: "mset (insert_left lt x ys) = add_mset x (mset ys)"
  by (induction ys) auto

lemma mset_sort_slice [simp]: "mset (sort_slice lt xs) = mset xs"
proof -
  have "mset (foldl (\<lambda>acc x. insert_left lt x acc) acc xs) = mset acc + mset xs" for acc
    by (induction xs arbitrary: acc) (auto simp: mset_insert_left)
  then show ?thesis by (simp add: sort_slice_def)
qed

text \<open>Whatever the comparison does within equal ranks, the sort orders the ranks, as long as the
  comparison decides different ranks by rank.\<close>

lemma insert_left_ranked:
  fixes rank :: "'a \<Rightarrow> int"
  assumes "\<And>a b. rank a \<noteq> rank b \<Longrightarrow> lt a b \<longleftrightarrow> rank a > rank b"
    and "sorted_wrt (\<lambda>a b. rank a \<le> rank b) ys"
  shows "sorted_wrt (\<lambda>a b. rank a \<le> rank b) (insert_left lt x ys)"
  using assms(2)
proof (induction ys)
  case (Cons y ys)
  have s: "set (insert_left lt x ys) = insert x (set ys)"
    by (metis mset_insert_left set_mset_add_mset_insert set_mset_mset)
  show ?case
  proof (cases "lt x y")
    case True
    then have "rank y \<le> rank x" using assms(1) by (metis linorder_not_le not_less_iff_gr_or_eq)
    then show ?thesis using Cons True s by auto
  next
    case False
    then have "rank x \<le> rank y" using assms(1) by (metis linorder_not_le not_less_iff_gr_or_eq)
    then show ?thesis using Cons False by auto
  qed
qed simp

lemma sort_slice_ranked:
  fixes rank :: "'a \<Rightarrow> int"
  assumes "\<And>a b. rank a \<noteq> rank b \<Longrightarrow> lt a b \<longleftrightarrow> rank a > rank b"
  shows "sorted_wrt (\<lambda>a b. rank a \<ge> rank b) (sort_slice lt xs)"
proof -
  have "sorted_wrt (\<lambda>a b. rank a \<le> rank b) (foldl (\<lambda>acc x. insert_left lt x acc) [] xs)"
    by (rule foldl_inv) (simp, rule insert_left_ranked [OF assms])
  then show ?thesis by (simp add: sort_slice_def sorted_wrt_rev)
qed

section \<open>Endings\<close>

text \<open>What ended a lane for good, and what may have ended it.\<close>

definition hard_ended :: "lane_state \<Rightarrow> bool" where
  "hard_ended s \<longleftrightarrow> ls_UserKillRequested s \<or> ls_RunnerExited s \<or> ls_Reaped s"

definition ended :: "lane_state \<Rightarrow> bool" where
  "ended s \<longleftrightarrow> hard_ended s \<or> ls_RunnerLost s \<or> ls_ReopenedAs s \<noteq> []"

definition end_record :: "lane_state \<Rightarrow> string \<times> string \<times> string \<times> string \<times> string \<times> string" where
  "end_record s = (ls_EndInitiatorKind s, ls_EndInitiatorID s, ls_EndInitiatorName s, ls_EndClient s,
     ls_EndReason s, ls_EndOperationID s)"

lemma applyLaneEvent_monotone:
  "ls_UserKillRequested s \<Longrightarrow> ls_UserKillRequested (applyLaneEvent s e)"
  "ls_RunnerExited s \<Longrightarrow> ls_RunnerExited (applyLaneEvent s e)"
  "ls_Reaped s \<Longrightarrow> ls_Reaped (applyLaneEvent s e)"
  "ls_Archived s \<Longrightarrow> ls_Archived (applyLaneEvent s e)"
  "ls_Created s \<Longrightarrow> ls_Created (applyLaneEvent s e)"
  by (cases "ev_Type e", auto simp: applyLaneEvent_def handler_defs fold_simps split: option.splits)+

lemma applyLaneEvent_end_record:
  "ls_UserKillRequested s \<Longrightarrow> end_record (applyLaneEvent s e) = end_record s"
  by (cases "ev_Type e")
    (auto simp: applyLaneEvent_def handler_defs fold_simps end_record_def split: option.splits)

lemma applyLaneEvent_closed:
  "(ended s \<longrightarrow> ls_ClosedAtMS s \<noteq> 0) \<Longrightarrow> ev_AtMS e \<noteq> 0 \<Longrightarrow>
     ended (applyLaneEvent s e) \<longrightarrow> ls_ClosedAtMS (applyLaneEvent s e) \<noteq> 0"
  by (cases "ev_Type e")
    (auto simp: applyLaneEvent_def handler_defs fold_simps ended_def hard_ended_def split: option.splits)

lemma applyLaneEvent_close_time:
  "hard_ended s \<Longrightarrow> ls_ClosedAtMS s \<noteq> 0 \<Longrightarrow> ls_ClosedAtMS (applyLaneEvent s e) = ls_ClosedAtMS s"
  by (cases "ev_Type e")
    (auto simp: applyLaneEvent_def handler_defs fold_simps hard_ended_def split: option.splits)

lemma hard_ended_step: "hard_ended s \<Longrightarrow> hard_ended (applyLaneEvent s e)"
  unfolding hard_ended_def using applyLaneEvent_monotone by blast

section \<open>Properties of the fold\<close>

text \<open>C1: the fold does not depend on the order its events arrive in: two permutations of the same
  events give the same lane states, when sequence numbers and event ids identify the events.\<close>

theorem Fold_order_irrelevant:
  assumes "mset es = mset es'" and "inj_on event_key (set es)"
  shows "Fold es = Fold es'"
  unfolding Fold_def using sort_key_determined [OF assms] by simp

definition sample_event :: "int \<Rightarrow> string \<Rightarrow> event_type \<Rightarrow> int \<Rightarrow> json option \<Rightarrow> event" where
  "sample_event seq lane typ at payload = \<lparr>ev_Seq = seq, ev_EventID = lane, ev_LaneID = lane, ev_Type = typ,
     ev_AtMS = at, ev_Actor = ActorDaemon, ev_SchemaVersion = 1, ev_Payload = payload\<rparr>"

theorem Fold_order_irrelevant_witness:
  "Fold [sample_event 2 ''a'' EventReaped 7 None, sample_event 1 ''a'' EventRunnerLost 5 None]
   = Fold [sample_event 1 ''a'' EventRunnerLost 5 None, sample_event 2 ''a'' EventReaped 7 None]"
  by (rule Fold_order_irrelevant) (simp_all add: event_key_def sample_event_def)

text \<open>The fold is the per-lane reduction: its states are sorted by lane id without repetition, and
  they are exactly the states that the events of each named lane reduce to in sequence order.\<close>

lemma Fold_per_lane:
  "sorted (map ls_LaneID (Fold es)) \<and> distinct (map ls_LaneID (Fold es))
   \<and> set (Fold es) = {lane_result lane (sort_key event_key es) | lane.
        lane \<noteq> [] \<and> lane_events lane (sort_key event_key es) \<noteq> []}"
proof (intro conjI)
  show "sorted (map ls_LaneID (Fold es))" "distinct (map ls_LaneID (Fold es))"
    unfolding Fold_def by (rule snapshot_ids [OF distinct_fold ident_fold], assumption)+
  show "set (Fold es) = {lane_result lane (sort_key event_key es) | lane.
        lane \<noteq> [] \<and> lane_events lane (sort_key event_key es) \<noteq> []}"
    using Fold_member by auto
qed

lemma lane_result_inv: "lane_inv (lane_result lane es)"
  unfolding lane_result_def by (rule foldl_lane_inv) (rule empty_lane_inv)


text \<open>Archiving is not among the ends that keep a lane from becoming active: a lost lane that was archived
  and whose runner then reports again is active, may own its conversation, and is closed for
  the recovery plan all the same.\<close>

lemma archive_event:
  assumes "ev_Type e = EventArchived"
  shows "ls_Archived (applyLaneEvent s e)" "mayBecomeManaged (applyLaneEvent s e) = mayBecomeManaged s"
  using assms by (simp_all add: applyLaneEvent_def applyClosureEvent_def note_event_def mayBecomeManaged_def)

lemma runner_event:
  assumes "ev_Type f = EventRunnerReady \<or> ev_Type f = EventAttached" and "mayBecomeManaged s"
  shows "ls_ManagedActive (applyLaneEvent s f)" "ls_Archived (applyLaneEvent s f) = ls_Archived s"
  using assms by (auto simp: applyLaneEvent_def applyRunnerPresenceEvent_def runner_back_def note_event_def mayBecomeManaged_def
      Let_def split: if_splits)

lemma archived_revived:
  assumes "mayBecomeManaged s" and "ev_Type e = EventArchived" and "ev_Type f = EventRunnerReady \<or> ev_Type f = EventAttached"
  shows "ls_ManagedActive (applyLaneEvent (applyLaneEvent s e) f)
    \<and> cl_Class (ClassifyLane (applyLaneEvent (applyLaneEvent s e) f) runtime) = ClassClosed"
proof -
  have "ls_Archived (applyLaneEvent (applyLaneEvent s e) f)"
    using runner_event(2) [OF assms(3)] archive_event [OF assms(2)] assms(1) by simp
  then show ?thesis
    using runner_event(1) [OF assms(3)] archive_event(2) [OF assms(2)] assms(1)
    by (simp add: ClassifyLane_def lane_closed_def)
qed

lemma archived_revived_witness:
  "ls_ManagedActive (applyLaneEvent (applyLaneEvent (empty_lane ''a'') (sample_event 1 ''a'' EventArchived 5 None))
     (sample_event 2 ''a'' EventRunnerReady 6 None))"
  using archived_revived [of "empty_lane ''a''" "sample_event 1 ''a'' EventArchived 5 None" "sample_event 2 ''a'' EventRunnerReady 6 None"]
  by (simp add: empty_lane_def sample_event_def mayBecomeManaged_def)

text \<open>C14: a user's kill is final.  Once it is recorded, no later event takes it back, changes who is
  recorded as having ended the session, makes the lane active, or makes it anything but closed
  for the recovery plan.\<close>

theorem user_kill_final:
  assumes "lane_inv s" and "ls_UserKillRequested s"
  shows "ls_UserKillRequested (foldl applyLaneEvent s es)
     \<and> end_record (foldl applyLaneEvent s es) = end_record s
     \<and> \<not> ls_ManagedActive (foldl applyLaneEvent s es)
     \<and> cl_Class (ClassifyLane (foldl applyLaneEvent s es) runtime) = ClassClosed
     \<and> recipe_of (ClassifyLane (foldl applyLaneEvent s es) runtime) = None"
proof -
  let ?s = "foldl applyLaneEvent s es"
  have k: "ls_UserKillRequested ?s \<and> end_record ?s = end_record s"
    by (rule foldl_inv) (use assms(2) applyLaneEvent_monotone(1) applyLaneEvent_end_record in auto)
  have "lane_inv ?s" using assms(1) by (rule foldl_lane_inv)
  then have "\<not> ls_ManagedActive ?s" using k by (auto simp: lane_inv_def mayBecomeManaged_def)
  moreover have "cl_Class (ClassifyLane ?s runtime) = ClassClosed"
    using k by (simp add: ClassifyLane_def lane_closed_def)
  ultimately show ?thesis using k by (simp add: recipe_of_def)
qed

theorem user_kill_final_witness:
  "ls_UserKillRequested (foldl applyLaneEvent
     ((empty_lane ''a'')\<lparr>ls_UserKillRequested := True\<rparr>) [sample_event 1 ''a'' EventAttached 5 None])"
proof -
  have "lane_inv ((empty_lane ''a'')\<lparr>ls_UserKillRequested := True\<rparr>)"
    by (simp add: lane_inv_def empty_lane_def links_inv_def wf_links_def primary_ok_def)
  from user_kill_final [OF this, of "[sample_event 1 ''a'' EventAttached 5 None]"] show ?thesis by simp
qed

text \<open>A lane that was killed, exited, reaped, lost or reopened has a closing time, and the closing
  time of a killed, exited or reaped lane never changes again, when no event has time zero.\<close>

lemma closing_time:
  assumes "\<forall>e \<in> set es. ev_AtMS e \<noteq> 0" and "ended s \<longrightarrow> ls_ClosedAtMS s \<noteq> 0"
  shows "(ended (foldl applyLaneEvent s es) \<longrightarrow> ls_ClosedAtMS (foldl applyLaneEvent s es) \<noteq> 0)
     \<and> (hard_ended s \<longrightarrow> ls_ClosedAtMS (foldl applyLaneEvent s es) = ls_ClosedAtMS s)"
proof (intro conjI impI)
  let ?s = "foldl applyLaneEvent s es"
  have "ended ?s \<longrightarrow> ls_ClosedAtMS ?s \<noteq> 0"
    by (rule foldl_inv [where P = "\<lambda>s. ended s \<longrightarrow> ls_ClosedAtMS s \<noteq> 0"])
      (use assms applyLaneEvent_closed in auto)
  then show "ended ?s \<Longrightarrow> ls_ClosedAtMS ?s \<noteq> 0" by blast
  assume h: "hard_ended s"
  then have c: "ls_ClosedAtMS s \<noteq> 0" using assms(2) by (simp add: ended_def)
  have "hard_ended ?s \<and> ls_ClosedAtMS ?s = ls_ClosedAtMS s"
    by (rule foldl_inv) (use h c hard_ended_step applyLaneEvent_close_time in auto)
  then show "ls_ClosedAtMS ?s = ls_ClosedAtMS s" by blast
qed

lemma closing_time_witness:
  "ls_ClosedAtMS (foldl applyLaneEvent (applyLaneEvent (empty_lane ''a'') (sample_event 1 ''a'' EventReaped 5 None))
     [sample_event 2 ''a'' EventUserKillRequested 9 None]) = 5"
proof -
  let ?s = "applyLaneEvent (empty_lane ''a'') (sample_event 1 ''a'' EventReaped 5 None)"
  have s: "ls_ClosedAtMS ?s = 5" "hard_ended ?s"
    by (simp_all add: applyLaneEvent_def handler_defs sample_event_def note_event_def empty_lane_def hard_ended_def)
  have "ls_ClosedAtMS (foldl applyLaneEvent ?s [sample_event 2 ''a'' EventUserKillRequested 9 None]) = ls_ClosedAtMS ?s"
    using closing_time [of "[sample_event 2 ''a'' EventUserKillRequested 9 None]" ?s] s
    by (simp add: sample_event_def)
  then show ?thesis using s(1) by simp
qed

text \<open>Facts about process, activity and endings: everything the lifecycle of a lane consists of.\<close>

definition lifecycle_facts :: "lane_state \<Rightarrow> (bool \<times> bool \<times> bool \<times> bool \<times> bool) \<times> string \<times> bool \<times> int list" where
  "lifecycle_facts s = ((ls_UserKillRequested s, ls_RunnerExited s, ls_RunnerLost s, ls_Reaped s, ls_Created s),
     ls_ReopenedAs s, ls_ManagedActive s,
     [ls_ClosedAtMS s, ls_LastLifecycleAtMS s, ls_LastActivityAtMS s, ls_LastHumanInputAtMS s,
      ls_LastProviderActivityAtMS s])"

text \<open>Administrative facts have no lifecycle authority: an event that is not a lifecycle event,
  archiving apart, leaves every fact about the lane's process, activity and ending as it was.\<close>

lemma administrative_frame:
  assumes "\<not> isLifecycleEvent (ev_Type e)" and "ev_Type e \<noteq> EventArchived"
  shows "lifecycle_facts (applyLaneEvent s e) = lifecycle_facts s"
  using assms
  by (cases "ev_Type e")
    (auto simp: applyLaneEvent_def handler_defs fold_simps lifecycle_facts_def split: option.splits)

lemma administrative_frame_witness:
  "lifecycle_facts (applyLaneEvent (empty_lane ''a'') (sample_event 1 ''a'' EventRenamed 5 None))
     = lifecycle_facts (empty_lane ''a'')"
  by (rule administrative_frame) (simp_all add: sample_event_def)

text \<open>C31: whatever happens to a lane, a pull request it still holds keeps the time it was linked at,
  and once seen merged it stays merged with the observation that said so.\<close>

theorem merged_is_final:
  assumes "lane_inv s"
  shows "merged_kept (ls_PullRequests s) (ls_PullRequests (applyLaneEvent s e))"
proof -
  have n: "links_inv (note_event s e)" using assms by (simp add: lane_inv_def)
  show ?thesis
  proof (cases "\<exists>f \<in> {foldPullRequest, foldTaskLinks}. applyLaneEvent s e = f (note_event s e) e")
    case True
    then show ?thesis using foldPullRequest_merged [OF n] foldTaskLinks_merged [OF n] by (auto simp: fold_simps)
  next
    case False
    then have "ls_PullRequests (applyLaneEvent s e) = ls_PullRequests s"
      by (cases "ev_Type e")
        (auto simp: applyLaneEvent_def handler_defs fold_simps split: option.splits)
    then show ?thesis using n by (simp add: links_inv_def fold_simps merged_kept_refl)
  qed
qed

definition sample_link :: lane_pull_request where
  "sample_link = (link_of_ref \<lparr>rf_URL = ''u'', rf_Host = ''h'', rf_Owner = ''o'', rf_Repo = ''r'', rf_Number = 1\<rparr> 3)
     \<lparr>lp_Observed := True, lp_ObservedAtMS := 4, lp_Merged := True\<rparr>"

theorem merged_is_final_witness:
  "merged_kept [sample_link]
     (ls_PullRequests (applyLaneEvent ((empty_lane ''a'')\<lparr>ls_PullRequests := [sample_link], ls_PullRequest := sample_link\<rparr>)
        (sample_event 1 ''a'' EventPullRequestObserved 5
           (Some (JObj [(''url'', JStr ''u''), (''state'', JStr ''open'')])))))"
proof -
  let ?s = "(empty_lane ''a'')\<lparr>ls_PullRequests := [sample_link], ls_PullRequest := sample_link\<rparr>"
  have "lane_inv ?s"
    by (simp add: lane_inv_def empty_lane_def links_inv_def wf_links_def primary_ok_def sample_link_def
        maxPullRequestLinks_def link_of_ref_def)
  from merged_is_final [OF this] show ?thesis by simp
qed

section \<open>Properties of the recovery plan\<close>

lemma List_map_filter_in: "y \<in> set (List.map_filter f xs) \<longleftrightarrow> (\<exists>x \<in> set xs. f x = Some y)"
  by (auto simp: List.map_filter_def image_iff)

text \<open>The plan holds exactly one recipe for each lost lane with a resume command, no other, and
  lists the most recently active first.\<close>

lemma recovery_plan_complete:
  "mset (BuildRecoveryPlan cs) = mset (List.map_filter recipe_of cs)
   \<and> sorted_wrt (\<lambda>a b. rr_LastActivityAtMS a \<ge> rr_LastActivityAtMS b) (BuildRecoveryPlan cs)"
  unfolding BuildRecoveryPlan_def
  by (intro conjI mset_sort_slice sort_slice_ranked) (auto simp: recipe_less_def)

lemma lookup_lanes:
  "map_of (foldl (\<lambda>m l. AList.update (ls_LaneID l) l m) m lanes) k = Some s \<Longrightarrow>
     (s \<in> set lanes \<and> ls_LaneID s = k) \<or> map_of m k = Some s"
  by (induction lanes arbitrary: m) (force simp: update_conv' split: if_splits)+

lemma lookup_externals:
  "map_of (foldl add_external m rs) k = Some s \<Longrightarrow> s = empty_lane k \<or> map_of m k = Some s"
  by (induction rs arbitrary: m) (force simp: add_external_def update_conv' split: if_splits)+

lemma map_of_if_member: "(k, s) \<in> set m \<Longrightarrow> distinct (map fst m) \<Longrightarrow> map_of m k = Some s"
  by simp

lemma distinct_states:
  "distinct (map fst (foldl add_external (foldl (\<lambda>m l. AList.update (ls_LaneID l) l m) [] lanes) rs))"
proof -
  have "distinct (map fst (foldl (\<lambda>m l. AList.update (ls_LaneID l) l m) [] lanes))"
    by (rule foldl_inv [where P = "\<lambda>m. distinct (map fst m)"]) (auto simp: distinct_update)
  then show ?thesis
    by (intro foldl_inv [where P = "\<lambda>m. distinct (map fst m)"])
      (auto simp: add_external_def distinct_update)
qed

lemma empty_lane_not_created: "\<not> ls_Created (empty_lane lane)"
  by (simp add: empty_lane_def)

lemma ClassifyAll_member:
  assumes "c \<in> set (ClassifyAll lanes runtime)"
  shows "\<exists>lane. c = ClassifyLane lane (runtime_of runtime (ls_LaneID lane))
     \<and> (lane \<in> set lanes \<or> lane = empty_lane (ls_LaneID lane))"
proof -
  let ?m = "foldl add_external (foldl (\<lambda>m l. AList.update (ls_LaneID l) l m) [] lanes) runtime"
  obtain k lane where kl: "(k, lane) \<in> set ?m" "c = ClassifyLane lane (runtime_of runtime k)"
    using assms by (auto simp: ClassifyAll_def Let_def)
  then have "map_of ?m k = Some lane" using distinct_states by (intro map_of_if_member) auto
  then have "ls_LaneID lane = k \<and> (lane \<in> set lanes \<or> lane = empty_lane k)"
    using lookup_externals lookup_lanes by (fastforce simp: empty_lane_def)
  then show ?thesis using kl by auto
qed

text \<open>C15: recovery is safe: a recipe of the plan names a lane of the ledger that was created, was not
  killed, exited, reaped, reopened or archived, and is not running; its command is the lane's
  recorded resume command, and it is offered unblocked only when the provider's transcript is not
  known to be missing or Sessions holds a copy.\<close>

theorem recovery_plan_safe:
  assumes "r \<in> set (BuildRecoveryPlan (ClassifyAll (Fold es) runtime))"
  shows "\<exists>s \<in> set (Fold es). \<exists>rt. rt = runtime_of runtime (ls_LaneID s)
     \<and> rr_SourceLaneID r = ls_LaneID s \<and> rr_Cmd r # rr_Args r = ls_ResumeArgv s
     \<and> ls_Created s \<and> \<not> lane_closed s \<and> \<not> rs_Running rt
     \<and> (\<not> rr_Blocked r \<longrightarrow> ls_ProviderUUID s = [] \<or> \<not> rs_ResumeSourceKnown rt
          \<or> rs_ResumeSourceExists rt \<or> rs_TranscriptMirrorUsable rt)"
proof -
  have "mset (BuildRecoveryPlan (ClassifyAll (Fold es) runtime))
      = mset (List.map_filter recipe_of (ClassifyAll (Fold es) runtime))"
    by (simp add: BuildRecoveryPlan_def)
  then obtain c where c: "c \<in> set (ClassifyAll (Fold es) runtime)" "recipe_of c = Some r"
    using assms by (metis List_map_filter_in set_mset_mset)
  obtain s where s: "c = ClassifyLane s (runtime_of runtime (ls_LaneID s))"
    "s \<in> set (Fold es) \<or> s = empty_lane (ls_LaneID s)"
    using ClassifyAll_member [OF c(1)] by blast
  let ?rt = "runtime_of runtime (ls_LaneID s)"
  have lost: "cl_Class c = ClassUnexpectedlyLost" using c(2) by (auto simp: recipe_of_def Let_def split: if_splits)
  then have facts: "ls_Created s" "\<not> lane_closed s" "\<not> rs_Running ?rt"
    using s(1) by (auto simp: ClassifyLane_def Let_def split: if_splits)
  have "s \<in> set (Fold es)" using s(2) facts(1) empty_lane_not_created by metis
  moreover have "rr_SourceLaneID r = ls_LaneID s \<and> rr_Cmd r # rr_Args r = ls_ResumeArgv s
      \<and> rr_Blocked r = (HasAnomaly c AnomalyResumeSourceMissing \<and> \<not> rs_TranscriptMirrorUsable ?rt)"
    using c(2) s(1) by (auto simp: recipe_of_def Let_def ClassifyLane_def split: if_splits list.splits)
  moreover have "HasAnomaly c AnomalyResumeSourceMissing \<longleftrightarrow> ls_ProviderUUID s \<noteq> []
      \<and> rs_ResumeSourceKnown ?rt \<and> \<not> rs_ResumeSourceExists ?rt"
    using s(1) facts by (auto simp: HasAnomaly_def ClassifyLane_def Let_def)
  ultimately show ?thesis using facts by blast
qed

definition sample_created :: event where
  "sample_created = sample_event 1 ''a'' EventCreated 5 (Some (JObj [(''argv'', JArr [JStr ''claude''])]))"

lemma sample_lane:
  "lane_result ''a'' [sample_created] = (empty_lane ''a'')\<lparr>ls_LastEventAtMS := 5, ls_LatestEvent := EventCreated,
     ls_LastLifecycleAtMS := 5, ls_Created := True, ls_CreatedAtMS := 5, ls_ResumeArgv := [''claude'']\<rparr>"
  by (simp add: lane_result_def lane_events_def sample_created_def sample_event_def applyLaneEvent_def
      note_event_def applyCreatedEvent_def empty_lane_def dec_createdPayload_def zero_createdPayload_def
      json_simps key_simps validateTaskLinks_def Let_def)

lemma sample_Fold: "Fold [sample_created] = [lane_result ''a'' [sample_created]]"
  by (simp add: Fold_def snapshotLaneStates_def fold_step_def keyed_step_def lane_result_def lane_events_def)
    (simp add: sample_created_def sample_event_def)

theorem recovery_plan_safe_witness:
  "\<exists>s \<in> set (Fold [sample_created]). ls_Created s \<and> \<not> lane_closed s \<and> ls_ResumeArgv s = [''claude'']"
proof -
  have "ls_LaneID (lane_result ''a'' [sample_created]) = ''a''"
    by (simp add: sample_lane empty_lane_def)
  then have c: "ClassifyAll (Fold [sample_created]) [] = [ClassifyLane (lane_result ''a'' [sample_created]) zero_runtime]"
    by (simp add: ClassifyAll_def sample_Fold runtime_of_def)
  obtain r where r: "recipe_of (ClassifyLane (lane_result ''a'' [sample_created]) zero_runtime) = Some r"
    "rr_Cmd r # rr_Args r = [''claude'']"
    by (simp add: recipe_of_def ClassifyLane_def lane_closed_def sample_lane zero_runtime_def empty_lane_def Let_def)
  then have "r \<in> set (BuildRecoveryPlan (ClassifyAll (Fold [sample_created]) []))"
    by (simp add: c BuildRecoveryPlan_def sort_slice_def List.map_filter_def)
  from recovery_plan_safe [OF this] show ?thesis using r(2) by metis
qed

definition sample_recipe :: "string \<Rightarrow> string \<Rightarrow> recovery_recipe" where
  "sample_recipe lane src = \<lparr>rr_SourceLaneID = lane, rr_Name = [], rr_Tool = [], rr_Cwd = [], rr_Cmd = [],
     rr_Args = [], rr_ProviderUUID = [], rr_LastActivityAtMS = 7, rr_LastActivitySource = src,
     rr_Blocked = False, rr_TranscriptRecovery = False, rr_Anomalies = []\<rparr>"

text \<open>The comparison the plan is sorted by is not a strict weak order: at one activity time,
  lanes whose activity came from different sources other than a person compare as equal whatever
  their ids, so equality is not transitive and the order of such recipes depends on the order of
  the input although their lane ids differ.\<close>

lemma recipe_order_gap:
  "\<exists>a b c. \<not> recipe_less a b \<and> \<not> recipe_less b a \<and> \<not> recipe_less b c \<and> \<not> recipe_less c b
     \<and> recipe_less a c \<and> sort_slice recipe_less [a, b, c] = [a, b, c]
     \<and> sort_slice recipe_less [c, b, a] = [c, b, a]"
proof -
  let ?a = "sample_recipe ''1'' ActivityProviderEvent"
  let ?b = "sample_recipe ''2'' ActivitySessionInput"
  let ?c = "sample_recipe ''3'' ActivityProviderEvent"
  have lt: "\<not> recipe_less ?a ?b" "\<not> recipe_less ?b ?a" "\<not> recipe_less ?b ?c" "\<not> recipe_less ?c ?b"
    "recipe_less ?a ?c"
    by (simp_all add: recipe_less_def sample_recipe_def less_char_def)
  then show ?thesis
    by (intro exI [of _ ?a] exI [of _ ?b] exI [of _ ?c]) (simp add: sort_slice_def)
qed

end
