(* ===== verification/Append_Log.thy ===== *)
theory Append_Log
  imports Prelude
begin

text \<open>
  The contract of an append-only log: a step adds entries at the end and changes none.  What
  holds of every added entry holds of the log, and a reader that has seen a prefix needs only
  the rest.
\<close>

locale append_log =
  fixes rows :: "'s \<Rightarrow> 'r list"
    and step :: "'s \<Rightarrow> 'o \<Rightarrow> 's"
    and good :: "'r \<Rightarrow> bool"
  assumes step_extends: "\<exists>new. rows (step s x) = rows s @ new \<and> list_all good new"
begin

lemma run_extends: "\<exists>new. rows (foldl step s xs) = rows s @ new \<and> list_all good new"
proof (induction xs arbitrary: s)
  case Nil
  then show ?case by simp
next
  case (Cons x xs)
  obtain a where "rows (step s x) = rows s @ a" "list_all good a" using step_extends by blast
  moreover obtain b where "rows (foldl step (step s x) xs) = rows (step s x) @ b" "list_all good b"
    using Cons by blast
  ultimately show ?case by (intro exI [of _ "a @ b"]) simp
qed

lemma run_good: "list_all good (rows s) \<Longrightarrow> list_all good (rows (foldl step s xs))"
  using run_extends [of s xs] by auto

lemma run_keeps: "r \<in> set (rows s) \<Longrightarrow> r \<in> set (rows (foldl step s xs))"
  using run_extends [of s xs] by auto

text \<open>A fold over the log continues from where it was.\<close>

lemma fold_continues:
  "foldl f a (rows (foldl step s xs)) = foldl f (foldl f a (rows s)) (drop (length (rows s)) (rows (foldl step s xs)))"
proof -
  obtain new where "rows (foldl step s xs) = rows s @ new" using run_extends by blast
  then show ?thesis by simp
qed

end

end
