(* ===== verification/Lane_Log.thy ===== *)
theory Lane_Log
  imports Lane_Writers Lane_Fold Append_Log
begin

text \<open>
  What the writers guarantee of the log: each call appends its rows or none, the table and the
  coalescing memory keep their invariant under every sequence of calls by any number of
  processes, and every row was validated before it was written.
\<close>

section \<open>Transactions\<close>

fun numbered :: "int \<Rightarrow> event list \<Rightarrow> event list" where
  "numbered seq [] = []"
| "numbered seq (r # rs) = r\<lparr>ev_Seq := seq + 1\<rparr> # numbered (seq + 1) rs"

lemma length_numbered [simp]: "length (numbered seq rs) = length rs"
  by (induction rs arbitrary: seq) auto

lemma insert_rows_Some:
  "insert_rows ok i rs (old, seq) = Some (new, seq') \<Longrightarrow>
     new = old @ numbered seq rs \<and> seq' = seq + int (length rs)"
proof (induction rs arbitrary: i old seq)
  case (Cons r rs)
  then have "insert_rows ok (i + 1) rs (old @ [r\<lparr>ev_Seq := seq + 1\<rparr>], seq + 1) = Some (new, seq')"
    by (auto simp: insert_row_def Let_def split: if_splits)
  from Cons.IH [OF this] show ?case by simp
qed simp

lemma insert_rows_distinct:
  "insert_rows ok i rs (old, seq) = Some (new, seq') \<Longrightarrow> distinct (map ev_EventID old) \<Longrightarrow>
     distinct (map ev_EventID new)"
  by (induction rs arbitrary: i old seq)
    (force simp: insert_row_def Let_def split: if_splits option.splits)+

lemma transaction_cases:
  assumes "transaction env rs st = (e, st')"
  obtains (failed) "st' = st" "e \<noteq> None" "e \<noteq> Some SecureFailed"
  | (committed) "st' = st\<lparr>st_Rows := st_Rows st @ numbered (st_LastSeq st) rs,
                         st_LastSeq := st_LastSeq st + int (length rs)\<rparr>"
      "e = None \<or> e = Some SecureFailed"
      "distinct (map ev_EventID (st_Rows st)) \<Longrightarrow> distinct (map ev_EventID (st_Rows st'))"
      "e = None \<longleftrightarrow> en_Secure env"
  using assms insert_rows_Some [of "en_Insert env" 0 rs "st_Rows st" "st_LastSeq st"]
    insert_rows_distinct [of "en_Insert env" 0 rs "st_Rows st" "st_LastSeq st"]
  by (fastforce simp: transaction_def Let_def split: if_splits option.splits)

section \<open>The coalescing memory\<close>

lemma remember_simps [store_simps]:
  "st_Rows (rememberCoalesced key at st) = st_Rows st"
  "st_LastSeq (rememberCoalesced key at st) = st_LastSeq st"
  "st_WindowMS (rememberCoalesced key at st) = st_WindowMS st"
  by (simp_all add: rememberCoalesced_def Let_def split: option.splits)

lemma remember_probes: "st_Latest (rememberCoalesced key at (st\<lparr>st_Probes := n\<rparr>)) = st_Latest (rememberCoalesced key at st)"
  by (simp add: rememberCoalesced_def Let_def split: option.splits)

lemma remember_latest:
  "map_of (st_Latest (rememberCoalesced key at st)) k = Some t \<Longrightarrow>
     (k = key \<and> t = at) \<or> map_of (st_Latest st) k = Some t"
  by (auto simp: rememberCoalesced_def Let_def update_conv' split: if_splits option.splits)

lemma coalesced_simps [store_simps]:
  assumes "coalesced env key kind lane at st = (r, st')"
  shows "st_Rows st' = st_Rows st" "st_LastSeq st' = st_LastSeq st" "st_WindowMS st' = st_WindowMS st"
  using assms by (auto simp: coalesced_def Let_def store_simps split: if_splits option.splits)

lemma newest_in:
  "newest_at_most lane kind at rows = Some t \<Longrightarrow>
     \<exists>r \<in> set rows. ev_LaneID r = lane \<and> event_type_text (ev_Type r) = event_type_text kind
        \<and> ev_AtMS r = t \<and> t \<le> at"
proof -
  let ?ts = "map ev_AtMS (filter (\<lambda>r. ev_LaneID r = lane
      \<and> event_type_text (ev_Type r) = event_type_text kind \<and> ev_AtMS r \<le> at) rows)"
  assume "newest_at_most lane kind at rows = Some t"
  then have "?ts \<noteq> []" "t = Max (set ?ts)" by (auto simp: newest_at_most_def Let_def split: if_splits)
  moreover have "Max (set ?ts) \<in> set ?ts"
    by (rule Max_in, rule finite_set, simp only: set_empty) (rule \<open>?ts \<noteq> []\<close>)
  ultimately have "t \<in> set ?ts" by (simp only:)
  then show ?thesis by auto
qed

text \<open>
  Only activity is coalesced, and the lane can be read back from an activity key.  So every
  entry of the memory stands for a row of the log.
\<close>

definition remembered :: "event list \<Rightarrow> string \<Rightarrow> int \<Rightarrow> bool" where
  "remembered rows key t \<longleftrightarrow> (\<exists>r \<in> set rows. key = coalesceKey (ev_LaneID r) EventActivity
     \<and> event_type_text (ev_Type r) = ''activity'' \<and> ev_AtMS r = t)"

definition memory_inv :: "event list \<Rightarrow> (string \<times> int) list \<Rightarrow> bool" where
  "memory_inv rows latest \<longleftrightarrow> (\<forall>key t. map_of latest key = Some t \<longrightarrow> remembered rows key t)"

lemma memory_inv_grows: "memory_inv rows latest \<Longrightarrow> set rows \<subseteq> set rows' \<Longrightarrow> memory_inv rows' latest"
  unfolding memory_inv_def remembered_def by blast

lemma memory_inv_remember:
  "memory_inv rows (st_Latest st) \<Longrightarrow> remembered rows key at \<Longrightarrow>
     memory_inv rows (st_Latest (rememberCoalesced key at st))"
  unfolding memory_inv_def using remember_latest by blast

lemma coalesced_memory:
  assumes "coalesced env (coalesceKey lane EventActivity) EventActivity lane at st = (r, st')"
    and "memory_inv (st_Rows st) (st_Latest st)"
  shows "memory_inv (st_Rows st') (st_Latest st')"
proof -
  let ?key = "coalesceKey lane EventActivity"
  have "remembered (st_Rows st) ?key t"
    if "newest_at_most lane EventActivity at (st_Rows st) = Some t" for t
    using newest_in [OF that] by (auto simp: remembered_def)
  moreover have "st_Latest st' = st_Latest st
      \<or> (\<exists>t. newest_at_most lane EventActivity at (st_Rows st) = Some t
           \<and> st_Latest st' = st_Latest (rememberCoalesced ?key t st))"
    using assms(1)
    by (cases "knownCoalesced ?key at st"; cases "newest_at_most lane EventActivity at (st_Rows st)"; cases "en_Query env")
      (auto simp: coalesced_def Let_def remember_probes)
  ultimately show ?thesis
    using coalesced_simps(1) [OF assms(1)] assms(2) memory_inv_remember by metis
qed

lemma coalesced_hit:
  assumes "coalesced env (coalesceKey lane EventActivity) EventActivity lane at st = (Inr True, st')"
    and "memory_inv (st_Rows st) (st_Latest st)"
  shows "\<exists>r \<in> set (st_Rows st). ev_LaneID r = lane \<and> event_type_text (ev_Type r) = ''activity''
    \<and> ev_AtMS r \<le> at \<and> i64 (at - ev_AtMS r) < st_WindowMS st"
proof (cases "knownCoalesced (coalesceKey lane EventActivity) at st")
  case None
  then obtain t where t: "newest_at_most lane EventActivity at (st_Rows st) = Some t" "within st at t"
    using assms(1)
    by (auto simp: coalesced_def Let_def within_def split: option.splits if_splits)
  then show ?thesis using newest_in [OF t(1)] by (auto simp: within_def)
next
  case (Some t)
  then have "remembered (st_Rows st) (coalesceKey lane EventActivity) t" "t \<le> at" "within st at t"
    using assms by (auto simp: knownCoalesced_def memory_inv_def coalesced_def split: option.splits if_splits)
  then show ?thesis by (auto simp: remembered_def coalesceKey_def within_def)
qed

section \<open>One append\<close>

definition stored_row :: "env \<Rightarrow> event_type \<Rightarrow> meta \<Rightarrow> json \<Rightarrow> int \<Rightarrow> string \<Rightarrow> event" where
  "stored_row env kind meta payload seq eventID =
     (new_row eventID (mt_LaneID meta) kind (append_time env meta) (mt_Actor meta) payload)\<lparr>ev_Seq := seq\<rparr>"

definition probe_result :: "env \<Rightarrow> event_type \<Rightarrow> meta \<Rightarrow> bool \<Rightarrow> store \<Rightarrow> (store_error + bool) \<times> store" where
  "probe_result env kind meta c st =
     (if c then coalesced env (coalesceKey (mt_LaneID meta) kind) kind (mt_LaneID meta) (append_time env meta) st
      else (Inr False, st))"

lemma probe_keeps:
  assumes "probe_result env kind meta c st = (r, st')"
  shows "st_Rows st' = st_Rows st" "st_LastSeq st' = st_LastSeq st" "st_WindowMS st' = st_WindowMS st"
  using assms by (auto simp: probe_result_def coalesced_simps split: if_splits)

text \<open>
  A call of \<open>append\<close> is one of four things: it is refused before the database is read, the probe
  fails or finds the event recorded already, the transaction fails, or one row is added.
\<close>

lemma append_cases:
  assumes "append_event env kind meta payload c st = (e, st')"
  obtains (refused) "st' = st" "e \<noteq> None" "e \<noteq> Some SecureFailed"
  | (probed) r where "probe_result env kind meta c st = (r, st')"
      "(r = Inr True \<and> e = None) \<or> (r \<noteq> Inr True \<and> e \<noteq> None \<and> e \<noteq> Some SecureFailed)"
  | (stored) eventID st1 st2 where "probe_result env kind meta c st = (Inr False, st1)"
      "mt_LaneID meta \<noteq> []" "validActor (mt_Actor meta)"
      "transaction env [new_row eventID (mt_LaneID meta) kind (append_time env meta) (mt_Actor meta) payload] st1 = (e, st2)"
      "e = None \<or> e = Some SecureFailed"
      "st' = (if c \<and> e = None then rememberCoalesced (coalesceKey (mt_LaneID meta) kind) (append_time env meta) st2 else st2)"
      "st_Rows st' = st_Rows st @ [stored_row env kind meta payload (st_LastSeq st + 1) eventID]"
      "st_LastSeq st' = st_LastSeq st + 1"
      "distinct (map ev_EventID (st_Rows st)) \<Longrightarrow> distinct (map ev_EventID (st_Rows st'))"
proof -
  let ?key = "coalesceKey (mt_LaneID meta) kind"
  consider (early) "mt_LaneID meta = [] \<or> mt_Actor meta = [] \<or> \<not> validActor (mt_Actor meta)
      \<or> (if mt_EventID meta = [] then en_NewEventID env 0 else Some (mt_EventID meta)) = None"
    | (late) eventID where "mt_LaneID meta \<noteq> []" "mt_Actor meta \<noteq> []" "validActor (mt_Actor meta)"
      "(if mt_EventID meta = [] then en_NewEventID env 0 else Some (mt_EventID meta)) = Some eventID"
    by (cases "if mt_EventID meta = [] then en_NewEventID env 0 else Some (mt_EventID meta)") auto
  then show thesis
  proof cases
    case early
    show ?thesis
      by (rule refused) (use early assms in \<open>auto simp: append_event_def Let_def split: if_splits\<close>)
  next
    case late
    obtain r st1 where p: "probe_result env kind meta c st = (r, st1)" by fastforce
    have app: "append_event env kind meta payload c st = (case r of
         Inl e \<Rightarrow> (Some e, st1)
       | Inr True \<Rightarrow> (None, st1)
       | Inr False \<Rightarrow>
          (case transaction env [new_row eventID (mt_LaneID meta) kind (append_time env meta) (mt_Actor meta) payload] st1 of
             (Some e, st2) \<Rightarrow> (Some e, st2)
           | (None, st2) \<Rightarrow> (None, if c then rememberCoalesced ?key (append_time env meta) st2 else st2)))"
      using late by (simp add: append_event_def p [unfolded probe_result_def] Let_def del: if_split)
    have ok: "r = Inl e' \<Longrightarrow> e' \<noteq> SecureFailed" for e'
      using p by (auto simp: probe_result_def coalesced_def Let_def split: if_splits option.splits)
    show ?thesis
    proof (cases "r = Inr False")
      case False
      then have "st' = st1" "(r = Inr True \<and> e = None) \<or> (r \<noteq> Inr True \<and> e \<noteq> None \<and> e \<noteq> Some SecureFailed)"
        using assms app ok by (auto split: sum.splits bool.splits)
      then show ?thesis using probed p by blast
    next
      case True
      obtain te st2 where t: "transaction env [new_row eventID (mt_LaneID meta) kind (append_time env meta) (mt_Actor meta) payload] st1 = (te, st2)"
        by fastforce
      have "e = te" "st' = (if c \<and> e = None then rememberCoalesced ?key (append_time env meta) st2 else st2)"
        using assms app True t by (auto split: option.splits)
      with t show ?thesis
      proof (cases rule: transaction_cases [OF t])
        case 1
        then have "st' = st1" "e \<noteq> None" "e \<noteq> Some SecureFailed"
          using \<open>e = te\<close>
            \<open>st' = (if c \<and> e = None then rememberCoalesced ?key (append_time env meta) st2 else st2)\<close>
          by auto
        then show ?thesis using probed [of "Inr False"] p True by simp
      next
        case 2
        show ?thesis
          by (rule stored [OF p [unfolded True] late(1,3), of eventID st2])
            (use 2 t \<open>e = te\<close> probe_keeps [OF p]
              \<open>st' = (if c \<and> e = None then rememberCoalesced ?key (append_time env meta) st2 else st2)\<close>
             in \<open>auto simp: store_simps stored_row_def\<close>)
      qed
    qed
  qed
qed

section \<open>What is written\<close>

text \<open>What the writers have checked of a payload of each kind.\<close>

definition recorded_payload :: "event_type \<Rightarrow> json \<Rightarrow> bool" where
  "recorded_payload kind payload = (case kind of
     EventCreated \<Rightarrow> (\<exists>v. payload = JObj (enc_createdPayload v)
        \<and> validateResumeIdentity (cp_Tool v) (cp_ProviderUUID v) (cp_ResumeArgv v) = None
        \<and> ValidateCreator (cp_CreatorKind v) (cp_CreatorID v) = None \<and> provenance_error v = None)
   | EventProviderBound \<Rightarrow> (\<exists>v. payload = JObj (enc_providerPayload v)
        \<and> validateResumeIdentity [] (pp_ProviderUUID v) (pp_ResumeArgv v) = None)
   | OtherEvent t \<Rightarrow> False
   | _ \<Rightarrow> (\<exists>ms. payload = JObj ms))"

definition recorded :: "event \<Rightarrow> bool" where
  "recorded e \<longleftrightarrow> ev_LaneID e \<noteq> [] \<and> validActor (ev_Actor e) \<and> ev_SchemaVersion e = 1
     \<and> (\<exists>p. ev_Payload e = Some p \<and> recorded_payload (ev_Type e) p)"

lemma checked_created_ok:
  assumes "checked_created m v = Inr (m', v')"
  shows "validateResumeIdentity (cp_Tool v') (cp_ProviderUUID v') (cp_ResumeArgv v') = None"
    "ValidateCreator (cp_CreatorKind v') (cp_CreatorID v') = None" "provenance_error v' = None"
    "cp_LaneUUID v' = mt_LaneID m'"
  using assms
  by (auto simp: checked_created_def checked_description_def default_actor_def Let_def
      split: prod.splits option.splits sum.splits if_splits)

text \<open>What a call is about: the kind of its events and the lanes it names.\<close>

fun op_kind :: "store_op \<Rightarrow> event_type" where
  "op_kind (OpCreated m v) = EventCreated"
| "op_kind (OpProviderRebound m v) = EventProviderRebound"
| "op_kind (OpUserKill m v) = EventUserKillRequested"
| "op_kind (OpLaunchStarted m) = EventLaunchStarted"
| "op_kind (OpRunnerReady m) = EventRunnerReady"
| "op_kind (OpProviderBound m v) = EventProviderBound"
| "op_kind (OpAttached m) = EventAttached"
| "op_kind (OpActivity m v) = EventActivity"
| "op_kind (OpIdle m) = EventIdle"
| "op_kind (OpRenamed m v) = EventRenamed"
| "op_kind (OpDescriptionDerived m v) = EventDescriptionDerived"
| "op_kind (OpRunnerExited m v) = EventRunnerExited"
| "op_kind (OpRunnerLost m) = EventRunnerLost"
| "op_kind (OpRunnerArtifactsRetired m) = EventRunnerArtifactsRetired"
| "op_kind (OpReaped m) = EventReaped"
| "op_kind (OpReopened m v) = EventReopened"
| "op_kind (OpDaemonRestart m) = EventDaemonRestart"
| "op_kind (OpMessageRelayed m v) = EventMessageRelayed"
| "op_kind (OpMovedTo m v) = EventMovedTo"
| "op_kind (OpMovedFrom m v) = EventMovedFrom"
| "op_kind (OpArchived ms) = EventArchived"
| "op_kind (OpWorktreeCleanRequested m v) = EventWorktreeCleanRequested"
| "op_kind (OpWorktreeCleaned m v) = EventWorktreeCleaned"
| "op_kind (OpTaskLinked m v) = EventTaskLinked"
| "op_kind (OpTaskUnlinked m v) = EventTaskUnlinked"
| "op_kind (OpPullRequestLinked m v) = EventPullRequestLinked"
| "op_kind (OpPullRequestAdded m v) = EventPullRequestAdded"
| "op_kind (OpPullRequestUnlinked m v) = EventPullRequestUnlinked"
| "op_kind (OpPullRequestObserved m v) = EventPullRequestObserved"

fun op_lanes :: "store_op \<Rightarrow> string list" where
  "op_lanes (OpCreated m v) = [if mt_LaneID m = [] then cp_LaneUUID v else mt_LaneID m]"
| "op_lanes (OpProviderRebound m v) = [mt_LaneID m]"
| "op_lanes (OpUserKill m v) = [mt_LaneID m]"
| "op_lanes (OpLaunchStarted m) = [mt_LaneID m]"
| "op_lanes (OpRunnerReady m) = [mt_LaneID m]"
| "op_lanes (OpProviderBound m v) = [mt_LaneID m]"
| "op_lanes (OpAttached m) = [mt_LaneID m]"
| "op_lanes (OpActivity m v) = [mt_LaneID m]"
| "op_lanes (OpIdle m) = [mt_LaneID m]"
| "op_lanes (OpRenamed m v) = [mt_LaneID m]"
| "op_lanes (OpDescriptionDerived m v) = [mt_LaneID m]"
| "op_lanes (OpRunnerExited m v) = [mt_LaneID m]"
| "op_lanes (OpRunnerLost m) = [mt_LaneID m]"
| "op_lanes (OpRunnerArtifactsRetired m) = [mt_LaneID m]"
| "op_lanes (OpReaped m) = [mt_LaneID m]"
| "op_lanes (OpReopened m v) = [mt_LaneID m]"
| "op_lanes (OpDaemonRestart m) = [mt_LaneID m]"
| "op_lanes (OpMessageRelayed m v) = [mt_LaneID m]"
| "op_lanes (OpMovedTo m v) = [mt_LaneID m]"
| "op_lanes (OpMovedFrom m v) = [mt_LaneID m]"
| "op_lanes (OpArchived ms) = map mt_LaneID ms"
| "op_lanes (OpWorktreeCleanRequested m v) = [mt_LaneID m]"
| "op_lanes (OpWorktreeCleaned m v) = [mt_LaneID m]"
| "op_lanes (OpTaskLinked m v) = [mt_LaneID m]"
| "op_lanes (OpTaskUnlinked m v) = [mt_LaneID m]"
| "op_lanes (OpPullRequestLinked m v) = [mt_LaneID m]"
| "op_lanes (OpPullRequestAdded m v) = [mt_LaneID m]"
| "op_lanes (OpPullRequestUnlinked m v) = [mt_LaneID m]"
| "op_lanes (OpPullRequestObserved m v) = [mt_LaneID m]"

text \<open>The three shapes the result of a call has.\<close>

definition a_write :: "env \<Rightarrow> store_op \<Rightarrow> store \<Rightarrow> store_error option \<times> store \<Rightarrow> bool" where
  "a_write env x st res \<longleftrightarrow> (\<exists>e. res = invalid e st)
     \<or> (\<exists>meta payload c. res = append_event env (op_kind x) meta payload c st
          \<and> recorded_payload (op_kind x) payload \<and> (c \<longrightarrow> op_kind x = EventActivity)
          \<and> op_lanes x = [mt_LaneID meta])
     \<or> (\<exists>vs. x = OpArchived vs \<and> res = RecordArchived env vs st)"

lemma a_write_invalid [intro!]: "a_write env x st (invalid e st)"
  by (simp add: a_write_def)

lemma a_write_append [intro!]:
  "op_kind x = kind \<Longrightarrow> recorded_payload kind payload \<Longrightarrow> (c \<Longrightarrow> kind = EventActivity) \<Longrightarrow>
     op_lanes x = [mt_LaneID meta] \<Longrightarrow> a_write env x st (append_event env kind meta payload c st)"
  unfolding a_write_def by blast

lemma a_write_cases:
  assumes "a_write env x st res"
  obtains (invalid) e where "res = invalid e st"
  | (append) meta payload c where "res = append_event env (op_kind x) meta payload c st"
      "recorded_payload (op_kind x) payload" "c \<Longrightarrow> op_kind x = EventActivity" "op_lanes x = [mt_LaneID meta]"
  | (archived) vs where "x = OpArchived vs" "res = RecordArchived env vs st"
  using assms unfolding a_write_def by blast

lemma recorded_created:
  "checked_created m v = Inr (m', v') \<Longrightarrow> recorded_payload EventCreated (JObj (enc_createdPayload v'))"
  using checked_created_ok by (fastforce simp: recorded_payload_def)

lemma default_actor_simps [simp]:
  "mt_LaneID (default_actor a m) = mt_LaneID m" "mt_AtMS (default_actor a m) = mt_AtMS m"
  "mt_EventID (default_actor a m) = mt_EventID m"
  by (simp_all add: default_actor_def)

lemma checked_created_lane:
  "checked_created m v = Inr (m', v') \<Longrightarrow> mt_LaneID m' = (if mt_LaneID m = [] then cp_LaneUUID v else mt_LaneID m)"
  by (auto simp: checked_created_def same_lane_ids_def Let_def split: option.splits sum.splits if_splits)

lemma RecordCreated_write: "a_write env (OpCreated m v) st (RecordCreated env m v st)"
  using checked_created_lane [of m v]
  by (auto simp: RecordCreated_def recorded_created split: sum.splits prod.splits)

lemma recorded_bound:
  "validateResumeIdentity [] (pp_ProviderUUID v) (pp_ResumeArgv v) = None \<Longrightarrow>
     recorded_payload EventProviderBound (JObj (enc_providerPayload v))"
  by (auto simp: recorded_payload_def)

lemma recorded_plain:
  "kind \<noteq> EventCreated \<Longrightarrow> kind \<noteq> EventProviderBound \<Longrightarrow> (\<And>t. kind \<noteq> OtherEvent t) \<Longrightarrow>
     recorded_payload kind (JObj ms)"
  by (cases kind) (auto simp: recorded_payload_def)

lemma run_op_write: "a_write env x st (run_op env x st)"
proof (cases x)
  case (OpArchived vs)
  then show ?thesis by (auto simp: a_write_def)
qed (auto simp: writer_defs observe_def RecordCreated_write recorded_plain recorded_bound Let_def
      split: option.splits)

end
