(* ===== verification/Lane_System.thy ===== *)
theory Lane_System
  imports Lane_Log
begin

text \<open>
  Several processes over one ledger: each holds a \<open>store\<close> of its own, with its own coalescing
  memory, over the shared table.  A step is one call of one process.  The theorems say what the
  log promises whatever the processes call and whatever fails.
\<close>

section \<open>Rows of one call\<close>

lemma recorded_stored:
  "mt_LaneID meta \<noteq> [] \<Longrightarrow> validActor (mt_Actor meta) \<Longrightarrow> recorded_payload kind payload \<Longrightarrow>
     recorded (stored_row env kind meta payload seq eventID)"
  by (simp add: recorded_def stored_row_def new_row_def)

lemma map_sum_Inr: "map_sum id f s = Inr y \<longleftrightarrow> (\<exists>z. s = Inr z \<and> y = f z)"
  by (cases s) auto

lemma archive_rows_lanes:
  "archive_rows env i seen vs = Inr rs \<Longrightarrow>
     map ev_LaneID rs = map mt_LaneID vs \<and> list_all (\<lambda>r. ev_Type r = EventArchived \<and> recorded r) rs
     \<and> distinct (map mt_LaneID vs) \<and> set (map mt_LaneID vs) \<inter> set seen = {}"
proof (induction vs arbitrary: i seen rs)
  case (Cons v vs)
  obtain rs' eventID at where r: "archive_rows env (i + 1) (mt_LaneID v # seen) vs = Inr rs'"
    "rs = new_row eventID (mt_LaneID v) EventArchived at (mt_Actor (default_actor ActorUser v)) (JObj []) # rs'"
    and v: "mt_LaneID v \<noteq> []" "mt_LaneID v \<notin> set seen" "validActor (mt_Actor (default_actor ActorUser v))"
    using Cons.prems
    by (cases "if mt_EventID v = [] then en_NewEventID env i else Some (mt_EventID v)")
      (auto simp: Let_def map_sum_Inr split: if_splits)
  show ?case using Cons.IH [OF r(1)] r(2) v by (auto simp: new_row_def recorded_def recorded_payload_def)
qed simp

lemma archive_rows_error: "archive_rows env i seen vs = Inl e \<Longrightarrow> e \<noteq> SecureFailed"
proof (induction vs arbitrary: i seen)
  case (Cons v vs)
  then show ?case
    by (cases "archive_rows env (Suc i) (mt_LaneID v # seen) vs";
        cases "if mt_EventID v = [] then en_NewEventID env i else Some (mt_EventID v)")
      (auto simp: Let_def split: if_splits)
qed simp

lemma numbered_map:
  "map ev_LaneID (numbered seq rs) = map ev_LaneID rs" "map ev_Type (numbered seq rs) = map ev_Type rs"
  "list_all (\<lambda>r. ev_Type r = k \<and> recorded r) (numbered seq rs) = list_all (\<lambda>r. ev_Type r = k \<and> recorded r) rs"
  by (induction rs arbitrary: seq) (auto simp: recorded_def)

text \<open>What a call adds: no row after an error other than that of \<open>secureFiles\<close>, else the rows it names.\<close>

lemma call_effect:
  assumes "run_op env x st = (e, st')"
  obtains new where "st_Rows st' = st_Rows st @ new" "list_all recorded new"
    "st_LastSeq st' = st_LastSeq st + int (length new)"
    "e \<noteq> None \<and> e \<noteq> Some SecureFailed \<longrightarrow> new = []"
    "list_all (\<lambda>r. ev_Type r = op_kind x) new"
    "e = None \<or> e = Some SecureFailed \<longrightarrow> map ev_LaneID new = op_lanes x \<or> (op_kind x = EventActivity \<and> new = [])"
    "\<exists>old. new = numbered (st_LastSeq st) old"
    "distinct (map ev_EventID (st_Rows st)) \<longrightarrow> distinct (map ev_EventID (st_Rows st'))"
proof -
  have w: "a_write env x st (e, st')" using run_op_write [of env x st] assms by simp
  then show thesis
  proof (cases rule: a_write_cases)
    case (invalid e')
    then show ?thesis using that [of "[]"] by (simp add: exI [of _ "[]"])
  next
    case (append meta payload c)
    from append(1) [symmetric] show ?thesis
    proof (cases rule: append_cases)
      case refused
      then show ?thesis using that [of "[]"] by (auto simp: exI [of _ "[]"])
    next
      case (probed r)
      have "e \<noteq> Some SecureFailed" using probed(2) by auto
      moreover have "e = None \<longrightarrow> c"
        using probed by (cases c) (auto simp: probe_result_def)
      ultimately have "e \<noteq> Some SecureFailed" "e = None \<longrightarrow> op_kind x = EventActivity"
        using append(3) by auto
      then show ?thesis
        by (intro that [of "[]"]) (simp_all add: probe_keeps [OF probed(1)] exI [of _ "[]"])
    next
      case (stored eventID st1 st2)
      let ?row = "stored_row env (op_kind x) meta payload (st_LastSeq st + 1) eventID"
      have "\<exists>old. [?row] = numbered (st_LastSeq st) old"
        by (rule exI [of _ "[new_row eventID (mt_LaneID meta) (op_kind x) (append_time env meta) (mt_Actor meta) payload]"])
          (simp add: stored_row_def)
      moreover have "ev_Type ?row = op_kind x" "ev_LaneID ?row = mt_LaneID meta"
        by (simp_all add: stored_row_def new_row_def)
      ultimately show ?thesis
        using stored append(2,4) recorded_stored by (intro that [of "[?row]"]) simp_all
    qed
  next
    case (archived vs)
    show ?thesis
    proof (cases "archive_rows env 0 [] vs")
      case (Inl e')
      moreover have "e' \<noteq> SecureFailed" using archive_rows_error [OF Inl] .
      ultimately show ?thesis using archived that [of "[]"]
        by (cases "vs = []") (auto simp: RecordArchived_def exI [of _ "[]"])
    next
      case (Inr rs)
      note lanes = archive_rows_lanes [OF Inr]
      show ?thesis
      proof (cases "vs = []")
        case True
        then show ?thesis using archived that [of "[]"] by (auto simp: RecordArchived_def exI [of _ "[]"])
      next
        case False
        then have t: "transaction env rs st = (e, st')" using archived Inr by (simp add: RecordArchived_def)
        then show ?thesis
        proof (cases rule: transaction_cases)
          case failed
          then show ?thesis using that [of "[]"] by (auto simp: exI [of _ "[]"])
        next
          case committed
          have "list_all (\<lambda>r. ev_Type r = EventArchived \<and> recorded r) (numbered (st_LastSeq st) rs)"
            using lanes by (simp add: numbered_map)
          then show ?thesis
            using committed lanes archived(1)
            by (intro that [of "numbered (st_LastSeq st) rs"])
              (auto simp: numbered_map list_all_iff)
        qed
      qed
    qed
  qed
qed

section \<open>The system\<close>

record system =
  sy_Rows :: "event list"
  sy_LastSeq :: int
  sy_Stores :: "nat \<Rightarrow> store"

text \<open>The store of process \<open>p\<close> over the shared table.\<close>

definition store_of :: "system \<Rightarrow> nat \<Rightarrow> store" where
  "store_of sy p = (sy_Stores sy p)\<lparr>st_Rows := sy_Rows sy, st_LastSeq := sy_LastSeq sy\<rparr>"

definition sys_step :: "system \<Rightarrow> nat \<times> env \<times> store_op \<Rightarrow> system" where
  "sys_step sy = (\<lambda>(p, env, x). let st' = snd (run_op env x (store_of sy p)) in
     \<lparr>sy_Rows = st_Rows st', sy_LastSeq = st_LastSeq st', sy_Stores = (sy_Stores sy)(p := st')\<rparr>)"

definition new_system :: "int \<Rightarrow> system" where
  "new_system windowMS = \<lparr>sy_Rows = [], sy_LastSeq = 0, sy_Stores = \<lambda>p. empty_store windowMS\<rparr>"

lemma sys_step_effect:
  obtains new e where "run_op env x (store_of sy p) = (e, sy_Stores (sys_step sy (p, env, x)) p)"
    "sy_Rows (sys_step sy (p, env, x)) = sy_Rows sy @ new" "list_all recorded new"
    "sy_LastSeq (sys_step sy (p, env, x)) = sy_LastSeq sy + int (length new)"
    "\<exists>old. new = numbered (sy_LastSeq sy) old"
    "distinct (map ev_EventID (sy_Rows sy)) \<longrightarrow> distinct (map ev_EventID (sy_Rows (sys_step sy (p, env, x))))"
    "\<And>q. q \<noteq> p \<Longrightarrow> sy_Stores (sys_step sy (p, env, x)) q = sy_Stores sy q"
proof -
  obtain e st' where r: "run_op env x (store_of sy p) = (e, st')" by fastforce
  have sy: "sys_step sy (p, env, x) =
      \<lparr>sy_Rows = st_Rows st', sy_LastSeq = st_LastSeq st', sy_Stores = (sy_Stores sy)(p := st')\<rparr>"
    by (simp add: sys_step_def r)
  obtain new where "st_Rows st' = sy_Rows sy @ new" "list_all recorded new"
    "st_LastSeq st' = sy_LastSeq sy + int (length new)" "\<exists>old. new = numbered (sy_LastSeq sy) old"
    "distinct (map ev_EventID (sy_Rows sy)) \<longrightarrow> distinct (map ev_EventID (st_Rows st'))"
    by (rule call_effect [OF r]) (simp add: store_of_def)
  then show thesis using r by (intro that [of e new]) (simp_all add: sy)
qed

interpretation lane_log: append_log sy_Rows sys_step recorded
proof
  fix sy and z :: "nat \<times> env \<times> store_op"
  obtain p env x where z: "z = (p, env, x)" by (cases z)
  show "\<exists>new. sy_Rows (sys_step sy z) = sy_Rows sy @ new \<and> list_all recorded new"
    unfolding z by (rule sys_step_effect [of env x sy p]) blast
qed

section \<open>The invariant\<close>

definition table_inv :: "event list \<Rightarrow> int \<Rightarrow> bool" where
  "table_inv rows seq \<longleftrightarrow> seq = int (length rows) \<and> distinct (map ev_EventID rows)
     \<and> (\<forall>i < length rows. ev_Seq (rows ! i) = int i + 1)"

definition sys_inv :: "int \<Rightarrow> system \<Rightarrow> bool" where
  "sys_inv windowMS sy \<longleftrightarrow> table_inv (sy_Rows sy) (sy_LastSeq sy) \<and> list_all recorded (sy_Rows sy)
     \<and> (\<forall>p. memory_inv (sy_Rows sy) (st_Latest (sy_Stores sy p)) \<and> st_WindowMS (sy_Stores sy p) = windowMS)"

lemma numbered_nth: "i < length rs \<Longrightarrow> ev_Seq (numbered seq rs ! i) = seq + 1 + int i"
  by (induction rs arbitrary: seq i) (auto simp: nth_Cons split: nat.splits)

lemma transaction_latest:
  "transaction env rs st = (e, st') \<Longrightarrow> st_Latest st' = st_Latest st \<and> st_WindowMS st' = st_WindowMS st"
  by (auto simp: transaction_def Let_def split: if_splits option.splits)

lemma archived_latest:
  "RecordArchived env vs st = (e, st') \<Longrightarrow> st_Latest st' = st_Latest st \<and> st_WindowMS st' = st_WindowMS st"
  by (auto simp: RecordArchived_def dest: transaction_latest split: if_splits sum.splits)

lemma call_window: "run_op env x st = (e, st') \<Longrightarrow> st_WindowMS st' = st_WindowMS st"
proof -
  assume r: "run_op env x st = (e, st')"
  have "a_write env x st (e, st')" using run_op_write [of env x st] r by simp
  then show ?thesis
  proof (cases rule: a_write_cases)
    case (append meta payload c)
    from append(1) [symmetric] show ?thesis
    proof (cases rule: append_cases)
      case (stored eventID st1 st2)
      then show ?thesis using probe_keeps(3) [OF stored(1)] transaction_latest [OF stored(4)]
        by (simp add: store_simps)
    qed (auto simp: probe_keeps)
  qed (auto dest: archived_latest [OF sym])
qed

lemma call_memory:
  assumes r: "run_op env x st = (e, st')" and m: "memory_inv (st_Rows st) (st_Latest st)"
  shows "memory_inv (st_Rows st') (st_Latest st')"
proof -
  obtain new where rows: "st_Rows st' = st_Rows st @ new" by (rule call_effect [OF r])
  have grow: "memory_inv (st_Rows st') latest" if "memory_inv (st_Rows st) latest" for latest
    using memory_inv_grows [OF that] rows by simp
  have "a_write env x st (e, st')" using run_op_write [of env x st] r by simp
  then show ?thesis
  proof (cases rule: a_write_cases)
    case (append meta payload c)
    have probed: "memory_inv (st_Rows st) (st_Latest st1)"
      if "probe_result env (op_kind x) meta c st = (r', st1)" for r' st1
      using that m append(3) coalesced_memory coalesced_simps(1)
      by (cases c) (force simp: probe_result_def)+
    from append(1) [symmetric] show ?thesis
    proof (cases rule: append_cases)
      case (stored eventID st1 st2)
      let ?row = "stored_row env (op_kind x) meta payload (st_LastSeq st + 1) eventID"
      have l: "memory_inv (st_Rows st') (st_Latest st2)"
        using grow probed [OF stored(1)] transaction_latest [OF stored(4)] by simp
      have "st_Rows st2 = st_Rows st'" using stored(6) by (simp add: store_simps split: if_splits)
      moreover have "remembered (st_Rows st') (coalesceKey (mt_LaneID meta) (op_kind x)) (append_time env meta)" if c
        using append(3) [OF that] stored(7)
        by (auto simp: remembered_def stored_row_def new_row_def)
      ultimately show ?thesis using l memory_inv_remember [of "st_Rows st'" st2]
        by (cases "c \<and> e = None") (simp_all only: stored(6) if_True if_False simp_thms)
    qed (use m grow probed in auto)
  next
    case (archived vs)
    show ?thesis using archived_latest [OF archived(2) [symmetric]] grow [OF m] by simp
  qed (use m in simp)
qed

lemma sys_step_inv:
  assumes "sys_inv w sy"
  shows "sys_inv w (sys_step sy z)"
proof -
  obtain p env x where z: "z = (p, env, x)" by (cases z)
  let ?sy = "sys_step sy z"
  obtain new e where new: "run_op env x (store_of sy p) = (e, sy_Stores ?sy p)"
    "sy_Rows ?sy = sy_Rows sy @ new" "list_all recorded new"
    "sy_LastSeq ?sy = sy_LastSeq sy + int (length new)" "\<exists>old. new = numbered (sy_LastSeq sy) old"
    "distinct (map ev_EventID (sy_Rows sy)) \<longrightarrow> distinct (map ev_EventID (sy_Rows ?sy))"
    "\<And>q. q \<noteq> p \<Longrightarrow> sy_Stores ?sy q = sy_Stores sy q"
    unfolding z by (rule sys_step_effect [of env x sy p]) blast
  have "table_inv (sy_Rows ?sy) (sy_LastSeq ?sy)"
    using assms new(2,4,5,6) by (auto simp: sys_inv_def table_inv_def nth_append numbered_nth)
  moreover have "memory_inv (sy_Rows ?sy) (st_Latest (sy_Stores ?sy q))
      \<and> st_WindowMS (sy_Stores ?sy q) = w" for q
  proof (cases "q = p")
    case True
    have "memory_inv (st_Rows (store_of sy p)) (st_Latest (store_of sy p))" "st_WindowMS (store_of sy p) = w"
      using assms by (simp_all add: sys_inv_def store_of_def)
    moreover have "st_Rows (sy_Stores ?sy p) = sy_Rows ?sy"
      by (simp add: z sys_step_def Let_def)
    ultimately show ?thesis using call_memory [OF new(1)] call_window [OF new(1)] True by simp
  next
    case False
    have "memory_inv (sy_Rows sy) (st_Latest (sy_Stores sy q))" "st_WindowMS (sy_Stores sy q) = w"
      using assms by (simp_all add: sys_inv_def)
    then show ?thesis using new(2) new(7) [OF False] memory_inv_grows by fastforce
  qed
  moreover have "list_all recorded (sy_Rows ?sy)" using assms new(2,3) by (simp add: sys_inv_def)
  ultimately show ?thesis by (simp add: sys_inv_def)
qed

lemma new_system_inv: "sys_inv w (new_system w)"
  by (simp add: sys_inv_def new_system_def table_inv_def memory_inv_def empty_store_def)

lemma reachable_inv: "sys_inv w (foldl sys_step (new_system w) steps)"
  by (rule foldl_inv) (simp_all add: new_system_inv sys_step_inv)

section \<open>Properties\<close>

text \<open>C16: a call is atomic.  A call that fails adds no row, unless what failed is only the tightening
  of file modes after the commit; a call that does not fail adds exactly the rows of the lanes it
  names, one per lane in the order given, or is an activity that was coalesced away.\<close>

theorem call_is_atomic:
  assumes "run_op env x st = (e, st')"
  shows "\<exists>new. st_Rows st' = st_Rows st @ new
    \<and> (e \<noteq> None \<and> e \<noteq> Some SecureFailed \<longrightarrow> new = [])
    \<and> (e = None \<or> e = Some SecureFailed \<longrightarrow>
         map (\<lambda>r. (ev_LaneID r, ev_Type r)) new = map (\<lambda>l. (l, op_kind x)) (op_lanes x)
         \<or> op_kind x = EventActivity \<and> new = [])"
proof -
  obtain new where n: "st_Rows st' = st_Rows st @ new" "e \<noteq> None \<and> e \<noteq> Some SecureFailed \<longrightarrow> new = []"
    "list_all (\<lambda>r. ev_Type r = op_kind x) new"
    "e = None \<or> e = Some SecureFailed \<longrightarrow> map ev_LaneID new = op_lanes x \<or> (op_kind x = EventActivity \<and> new = [])"
    by (rule call_effect [OF assms])
  have "map (\<lambda>r. (ev_LaneID r, ev_Type r)) new = map (\<lambda>l. (l, op_kind x)) (map ev_LaneID new)"
    using n(3) by (auto simp: list_all_iff)
  then show ?thesis using n(1,2,4) by metis
qed

definition calm :: env where
  "calm = \<lparr>en_Clock = \<lambda>i. 7, en_NewEventID = \<lambda>i. Some ''fresh'', en_Query = True, en_Begin = True,
     en_Insert = \<lambda>i. True, en_Commit = True, en_Secure = True\<rparr>"

definition meta_of :: "string \<Rightarrow> string \<Rightarrow> int \<Rightarrow> meta" where
  "meta_of event lane at = \<lparr>mt_EventID = event, mt_LaneID = lane, mt_AtMS = at, mt_Actor = []\<rparr>"

lemmas call_eval = RecordArchived_def RecordActivity_def transaction_def insert_row_def new_row_def
  append_event_def append_time_def default_actor_def validActor_def coalesced_def knownCoalesced_def
  newest_at_most_def within_def rememberCoalesced_def coalesceEntryLimit_def coalesceKey_def
  calm_def meta_of_def empty_store_def i64_def Let_def

theorem call_is_atomic_witness:
  "\<exists>new. st_Rows (snd (run_op (calm\<lparr>en_Insert := \<lambda>i. i = 0\<rparr>)
      (OpArchived [meta_of ''1'' ''a'' 5, meta_of ''2'' ''b'' 6]) (empty_store 1000))) = [] @ new \<and> new = []"
proof -
  have r: "run_op (calm\<lparr>en_Insert := \<lambda>i. i = 0\<rparr>)
      (OpArchived [meta_of ''1'' ''a'' 5, meta_of ''2'' ''b'' 6]) (empty_store 1000)
      = (Some InsertFailed, empty_store 1000)"
    by (simp add: call_eval)
  show ?thesis unfolding r using call_is_atomic [OF r] by (simp add: empty_store_def)
qed

text \<open>C17: whatever any number of processes call and whatever fails, the sequence numbers of the log are
  1, 2, 3 and so on without gaps, event ids are unique, every row was validated by its writer,
  every entry of a process's coalescing memory stands for a row of the log, and the rows a reader
  has seen stay, unchanged and in their place, whatever is called later.\<close>

theorem log_invariant:
  "sys_inv windowMS (foldl sys_step (new_system windowMS) steps)
   \<and> (\<exists>new. sy_Rows (foldl sys_step (new_system windowMS) (steps @ later))
        = sy_Rows (foldl sys_step (new_system windowMS) steps) @ new)"
  using reachable_inv lane_log.run_extends [of "foldl sys_step (new_system windowMS) steps" later] by auto

text \<open>C32: coalescing loses no activity.  An activity that is reported recorded without a row of its own
  falls inside the window of an activity row of the same lane that is in the log, whether the
  memory or the database answered and whatever other processes wrote.\<close>

theorem coalescing_sound:
  assumes "sy = foldl sys_step (new_system windowMS) steps"
    and "run_op env (OpActivity m v) (store_of sy p) = (None, st')" and "st_Rows st' = sy_Rows sy"
  shows "\<exists>r \<in> set (sy_Rows sy). ev_LaneID r = mt_LaneID m \<and> ev_Type r = EventActivity
    \<and> ev_AtMS r \<le> append_time env m \<and> i64 (append_time env m - ev_AtMS r) < windowMS"
proof -
  let ?st = "store_of sy p"
  have inv: "sys_inv windowMS sy" unfolding assms(1) by (rule reachable_inv)
  then have mem: "memory_inv (st_Rows ?st) (st_Latest ?st)" and w: "st_WindowMS ?st = windowMS"
    by (simp_all add: sys_inv_def store_of_def)
  obtain a where "append_event env EventActivity (default_actor a m) (JObj (enc_activityPayload v)) True ?st = (None, st')"
    using assms(2) by (auto simp: RecordActivity_def Let_def split: if_splits)
  then have "\<exists>st1. coalesced env (coalesceKey (mt_LaneID m) EventActivity) EventActivity (mt_LaneID m)
      (append_time env m) ?st = (Inr True, st1)"
  proof (cases rule: append_cases)
    case (probed r)
    then show ?thesis by (auto simp: probe_result_def append_time_def)
  next
    case (stored eventID st1 st2)
    then show ?thesis using assms(3) by (simp add: store_of_def)
  qed simp
  then obtain r where "r \<in> set (st_Rows ?st)" "ev_LaneID r = mt_LaneID m" "event_type_text (ev_Type r) = ''activity''"
    "ev_AtMS r \<le> append_time env m" "i64 (append_time env m - ev_AtMS r) < windowMS"
    using coalesced_hit [OF _ mem] w by metis
  moreover have "recorded r" using inv \<open>r \<in> set (st_Rows ?st)\<close>
    by (auto simp: sys_inv_def store_of_def list_all_iff)
  then have "ev_Type r = EventActivity" using \<open>event_type_text (ev_Type r) = ''activity''\<close>
    by (cases "ev_Type r") (auto simp: recorded_def recorded_payload_def)
  ultimately show ?thesis by (auto simp: store_of_def)
qed

definition activity_at :: "string \<Rightarrow> string \<Rightarrow> int \<Rightarrow> store_op" where
  "activity_at event lane at = OpActivity (meta_of event lane at) \<lparr>ap_Source = ActivityProviderEvent\<rparr>"

theorem coalescing_sound_witness:
  "\<exists>r \<in> set (sy_Rows (foldl sys_step (new_system 1000) [(0, calm, activity_at ''1'' ''a'' 5000)])).
     ev_LaneID r = ''a'' \<and> ev_AtMS r \<le> 5400"
proof -
  let ?sy = "foldl sys_step (new_system 1000) [(0, calm, activity_at ''1'' ''a'' 5000)]"
  obtain st' where "run_op calm (activity_at ''2'' ''a'' 5400) (store_of ?sy 0) = (None, st')" "st_Rows st' = sy_Rows ?sy"
    by (simp add: activity_at_def sys_step_def new_system_def store_of_def call_eval)
  from coalescing_sound [OF refl this [unfolded activity_at_def]] show ?thesis
    by (auto simp: append_time_def calm_def meta_of_def activity_at_def)
qed

text \<open>The memory is not always what the query would answer, even with one writer at a time: a
  process started after another stopped learns an old activity out of order, and then answers
  from it although the log holds a newer one inside the window, so an event is recorded that the
  query would have coalesced.\<close>

lemma coalescing_memory_stale:
  "let sy = foldl sys_step (new_system 1000)
        [(0, calm, activity_at ''1'' ''a'' 3000), (0, calm, activity_at ''2'' ''a'' 10000),
         (1, calm, activity_at ''3'' ''a'' 5000)];
      st = store_of sy 1
   in knownCoalesced (coalesceKey ''a'' EventActivity) 10400 st = Some 5000
      \<and> newest_at_most ''a'' EventActivity 10400 (st_Rows st) = Some 10000
      \<and> length (st_Rows (snd (run_op calm (activity_at ''4'' ''a'' 10400) st))) = 4"
  by (simp add: activity_at_def sys_step_def new_system_def store_of_def call_eval)

end
