(* ===== verification/Lane_Projection.thy ===== *)
theory Lane_Projection
  imports Lane_System
begin

text \<open>
  \<open>runtime/internal/ledger/current.go\<close> and \<open>bindings.go\<close>: the incremental projection of the log
  into lane states, and the two questions asked of it about a provider conversation.  The
  projection is private to one process and reads rows that any process may have written.
\<close>

section \<open>The projection\<close>

record projection =
  pj_Seq :: int
  pj_Lanes :: "(string \<times> lane_state) list"

definition empty_projection :: projection where
  "empty_projection = \<lparr>pj_Seq = 0, pj_Lanes = []\<rparr>"

text \<open>Where a read may fail: the query, the scan of a row, the end of the rows, the close, the context.\<close>

record read_env =
  re_Query :: bool
  re_Scan :: "nat \<Rightarrow> bool"
  re_Rows :: bool
  re_Close :: bool
  re_Context :: bool

definition HighWaterMark :: "bool \<Rightarrow> event list \<Rightarrow> int option" where
  "HighWaterMark ok rows = (if \<not> ok then None else if rows = [] then Some 0 else Some (Max (ev_Seq ` set rows)))"

text \<open>The columns the statement selects; the others keep Go's zero value.\<close>

definition projected :: "event \<Rightarrow> event" where
  "projected r = r\<lparr>ev_EventID := [], ev_Actor := [], ev_SchemaVersion := 0\<rparr>"

definition prior_state :: "(string \<times> lane_state) list \<Rightarrow> string \<Rightarrow> lane_state" where
  "prior_state lanes lane = (case map_of lanes lane of None \<Rightarrow> empty_lane lane | Some s \<Rightarrow> s)"

definition change_step ::
    "(string \<times> lane_state) list \<Rightarrow> (string \<times> lane_state) list \<Rightarrow> event \<Rightarrow> (string \<times> lane_state) list" where
  "change_step lanes = keyed_step ev_LaneID (\<lambda>e. ev_LaneID e \<noteq> []) (prior_state lanes) applyLaneEvent"

fun scan_changes ::
    "(nat \<Rightarrow> bool) \<Rightarrow> nat \<Rightarrow> (string \<times> lane_state) list \<Rightarrow> (string \<times> lane_state) list \<Rightarrow> int \<Rightarrow> event list
      \<Rightarrow> ((string \<times> lane_state) list \<times> int) option" where
  "scan_changes ok i lanes changes seq [] = Some (changes, seq)"
| "scan_changes ok i lanes changes seq (row # rest) =
     (if \<not> ok i then None
      else scan_changes ok (i + 1) lanes (change_step lanes changes (projected row)) (ev_Seq row) rest)"

definition readCurrentChanges ::
    "read_env \<Rightarrow> projection \<Rightarrow> event list \<Rightarrow> ((string \<times> lane_state) list \<times> int) option" where
  "readCurrentChanges re p rows =
     (if \<not> re_Query re then None
      else case scan_changes (re_Scan re) 0 (pj_Lanes p) [] (pj_Seq p)
                  (sort_key ev_Seq (filter (\<lambda>r. ev_Seq r > pj_Seq p) rows)) of
        None \<Rightarrow> None
      | Some changes \<Rightarrow> if re_Rows re \<and> re_Close re \<and> re_Context re then Some changes else None)"

definition publish :: "(string \<times> lane_state) list \<Rightarrow> (string \<times> lane_state) list \<Rightarrow> (string \<times> lane_state) list" where
  "publish lanes changes = foldl (\<lambda>m (k, s). AList.update k s m) lanes changes"

definition CurrentStates ::
    "read_env \<Rightarrow> projection \<Rightarrow> event list \<Rightarrow> lane_state list option \<times> projection" where
  "CurrentStates re p rows =
     (case readCurrentChanges re p rows of
        None \<Rightarrow> (None, p)
      | Some (changes, seq) \<Rightarrow>
          (let p' = \<lparr>pj_Seq = seq, pj_Lanes = publish (pj_Lanes p) changes\<rparr>
           in (Some (snapshotLaneStates (pj_Lanes p')), p')))"

section \<open>Bindings\<close>

datatype binding_error = InvalidProvider string | CurrentStatesFailed

record live_binding =
  lb_SessionID :: string
  lb_Name :: string
  lb_Kind :: string

record moved_conversation =
  mc_Machine :: string
  mc_SourceSessionID :: string

text \<open>A rebound lane is passed over once its replacement is active with the same conversation.\<close>

definition superseded :: "lane_state list \<Rightarrow> string \<Rightarrow> lane_state \<Rightarrow> bool" where
  "superseded states u s =
     (case map_of (foldl (\<lambda>m s. AList.update (ls_LaneID s) s m) [] states) (ls_ProviderReboundAs s) of
        None \<Rightarrow> False
      | Some other \<Rightarrow> ls_ManagedActive other \<and> ls_ProviderUUID other = u)"

definition select_newest ::
    "(lane_state \<Rightarrow> bool) \<Rightarrow> (lane_state \<Rightarrow> int) \<Rightarrow> lane_state list \<Rightarrow> lane_state option" where
  "select_newest eligible rank states =
     foldl (\<lambda>selected c. if \<not> eligible c then selected
        else case selected of None \<Rightarrow> Some c
          | Some s \<Rightarrow> if rank c > rank s \<or> (rank c = rank s \<and> ls_LaneID c > ls_LaneID s) then Some c else Some s)
       None states"

definition live_owner :: "lane_state list \<Rightarrow> string \<Rightarrow> lane_state option" where
  "live_owner states u = select_newest
     (\<lambda>c. ls_ProviderUUID c = u \<and> ls_ManagedActive c \<and> \<not> superseded states u c) ls_CreatedAtMS states"

definition LiveBindingFor ::
    "read_env \<Rightarrow> projection \<Rightarrow> event list \<Rightarrow> string \<Rightarrow> (binding_error + live_binding option) \<times> projection" where
  "LiveBindingFor re p rows u =
     (if \<not> IsConversationUUID u then (Inl (InvalidProvider u), p)
      else case CurrentStates re p rows of
        (None, p') \<Rightarrow> (Inl CurrentStatesFailed, p')
      | (Some states, p') \<Rightarrow>
          (Inr (map_option (\<lambda>s. \<lparr>lb_SessionID = ls_LaneID s,
                    lb_Name = (if ls_Name s = [] then ls_LaneID s else ls_Name s), lb_Kind = ls_Tool s\<rparr>)
                 (live_owner states u)), p'))"

definition moved_owner :: "lane_state list \<Rightarrow> string \<Rightarrow> lane_state option" where
  "moved_owner states u = select_newest
     (\<lambda>c. ls_ProviderUUID c = u \<and> ls_MovedToMachine c \<noteq> [] \<and> \<not> superseded states u c) ls_MovedToSeq states"

definition MovedBinding ::
    "read_env \<Rightarrow> projection \<Rightarrow> event list \<Rightarrow> string \<Rightarrow> (binding_error + moved_conversation option) \<times> projection" where
  "MovedBinding re p rows u =
     (if \<not> IsConversationUUID u then (Inl (InvalidProvider u), p)
      else case CurrentStates re p rows of
        (None, p') \<Rightarrow> (Inl CurrentStatesFailed, p')
      | (Some states, p') \<Rightarrow>
          (Inr (map_option (\<lambda>s. \<lparr>mc_Machine = ls_MovedToMachine s, mc_SourceSessionID = ls_LaneID s\<rparr>)
                 (moved_owner states u)), p'))"

section \<open>The projection is the fold\<close>

lemma projected_simps [simp]:
  "ev_Seq (projected e) = ev_Seq e" "ev_LaneID (projected e) = ev_LaneID e" "ev_Type (projected e) = ev_Type e"
  "ev_AtMS (projected e) = ev_AtMS e" "ev_Payload (projected e) = ev_Payload e"
  by (simp_all add: projected_def)

lemma handlers_projected:
  "note_event s (projected e) = note_event s e"
  "applyCreatedEvent s (projected e) = applyCreatedEvent s e"
  "applyProviderIdentityEvent s (projected e) = applyProviderIdentityEvent s e"
  "applyRunnerPresenceEvent s (projected e) = applyRunnerPresenceEvent s e"
  "applyActivityEvent s (projected e) = applyActivityEvent s e"
  "applyMetadataEvent s (projected e) = applyMetadataEvent s e"
  "applyUserKill s (projected e) = applyUserKill s e"
  "applyReopened s (projected e) = applyReopened s e"
  by (simp_all only: note_event_def applyCreatedEvent_def applyProviderIdentityEvent_def
      applyRunnerPresenceEvent_def applyActivityEvent_def applyMetadataEvent_def applyUserKill_def
      applyReopened_def projected_simps)

lemma fold_target_projected: "fold_target (projected e) = fold_target e"
proof -
  have "apply_links (projected e) = apply_links e" by (intro ext) (simp add: apply_links_def)
  then show ?thesis by (intro ext) (simp add: fold_target_def cong: if_cong)
qed

lemma links_projected:
  "observePullRequest s (projected e) = observePullRequest s e"
  "fold_linked s (projected e) = fold_linked s e"
  "fold_added s (projected e) = fold_added s e"
  "fold_unlinked s (projected e) = fold_unlinked s e"
  "foldTaskLinks s (projected e) = foldTaskLinks s e"
  by (simp_all only: observePullRequest_def fold_linked_def fold_added_def fold_unlinked_def
      foldTaskLinks_def fold_target_projected projected_simps)

lemma applyLaneEvent_projected: "applyLaneEvent s (projected e) = applyLaneEvent s e"
  by (simp only: applyLaneEvent_def applyClosureEvent_def foldPullRequest_def handlers_projected
      links_projected projected_simps)

lemma change_step_projected: "change_step lanes changes (projected r) = change_step lanes changes r"
  by (simp add: change_step_def keyed_step_def applyLaneEvent_projected cong: option.case_cong)

lemma scan_changes_result:
  "scan_changes ok i lanes changes seq rows =
     (if \<forall>j < length rows. ok (i + j)
      then Some (foldl (change_step lanes) changes rows, if rows = [] then seq else ev_Seq (last rows))
      else None)"
proof (induction rows arbitrary: i changes seq)
  case (Cons r rows)
  have "(\<forall>j < length (r # rows). ok (i + j)) \<longleftrightarrow> ok i \<and> (\<forall>j < length rows. ok (i + 1 + j))"
    by (simp add: All_less_Suc2)
  then show ?case using Cons by (simp add: change_step_projected)
qed simp

lemma map_of_publish:
  "distinct (map fst changes) \<Longrightarrow> map_of (publish lanes changes) k =
     (case map_of changes k of None \<Rightarrow> map_of lanes k | Some s \<Rightarrow> Some s)"
proof (induction changes arbitrary: lanes)
  case (Cons c cs)
  then have "map_of cs (fst c) = None" by (simp add: map_of_eq_None_iff)
  then show ?case using Cons
    by (cases c) (auto simp: publish_def update_conv' split: option.splits)
qed (simp add: publish_def)

lemma distinct_publish: "distinct (map fst lanes) \<Longrightarrow> distinct (map fst (publish lanes changes))"
  unfolding publish_def by (rule foldl_inv) (auto simp: distinct_update)

text \<open>The projection after \<open>k\<close> rows: its map has the entries of the fold of these rows.\<close>

definition projects :: "projection \<Rightarrow> event list \<Rightarrow> nat \<Rightarrow> bool" where
  "projects p rows k \<longleftrightarrow> k \<le> length rows \<and> pj_Seq p = int k \<and> distinct (map fst (pj_Lanes p))
     \<and> map_of (pj_Lanes p) = map_of (foldl fold_step [] (take k rows))"

lemma projects_empty: "projects empty_projection rows 0"
  by (simp add: projects_def empty_projection_def)

lemma projects_grows: "projects p rows k \<Longrightarrow> projects p (rows @ new) k"
  by (simp add: projects_def)

lemma table_rest:
  assumes "table_inv rows seq" and "k \<le> length rows"
  shows "sort_key ev_Seq (filter (\<lambda>r. ev_Seq r > int k) rows) = drop k rows"
proof -
  have nth: "ev_Seq (rows ! i) = int i + 1" if "i < length rows" for i
    using assms(1) that by (simp add: table_inv_def)
  have "filter (\<lambda>r. ev_Seq r > int k) (take k rows) = []"
    by (auto simp: filter_empty_conv in_set_conv_nth nth)
  moreover have "filter (\<lambda>r. ev_Seq r > int k) (drop k rows) = drop k rows"
    by (auto simp: filter_id_conv in_set_conv_nth nth)
  ultimately have "filter (\<lambda>r. ev_Seq r > int k) rows = drop k rows"
    by (metis append_take_drop_id filter_append self_append_conv2)
  moreover have "sorted (map ev_Seq (drop k rows))"
    by (auto simp: sorted_iff_nth_mono nth)
  ultimately show ?thesis by (simp add: sorted_sort_id sort_key_id_if_sorted)
qed

lemma Fold_table: "table_inv rows seq \<Longrightarrow> Fold rows = snapshotLaneStates (foldl fold_step [] rows)"
proof -
  assume "table_inv rows seq"
  then have "sorted (map event_key rows)"
    by (auto simp: sorted_iff_nth_mono table_inv_def event_key_def less_eq_event_key_def)
  then show ?thesis by (simp add: Fold_def sort_key_id_if_sorted)
qed

definition read_ok :: "read_env \<Rightarrow> bool" where
  "read_ok re \<longleftrightarrow> re_Query re \<and> (\<forall>j. re_Scan re j) \<and> re_Rows re \<and> re_Close re \<and> re_Context re"

lemma CurrentStates_step:
  assumes "table_inv rows seq" and "projects p rows k" and "CurrentStates re p rows = (res, p')"
  shows "res = None \<longrightarrow> p' = p" and "res \<noteq> None \<longrightarrow> res = Some (Fold rows) \<and> projects p' rows (length rows)"
    and "read_ok re \<longrightarrow> res \<noteq> None"
proof -
  let ?new = "drop k rows"
  let ?changes = "foldl (change_step (pj_Lanes p)) [] ?new"
  have k: "k \<le> length rows" "pj_Seq p = int k" "distinct (map fst (pj_Lanes p))"
    "map_of (pj_Lanes p) = map_of (foldl fold_step [] (take k rows))"
    using assms(2) by (simp_all add: projects_def)
  have read: "readCurrentChanges re p rows =
      (if re_Query re \<and> (\<forall>j < length ?new. re_Scan re j) \<and> re_Rows re \<and> re_Close re \<and> re_Context re
       then Some (?changes, int (length rows)) else None)"
  proof -
    have "(if ?new = [] then pj_Seq p else ev_Seq (last ?new)) = int (length rows)"
      using assms(1) k(1,2) by (auto simp: last_drop last_conv_nth table_inv_def)
    then show ?thesis
      by (auto simp: readCurrentChanges_def k(2) table_rest [OF assms(1) k(1)] scan_changes_result)
  qed
  show "res = None \<longrightarrow> p' = p" using assms(3) by (auto simp: CurrentStates_def Let_def split: option.splits)
  show "read_ok re \<longrightarrow> res \<noteq> None"
    using assms(3) read by (auto simp: CurrentStates_def Let_def read_ok_def split: if_splits)
  show "res \<noteq> None \<longrightarrow> res = Some (Fold rows) \<and> projects p' rows (length rows)"
  proof
    assume "res \<noteq> None"
    let ?lanes = "publish (pj_Lanes p) ?changes"
    have res: "res = Some (snapshotLaneStates ?lanes)" "p' = \<lparr>pj_Seq = int (length rows), pj_Lanes = ?lanes\<rparr>"
      using assms(3) \<open>res \<noteq> None\<close> read by (auto simp: CurrentStates_def Let_def split: if_splits)
    have d: "distinct (map fst ?changes)" unfolding change_step_def by (rule distinct_keyed) simp
    have "map_of ?lanes lane = map_of (foldl fold_step [] rows) lane" for lane
    proof -
      have "map_of ?lanes lane =
          key_result ev_LaneID (\<lambda>e. ev_LaneID e \<noteq> []) empty_lane applyLaneEvent (map_of (pj_Lanes p) lane) lane ?new"
        unfolding map_of_publish [OF d] unfolding change_step_def lookup_keyed
        by (subst key_result_prior) (simp add: key_result_def prior_state_def Let_def split: option.splits)
      also have "\<dots> = map_of (foldl fold_step [] rows) lane"
        unfolding k(4) fold_step_def lookup_keyed key_result_append [symmetric] by simp
      finally show ?thesis .
    qed
    then have m: "map_of ?lanes = map_of (foldl fold_step [] rows)" by blast
    have dl: "distinct (map fst ?lanes)" using k(3) by (rule distinct_publish)
    have "snapshotLaneStates ?lanes = snapshotLaneStates (foldl fold_step [] rows)"
      unfolding snapshotLaneStates_def
      by (rule sorted_values_determined [OF dl distinct_fold m]) (use m ident_fold in simp)
    then show "res = Some (Fold rows) \<and> projects p' rows (length rows)"
      using res m dl Fold_table [OF assms(1)] by (simp add: projects_def)
  qed
qed

section \<open>Selecting the owner\<close>

definition outranks :: "(lane_state \<Rightarrow> int) \<Rightarrow> lane_state \<Rightarrow> lane_state \<Rightarrow> bool" where
  "outranks rank a b \<longleftrightarrow> rank a > rank b \<or> (rank a = rank b \<and> ls_LaneID a \<ge> ls_LaneID b)"

lemma select_newest_spec:
  "case select_newest eligible rank states of
     None \<Rightarrow> \<forall>c \<in> set states. \<not> eligible c
   | Some s \<Rightarrow> s \<in> set states \<and> eligible s \<and> (\<forall>c \<in> set states. eligible c \<longrightarrow> outranks rank s c)"
proof (induction states rule: rev_induct)
  case (snoc c states)
  then show ?case
    by (auto simp: select_newest_def outranks_def split: option.splits)
qed (simp add: select_newest_def)

text \<open>What it means that an active lane was taken over: the lane it was rebound as is active and holds
  the conversation.  Ids are distinct in the fold, so the code's lookup finds exactly that lane.\<close>

definition taken_over :: "lane_state list \<Rightarrow> string \<Rightarrow> lane_state \<Rightarrow> bool" where
  "taken_over states u s \<longleftrightarrow>
     (\<exists>s' \<in> set states. ls_LaneID s' = ls_ProviderReboundAs s \<and> ls_ManagedActive s' \<and> ls_ProviderUUID s' = u)"

lemma lookup_ids:
  "s \<in> set states \<Longrightarrow> distinct (map ls_LaneID states) \<Longrightarrow>
     map_of (foldl (\<lambda>m s. AList.update (ls_LaneID s) s m) m states) (ls_LaneID s) = Some s"
proof (induction states arbitrary: m)
  case (Cons c states)
  have keep: "map_of (foldl (\<lambda>m s. AList.update (ls_LaneID s) s m) m0 cs) k = map_of m0 k"
    if "k \<notin> ls_LaneID ` set cs" for m0 cs k
    using that by (induction cs arbitrary: m0) (auto simp: update_conv')
  show ?case
  proof (cases "s = c")
    case True
    then show ?thesis using Cons.prems(2) keep [of "ls_LaneID c" states] by (simp add: update_conv')
  next
    case False
    then show ?thesis using Cons by simp
  qed
qed simp

lemma superseded_iff:
  assumes "distinct (map ls_LaneID states)"
  shows "superseded states u s \<longleftrightarrow> taken_over states u s"
proof
  show "superseded states u s \<Longrightarrow> taken_over states u s"
    by (auto simp: superseded_def taken_over_def dest!: lookup_lanes split: option.splits)
  assume "taken_over states u s"
  then obtain s' where s': "s' \<in> set states" "ls_LaneID s' = ls_ProviderReboundAs s" "ls_ManagedActive s'" "ls_ProviderUUID s' = u"
    by (auto simp: taken_over_def)
  show "superseded states u s"
    using lookup_ids [OF s'(1) assms, of "[]"] s'(2-4) by (simp add: superseded_def)
qed

section \<open>Reading while others write\<close>

datatype watch_action = Call nat env store_op | Read read_env

fun watch :: "system \<times> projection \<Rightarrow> watch_action \<Rightarrow> system \<times> projection" where
  "watch (sy, p) (Call q env x) = (sys_step sy (q, env, x), p)"
| "watch (sy, p) (Read re) = (sy, snd (CurrentStates re p (sy_Rows sy)))"

lemma watch_inv:
  "\<exists>k. sys_inv w sy \<and> projects p (sy_Rows sy) k \<Longrightarrow> (sy', p') = watch (sy, p) a \<Longrightarrow>
     \<exists>k. sys_inv w sy' \<and> projects p' (sy_Rows sy') k"
proof (induction a)
  case (Call q env x)
  then have p: "sy' = sys_step sy (q, env, x)" "p' = p" by simp_all
  obtain new where "sy_Rows sy' = sy_Rows sy @ new"
    unfolding p by (rule sys_step_effect [of env x sy q])
  then show ?case using Call(1) sys_step_inv p projects_grows by metis
next
  case (Read re)
  obtain k where k: "sys_inv w sy" "projects p (sy_Rows sy) k" using Read(1) by blast
  obtain res where c: "CurrentStates re p (sy_Rows sy) = (res, p')" "sy' = sy"
    using Read(2) by (metis prod.inject prod.collapse watch.simps(2))
  show ?case using CurrentStates_step [OF _ k(2) c(1)] k c(2) unfolding sys_inv_def by metis
qed

lemma watched:
  "\<exists>k. sys_inv w (fst (foldl watch (new_system w, empty_projection) acts))
     \<and> projects (snd (foldl watch (new_system w, empty_projection) acts))
         (sy_Rows (fst (foldl watch (new_system w, empty_projection) acts))) k"
proof -
  have "\<exists>k. sys_inv w (fst sp) \<and> projects (snd sp) (sy_Rows (fst sp)) k"
    if "sp = foldl watch (new_system w, empty_projection) acts" for sp
    unfolding that
  proof (rule foldl_inv)
    show "\<exists>k. sys_inv w (fst (new_system w, empty_projection))
        \<and> projects (snd (new_system w, empty_projection)) (sy_Rows (fst (new_system w, empty_projection))) k"
      using new_system_inv projects_empty by auto
    show "\<exists>k. sys_inv w (fst (watch sp a)) \<and> projects (snd (watch sp a)) (sy_Rows (fst (watch sp a))) k"
      if "\<exists>k. sys_inv w (fst sp) \<and> projects (snd sp) (sy_Rows (fst sp)) k" for sp a
      using watch_inv [of w "fst sp" "snd sp" "fst (watch sp a)" "snd (watch sp a)" a] that by simp
  qed
  then show ?thesis by blast
qed

lemma read_is_fold:
  assumes "(sy, p) = foldl watch (new_system windowMS, empty_projection) acts"
    and "CurrentStates re p (sy_Rows sy) = (res, p')"
  shows "(case res of Some states \<Rightarrow> states = Fold (sy_Rows sy) | None \<Rightarrow> p' = p)
    \<and> (read_ok re \<longrightarrow> res \<noteq> None)"
proof -
  obtain k where "sys_inv windowMS sy" "projects p (sy_Rows sy) k"
    using watched [of windowMS acts] unfolding assms(1) [symmetric] by auto
  then have "table_inv (sy_Rows sy) (sy_LastSeq sy)" "projects p (sy_Rows sy) k"
    by (simp_all add: sys_inv_def)
  from CurrentStates_step [OF this assms(2)] show ?thesis by (cases res) auto
qed

section \<open>Properties\<close>

text \<open>C13: the incremental projection is exact.  Whatever any process wrote and however earlier reads
  went, a read that succeeds returns the fold of the whole log as it is now; a read that fails
  leaves the projection as it was, and one fails only when the database or the context did.\<close>

theorem CurrentStates_exact:
  assumes "(sy, p) = foldl watch (new_system windowMS, empty_projection) acts"
    and "CurrentStates re p (sy_Rows sy) = (res, p')"
  shows "(case res of Some states \<Rightarrow> states = Fold (sy_Rows sy) | None \<Rightarrow> p' = p)
    \<and> (read_ok re \<longrightarrow> res \<noteq> None)"
  using assms by (rule read_is_fold)

definition all_ok :: read_env where
  "all_ok = \<lparr>re_Query = True, re_Scan = \<lambda>i. True, re_Rows = True, re_Close = True, re_Context = True\<rparr>"

definition attach_at :: "string \<Rightarrow> string \<Rightarrow> int \<Rightarrow> store_op" where
  "attach_at event lane at = OpAttached (meta_of event lane at)"

text \<open>C33: the owner of a conversation is an active lane of the log that holds it, that no active
  replacement has taken over, and that is the most recently created of all such lanes; its id, name and tool are
  reported.  No owner is reported only when every active lane of the conversation was taken over by
  another active lane of it, so a takeover that failed to launch orphans nothing.\<close>

theorem live_binding:
  assumes "(sy, p) = foldl watch (new_system windowMS, empty_projection) acts"
    and "LiveBindingFor re p (sy_Rows sy) u = (Inr r, p')"
  shows "case r of
      Some b \<Rightarrow> \<exists>s \<in> set (Fold (sy_Rows sy)). ls_ManagedActive s
        \<and> ls_ProviderUUID s = u \<and> \<not> ls_UserKillRequested s \<and> \<not> taken_over (Fold (sy_Rows sy)) u s
        \<and> (\<forall>c \<in> set (Fold (sy_Rows sy)). ls_ManagedActive c \<and> ls_ProviderUUID c = u
             \<and> \<not> taken_over (Fold (sy_Rows sy)) u c \<longrightarrow> outranks ls_CreatedAtMS s c)
        \<and> b = \<lparr>lb_SessionID = ls_LaneID s, lb_Name = (if ls_Name s = [] then ls_LaneID s else ls_Name s), lb_Kind = ls_Tool s\<rparr>
    | None \<Rightarrow> \<forall>s \<in> set (Fold (sy_Rows sy)). ls_ManagedActive s \<and> ls_ProviderUUID s = u \<longrightarrow>
        taken_over (Fold (sy_Rows sy)) u s"
proof -
  obtain states where c: "CurrentStates re p (sy_Rows sy) = (Some states, p')"
    and r: "r = map_option (\<lambda>s. \<lparr>lb_SessionID = ls_LaneID s, lb_Name = (if ls_Name s = [] then ls_LaneID s else ls_Name s),
        lb_Kind = ls_Tool s\<rparr>) (live_owner states u)"
    using assms(2) by (auto simp: LiveBindingFor_def split: if_splits prod.splits option.splits)
  have states: "states = Fold (sy_Rows sy)"
    using read_is_fold [OF assms(1) c] by simp
  have inv: "s \<in> set states \<Longrightarrow> lane_inv s" for s
    using Fold_member lane_result_inv unfolding states by auto
  have sup: "superseded states u s = taken_over states u s" for s
    using Fold_per_lane [of "sy_Rows sy"] unfolding states by (intro superseded_iff) blast
  let ?may = "\<lambda>c. ls_ProviderUUID c = u \<and> ls_ManagedActive c \<and> \<not> taken_over states u c"
  have spec: "case live_owner states u of None \<Rightarrow> \<forall>c \<in> set states. \<not> ?may c
      | Some s \<Rightarrow> s \<in> set states \<and> ?may s \<and> (\<forall>c \<in> set states. ?may c \<longrightarrow> outranks ls_CreatedAtMS s c)"
    unfolding live_owner_def sup by (rule select_newest_spec)
  show ?thesis
  proof (cases "live_owner states u")
    case None
    then show ?thesis using spec r unfolding states by auto
  next
    case (Some s)
    then have s: "s \<in> set states" "?may s" "\<forall>c \<in> set states. ?may c \<longrightarrow> outranks ls_CreatedAtMS s c"
      using spec by simp_all
    have k: "\<not> ls_UserKillRequested s" using s(2) inv [OF s(1)] by (auto simp: lane_inv_def mayBecomeManaged_def)
    have b: "r = Some \<lparr>lb_SessionID = ls_LaneID s, lb_Name = (if ls_Name s = [] then ls_LaneID s else ls_Name s), lb_Kind = ls_Tool s\<rparr>"
      using r Some by simp
    show ?thesis using s k unfolding states b option.case by (intro bexI [of _ s]) auto
  qed
qed

definition bound_then_attached :: "watch_action list" where
  "bound_then_attached =
     [Call 0 calm (OpProviderBound (meta_of ''1'' ''a'' 5)
        \<lparr>pp_ProviderUUID = sample_uuid, pp_ResumeArgv = [''claude'', ''--resume'', sample_uuid]\<rparr>),
      Read all_ok, Call 1 calm (attach_at ''2'' ''a'' 6)]"

lemma bound_then_attached_state:
  "sy_Rows (fst (foldl watch (new_system 1000, empty_projection) bound_then_attached)) =
     [(new_row ''1'' ''a'' EventProviderBound 5 ActorProvider (JObj (enc_providerPayload
         \<lparr>pp_ProviderUUID = sample_uuid, pp_ResumeArgv = [''claude'', ''--resume'', sample_uuid]\<rparr>)))\<lparr>ev_Seq := 1\<rparr>,
      (new_row ''2'' ''a'' EventAttached 6 ActorDaemon (JObj []))\<lparr>ev_Seq := 2\<rparr>]"
proof -
  have "validateResumeIdentity [] sample_uuid [''claude'', ''--resume'', sample_uuid] = None"
    using sample_uuid_ok
    by (simp add: validateResumeIdentity_None ResumeRecipeForProvider_def is_claude_def program_base_def
        base_name_def lower_def lower_char_def)
  then show ?thesis
    by (simp add: bound_then_attached_def attach_at_def sys_step_def new_system_def store_of_def
        RecordProviderBound_def RecordAttached_def observe_def call_eval)
qed

lemma bound_then_attached_fold:
  "map (\<lambda>s. (ls_LaneID s, ls_ManagedActive s, ls_Attached s, ls_LastEventAtMS s, ls_ProviderUUID s))
     (Fold (sy_Rows (fst (foldl watch (new_system 1000, empty_projection) bound_then_attached))))
   = [(''a'', True, True, 6, sample_uuid)]"
  "map_option ls_LaneID (live_owner (Fold (sy_Rows (fst (foldl watch (new_system 1000, empty_projection) bound_then_attached)))) sample_uuid)
   = Some ''a''"
  unfolding bound_then_attached_state
  by (simp_all add: Fold_def fold_step_def keyed_step_def snapshotLaneStates_def event_key_def new_row_def
        applyLaneEvent_def note_event_def handler_defs empty_lane_def json_simps uuid_valid_utf8 sample_uuid_ok
        clean_providerPayload_def live_owner_def select_newest_def superseded_def mayBecomeManaged_def)

text \<open>Two processes write, the projection is read in between: what it returns then holds the second write.\<close>

theorem CurrentStates_exact_witness:
  "map_option (map (\<lambda>s. (ls_LaneID s, ls_ManagedActive s, ls_Attached s, ls_LastEventAtMS s, ls_ProviderUUID s)))
     (case foldl watch (new_system 1000, empty_projection) bound_then_attached of
        (sy, p) \<Rightarrow> fst (CurrentStates all_ok p (sy_Rows sy)))
   = Some [(''a'', True, True, 6, sample_uuid)]"
proof -
  let ?sp = "foldl watch (new_system 1000, empty_projection) bound_then_attached"
  obtain res p' where c: "CurrentStates all_ok (snd ?sp) (sy_Rows (fst ?sp)) = (res, p')" by fastforce
  have "res = Some (Fold (sy_Rows (fst ?sp)))"
    using CurrentStates_exact [OF prod.collapse c] by (auto simp: read_ok_def all_ok_def split: option.splits)
  then show ?thesis using c bound_then_attached_fold(1) by (simp add: case_prod_beta)
qed

theorem live_binding_witness:
  "\<exists>s \<in> set (Fold (sy_Rows (fst (foldl watch (new_system 1000, empty_projection) bound_then_attached)))).
     ls_LaneID s = ''a'' \<and> ls_ManagedActive s \<and> ls_ProviderUUID s = sample_uuid \<and> \<not> ls_UserKillRequested s
     \<and> \<not> taken_over (Fold (sy_Rows (fst (foldl watch (new_system 1000, empty_projection) bound_then_attached)))) sample_uuid s"
proof -
  let ?sp = "foldl watch (new_system 1000, empty_projection) bound_then_attached"
  let ?rows = "sy_Rows (fst ?sp)"
  obtain res p' where c: "CurrentStates all_ok (snd ?sp) ?rows = (res, p')" by fastforce
  then have "res = Some (Fold ?rows)"
    using read_is_fold [OF prod.collapse c] by (auto simp: read_ok_def all_ok_def split: option.splits)
  then obtain b where "LiveBindingFor all_ok (snd ?sp) ?rows sample_uuid = (Inr (Some b), p')"
    "lb_SessionID b = ''a''"
    using c sample_uuid_ok bound_then_attached_fold(2) by (auto simp: LiveBindingFor_def)
  from live_binding [OF prod.collapse this(1)] this(2) show ?thesis by auto
qed

end
