(* ===== verification/Lane_Recovery.thy ===== *)
theory Lane_Recovery
  imports Lane_Projection
begin

text \<open>
  From the writers through the log and the fold to recovery: what was recorded at creation is what
  the fold reports, and what recovery would run is never more than a minimal resume command.
\<close>

section \<open>Resume identities in folded states\<close>

definition resume_ok :: "string \<Rightarrow> string list \<Rightarrow> bool" where
  "resume_ok u argv \<longleftrightarrow> (u = [] \<and> argv = []) \<or>
     (IsConversationUUID u \<and> (\<exists>cmd. argv = [cmd, ''--resume'', u] \<or> argv = [cmd, ''resume'', u]))"

lemma resume_ok_stored:
  assumes "validateResumeIdentity tool u argv = None"
  shows "resume_ok (valid_utf8 u) (map valid_utf8 argv)"
proof -
  have m: "valid_utf8 ''--resume'' = ''--resume''" "valid_utf8 ''resume'' = ''resume''"
    using utf8_ok_ascii by (simp_all add: utf8_ok_def ascii_def)
  show ?thesis using assms uuid_valid_utf8 [of u] unfolding validateResumeIdentity_None resume_ok_def
    by (auto simp: ResumeRecipeForProvider_def m split: if_splits)
qed

lemma only_links_resume:
  "only_links s s' \<Longrightarrow> ls_ResumeArgv s' = ls_ResumeArgv s \<and> ls_ProviderUUID s' = ls_ProviderUUID s"
  by (auto simp: only_links_def)

lemma note_resume [simp]:
  "ls_ResumeArgv (note_event s e) = ls_ResumeArgv s" "ls_ProviderUUID (note_event s e) = ls_ProviderUUID s"
  by (simp_all add: note_event_def Let_def)

lemma other_events_resume:
  assumes "ev_Type e \<noteq> EventCreated" and "ev_Type e \<noteq> EventProviderBound"
  shows "ls_ResumeArgv (applyLaneEvent s e) = ls_ResumeArgv s \<and> ls_ProviderUUID (applyLaneEvent s e) = ls_ProviderUUID s"
proof -
  have "ls_ResumeArgv (foldPullRequest t e) = ls_ResumeArgv t \<and> ls_ProviderUUID (foldPullRequest t e) = ls_ProviderUUID t"
    "ls_ResumeArgv (foldTaskLinks t e) = ls_ResumeArgv t \<and> ls_ProviderUUID (foldTaskLinks t e) = ls_ProviderUUID t" for t
    using only_links_resume foldPullRequest_only foldTaskLinks_only by blast+
  then show ?thesis using assms
    by (cases "ev_Type e") (auto simp: applyLaneEvent_def handler_defs split: option.splits)
qed

lemma applyLaneEvent_resume:
  assumes "recorded e" and "resume_ok (ls_ProviderUUID s) (ls_ResumeArgv s)"
  shows "resume_ok (ls_ProviderUUID (applyLaneEvent s e)) (ls_ResumeArgv (applyLaneEvent s e))"
proof (cases "ev_Type e = EventCreated \<or> ev_Type e = EventProviderBound")
  case False
  then show ?thesis using other_events_resume assms(2) by simp
next
  case True
  then show ?thesis
  proof
    assume t: "ev_Type e = EventCreated"
    then obtain v where "ev_Payload e = Some (JObj (enc_createdPayload v))"
      "validateResumeIdentity (cp_Tool v) (cp_ProviderUUID v) (cp_ResumeArgv v) = None"
      using assms(1) by (auto simp: recorded_def recorded_payload_def)
    then show ?thesis using t assms(2) resume_ok_stored
      by (auto simp: applyLaneEvent_def applyCreatedEvent_def json_simps clean_createdPayload_def Let_def)
  next
    assume t: "ev_Type e = EventProviderBound"
    then obtain v where "ev_Payload e = Some (JObj (enc_providerPayload v))"
      "validateResumeIdentity [] (pp_ProviderUUID v) (pp_ResumeArgv v) = None"
      using assms(1) by (auto simp: recorded_def recorded_payload_def)
    then show ?thesis using t resume_ok_stored
      by (auto simp: applyLaneEvent_def applyProviderIdentityEvent_def json_simps clean_providerPayload_def)
  qed
qed

lemma empty_lane_resume: "resume_ok (ls_ProviderUUID (empty_lane lane)) (ls_ResumeArgv (empty_lane lane))"
  by (simp add: empty_lane_def resume_ok_def)

lemma Fold_resume:
  assumes "list_all recorded es" and "s \<in> set (Fold es)"
  shows "resume_ok (ls_ProviderUUID s) (ls_ResumeArgv s)"
proof -
  obtain lane where s: "s = lane_result lane (sort_key event_key es)" using assms(2) Fold_member by blast
  show ?thesis unfolding s lane_result_def
    by (rule foldl_inv [where P = "\<lambda>s. resume_ok (ls_ProviderUUID s) (ls_ResumeArgv s)"])
      (use assms(1) applyLaneEvent_resume in \<open>auto simp: empty_lane_def resume_ok_def lane_events_def list_all_iff\<close>)
qed

section \<open>Properties\<close>

text \<open>Recovery runs nothing but resume commands.  Whatever any process recorded, every recipe of
  the recovery plan consists of a program, one of the two resume modes and the lane's recorded
  conversation id, which has the shape of one; no prompt or other argument reaches it.\<close>

lemma recovery_commands_minimal:
  assumes "r \<in> set (BuildRecoveryPlan (ClassifyAll (Fold (sy_Rows (foldl sys_step (new_system windowMS) steps))) runtime))"
  shows "rr_Args r \<in> {[''--resume'', rr_ProviderUUID r], [''resume'', rr_ProviderUUID r]}
    \<and> IsConversationUUID (rr_ProviderUUID r)"
proof -
  let ?rows = "sy_Rows (foldl sys_step (new_system windowMS) steps)"
  have good: "list_all recorded ?rows" using reachable_inv by (simp add: sys_inv_def)
  have "mset (BuildRecoveryPlan (ClassifyAll (Fold ?rows) runtime))
      = mset (List.map_filter recipe_of (ClassifyAll (Fold ?rows) runtime))"
    by (simp add: BuildRecoveryPlan_def)
  then obtain c where c: "c \<in> set (ClassifyAll (Fold ?rows) runtime)" "recipe_of c = Some r"
    using assms by (metis List_map_filter_in set_mset_mset)
  obtain s where s: "c = ClassifyLane s (runtime_of runtime (ls_LaneID s))"
    "s \<in> set (Fold ?rows) \<or> s = empty_lane (ls_LaneID s)"
    using ClassifyAll_member c(1) by blast
  have "resume_ok (ls_ProviderUUID s) (ls_ResumeArgv s)"
    using s(2) Fold_resume [OF good] by (metis (no_types) empty_lane_resume)
  moreover have "cl_Lane c = s" by (simp add: s(1) ClassifyLane_def Let_def)
  ultimately show ?thesis using c(2)
    by (auto simp: recipe_of_def resume_ok_def Let_def split: if_splits list.splits)
qed

definition created_facts :: "lane_state \<Rightarrow> createdPayload" where
  "created_facts s = \<lparr>cp_Name = ls_Name s, cp_Description = ls_Description s,
     cp_DescriptionSource = ls_DescriptionSource s, cp_Kind = ls_Kind s, cp_Tool = ls_Tool s, cp_Cwd = ls_Cwd s,
     cp_Profile = ls_Profile s, cp_ConfigDir = ls_ConfigDir s, cp_WorktreePath = ls_WorktreePath s,
     cp_Branch = ls_Branch s, cp_Base = ls_Base s, cp_SourceRepo = ls_SourceRepo s,
     cp_ResumeArgv = ls_ResumeArgv s, cp_LaneUUID = [], cp_ProviderUUID = ls_ProviderUUID s,
     cp_CreatorKind = ls_CreatorKind s, cp_CreatorID = ls_CreatorID s, cp_DelegationKind = ls_DelegationKind s,
     cp_StartOperationID = ls_StartOperationID s, cp_PromptOperationID = ls_PromptOperationID s,
     cp_RequestFingerprint = ls_RequestFingerprint s, cp_TaskLinks = []\<rparr>"

lemma created_state:
  assumes "ev_Type e = EventCreated" and "ev_Payload e = Some (JObj (enc_createdPayload v))"
  shows "created_facts (applyLaneEvent (empty_lane lane) e) = (clean_createdPayload v)\<lparr>cp_LaneUUID := [], cp_TaskLinks := []\<rparr>"
    and "ls_Created (applyLaneEvent (empty_lane lane) e)" and "ls_LaneID (applyLaneEvent (empty_lane lane) e) = lane"
    and "ls_CreatedAtMS (applyLaneEvent (empty_lane lane) e) = ev_AtMS e"
    and "ls_Tasks (applyLaneEvent (empty_lane lane) e) =
      (let links = map clean_task_link (cp_TaskLinks v)
       in if validateTaskLinks links = None then LinkTasks [] links (ev_AtMS e) else [])"
  using assms
  by (simp_all add: applyLaneEvent_def applyCreatedEvent_def note_event_def empty_lane_def json_simps
      clean_createdPayload_def created_facts_def Let_def)

text \<open>C34: creation is recorded before anything else and nothing of it is lost.  When a process records
  the creation of a lane no event names yet, and the call reports success, the fold of the log
  holds the lane with every fact of the value as the writer normalised it (its text as valid
  UTF-8), created at the time recorded, holding the tasks it was requested with.\<close>

theorem created_round_trip:
  assumes "sy = foldl sys_step (new_system windowMS) steps"
    and "run_op env (OpCreated m v) (store_of sy p) = (None, st')"
    and "\<forall>r \<in> set (sy_Rows sy). [ev_LaneID r] \<noteq> op_lanes (OpCreated m v)"
  shows "\<exists>m' v'. checked_created m v = Inr (m', v') \<and> (\<exists>s \<in> set (Fold (st_Rows st')).
      ls_LaneID s = mt_LaneID m' \<and> ls_Created s \<and> ls_CreatedAtMS s = append_time env m'
      \<and> created_facts s = (clean_createdPayload v')\<lparr>cp_LaneUUID := [], cp_TaskLinks := []\<rparr>
      \<and> ls_Tasks s = (let links = map clean_task_link (cp_TaskLinks v') in
          if validateTaskLinks links = None then LinkTasks [] links (append_time env m') else []))"
proof -
  let ?st = "store_of sy p"
  obtain m' v' where c: "checked_created m v = Inr (m', v')"
    and a: "append_event env EventCreated m' (JObj (enc_createdPayload v')) False ?st = (None, st')"
    using assms(2) by (auto simp: RecordCreated_def split: sum.splits)
  have inv: "sys_inv windowMS sy" unfolding assms(1) by (rule reachable_inv)
  have lane: "mt_LaneID m' = (if mt_LaneID m = [] then cp_LaneUUID v else mt_LaneID m)"
    by (rule checked_created_lane [OF c])
  obtain i where st': "st_Rows st' = sy_Rows sy @ [stored_row env EventCreated m' (JObj (enc_createdPayload v')) (sy_LastSeq sy + 1) i]"
    and ne: "mt_LaneID m' \<noteq> []"
    using a by (cases rule: append_cases) (auto simp: store_of_def probe_result_def)
  let ?row = "stored_row env EventCreated m' (JObj (enc_createdPayload v')) (sy_LastSeq sy + 1) i"
  have row: "ev_Type ?row = EventCreated" "ev_Payload ?row = Some (JObj (enc_createdPayload v'))"
    "ev_AtMS ?row = append_time env m'" "ev_LaneID ?row = mt_LaneID m'" "ev_Seq ?row = sy_LastSeq sy + 1"
    by (simp_all add: stored_row_def new_row_def)
  have "sorted (map event_key (sy_Rows sy @ [?row]))"
    using inv row(5) by (auto simp: sys_inv_def table_inv_def sorted_iff_nth_mono nth_append event_key_def
        less_eq_event_key_def)
  then have "sort_key event_key (st_Rows st') = st_Rows st'" by (simp add: st' sort_key_id_if_sorted)
  moreover have "lane_events (mt_LaneID m') (st_Rows st') = [?row]"
    using assms(3) lane row(4) by (auto simp: st' lane_events_def filter_empty_conv)
  ultimately have "applyLaneEvent (empty_lane (mt_LaneID m')) ?row \<in> set (Fold (st_Rows st'))"
    using ne unfolding Fold_member by (intro exI [of _ "mt_LaneID m'"]) (simp add: lane_result_def)
  then show ?thesis using c created_state [OF row(1,2)] row(3) by (metis (no_types))
qed

section \<open>A concrete run\<close>

definition sample_value :: createdPayload where
  "sample_value = zero_createdPayload\<lparr>cp_Name := ''w'', cp_Tool := ''claude-code'', cp_Cwd := ''/w'',
     cp_ResumeArgv := [''claude'', ''--resume'', sample_uuid], cp_LaneUUID := ''a'',
     cp_ProviderUUID := sample_uuid, cp_CreatorKind := CreatorSession, cp_CreatorID := sample_uuid\<rparr>"

definition sample_meta :: meta where
  "sample_meta = \<lparr>mt_EventID = ''1'', mt_LaneID = [], mt_AtMS = 5, mt_Actor = []\<rparr>"

lemma sample_checked:
  "checked_created sample_meta sample_value =
     Inr (\<lparr>mt_EventID = ''1'', mt_LaneID = ''a'', mt_AtMS = 5, mt_Actor = ActorDaemon\<rparr>, sample_value)"
proof -
  have r: "validateResumeIdentity ''claude-code'' sample_uuid [''claude'', ''--resume'', sample_uuid] = None"
    using sample_uuid_ok by (simp add: validateResumeIdentity_None ResumeRecipeForProvider_def is_claude_def)
  have "trim_space sample_uuid = sample_uuid" "sample_uuid \<noteq> []"
    unfolding sample_uuid_def by (simp_all add: text_eval)
  then have c: "ValidateCreator CreatorSession sample_uuid = None"
    using sample_uuid_ok by (simp add: ValidateCreator_def)
  show ?thesis
    using r c by (simp add: checked_created_def same_lane_ids_def sample_value_def sample_meta_def
        zero_createdPayload_def checked_description_def provenance_error_def worktree_fields_def
        validateCreatedTaskLinks_def default_actor_def)
qed

lemma sample_run:
  "run_op calm (OpCreated sample_meta sample_value) (store_of (new_system 1000) 0) =
     (None, (store_of (new_system 1000) 0)\<lparr>st_LastSeq := 1, st_Rows :=
        [(new_row ''1'' ''a'' EventCreated 5 ActorDaemon (JObj (enc_createdPayload sample_value)))\<lparr>ev_Seq := 1\<rparr>]\<rparr>)"
  by (simp add: RecordCreated_def sample_checked call_eval new_system_def store_of_def)

theorem created_round_trip_witness:
  "\<exists>m' v'. checked_created sample_meta sample_value = Inr (m', v') \<and>
     (\<exists>s. ls_LaneID s = ''a'' \<and> ls_Created s \<and> ls_CreatedAtMS s = 5 \<and>
        created_facts s = (clean_createdPayload v')\<lparr>cp_LaneUUID := [], cp_TaskLinks := []\<rparr>)"
proof -
  have "\<forall>r \<in> set (sy_Rows (new_system 1000)). [ev_LaneID r] \<noteq> op_lanes (OpCreated sample_meta sample_value)"
    by (simp add: new_system_def)
  from created_round_trip [of _ 1000 "[]", OF _ sample_run this] show ?thesis
    by (auto simp: sample_checked append_time_def)
qed

lemma recovery_commands_minimal_witness:
  "\<exists>r \<in> set (BuildRecoveryPlan (ClassifyAll (Fold (sy_Rows (foldl sys_step (new_system 1000)
      [(0, calm, OpCreated sample_meta sample_value)]))) [])).
     rr_Cmd r = ''claude'' \<and> rr_Args r = [''--resume'', sample_uuid]"
proof -
  let ?row = "(new_row ''1'' ''a'' EventCreated 5 ActorDaemon (JObj (enc_createdPayload sample_value)))\<lparr>ev_Seq := 1\<rparr>"
  let ?s = "lane_result ''a'' [?row]"
  have rows: "sy_Rows (foldl sys_step (new_system 1000) [(0, calm, OpCreated sample_meta sample_value)]) = [?row]"
    using sample_run by (simp add: sys_step_def)
  have F: "Fold [?row] = [?s]"
    by (simp add: Fold_def snapshotLaneStates_def fold_step_def keyed_step_def lane_result_def lane_events_def new_row_def)
  have s: "?s = applyLaneEvent (empty_lane ''a'') ?row"
    by (simp add: lane_result_def lane_events_def new_row_def)
  have sv: "cp_ProviderUUID sample_value = sample_uuid"
    "cp_ResumeArgv sample_value = [''claude'', ''--resume'', sample_uuid]"
    by (simp_all add: sample_value_def)
  have argv: "ls_LaneID ?s = ''a''" "ls_Created ?s" "\<not> lane_closed ?s" "ls_ProviderUUID ?s = sample_uuid"
    "ls_ResumeArgv ?s = [valid_utf8 ''claude'', valid_utf8 ''--resume'', sample_uuid]"
    unfolding s by (simp_all add: applyLaneEvent_def applyCreatedEvent_def note_event_def empty_lane_def new_row_def
        json_simps clean_createdPayload_def sv lane_closed_def uuid_valid_utf8 sample_uuid_ok Let_def)
  have u: "valid_utf8 ''claude'' = ''claude''" "valid_utf8 ''--resume'' = ''--resume''"
    using utf8_ok_ascii by (simp_all add: utf8_ok_def ascii_def)
  obtain r where r: "recipe_of (ClassifyLane ?s zero_runtime) = Some r" "rr_Cmd r = ''claude''"
    "rr_ProviderUUID r = sample_uuid" "rr_Args r = [''--resume'', sample_uuid]"
    using argv u by (simp add: recipe_of_def ClassifyLane_def Let_def zero_runtime_def)
  have "ClassifyAll (Fold [?row]) [] = [ClassifyLane ?s zero_runtime]"
    by (simp add: ClassifyAll_def F argv(1) runtime_of_def)
  then have p: "r \<in> set (BuildRecoveryPlan (ClassifyAll (Fold [?row]) []))"
    by (simp add: BuildRecoveryPlan_def sort_slice_def List.map_filter_def r(1))
  from recovery_commands_minimal [OF p [folded rows]] show ?thesis
    unfolding rows using p r(2,4) by blast
qed

end
