(* ===== verification/Codec.thy ===== *)
theory Codec
  imports Prelude
begin

text \<open>
  The contract of a self-delimiting wire format: reading what was written gives the value and the
  bytes after it, and a cut value reads as nothing.  A stream of values is then read back value by
  value whatever the packet boundaries, and a stream that breaks off loses only the cut value.
\<close>

text \<open>Reading a stream until the reader stops: the values read, and why it stopped.\<close>

locale codec =
  fixes encode :: "'v \<Rightarrow> 'b list option"
    and read :: "'b list \<Rightarrow> 'e + 'v \<times> 'b list"
    and at_end :: 'e
    and stops :: "'e set"
  assumes read_encode: "encode v = Some bs \<Longrightarrow> read (bs @ rest) = Inr (v, rest)"
    and read_Nil: "read [] = Inl at_end"
    and read_cut: "encode v = Some bs \<Longrightarrow> 0 < k \<Longrightarrow> k < length bs \<Longrightarrow> \<exists>e \<in> stops. read (take k bs) = Inl e"
    and read_shrinks: "read bs = Inr (v, rest) \<Longrightarrow> length rest < length bs"
begin

text \<open>\<open>reads bs vs e\<close>: reading \<open>bs\<close> to the end gives the values \<open>vs\<close> and stops with \<open>e\<close>.\<close>

inductive reads :: "'b list \<Rightarrow> 'v list \<Rightarrow> 'e \<Rightarrow> bool" where
  reads_stop: "read bs = Inl e \<Longrightarrow> reads bs [] e"
| reads_value: "read bs = Inr (v, rest) \<Longrightarrow> reads rest vs e \<Longrightarrow> reads bs (v # vs) e"

lemma reads_deterministic: "reads bs vs e \<Longrightarrow> reads bs vs' e' \<Longrightarrow> vs' = vs \<and> e' = e"
proof (induction arbitrary: vs' e' rule: reads.induct)
  case (reads_stop bs e)
  then show ?case by (auto elim: reads.cases)
next
  case (reads_value bs v rest vs e)
  from reads_value.prems reads_value.hyps(1) reads_value.IH show ?case
    by (cases rule: reads.cases) auto
qed

lemma reads_total: "\<exists>vs e. reads bs vs e"
proof (induction bs rule: length_induct)
  case (1 bs)
  then show ?case
    by (cases "read bs") (metis read_shrinks reads_stop reads_value surj_pair)+
qed

lemma reads_stream:
  "those (map encode vs) = Some bss \<Longrightarrow> reads rest ws e \<Longrightarrow> reads (concat bss @ rest) (vs @ ws) e"
proof (induction vs arbitrary: bss)
  case (Cons v vs)
  then obtain bs bss' where "encode v = Some bs" "those (map encode vs) = Some bss'" "bss = bs # bss'"
    by (auto split: option.splits)
  then show ?case using Cons by (auto intro: reads_value [OF read_encode])
qed simp

lemma reads_whole: "those (map encode vs) = Some bss \<Longrightarrow> reads (concat bss) vs at_end"
  using reads_stream [of vs bss "[]" "[]" at_end] read_Nil by (auto intro: reads_stop)

lemma reads_broken:
  assumes "those (map encode vs) = Some bss" and "encode v = Some bs" and "0 < k" and "k < length bs"
  shows "\<exists>e \<in> stops. reads (concat bss @ take k bs) vs e"
proof -
  obtain e where "e \<in> stops" "read (take k bs) = Inl e" using read_cut assms(2-4) by blast
  then show ?thesis using reads_stream [OF assms(1) reads_stop] by force
qed

end

end
