(* ===== verification/Frames.thy ===== *)
theory Frames
  imports Codec
begin

text \<open>
  \<open>runtime/internal/proto/proto.go\<close>: the length-prefixed frames between the daemon and a runner.
  A byte is an \<open>8 word\<close>; \<open>binary.BigEndian\<close> splits and joins a \<open>32 word\<close>.  A reader is the bytes
  that are still to come until the peer closes; a writer is a function that says how many bytes
  each call takes.
\<close>

type_synonym byte = "8 word"

section \<open>Frames\<close>

definition MaxFrameLen :: nat where "MaxFrameLen = 4 * 1024 * 1024"

definition ProtocolVersion :: int where "ProtocolVersion = 5"
definition MinimumCompatibleVersion :: int where "MinimumCompatibleVersion = 0"
definition MaximumCompatibleVersion :: int where "MaximumCompatibleVersion = ProtocolVersion"

definition IsCompatibleVersion :: "int \<Rightarrow> bool" where
  "IsCompatibleVersion version \<longleftrightarrow> version \<ge> MinimumCompatibleVersion \<and> version \<le> MaximumCompatibleVersion"

text \<open>The constants of \<open>Type\<close> and any other byte.\<close>

datatype frame_type =
    Input | Resize | SnapshotReq | ReplayReq | Kill | ModelReq | Approve | RetryReq | RetryStop | MessageReq
  | Hello | Output | Exit | SnapshotRes | ReplayDone | Structured | ModelRes | RetryState | RetryRes | MessageRes
  | UnknownFrame byte

fun type_byte :: "frame_type \<Rightarrow> byte" where
  "type_byte Input = 0x10" | "type_byte Resize = 0x11" | "type_byte SnapshotReq = 0x12"
| "type_byte ReplayReq = 0x13" | "type_byte Kill = 0x14" | "type_byte ModelReq = 0x15"
| "type_byte Approve = 0x16" | "type_byte RetryReq = 0x17" | "type_byte RetryStop = 0x18"
| "type_byte MessageReq = 0x19" | "type_byte Hello = 0x20" | "type_byte Output = 0x21"
| "type_byte Exit = 0x22" | "type_byte SnapshotRes = 0x23" | "type_byte ReplayDone = 0x24"
| "type_byte Structured = 0x25" | "type_byte ModelRes = 0x26" | "type_byte RetryState = 0x27"
| "type_byte RetryRes = 0x28" | "type_byte MessageRes = 0x29"
| "type_byte (UnknownFrame b) = b"

definition known_types :: "frame_type list" where
  "known_types = [Input, Resize, SnapshotReq, ReplayReq, Kill, ModelReq, Approve, RetryReq, RetryStop,
     MessageReq, Hello, Output, Exit, SnapshotRes, ReplayDone, Structured, ModelRes, RetryState, RetryRes,
     MessageRes]"

text \<open>The switch over a frame's type.\<close>

definition type_of :: "byte \<Rightarrow> frame_type" where
  "type_of b = (case find (\<lambda>t. type_byte t = b) known_types of Some t \<Rightarrow> t | None \<Rightarrow> UnknownFrame b)"

record frame =
  fr_Type :: byte
  fr_Payload :: "byte list"

definition put_uint32 :: "32 word \<Rightarrow> byte list" where
  "put_uint32 n = [ucast (drop_bit 24 n), ucast (drop_bit 16 n), ucast (drop_bit 8 n), ucast n]"

definition get_uint32 :: "byte list \<Rightarrow> 32 word" where
  "get_uint32 bs = foldl (\<lambda>n b. or (push_bit 8 n) (ucast b)) 0 (take 4 bs)"

definition Encode :: "byte \<Rightarrow> byte list \<Rightarrow> byte list option" where
  "Encode typ payload =
     (let frameLen = 1 + length payload in
      if frameLen > MaxFrameLen then None
      else Some (put_uint32 (word_of_nat frameLen) @ typ # payload))"

definition EncodeOutput :: "32 word \<Rightarrow> byte list \<Rightarrow> byte list option" where
  "EncodeOutput seq data = Encode (type_byte Output) (put_uint32 seq @ data)"

definition DecodeOutput :: "byte list \<Rightarrow> (32 word \<times> byte list) option" where
  "DecodeOutput payload =
     (if length payload < 4 then None else Some (get_uint32 payload, drop 4 payload))"

datatype read_error = EOF | UnexpectedEOF | BadFrameLength "32 word"

text \<open>\<open>io.ReadFull\<close>: \<open>EOF\<close> when there is nothing, \<open>UnexpectedEOF\<close> when there is not enough.\<close>

definition read_full :: "nat \<Rightarrow> byte list \<Rightarrow> read_error + byte list \<times> byte list" where
  "read_full n bs =
     (if length bs \<ge> n then Inr (take n bs, drop n bs) else if bs = [] then Inl EOF else Inl UnexpectedEOF)"

definition Read :: "byte list \<Rightarrow> read_error + frame \<times> byte list" where
  "Read bs =
     (case read_full 4 bs of
        Inl e \<Rightarrow> Inl e
      | Inr (header, rest) \<Rightarrow>
          (let n = get_uint32 header in
           if unat n < 1 \<or> unat n > MaxFrameLen then Inl (BadFrameLength n)
           else case read_full (unat n) rest of
             Inl e \<Rightarrow> Inl e
           | Inr (body, rest') \<Rightarrow> Inr (\<lparr>fr_Type = hd body, fr_Payload = tl body\<rparr>, rest')))"

text \<open>
  \<open>Write\<close>: the writer takes \<open>fst (w i)\<close> of the bytes offered at call \<open>i\<close> (a writer takes no more
  than it is offered) and fails there when \<open>snd (w i)\<close> holds.  The result is the bytes taken.
\<close>

datatype write_error = FrameTooLarge | WriterFailed | ShortWrite

function write_loop :: "(nat \<Rightarrow> nat \<times> bool) \<Rightarrow> nat \<Rightarrow> byte list \<Rightarrow> write_error option \<times> byte list" where
  "write_loop w i b =
     (if b = [] then (None, [])
      else let n = min (fst (w i)) (length b) in
        if snd (w i) then (Some WriterFailed, take n b)
        else if n = 0 then (Some ShortWrite, [])
        else (let (e, sent) = write_loop w (i + 1) (drop n b) in (e, take n b @ sent)))"
  by pat_completeness auto
termination by (relation "measure (\<lambda>(w, i, b). length b)") auto

declare write_loop.simps [simp del]

definition Write :: "(nat \<Rightarrow> nat \<times> bool) \<Rightarrow> byte \<Rightarrow> byte list \<Rightarrow> write_error option \<times> byte list" where
  "Write w typ payload =
     (case Encode typ payload of None \<Rightarrow> (Some FrameTooLarge, []) | Some b \<Rightarrow> write_loop w 0 b)"

section \<open>Lemmas\<close>

lemma length_put_uint32 [simp]: "length (put_uint32 n) = 4"
  by (simp add: put_uint32_def)

lemma get_put_uint32 [simp]: "get_uint32 (put_uint32 n @ bs) = n"
proof (rule bit_word_eqI)
  fix i assume "i < LENGTH(32)"
  then consider "i < 8" | "8 \<le> i" "i < 16" | "16 \<le> i" "i < 24" | "24 \<le> i" "i < 32" by force
  then show "bit (get_uint32 (put_uint32 n @ bs)) i = bit n i"
    by cases (auto simp: get_uint32_def put_uint32_def bit_simps)
qed

lemma frame_length_word: "1 + length payload \<le> MaxFrameLen \<Longrightarrow> unat (word_of_nat (1 + length payload) :: 32 word) = 1 + length payload"
  by (simp only: unat_of_nat) (simp add: MaxFrameLen_def)

lemma Encode_Some:
  assumes "Encode typ payload = Some bs"
  shows "bs = put_uint32 (word_of_nat (1 + length payload)) @ typ # payload" "1 + length payload \<le> MaxFrameLen"
  using assms by (auto simp: Encode_def Let_def split: if_splits)

lemma read_full_app: "length xs = n \<Longrightarrow> read_full n (xs @ ys) = Inr (xs, ys)"
  by (simp add: read_full_def)

lemma Read_Encode:
  assumes "Encode typ payload = Some bs"
  shows "Read (bs @ rest) = Inr (\<lparr>fr_Type = typ, fr_Payload = payload\<rparr>, rest)"
proof -
  let ?h = "put_uint32 (word_of_nat (1 + length payload))"
  have "bs @ rest = ?h @ ((typ # payload) @ rest)" using Encode_Some [OF assms] by simp
  moreover have "get_uint32 ?h = word_of_nat (1 + length payload)" using get_put_uint32 [of _ "[]"] by simp
  moreover have "read_full (1 + length payload) ((typ # payload) @ rest) = Inr (typ # payload, rest)"
    by (rule read_full_app) simp
  ultimately show ?thesis
    using Encode_Some(2) [OF assms] frame_length_word [of payload]
    by (simp only: Read_def read_full_app [OF length_put_uint32]) (simp add: Let_def)
qed

lemma Read_cut:
  assumes "Encode typ payload = Some bs" and "0 < k" and "k < length bs"
  shows "Read (take k bs) = Inl (if k = 4 then EOF else UnexpectedEOF)"
proof -
  let ?h = "put_uint32 (word_of_nat (1 + length payload))"
  have bs: "bs = ?h @ (typ # payload)" and m: "1 + length payload \<le> MaxFrameLen"
    using Encode_Some [OF assms(1)] by simp_all
  show ?thesis
  proof (cases "k < 4")
    case True
    then show ?thesis using assms(2,3) by (auto simp: Read_def read_full_def)
  next
    case False
    have g: "get_uint32 ?h = word_of_nat (1 + length payload)" using get_put_uint32 [of _ "[]"] by simp
    have "take k bs = ?h @ take (k - 4) (typ # payload)" using False bs by simp
    then have "Read (take k bs) = (case read_full (1 + length payload) (take (k - 4) (typ # payload)) of
        Inl e \<Rightarrow> Inl e | Inr (body, rest') \<Rightarrow> Inr (\<lparr>fr_Type = hd body, fr_Payload = tl body\<rparr>, rest'))"
      using m frame_length_word [of payload] g
      by (simp only: Read_def read_full_app [OF length_put_uint32]) (simp add: Let_def)
    then show ?thesis using False assms(3) bs by (auto simp: read_full_def)
  qed
qed

lemma Read_shrinks: "Read bs = Inr (f, rest) \<Longrightarrow> length rest < length bs"
  by (auto simp: Read_def read_full_def Let_def split: if_splits)

definition encode_frame :: "frame \<Rightarrow> byte list option" where
  "encode_frame f = Encode (fr_Type f) (fr_Payload f)"

interpretation frames: codec encode_frame Read EOF "{EOF, UnexpectedEOF}"
proof
  show "Read (bs @ rest) = Inr (f, rest)" if "encode_frame f = Some bs" for f bs rest
    using Read_Encode that by (simp add: encode_frame_def)
  show "Read [] = Inl EOF" by (simp add: Read_def read_full_def)
  show "\<exists>e \<in> {EOF, UnexpectedEOF}. Read (take k bs) = Inl e"
    if "encode_frame f = Some bs" "0 < k" "k < length bs" for f bs k
    using Read_cut that by (auto simp: encode_frame_def)
  show "length rest < length bs" if "Read bs = Inr (v, rest)" for bs v rest
    using Read_shrinks that .
qed

lemma write_loop_step:
  assumes "b \<noteq> []" and "\<not> snd (w i)" and "fst (w i) \<noteq> 0"
  shows "write_loop w i b =
    (let n = min (fst (w i)) (length b); r = write_loop w (i + 1) (drop n b) in (fst r, take n b @ snd r))"
proof -
  have "(min (fst (w i)) (length b) = 0) = False" using assms by (auto simp: min_def)
  then show ?thesis using assms(1,2)
    by (subst write_loop.simps) (simp only: Let_def case_prod_beta if_False simp_thms)
qed

lemma write_loop_sent:
  "\<exists>k. snd (write_loop w i b) = take k b \<and> (fst (write_loop w i b) = None \<longrightarrow> k = length b)"
proof (induction w i b rule: write_loop.induct)
  case (1 w i b)
  let ?n = "min (fst (w i)) (length b)"
  show ?case
  proof (cases "b = [] \<or> snd (w i) \<or> ?n = 0")
    case True
    then consider "b = []" | "b \<noteq> []" "snd (w i)" | "b \<noteq> []" "\<not> snd (w i)" "fst (w i) = 0"
      by (cases b) (auto simp: min_def split: if_splits)
    then show ?thesis
      by cases (subst (1 2) write_loop.simps, auto simp: Let_def intro: exI [of _ ?n] exI [of _ 0])+
  next
    case False
    then obtain k where k: "snd (write_loop w (i + 1) (drop ?n b)) = take k (drop ?n b)"
      "fst (write_loop w (i + 1) (drop ?n b)) = None \<longrightarrow> k = length (drop ?n b)"
      using 1 by auto
    have "write_loop w i b = (fst (write_loop w (i + 1) (drop ?n b)), take ?n b @ take k (drop ?n b))"
      using False k(1) by (subst write_loop_step) (auto simp: Let_def)
    then show ?thesis using k(2) by (intro exI [of _ "?n + k"]) (auto simp: take_add)
  qed
qed

section \<open>Properties\<close>

text \<open>C30: frames survive the stream.  Whatever frames are encoded one after the other, reading the bytes
  gives exactly these frames and then the end; if the peer breaks off inside one more frame, the
  reader has still got all the whole frames and nothing of the cut one.\<close>

theorem frame_stream_round_trip:
  assumes "those (map encode_frame fs) = Some bss"
  shows "frames.reads (concat bss) fs EOF
    \<and> (\<forall>f bs k. encode_frame f = Some bs \<and> 0 < k \<and> k < length bs \<longrightarrow>
         (\<exists>e \<in> {EOF, UnexpectedEOF}. frames.reads (concat bss @ take k bs) fs e))
    \<and> (\<forall>fs' e. frames.reads (concat bss) fs' e \<longrightarrow> fs' = fs)"
  using frames.reads_whole [OF assms] frames.reads_broken [OF assms] frames.reads_deterministic by blast

theorem frame_stream_round_trip_witness:
  "frames.reads [0, 0, 0, 1, 0x14, 0, 0, 0, 3, 0x10, 104, 105]
     [\<lparr>fr_Type = type_byte Kill, fr_Payload = []\<rparr>, \<lparr>fr_Type = type_byte Input, fr_Payload = [104, 105]\<rparr>] EOF"
proof -
  have "those (map encode_frame [\<lparr>fr_Type = type_byte Kill, fr_Payload = []\<rparr>,
      \<lparr>fr_Type = type_byte Input, fr_Payload = [104, 105]\<rparr>])
     = Some [[0, 0, 0, 1, 0x14], [0, 0, 0, 3, 0x10, 104, 105]]"
    by (simp add: encode_frame_def Encode_def MaxFrameLen_def put_uint32_def drop_bit_eq_div)
  from frame_stream_round_trip [OF this] show ?thesis by simp
qed

text \<open>The limits.  A frame is refused exactly when its type and payload exceed 4 MiB; a length word
  of 0 or beyond the limit is refused before any body is read; an OUTPUT payload decodes to the
  sequence number and bytes it was made from.\<close>

lemma frame_limits:
  "(Encode typ payload = None \<longleftrightarrow> length payload \<ge> 4194304)
   \<and> (length h = 4 \<and> (get_uint32 h = 0 \<or> unat (get_uint32 h) > 4194304) \<longrightarrow>
        Read (h @ rest) = Inl (BadFrameLength (get_uint32 h)))
   \<and> DecodeOutput (put_uint32 seq @ data) = Some (seq, data)"
proof (intro conjI impI)
  show "Encode typ payload = None \<longleftrightarrow> length payload \<ge> 4194304"
    by (auto simp: Encode_def MaxFrameLen_def Let_def)
  show "DecodeOutput (put_uint32 seq @ data) = Some (seq, data)"
    by (simp add: DecodeOutput_def)
  assume "length h = 4 \<and> (get_uint32 h = 0 \<or> unat (get_uint32 h) > 4194304)"
  then show "Read (h @ rest) = Inl (BadFrameLength (get_uint32 h))"
    by (auto simp: Read_def read_full_app MaxFrameLen_def Let_def)
qed

lemma frame_limits_witness:
  "Read ([0x00, 0x40, 0x00, 0x01] @ [7, 7]) = Inl (BadFrameLength 0x400001)"
proof -
  have "get_uint32 [0x00, 0x40, 0x00, 0x01] = 0x400001" by (simp add: get_uint32_def)
  then show ?thesis using frame_limits [where h = "[0x00, 0x40, 0x00, 0x01]" and rest = "[7, 7]"] by simp
qed

lemma write_loop_succeeds:
  "(\<And>j. 0 < fst (w j) \<and> \<not> snd (w j)) \<Longrightarrow> fst (write_loop w i b) = None"
proof (induction w i b rule: write_loop.induct)
  case (1 w i b)
  show ?case
  proof (cases "b = []")
    case False
    let ?n = "min (fst (w i)) (length b)"
    have "?n \<noteq> 0" "\<not> snd (w i)" using 1(2) [of i] False by auto
    then show ?thesis using 1 False by (subst write_loop_step) (auto simp: Let_def)
  qed (subst write_loop.simps, simp)
qed

text \<open>A write that reports success has handed over the whole frame, in order, however the writer
  splits it; one that fails has handed over a prefix of it; and it succeeds with every writer
  that takes at least one byte at each call.\<close>

lemma Write_complete:
  "case Encode typ payload of
     None \<Rightarrow> Write w typ payload = (Some FrameTooLarge, [])
   | Some b \<Rightarrow> (\<exists>k. snd (Write w typ payload) = take k b)
       \<and> (fst (Write w typ payload) = None \<longrightarrow> snd (Write w typ payload) = b)
       \<and> ((\<forall>i. 0 < fst (w i) \<and> \<not> snd (w i)) \<longrightarrow> fst (Write w typ payload) = None)"
proof (cases "Encode typ payload")
  case (Some b)
  obtain k where "snd (write_loop w 0 b) = take k b" "fst (write_loop w 0 b) = None \<longrightarrow> k = length b"
    using write_loop_sent by blast
  then show ?thesis using Some write_loop_succeeds [of w 0 b] by (auto simp: Write_def)
qed (simp add: Write_def)

lemma Write_complete_witness:
  "Write (\<lambda>_. (2, False)) (type_byte Input) [104, 105, 106] = (None, [0, 0, 0, 4, 0x10, 104, 105, 106])"
proof -
  have "Encode (type_byte Input) [104, 105, 106] = Some [0, 0, 0, 4, 0x10, 104, 105, 106]"
    by (simp add: Encode_def MaxFrameLen_def put_uint32_def drop_bit_eq_div)
  then show ?thesis
    using Write_complete [of "\<lambda>_. (2, False)" "type_byte Input" "[104, 105, 106]"]
    by (simp add: prod_eq_iff)
qed

end
