(* ===== verification/Event_Streams.thy ===== *)
theory Event_Streams
  imports Prelude "HOL-Library.Sublist"
begin

text \<open>
  The subscriber channels that \<open>proto.SocketRunner\<close> and \<open>state.Session\<close> both keep: buffered Go
  channels of 512 events, an ordinary broadcast that skips a full channel, and a terminal broadcast
  that drops the oldest event of a full channel to make room, then closes every channel.  A closed
  channel can still be drained.  A subscription is identified by its position.  The last three
  fields of a stream are history: what the consumer has received, what was broadcast while the
  stream was open, and whether the consumer cancelled.

  The locale \<open>feed\<close> is what the two have in common, \<open>prompt_feed\<close> what only the first one keeps.
\<close>

section \<open>Reachable states\<close>

inductive reached :: "('s \<Rightarrow> 's \<Rightarrow> bool) \<Rightarrow> ('s \<Rightarrow> bool) \<Rightarrow> 's \<Rightarrow> bool" for step init where
  reached_init: "init s \<Longrightarrow> reached step init s"
| reached_step: "reached step init s \<Longrightarrow> step s t \<Longrightarrow> reached step init t"

text \<open>An invariant may use one that was proved before.\<close>

lemma reached_invariant:
  assumes "reached step init s"
    and "\<And>s. init s \<Longrightarrow> P s"
    and "\<And>s t. reached step init s \<Longrightarrow> P s \<Longrightarrow> step s t \<Longrightarrow> P t"
  shows "P s"
  using assms by (induction rule: reached.induct) blast+

lemma reached_rtranclp: "reached step init s \<Longrightarrow> step\<^sup>*\<^sup>* s t \<Longrightarrow> reached step init t"
  by (rotate_tac, induction rule: rtranclp_induct) (auto intro: reached_step)

section \<open>One stream\<close>

record 'e stream =
  st_Buffer :: "'e list"
  st_Open :: bool
  st_Got :: "'e list"
  st_Offered :: "'e list"
  st_Cancelled :: bool

definition stream_capacity :: nat where "stream_capacity = 512"

definition new_stream :: "'e stream" where
  "new_stream = \<lparr>st_Buffer = [], st_Open = True, st_Got = [], st_Offered = [], st_Cancelled = False\<rparr>"

text \<open>What a subscriber finds that comes after the end.\<close>

definition ended_stream :: "'e \<Rightarrow> 'e stream" where
  "ended_stream e = \<lparr>st_Buffer = [e], st_Open = False, st_Got = [], st_Offered = [e], st_Cancelled = False\<rparr>"

definition receive :: "'e stream \<Rightarrow> 'e stream" where
  "receive st = (case st_Buffer st of [] \<Rightarrow> st
     | e # es \<Rightarrow> st\<lparr>st_Buffer := es, st_Got := st_Got st @ [e]\<rparr>)"

text \<open>A send that does not block: \<open>select\<close> with a default.\<close>

definition offer :: "'e \<Rightarrow> 'e stream \<Rightarrow> 'e stream" where
  "offer e st = st\<lparr>st_Buffer := (if length (st_Buffer st) < stream_capacity then st_Buffer st @ [e] else st_Buffer st),
     st_Offered := st_Offered st @ [e]\<rparr>"

text \<open>
  The terminal send.  Between the failed send and the drain the consumer may take any number \<open>n\<close>
  of events.
\<close>

definition offer_last :: "nat \<Rightarrow> 'e \<Rightarrow> 'e stream \<Rightarrow> 'e stream" where
  "offer_last n e st =
     (if length (st_Buffer st) < stream_capacity
      then st\<lparr>st_Buffer := st_Buffer st @ [e], st_Offered := st_Offered st @ [e]\<rparr>
      else let st1 = (receive ^^ n) st
           in st1\<lparr>st_Buffer := drop 1 (st_Buffer st1) @ [e], st_Offered := st_Offered st1 @ [e]\<rparr>)"

definition shut :: "'e stream \<Rightarrow> 'e stream" where
  "shut st = st\<lparr>st_Open := False\<rparr>"

section \<open>All streams\<close>

definition broadcast :: "'e \<Rightarrow> 'e stream list \<Rightarrow> 'e stream list" where
  "broadcast e ss = map (\<lambda>st. if st_Open st then offer e st else st) ss"

definition broadcast_last :: "(nat \<Rightarrow> nat) \<Rightarrow> 'e \<Rightarrow> 'e stream list \<Rightarrow> 'e stream list" where
  "broadcast_last ns e ss =
     map (\<lambda>(i, st). if st_Open st then shut (offer_last (ns i) e st) else st) (enumerate 0 ss)"

definition cancel :: "nat \<Rightarrow> 'e stream list \<Rightarrow> 'e stream list" where
  "cancel i ss = (if i < length ss \<and> st_Open (ss ! i)
     then ss[i := (ss ! i)\<lparr>st_Open := False, st_Cancelled := True\<rparr>] else ss)"

definition consume :: "nat \<Rightarrow> 'e stream list \<Rightarrow> 'e stream list" where
  "consume i ss = (if i < length ss then ss[i := receive (ss ! i)] else ss)"

definition seen :: "'e stream \<Rightarrow> 'e list" where
  "seen st = st_Got st @ st_Buffer st"

section \<open>Lemmas on one stream\<close>

lemma receive_frame [simp]:
  "st_Open (receive st) = st_Open st" "st_Offered (receive st) = st_Offered st"
  "st_Cancelled (receive st) = st_Cancelled st" "seen (receive st) = seen st"
  by (simp_all add: receive_def seen_def split: list.splits)

lemma receive_length: "length (st_Buffer (receive st)) \<le> length (st_Buffer st)"
  by (simp add: receive_def split: list.splits)

lemma receives_frame [simp]:
  "st_Open ((receive ^^ n) st) = st_Open st" "st_Offered ((receive ^^ n) st) = st_Offered st"
  "st_Cancelled ((receive ^^ n) st) = st_Cancelled st" "seen ((receive ^^ n) st) = seen st"
  by (induction n) simp_all

lemma receives_length: "length (st_Buffer ((receive ^^ n) st)) \<le> length (st_Buffer st)"
  by (induction n) (auto intro: order_trans [OF receive_length])

lemma shut_frame [simp]:
  "\<not> st_Open (shut st)" "st_Offered (shut st) = st_Offered st" "st_Cancelled (shut st) = st_Cancelled st"
  "st_Buffer (shut st) = st_Buffer st" "seen (shut st) = seen st"
  by (simp_all add: shut_def seen_def)

lemma offer_frame [simp]:
  "st_Open (offer e st) = st_Open st" "st_Cancelled (offer e st) = st_Cancelled st"
  "st_Offered (offer e st) = st_Offered st @ [e]" "st_Got (offer e st) = st_Got st"
  by (simp_all add: offer_def)

lemma offer_last_frame [simp]:
  "st_Cancelled (offer_last n e st) = st_Cancelled st" "st_Offered (offer_last n e st) = st_Offered st @ [e]"
  by (simp_all add: offer_last_def Let_def)

lemma offer_seen: "seen (offer e st) = seen st \<or> seen (offer e st) = seen st @ [e]"
  by (simp add: offer_def seen_def)

lemma subseq_drop: "subseq (drop n xs) xs"
  by (metis append_take_drop_id list_emb_append2 subseq_order.refl)

lemma subseq_drop_buffer: "subseq (st_Got st @ drop n (st_Buffer st)) (seen st)"
  unfolding seen_def by (rule list_emb_append_mono) (simp_all add: subseq_drop)

text \<open>A terminal send keeps a subsequence of what was seen, appends the event, and fits the channel.\<close>

lemma offer_last_seen:
  assumes "length (st_Buffer st) \<le> stream_capacity"
  shows "\<exists>pre. seen (offer_last n e st) = pre @ [e] \<and> subseq pre (seen st)
     \<and> length (st_Buffer (offer_last n e st)) \<le> stream_capacity
     \<and> (length (st_Buffer st) < stream_capacity \<longrightarrow> pre = seen st)"
proof (cases "length (st_Buffer st) < stream_capacity")
  case True
  then show ?thesis by (simp add: offer_last_def seen_def)
next
  case False
  let ?st = "(receive ^^ n) st"
  have len: "length (drop 1 (st_Buffer ?st)) < stream_capacity"
    using receives_length [of n st] assms by (auto simp: stream_capacity_def)
  have "seen (offer_last n e st) = (st_Got ?st @ drop 1 (st_Buffer ?st)) @ [e]"
    using False by (simp add: offer_last_def Let_def seen_def)
  moreover have "subseq (st_Got ?st @ drop 1 (st_Buffer ?st)) (seen st)"
    using subseq_drop_buffer [of ?st 1] by (simp only: receives_frame)
  moreover have "length (st_Buffer (offer_last n e st)) \<le> stream_capacity"
    using False len by (simp add: offer_last_def Let_def)
  ultimately show ?thesis using False by blast
qed

section \<open>The contract\<close>

text \<open>
  What the consumer of a stream can rely on when the feed has ended with \<open>tm\<close> (or has not): the
  channel is within its capacity; what it sees is a subsequence of what was broadcast, and all of
  it while no more than 512 events were; an open stream has seen no terminal event; a stream that
  was closed, not cancelled, has seen exactly one, the one the feed ended with, as the last event.
\<close>

definition stream_ok :: "('e \<Rightarrow> bool) \<Rightarrow> 'e option \<Rightarrow> 'e stream \<Rightarrow> bool" where
  "stream_ok final tm st \<longleftrightarrow>
     length (st_Buffer st) \<le> stream_capacity \<and> (st_Open st \<longrightarrow> \<not> st_Cancelled st)
     \<and> subseq (seen st) (st_Offered st)
     \<and> (length (st_Offered st) \<le> stream_capacity \<longrightarrow> seen st = st_Offered st)
     \<and> (if st_Open st \<or> st_Cancelled st then list_all (\<lambda>e. \<not> final e) (seen st)
        else \<exists>pre e. tm = Some e \<and> final e \<and> seen st = pre @ [e] \<and> list_all (\<lambda>e. \<not> final e) pre)"

lemma stream_ok_new [simp]: "stream_ok final tm new_stream"
  by (simp add: stream_ok_def new_stream_def seen_def)

lemma stream_ok_ended: "final e \<Longrightarrow> stream_ok final (Some e) (ended_stream e)"
  by (simp add: stream_ok_def ended_stream_def seen_def stream_capacity_def)

lemma stream_ok_receive: "stream_ok final tm st \<Longrightarrow> stream_ok final tm (receive st)"
  using receive_length [of st] by (auto simp: stream_ok_def)

lemma stream_ok_cancel: "stream_ok final tm st \<Longrightarrow> st_Open st \<Longrightarrow> stream_ok final tm (st\<lparr>st_Open := False, st_Cancelled := True\<rparr>)"
  by (auto simp: stream_ok_def seen_def)

lemma buffer_room: "stream_ok final tm st \<Longrightarrow> length (st_Offered st) < stream_capacity \<Longrightarrow> length (st_Buffer st) < stream_capacity"
proof -
  assume "stream_ok final tm st" and "length (st_Offered st) < stream_capacity"
  then have "length (seen st) < stream_capacity" by (simp add: stream_ok_def)
  then show ?thesis by (simp add: seen_def)
qed

lemma stream_ok_offer:
  assumes "stream_ok final tm st" and "st_Open st" and "\<not> final e"
  shows "stream_ok final tm (offer e st)"
proof -
  have "subseq (seen st) (st_Offered st @ [e])" "subseq (seen st @ [e]) (st_Offered st @ [e])"
    using assms(1) by (auto simp: stream_ok_def)
  then show ?thesis
    using assms buffer_room [OF assms(1)] unfolding stream_ok_def by (auto simp: offer_def seen_def)
qed

lemma stream_ok_last:
  assumes "stream_ok final None st" and "st_Open st" and "final e"
  shows "stream_ok final (Some e) (shut (offer_last n e st))"
proof -
  have le: "length (st_Buffer st) \<le> stream_capacity" and none: "list_all (\<lambda>e. \<not> final e) (seen st)"
    and sub: "subseq (seen st) (st_Offered st)" and live: "\<not> st_Cancelled st"
    and all: "length (st_Offered st) \<le> stream_capacity \<longrightarrow> seen st = st_Offered st"
    using assms(1,2) by (auto simp: stream_ok_def)
  obtain pre where pre: "seen (offer_last n e st) = pre @ [e]" "subseq pre (seen st)"
    "length (st_Buffer (offer_last n e st)) \<le> stream_capacity"
    "length (st_Buffer st) < stream_capacity \<longrightarrow> pre = seen st"
    using offer_last_seen [OF le] by blast
  have "list_all (\<lambda>e. \<not> final e) pre"
    using none pre(2) by (auto simp: list_all_iff dest: list_emb_set)
  moreover have "subseq (pre @ [e]) (st_Offered st @ [e])"
    using pre(2) sub by (auto intro: subseq_order.trans)
  moreover have "pre = st_Offered st" if "Suc (length (st_Offered st)) \<le> stream_capacity"
    using that pre(4) all buffer_room [OF assms(1)] by simp
  ultimately show ?thesis using assms(3) pre(1,3) live unfolding stream_ok_def by auto
qed

section \<open>The feed\<close>

text \<open>What one atomic step may do to the terminal event and the streams.\<close>

inductive feed_move :: "('e \<Rightarrow> bool) \<Rightarrow> 'e option \<times> 'e stream list \<Rightarrow> 'e option \<times> 'e stream list \<Rightarrow> bool" for final where
  move_stay: "feed_move final x x"
| move_subscribe: "feed_move final (tm, ss) (tm, ss @ [new_stream])"
| move_subscribe_ended: "final e \<Longrightarrow> feed_move final (Some e, ss) (Some e, ss @ [ended_stream e])"
| move_broadcast: "\<not> final e \<Longrightarrow> feed_move final (tm, ss) (tm, broadcast e ss)"
| move_last: "final e \<Longrightarrow> feed_move final (None, ss) (Some e, broadcast_last ns e ss)"
| move_cancel: "feed_move final (tm, ss) (tm, cancel i ss)"
| move_consume: "feed_move final (tm, ss) (tm, consume i ss)"

lemma set_broadcast_last:
  "st \<in> set (broadcast_last ns e ss) \<Longrightarrow> \<exists>st0 \<in> set ss. \<exists>n. st = (if st_Open st0 then shut (offer_last n e st0) else st0)"
  by (fastforce simp: broadcast_last_def in_set_enumerate_eq)

lemma set_update: "x \<in> set (xs[i := y]) \<Longrightarrow> i < length xs \<Longrightarrow> x = y \<or> x \<in> set xs"
  by (metis insertE set_update_subset_insert subsetD)

lemma move_ok:
  assumes "feed_move final (tm, ss) (tm', ss')"
    and "\<forall>st \<in> set ss. stream_ok final tm st" and "\<forall>e. tm = Some e \<longrightarrow> final e"
  shows "(\<forall>st \<in> set ss'. stream_ok final tm' st) \<and> (\<forall>e. tm' = Some e \<longrightarrow> final e)
     \<and> (tm \<noteq> None \<longrightarrow> tm' = tm)"
  using assms(1)
proof (cases rule: feed_move.cases)
  case (move_last e ns)
  have "stream_ok final (Some e) st" if "st \<in> set ss'" for st
  proof -
    have "st \<in> set (broadcast_last ns e ss)" using that move_last(3) by simp
    from set_broadcast_last [OF this] obtain st0 n
      where st0: "st0 \<in> set ss" "st = (if st_Open st0 then shut (offer_last n e st0) else st0)" by blast
    have ok: "stream_ok final None st0" using assms(2) st0(1) move_last(1) by simp
    show ?thesis
    proof (cases "st_Open st0")
      case True
      then show ?thesis using stream_ok_last [OF ok True move_last(4)] st0(2) by simp
    next
      case False
      then show ?thesis using ok st0(2) by (auto simp: stream_ok_def)
    qed
  qed
  then show ?thesis using move_last by simp
next
  case (move_broadcast e)
  then show ?thesis using assms(2,3) by (auto simp: broadcast_def intro: stream_ok_offer)
next
  case (move_cancel i)
  then show ?thesis using assms(2,3) by (auto simp: cancel_def dest!: set_update intro: stream_ok_cancel)
next
  case (move_consume i)
  then show ?thesis using assms(2,3) by (auto simp: consume_def dest!: set_update intro: stream_ok_receive)
qed (use assms(2,3) in \<open>auto simp: stream_ok_ended\<close>)

locale feed =
  fixes step :: "'s \<Rightarrow> 's \<Rightarrow> bool"
    and init :: "'s \<Rightarrow> bool"
    and final :: "'e \<Rightarrow> bool"
    and terminal :: "'s \<Rightarrow> 'e option"
    and streams :: "'s \<Rightarrow> 'e stream list"
  assumes begins: "init s \<Longrightarrow> terminal s = None \<and> streams s = []"
    and moves: "reached step init s \<Longrightarrow> step s t \<Longrightarrow> feed_move final (terminal s, streams s) (terminal t, streams t)"
begin

lemma contract:
  "reached step init s \<Longrightarrow> (\<forall>st \<in> set (streams s). stream_ok final (terminal s) st) \<and> (\<forall>e. terminal s = Some e \<longrightarrow> final e)"
proof (induction rule: reached.induct)
  case (reached_init s)
  then show ?case using begins by simp
next
  case (reached_step s t)
  then show ?case using move_ok [OF moves [OF reached_step(1,2)]] by blast
qed

lemma subscriber_contract: "reached step init s \<Longrightarrow> st \<in> set (streams s) \<Longrightarrow> stream_ok final (terminal s) st"
  using contract by blast

lemma end_is_final: "reached step init s \<Longrightarrow> terminal s = Some e \<Longrightarrow> step\<^sup>*\<^sup>* s t \<Longrightarrow> terminal t = Some e"
proof (rotate_tac 2, induction rule: rtranclp_induct)
  case (step y z)
  then have "reached step init y" by (blast intro: reached_rtranclp)
  then show ?case using move_ok [OF moves [OF _ step(2)]] contract step by fastforce
qed simp

end

text \<open>A feed whose late subscribers are told of the end.\<close>

locale prompt_feed = feed +
  assumes prompt: "reached step init s \<Longrightarrow> step s t \<Longrightarrow> terminal s \<noteq> None \<Longrightarrow> streams t \<noteq> streams s @ [new_stream]"
begin

lemma no_stream_left_open:
  "reached step init s \<Longrightarrow> terminal s \<noteq> None \<Longrightarrow> st \<in> set (streams s) \<Longrightarrow> \<not> st_Open st"
proof (induction arbitrary: st rule: reached.induct)
  case (reached_init s)
  then show ?case using begins by simp
next
  case (reached_step s t)
  from moves [OF reached_step(1,2)] show ?case
  proof (cases rule: feed_move.cases)
    case (move_last e ns)
    then show ?thesis using reached_step.prems by (auto dest!: set_broadcast_last split: if_splits)
  next
    case move_subscribe
    then show ?thesis using prompt [OF reached_step(1,2)] reached_step.prems by simp
  next
    case (move_broadcast e)
    then show ?thesis using reached_step by (auto simp: broadcast_def)
  next
    case (move_cancel i)
    then show ?thesis using reached_step by (auto simp: cancel_def dest!: set_update split: if_splits)
  next
    case (move_consume i)
    then show ?thesis using reached_step by (auto simp: consume_def dest!: set_update split: if_splits)
  qed (use reached_step in \<open>auto simp: ended_stream_def\<close>)
qed

lemma everyone_hears_the_end:
  assumes "reached step init s" and "terminal s = Some e" and "st \<in> set (streams s)" and "\<not> st_Cancelled st"
  shows "\<not> st_Open st \<and> (\<exists>pre. seen st = pre @ [e] \<and> list_all (\<lambda>e. \<not> final e) pre)"
  using no_stream_left_open [OF assms(1) _ assms(3)] subscriber_contract [OF assms(1,3)] assms(2,4)
  by (auto simp: stream_ok_def)

end

end
