(* ===== verification/Runner_Messages.thy ===== *)
theory Runner_Messages
  imports Json Frames Event_Streams "HOL-Library.Monad_Syntax"
begin

text \<open>
  The values that travel between a runner and the daemon: \<open>runtime/internal/proto/runner.go\<close>,
  \<open>control.go\<close> and the structs of \<open>message.go\<close>, with the JSON decoding each side does.  A JSON text
  is a payload of bytes; \<open>parse\<close>, an argument of the operations that decode one, gives the value the
  bytes hold, \<open>None\<close> when they are not one JSON value.
\<close>

section \<open>Numbers of the wire\<close>

fun dec_u32 :: "32 word decoder" where
  "dec_u32 x JNull = Some x"
| "dec_u32 x (JInt n) = (if 0 \<le> n \<and> n < 2 ^ 32 then Some (word_of_int n) else None)"
| "dec_u32 x _ = None"

definition ju32 :: "32 word \<Rightarrow> json" where
  "ju32 w = JInt (uint w)"

lemma dec_u32_ju32 [json_simps]: "dec_u32 x (ju32 w) = Some w"
  using uint_lt2p [of w] by (simp add: ju32_def)

section \<open>What the runner reports\<close>

record turn_state =
  tn_Working :: bool

record provider_retry =
  rt_Attempt :: int
  rt_Max :: int
  rt_NextAt :: int
  rt_Kind :: string

record runner_info =
  ri_ID :: string
  ri_Cmd :: string
  ri_Args :: "string list"
  ri_Cwd :: string
  ri_Cols :: int
  ri_Rows :: int
  ri_CreatedAt :: int
  ri_PID :: int
  ri_SocketPath :: string
  ri_CurrentSeq :: "32 word"
  ri_ProtocolVersion :: int
  ri_RuntimeVersion :: string
  ri_ConversationID :: string
  ri_RemoteEndpoint :: string
  ri_ClaudeSessionID :: string
  ri_Retry :: "provider_retry option"
  ri_Turn :: "turn_state option"
  ri_MessageSubmit :: bool

record output_msg =
  ou_Seq :: "32 word"
  ou_Data :: "byte list"
  ou_At :: int

record exit_event =
  xe_Code :: "int option"
  xe_Signal :: "string option"
  xe_Seq :: "32 word"
  xe_Reason :: string

record replay_window =
  rw_Events :: "output_msg list"
  rw_Structured :: "byte list list"
  rw_Gap :: bool
  rw_Oldest :: "32 word"
  rw_Current :: "32 word"

text \<open>One event of a subscription; a provider event carries its bytes, its index and its time.\<close>

datatype runner_event =
    EventOutput output_msg
  | EventExit exit_event
  | EventClaude "byte list" int int
  | EventCodex "byte list" int int
  | EventRunnerLost exit_event
  | EventRetry "provider_retry option"

fun ends_feed :: "runner_event \<Rightarrow> bool" where
  "ends_feed (EventExit x) = True"
| "ends_feed (EventRunnerLost x) = True"
| "ends_feed _ = False"

definition zero_turn :: turn_state where "zero_turn = \<lparr>tn_Working = False\<rparr>"

definition zero_retry :: provider_retry where
  "zero_retry = \<lparr>rt_Attempt = 0, rt_Max = 0, rt_NextAt = 0, rt_Kind = []\<rparr>"

definition zero_exit :: exit_event where
  "zero_exit = \<lparr>xe_Code = None, xe_Signal = None, xe_Seq = 0, xe_Reason = []\<rparr>"

definition zero_info :: runner_info where
  "zero_info = \<lparr>ri_ID = [], ri_Cmd = [], ri_Args = [], ri_Cwd = [], ri_Cols = 0, ri_Rows = 0, ri_CreatedAt = 0,
     ri_PID = 0, ri_SocketPath = [], ri_CurrentSeq = 0, ri_ProtocolVersion = 0, ri_RuntimeVersion = [],
     ri_ConversationID = [], ri_RemoteEndpoint = [], ri_ClaudeSessionID = [], ri_Retry = None, ri_Turn = None,
     ri_MessageSubmit = False\<rparr>"

definition dec_turn :: "turn_state \<Rightarrow> members \<Rightarrow> turn_state option" where
  "dec_turn p ms = do {
     x0 \<leftarrow> field dec_bool ''working'' (tn_Working p) ms;
     Some \<lparr>tn_Working = x0\<rparr> }"

definition dec_retry :: "provider_retry \<Rightarrow> members \<Rightarrow> provider_retry option" where
  "dec_retry p ms = do {
     x0 \<leftarrow> field dec_int ''attempt'' (rt_Attempt p) ms;
     x1 \<leftarrow> field dec_int ''max'' (rt_Max p) ms;
     x2 \<leftarrow> field dec_int ''nextAt'' (rt_NextAt p) ms;
     x3 \<leftarrow> field dec_str ''kind'' (rt_Kind p) ms;
     Some \<lparr>rt_Attempt = x0, rt_Max = x1, rt_NextAt = x2, rt_Kind = x3\<rparr> }"

text \<open>\<open>ProviderRetryState\<close> has the one field \<open>retry\<close>.\<close>

definition dec_retry_state :: "provider_retry option \<Rightarrow> members \<Rightarrow> provider_retry option option" where
  "dec_retry_state p ms = field (dec_ptr zero_retry (dec_struct dec_retry)) ''retry'' p ms"

definition dec_exit :: "exit_event \<Rightarrow> members \<Rightarrow> exit_event option" where
  "dec_exit p ms = do {
     x0 \<leftarrow> field (dec_ptr 0 dec_int) ''code'' (xe_Code p) ms;
     x1 \<leftarrow> field (dec_ptr [] dec_str) ''signal'' (xe_Signal p) ms;
     x2 \<leftarrow> field dec_u32 ''seq'' (xe_Seq p) ms;
     x3 \<leftarrow> field dec_str ''reason'' (xe_Reason p) ms;
     Some \<lparr>xe_Code = x0, xe_Signal = x1, xe_Seq = x2, xe_Reason = x3\<rparr> }"

definition dec_info :: "runner_info \<Rightarrow> members \<Rightarrow> runner_info option" where
  "dec_info p ms = do {
     a0 \<leftarrow> field dec_str ''id'' (ri_ID p) ms;
     a1 \<leftarrow> field dec_str ''cmd'' (ri_Cmd p) ms;
     a2 \<leftarrow> field (dec_list [] dec_str) ''args'' (ri_Args p) ms;
     a3 \<leftarrow> field dec_str ''cwd'' (ri_Cwd p) ms;
     a4 \<leftarrow> field dec_int ''cols'' (ri_Cols p) ms;
     a5 \<leftarrow> field dec_int ''rows'' (ri_Rows p) ms;
     a6 \<leftarrow> field dec_int ''createdAt'' (ri_CreatedAt p) ms;
     a7 \<leftarrow> field dec_int ''pid'' (ri_PID p) ms;
     a8 \<leftarrow> field dec_str ''sockPath'' (ri_SocketPath p) ms;
     a9 \<leftarrow> field dec_u32 ''currentSeq'' (ri_CurrentSeq p) ms;
     b0 \<leftarrow> field dec_int ''protocolVersion'' (ri_ProtocolVersion p) ms;
     b1 \<leftarrow> field dec_str ''runtimeVersion'' (ri_RuntimeVersion p) ms;
     b2 \<leftarrow> field dec_str ''conversationId'' (ri_ConversationID p) ms;
     b3 \<leftarrow> field dec_str ''remoteEndpoint'' (ri_RemoteEndpoint p) ms;
     b4 \<leftarrow> field dec_str ''claudeSessionId'' (ri_ClaudeSessionID p) ms;
     b5 \<leftarrow> field (dec_ptr zero_retry (dec_struct dec_retry)) ''retry'' (ri_Retry p) ms;
     b6 \<leftarrow> field (dec_ptr zero_turn (dec_struct dec_turn)) ''turn'' (ri_Turn p) ms;
     b7 \<leftarrow> field dec_bool ''messageSubmit'' (ri_MessageSubmit p) ms;
     Some \<lparr>ri_ID = a0, ri_Cmd = a1, ri_Args = a2, ri_Cwd = a3, ri_Cols = a4, ri_Rows = a5, ri_CreatedAt = a6,
       ri_PID = a7, ri_SocketPath = a8, ri_CurrentSeq = a9, ri_ProtocolVersion = b0, ri_RuntimeVersion = b1,
       ri_ConversationID = b2, ri_RemoteEndpoint = b3, ri_ClaudeSessionID = b4, ri_Retry = b5, ri_Turn = b6,
       ri_MessageSubmit = b7\<rparr> }"

section \<open>Controls\<close>

record model_control =
  mc_Model :: string
  mc_Effort :: string

record approval_control =
  ac_ID :: string
  ac_Decision :: string
  ac_By :: string

record message_control =
  mg_OperationID :: string
  mg_Text :: string
  mg_Mode :: string

record message_result =
  mr_OperationID :: string
  mr_Accepted :: bool
  mr_Boundary :: string
  mr_Error :: string

definition EncodeModelControl :: "model_control \<Rightarrow> json" where
  "EncodeModelControl c = JObj (opt_str ''model'' (mc_Model c) @ opt_str ''effort'' (mc_Effort c))"

text \<open>\<open>DisallowUnknownFields\<close>: an object with a member that matches no field is refused.\<close>

definition only_fields :: "string list \<Rightarrow> json \<Rightarrow> bool" where
  "only_fields names v = (case v of
     JObj ms \<Rightarrow> list_all (\<lambda>m. list_ex (\<lambda>n. key_match n (fst m)) names) ms | _ \<Rightarrow> True)"

definition dec_model_control :: "model_control \<Rightarrow> members \<Rightarrow> model_control option" where
  "dec_model_control p ms = do {
     x0 \<leftarrow> field dec_str ''model'' (mc_Model p) ms;
     x1 \<leftarrow> field dec_str ''effort'' (mc_Effort p) ms;
     Some \<lparr>mc_Model = x0, mc_Effort = x1\<rparr> }"

definition DecodeModelControl :: "json option \<Rightarrow> model_control option" where
  "DecodeModelControl text = (case text of None \<Rightarrow> None
     | Some v \<Rightarrow> if \<not> only_fields [''model'', ''effort''] v then None
         else dec_struct dec_model_control \<lparr>mc_Model = [], mc_Effort = []\<rparr> v)"

definition ValidApprovalDecision :: "string \<Rightarrow> bool" where
  "ValidApprovalDecision v \<longleftrightarrow> v = ''allow'' \<or> v = ''allow-session'' \<or> v = ''deny''"

definition EncodeApprovalControl :: "approval_control \<Rightarrow> json option" where
  "EncodeApprovalControl c =
     (if ac_ID c = [] then None else if \<not> ValidApprovalDecision (ac_Decision c) then None
      else Some (JObj ([(''id'', jstr (ac_ID c)), (''decision'', jstr (ac_Decision c))] @ opt_str ''by'' (ac_By c))))"

definition dec_approval :: "approval_control \<Rightarrow> members \<Rightarrow> approval_control option" where
  "dec_approval p ms = do {
     x0 \<leftarrow> field dec_str ''id'' (ac_ID p) ms;
     x1 \<leftarrow> field dec_str ''decision'' (ac_Decision p) ms;
     x2 \<leftarrow> field dec_str ''by'' (ac_By p) ms;
     Some \<lparr>ac_ID = x0, ac_Decision = x1, ac_By = x2\<rparr> }"

definition DecodeApprovalControl :: "json option \<Rightarrow> approval_control option" where
  "DecodeApprovalControl text = (case text of None \<Rightarrow> None
     | Some v \<Rightarrow> if \<not> only_fields [''id'', ''decision'', ''by''] v then None
         else (case dec_struct dec_approval \<lparr>ac_ID = [], ac_Decision = [], ac_By = []\<rparr> v of None \<Rightarrow> None
               | Some c \<Rightarrow> if ac_ID c = [] \<or> \<not> ValidApprovalDecision (ac_Decision c) then None else Some c))"

text \<open>\<open>ModelControlResult\<close> and \<open>RetryControlResult\<close> have the one field \<open>error\<close>.\<close>

definition dec_control_result :: "string \<Rightarrow> members \<Rightarrow> string option" where
  "dec_control_result p ms = field dec_str ''error'' p ms"

definition enc_message :: "message_control \<Rightarrow> json" where
  "enc_message c = JObj ([(''operation_id'', jstr (mg_OperationID c)), (''text'', jstr (mg_Text c))] @ opt_str ''mode'' (mg_Mode c))"

definition dec_message_result :: "message_result \<Rightarrow> members \<Rightarrow> message_result option" where
  "dec_message_result p ms = do {
     x0 \<leftarrow> field dec_str ''operation_id'' (mr_OperationID p) ms;
     x1 \<leftarrow> field dec_bool ''accepted'' (mr_Accepted p) ms;
     x2 \<leftarrow> field dec_str ''boundary'' (mr_Boundary p) ms;
     x3 \<leftarrow> field dec_str ''error'' (mr_Error p) ms;
     Some \<lparr>mr_OperationID = x0, mr_Accepted = x1, mr_Boundary = x2, mr_Error = x3\<rparr> }"

definition zero_message_result :: message_result where
  "zero_message_result = \<lparr>mr_OperationID = [], mr_Accepted = False, mr_Boundary = [], mr_Error = []\<rparr>"

datatype message_error = BadOperationID | EmptyText | BadMode

definition ValidateMessage :: "message_control \<Rightarrow> message_error option" where
  "ValidateMessage c =
     (if mg_OperationID c = [] \<or> length (mg_OperationID c) > 128 then Some BadOperationID
      else if trim_space (mg_Text c) = [] then Some EmptyText
      else if mg_Mode c \<noteq> [] \<and> mg_Mode c \<noteq> ''auto'' \<and> mg_Mode c \<noteq> ''steer'' then Some BadMode
      else None)"

end
