(* ===== verification/Event_Log.thy ===== *)
theory Event_Log
  imports Frames
begin

text \<open>
  The runner's output history: \<open>runtime/internal/state/eventlog.go\<close>, the bounded replay ring in
  memory, and \<open>persistent.go\<close>, the \<open>.events\<close> file it is restored from.  Sequence numbers are
  \<open>uint32\<close> and wrap as in the code.  A file is its bytes; what the file system does in one call
  (how many bytes a failing write leaves, which step of a trim fails) is an argument.
\<close>

section \<open>The replay ring\<close>

definition DefaultEventCap :: int where "DefaultEventCap = 4 * 1024 * 1024"

type_synonym output_event = "32 word \<times> byte list"

record event_log =
  el_Events :: "output_event list"
  el_Bytes :: int
  el_NextSeq :: "32 word"
  el_Cap :: int

record replay =
  rp_Events :: "output_event list"
  rp_Gap :: bool
  rp_Oldest :: "32 word"
  rp_Current :: "32 word"

definition NewEventLog :: "int \<Rightarrow> event_log" where
  "NewEventLog capBytes = \<lparr>el_Events = [], el_Bytes = 0, el_NextSeq = 1,
     el_Cap = (if capBytes \<le> 0 then DefaultEventCap else capBytes)\<rparr>"

text \<open>The loop that drops the oldest events while the ring is over its cap and holds more than one.\<close>

fun evict :: "int \<Rightarrow> int \<Rightarrow> output_event list \<Rightarrow> output_event list \<times> int" where
  "evict cap bytes (e # f # rest) =
     (if bytes > cap then evict cap (bytes - int (length (snd e))) (f # rest) else (e # f # rest, bytes))"
| "evict cap bytes es = (es, bytes)"

definition PushAt :: "event_log \<Rightarrow> output_event \<Rightarrow> event_log" where
  "PushAt l ev =
     (let (seq, data) = ev;
          bytes = el_Bytes l + int (length data);
          nextSeq = (if seq \<ge> el_NextSeq l then seq + 1 else el_NextSeq l);
          (events, bytes') = evict (el_Cap l) bytes (el_Events l @ [(seq, data)])
      in l\<lparr>el_Events := events, el_Bytes := bytes', el_NextSeq := nextSeq\<rparr>)"

definition Push :: "event_log \<Rightarrow> byte list \<Rightarrow> event_log" where
  "Push l data = PushAt l (el_NextSeq l, data)"

definition Since :: "event_log \<Rightarrow> 32 word \<Rightarrow> replay" where
  "Since l after =
     (let oldest = (case el_Events l of [] \<Rightarrow> el_NextSeq l | e # _ \<Rightarrow> fst e);
          current = el_NextSeq l - 1
      in if el_Events l = [] then \<lparr>rp_Events = [], rp_Gap = False, rp_Oldest = oldest, rp_Current = current\<rparr>
         else \<lparr>rp_Events = filter (\<lambda>e. fst e > after) (el_Events l), rp_Gap = after + 1 < oldest,
               rp_Oldest = oldest, rp_Current = current\<rparr>)"

definition CurrentSeq :: "event_log \<Rightarrow> 32 word" where
  "CurrentSeq l = el_NextSeq l - 1"

section \<open>The file\<close>

definition SoftCapBytes :: int where "SoftCapBytes = 16 * 1024 * 1024"
definition TargetAfterTrimBytes :: nat where "TargetAfterTrimBytes = 8 * 1024 * 1024"

text \<open>One record: the length of what follows, the sequence number, the data.\<close>

definition encode_record :: "output_event \<Rightarrow> byte list" where
  "encode_record ev = put_uint32 (word_of_nat (4 + length (snd ev))) @ put_uint32 (fst ev) @ snd ev"

definition parse_record :: "byte list \<Rightarrow> (output_event \<times> byte list) option" where
  "parse_record buf =
     (if length buf < 4 then None
      else let recordLen = unat (get_uint32 buf); rest = drop 4 buf in
        if recordLen < 4 \<or> recordLen > length rest then None
        else Some ((get_uint32 (take recordLen rest), drop 4 (take recordLen rest)), drop recordLen rest))"

lemma parse_record_shrinks: "parse_record buf = Some (ev, rest) \<Longrightarrow> length rest < length buf"
  by (auto simp: parse_record_def Let_def split: if_splits)

function Restore :: "byte list \<Rightarrow> output_event list" where
  "Restore buf = (case parse_record buf of None \<Rightarrow> [] | Some (ev, rest) \<Rightarrow> ev # Restore rest)"
  by pat_completeness auto
termination by (relation "measure length") (auto dest: parse_record_shrinks)

declare Restore.simps [simp del]

text \<open>The raw bytes of the whole records of a file, as \<open>trimLocked\<close> walks them.\<close>

function raw_records :: "byte list \<Rightarrow> byte list list" where
  "raw_records buf = (case parse_record buf of None \<Rightarrow> []
     | Some (ev, rest) \<Rightarrow> take (length buf - length rest) buf # raw_records rest)"
  by pat_completeness auto
termination by (relation "measure length") (auto dest: parse_record_shrinks)

declare raw_records.simps [simp del]

text \<open>The first record from which the rest fits the target; the last record if none does.\<close>

fun keep_records :: "byte list list \<Rightarrow> byte list list" where
  "keep_records (r # s # rs) =
     (if length (concat (r # s # rs)) \<le> TargetAfterTrimBytes then r # s # rs else keep_records (s # rs))"
| "keep_records rs = rs"

record persistent_log =
  pl_File :: "byte list"
  pl_Bytes :: int
  pl_Closed :: bool

definition OpenPersistent :: "byte list \<Rightarrow> persistent_log" where
  "OpenPersistent content = \<lparr>pl_File = content, pl_Bytes = int (length content), pl_Closed = False\<rparr>"

record file_env =
  fe_Written :: "nat option"
  fe_ReadFile :: bool
  fe_WriteTmp :: bool
  fe_Rename :: bool
  fe_Reopen :: bool

datatype file_error = AppendFailed | TrimReadFailed | TrimWriteFailed | TrimRenameFailed | TrimReopenFailed

definition trimLocked :: "file_env \<Rightarrow> persistent_log \<Rightarrow> file_error option \<times> persistent_log" where
  "trimLocked fe p =
     (if \<not> fe_ReadFile fe then (Some TrimReadFailed, p)
      else let trimmed = concat (keep_records (raw_records (pl_File p))) in
        if \<not> fe_WriteTmp fe then (Some TrimWriteFailed, p)
        else if \<not> fe_Rename fe then (Some TrimRenameFailed, p)
        else if \<not> fe_Reopen fe then (Some TrimReopenFailed, p\<lparr>pl_File := trimmed, pl_Closed := True\<rparr>)
        else (None, p\<lparr>pl_File := trimmed, pl_Bytes := int (length trimmed)\<rparr>))"

text \<open>\<open>fe_Written = Some n\<close>: the write fails after \<open>n\<close> bytes, which stay in the file.\<close>

definition Append :: "file_env \<Rightarrow> persistent_log \<Rightarrow> output_event \<Rightarrow> file_error option \<times> persistent_log" where
  "Append fe p ev =
     (if pl_Closed p then (None, p)
      else let bytes = encode_record ev in
        case fe_Written fe of
          Some n \<Rightarrow> (Some AppendFailed, p\<lparr>pl_File := pl_File p @ take n bytes\<rparr>)
        | None \<Rightarrow>
            (let p1 = p\<lparr>pl_File := pl_File p @ bytes, pl_Bytes := pl_Bytes p + int (length bytes)\<rparr>
             in if pl_Bytes p1 > SoftCapBytes then trimLocked fe p1 else (None, p1)))"

definition Close :: "persistent_log \<Rightarrow> persistent_log" where
  "Close p = p\<lparr>pl_Closed := True\<rparr>"

section \<open>The structured window\<close>

text \<open>
  \<open>RetainStructuredHistory\<close> of \<open>structured_window.go\<close>: the newest records, at most 1200 of them and
  at most 4 MiB together, but always the newest one.  The loop walks back over the older records.
\<close>

definition MaxStructuredReplayEvents :: nat where "MaxStructuredReplayEvents = 1200"
definition MaxStructuredReplayBytes :: nat where "MaxStructuredReplayBytes = 4 * 1024 * 1024"

fun walk_back :: "byte list list \<Rightarrow> nat \<Rightarrow> nat \<Rightarrow> nat" where
  "walk_back [] kept acc = kept"
| "walk_back (previous # older) kept acc =
     (if kept \<ge> MaxStructuredReplayEvents \<or> acc + length previous > MaxStructuredReplayBytes then kept
      else walk_back older (kept + 1) (acc + length previous))"

definition RetainStructuredHistory :: "byte list list \<Rightarrow> byte list \<Rightarrow> byte list list \<times> nat" where
  "RetainStructuredHistory history raw =
     (let kept = walk_back (rev history) 1 (length raw); start = length history + 1 - kept
      in (drop start (history @ [raw]), start))"

section \<open>Lemmas on the ring\<close>

definition data_bytes :: "output_event list \<Rightarrow> int" where
  "data_bytes es = int (length (concat (map snd es)))"

lemma data_bytes_simps [simp]:
  "data_bytes [] = 0" "data_bytes (e # es) = int (length (snd e)) + data_bytes es"
  "data_bytes (es @ fs) = data_bytes es + data_bytes fs"
  by (simp_all add: data_bytes_def)

lemma evict_spec:
  "evict cap (data_bytes es) es = (fs, b) \<Longrightarrow>
     b = data_bytes fs \<and> (\<exists>k. fs = drop k es) \<and> (es \<noteq> [] \<longrightarrow> fs \<noteq> []) \<and> (b \<le> cap \<or> length fs \<le> 1)"
proof (induction cap "data_bytes es" es arbitrary: fs b rule: evict.induct)
  case (1 cap e f rest)
  show ?case
  proof (cases "data_bytes (e # f # rest) > cap")
    case True
    have r: "evict cap (data_bytes (f # rest)) (f # rest) = (fs, b)" using 1(2) True by simp
    have IH: "b = data_bytes fs \<and> (\<exists>k. fs = drop k (f # rest)) \<and> (f # rest \<noteq> [] \<longrightarrow> fs \<noteq> []) \<and> (b \<le> cap \<or> length fs \<le> 1)"
      by (rule 1(1) [OF True _ r]) simp
    then obtain k where "fs = drop (Suc k) (e # f # rest)" by auto
    with IH show ?thesis by blast
  next
    case False
    then have "fs = drop 0 (e # f # rest)" "b = data_bytes (e # f # rest)" using 1(2) by auto
    then show ?thesis using False by (metis drop0 linorder_not_less)
  qed
qed (auto intro: exI [of _ 0])

text \<open>
  The ring against everything ever pushed: it holds a suffix, its byte count is exact, it is within
  its cap or holds one event, and the next number is above every number pushed.
\<close>

definition ring_inv :: "output_event list \<Rightarrow> event_log \<Rightarrow> bool" where
  "ring_inv history l \<longleftrightarrow> (\<exists>k. el_Events l = drop k history) \<and> (history \<noteq> [] \<longrightarrow> el_Events l \<noteq> [])
     \<and> el_Bytes l = data_bytes (el_Events l) \<and> (el_Bytes l \<le> el_Cap l \<or> length (el_Events l) \<le> 1)
     \<and> (\<forall>e \<in> set history. fst e < el_NextSeq l) \<and> el_NextSeq l \<ge> 1"

lemma unat_next: "(x :: 32 word) \<noteq> - 1 \<Longrightarrow> unat (x + 1) = Suc (unat x)"
  by (metis add.commute max_word_wrap unatSuc)

lemma word_next: "(x :: 32 word) \<noteq> - 1 \<Longrightarrow> x < x + 1 \<and> 1 \<le> x + 1"
  using unat_next [of x] by (auto simp: word_less_nat_alt word_le_nat_alt)

lemma PushAt_inv:
  assumes "ring_inv history l" and "fst ev \<noteq> - 1"
  shows "ring_inv (history @ [ev]) (PushAt l ev)"
proof -
  obtain k where k: "el_Events l = drop k history" using assms(1) by (auto simp: ring_inv_def)
  have "el_Bytes l + int (length (snd ev)) = data_bytes (el_Events l @ [ev])"
    using assms(1) by (simp add: ring_inv_def)
  moreover obtain fs b where e: "evict (el_Cap l) (data_bytes (el_Events l @ [ev])) (el_Events l @ [ev]) = (fs, b)"
    by fastforce
  ultimately have p: "PushAt l ev = l\<lparr>el_Events := fs, el_Bytes := b,
      el_NextSeq := (if fst ev \<ge> el_NextSeq l then fst ev + 1 else el_NextSeq l)\<rparr>"
    by (simp add: PushAt_def Let_def case_prod_beta)
  have "b = data_bytes fs \<and> (\<exists>j. fs = drop j (el_Events l @ [ev])) \<and> (el_Events l @ [ev] \<noteq> [] \<longrightarrow> fs \<noteq> [])
      \<and> (b \<le> el_Cap l \<or> length fs \<le> 1)"
    by (rule evict_spec [OF e])
  then have s: "b = data_bytes fs" "\<exists>j. fs = drop j (el_Events l @ [ev])" "fs \<noteq> []" "b \<le> el_Cap l \<or> length fs \<le> 1"
    by blast+
  have "\<exists>j. fs = drop j (history @ [ev])"
  proof -
    obtain j where "fs = drop j (el_Events l @ [ev])" using s(2) by blast
    moreover have "el_Events l @ [ev] = drop (min k (length history)) (history @ [ev])"
      by (cases "k \<le> length history") (simp_all add: k)
    ultimately show ?thesis by (metis drop_drop)
  qed
  moreover have lt: "fst ev < fst ev + 1" "1 \<le> fst ev + 1" using word_next [OF assms(2)] by simp_all
  moreover have "\<forall>e \<in> set (history @ [ev]). fst e < (if fst ev \<ge> el_NextSeq l then fst ev + 1 else el_NextSeq l)"
    using assms(1) lt(1) by (auto simp: ring_inv_def)
  ultimately show ?thesis using assms(1) s unfolding p ring_inv_def by simp
qed

lemma NewEventLog_inv: "ring_inv [] (NewEventLog cap)"
  by (auto simp: ring_inv_def NewEventLog_def)

text \<open>What the runner does: restored events first, then the chunks the process writes.\<close>

definition runner_log :: "int \<Rightarrow> output_event list \<Rightarrow> byte list list \<Rightarrow> event_log" where
  "runner_log cap restored chunks = foldl Push (foldl PushAt (NewEventLog cap) restored) chunks"

fun number_chunks :: "32 word \<Rightarrow> byte list list \<Rightarrow> output_event list" where
  "number_chunks n [] = []"
| "number_chunks n (c # cs) = (n, c) # number_chunks (n + 1) cs"

definition history_of :: "output_event list \<Rightarrow> byte list list \<Rightarrow> output_event list" where
  "history_of restored chunks =
     restored @ number_chunks (if restored = [] then 1 else fst (last restored) + 1) chunks"

text \<open>The numbers rise and none is the last one, after which they would wrap.\<close>

definition rising :: "output_event list \<Rightarrow> bool" where
  "rising es \<longleftrightarrow> sorted_wrt (\<lambda>a b. fst a < fst b) es \<and> (\<forall>e \<in> set es. fst e \<noteq> 0 \<and> fst e \<noteq> - 1)"

lemma rising_append: "rising (es @ fs) \<Longrightarrow> rising es \<and> rising fs"
  by (auto simp: rising_def sorted_wrt_append)

definition next_after :: "output_event list \<Rightarrow> 32 word" where
  "next_after es = (if es = [] then 1 else fst (last es) + 1)"

lemma PushAt_next:
  assumes "rising (es @ [ev])" and "el_NextSeq l = next_after es"
  shows "el_NextSeq (PushAt l ev) = next_after (es @ [ev])"
proof -
  have "fst ev \<ge> el_NextSeq l"
  proof (cases "es = []")
    case True
    then show ?thesis using assms by (auto simp: rising_def next_after_def word_le_nat_alt unat_gt_0 Suc_le_eq)
  next
    case False
    then have "fst (last es) < fst ev" "fst (last es) \<noteq> - 1"
      using assms(1) by (auto simp: rising_def sorted_wrt_append)
    then show ?thesis using False assms(2) by (simp add: next_after_def inc_le)
  qed
  then show ?thesis by (simp add: PushAt_def Let_def case_prod_beta next_after_def)
qed

lemma pushed_inv:
  "rising es \<Longrightarrow> ring_inv es (foldl PushAt (NewEventLog cap) es)
     \<and> el_NextSeq (foldl PushAt (NewEventLog cap) es) = next_after es
     \<and> el_Cap (foldl PushAt (NewEventLog cap) es) = el_Cap (NewEventLog cap)"
proof (induction es rule: rev_induct)
  case Nil
  then show ?case using NewEventLog_inv by (simp add: NewEventLog_def next_after_def)
next
  case (snoc e es)
  let ?l = "foldl PushAt (NewEventLog cap) es"
  have r: "rising es" using snoc.prems rising_append by blast
  have e: "fst e \<noteq> - 1" using snoc.prems by (simp add: rising_def)
  have IH: "ring_inv es ?l" "el_NextSeq ?l = next_after es" "el_Cap ?l = el_Cap (NewEventLog cap)"
    using snoc.IH [OF r] by blast+
  have "el_Cap (PushAt ?l e) = el_Cap ?l" by (simp add: PushAt_def Let_def case_prod_beta)
  then show ?case using PushAt_inv [OF IH(1) e] PushAt_next [OF snoc.prems IH(2)] IH(3) by simp
qed

lemma Push_chunks:
  "rising (es @ number_chunks (next_after es) cs) \<Longrightarrow>
     foldl Push (foldl PushAt (NewEventLog cap) es) cs
       = foldl PushAt (NewEventLog cap) (es @ number_chunks (next_after es) cs)"
proof (induction cs arbitrary: es)
  case (Cons c cs)
  let ?e = "(next_after es, c)"
  have "rising es" using Cons.prems rising_append by blast
  then have "Push (foldl PushAt (NewEventLog cap) es) c = foldl PushAt (NewEventLog cap) (es @ [?e])"
    using pushed_inv by (simp add: Push_def)
  moreover have "next_after (es @ [?e]) = next_after es + 1" by (simp add: next_after_def)
  ultimately show ?case using Cons.IH [of "es @ [?e]"] Cons.prems by simp
qed simp

lemma runner_log_pushed:
  "rising (history_of restored chunks) \<Longrightarrow>
     runner_log cap restored chunks = foldl PushAt (NewEventLog cap) (history_of restored chunks)"
  using Push_chunks by (simp add: runner_log_def history_of_def next_after_def)

lemma replay_spec:
  assumes "rising (history_of restored chunks)" and "after \<noteq> - 1"
  shows "let h = history_of restored chunks; r = Since (runner_log cap restored chunks) after
    in (\<not> rp_Gap r \<longrightarrow> rp_Events r = filter (\<lambda>e. fst e > after) h)
     \<and> (rp_Gap r \<longrightarrow> rp_Events r = filter (\<lambda>e. fst e \<ge> rp_Oldest r) h \<and> after + 1 < rp_Oldest r
          \<and> (\<exists>e \<in> set h. fst e = rp_Oldest r))
     \<and> (h \<noteq> [] \<longrightarrow> rp_Current r = fst (last h))"
proof -
  let ?h = "history_of restored chunks" and ?l = "runner_log cap restored chunks"
  have inv: "ring_inv ?h ?l" "el_NextSeq ?l = next_after ?h"
    using pushed_inv [OF assms(1)] runner_log_pushed [OF assms(1)] by simp_all
  obtain k where k: "el_Events ?l = drop k ?h" using inv(1) by (auto simp: ring_inv_def)
  have sorted: "sorted_wrt (\<lambda>a b. fst a < fst b) ?h" using assms(1) by (simp add: rising_def)
  show ?thesis
  proof (cases "?h = []")
    case True
    then show ?thesis using k by (simp add: Since_def Let_def)
  next
    case False
    then obtain e es where e: "drop k ?h = e # es" using k inv(1) by (cases "drop k ?h") (auto simp: ring_inv_def)
    have h: "?h = take k ?h @ e # es" by (metis append_take_drop_id e)
    have "sorted_wrt (\<lambda>a b. fst a < fst b) (take k ?h @ e # es)" using sorted h by simp
    then have below: "x \<in> set (take k ?h) \<Longrightarrow> fst x < fst e"
      and above: "x \<in> set (e # es) \<Longrightarrow> fst e \<le> fst x" for x
      by (auto simp: sorted_wrt_append)
    have split: "filter P ?h = filter P (take k ?h) @ filter P (e # es)" for P
      using h by (metis filter_append)
    have all: "filter (\<lambda>x. fst x \<ge> fst e) ?h = e # es"
    proof -
      have "filter (\<lambda>x. fst x \<ge> fst e) (take k ?h) = []"
        using below by (auto simp: filter_empty_conv not_le)
      moreover have "filter (\<lambda>x. fst x \<ge> fst e) (e # es) = e # es" using above by (simp add: filter_id_conv)
      ultimately show ?thesis using split by (metis append_Nil)
    qed
    have cur: "el_NextSeq ?l - 1 = fst (last ?h)" using inv(2) False by (simp add: next_after_def)
    show ?thesis
    proof (cases "after + 1 < fst e")
      case True
      have "after < after + 1" using word_next [OF assms(2)] by simp
      then have "after < fst x" if "x \<in> set (e # es)" for x
        using True above [OF that] by (meson less_trans order_less_le_trans)
      then have "filter (\<lambda>x. fst x > after) (e # es) = e # es" by (simp add: filter_id_conv)
      moreover have "e \<in> set ?h" using h by (metis in_set_conv_decomp)
      ultimately show ?thesis using k e all cur True False by (auto simp: Since_def Let_def)
    next
      case no: False
      have "\<not> after < fst x" if "x \<in> set (take k ?h)" for x
        using below [OF that] no inc_le [of after "fst x"] by (meson not_less order_less_le_trans)
      then have "filter (\<lambda>x. fst x > after) (take k ?h) = []" by (simp add: filter_empty_conv)
      then have "filter (\<lambda>x. fst x > after) ?h = filter (\<lambda>x. fst x > after) (e # es)" using split by (metis append_Nil)
      then show ?thesis using k e cur no False by (simp add: Since_def Let_def)
    qed
  qed
qed

section \<open>Properties of the ring\<close>

text \<open>C19: a replay is honest.  Of everything the runner recorded, restored and new, a replay after a
  number the reader has seen gives only later events, in order; when it reports no gap they are
  all of them, and when it reports one, what is missing is exactly what came before the oldest
  event kept.\<close>

theorem replay_honest:
  assumes "rising (history_of restored chunks)" and "after \<noteq> - 1"
  shows "let h = history_of restored chunks; r = Since (runner_log cap restored chunks) after
    in (\<not> rp_Gap r \<longrightarrow> rp_Events r = filter (\<lambda>e. fst e > after) h)
     \<and> (rp_Gap r \<longrightarrow> rp_Events r = filter (\<lambda>e. fst e \<ge> rp_Oldest r) h \<and> after + 1 < rp_Oldest r)
     \<and> (h \<noteq> [] \<longrightarrow> rp_Current r = fst (last h))"
  using replay_spec [OF assms] unfolding Let_def by blast

theorem replay_honest_witness:
  "rp_Events (Since (runner_log 3 [(1, [10, 11])] [[12, 13], [14]]) 1) = [(2, [12, 13]), (3, [14])]
   \<and> \<not> rp_Gap (Since (runner_log 3 [(1, [10, 11])] [[12, 13], [14]]) 1)"
proof -
  have r: "rising (history_of [(1, [10, 11])] [[12, 13], [14]])" by (simp add: rising_def history_of_def)
  have g: "\<not> rp_Gap (Since (runner_log 3 [(1, [10, 11])] [[12, 13], [14]]) 1)"
    by (simp add: runner_log_def Push_def PushAt_def NewEventLog_def Since_def)
  show ?thesis using replay_honest [OF r, of 1 3] g by (simp add: Let_def history_of_def)
qed

text \<open>The ring is bounded.  Its byte count is exact, and it holds at most the cap or one event,
  which is the newest.\<close>

lemma ring_bounded:
  assumes "rising (history_of restored chunks)" and "history_of restored chunks \<noteq> []"
  shows "let l = runner_log cap restored chunks
    in el_Bytes l = data_bytes (el_Events l)
     \<and> (data_bytes (el_Events l) \<le> (if cap \<le> 0 then DefaultEventCap else cap) \<or> length (el_Events l) = 1)
     \<and> last (el_Events l) = last (history_of restored chunks)"
proof -
  have inv: "ring_inv (history_of restored chunks) (runner_log cap restored chunks)"
    "el_Cap (runner_log cap restored chunks) = (if cap \<le> 0 then DefaultEventCap else cap)"
    using pushed_inv [OF assms(1)] runner_log_pushed [OF assms(1)] by (simp_all add: NewEventLog_def)
  then obtain k where "el_Events (runner_log cap restored chunks) = drop k (history_of restored chunks)"
    "el_Events (runner_log cap restored chunks) \<noteq> []"
    using assms(2) by (auto simp: ring_inv_def)
  then show ?thesis using inv by (auto simp: ring_inv_def Let_def last_drop le_Suc_eq)
qed

lemma ring_bounded_witness:
  "data_bytes (el_Events (runner_log 3 [(1, [10, 11])] [[12, 13], [14, 15, 16, 17]])) \<le> 3
   \<or> length (el_Events (runner_log 3 [(1, [10, 11])] [[12, 13], [14, 15, 16, 17]])) = 1"
proof -
  have "rising (history_of [(1, [10, 11])] [[12, 13], [14, 15, 16, 17]])"
    "history_of [(1, [10, 11])] [[12, 13], [14, 15, 16, 17]] \<noteq> []"
    by (simp_all add: rising_def history_of_def)
  from ring_bounded [OF this, of 3] show ?thesis by (simp add: Let_def)
qed

text \<open>C0: the number after the last one wraps to zero, so a reader that asks for what follows the
  last number there is told of a gap although nothing it asked for can be missing.\<close>

theorem replay_wraps:
  "let l = runner_log 100 [] [[10]]
   in rp_Gap (Since l (- 1)) \<and> rp_Events (Since l (- 1)) = [] \<and> rp_Oldest (Since l (- 1)) = 1"
  by (simp add: runner_log_def Push_def PushAt_def NewEventLog_def Since_def)

section \<open>Records of the file\<close>

definition fits :: "output_event \<Rightarrow> bool" where
  "fits ev \<longleftrightarrow> 4 + length (snd ev) < 2 ^ 32"

lemma fits_length: "fits ev \<Longrightarrow> unat (word_of_nat (4 + length (snd ev)) :: 32 word) = 4 + length (snd ev)"
  by (simp only: unat_of_nat) (simp add: fits_def)

lemma get_put_take: "n \<ge> 4 \<Longrightarrow> get_uint32 (take n (put_uint32 w @ bs)) = w"
  by simp

lemma parse_encode:
  assumes "fits ev"
  shows "parse_record (encode_record ev @ rest) = Some (ev, rest)"
proof -
  have "parse_record (encode_record ev @ rest) =
      (let rest' = put_uint32 (fst ev) @ snd ev @ rest; n = 4 + length (snd ev) in
       if n < 4 \<or> n > length rest' then None
       else Some ((get_uint32 (take n rest'), drop 4 (take n rest')), drop n rest'))"
    using fits_length [OF assms] by (simp add: parse_record_def encode_record_def Let_def)
  then show ?thesis by (simp add: Let_def)
qed

lemma parse_cut:
  assumes "fits ev" and "k < length (encode_record ev)"
  shows "parse_record (take k (encode_record ev)) = None"
proof (cases "k < 4")
  case True
  then have "length (take k (encode_record ev)) < 4" by simp
  then show ?thesis by (simp only: parse_record_def if_True)
next
  case False
  then have "take k (encode_record ev) =
      put_uint32 (word_of_nat (4 + length (snd ev))) @ take (k - 4) (put_uint32 (fst ev) @ snd ev)"
    by (simp add: encode_record_def)
  moreover have "k - 4 < 4 + length (snd ev)" using assms(2) False by (simp add: encode_record_def)
  ultimately show ?thesis using fits_length [OF assms(1)] by (simp add: parse_record_def Let_def)
qed

definition encode_fitting :: "output_event \<Rightarrow> byte list option" where
  "encode_fitting ev = (if fits ev then Some (encode_record ev) else None)"

definition read_record :: "byte list \<Rightarrow> unit + output_event \<times> byte list" where
  "read_record buf = (case parse_record buf of None \<Rightarrow> Inl () | Some r \<Rightarrow> Inr r)"

interpretation records: codec encode_fitting read_record "()" "{()}"
proof
  show "read_record (bs @ rest) = Inr (ev, rest)" if "encode_fitting ev = Some bs" for ev bs rest
    using that parse_encode [of ev rest] by (auto simp: encode_fitting_def read_record_def split: if_splits)
  show "read_record [] = Inl ()" by (simp add: read_record_def parse_record_def)
  show "\<exists>e \<in> {()}. read_record (take k bs) = Inl e"
    if "encode_fitting ev = Some bs" "0 < k" "k < length bs" for ev bs k
    using that parse_cut [of ev k] by (auto simp: encode_fitting_def read_record_def split: if_splits)
  show "length rest < length bs" if "read_record bs = Inr (v, rest)" for bs v rest
    using that parse_record_shrinks by (auto simp: read_record_def split: option.splits)
qed

lemma Restore_reads: "records.reads bs vs e \<Longrightarrow> Restore bs = vs"
proof (induction rule: records.reads.induct)
  case (reads_stop bs e)
  then show ?case by (subst Restore.simps) (auto simp: read_record_def split: option.splits)
next
  case (reads_value bs v rest vs e)
  then show ?case by (subst Restore.simps) (auto simp: read_record_def split: option.splits)
qed

lemma encode_all: "list_all fits es \<Longrightarrow> those (map encode_fitting es) = Some (map encode_record es)"
  by (induction es) (auto simp: encode_fitting_def)

definition file_of :: "output_event list \<Rightarrow> byte list" where
  "file_of es = concat (map encode_record es)"

lemma Restore_file_of: "list_all fits es \<Longrightarrow> Restore (file_of es) = es"
  unfolding file_of_def by (rule Restore_reads [OF records.reads_whole [OF encode_all]])

lemma Restore_torn:
  assumes "list_all fits es" and "fits ev" and "k < length (encode_record ev)"
  shows "Restore (file_of es @ take k (encode_record ev)) = es"
proof (cases "k = 0")
  case False
  then show ?thesis
    using records.reads_broken [OF encode_all [OF assms(1)], of ev "encode_record ev" k] assms(2,3) Restore_reads
    unfolding file_of_def by (auto simp: encode_fitting_def)
qed (use Restore_file_of [OF assms(1)] in simp)

lemma raw_file_of: "list_all fits es \<Longrightarrow> raw_records (file_of es) = map encode_record es"
proof (induction es)
  case Nil
  then show ?case by (subst raw_records.simps) (simp add: file_of_def parse_record_def)
next
  case (Cons e es)
  then have "parse_record (file_of (e # es)) = Some (e, file_of es)"
    using parse_encode [of e "file_of es"] by (simp add: file_of_def)
  then show ?case using Cons by (subst raw_records.simps) (simp add: file_of_def)
qed

lemma keep_records_spec:
  "\<exists>k. keep_records rs = drop k rs \<and> (rs \<noteq> [] \<longrightarrow> k < length rs)
     \<and> (length (concat (keep_records rs)) \<le> TargetAfterTrimBytes \<or> length (keep_records rs) = 1)"
proof (induction rs rule: keep_records.induct)
  case (1 r s rs)
  show ?case
  proof (cases "length (concat (r # s # rs)) \<le> TargetAfterTrimBytes")
    case True
    then show ?thesis by (intro exI [of _ 0]) simp
  next
    case False
    then obtain k where "keep_records (s # rs) = drop k (s # rs)" "k < length (s # rs)"
      "length (concat (keep_records (s # rs))) \<le> TargetAfterTrimBytes \<or> length (keep_records (s # rs)) = 1"
      using 1 by blast
    then show ?thesis using False by (intro exI [of _ "Suc k"]) auto
  qed
qed (auto intro: exI [of _ 0])

section \<open>Properties of the file\<close>

definition healthy :: file_env where
  "healthy = \<lparr>fe_Written = None, fe_ReadFile = True, fe_WriteTmp = True, fe_Rename = True, fe_Reopen = True\<rparr>"

text \<open>C20: the file restores what was recorded.  Appending to a file of whole records, with a file
  system that does not fail, leaves a file of whole records that restores to a tail of the events
  ending in the new one: all of them up to 16 MiB, and after a trim at most 8 MiB or the newest
  event alone; and if the process dies inside the append, the whole records before it are restored.\<close>

theorem append_restores:
  assumes "list_all fits (es @ [ev])" and "pl_File p = file_of es" and "pl_Bytes p = int (length (file_of es))"
    and "\<not> pl_Closed p"
  shows "(\<exists>k. case Append healthy p ev of (e, p') \<Rightarrow>
      e = None \<and> \<not> pl_Closed p' \<and> k \<le> length es
      \<and> pl_File p' = file_of (drop k (es @ [ev])) \<and> pl_Bytes p' = int (length (pl_File p'))
      \<and> Restore (pl_File p') = drop k (es @ [ev])
      \<and> (int (length (file_of (es @ [ev]))) \<le> SoftCapBytes \<longrightarrow> k = 0)
      \<and> (k \<noteq> 0 \<longrightarrow> length (pl_File p') \<le> TargetAfterTrimBytes \<or> k = length es))
    \<and> (\<forall>n < length (encode_record ev).
      Restore (pl_File (snd (Append (healthy\<lparr>fe_Written := Some n\<rparr>) p ev))) = es)"
proof (intro conjI allI impI)
  let ?es = "es @ [ev]"
  have all: "file_of ?es = pl_File p @ encode_record ev" using assms(2) by (simp add: file_of_def)
  have app: "Append healthy p ev = (if int (length (file_of ?es)) > SoftCapBytes
      then (let t = concat (keep_records (raw_records (file_of ?es))) in
            (None, p\<lparr>pl_File := t, pl_Bytes := int (length t)\<rparr>))
      else (None, p\<lparr>pl_File := file_of ?es, pl_Bytes := int (length (file_of ?es))\<rparr>))"
    using assms(3,4) all by (simp add: Append_def trimLocked_def healthy_def Let_def assms(2) file_of_def)
  show "\<exists>k. case Append healthy p ev of (e, p') \<Rightarrow>
      e = None \<and> \<not> pl_Closed p' \<and> k \<le> length es
      \<and> pl_File p' = file_of (drop k ?es) \<and> pl_Bytes p' = int (length (pl_File p'))
      \<and> Restore (pl_File p') = drop k ?es
      \<and> (int (length (file_of ?es)) \<le> SoftCapBytes \<longrightarrow> k = 0)
      \<and> (k \<noteq> 0 \<longrightarrow> length (pl_File p') \<le> TargetAfterTrimBytes \<or> k = length es)"
  proof (cases "int (length (file_of ?es)) > SoftCapBytes")
    case False
    then show ?thesis using app assms(4) Restore_file_of [OF assms(1)] by (intro exI [of _ 0]) simp
  next
    case True
    obtain k where k: "keep_records (map encode_record ?es) = drop k (map encode_record ?es)"
      "k < length (map encode_record ?es)"
      "length (concat (keep_records (map encode_record ?es))) \<le> TargetAfterTrimBytes
        \<or> length (keep_records (map encode_record ?es)) = 1"
      using keep_records_spec [of "map encode_record ?es"] by blast
    have t: "concat (keep_records (raw_records (file_of ?es))) = file_of (drop k ?es)"
      using k(1) raw_file_of [OF assms(1)] by (simp only: file_of_def drop_map)
    have "list_all fits (drop k ?es)" using assms(1) by (metis append_take_drop_id list_all_append)
    then have r: "Restore (file_of (drop k ?es)) = drop k ?es" by (rule Restore_file_of)
    have "length (file_of (drop k ?es)) \<le> TargetAfterTrimBytes \<or> k = length es"
      using k by (auto simp: file_of_def drop_map)
    then show ?thesis using app True t r k(2) assms(4) by (intro exI [of _ k]) (simp add: Let_def)
  qed
  show "Restore (pl_File (snd (Append (healthy\<lparr>fe_Written := Some n\<rparr>) p ev))) = es"
    if "n < length (encode_record ev)" for n
    using that assms Restore_torn [of es ev n] by (simp add: Append_def healthy_def Let_def)
qed

theorem append_restores_witness:
  "Restore (pl_File (snd (Append (healthy\<lparr>fe_Written := Some 6\<rparr>)
     \<lparr>pl_File = file_of [(1, [65])], pl_Bytes = int (length (file_of [(1, [65])])), pl_Closed = False\<rparr> (2, [66, 67])))) = [(1, [65])]"
proof -
  have "list_all fits ([(1, [65])] @ [(2, [66, 67])])" by (simp add: fits_def)
  from append_restores [OF this, of "\<lparr>pl_File = file_of [(1, [65])], pl_Bytes = int (length (file_of [(1, [65])])), pl_Closed = False\<rparr>"]
  show ?thesis by (simp add: encode_record_def)
qed


section \<open>The window is bounded\<close>

lemma walk_back_spec:
  "\<exists>j. walk_back olds kept acc = kept + j \<and> j \<le> length olds
     \<and> (kept \<le> MaxStructuredReplayEvents \<longrightarrow> kept + j \<le> MaxStructuredReplayEvents)
     \<and> (j = 0 \<or> acc + length (concat (take j olds)) \<le> MaxStructuredReplayBytes)
     \<and> (j < length olds \<longrightarrow> kept + j \<ge> MaxStructuredReplayEvents
          \<or> acc + length (concat (take (Suc j) olds)) > MaxStructuredReplayBytes)"
proof (induction olds kept acc rule: walk_back.induct)
  case (2 previous older kept acc)
  show ?case
  proof (cases "kept \<ge> MaxStructuredReplayEvents \<or> acc + length previous > MaxStructuredReplayBytes")
    case True
    then show ?thesis by (intro exI [of _ 0]) auto
  next
    case False
    then obtain j where "walk_back older (kept + 1) (acc + length previous) = kept + 1 + j" "j \<le> length older"
      "kept + 1 \<le> MaxStructuredReplayEvents \<longrightarrow> kept + 1 + j \<le> MaxStructuredReplayEvents"
      "j = 0 \<or> acc + length previous + length (concat (take j older)) \<le> MaxStructuredReplayBytes"
      "j < length older \<longrightarrow> kept + 1 + j \<ge> MaxStructuredReplayEvents
          \<or> acc + length previous + length (concat (take (Suc j) older)) > MaxStructuredReplayBytes"
      using 2 [OF False] by blast
    then show ?thesis using False by (intro exI [of _ "Suc j"]) auto
  qed
qed simp

text \<open>The structured window holds the newest records in order, at most 1200 of them and at most
  4 MiB together, or the newest alone; it drops a record only when keeping it would break a bound,
  and it reports how many it dropped.\<close>

lemma window_bounded:
  "case RetainStructuredHistory history raw of (kept, removed) \<Rightarrow>
     kept = drop removed (history @ [raw]) \<and> kept \<noteq> [] \<and> length kept \<le> 1200
     \<and> (length (concat kept) \<le> 4194304 \<or> kept = [raw])
     \<and> (removed = 0 \<or> length kept = 1200 \<or> length (concat (drop (removed - 1) (history @ [raw]))) > 4194304)"
proof -
  obtain j where j: "walk_back (rev history) 1 (length raw) = 1 + j" "j \<le> length history"
    "1 + j \<le> 1200" "j = 0 \<or> length raw + length (concat (take j (rev history))) \<le> 4194304"
    "j < length history \<longrightarrow> 1 + j \<ge> 1200 \<or> length raw + length (concat (take (Suc j) (rev history))) > 4194304"
    using walk_back_spec [of "rev history" 1 "length raw"]
    by (auto simp: MaxStructuredReplayEvents_def MaxStructuredReplayBytes_def)
  have len: "length (concat (take n (rev history))) = length (concat (drop (length history - n) history))" for n
    by (simp add: take_rev length_concat rev_map [symmetric] sum_list_rev)
  have d: "drop (length history - j) (history @ [raw]) = drop (length history - j) history @ [raw]" by simp
  have "drop (length history - Suc j) (history @ [raw]) = drop (length history - Suc j) history @ [raw]" by simp
  then have m: "removed = length history - j \<Longrightarrow> removed > 0 \<Longrightarrow>
      length (concat (drop (removed - 1) (history @ [raw]))) = length raw + length (concat (take (Suc j) (rev history)))"
    for removed by (simp add: len)
  have r: "RetainStructuredHistory history raw = (drop (length history - j) (history @ [raw]), length history - j)"
    using j(1) by (simp add: RetainStructuredHistory_def Let_def)
  show ?thesis
    unfolding r prod.case
  proof (intro conjI impI)
    show "drop (length history - j) (history @ [raw]) \<noteq> []" by simp
    show "length (drop (length history - j) (history @ [raw])) \<le> 1200" using j(2,3) by simp
    show "length (concat (drop (length history - j) (history @ [raw]))) \<le> 4194304
        \<or> drop (length history - j) (history @ [raw]) = [raw]"
      using j(4) len [of j] by auto
    show "length history - j = 0 \<or> length (drop (length history - j) (history @ [raw])) = 1200
        \<or> length (concat (drop (length history - j - 1) (history @ [raw]))) > 4194304"
      using j(2,3,5) m [OF refl] by auto
  qed simp
qed

end
