(* ===== verification/Runner_Client.thy ===== *)
theory Runner_Client
  imports Runner_Messages Event_Log
begin

text \<open>
  The daemon's client of one runner socket, \<open>SocketRunner\<close> of \<open>runtime/internal/proto/client.go\<close> and
  \<open>message.go\<close>.  Each section that the code runs under \<open>mu\<close> is one operation here; what happens
  between two of them (another caller, the reader goroutine) is any sequence of other operations,
  which \<open>client_step\<close> allows.  A call that waits is therefore split where it waits: it registers a
  request, may give it up (write error, cancelled context, timeout), and ends.  A request is an
  object, and its identity, which the code compares, is a number.

  \<open>parse\<close> is the JSON value of a payload, \<open>ns\<close> how many events each consumer takes inside a
  terminal broadcast (see \<open>offer_last\<close>), \<open>now\<close> the clock.
\<close>

section \<open>State\<close>

datatype control_error =
    NetClosed | CallerGone | ControlTimedOut | WriteFailed | BadAnswer
  | RunnerRefused string | OldProtocol int

record replay_request =
  pq_Id :: nat
  pq_Done :: bool
  pq_Events :: "output_msg list"
  pq_Structured :: "byte list list"

record control_request =
  cq_Id :: nat
  cq_Done :: bool
  cq_Err :: "control_error option"

text \<open>The response channel of a message in flight, with room for one answer; its caller may be leaving.\<close>

record waiter =
  wt_Answer :: "message_result option"
  wt_Open :: bool
  wt_Leaving :: bool

datatype finish = FinishReplay nat | FinishModel nat "control_error option" | FinishRetry nat "control_error option"

text \<open>
  Where the reader goroutine is: not started; before a \<open>Read\<close>, knowing whether a clean exit was
  read; between looking a request up and finishing it; returned.
\<close>

datatype reader = NotStarted | Reading bool | Finishing finish bool | Returned

text \<open>The last three fields are history: answers read, answers handed to callers, late answers dropped.\<close>

record client =
  cl_Info :: runner_info
  cl_Conn :: bool
  cl_Reader :: reader
  cl_Exited :: bool
  cl_Closed :: bool
  cl_Streams :: "runner_event stream list"
  cl_Replay :: "replay_request option"
  cl_Model :: "control_request option"
  cl_Retry :: "control_request option"
  cl_NextRequest :: nat
  cl_Messages :: "string \<rightharpoonup> waiter"
  cl_LateMessages :: "string \<rightharpoonup> message_result"
  cl_LateOrder :: "string list"
  cl_Terminal :: "runner_event option"
  cl_Answers :: "message_result list"
  cl_Returned :: "(string \<times> message_result) list"
  cl_Evicted :: "string list"

section \<open>Dialling\<close>

datatype dial_error = NoHello read_error | NotHello byte | BadHello | EmptyID | IncompatibleVersion int

definition new_client :: "runner_info \<Rightarrow> client" where
  "new_client info = \<lparr>cl_Info = info, cl_Conn = True, cl_Reader = NotStarted, cl_Exited = False, cl_Closed = False,
     cl_Streams = [], cl_Replay = None, cl_Model = None, cl_Retry = None, cl_NextRequest = 0,
     cl_Messages = (\<lambda>_. None), cl_LateMessages = (\<lambda>_. None), cl_LateOrder = [], cl_Terminal = None,
     cl_Answers = [], cl_Returned = [], cl_Evicted = []\<rparr>"

text \<open>The client and the bytes behind the HELLO frame.\<close>

definition DialRunner :: "(byte list \<Rightarrow> json option) \<Rightarrow> string \<Rightarrow> byte list \<Rightarrow> dial_error + client \<times> byte list" where
  "DialRunner parse socketPath bs =
     (case Read bs of
        Inl e \<Rightarrow> Inl (NoHello e)
      | Inr (f, rest) \<Rightarrow>
          if type_of (fr_Type f) \<noteq> Hello then Inl (NotHello (fr_Type f))
          else (case unmarshal (dec_struct dec_info) zero_info (parse (fr_Payload f)) of
              None \<Rightarrow> Inl BadHello
            | Some info \<Rightarrow>
                if ri_ID info = [] then Inl EmptyID
                else if \<not> IsCompatibleVersion (ri_ProtocolVersion info)
                then Inl (IncompatibleVersion (ri_ProtocolVersion info))
                else Inr (new_client (info\<lparr>ri_SocketPath := socketPath\<rparr>), rest)))"

definition startReader :: "client \<Rightarrow> client" where
  "startReader c = (if cl_Reader c = NotStarted then c\<lparr>cl_Reader := Reading False\<rparr> else c)"

definition HasExited :: "client \<Rightarrow> bool" where "HasExited c = cl_Exited c"

section \<open>Writing\<close>

text \<open>\<open>ok\<close> is whether the connection takes the whole frame; what was written goes to the peer.\<close>

definition client_write :: "bool \<Rightarrow> frame_type \<Rightarrow> byte list \<Rightarrow> client \<Rightarrow> control_error option \<times> frame list" where
  "client_write ok typ payload c =
     (if cl_Closed c then (Some NetClosed, [])
      else if \<not> ok \<or> \<not> cl_Conn c \<or> Encode (type_byte typ) payload = None then (Some WriteFailed, [])
      else (None, [\<lparr>fr_Type = type_byte typ, fr_Payload = payload\<rparr>]))"

definition client_Input :: "bool \<Rightarrow> byte list \<Rightarrow> client \<Rightarrow> (control_error option \<times> frame list) \<times> client" where
  "client_Input ok data c = (client_write ok Input data (startReader c), startReader c)"

definition client_Resize ::
  "(json \<Rightarrow> byte list) \<Rightarrow> bool \<Rightarrow> int \<Rightarrow> int \<Rightarrow> client \<Rightarrow> (control_error option \<times> frame list) \<times> client" where
  "client_Resize text ok cols rows c =
     (client_write ok Resize (text (JObj [(''cols'', JInt cols), (''rows'', JInt rows)])) (startReader c), startReader c)"

definition client_Kill :: "bool \<Rightarrow> client \<Rightarrow> (control_error option \<times> frame list) \<times> client" where
  "client_Kill ok c = (client_write ok Kill [] (startReader c), startReader c)"

definition client_Approve ::
  "(json \<Rightarrow> byte list) \<Rightarrow> bool \<Rightarrow> approval_control \<Rightarrow> client \<Rightarrow> (control_error option \<times> frame list) \<times> client" where
  "client_Approve text ok control c =
     (if ri_ProtocolVersion (cl_Info c) < 3 then ((Some (OldProtocol (ri_ProtocolVersion (cl_Info c))), []), c)
      else (case EncodeApprovalControl control of
          None \<Rightarrow> ((Some BadAnswer, []), c)
        | Some j \<Rightarrow> (client_write ok Approve (text j) (startReader c), startReader c)))"

section \<open>Replay\<close>

definition finishReplay :: "nat \<Rightarrow> client \<Rightarrow> client" where
  "finishReplay i c = (case cl_Replay c of
     Some q \<Rightarrow> if pq_Id q = i then c\<lparr>cl_Replay := Some (q\<lparr>pq_Done := True\<rparr>)\<rparr> else c | None \<Rightarrow> c)"

definition replay_begin :: "client \<Rightarrow> replay_window + client" where
  "replay_begin c0 = (let c = startReader c0 in
     if cl_Closed c
     then Inl \<lparr>rw_Events = [], rw_Structured = [], rw_Gap = False,
       rw_Oldest = ri_CurrentSeq (cl_Info c) + 1, rw_Current = ri_CurrentSeq (cl_Info c)\<rparr>
     else Inr (c\<lparr>cl_Replay := Some \<lparr>pq_Id = cl_NextRequest c, pq_Done = False, pq_Events = [], pq_Structured = []\<rparr>,
       cl_NextRequest := cl_NextRequest c + 1\<rparr>))"

definition replay_give_up :: "client \<Rightarrow> client" where
  "replay_give_up c = (case cl_Replay c of None \<Rightarrow> c | Some q \<Rightarrow> finishReplay (pq_Id q) c)"

text \<open>The end of the call, once the request is done.\<close>

definition replay_end :: "32 word \<Rightarrow> client \<Rightarrow> (replay_window \<times> client) option" where
  "replay_end after c = (case cl_Replay c of None \<Rightarrow> None
     | Some q \<Rightarrow> if \<not> pq_Done q then None
         else let events = pq_Events q; current = ri_CurrentSeq (cl_Info c);
                  oldest = (case events of [] \<Rightarrow> current + 1 | e # _ \<Rightarrow> ou_Seq e)
              in Some (\<lparr>rw_Events = events, rw_Structured = pq_Structured q,
                   rw_Gap = (current > after \<and> (events = [] \<or> after + 1 < oldest)),
                   rw_Oldest = oldest, rw_Current = current\<rparr>, c\<lparr>cl_Replay := None\<rparr>))"

section \<open>Model and retry controls\<close>

definition finish_request :: "nat \<Rightarrow> control_error option \<Rightarrow> control_request option \<Rightarrow> control_request option" where
  "finish_request i e r = (case r of None \<Rightarrow> None
     | Some q \<Rightarrow> if cq_Id q = i then Some (q\<lparr>cq_Err := e, cq_Done := True\<rparr>) else Some q)"

definition finishModel :: "nat \<Rightarrow> control_error option \<Rightarrow> client \<Rightarrow> client" where
  "finishModel i e c = c\<lparr>cl_Model := finish_request i e (cl_Model c)\<rparr>"

definition finishRetry :: "nat \<Rightarrow> control_error option \<Rightarrow> client \<Rightarrow> client" where
  "finishRetry i e c = c\<lparr>cl_Retry := finish_request i e (cl_Retry c)\<rparr>"

definition new_request :: "nat \<Rightarrow> control_request" where
  "new_request i = \<lparr>cq_Id = i, cq_Done = False, cq_Err = None\<rparr>"

definition model_begin :: "client \<Rightarrow> control_error + client" where
  "model_begin c0 =
     (if ri_ProtocolVersion (cl_Info c0) < 2 then Inl (OldProtocol (ri_ProtocolVersion (cl_Info c0)))
      else let c = startReader c0 in
        if cl_Closed c then Inl NetClosed
        else Inr (c\<lparr>cl_Model := Some (new_request (cl_NextRequest c)), cl_NextRequest := cl_NextRequest c + 1\<rparr>))"

definition retry_begin :: "client \<Rightarrow> control_error + client" where
  "retry_begin c0 =
     (if ri_ProtocolVersion (cl_Info c0) < 4 then Inl (OldProtocol (ri_ProtocolVersion (cl_Info c0)))
      else let c = startReader c0 in
        if cl_Closed c then Inl NetClosed
        else Inr (c\<lparr>cl_Retry := Some (new_request (cl_NextRequest c)), cl_NextRequest := cl_NextRequest c + 1\<rparr>))"

definition model_give_up :: "control_error \<Rightarrow> client \<Rightarrow> client" where
  "model_give_up e c = (case cl_Model c of None \<Rightarrow> c | Some q \<Rightarrow> finishModel (cq_Id q) (Some e) c)"

definition retry_give_up :: "control_error \<Rightarrow> client \<Rightarrow> client" where
  "retry_give_up e c = (case cl_Retry c of None \<Rightarrow> c | Some q \<Rightarrow> finishRetry (cq_Id q) (Some e) c)"

definition model_end :: "client \<Rightarrow> (control_error option \<times> client) option" where
  "model_end c = (case cl_Model c of None \<Rightarrow> None
     | Some q \<Rightarrow> if cq_Done q then Some (cq_Err q, c\<lparr>cl_Model := None\<rparr>) else None)"

definition retry_end :: "client \<Rightarrow> (control_error option \<times> client) option" where
  "retry_end c = (case cl_Retry c of None \<Rightarrow> None
     | Some q \<Rightarrow> if cq_Done q then Some (cq_Err q, c\<lparr>cl_Retry := None\<rparr>) else None)"

section \<open>Messages\<close>

definition lateMessageResultLimit :: nat where "lateMessageResultLimit = 64"

definition retainLateResult :: "message_result \<Rightarrow> client \<Rightarrow> client" where
  "retainLateResult r c =
     (let op = mr_OperationID r in
      if op = [] then c
      else let c1 = (if cl_LateMessages c op \<noteq> None then c
                     else let c0 = (if length (cl_LateOrder c) \<ge> lateMessageResultLimit
                            then c\<lparr>cl_LateMessages := (cl_LateMessages c)(hd (cl_LateOrder c) := None),
                                   cl_LateOrder := tl (cl_LateOrder c),
                                   cl_Evicted := cl_Evicted c @ [hd (cl_LateOrder c)]\<rparr>
                            else c)
                          in c0\<lparr>cl_LateOrder := cl_LateOrder c0 @ [op]\<rparr>)
           in c1\<lparr>cl_LateMessages := (cl_LateMessages c1)(op := Some r)\<rparr>)"

definition LateMessageResult :: "string \<Rightarrow> client \<Rightarrow> message_result option" where
  "LateMessageResult op c = cl_LateMessages c op"

datatype submit_error = SubmitCancelled | NoMessageControl | Invalid message_error | SubmitClosed | AlreadyInFlight

text \<open>Up to the registration; \<open>cancelled\<close> is whether the caller's context has ended already.\<close>

definition submit_begin :: "bool \<Rightarrow> message_control \<Rightarrow> client \<Rightarrow> submit_error + client" where
  "submit_begin cancelled control c0 =
     (if cancelled then Inl SubmitCancelled
      else if \<not> ri_MessageSubmit (cl_Info c0) then Inl NoMessageControl
      else (case ValidateMessage control of Some e \<Rightarrow> Inl (Invalid e)
        | None \<Rightarrow>
          (let c = startReader c0; op = mg_OperationID control in
           if cl_Closed c then Inl SubmitClosed
           else if (case cl_Messages c op of Some w \<Rightarrow> wt_Open w | None \<Rightarrow> False) then Inl AlreadyInFlight
           else Inr (c\<lparr>cl_Messages := (cl_Messages c)(op := Some \<lparr>wt_Answer = None, wt_Open = True, wt_Leaving = False\<rparr>)\<rparr>))))"

text \<open>The answer the caller receives: one that is in the channel, or the closed channel.\<close>

definition submit_receive :: "string \<Rightarrow> client \<Rightarrow> ((submit_error + message_result) \<times> client) option" where
  "submit_receive op c = (case cl_Messages c op of None \<Rightarrow> None
     | Some w \<Rightarrow> if wt_Leaving w then None
         else (case wt_Answer w of
             Some r \<Rightarrow> Some (Inr r, c\<lparr>cl_Messages := (cl_Messages c)(op := Some (w\<lparr>wt_Answer := None, wt_Leaving := True\<rparr>)),
                 cl_Returned := cl_Returned c @ [(op, r)]\<rparr>)
           | None \<Rightarrow> if wt_Open w then None
               else Some (Inl SubmitClosed, c\<lparr>cl_Messages := (cl_Messages c)(op := Some (w\<lparr>wt_Leaving := True\<rparr>))\<rparr>)))"

definition submit_give_up :: "string \<Rightarrow> client \<Rightarrow> client" where
  "submit_give_up op c = (case cl_Messages c op of None \<Rightarrow> c
     | Some w \<Rightarrow> c\<lparr>cl_Messages := (cl_Messages c)(op := Some (w\<lparr>wt_Leaving := True\<rparr>))\<rparr>)"

definition finishMessageWaiter :: "string \<Rightarrow> client \<Rightarrow> client" where
  "finishMessageWaiter op c = (case cl_Messages c op of None \<Rightarrow> c
     | Some w \<Rightarrow>
         (let c1 = c\<lparr>cl_Messages := (cl_Messages c)(op := None)\<rparr>
          in case wt_Answer w of None \<Rightarrow> c1 | Some r \<Rightarrow> retainLateResult r c1))"

definition handleMessageResponse :: "json option \<Rightarrow> client \<Rightarrow> client" where
  "handleMessageResponse text c = (case unmarshal (dec_struct dec_message_result) zero_message_result text of
       None \<Rightarrow> c
     | Some r \<Rightarrow>
         (let c1 = c\<lparr>cl_Answers := cl_Answers c @ [r]\<rparr>
          in case cl_Messages c (mr_OperationID r) of
               Some w \<Rightarrow>
                 if wt_Open w
                 then (if wt_Answer w = None
                       then c1\<lparr>cl_Messages := (cl_Messages c)(mr_OperationID r := Some (w\<lparr>wt_Answer := Some r\<rparr>))\<rparr>
                       else c1)
                 else retainLateResult r c1
             | None \<Rightarrow> retainLateResult r c1))"

section \<open>Subscriptions\<close>

definition Subscribe :: "client \<Rightarrow> client" where
  "Subscribe c = (case cl_Terminal c of
     Some e \<Rightarrow> c\<lparr>cl_Streams := cl_Streams c @ [ended_stream e]\<rparr>
   | None \<Rightarrow> startReader (c\<lparr>cl_Streams := cl_Streams c @ [new_stream]\<rparr>))"

definition Unsubscribe :: "nat \<Rightarrow> client \<Rightarrow> client" where
  "Unsubscribe i c = c\<lparr>cl_Streams := cancel i (cl_Streams c)\<rparr>"

definition broadcastLocked :: "runner_event \<Rightarrow> client \<Rightarrow> client" where
  "broadcastLocked e c = c\<lparr>cl_Streams := broadcast e (cl_Streams c)\<rparr>"

definition broadcastTerminal :: "(nat \<Rightarrow> nat) \<Rightarrow> runner_event \<Rightarrow> client \<Rightarrow> client" where
  "broadcastTerminal ns e c = c\<lparr>cl_Terminal := Some e, cl_Streams := broadcast_last ns e (cl_Streams c)\<rparr>"

section \<open>The reader\<close>

definition handleModelResponse :: "json option \<Rightarrow> client \<Rightarrow> finish option" where
  "handleModelResponse text c =
     (let err = (case unmarshal (dec_struct dec_control_result) [] text of
          None \<Rightarrow> Some BadAnswer | Some e \<Rightarrow> if e = [] then None else Some (RunnerRefused e))
      in map_option (\<lambda>q. FinishModel (cq_Id q) err) (cl_Model c))"

definition handleRetryResponse :: "json option \<Rightarrow> client \<Rightarrow> finish option" where
  "handleRetryResponse text c =
     (let err = (case unmarshal (dec_struct dec_control_result) [] text of
          None \<Rightarrow> Some BadAnswer | Some e \<Rightarrow> if e = [] then None else Some (RunnerRefused e))
      in map_option (\<lambda>q. FinishRetry (cq_Id q) err) (cl_Retry c))"

definition appendStructured :: "byte list \<Rightarrow> replay_request \<Rightarrow> replay_request" where
  "appendStructured raw q = q\<lparr>pq_Structured := fst (RetainStructuredHistory (pq_Structured q) raw)\<rparr>"

text \<open>The new state, the request to finish in a second locked section, and whether it was a clean exit.\<close>

definition handleFrame ::
  "(byte list \<Rightarrow> json option) \<Rightarrow> int \<Rightarrow> (nat \<Rightarrow> nat) \<Rightarrow> frame \<Rightarrow> client \<Rightarrow> client \<times> finish option \<times> bool" where
  "handleFrame parse now ns f c =
     (let text = parse (fr_Payload f); hangup = (c\<lparr>cl_Conn := False\<rparr>, None, False) in
      case type_of (fr_Type f) of
        Output \<Rightarrow>
          (case DecodeOutput (fr_Payload f) of
             None \<Rightarrow> hangup
           | Some (seq, data) \<Rightarrow>
               let out = \<lparr>ou_Seq = seq, ou_Data = data, ou_At = now\<rparr>;
                   c1 = c\<lparr>cl_Info := (cl_Info c)\<lparr>ri_CurrentSeq := seq\<rparr>,
                     cl_Replay := map_option (\<lambda>q. q\<lparr>pq_Events := pq_Events q @ [out]\<rparr>) (cl_Replay c)\<rparr>
               in (broadcastLocked (EventOutput out) c1, None, False))
      | Exit \<Rightarrow>
          (case unmarshal (dec_struct dec_exit) zero_exit text of
             None \<Rightarrow> hangup
           | Some x \<Rightarrow>
               (broadcastTerminal ns (EventExit x)
                  (c\<lparr>cl_Exited := True, cl_Info := (cl_Info c)\<lparr>ri_CurrentSeq := xe_Seq x\<rparr>, cl_Conn := False\<rparr>), None, True))
      | ReplayDone \<Rightarrow> (c, map_option (\<lambda>q. FinishReplay (pq_Id q)) (cl_Replay c), False)
      | Structured \<Rightarrow>
          (case cl_Replay c of
             Some q \<Rightarrow> (c\<lparr>cl_Replay := Some (appendStructured (fr_Payload f) q)\<rparr>, None, False)
           | None \<Rightarrow> (broadcastLocked (EventCodex (fr_Payload f) 0 0) c, None, False))
      | ModelRes \<Rightarrow> (c, handleModelResponse text c, False)
      | RetryState \<Rightarrow>
          (case unmarshal (dec_struct dec_retry_state) None text of
             None \<Rightarrow> hangup
           | Some r \<Rightarrow> (broadcastLocked (EventRetry r) c, None, False))
      | RetryRes \<Rightarrow> (c, handleRetryResponse text c, False)
      | MessageRes \<Rightarrow> (handleMessageResponse text c, None, False)
      | _ \<Rightarrow> (c, None, False))"

fun apply_finish :: "finish \<Rightarrow> client \<Rightarrow> client" where
  "apply_finish (FinishReplay i) c = finishReplay i c"
| "apply_finish (FinishModel i e) c = finishModel i e c"
| "apply_finish (FinishRetry i e) c = finishRetry i e c"

definition close_request :: "control_request option \<Rightarrow> control_request option" where
  "close_request r = map_option (\<lambda>q. q\<lparr>cq_Err := Some NetClosed, cq_Done := True\<rparr>) r"

definition closeWithLoss :: "(nat \<Rightarrow> nat) \<Rightarrow> bool \<Rightarrow> client \<Rightarrow> client" where
  "closeWithLoss ns cleanExit c =
     (if cl_Closed c then c
      else let c1 = c\<lparr>cl_Closed := True,
             cl_Messages := (\<lambda>op. map_option (\<lambda>w. w\<lparr>wt_Open := False\<rparr>) (cl_Messages c op)),
             cl_Replay := map_option (\<lambda>q. q\<lparr>pq_Done := True\<rparr>) (cl_Replay c),
             cl_Model := close_request (cl_Model c), cl_Retry := close_request (cl_Retry c)\<rparr>
           in if \<not> cleanExit \<and> \<not> cl_Exited c
              then broadcastTerminal ns
                (EventRunnerLost \<lparr>xe_Code = None, xe_Signal = None, xe_Seq = ri_CurrentSeq (cl_Info c), xe_Reason = ''runner-lost''\<rparr>) c1
              else c1\<lparr>cl_Streams := map (\<lambda>st. if st_Open st then shut st else st) (cl_Streams c1)\<rparr>)"

text \<open>One turn of \<open>readLoop\<close> with a frame, the second section of a response, and a failed read.\<close>

definition read_frame :: "(byte list \<Rightarrow> json option) \<Rightarrow> int \<Rightarrow> (nat \<Rightarrow> nat) \<Rightarrow> frame \<Rightarrow> bool \<Rightarrow> client \<Rightarrow> client" where
  "read_frame parse now ns f cleanExit c =
     (let (c1, fin, clean) = handleFrame parse now ns f c
      in c1\<lparr>cl_Reader := (case fin of None \<Rightarrow> Reading (clean \<or> cleanExit) | Some x \<Rightarrow> Finishing x (clean \<or> cleanExit))\<rparr>)"

definition read_error :: "(nat \<Rightarrow> nat) \<Rightarrow> bool \<Rightarrow> client \<Rightarrow> client" where
  "read_error ns cleanExit c = (closeWithLoss ns cleanExit c)\<lparr>cl_Reader := Returned\<rparr>"

section \<open>The steps\<close>

text \<open>
  \<open>replayMu\<close>, \<open>modelMu\<close> and \<open>retryMu\<close> are held for a whole call, so a call begins only when none of
  its kind is under way.  A failed read can come at any time, and is the only thing that comes once
  the connection is closed on this side.
\<close>

inductive client_step :: "(byte list \<Rightarrow> json option) \<Rightarrow> client \<Rightarrow> client \<Rightarrow> bool" for parse where
  step_control: "client_step parse c (startReader c)"
| step_subscribe: "client_step parse c (Subscribe c)"
| step_unsubscribe: "client_step parse c (Unsubscribe i c)"
| step_consume: "client_step parse c (c\<lparr>cl_Streams := consume i (cl_Streams c)\<rparr>)"
| step_replay_begin: "cl_Replay c = None \<Longrightarrow> replay_begin c = Inr c' \<Longrightarrow> client_step parse c c'"
| step_replay_give_up: "client_step parse c (replay_give_up c)"
| step_replay_end: "replay_end after c = Some (w, c') \<Longrightarrow> client_step parse c c'"
| step_model_begin: "cl_Model c = None \<Longrightarrow> model_begin c = Inr c' \<Longrightarrow> client_step parse c c'"
| step_model_give_up: "client_step parse c (model_give_up e c)"
| step_model_end: "model_end c = Some (w, c') \<Longrightarrow> client_step parse c c'"
| step_retry_begin: "cl_Retry c = None \<Longrightarrow> retry_begin c = Inr c' \<Longrightarrow> client_step parse c c'"
| step_retry_give_up: "client_step parse c (retry_give_up e c)"
| step_retry_end: "retry_end c = Some (w, c') \<Longrightarrow> client_step parse c c'"
| step_submit_begin: "submit_begin cancelled control c = Inr c' \<Longrightarrow> client_step parse c c'"
| step_submit_receive: "submit_receive op c = Some (r, c') \<Longrightarrow> client_step parse c c'"
| step_submit_give_up: "cl_Messages c op = Some w \<Longrightarrow> \<not> wt_Leaving w \<Longrightarrow> client_step parse c (submit_give_up op c)"
| step_submit_finish: "cl_Messages c op = Some w \<Longrightarrow> wt_Leaving w \<Longrightarrow> client_step parse c (finishMessageWaiter op c)"
| step_read: "cl_Reader c = Reading clean \<Longrightarrow> cl_Conn c \<Longrightarrow> client_step parse c (read_frame parse now ns f clean c)"
| step_finish: "cl_Reader c = Finishing x clean \<Longrightarrow>
    client_step parse c ((apply_finish x c)\<lparr>cl_Reader := Reading clean\<rparr>)"
| step_read_error: "cl_Reader c = Reading clean \<Longrightarrow> client_step parse c (read_error ns clean c)"

definition client_start :: "client \<Rightarrow> bool" where
  "client_start c \<longleftrightarrow> (\<exists>info. c = new_client info)"

abbreviation client_reached :: "(byte list \<Rightarrow> json option) \<Rightarrow> client \<Rightarrow> bool" where
  "client_reached parse \<equiv> reached (client_step parse) client_start"

section \<open>The life of a connection\<close>

text \<open>The fields that the end of a connection is about; most operations leave all of them alone.\<close>

definition core :: "client \<Rightarrow> bool \<times> reader \<times> bool \<times> bool \<times> runner_event stream list \<times> runner_event option" where
  "core c = (cl_Conn c, cl_Reader c, cl_Exited c, cl_Closed c, cl_Streams c, cl_Terminal c)"

definition core_inv :: "client \<Rightarrow> bool" where
  "core_inv c \<longleftrightarrow>
     (cl_Exited c \<longrightarrow> \<not> cl_Conn c \<and> (\<exists>x. cl_Terminal c = Some (EventExit x)))
     \<and> (cl_Closed c \<longrightarrow> cl_Terminal c \<noteq> None) \<and> (\<forall>e. cl_Terminal c = Some e \<longrightarrow> ends_feed e)
     \<and> (cl_Closed c \<longleftrightarrow> cl_Reader c = Returned)
     \<and> (cl_Terminal c \<noteq> None \<longrightarrow> (cl_Exited c \<or> cl_Closed c) \<and> (\<forall>st \<in> set (cl_Streams c). \<not> st_Open st))
     \<and> (\<forall>x. cl_Reader c = Reading True \<or> cl_Reader c = Finishing x True \<longrightarrow> cl_Exited c)"

lemma core_inv_cong: "core c' = core c \<Longrightarrow> core_inv c' = core_inv c"
  by (simp add: core_def core_inv_def)

lemma startReader_core [simp]:
  "cl_Conn (startReader c) = cl_Conn c" "cl_Exited (startReader c) = cl_Exited c"
  "cl_Closed (startReader c) = cl_Closed c" "cl_Streams (startReader c) = cl_Streams c"
  "cl_Terminal (startReader c) = cl_Terminal c" "cl_Info (startReader c) = cl_Info c"
  "cl_Replay (startReader c) = cl_Replay c" "cl_Model (startReader c) = cl_Model c"
  "cl_Retry (startReader c) = cl_Retry c" "cl_NextRequest (startReader c) = cl_NextRequest c"
  "cl_Messages (startReader c) = cl_Messages c" "cl_LateMessages (startReader c) = cl_LateMessages c"
  "cl_LateOrder (startReader c) = cl_LateOrder c" "cl_Answers (startReader c) = cl_Answers c"
  "cl_Returned (startReader c) = cl_Returned c" "cl_Evicted (startReader c) = cl_Evicted c"
  by (simp_all add: startReader_def)

lemma startReader_inv: "core_inv c \<Longrightarrow> core_inv (startReader c)"
  by (auto simp: core_inv_def startReader_def)

lemma retain_core [simp]: "core (retainLateResult r c) = core c"
  by (simp add: retainLateResult_def core_def Let_def)

lemma quiet_core [simp]:
  "core (finishReplay i c) = core c" "core (finishModel i e c) = core c" "core (finishRetry i e c) = core c"
  "core (replay_give_up c) = core c" "core (model_give_up ce c) = core c" "core (retry_give_up ce c) = core c"
  "core (submit_give_up op c) = core c" "core (finishMessageWaiter op c) = core c"
  "core (handleMessageResponse text c) = core c" "core (apply_finish x c) = core c"
proof -
  show r: "core (finishReplay i c) = core c" for i by (simp add: finishReplay_def core_def split: option.splits)
  show m: "core (finishModel i e c) = core c" for i e by (simp add: finishModel_def core_def)
  show t: "core (finishRetry i e c) = core c" for i e by (simp add: finishRetry_def core_def)
  show "core (replay_give_up c) = core c" by (simp add: replay_give_up_def r split: option.splits)
  show "core (model_give_up ce c) = core c" by (simp add: model_give_up_def m split: option.splits)
  show "core (retry_give_up ce c) = core c" by (simp add: retry_give_up_def t split: option.splits)
  show "core (submit_give_up op c) = core c" by (simp add: submit_give_up_def core_def split: option.splits)
  have "core (c\<lparr>cl_Answers := y, cl_Messages := x\<rparr>) = core c" "core (c\<lparr>cl_Messages := x\<rparr>) = core c"
    "core (c\<lparr>cl_Answers := y\<rparr>) = core c" for x y by (simp_all add: core_def)
  then show "core (finishMessageWaiter op c) = core c" "core (handleMessageResponse text c) = core c"
    by (simp_all add: finishMessageWaiter_def handleMessageResponse_def Let_def split: option.splits)
  show "core (apply_finish x c) = core c" by (cases x) (simp_all add: r m t)
qed

lemma quiet_end:
  "replay_end after c = Some (w, c') \<Longrightarrow> core c' = core c" "model_end c = Some (me, c') \<Longrightarrow> core c' = core c"
  "retry_end c = Some (re, c') \<Longrightarrow> core c' = core c" "submit_receive op c = Some (r, c') \<Longrightarrow> core c' = core c"
  by (auto simp: replay_end_def model_end_def retry_end_def submit_receive_def core_def Let_def
      split: option.splits if_splits)

lemma quiet_begin:
  "replay_begin c = Inr c' \<Longrightarrow> core c' = core (startReader c)" "model_begin c = Inr c' \<Longrightarrow> core c' = core (startReader c)"
  "retry_begin c = Inr c' \<Longrightarrow> core c' = core (startReader c)"
  "submit_begin cancelled control c = Inr c' \<Longrightarrow> core c' = core (startReader c)"
  by (auto simp: replay_begin_def model_begin_def retry_begin_def submit_begin_def core_def Let_def
      split: option.splits if_splits)

text \<open>What a frame does to the end of the connection: nothing, a hang-up, an event, or the exit.\<close>

lemma handleFrame_core:
  assumes "handleFrame parse now ns f c = (c', fin, clean)"
  shows "(clean = False \<and> (core c' = core c \<or> core c' = core (c\<lparr>cl_Conn := False\<rparr>)
            \<or> (\<exists>e. \<not> ends_feed e \<and> core c' = core (broadcastLocked e c))))
       \<or> (clean \<and> fin = None \<and> (\<exists>x. core c' = core (broadcastTerminal ns (EventExit x) (c\<lparr>cl_Exited := True, cl_Conn := False\<rparr>))))"
proof (cases "type_of (fr_Type f)")
  case Output
  show ?thesis
  proof (cases "DecodeOutput (fr_Payload f)")
    case None
    then show ?thesis using assms Output by (auto simp: handleFrame_def Let_def)
  next
    case (Some sd)
    let ?e = "EventOutput \<lparr>ou_Seq = fst sd, ou_Data = snd sd, ou_At = now\<rparr>"
    have "core c' = core (broadcastLocked ?e c)" "clean = False"
      using assms Output Some
      by (auto simp: handleFrame_def Let_def broadcastLocked_def core_def split: prod.splits)
    then show ?thesis by (metis ends_feed.simps(3))
  qed
next
  case Exit
  then show ?thesis using assms
    by (auto simp: handleFrame_def Let_def broadcastTerminal_def core_def split: option.splits)
next
  case Structured
  then show ?thesis using assms
    by (auto simp: handleFrame_def Let_def broadcastLocked_def core_def split: option.splits intro: exI [of _ "EventCodex (fr_Payload f) 0 0"])
next
  case RetryState
  then show ?thesis using assms
    by (auto simp: handleFrame_def Let_def broadcastLocked_def core_def split: option.splits intro: exI [of _ "EventRetry _"])
qed (use assms in \<open>auto simp: handleFrame_def Let_def\<close>)

text \<open>Every step, seen from there.\<close>

lemma step_core:
  assumes "client_step parse c c'"
  shows "core c' = core c \<or> core c' = core (startReader c) \<or> c' = Subscribe c \<or> (\<exists>i. c' = Unsubscribe i c)
    \<or> (\<exists>i. c' = c\<lparr>cl_Streams := consume i (cl_Streams c)\<rparr>)
    \<or> (\<exists>now ns f clean. cl_Reader c = Reading clean \<and> cl_Conn c \<and> c' = read_frame parse now ns f clean c)
    \<or> (\<exists>x clean. cl_Reader c = Finishing x clean \<and> core c' = core (c\<lparr>cl_Reader := Reading clean\<rparr>))
    \<or> (\<exists>ns clean. cl_Reader c = Reading clean \<and> c' = read_error ns clean c)"
  using assms
proof (cases rule: client_step.cases)
  case (step_replay_begin)
  then show ?thesis using quiet_begin(1) by simp
next
  case (step_replay_end after w)
  then show ?thesis using quiet_end(1) by simp
next
  case (step_model_begin)
  then show ?thesis using quiet_begin(2) by simp
next
  case (step_model_end w)
  then show ?thesis using quiet_end(2) by simp
next
  case (step_retry_begin)
  then show ?thesis using quiet_begin(3) by simp
next
  case (step_retry_end w)
  then show ?thesis using quiet_end(3) by simp
next
  case (step_submit_begin cancelled control)
  then show ?thesis using quiet_begin(4) by simp
next
  case (step_submit_receive op r)
  then show ?thesis using quiet_end(4) by simp
next
  case (step_finish x clean)
  have "core (apply_finish x c) = core c" by simp
  then have "core c' = core (c\<lparr>cl_Reader := Reading clean\<rparr>)" using step_finish(1) by (simp add: core_def)
  then show ?thesis using step_finish(2) by blast
next
  case (step_read clean now f ns)
  then show ?thesis by blast
next
  case (step_read_error clean ns)
  then show ?thesis by blast
next
  case (step_unsubscribe i)
  then show ?thesis by blast
next
  case (step_consume i)
  then show ?thesis by blast
qed simp_all

lemma core_fields:
  assumes "core c' = core c"
  shows "cl_Conn c' = cl_Conn c" "cl_Reader c' = cl_Reader c" "cl_Exited c' = cl_Exited c" "cl_Closed c' = cl_Closed c"
    "cl_Streams c' = cl_Streams c" "cl_Terminal c' = cl_Terminal c"
  using assms by (simp_all add: core_def)

lemma broadcast_none_open: "\<forall>st \<in> set ss. \<not> st_Open st \<Longrightarrow> broadcast e ss = ss"
  by (simp add: broadcast_def map_idI)

lemma broadcast_last_shuts: "st \<in> set (broadcast_last ns e ss) \<Longrightarrow> \<not> st_Open st"
  by (auto dest!: set_broadcast_last split: if_splits)

lemma shut_all_closed: "\<forall>st \<in> set ss. \<not> st_Open st \<Longrightarrow> map (\<lambda>st. if st_Open st then shut st else st) ss = ss"
  by (simp add: map_idI)

lemma read_frame_inv:
  assumes "core_inv c" and "cl_Reader c = Reading clean0" and "cl_Conn c"
  shows "core_inv (read_frame parse now ns f clean0 c)
    \<and> feed_move ends_feed (cl_Terminal c, cl_Streams c)
        (cl_Terminal (read_frame parse now ns f clean0 c), cl_Streams (read_frame parse now ns f clean0 c))"
proof -
  obtain c1 fin clean where h: "handleFrame parse now ns f c = (c1, fin, clean)" using prod_cases3 by blast
  have live: "\<not> cl_Exited c" "\<not> cl_Closed c" "cl_Terminal c = None" "clean0 = False"
    using assms by (auto simp: core_inv_def)
  let ?r = "case fin of None \<Rightarrow> Reading clean | Some x \<Rightarrow> Finishing x clean"
  have r: "read_frame parse now ns f False c = c1\<lparr>cl_Reader := ?r\<rparr>" using h by (simp add: read_frame_def cong: option.case_cong)
  from handleFrame_core [OF h] consider
      (same) "clean = False" "core c1 = core c"
    | (hangup) "clean = False" "core c1 = core (c\<lparr>cl_Conn := False\<rparr>)"
    | (event) e where "clean = False" "\<not> ends_feed e" "core c1 = core (broadcastLocked e c)"
    | (exit) x where "clean" "fin = None" "core c1 = core (broadcastTerminal ns (EventExit x) (c\<lparr>cl_Exited := True, cl_Conn := False\<rparr>))"
    by blast
  then show ?thesis
  proof cases
    case same
    then show ?thesis using core_fields [OF same(2)] live
      by (auto simp: r live core_inv_def intro: move_stay split: option.splits)
  next
    case hangup
    then show ?thesis using core_fields [OF hangup(2)] live
      by (auto simp: r live core_inv_def intro: move_stay split: option.splits)
  next
    case event
    then show ?thesis using core_fields [OF event(3)] live
      by (auto simp: r live core_inv_def broadcastLocked_def intro: move_broadcast split: option.splits)
  next
    case exit
    have m: "feed_move ends_feed (None, cl_Streams c) (Some (EventExit x), broadcast_last ns (EventExit x) (cl_Streams c))"
      by (rule move_last) simp
    show ?thesis using core_fields [OF exit(3)] exit live m
      by (auto simp: r live core_inv_def broadcastTerminal_def dest: broadcast_last_shuts)
  qed
qed

lemma read_error_inv:
  assumes "core_inv c" and "cl_Reader c = Reading clean"
  shows "core_inv (read_error ns clean c)
    \<and> feed_move ends_feed (cl_Terminal c, cl_Streams c) (cl_Terminal (read_error ns clean c), cl_Streams (read_error ns clean c))"
proof -
  have live: "\<not> cl_Closed c" "clean \<longrightarrow> cl_Exited c" using assms by (auto simp: core_inv_def)
  show ?thesis
  proof (cases "cl_Exited c")
    case True
    then have "\<forall>st \<in> set (cl_Streams c). \<not> st_Open st" "cl_Terminal c \<noteq> None" using assms(1) by (auto simp: core_inv_def)
    then show ?thesis using True assms live shut_all_closed [of "cl_Streams c"]
      by (auto simp: read_error_def closeWithLoss_def Let_def core_inv_def intro: move_stay)
  next
    case False
    let ?x = "\<lparr>xe_Code = None, xe_Signal = None, xe_Seq = ri_CurrentSeq (cl_Info c), xe_Reason = ''runner-lost''\<rparr>"
    have "cl_Terminal c = None" using False live assms(1) by (auto simp: core_inv_def)
    moreover have "feed_move ends_feed (None, cl_Streams c) (Some (EventRunnerLost ?x), broadcast_last ns (EventRunnerLost ?x) (cl_Streams c))"
      by (rule move_last) simp
    ultimately show ?thesis using False live
      by (auto simp: read_error_def closeWithLoss_def Let_def core_inv_def broadcastTerminal_def dest: broadcast_last_shuts)
  qed
qed

lemma set_cancel: "st \<in> set (cancel i ss) \<Longrightarrow> st_Open st \<Longrightarrow> st \<in> set ss"
  by (auto simp: cancel_def dest: set_update split: if_splits)

lemma set_consume: "st \<in> set (consume i ss) \<Longrightarrow> \<exists>st0 \<in> set ss. st_Open st0 = st_Open st"
  by (fastforce simp: consume_def dest!: set_update split: if_splits)

lemma step_inv:
  assumes "client_step parse c c'" and "core_inv c"
  shows "core_inv c' \<and> feed_move ends_feed (cl_Terminal c, cl_Streams c) (cl_Terminal c', cl_Streams c')"
  using step_core [OF assms(1)]
proof (elim disjE exE conjE)
  assume e: "core c' = core c"
  then show ?thesis using assms(2) core_inv_cong [OF e] core_fields [OF e] by (simp add: move_stay)
next
  assume e: "core c' = core (startReader c)"
  then show ?thesis using startReader_inv [OF assms(2)] core_inv_cong [OF e] core_fields [OF e] by (simp add: move_stay)
next
  assume e: "c' = Subscribe c"
  show ?thesis
  proof (cases "cl_Terminal c")
    case None
    have m: "feed_move ends_feed (None, cl_Streams c) (None, cl_Streams c @ [new_stream])" by (rule move_subscribe)
    show ?thesis using None e assms(2) m by (auto simp: Subscribe_def core_inv_def startReader_def)
  next
    case (Some x)
    have "ends_feed x" using assms(2) Some by (auto simp: core_inv_def)
    then have "feed_move ends_feed (Some x, cl_Streams c) (Some x, cl_Streams c @ [ended_stream x])" by (rule move_subscribe_ended)
    then show ?thesis using Some e assms(2) by (auto simp: Subscribe_def core_inv_def ended_stream_def)
  qed
next
  fix i assume e: "c' = Unsubscribe i c"
  show ?thesis using assms(2) e by (auto simp: Unsubscribe_def core_inv_def intro: move_cancel dest: set_cancel)
next
  fix i assume e: "c' = c\<lparr>cl_Streams := consume i (cl_Streams c)\<rparr>"
  show ?thesis using assms(2) e by (auto simp: core_inv_def intro: move_consume dest: set_consume)
next
  fix now ns f clean
  assume "c' = read_frame parse now ns f clean c" "cl_Reader c = Reading clean" "cl_Conn c"
  then show ?thesis using read_frame_inv [OF assms(2)] by blast
next
  fix x clean
  assume e: "core c' = core (c\<lparr>cl_Reader := Reading clean\<rparr>)" and r: "cl_Reader c = Finishing x clean"
  show ?thesis using assms(2) core_fields [OF e] r by (auto simp: core_inv_def move_stay)
next
  fix ns clean
  assume "c' = read_error ns clean c" "cl_Reader c = Reading clean"
  then show ?thesis using read_error_inv [OF assms(2)] by blast
qed

lemma client_core_inv: "client_reached parse c \<Longrightarrow> core_inv c"
proof (induction rule: reached.induct)
  case (reached_init s)
  then show ?case by (auto simp: client_start_def new_client_def core_inv_def)
qed (use step_inv in blast)

text \<open>Subscribing is the only step that adds a stream.\<close>

interpretation runner_feed: prompt_feed "client_step parse" client_start ends_feed cl_Terminal cl_Streams for parse
proof
  fix s assume "client_start s"
  then show "cl_Terminal s = None \<and> cl_Streams s = []" by (auto simp: client_start_def new_client_def)
next
  fix s t assume "client_reached parse s" "client_step parse s t"
  then show "feed_move ends_feed (cl_Terminal s, cl_Streams s) (cl_Terminal t, cl_Streams t)"
    using client_core_inv step_inv by blast
next
  fix s t assume r: "client_reached parse s" and st: "client_step parse s t" and e: "cl_Terminal s \<noteq> None"
  have "core_inv t" using step_inv [OF st client_core_inv [OF r]] by blast
  moreover have "cl_Terminal t \<noteq> None"
    using step_inv [OF st client_core_inv [OF r]] e by (auto elim: feed_move.cases)
  ultimately have "\<forall>st \<in> set (cl_Streams t). \<not> st_Open st" by (simp add: core_inv_def)
  then show "cl_Streams t \<noteq> cl_Streams s @ [new_stream]" by (auto simp: new_stream_def)
qed

end
