(* ===== verification/Runner_Calls.thy ===== *)
theory Runner_Calls
  imports Runner_Client
begin

text \<open>
  What the callers of a runner client can rely on: who is told that the runner is gone, that no call
  waits for a connection that is closed, what happens to the acknowledgment of a message whatever
  its caller does, and what a control request is completed by.
\<close>

section \<open>Answers to messages\<close>

text \<open>Somebody has, or can still ask for, an answer to \<open>op\<close>, unless it was dropped as the oldest of 64.\<close>

definition accounted :: "string \<Rightarrow> client \<Rightarrow> bool" where
  "accounted op c \<longleftrightarrow> op \<in> fst ` set (cl_Returned c)
     \<or> (\<exists>w. cl_Messages c op = Some w \<and> wt_Answer w \<noteq> None)
     \<or> LateMessageResult op c \<noteq> None \<or> op \<in> set (cl_Evicted c)"

definition answers_inv :: "client \<Rightarrow> bool" where
  "answers_inv c \<longleftrightarrow>
     (\<forall>r \<in> set (cl_Answers c). mr_OperationID r \<noteq> [] \<longrightarrow> accounted (mr_OperationID r) c)"

definition genuine :: "client \<Rightarrow> bool" where
  "genuine c \<longleftrightarrow>
     (\<forall>op w r. cl_Messages c op = Some w \<and> wt_Answer w = Some r \<longrightarrow> mr_OperationID r = op \<and> r \<in> set (cl_Answers c))
     \<and> (\<forall>op r. cl_LateMessages c op = Some r \<longrightarrow> mr_OperationID r = op \<and> r \<in> set (cl_Answers c))
     \<and> (\<forall>(op, r) \<in> set (cl_Returned c). mr_OperationID r = op \<and> r \<in> set (cl_Answers c))"

definition late_inv :: "client \<Rightarrow> bool" where
  "late_inv c \<longleftrightarrow> distinct (cl_LateOrder c) \<and> set (cl_LateOrder c) = dom (cl_LateMessages c)
     \<and> length (cl_LateOrder c) \<le> lateMessageResultLimit"

definition open_inv :: "client \<Rightarrow> bool" where
  "open_inv c \<longleftrightarrow> (\<forall>op w. cl_Messages c op = Some w \<longrightarrow> wt_Open w = (\<not> cl_Closed c))
     \<and> (cl_Closed c \<longrightarrow> (\<forall>q. cl_Replay c = Some q \<longrightarrow> pq_Done q) \<and> (\<forall>q. cl_Model c = Some q \<longrightarrow> cq_Done q)
          \<and> (\<forall>q. cl_Retry c = Some q \<longrightarrow> cq_Done q))"

definition call_inv :: "client \<Rightarrow> bool" where
  "call_inv c \<longleftrightarrow> answers_inv c \<and> genuine c \<and> late_inv c \<and> open_inv c"

text \<open>What a step that has nothing to do with messages leaves alone.\<close>

definition mail :: "client \<Rightarrow> (string \<Rightarrow> waiter option) \<times> (string \<Rightarrow> message_result option) \<times> string list
    \<times> message_result list \<times> (string \<times> message_result) list \<times> string list" where
  "mail c = (cl_Messages c, cl_LateMessages c, cl_LateOrder c, cl_Answers c, cl_Returned c, cl_Evicted c)"

lemma mail_inv:
  assumes "mail c' = mail c"
  shows "answers_inv c' = answers_inv c" "genuine c' = genuine c" "late_inv c' = late_inv c"
    "cl_Messages c' = cl_Messages c"
  using assms by (simp_all add: mail_def answers_inv_def accounted_def LateMessageResult_def genuine_def late_inv_def)

section \<open>Keeping a late answer\<close>

lemma retain_other [simp]:
  "cl_Messages (retainLateResult r c) = cl_Messages c" "cl_Answers (retainLateResult r c) = cl_Answers c"
  "cl_Returned (retainLateResult r c) = cl_Returned c" "cl_Closed (retainLateResult r c) = cl_Closed c"
  "cl_Replay (retainLateResult r c) = cl_Replay c" "cl_Model (retainLateResult r c) = cl_Model c"
  "cl_Retry (retainLateResult r c) = cl_Retry c"
  by (simp_all add: retainLateResult_def Let_def)

lemma late_retain:
  assumes "late_inv c"
  shows "late_inv (retainLateResult r c)"
proof (cases "mr_OperationID r = [] \<or> cl_LateMessages c (mr_OperationID r) \<noteq> None")
  case True
  then show ?thesis using assms by (auto simp: retainLateResult_def Let_def late_inv_def)
next
  case False
  let ?op = "mr_OperationID r"
  have new: "?op \<notin> set (cl_LateOrder c)" using False assms by (auto simp: late_inv_def)
  show ?thesis
  proof (cases "length (cl_LateOrder c) \<ge> lateMessageResultLimit")
    case True
    then obtain h t where ht: "cl_LateOrder c = h # t"
      by (cases "cl_LateOrder c") (auto simp: lateMessageResultLimit_def)
    then show ?thesis using False new assms True by (auto simp: retainLateResult_def Let_def late_inv_def)
  qed (use False new assms in \<open>auto simp: retainLateResult_def Let_def late_inv_def\<close>)
qed

lemma late_after_retain:
  "mr_OperationID r \<noteq> [] \<Longrightarrow> cl_LateMessages (retainLateResult r c) (mr_OperationID r) = Some r"
  "cl_LateMessages c op \<noteq> None \<Longrightarrow> cl_LateMessages (retainLateResult r c) op \<noteq> None \<or> op \<in> set (cl_Evicted (retainLateResult r c))"
  "cl_LateMessages (retainLateResult r c) op = Some x \<Longrightarrow> op = mr_OperationID r \<and> x = r \<or> cl_LateMessages c op = Some x"
  by (auto simp: retainLateResult_def Let_def split: if_splits)

lemma retain_evicted: "op \<in> set (cl_Evicted c) \<Longrightarrow> op \<in> set (cl_Evicted (retainLateResult r c))"
  by (auto simp: retainLateResult_def Let_def)

lemma accounted_retain:
  "accounted op c \<Longrightarrow> accounted op (retainLateResult r c)"
  "mr_OperationID r \<noteq> [] \<Longrightarrow> accounted (mr_OperationID r) (retainLateResult r c)"
  using late_after_retain(1) late_after_retain(2) [of c op r] retain_evicted [of op c r]
  by (auto simp: accounted_def LateMessageResult_def)

lemma genuine_retain:
  assumes "genuine c" and "r \<in> set (cl_Answers c)"
  shows "genuine (retainLateResult r c)"
  using assms late_after_retain(3) unfolding genuine_def by fastforce

lemma open_retain: "open_inv (retainLateResult r c) = open_inv c"
  by (simp add: open_inv_def)

section \<open>Every step keeps the account\<close>

lemma answers_retain: "answers_inv c \<Longrightarrow> answers_inv (retainLateResult r c)"
  by (simp add: answers_inv_def accounted_retain(1))

lemma read_answer:
  assumes "call_inv c" and "\<not> cl_Closed c"
  shows "call_inv (handleMessageResponse text c)"
proof (cases "unmarshal (dec_struct dec_message_result) zero_message_result text")
  case None
  then show ?thesis using assms(1) by (simp add: handleMessageResponse_def)
next
  case (Some r)
  let ?op = "mr_OperationID r" and ?c1 = "c\<lparr>cl_Answers := cl_Answers c @ [r]\<rparr>"
  have inv: "answers_inv c" "genuine c" "late_inv c" "open_inv c" using assms(1) by (simp_all add: call_inv_def)
  have acc: "accounted op ?c1 = accounted op c" for op by (simp add: accounted_def LateMessageResult_def)
  have g1: "genuine ?c1" using inv(2) unfolding genuine_def by fastforce
  have l1: "late_inv ?c1" and o1: "open_inv ?c1" using inv(3,4) by (simp_all add: late_inv_def open_inv_def)
  show ?thesis
  proof (cases "cl_Messages c ?op")
    case None
    have "answers_inv (retainLateResult r ?c1)"
      using inv(1) acc accounted_retain by (auto simp: answers_inv_def)
    then show ?thesis
      using Some None genuine_retain [OF g1] late_retain [OF l1] o1
      by (simp add: handleMessageResponse_def call_inv_def open_retain Let_def)
  next
    case w: (Some w)
    have wo: "wt_Open w" using inv(4) w assms(2) by (simp add: open_inv_def)
    show ?thesis
    proof (cases "wt_Answer w")
      case None
      let ?c2 = "?c1\<lparr>cl_Messages := (cl_Messages c)(?op := Some (w\<lparr>wt_Answer := Some r\<rparr>))\<rparr>"
      have h: "handleMessageResponse text c = ?c2" using Some w wo None by (simp add: handleMessageResponse_def Let_def)
      have "accounted op c \<Longrightarrow> accounted op ?c2" "accounted ?op ?c2" for op
        using w None by (auto simp: accounted_def LateMessageResult_def)
      then have "answers_inv ?c2" using inv(1) by (auto simp: answers_inv_def)
      moreover have "genuine ?c2" using g1 by (auto simp: genuine_def)
      moreover have "late_inv ?c2" "open_inv ?c2" using inv(3,4) w by (auto simp: late_inv_def open_inv_def)
      ultimately show ?thesis unfolding h call_inv_def by blast
    next
      case (Some r0)
      have h: "handleMessageResponse text c = ?c1"
        using \<open>unmarshal _ _ text = Some r\<close> w wo Some by (simp add: handleMessageResponse_def Let_def)
      have "accounted ?op ?c1" using w Some by (auto simp: accounted_def)
      then have "answers_inv ?c1" using inv(1) acc by (auto simp: answers_inv_def)
      then show ?thesis unfolding h call_inv_def using g1 l1 o1 by blast
    qed
  qed
qed

lemma finish_waiter:
  assumes "call_inv c"
  shows "call_inv (finishMessageWaiter op c)"
proof (cases "cl_Messages c op")
  case None
  then show ?thesis using assms by (simp add: finishMessageWaiter_def)
next
  case (Some w)
  have inv: "answers_inv c" "genuine c" "late_inv c" "open_inv c" using assms by (simp_all add: call_inv_def)
  let ?c1 = "c\<lparr>cl_Messages := (cl_Messages c)(op := None)\<rparr>"
  have g1: "genuine ?c1" using inv(2) by (auto simp: genuine_def)
  have l1: "late_inv ?c1" and o1: "open_inv ?c1" using inv(3,4) by (auto simp: late_inv_def open_inv_def)
  show ?thesis
  proof (cases "wt_Answer w")
    case None
    have "accounted op' ?c1 = accounted op' c" for op' using Some None by (auto simp: accounted_def LateMessageResult_def)
    then have "answers_inv ?c1" using inv(1) by (simp add: answers_inv_def)
    then show ?thesis using Some None g1 l1 o1 by (simp add: finishMessageWaiter_def call_inv_def)
  next
    case r: (Some r)
    have id: "mr_OperationID r = op" "r \<in> set (cl_Answers c)" using inv(2) Some r by (auto simp: genuine_def)
    have "accounted op' (retainLateResult r ?c1)" if "accounted op' c" "op' \<noteq> []" for op'
    proof (cases "op' = op")
      case True
      then show ?thesis using accounted_retain(2) [of r ?c1] id that by simp
    next
      case False
      then have "accounted op' ?c1" using that by (auto simp: accounted_def LateMessageResult_def)
      then show ?thesis by (rule accounted_retain(1))
    qed
    then have "answers_inv (retainLateResult r ?c1)" using inv(1) by (auto simp: answers_inv_def)
    then show ?thesis
      using Some r genuine_retain [OF g1] late_retain [OF l1] o1 id
      by (simp add: finishMessageWaiter_def call_inv_def open_retain)
  qed
qed

lemma take_answer:
  assumes "call_inv c" and "submit_receive op c = Some (res, c')"
  shows "call_inv c'"
proof -
  have inv: "answers_inv c" "genuine c" "late_inv c" "open_inv c" using assms(1) by (simp_all add: call_inv_def)
  obtain w where w: "cl_Messages c op = Some w" using assms(2) by (auto simp: submit_receive_def split: option.splits)
  show ?thesis
  proof (cases "wt_Answer w")
    case None
    then have c': "c' = c\<lparr>cl_Messages := (cl_Messages c)(op := Some (w\<lparr>wt_Leaving := True\<rparr>))\<rparr>"
      using assms(2) w by (auto simp: submit_receive_def split: if_splits)
    have "accounted op' c' = accounted op' c" for op' using w None by (auto simp: c' accounted_def LateMessageResult_def)
    then show ?thesis using inv w None by (auto simp: c' call_inv_def answers_inv_def genuine_def late_inv_def open_inv_def)
  next
    case (Some r)
    then have c': "c' = c\<lparr>cl_Messages := (cl_Messages c)(op := Some (w\<lparr>wt_Answer := None, wt_Leaving := True\<rparr>)),
        cl_Returned := cl_Returned c @ [(op, r)]\<rparr>"
      using assms(2) w by (auto simp: submit_receive_def split: if_splits)
    have id: "mr_OperationID r = op" "r \<in> set (cl_Answers c)" using inv(2) w Some by (auto simp: genuine_def)
    have "accounted op' c \<Longrightarrow> accounted op' c'" for op' using w Some by (auto simp: c' accounted_def LateMessageResult_def)
    then have "answers_inv c'" using inv(1) by (auto simp: c' answers_inv_def)
    moreover have "genuine c'" using inv(2) id by (auto simp: c' genuine_def)
    moreover have "late_inv c'" "open_inv c'" using inv(3,4) w by (auto simp: c' late_inv_def open_inv_def)
    ultimately show ?thesis by (simp add: call_inv_def)
  qed
qed

lemma begin_submit:
  assumes "call_inv c" and "submit_begin cancelled control c = Inr c'"
  shows "call_inv c'"
proof -
  have inv: "answers_inv c" "genuine c" "late_inv c" "open_inv c" using assms(1) by (simp_all add: call_inv_def)
  let ?w = "\<lparr>wt_Answer = None, wt_Open = True, wt_Leaving = False\<rparr>" and ?op = "mg_OperationID control"
  have c': "c' = (startReader c)\<lparr>cl_Messages := (cl_Messages c)(?op := Some ?w)\<rparr>"
    and live: "\<not> cl_Closed c" and free: "\<forall>w. cl_Messages c ?op = Some w \<longrightarrow> \<not> wt_Open w"
    using assms(2) by (auto simp: submit_begin_def Let_def split: if_splits option.splits)
  have none: "cl_Messages c ?op = None" using free inv(4) live by (cases "cl_Messages c ?op") (auto simp: open_inv_def)
  have "accounted op c' = accounted op c" for op using none by (auto simp: c' accounted_def LateMessageResult_def)
  then show ?thesis using inv live none
    by (auto simp: c' call_inv_def answers_inv_def genuine_def late_inv_def open_inv_def)
qed

lemma give_up_submit:
  assumes "call_inv c" and "cl_Messages c op = Some w"
  shows "call_inv (submit_give_up op c)"
proof -
  have "accounted op' (submit_give_up op c) = accounted op' c" for op'
    using assms(2) by (auto simp: submit_give_up_def accounted_def LateMessageResult_def)
  then show ?thesis using assms
    by (auto simp: submit_give_up_def call_inv_def answers_inv_def genuine_def late_inv_def open_inv_def)
qed

text \<open>The requests, for the steps that touch neither messages nor the end of the connection.\<close>

lemma quiet_mail:
  "mail (startReader c) = mail c" "mail (Subscribe c) = mail c" "mail (Unsubscribe i c) = mail c"
  "mail (finishReplay j c) = mail c" "mail (finishModel j e c) = mail c" "mail (finishRetry j e c) = mail c"
  "mail (replay_give_up c) = mail c" "mail (model_give_up ce c) = mail c" "mail (retry_give_up ce c) = mail c"
  "mail (apply_finish x c) = mail c" "mail (broadcastLocked ev c) = mail c" "mail (broadcastTerminal ns ev c) = mail c"
proof -
  show r: "mail (finishReplay j c) = mail c" for j by (simp add: finishReplay_def mail_def split: option.splits)
  show m: "mail (finishModel j e c) = mail c" for j e by (simp add: finishModel_def mail_def)
  show t: "mail (finishRetry j e c) = mail c" for j e by (simp add: finishRetry_def mail_def)
  show "mail (apply_finish x c) = mail c" by (cases x) (simp_all add: r m t)
  show "mail (replay_give_up c) = mail c" by (simp add: replay_give_up_def r split: option.splits)
  show "mail (model_give_up ce c) = mail c" by (simp add: model_give_up_def m split: option.splits)
  show "mail (retry_give_up ce c) = mail c" by (simp add: retry_give_up_def t split: option.splits)
qed (simp_all add: mail_def Subscribe_def Unsubscribe_def broadcastLocked_def broadcastTerminal_def split: option.splits)

definition requests_done :: "client \<Rightarrow> bool" where
  "requests_done c \<longleftrightarrow> (\<forall>q. cl_Replay c = Some q \<longrightarrow> pq_Done q) \<and> (\<forall>q. cl_Model c = Some q \<longrightarrow> cq_Done q)
     \<and> (\<forall>q. cl_Retry c = Some q \<longrightarrow> cq_Done q)"

lemma same_mail:
  assumes "call_inv c" and "mail c' = mail c" and "cl_Closed c' = cl_Closed c"
    and "cl_Closed c \<Longrightarrow> requests_done c \<Longrightarrow> requests_done c'"
  shows "call_inv c'"
  using assms mail_inv [OF assms(2)] by (simp add: call_inv_def open_inv_def requests_done_def)

lemma still_done:
  "requests_done c \<Longrightarrow> requests_done (replay_give_up c)" "requests_done c \<Longrightarrow> requests_done (model_give_up ce c)"
  "requests_done c \<Longrightarrow> requests_done (retry_give_up ce c)" "requests_done c \<Longrightarrow> requests_done (apply_finish x c)"
  "requests_done c \<Longrightarrow> requests_done (Subscribe c)" "requests_done c \<Longrightarrow> requests_done (startReader c)"
  by (cases x; auto simp: requests_done_def replay_give_up_def model_give_up_def retry_give_up_def finishReplay_def
      finishModel_def finishRetry_def finish_request_def Subscribe_def split: option.splits)+

lemma handleFrame_calls:
  assumes "call_inv c" and "\<not> cl_Closed c" and "handleFrame parse now ns f c = (c', fin, clean)"
  shows "call_inv c'"
proof (cases "type_of (fr_Type f) = MessageRes")
  case True
  then have "c' = handleMessageResponse (parse (fr_Payload f)) c" using assms(3) by (simp add: handleFrame_def Let_def)
  then show ?thesis using read_answer [OF assms(1,2)] by simp
next
  case False
  have "mail c' = mail c"
    using assms(3) False
    by (auto simp: handleFrame_def Let_def broadcastLocked_def broadcastTerminal_def mail_def
        split: option.splits frame_type.splits prod.splits)
  moreover have "cl_Closed c' = cl_Closed c"
  proof -
    have "core c' = core c \<or> core c' = core (c\<lparr>cl_Conn := False\<rparr>) \<or> (\<exists>e. core c' = core (broadcastLocked e c))
        \<or> (\<exists>x. core c' = core (broadcastTerminal ns (EventExit x) (c\<lparr>cl_Exited := True, cl_Conn := False\<rparr>)))"
      using handleFrame_core [OF assms(3)] by blast
    then show ?thesis by (auto simp: core_def broadcastLocked_def broadcastTerminal_def)
  qed
  ultimately show ?thesis using same_mail [OF assms(1)] assms(2) by blast
qed

lemma closing_calls:
  assumes "call_inv c" and "\<not> cl_Closed c"
  shows "call_inv (closeWithLoss ns clean c)"
proof -
  let ?m = "\<lambda>op. map_option (\<lambda>w. w\<lparr>wt_Open := False\<rparr>) (cl_Messages c op)"
  let ?c = "c\<lparr>cl_Closed := True, cl_Messages := ?m, cl_Replay := map_option (\<lambda>q. q\<lparr>pq_Done := True\<rparr>) (cl_Replay c),
      cl_Model := close_request (cl_Model c), cl_Retry := close_request (cl_Retry c)\<rparr>"
  have "accounted op ?c = accounted op c" for op
    by (cases "cl_Messages c op") (simp_all add: accounted_def LateMessageResult_def)
  then have a: "answers_inv ?c" using assms(1) by (simp add: call_inv_def answers_inv_def)
  have "genuine ?c" using assms(1) by (auto simp: call_inv_def genuine_def)
  moreover have "late_inv ?c" using assms(1) by (simp add: call_inv_def late_inv_def)
  moreover have "open_inv ?c" by (auto simp: open_inv_def close_request_def)
  ultimately have c: "call_inv ?c" using a by (simp add: call_inv_def)
  have "mail (closeWithLoss ns clean c) = mail ?c" "cl_Closed (closeWithLoss ns clean c) = cl_Closed ?c"
    "requests_done ?c \<Longrightarrow> requests_done (closeWithLoss ns clean c)"
    using assms(2) by (simp_all add: closeWithLoss_def mail_def broadcastTerminal_def requests_done_def Let_def)
  then show ?thesis using same_mail [OF c] by blast
qed

lemma calls_step:
  assumes "client_step parse c c'" and "call_inv c" and "core_inv c"
  shows "call_inv c'"
  using assms(1)
proof (cases rule: client_step.cases)
  case step_control
  then show ?thesis using same_mail [OF assms(2)] quiet_mail still_done by simp
next
  case step_subscribe
  then show ?thesis using same_mail [OF assms(2)] quiet_mail still_done
    by (simp add: Subscribe_def split: option.splits)
next
  case (step_unsubscribe i)
  then show ?thesis using same_mail [OF assms(2)] quiet_mail by (simp add: Unsubscribe_def requests_done_def)
next
  case (step_consume i)
  then show ?thesis using same_mail [OF assms(2)] by (simp add: mail_def requests_done_def)
next
  case step_replay_begin
  then show ?thesis using same_mail [OF assms(2)] by (auto simp: replay_begin_def mail_def Let_def split: if_splits)
next
  case step_replay_give_up
  have "call_inv (replay_give_up c)"
    by (rule same_mail [OF assms(2)]) (simp_all add: quiet_mail still_done core_fields(4) [OF quiet_core(4)])
  with step_replay_give_up show ?thesis by simp
next
  case (step_replay_end after w)
  then show ?thesis using same_mail [OF assms(2)]
    by (auto simp: replay_end_def mail_def requests_done_def Let_def split: option.splits if_splits)
next
  case step_model_begin
  then show ?thesis using same_mail [OF assms(2)] by (auto simp: model_begin_def mail_def Let_def split: if_splits)
next
  case (step_model_give_up e)
  have "call_inv (model_give_up e c)"
    by (rule same_mail [OF assms(2)]) (simp_all add: quiet_mail still_done core_fields(4) [OF quiet_core(5)])
  with step_model_give_up show ?thesis by simp
next
  case (step_model_end w)
  then show ?thesis using same_mail [OF assms(2)]
    by (auto simp: model_end_def mail_def requests_done_def split: option.splits if_splits)
next
  case step_retry_begin
  then show ?thesis using same_mail [OF assms(2)] by (auto simp: retry_begin_def mail_def Let_def split: if_splits)
next
  case (step_retry_give_up e)
  have "call_inv (retry_give_up e c)"
    by (rule same_mail [OF assms(2)]) (simp_all add: quiet_mail still_done core_fields(4) [OF quiet_core(6)])
  with step_retry_give_up show ?thesis by simp
next
  case (step_retry_end w)
  then show ?thesis using same_mail [OF assms(2)]
    by (auto simp: retry_end_def mail_def requests_done_def split: option.splits if_splits)
next
  case (step_submit_begin cancelled control)
  then show ?thesis using begin_submit [OF assms(2)] by blast
next
  case (step_submit_receive op r)
  then show ?thesis using take_answer [OF assms(2)] by blast
next
  case (step_submit_give_up op w)
  then show ?thesis using give_up_submit [OF assms(2)] by blast
next
  case (step_submit_finish op w)
  then show ?thesis using finish_waiter [OF assms(2)] by blast
next
  case (step_read clean now ns f)
  obtain c1 fin cl where h: "handleFrame parse now ns f c = (c1, fin, cl)" using prod_cases3 by blast
  have "\<not> cl_Closed c" using assms(3) step_read(2) by (auto simp: core_inv_def)
  then have "call_inv c1" using handleFrame_calls [OF assms(2) _ h] by blast
  then have "call_inv (c1\<lparr>cl_Reader := x\<rparr>)" for x by (rule same_mail) (simp_all add: mail_def requests_done_def)
  then show ?thesis using h step_read(1) by (simp add: read_frame_def)
next
  case (step_finish x clean)
  have "call_inv (apply_finish x c)"
    by (rule same_mail [OF assms(2)]) (simp_all add: quiet_mail still_done core_fields(4) [OF quiet_core(10)])
  then have "call_inv ((apply_finish x c)\<lparr>cl_Reader := Reading clean\<rparr>)"
    by (rule same_mail) (simp_all add: mail_def requests_done_def)
  then show ?thesis using step_finish by simp
next
  case (step_read_error clean ns)
  have "\<not> cl_Closed c" using assms(3) step_read_error(2) by (auto simp: core_inv_def)
  then have "call_inv (closeWithLoss ns clean c)" using closing_calls [OF assms(2)] by blast
  then have "call_inv (read_error ns clean c)"
    unfolding read_error_def by (rule same_mail) (simp_all add: mail_def requests_done_def)
  then show ?thesis using step_read_error by simp
qed

lemma client_call_inv: "client_reached parse c \<Longrightarrow> call_inv c"
proof (induction rule: reached.induct)
  case (reached_init s)
  then show ?case
    by (auto simp: client_start_def new_client_def call_inv_def answers_inv_def genuine_def late_inv_def open_inv_def)
next
  case (reached_step s t)
  then show ?case using calls_step client_core_inv by blast
qed

section \<open>Properties\<close>

text \<open>C10: subscribers of a runner.  In every state a client can reach, whatever the order of frames,
  calls, cancellations and slow consumers: each stream holds at most 512 events; what its consumer
  sees is a subsequence of what was broadcast since it subscribed, and all of it as long as that is
  at most 512 events; and once the runner has exited or the connection is closed, every stream that was not
  cancelled is closed and its last event, and only that, says how the runner ended.\<close>

theorem runner_subscribers:
  assumes "client_reached parse c" and "st \<in> set (cl_Streams c)"
  shows "length (st_Buffer st) \<le> 512 \<and> subseq (seen st) (st_Offered st)
    \<and> (length (st_Offered st) \<le> 512 \<longrightarrow> seen st = st_Offered st)
    \<and> ((cl_Terminal c \<noteq> None \<or> cl_Closed c) \<and> \<not> st_Cancelled st \<longrightarrow>
         (\<exists>e pre. cl_Terminal c = Some e \<and> ends_feed e \<and> \<not> st_Open st
            \<and> seen st = pre @ [e] \<and> list_all (\<lambda>e. \<not> ends_feed e) pre))"
proof -
  have ok: "stream_ok ends_feed (cl_Terminal c) st" using runner_feed.subscriber_contract [OF assms] .
  have "\<exists>e pre. cl_Terminal c = Some e \<and> ends_feed e \<and> \<not> st_Open st
      \<and> seen st = pre @ [e] \<and> list_all (\<lambda>e. \<not> ends_feed e) pre"
    if h: "cl_Terminal c \<noteq> None \<or> cl_Closed c" and n: "\<not> st_Cancelled st"
  proof -
    obtain e where e: "cl_Terminal c = Some e" using h client_core_inv [OF assms(1)] by (auto simp: core_inv_def)
    then show ?thesis
      using runner_feed.everyone_hears_the_end [OF assms(1) e assms(2) n] runner_feed.contract [OF assms(1)] by blast
  qed
  then show ?thesis using ok by (auto simp: stream_ok_def stream_capacity_def)
qed

definition sample_info :: runner_info where
  "sample_info = zero_info\<lparr>ri_ID := ''lane'', ri_CurrentSeq := 3, ri_ProtocolVersion := 5, ri_MessageSubmit := True\<rparr>"

definition json_of :: "byte list \<Rightarrow> json option" where
  "json_of bs = Some (JObj (if bs = [] then [] else [(''operation_id'', JStr ''op''), (''accepted'', JBool True)]))"

definition subscribed :: client where "subscribed = Subscribe (new_client sample_info)"

lemma subscribed_reached: "client_reached json_of subscribed"
  unfolding subscribed_def
  by (blast intro: reached_init reached_step step_subscribe client_start_def [THEN iffD2])

lemma read_reached:
  "client_reached parse c \<Longrightarrow> cl_Reader c = Reading clean \<Longrightarrow> cl_Conn c \<Longrightarrow>
     client_reached parse (read_frame parse now ns f clean c)"
  by (blast intro: reached_step step_read)

lemmas type_of_eval = type_of_def known_types_def

lemma exit_type [simp]: "type_of 0x22 = Exit" by (simp add: type_of_eval)
lemma model_type [simp]: "type_of 0x26 = ModelRes" by (simp add: type_of_eval)
lemma message_type [simp]: "type_of 0x29 = MessageRes" by (simp add: type_of_eval)
lemma output_type [simp]: "type_of 0x21 = Output" by (simp add: type_of_eval)
lemma done_type [simp]: "type_of 0x24 = ReplayDone" by (simp add: type_of_eval)

theorem runner_subscribers_witness:
  "\<exists>e pre. cl_Terminal (read_frame json_of 9 (\<lambda>_. 0) \<lparr>fr_Type = 0x22, fr_Payload = []\<rparr> False subscribed) = Some e
     \<and> ends_feed e \<and> list_all (\<lambda>e. \<not> ends_feed e) pre
     \<and> seen (hd (cl_Streams (read_frame json_of 9 (\<lambda>_. 0) \<lparr>fr_Type = 0x22, fr_Payload = []\<rparr> False subscribed))) = pre @ [e]"
proof -
  let ?f = "\<lparr>fr_Type = 0x22, fr_Payload = []\<rparr>" and ?x = "EventExit zero_exit"
  let ?c = "read_frame json_of 9 (\<lambda>_. 0) ?f False subscribed"
  have r: "client_reached json_of ?c"
    by (rule read_reached [OF subscribed_reached]) (simp_all add: subscribed_def Subscribe_def new_client_def startReader_def)
  have t: "cl_Terminal ?c = Some ?x" and s: "cl_Streams ?c = [shut (offer_last 0 ?x new_stream)]"
    by (simp_all add: read_frame_def handleFrame_def broadcastTerminal_def subscribed_def Subscribe_def new_client_def
        startReader_def broadcast_last_def json_of_def dec_exit_def field_Nil zero_exit_def new_stream_def Let_def)
  have n: "\<not> st_Cancelled (shut (offer_last 0 ?x new_stream))" by (simp add: new_stream_def)
  have i: "shut (offer_last 0 ?x new_stream) \<in> set (cl_Streams ?c)" using s by simp
  show ?thesis using runner_subscribers [OF r i] t n s by auto
qed

text \<open>C18: nobody is left waiting.  Once the connection is closed, a replay, a model change or a retry
  control that is under way can end, and every message call in flight can return: with the answer
  if one arrived, else with the closed connection.\<close>

theorem no_caller_left_waiting:
  assumes "client_reached parse c" and "cl_Closed c"
  shows "(cl_Replay c = None \<or> replay_end after c \<noteq> None) \<and> (cl_Model c = None \<or> model_end c \<noteq> None)
    \<and> (cl_Retry c = None \<or> retry_end c \<noteq> None)
    \<and> (case cl_Messages c op of None \<Rightarrow> True
       | Some w \<Rightarrow> wt_Leaving w \<or> (case submit_receive op c of None \<Rightarrow> False
           | Some (res, c') \<Rightarrow> res = (case wt_Answer w of None \<Rightarrow> Inl SubmitClosed | Some r \<Rightarrow> Inr r)))"
proof -
  have o: "open_inv c" using client_call_inv [OF assms(1)] by (simp add: call_inv_def)
  have "cl_Replay c = None \<or> replay_end after c \<noteq> None" "cl_Model c = None \<or> model_end c \<noteq> None"
    "cl_Retry c = None \<or> retry_end c \<noteq> None"
    using o assms(2) by (auto simp: open_inv_def replay_end_def model_end_def retry_end_def Let_def split: option.splits)
  moreover have "case cl_Messages c op of None \<Rightarrow> True
       | Some w \<Rightarrow> wt_Leaving w \<or> (case submit_receive op c of None \<Rightarrow> False
           | Some (res, c') \<Rightarrow> res = (case wt_Answer w of None \<Rightarrow> Inl SubmitClosed | Some r \<Rightarrow> Inr r))"
    using o assms(2) by (auto simp: open_inv_def submit_receive_def split: option.splits)
  ultimately show ?thesis by blast
qed

definition sample_message :: message_control where
  "sample_message = \<lparr>mg_OperationID = ''op'', mg_Text = ''ship it'', mg_Mode = []\<rparr>"

definition submitting :: client where
  "submitting = (startReader (new_client sample_info))\<lparr>cl_Messages :=
     [''op'' \<mapsto> \<lparr>wt_Answer = None, wt_Open = True, wt_Leaving = False\<rparr>]\<rparr>"

lemma submitting_reached: "client_reached json_of submitting"
proof -
  have "submit_begin False sample_message (new_client sample_info) = Inr submitting"
    by (simp add: submit_begin_def sample_message_def sample_info_def new_client_def submitting_def ValidateMessage_def
        startReader_def text_eval fun_upd_def Let_def)
  then show ?thesis by (blast intro: reached_init reached_step step_submit_begin client_start_def [THEN iffD2])
qed

theorem no_caller_left_waiting_witness:
  "case submit_receive ''op'' (read_error (\<lambda>_. 0) False submitting) of None \<Rightarrow> False | Some (res, c') \<Rightarrow> res = Inl SubmitClosed"
proof -
  let ?c = "read_error (\<lambda>_. 0) False submitting"
  have "client_reached json_of ?c"
    by (rule reached_step [OF submitting_reached step_read_error]) (simp add: submitting_def startReader_def new_client_def)
  moreover have "cl_Closed ?c" "cl_Messages ?c ''op'' = Some \<lparr>wt_Answer = None, wt_Open = False, wt_Leaving = False\<rparr>"
    by (simp_all add: read_error_def closeWithLoss_def submitting_def startReader_def new_client_def broadcastTerminal_def Let_def)
  ultimately show ?thesis using no_caller_left_waiting [of json_of ?c 0 "''op''"]
    by (auto split: option.splits)
qed

text \<open>C6: no answer to a message is lost or invented.  Every acknowledgment the connection has read
  for an operation has been handed to its caller, waits in its channel, is kept as late evidence,
  or was dropped as the oldest of 64 kept results, whichever way caller, timeout and reader interleave; the kept results
  are at most 64; and whatever a caller or \<open>LateMessageResult\<close> is given for an operation is an
  acknowledgment that was read for exactly that operation.\<close>

theorem no_answer_lost:
  assumes "client_reached parse c"
  shows "(\<forall>r \<in> set (cl_Answers c). mr_OperationID r = [] \<or> accounted (mr_OperationID r) c)
    \<and> card (dom (cl_LateMessages c)) \<le> 64
    \<and> (\<forall>op r. LateMessageResult op c = Some r \<or> (op, r) \<in> set (cl_Returned c) \<longrightarrow>
         mr_OperationID r = op \<and> r \<in> set (cl_Answers c))"
proof -
  have inv: "answers_inv c" "genuine c" "late_inv c" using client_call_inv [OF assms] by (simp_all add: call_inv_def)
  have "card (dom (cl_LateMessages c)) \<le> 64"
    using inv(3) distinct_card [of "cl_LateOrder c"] by (auto simp: late_inv_def lateMessageResultLimit_def)
  moreover have "\<forall>r \<in> set (cl_Answers c). mr_OperationID r = [] \<or> accounted (mr_OperationID r) c"
    using inv(1) by (auto simp: answers_inv_def)
  moreover have "\<forall>op r. LateMessageResult op c = Some r \<or> (op, r) \<in> set (cl_Returned c) \<longrightarrow>
         mr_OperationID r = op \<and> r \<in> set (cl_Answers c)"
    using inv(2) by (auto simp: genuine_def LateMessageResult_def)
  ultimately show ?thesis by blast
qed

text \<open>The answer arrives after the caller gave up and before it has left.\<close>

theorem no_answer_lost_witness:
  "let c = read_frame json_of 9 (\<lambda>_. 0) \<lparr>fr_Type = 0x29, fr_Payload = [1]\<rparr> False (submit_give_up ''op'' submitting)
   in accounted ''op'' c
     \<and> LateMessageResult ''op'' (finishMessageWaiter ''op'' c)
       = Some \<lparr>mr_OperationID = ''op'', mr_Accepted = True, mr_Boundary = [], mr_Error = []\<rparr>"
proof -
  let ?c = "read_frame json_of 9 (\<lambda>_. 0) \<lparr>fr_Type = 0x29, fr_Payload = [1]\<rparr> False (submit_give_up ''op'' submitting)"
  let ?r = "\<lparr>mr_OperationID = ''op'', mr_Accepted = True, mr_Boundary = [], mr_Error = []\<rparr>"
  note eval = read_frame_def handleFrame_def handleMessageResponse_def submit_give_up_def submitting_def startReader_def
    new_client_def json_of_def dec_message_result_def zero_message_result_def json_simps key_simps Let_def
  have "client_reached json_of (submit_give_up ''op'' submitting)"
    by (rule reached_step [OF submitting_reached step_submit_give_up]) (simp add: submitting_def, simp)
  then have r: "client_reached json_of ?c" by (rule read_reached) (simp_all add: eval)
  have a: "cl_Answers ?c = [?r]" and m: "cl_Messages ?c ''op'' = Some \<lparr>wt_Answer = Some ?r, wt_Open = True, wt_Leaving = True\<rparr>"
    and l: "cl_LateMessages ?c ''op'' = None" "cl_LateOrder ?c = []"
    by (simp_all add: eval)
  have "LateMessageResult ''op'' (finishMessageWaiter ''op'' ?c) = Some ?r"
    using m l by (simp add: finishMessageWaiter_def retainLateResult_def LateMessageResult_def lateMessageResultLimit_def Let_def)
  then show ?thesis using no_answer_lost [OF r] a by (simp add: Let_def)
qed

text \<open>But a model change can be completed by the acknowledgment of another one.  \<open>MODEL_RES\<close>
  does not say which request it answers: after a first change has timed out and a second one is
  registered, the acknowledgment of the first, arriving before the second has been sent at all,
  makes the second call report success.\<close>

lemma stale_model_ack:
  assumes "cl_Reader c = Reading False" and "cl_Conn c" and "\<not> cl_Closed c" and "2 \<le> ri_ProtocolVersion (cl_Info c)"
    and "unmarshal (dec_struct dec_control_result) [] (parse ack) = Some []"
  shows "\<exists>c1 c2 c3 c4. model_begin c = Inr c1
    \<and> model_end (model_give_up ControlTimedOut c1) = Some (Some ControlTimedOut, c2)
    \<and> model_begin c2 = Inr c3
    \<and> read_frame parse now ns \<lparr>fr_Type = type_byte ModelRes, fr_Payload = ack\<rparr> False c3
        = c3\<lparr>cl_Reader := Finishing (FinishModel (cl_NextRequest c + 1) None) False\<rparr>
    \<and> model_end (apply_finish (FinishModel (cl_NextRequest c + 1) None) c3) = Some (None, c4)"
  using assms
  by (simp add: model_begin_def model_give_up_def model_end_def finishModel_def finish_request_def new_request_def
      read_frame_def handleFrame_def handleModelResponse_def startReader_def Let_def)

lemma stale_model_ack_witness:
  "\<exists>c1 c2 c3 c4. model_begin subscribed = Inr c1
    \<and> model_end (model_give_up ControlTimedOut c1) = Some (Some ControlTimedOut, c2) \<and> model_begin c2 = Inr c3
    \<and> model_end (apply_finish (FinishModel 1 None) c3) = Some (None, c4)"
proof -
  have "cl_Reader subscribed = Reading False" "cl_Conn subscribed" "\<not> cl_Closed subscribed"
    "2 \<le> ri_ProtocolVersion (cl_Info subscribed)" "cl_NextRequest subscribed = 0"
    by (simp_all add: subscribed_def Subscribe_def startReader_def new_client_def sample_info_def)
  moreover have "unmarshal (dec_struct dec_control_result) [] (json_of []) = Some []"
    by (simp add: json_of_def dec_control_result_def field_Nil)
  ultimately show ?thesis using stale_model_ack [of subscribed json_of "[]" 0 "\<lambda>_. 0"] by auto
qed

end
