(* ===== verification/Runner_Server.thy ===== *)
theory Runner_Server
  imports Runner_Messages Event_Log Provider_Args
begin

text \<open>
  The terminal runner's side of the socket: \<open>runtime/cmd/sessions-runner/main.go\<close> and the part of
  \<open>git_state.go\<close> that broadcasts, drops clients and shuts down.  \<open>streamMu\<close> makes recording output,
  greeting a client, a replay, a snapshot and the exit one operation each.  Writing through a
  client's outbox waits for the frame to be on the connection, so within such an operation the
  queue is flushed first; a live frame only goes into the queue, and a queue that is full closes the client.

  \<open>text\<close> turns a JSON value into the bytes of a payload, \<open>parse\<close> reads one.
\<close>

section \<open>The outbox of one client\<close>

definition clientOutboxFrames :: nat where "clientOutboxFrames = 16"

text \<open>\<open>ob_Sent\<close> is history: the frames on the connection.\<close>

record outbox =
  ob_Queue :: "frame list"
  ob_Closed :: bool
  ob_Sent :: "frame list"

definition newClient :: outbox where
  "newClient = \<lparr>ob_Queue = [], ob_Closed = False, ob_Sent = []\<rparr>"

definition close_outbox :: "outbox \<Rightarrow> outbox" where
  "close_outbox ob = ob\<lparr>ob_Closed := True\<rparr>"

text \<open>One turn of \<open>writeLoop\<close>; \<open>ok\<close> is whether the connection took the frame within its deadline.\<close>

definition writeLoop_turn :: "bool \<Rightarrow> outbox \<Rightarrow> outbox" where
  "writeLoop_turn ok ob =
     (if ob_Closed ob then ob
      else case ob_Queue ob of [] \<Rightarrow> ob
        | f # fs \<Rightarrow> if ok then ob\<lparr>ob_Queue := fs, ob_Sent := ob_Sent ob @ [f]\<rparr>
            else ob\<lparr>ob_Queue := fs, ob_Closed := True\<rparr>)"

definition enqueueFrame :: "frame \<Rightarrow> outbox \<Rightarrow> outbox" where
  "enqueueFrame f ob =
     (if ob_Closed ob then ob
      else if length (ob_Queue ob) < clientOutboxFrames then ob\<lparr>ob_Queue := ob_Queue ob @ [f]\<rparr>
      else close_outbox ob)"

text \<open>
  \<open>client.write\<close> and \<open>writeOutput\<close>: the frame behind what is queued, and back when it is written.
  \<open>ok\<close> is whether the connection took them all; a connection that did not is closed.
\<close>

definition write_through :: "bool \<Rightarrow> frame_type \<Rightarrow> byte list \<Rightarrow> outbox \<Rightarrow> bool \<times> outbox" where
  "write_through ok typ payload ob =
     (if Encode (type_byte typ) payload = None \<or> ob_Closed ob then (False, ob)
      else if ok then (True, ob\<lparr>ob_Queue := [],
        ob_Sent := ob_Sent ob @ ob_Queue ob @ [\<lparr>fr_Type = type_byte typ, fr_Payload = payload\<rparr>]\<rparr>)
      else (False, close_outbox ob))"

section \<open>State\<close>

record exit_info =
  xi_Code :: "int option"
  xi_Signal :: "string option"
  xi_Seq :: "32 word"

record server_config =
  sc_ID :: string
  sc_Cmd :: string
  sc_Args :: "string list"
  sc_Cwd :: string
  sc_CreatedAt :: int
  sc_PID :: int
  sc_Version :: string
  sc_Claude :: bool
  sc_Codex :: bool
  sc_JsonlMissing :: bool

text \<open>What an operation asks of the child process.\<close>

datatype process_call = ProcessWrite "byte list" | ProcessResize int int | ProcessStop

text \<open>
  \<open>sv_Idle\<close> is whether the post-exit timer is armed; \<open>sv_Deciding\<close> that its callback has decided to
  shut down, permanently or not, and has not done so yet; \<open>sv_Down\<close> that \<open>shutdown\<close> has run.
\<close>

record server =
  sv_Config :: server_config
  sv_Cols :: int
  sv_Rows :: int
  sv_Log :: event_log
  sv_File :: persistent_log
  sv_Unlinked :: bool
  sv_Clients :: "(nat \<times> outbox) list"
  sv_NextClient :: nat
  sv_Exited :: bool
  sv_Exit :: "exit_info option"
  sv_Idle :: bool
  sv_Deciding :: "bool option"
  sv_Down :: bool

section \<open>Greeting\<close>

definition providerConversationIdentity :: "server_config \<Rightarrow> string \<times> string" where
  "providerConversationIdentity cfg =
     (if sc_Claude cfg then
        (let i = ClaudeSessionID (sc_Args cfg) in if IsConversationUUID i then (i, i) else ([], []))
      else if sc_Codex cfg then
        (let i = CodexConversationID (sc_Args cfg) in if IsConversationUUID i then (i, []) else ([], []))
      else ([], []))"

text \<open>The HELLO payload; \<open>helloLocked\<close> sets neither a retry, a turn nor the message capability.\<close>

definition helloLocked :: "server \<Rightarrow> json" where
  "helloLocked s =
     (let cfg = sv_Config s; (conversation, claude) = providerConversationIdentity cfg
      in JObj ([(''id'', jstr (sc_ID cfg)), (''cmd'', jstr (sc_Cmd cfg)), (''args'', jstrs (sc_Args cfg)),
           (''cwd'', jstr (sc_Cwd cfg)), (''cols'', JInt (sv_Cols s)), (''rows'', JInt (sv_Rows s)),
           (''createdAt'', JInt (sc_CreatedAt cfg)), (''pid'', JInt (sc_PID cfg)),
           (''currentSeq'', ju32 (CurrentSeq (sv_Log s))), (''protocolVersion'', JInt ProtocolVersion)]
         @ opt_str ''runtimeVersion'' (sc_Version cfg) @ opt_str ''conversationId'' conversation
         @ opt_str ''claudeSessionId'' claude))"

definition enc_exit :: "exit_info \<Rightarrow> json" where
  "enc_exit x = JObj [(''code'', case xi_Code x of None \<Rightarrow> JNull | Some n \<Rightarrow> JInt n),
     (''signal'', case xi_Signal x of None \<Rightarrow> JNull | Some t \<Rightarrow> jstr t), (''seq'', ju32 (xi_Seq x))]"

definition cancelIdleShutdown :: "server \<Rightarrow> server" where
  "cancelIdleShutdown s = s\<lparr>sv_Idle := False\<rparr>"

text \<open>The head of \<open>serveClient\<close>: the new client is registered, greeted, and told of the exit if there was one.\<close>

definition greet :: "(json \<Rightarrow> byte list) \<Rightarrow> bool \<Rightarrow> server \<Rightarrow> outbox" where
  "greet text ok s =
     (let (sent, ob) = write_through ok Hello (text (helloLocked s)) newClient;
          (sent2, ob2) = (case sv_Exit s of
             Some x \<Rightarrow> if sent then write_through ok Exit (text (enc_exit x)) ob else (sent, ob)
           | None \<Rightarrow> (sent, ob))
      in if sent2 then ob2 else close_outbox ob2)"

definition serveClient :: "(json \<Rightarrow> byte list) \<Rightarrow> bool \<Rightarrow> server \<Rightarrow> server" where
  "serveClient text ok s =
     (let s1 = cancelIdleShutdown s
      in s1\<lparr>sv_Clients := sv_Clients s1 @ [(sv_NextClient s1, greet text ok s1)], sv_NextClient := sv_NextClient s1 + 1\<rparr>)"

section \<open>Output\<close>

definition update_client :: "nat \<Rightarrow> (outbox \<Rightarrow> outbox) \<Rightarrow> (nat \<times> outbox) list \<Rightarrow> (nat \<times> outbox) list" where
  "update_client i g cs = map (\<lambda>(j, ob). (j, if j = i then g ob else ob)) cs"

definition broadcastBytes :: "frame \<Rightarrow> server \<Rightarrow> server" where
  "broadcastBytes f s = s\<lparr>sv_Clients := map (\<lambda>(j, ob). (j, enqueueFrame f ob)) (sv_Clients s)\<rparr>"

definition output_frame :: "output_event \<Rightarrow> frame" where
  "output_frame ev = \<lparr>fr_Type = type_byte Output, fr_Payload = put_uint32 (fst ev) @ snd ev\<rparr>"

text \<open>A failed append is logged and nothing else; a frame that is too large is not sent.\<close>

definition recordOutput :: "file_env \<Rightarrow> byte list \<Rightarrow> server \<Rightarrow> server" where
  "recordOutput fe data s =
     (let seq = el_NextSeq (sv_Log s);
          s1 = s\<lparr>sv_Log := Push (sv_Log s) data, sv_File := snd (Append fe (sv_File s) (seq, data))\<rparr>
      in if EncodeOutput seq data = None then s1 else broadcastBytes (output_frame (seq, data)) s1)"

definition snapshotLocked :: "server \<Rightarrow> byte list" where
  "snapshotLocked s = concat (map snd (rp_Events (Since (sv_Log s) 0)))"

section \<open>Frames from a client\<close>

fun write_events :: "bool list \<Rightarrow> output_event list \<Rightarrow> outbox \<Rightarrow> bool \<times> outbox" where
  "write_events oks [] ob = (True, ob)"
| "write_events oks (ev # evs) ob =
     (let (sent, ob1) = write_through (hd (oks @ [True])) Output (put_uint32 (fst ev) @ snd ev) ob
      in if sent then write_events (tl oks) evs ob1 else (False, ob1))"

text \<open>
  A number field: its integer, or \<open>None\<close> inside for a number that is not one.
\<close>

fun dec_number :: "(string \<Rightarrow> int option) \<Rightarrow> int option decoder" where
  "dec_number integral x JNull = Some x"
| "dec_number integral x (JInt n) = Some (Some n)"
| "dec_number integral x (JReal t) = Some (integral t)"
| "dec_number integral x _ = None"

definition dec_resize :: "(string \<Rightarrow> int option) \<Rightarrow> int option \<times> int option \<Rightarrow> members \<Rightarrow> (int option \<times> int option) option" where
  "dec_resize integral p ms = do {
     cols \<leftarrow> field (dec_number integral) ''cols'' (fst p) ms;
     rows \<leftarrow> field (dec_number integral) ''rows'' (snd p) ms;
     Some (cols, rows) }"

text \<open>
  The result is the process call, the new outbox of the client, and whether the connection is kept.
  The two fields of a resize are floats; \<open>integral\<close> is the integer that the text of a number with a
  fraction or an exponent stands for, if it is one.
\<close>

definition handleFrame_runner ::
  "(byte list \<Rightarrow> json option) \<Rightarrow> (string \<Rightarrow> int option) \<Rightarrow> bool list \<Rightarrow> frame \<Rightarrow> outbox \<Rightarrow> server
    \<Rightarrow> process_call option \<times> (int \<times> int) option \<times> outbox \<times> bool" where
  "handleFrame_runner parse integral oks f ob s =
     (case type_of (fr_Type f) of
        Input \<Rightarrow> (if sv_Exited s then None else Some (ProcessWrite (fr_Payload f)), None, ob, True)
      | Resize \<Rightarrow>
          (case unmarshal (dec_struct (dec_resize integral)) (Some 0, Some 0) (parse (fr_Payload f)) of
             Some (Some cols, Some rows) \<Rightarrow>
               if cols \<le> 0 \<or> rows \<le> 0 \<or> cols > 65535 \<or> rows > 65535 \<or> sv_Exited s then (None, None, ob, True)
               else (Some (ProcessResize cols rows), Some (cols, rows), ob, True)
           | _ \<Rightarrow> (None, None, ob, True))
      | SnapshotReq \<Rightarrow>
          (let snap = snapshotLocked s;
               part = (if length snap + 1 > MaxFrameLen then drop (length snap - (MaxFrameLen - 1)) snap else snap);
               (sent, ob1) = write_through (hd (oks @ [True])) SnapshotRes part ob
           in (None, None, ob1, sent))
      | ReplayReq \<Rightarrow>
          (if length (fr_Payload f) < 4 then (None, None, ob, True)
           else let (sent, ob1) = write_events oks (rp_Events (Since (sv_Log s) (get_uint32 (fr_Payload f)))) ob
                in if \<not> sent then (None, None, ob1, False)
                   else let (sent2, ob2) = write_through (hd (drop (length (rp_Events (Since (sv_Log s) (get_uint32 (fr_Payload f))))) oks @ [True])) ReplayDone [] ob1
                        in (None, None, ob2, sent2))
      | Kill \<Rightarrow> (if sv_Exited s then None else Some ProcessStop, None, ob, True)
      | _ \<Rightarrow> (None, None, ob, True))"

section \<open>The end\<close>

definition scheduleIdleShutdown :: "server \<Rightarrow> server" where
  "scheduleIdleShutdown s =
     (if \<not> sv_Exited s \<or> sv_Clients s \<noteq> [] \<or> sv_Idle s then s else s\<lparr>sv_Idle := True\<rparr>)"

text \<open>\<open>waitChild\<close> once the output has been drained: the exit carries the last sequence number.\<close>

definition waitChild :: "(json \<Rightarrow> byte list) \<Rightarrow> int option \<Rightarrow> string option \<Rightarrow> server \<Rightarrow> server" where
  "waitChild text code signal s =
     (let info = \<lparr>xi_Code = code, xi_Signal = signal, xi_Seq = CurrentSeq (sv_Log s)\<rparr>;
          noClients = (sv_Clients s = []);
          s1 = s\<lparr>sv_Exited := True, sv_Exit := Some info\<rparr>;
          s2 = broadcastBytes \<lparr>fr_Type = type_byte Exit, fr_Payload = text (enc_exit info)\<rparr> s1
      in if noClients then scheduleIdleShutdown s2 else s2)"

definition removeClient :: "nat \<Rightarrow> server \<Rightarrow> server" where
  "removeClient i s =
     (let s1 = s\<lparr>sv_Clients := filter (\<lambda>c. fst c \<noteq> i) (sv_Clients s)\<rparr>
      in if sv_Exited s1 \<and> sv_Clients s1 = [] then scheduleIdleShutdown s1 else s1)"

text \<open>The timer's callback: it looks again before it decides.\<close>

definition idle_fires :: "server \<Rightarrow> server" where
  "idle_fires s =
     (let s1 = s\<lparr>sv_Idle := False\<rparr>
      in if \<not> sv_Exited s \<or> sv_Clients s \<noteq> [] then s1
         else s1\<lparr>sv_Deciding := Some (\<not> sc_JsonlMissing (sv_Config s))\<rparr>)"

definition shutdown :: "bool \<Rightarrow> server \<Rightarrow> server" where
  "shutdown permanent s =
     (if sv_Down s then s
      else s\<lparr>sv_Down := True, sv_Deciding := None, sv_File := Close (sv_File s),
        sv_Unlinked := permanent \<or> sv_Unlinked s\<rparr>)"

section \<open>The steps\<close>

inductive server_step :: "(byte list \<Rightarrow> json option) \<Rightarrow> (json \<Rightarrow> byte list) \<Rightarrow> (string \<Rightarrow> int option) \<Rightarrow> server \<Rightarrow> server \<Rightarrow> bool"
  for parse texts integral where
  serve: "\<not> sv_Down s \<Longrightarrow> server_step parse texts integral s (serveClient texts ok s)"
| record_output: "\<not> sv_Down s \<Longrightarrow> \<not> sv_Exited s \<Longrightarrow> server_step parse texts integral s (recordOutput fe data s)"
| write_turn: "server_step parse texts integral s (s\<lparr>sv_Clients := update_client i (writeLoop_turn ok) (sv_Clients s)\<rparr>)"
| client_frame: "\<not> sv_Down s \<Longrightarrow> map_of (sv_Clients s) i = Some ob \<Longrightarrow>
    handleFrame_runner parse integral oks f ob s = (call, size', ob', keep) \<Longrightarrow>
    server_step parse texts integral s
      ((case size' of None \<Rightarrow> s | Some (cols, rows) \<Rightarrow> s\<lparr>sv_Cols := cols, sv_Rows := rows\<rparr>)
         \<lparr>sv_Clients := update_client i (\<lambda>_. if keep then ob' else close_outbox ob') (sv_Clients s)\<rparr>)"
| client_gone: "i \<in> fst ` set (sv_Clients s) \<Longrightarrow> server_step parse texts integral s (removeClient i s)"
| child_exits: "\<not> sv_Exited s \<Longrightarrow> server_step parse texts integral s (waitChild texts code signal s)"
| timer: "sv_Idle s \<Longrightarrow> server_step parse texts integral s (idle_fires s)"
| shut: "sv_Deciding s = Some permanent \<Longrightarrow> server_step parse texts integral s (shutdown permanent s)"

definition server_start :: "server \<Rightarrow> bool" where
  "server_start s \<longleftrightarrow> sv_Clients s = [] \<and> \<not> sv_Exited s \<and> sv_Exit s = None \<and> \<not> sv_Idle s \<and> sv_Deciding s = None
     \<and> \<not> sv_Down s \<and> \<not> sv_Unlinked s \<and> sv_NextClient s = 0"

end
