(* ===== verification/Runner_Link.thy ===== *)
theory Runner_Link
  imports Runner_Calls Runner_Server
begin

text \<open>
  Runner and daemon together: what the runner puts on the connection for a replay, read by the
  client that asked for it.
\<close>

section \<open>Reading a run of frames\<close>

text \<open>The read loop over frames that have arrived, with the second section of each response.\<close>

fun read_all :: "(byte list \<Rightarrow> json option) \<Rightarrow> int \<Rightarrow> (nat \<Rightarrow> nat) \<Rightarrow> frame list \<Rightarrow> client \<Rightarrow> client" where
  "read_all parse now ns [] c = c"
| "read_all parse now ns (f # fs) c =
     (case cl_Reader c of
        Reading clean \<Rightarrow>
          if \<not> cl_Conn c then c
          else (let c1 = read_frame parse now ns f clean c
                in case cl_Reader c1 of
                     Finishing x clean1 \<Rightarrow> read_all parse now ns fs ((apply_finish x c1)\<lparr>cl_Reader := Reading clean1\<rparr>)
                   | _ \<Rightarrow> read_all parse now ns fs c1)
      | _ \<Rightarrow> c)"

lemma read_all_steps: "(client_step parse)\<^sup>*\<^sup>* c (read_all parse now ns fs c)"
proof (induction fs arbitrary: c)
  case (Cons f fs)
  show ?case
  proof (cases "\<exists>clean. cl_Reader c = Reading clean \<and> cl_Conn c")
    case True
    then obtain clean where r: "cl_Reader c = Reading clean" "cl_Conn c" by blast
    let ?c1 = "read_frame parse now ns f clean c"
    have s1: "client_step parse c ?c1" by (rule step_read [OF r])
    show ?thesis
    proof (cases "\<exists>x clean1. cl_Reader ?c1 = Finishing x clean1")
      case True
      then obtain x clean1 where x: "cl_Reader ?c1 = Finishing x clean1" by blast
      have "client_step parse ?c1 ((apply_finish x ?c1)\<lparr>cl_Reader := Reading clean1\<rparr>)" by (rule step_finish [OF x])
      then show ?thesis using s1 r x Cons.IH [of "(apply_finish x ?c1)\<lparr>cl_Reader := Reading clean1\<rparr>"]
        by (simp add: Let_def converse_rtranclp_into_rtranclp)
    next
      case False
      then have "read_all parse now ns (f # fs) c = read_all parse now ns fs ?c1"
        using r by (simp add: Let_def split: reader.splits)
      then show ?thesis using s1 Cons.IH [of ?c1] by (metis converse_rtranclp_into_rtranclp)
    qed
  next
    case False
    then have "read_all parse now ns (f # fs) c = c" by (auto split: reader.splits)
    then show ?thesis by simp
  qed
qed simp

section \<open>Reading output\<close>

definition as_output :: "int \<Rightarrow> output_event \<Rightarrow> output_msg" where
  "as_output now ev = \<lparr>ou_Seq = fst ev, ou_Data = snd ev, ou_At = now\<rparr>"

definition same_event :: "output_msg \<Rightarrow> output_event" where
  "same_event o1 = (ou_Seq o1, ou_Data o1)"

lemma same_as_output [simp]: "same_event (as_output now ev) = ev" "same_event \<circ> as_output now = id"
  by (auto simp: same_event_def as_output_def)

lemma read_output:
  assumes "cl_Reader c = Reading False" and "cl_Conn c"
  shows "read_all parse now ns (output_frame ev # fs) c
     = read_all parse now ns fs (c\<lparr>cl_Info := (cl_Info c)\<lparr>ri_CurrentSeq := fst ev\<rparr>,
         cl_Replay := map_option (\<lambda>q. q\<lparr>pq_Events := pq_Events q @ [as_output now ev]\<rparr>) (cl_Replay c),
         cl_Streams := broadcast (EventOutput (as_output now ev)) (cl_Streams c)\<rparr>)"
proof -
  let ?c1 = "c\<lparr>cl_Info := (cl_Info c)\<lparr>ri_CurrentSeq := fst ev\<rparr>,
         cl_Replay := map_option (\<lambda>q. q\<lparr>pq_Events := pq_Events q @ [as_output now ev]\<rparr>) (cl_Replay c),
         cl_Streams := broadcast (EventOutput (as_output now ev)) (cl_Streams c)\<rparr>"
  have d: "DecodeOutput (put_uint32 (fst ev) @ snd ev) = Some (fst ev, snd ev)" by (simp add: DecodeOutput_def)
  have h: "handleFrame parse now ns (output_frame ev) c = (?c1, None, False)"
    by (simp add: handleFrame_def output_frame_def d broadcastLocked_def as_output_def Let_def case_prod_beta)
  have "?c1\<lparr>cl_Reader := Reading False\<rparr> = ?c1" using assms(1) by simp
  then have "read_frame parse now ns (output_frame ev) False c = ?c1" using h by (simp add: read_frame_def)
  then show ?thesis using assms by (simp add: Let_def)
qed

lemma read_outputs:
  assumes "cl_Reader c = Reading False" and "cl_Conn c" and "cl_Replay c = Some q"
  shows "\<exists>ss. read_all parse now ns (map output_frame evs @ fs) c
     = read_all parse now ns fs (c\<lparr>cl_Info := (if evs = [] then cl_Info c else (cl_Info c)\<lparr>ri_CurrentSeq := fst (last evs)\<rparr>),
         cl_Replay := Some (q\<lparr>pq_Events := pq_Events q @ map (as_output now) evs\<rparr>), cl_Streams := ss\<rparr>)"
  using assms
proof (induction evs arbitrary: c q)
  case Nil
  then have "c = c\<lparr>cl_Info := cl_Info c, cl_Replay := Some (q\<lparr>pq_Events := pq_Events q @ []\<rparr>), cl_Streams := cl_Streams c\<rparr>"
    by simp
  then show ?case by (intro exI [of _ "cl_Streams c"]) simp
next
  case (Cons ev evs)
  let ?c1 = "c\<lparr>cl_Info := (cl_Info c)\<lparr>ri_CurrentSeq := fst ev\<rparr>,
         cl_Replay := Some (q\<lparr>pq_Events := pq_Events q @ [as_output now ev]\<rparr>),
         cl_Streams := broadcast (EventOutput (as_output now ev)) (cl_Streams c)\<rparr>"
  have c1: "cl_Reader ?c1 = Reading False" "cl_Conn ?c1" "cl_Replay ?c1 = Some (q\<lparr>pq_Events := pq_Events q @ [as_output now ev]\<rparr>)"
    using Cons.prems by simp_all
  have "read_all parse now ns (map output_frame (ev # evs) @ fs) c = read_all parse now ns (map output_frame evs @ fs) ?c1"
    using read_output [OF Cons.prems(1,2), of parse now ns ev "map output_frame evs @ fs"] Cons.prems(3) by simp
  moreover obtain ss where "read_all parse now ns (map output_frame evs @ fs) ?c1 = read_all parse now ns fs
      (?c1\<lparr>cl_Info := (if evs = [] then cl_Info ?c1 else (cl_Info ?c1)\<lparr>ri_CurrentSeq := fst (last evs)\<rparr>),
         cl_Replay := Some (q\<lparr>pq_Events := pq_Events q @ [as_output now ev]\<rparr>\<lparr>pq_Events :=
            pq_Events (q\<lparr>pq_Events := pq_Events q @ [as_output now ev]\<rparr>) @ map (as_output now) evs\<rparr>), cl_Streams := ss\<rparr>)"
    using Cons.IH [OF c1] by blast
  ultimately show ?case by (intro exI [of _ ss]) simp
qed

lemma read_done:
  assumes "cl_Reader c = Reading False" and "cl_Conn c" and "cl_Replay c = Some q"
  shows "read_all parse now ns [\<lparr>fr_Type = type_byte ReplayDone, fr_Payload = []\<rparr>] c = c\<lparr>cl_Replay := Some (q\<lparr>pq_Done := True\<rparr>)\<rparr>"
  using assms by (simp add: read_frame_def handleFrame_def finishReplay_def Let_def)

section \<open>What the runner sends\<close>

definition on_wire :: "outbox \<Rightarrow> frame list" where
  "on_wire ob = ob_Sent ob @ ob_Queue ob"

lemma write_through_wire:
  "write_through ok typ payload ob = (True, ob') \<Longrightarrow>
     on_wire ob' = on_wire ob @ [\<lparr>fr_Type = type_byte typ, fr_Payload = payload\<rparr>]"
  by (auto simp: write_through_def on_wire_def split: if_splits)

lemma write_events_wire:
  "write_events oks evs ob = (True, ob') \<Longrightarrow> on_wire ob' = on_wire ob @ map output_frame evs"
proof (induction oks evs ob rule: write_events.induct)
  case (2 oks ev evs ob)
  obtain sent ob1 where w: "write_through (hd (oks @ [True])) Output (put_uint32 (fst ev) @ snd ev) ob = (sent, ob1)" by fastforce
  then have sent: "sent" using 2(2) by (auto split: if_splits)
  have "on_wire ob1 = on_wire ob @ [output_frame ev]"
    using write_through_wire w sent by (simp add: output_frame_def)
  then show ?case using 2 w sent by simp
qed simp

lemma replay_wire:
  assumes "handleFrame_runner parse integral oks \<lparr>fr_Type = type_byte ReplayReq, fr_Payload = put_uint32 after\<rparr> ob s
      = (call, size', ob', True)"
  shows "on_wire ob' = on_wire ob @ map output_frame (rp_Events (Since (sv_Log s) after))
      @ [\<lparr>fr_Type = type_byte ReplayDone, fr_Payload = []\<rparr>]"
proof -
  have t: "type_of 0x13 = ReplayReq" by (simp add: type_of_eval)
  let ?evs = "rp_Events (Since (sv_Log s) after)"
  have l: "\<not> length (put_uint32 after) < 4" by (simp add: put_uint32_def)
  have g: "get_uint32 (put_uint32 after) = after" using get_put_take [of 4 after "[]"] by (simp add: put_uint32_def)
  obtain sent ob1 where e: "write_events oks ?evs ob = (sent, ob1)" by fastforce
  obtain sent2 ob2 where d: "write_through (hd (drop (length ?evs) oks @ [True])) ReplayDone [] ob1 = (sent2, ob2)" by fastforce
  have "sent" "sent2" "ob' = ob2" using assms t l g e d by (auto simp: handleFrame_runner_def Let_def split: if_splits)
  then show ?thesis using write_events_wire [of oks ?evs ob ob1] write_through_wire [of _ ReplayDone "[]" ob1 ob2] e d by auto
qed

section \<open>A sorted history\<close>

lemma filter_mem: "filter P xs = ys \<Longrightarrow> y \<in> set ys \<longleftrightarrow> y \<in> set xs \<and> P y"
  by auto

lemma filter_above_first:
  assumes "sorted_wrt (\<lambda>a b. fst a < fst b) (h :: output_event list)" and "filter (\<lambda>e. fst e > a) h = f # fs"
  shows "filter (\<lambda>e. fst e \<ge> fst f) h = f # fs"
proof -
  have s: "sorted_wrt (\<lambda>a b. fst a < fst b) (f # fs)" using assms by (metis sorted_wrt_filter)
  have "fst e \<ge> fst f \<longleftrightarrow> fst e > a" if "e \<in> set h" for e
  proof
    assume "fst e > a"
    then have "e \<in> set (f # fs)" using that filter_mem [OF assms(2), of e] by blast
    then show "fst e \<ge> fst f" using s by auto
  next
    assume "fst e \<ge> fst f"
    moreover have "fst f > a" using filter_mem [OF assms(2), of f] by simp
    ultimately show "fst e > a" by simp
  qed
  then have "filter (\<lambda>e. fst e \<ge> fst f) h = filter (\<lambda>e. fst e > a) h" by (rule filter_cong [OF refl])
  then show ?thesis using assms(2) by simp
qed

lemma last_is_greatest:
  "sorted_wrt (\<lambda>a b. fst a < fst b) (h :: output_event list) \<Longrightarrow> e \<in> set h \<Longrightarrow> fst e \<le> fst (last h)"
  by (induction h rule: rev_induct) (auto simp: sorted_wrt_append less_imp_le)

lemma last_filter_up:
  assumes "sorted_wrt (\<lambda>a b. fst a < fst b) (h :: output_event list)" and "filter (\<lambda>e. fst e \<ge> a) h \<noteq> []"
  shows "last (filter (\<lambda>e. fst e \<ge> a) h) = last h"
proof -
  obtain e where "e \<in> set h" "fst e \<ge> a" using assms(2) by (auto simp: filter_empty_conv)
  then have "fst (last h) \<ge> a" "h \<noteq> []" using last_is_greatest [OF assms(1)] by fastforce+
  then show ?thesis by (cases h rule: rev_cases) auto
qed

section \<open>A replay, end to end\<close>

text \<open>The client's window against the ring's own answer.\<close>

definition window_ok :: "output_event list \<Rightarrow> 32 word \<Rightarrow> replay_window \<Rightarrow> bool" where
  "window_ok h after w \<longleftrightarrow>
     (\<not> rw_Gap w \<longrightarrow> map same_event (rw_Events w) = filter (\<lambda>e. fst e > after) h)
     \<and> (rw_Gap w \<longrightarrow> map same_event (rw_Events w) = filter (\<lambda>e. fst e \<ge> rw_Oldest w) h \<and> after + 1 < rw_Oldest w)
     \<and> (h \<noteq> [] \<longrightarrow> rw_Current w = fst (last h))"

lemma client_window:
  assumes rise: "rising (history_of restored chunks)" and after: "after \<noteq> - 1"
    and log: "lg = runner_log cap restored chunks" and evs: "evs = rp_Events (Since lg after)"
    and q: "cl_Replay c = Some q" "pq_Done q" "pq_Events q = map (as_output now) evs"
    and cur: "ri_CurrentSeq (cl_Info c) = (if evs = [] then CurrentSeq lg else fst (last evs))"
  shows "\<exists>w c'. replay_end after c = Some (w, c') \<and> window_ok (history_of restored chunks) after w"
proof -
  let ?h = "history_of restored chunks" and ?r = "Since lg after"
  have sorted: "sorted_wrt (\<lambda>a b. fst a < fst b) ?h" using rise by (simp add: rising_def)
  have spec: "\<not> rp_Gap ?r \<longrightarrow> evs = filter (\<lambda>e. fst e > after) ?h"
    "rp_Gap ?r \<longrightarrow> evs = filter (\<lambda>e. fst e \<ge> rp_Oldest ?r) ?h \<and> after + 1 < rp_Oldest ?r \<and> (\<exists>e \<in> set ?h. fst e = rp_Oldest ?r)"
    using replay_spec [OF rise after, of cap] unfolding Let_def log evs by blast+
  have curlog: "CurrentSeq lg = (if ?h = [] then 0 else fst (last ?h))"
    using pushed_inv [OF rise] runner_log_pushed [OF rise] log by (simp add: CurrentSeq_def next_after_def)
  let ?current = "ri_CurrentSeq (cl_Info c)" and ?oldest = "case evs of [] \<Rightarrow> ri_CurrentSeq (cl_Info c) + 1 | e # _ \<Rightarrow> fst e"
  let ?w = "\<lparr>rw_Events = pq_Events q, rw_Structured = pq_Structured q,
      rw_Gap = (?current > after \<and> (evs = [] \<or> after + 1 < ?oldest)), rw_Oldest = ?oldest, rw_Current = ?current\<rparr>"
  have e: "replay_end after c = Some (?w, c\<lparr>cl_Replay := None\<rparr>)"
    using q by (simp add: replay_end_def Let_def as_output_def split: list.splits)
  have m: "map same_event (rw_Events ?w) = evs" using q(3) by simp
  show ?thesis
  proof (cases evs)
    case Nil
    have ng: "\<not> rp_Gap ?r"
    proof
      assume "rp_Gap ?r"
      then obtain e where "e \<in> set ?h" "fst e = rp_Oldest ?r" "evs = filter (\<lambda>e. fst e \<ge> rp_Oldest ?r) ?h" using spec(2) by blast
      then have "e \<in> set evs" by simp
      then show False using Nil by simp
    qed
    then have none: "filter (\<lambda>e. fst e > after) ?h = []" using spec(1) Nil by simp
    have "\<not> ?current > after"
    proof (cases "?h = []")
      case True
      then show ?thesis using cur Nil curlog by simp
    next
      case False
      then have "last ?h \<in> set ?h" by simp
      then have "\<not> fst (last ?h) > after" using none by (simp add: filter_empty_conv)
      then show ?thesis using cur Nil curlog False by simp
    qed
    then have "\<not> rw_Gap ?w" by simp
    moreover have "?h \<noteq> [] \<longrightarrow> rw_Current ?w = fst (last ?h)" using cur Nil curlog by simp
    ultimately have "window_ok ?h after ?w" using m none Nil by (simp add: window_ok_def)
    then show ?thesis using e by blast
  next
    case (Cons f fs)
    have eq: "evs = filter (\<lambda>e. fst e \<ge> fst f) ?h"
    proof (cases "rp_Gap ?r")
      case True
      then obtain g where g: "g \<in> set ?h" "fst g = rp_Oldest ?r" and ev: "evs = filter (\<lambda>e. fst e \<ge> rp_Oldest ?r) ?h"
        using spec(2) by blast
      have "g \<in> set evs" using g ev by simp
      moreover have "sorted_wrt (\<lambda>a b. fst a < fst b) (f # fs)" using sorted ev Cons by (metis sorted_wrt_filter)
      ultimately have "fst f \<le> rp_Oldest ?r" using g(2) Cons by auto
      moreover have "f \<in> set evs" using Cons by simp
      then have "fst f \<ge> rp_Oldest ?r" using ev by simp
      ultimately show ?thesis using ev by simp
    next
      case False
      then show ?thesis using spec(1) Cons filter_above_first [OF sorted, of after f fs] by simp
    qed
    have lastev: "last evs = last ?h" using last_filter_up [OF sorted] eq Cons by (metis list.distinct(1))
    have curr: "?current = fst (last ?h)" using cur Cons lastev by simp
    have "f \<in> set ?h" using Cons filter_mem [OF sym [OF eq], of f] by simp
    then have le: "fst f \<le> ?current" using last_is_greatest [OF sorted] curr by simp
    have up: "rp_Oldest ?r \<le> fst f \<and> after + 1 < rp_Oldest ?r" if "rp_Gap ?r"
    proof -
      have ev: "filter (\<lambda>e. fst e \<ge> rp_Oldest ?r) ?h = evs" "after + 1 < rp_Oldest ?r" using spec(2) that by simp_all
      then show ?thesis using filter_mem [OF ev(1), of f] Cons by simp
    qed
    have "fst f > after"
    proof (cases "rp_Gap ?r")
      case True
      then show ?thesis using up word_next [OF after] by (meson less_trans order_less_le_trans)
    next
      case False
      then have ev: "filter (\<lambda>e. fst e > after) ?h = evs" using spec(1) by simp
      then show ?thesis using filter_mem [OF ev, of f] Cons by simp
    qed
    then have gap: "rw_Gap ?w = (after + 1 < fst f)" using le Cons by (auto intro: order_less_le_trans)
    have "filter (\<lambda>e. fst e > after) ?h = evs" if "\<not> after + 1 < fst f"
    proof -
      have "\<not> rp_Gap ?r" using up that by (meson order_less_le_trans)
      then show ?thesis using spec(1) by simp
    qed
    moreover have o: "rw_Oldest ?w = fst f" using Cons by simp
    moreover have "rw_Current ?w = fst (last ?h)" using curr by simp
    ultimately have "window_ok ?h after ?w" unfolding window_ok_def m o gap using eq by metis
    then show ?thesis using e by blast
  qed
qed

text \<open>C2: a replay, end to end.  A client that asks a runner for what follows a number, when no live output
  arrives in between, is given by the read loop exactly what the runner
  ever recorded after that number, in order, if the window reports no gap; if it reports one, what
  is missing is exactly what came before the oldest event of the window; and the window ends at the
  runner's last event.\<close>

theorem replay_end_to_end:
  assumes "rising (history_of restored chunks)" and "after \<noteq> - 1" and "sv_Log s = runner_log cap restored chunks"
    and "handleFrame_runner parse integral oks \<lparr>fr_Type = type_byte ReplayReq, fr_Payload = put_uint32 after\<rparr> ob s
      = (call, size', ob', True)"
    and "cl_Reader c = Reading False" and "cl_Conn c" and "cl_Replay c = Some q" and "pq_Events q = []"
    and "ri_CurrentSeq (cl_Info c) = CurrentSeq (sv_Log s)"
  shows "\<exists>w c'. replay_end after (read_all parse' now ns (drop (length (on_wire ob)) (on_wire ob')) c) = Some (w, c')
      \<and> window_ok (history_of restored chunks) after w"
proof -
  let ?evs = "rp_Events (Since (sv_Log s) after)" and ?done = "\<lparr>fr_Type = type_byte ReplayDone, fr_Payload = []\<rparr>"
  have wire: "drop (length (on_wire ob)) (on_wire ob') = map output_frame ?evs @ [?done]"
    using replay_wire [OF assms(4)] by simp
  let ?info = "if ?evs = [] then cl_Info c else (cl_Info c)\<lparr>ri_CurrentSeq := fst (last ?evs)\<rparr>"
  obtain ss where r: "read_all parse' now ns (map output_frame ?evs @ [?done]) c = read_all parse' now ns [?done]
      (c\<lparr>cl_Info := ?info, cl_Replay := Some (q\<lparr>pq_Events := pq_Events q @ map (as_output now) ?evs\<rparr>), cl_Streams := ss\<rparr>)"
    using read_outputs [OF assms(5-7)] by blast
  let ?q = "q\<lparr>pq_Events := map (as_output now) ?evs, pq_Done := True\<rparr>"
  let ?c = "c\<lparr>cl_Info := ?info, cl_Replay := Some ?q, cl_Streams := ss\<rparr>"
  have e: "read_all parse' now ns (drop (length (on_wire ob)) (on_wire ob')) c = ?c"
    unfolding wire r using read_done assms(5,6,8) by simp
  have "ri_CurrentSeq (cl_Info ?c) = (if ?evs = [] then CurrentSeq (sv_Log s) else fst (last ?evs))" using assms(9) by simp
  then show ?thesis unfolding e using client_window [OF assms(1,2,3) refl, of ?c ?q now] by simp
qed

definition sample_server :: server where
  "sample_server = \<lparr>sv_Config = \<lparr>sc_ID = ''lane'', sc_Cmd = ''sh'', sc_Args = [], sc_Cwd = [], sc_CreatedAt = 0, sc_PID = 7,
       sc_Version = [], sc_Claude = False, sc_Codex = False, sc_JsonlMissing = False\<rparr>,
     sv_Cols = 80, sv_Rows = 24, sv_Log = runner_log 3 [(1, [10, 11])] [[12, 13]],
     sv_File = OpenPersistent [], sv_Unlinked = False, sv_Clients = [], sv_NextClient = 0, sv_Exited = False,
     sv_Exit = None, sv_Idle = False, sv_Deciding = None, sv_Down = False\<rparr>"

definition asking :: "32 word \<Rightarrow> client" where
  "asking seq = (subscribed\<lparr>cl_Info := (cl_Info subscribed)\<lparr>ri_CurrentSeq := seq\<rparr>,
     cl_Replay := Some \<lparr>pq_Id = 0, pq_Done = False, pq_Events = [], pq_Structured = []\<rparr>\<rparr>)"

lemma asking_fields:
  "cl_Reader (asking seq) = Reading False" "cl_Conn (asking seq)" "\<not> cl_Closed (asking seq)" "\<not> cl_Exited (asking seq)"
  "cl_Replay (asking seq) = Some \<lparr>pq_Id = 0, pq_Done = False, pq_Events = [], pq_Structured = []\<rparr>"
  "ri_CurrentSeq (cl_Info (asking seq)) = seq"
  by (simp_all add: asking_def subscribed_def Subscribe_def new_client_def startReader_def)

theorem replay_end_to_end_witness:
  "\<exists>w c'. replay_end 1 (read_all json_of 5 (\<lambda>_. 0) [output_frame (2, [12, 13]), \<lparr>fr_Type = type_byte ReplayDone, fr_Payload = []\<rparr>]
       (asking 2)) = Some (w, c')
     \<and> window_ok [(1, [10, 11]), (2, [12, 13])] 1 w"
proof -
  have h: "history_of [(1, [10, 11])] [[12, 13]] = [(1, [10, 11]), (2, [12, 13])]" by (simp add: history_of_def)
  have r: "rising (history_of [(1, [10, 11])] [[12, 13]])" unfolding h by (simp add: rising_def)
  have lg: "sv_Log sample_server = runner_log 3 [(1, [10, 11])] [[12, 13]]" by (simp add: sample_server_def)
  have evs: "rp_Events (Since (sv_Log sample_server) 1) = [(2, [12, 13])]" "CurrentSeq (sv_Log sample_server) = 2"
    by (simp_all add: sample_server_def runner_log_def Push_def PushAt_def NewEventLog_def Since_def CurrentSeq_def)
  let ?ob = "\<lparr>ob_Queue = [], ob_Closed = False,
      ob_Sent = [output_frame (2, [12, 13]), \<lparr>fr_Type = type_byte ReplayDone, fr_Payload = []\<rparr>]\<rparr>"
  have t: "type_of 0x13 = ReplayReq" by (simp add: type_of_eval)
  have g: "get_uint32 (put_uint32 1) = 1" "\<not> length (put_uint32 1) < 4" using get_put_take [of 4 1 "[]"] by (simp_all add: put_uint32_def)
  have served: "handleFrame_runner json_of (\<lambda>_. None) [] \<lparr>fr_Type = type_byte ReplayReq, fr_Payload = put_uint32 1\<rparr> newClient sample_server
      = (None, None, ?ob, True)"
    using evs(1) t g by (simp add: handleFrame_runner_def write_through_def newClient_def Encode_def MaxFrameLen_def
        output_frame_def put_uint32_def Let_def)
  have w: "drop (length (on_wire newClient)) (on_wire ?ob)
      = [output_frame (2, [12, 13]), \<lparr>fr_Type = type_byte ReplayDone, fr_Payload = []\<rparr>]" by (simp add: on_wire_def newClient_def)
  show ?thesis
    using replay_end_to_end [OF r _ lg served asking_fields(1,2,5), of 2 json_of 5 "\<lambda>_. 0"] evs(2) asking_fields(6) [of 2]
    unfolding w h by simp
qed

section \<open>A runner that has exited\<close>

lemma greet_exited:
  assumes "sv_Exit s = Some x" and "length (enc (helloLocked s)) < MaxFrameLen" and "length (enc (enc_exit x)) < MaxFrameLen"
  shows "on_wire (greet enc True s) = [\<lparr>fr_Type = type_byte Hello, fr_Payload = enc (helloLocked s)\<rparr>,
     \<lparr>fr_Type = type_byte Exit, fr_Payload = enc (enc_exit x)\<rparr>]"
  using assms by (simp add: greet_def write_through_def newClient_def on_wire_def Encode_def Let_def)

lemma exit_decodes:
  assumes "\<And>n. xi_Code x = Some n \<Longrightarrow> in_i64 n"
  shows "\<exists>e. unmarshal (dec_struct dec_exit) zero_exit (Some (enc_exit x)) = Some e \<and> xe_Seq e = xi_Seq x"
  using assms
  by (cases "xi_Code x"; cases "xi_Signal x")
     (auto simp: enc_exit_def dec_exit_def zero_exit_def json_simps key_simps jstr_def)

text \<open>What a runner that has exited still holds cannot be replayed.  Its greeting to a client that
  connects is HELLO and then at once EXIT, and the client closes the connection when it reads EXIT:
  whatever the runner may send behind it, the replay comes back empty, although the ring holds
  every event and the runner stays up for thirty seconds so that it can be asked.\<close>

lemma exited_runner_replays_nothing:
  assumes "sv_Exit s = Some x" and "\<And>n. xi_Code x = Some n \<Longrightarrow> in_i64 n"
    and "parse (enc (enc_exit x)) = Some (enc_exit x)"
    and "length (enc (enc_exit x)) < MaxFrameLen" and "length (enc (helloLocked s)) < MaxFrameLen"
    and "cl_Reader c = Reading False" and "cl_Conn c" and "\<not> cl_Closed c"
    and "cl_Replay c = Some q" and "pq_Events q = []"
  shows "let c' = read_all parse now ns (drop 1 (on_wire (greet enc True s)) @ fs) c
    in cl_Reader c' = Reading True \<and> \<not> cl_Conn c' \<and> cl_Replay c' = Some q
      \<and> (\<exists>w c''. replay_end after (read_error ns True c') = Some (w, c'') \<and> rw_Events w = [] \<and> rw_Current w = xi_Seq x
           \<and> rw_Gap w = (xi_Seq x > after))"
proof -
  let ?f = "\<lparr>fr_Type = type_byte Exit, fr_Payload = enc (enc_exit x)\<rparr>"
  obtain e where e: "unmarshal (dec_struct dec_exit) zero_exit (parse (enc (enc_exit x))) = Some e" "xe_Seq e = xi_Seq x"
    using exit_decodes [OF assms(2)] assms(3) by auto
  let ?c1 = "broadcastTerminal ns (EventExit e)
      (c\<lparr>cl_Exited := True, cl_Info := (cl_Info c)\<lparr>ri_CurrentSeq := xe_Seq e\<rparr>, cl_Conn := False\<rparr>)"
  have h: "handleFrame parse now ns ?f c = (?c1, None, True)" using e by (simp add: handleFrame_def Let_def)
  have wire: "drop 1 (on_wire (greet enc True s)) @ fs = ?f # fs" using greet_exited [OF assms(1,5,4)] by simp
  have stop: "read_all parse now ns fs (?c1\<lparr>cl_Reader := Reading True\<rparr>) = ?c1\<lparr>cl_Reader := Reading True\<rparr>"
    by (cases fs) (simp_all add: broadcastTerminal_def)
  have r: "read_all parse now ns (?f # fs) c = ?c1\<lparr>cl_Reader := Reading True\<rparr>"
    using assms(6,7) h stop by (simp add: read_frame_def Let_def)
  show ?thesis
    unfolding wire r
    using assms(8-10) e(2) by (simp add: broadcastTerminal_def read_error_def closeWithLoss_def replay_end_def Let_def)
qed

definition exited_server :: server where
  "exited_server = sample_server\<lparr>sv_Exited := True, sv_Exit := Some \<lparr>xi_Code = Some 0, xi_Signal = None, xi_Seq = 2\<rparr>\<rparr>"

lemma exited_runner_replays_nothing_witness:
  "rp_Events (Since (sv_Log exited_server) 0) = [(2, [12, 13])] \<and>
   (\<exists>w c''. replay_end 0 (read_error (\<lambda>_. 0) True (read_all (\<lambda>_. Some (enc_exit \<lparr>xi_Code = Some 0, xi_Signal = None, xi_Seq = 2\<rparr>)) 9 (\<lambda>_. 0)
       (drop 1 (on_wire (greet (\<lambda>_. [0]) True exited_server)) @ [output_frame (2, [12, 13])]) (asking 2))) = Some (w, c'')
     \<and> rw_Events w = [] \<and> rw_Gap w)"
proof -
  let ?x = "\<lparr>xi_Code = Some 0, xi_Signal = None, xi_Seq = 2\<rparr>"
  have e: "rp_Events (Since (sv_Log exited_server) 0) = [(2, [12, 13])]"
    by (simp add: exited_server_def sample_server_def runner_log_def Push_def PushAt_def NewEventLog_def Since_def)
  have x: "sv_Exit exited_server = Some ?x" by (simp add: exited_server_def)
  have c: "\<And>n. xi_Code ?x = Some n \<Longrightarrow> in_i64 n" by (simp add: in_i64_def)
  have l: "length [0 :: byte] < MaxFrameLen" by (simp add: MaxFrameLen_def)
  have p: "pq_Events \<lparr>pq_Id = 0, pq_Done = False, pq_Events = [], pq_Structured = []\<rparr> = []" by simp
  note r = exited_runner_replays_nothing [where parse = "\<lambda>_. Some (enc_exit ?x)" and enc = "\<lambda>_. [0]" and c = "asking 2"
      and now = 9 and ns = "\<lambda>_. 0" and after = 0 and fs = "[output_frame (2, [12, 13])]",
      OF x c refl l l asking_fields(1,2,3,5) p]
  have "xi_Seq ?x > 0" by simp
  then show ?thesis using r e unfolding Let_def by blast
qed

section \<open>Live output during a replay\<close>

text \<open>Output that arrives while a replay is asked for is in the window twice.  The client has
  registered its request; before the runner reads it, the process writes once more, and the
  frame goes out live.  The window then begins with that event, followed by the whole replay, which
  has it again.\<close>

lemma live_output_twice:
  assumes "\<not> ob_Closed ob" and "length (ob_Queue ob) < clientOutboxFrames"
    and "ev = (el_NextSeq (sv_Log s), data)" and "ev \<in> set (rp_Events (Since (Push (sv_Log s) data) after))"
    and "handleFrame_runner parse integral oks \<lparr>fr_Type = type_byte ReplayReq, fr_Payload = put_uint32 after\<rparr>
        (enqueueFrame (output_frame ev) ob) (recordOutput fe data s) = (call, size', ob', True)"
    and "cl_Reader c = Reading False" and "cl_Conn c" and "cl_Replay c = Some q" and "pq_Events q = []"
  shows "\<exists>w c'. replay_end after (read_all parse' now ns (drop (length (on_wire ob)) (on_wire ob')) c) = Some (w, c')
      \<and> map same_event (rw_Events w) = ev # rp_Events (Since (Push (sv_Log s) data) after)
      \<and> \<not> distinct (map same_event (rw_Events w))"
proof -
  let ?evs = "rp_Events (Since (Push (sv_Log s) data) after)" and ?done = "\<lparr>fr_Type = type_byte ReplayDone, fr_Payload = []\<rparr>"
  have lg: "sv_Log (recordOutput fe data s) = Push (sv_Log s) data"
    by (simp add: recordOutput_def broadcastBytes_def Let_def)
  have "on_wire (enqueueFrame (output_frame ev) ob) = on_wire ob @ [output_frame ev]"
    using assms(1,2) by (simp add: enqueueFrame_def on_wire_def)
  then have wire: "drop (length (on_wire ob)) (on_wire ob') = map output_frame (ev # ?evs) @ [?done]"
    using replay_wire [OF assms(5)] lg by simp
  obtain info ss where r: "read_all parse' now ns (map output_frame (ev # ?evs) @ [?done]) c = read_all parse' now ns [?done]
      (c\<lparr>cl_Info := info, cl_Replay := Some (q\<lparr>pq_Events := pq_Events q @ map (as_output now) (ev # ?evs)\<rparr>), cl_Streams := ss\<rparr>)"
    using read_outputs [OF assms(6-8), of parse' now ns "ev # ?evs" "[?done]"] by blast
  let ?q = "q\<lparr>pq_Events := map (as_output now) (ev # ?evs), pq_Done := True\<rparr>"
  have e: "read_all parse' now ns (drop (length (on_wire ob)) (on_wire ob')) c = c\<lparr>cl_Info := info, cl_Replay := Some ?q, cl_Streams := ss\<rparr>"
    unfolding wire r using read_done assms(6,7,9) by simp
  show ?thesis unfolding e using assms(4) by (simp add: replay_end_def Let_def)
qed

lemma live_output_twice_witness:
  "\<exists>w c'. replay_end 0 (read_all json_of 5 (\<lambda>_. 0) (map output_frame [(3, [14]), (2, [12, 13]), (3, [14])]
        @ [\<lparr>fr_Type = type_byte ReplayDone, fr_Payload = []\<rparr>]) (asking 2)) = Some (w, c')
      \<and> map same_event (rw_Events w) = [(3, [14]), (2, [12, 13]), (3, [14])]"
proof -
  let ?done = "\<lparr>fr_Type = type_byte ReplayDone, fr_Payload = []\<rparr>" and ?s = "recordOutput healthy [14] sample_server"
  have n: "el_NextSeq (sv_Log sample_server) = 3"
    by (simp add: sample_server_def runner_log_def Push_def PushAt_def NewEventLog_def)
  have evs: "rp_Events (Since (Push (sv_Log sample_server) [14]) 0) = [(2, [12, 13]), (3, [14])]"
    by (simp add: sample_server_def runner_log_def Push_def PushAt_def NewEventLog_def Since_def)
  have lg: "sv_Log ?s = Push (sv_Log sample_server) [14]" by (simp add: recordOutput_def broadcastBytes_def Let_def)
  let ?ob = "\<lparr>ob_Queue = [], ob_Closed = False,
      ob_Sent = [output_frame (3, [14]), output_frame (2, [12, 13]), output_frame (3, [14]), ?done]\<rparr>"
  have t: "type_of 0x13 = ReplayReq" by (simp add: type_of_eval)
  have g: "get_uint32 (put_uint32 0) = 0" "\<not> length (put_uint32 0) < 4" using get_put_take [of 4 0 "[]"] by (simp_all add: put_uint32_def)
  have served: "handleFrame_runner json_of (\<lambda>_. None) [] \<lparr>fr_Type = type_byte ReplayReq, fr_Payload = put_uint32 0\<rparr>
      (enqueueFrame (output_frame (3, [14])) newClient) ?s = (None, None, ?ob, True)"
    using evs t g lg by (simp add: handleFrame_runner_def write_through_def newClient_def enqueueFrame_def clientOutboxFrames_def
        Encode_def MaxFrameLen_def output_frame_def put_uint32_def Let_def)
  have w: "drop (length (on_wire newClient)) (on_wire ?ob) = map output_frame [(3, [14]), (2, [12, 13]), (3, [14])] @ [?done]"
    by (simp add: on_wire_def newClient_def)
  have o: "\<not> ob_Closed newClient" "length (ob_Queue newClient) < clientOutboxFrames"
    by (simp_all add: newClient_def clientOutboxFrames_def)
  have ev: "(3, [14]) = (el_NextSeq (sv_Log sample_server), [14 :: byte])" "(3, [14]) \<in> set (rp_Events (Since (Push (sv_Log sample_server) [14]) 0))"
    using n evs by simp_all
  show ?thesis
    using live_output_twice [where now = 5 and ns = "\<lambda>_. 0" and parse' = json_of and c = "asking 2",
        OF o ev served asking_fields(1,2,5)] unfolding w evs by auto
qed

end
