(* ===== verification/Provider_Fault.thy ===== *)
theory Provider_Fault
  imports Go_Text
begin

text \<open>
  What went wrong with a provider: \<open>Detect\<close> and \<open>Classify\<close> of
  \<open>runtime/internal/providerfault/providerfault.go\<close>.  The regular expressions are alternatives of
  words between word boundaries; they are matched over runes.  Go's \<open>(?i)\<close> folds ASCII letters and
  two other runes, U+212A to k and U+017F to s; \<open>strings.ToLower\<close> takes U+212A to k and U+0130 to i.
\<close>

section \<open>Words in a text\<close>

definition rune_values :: "string \<Rightarrow> nat list" where
  "rune_values s = map fst (runes s)"

definition pat :: "string \<Rightarrow> nat list" where
  "pat s = map byte_of s"

definition lower_ascii :: "nat \<Rightarrow> nat" where
  "lower_ascii r = (if 65 \<le> r \<and> r \<le> 90 then r + 32 else r)"

definition fold_rune :: "nat \<Rightarrow> nat" where
  "fold_rune r = (if r = 8490 then 107 else if r = 383 then 115 else lower_ascii r)"

definition lower_rune :: "nat \<Rightarrow> nat" where
  "lower_rune r = (if r = 8490 then 107 else if r = 304 then 105 else lower_ascii r)"

definition word_rune :: "nat \<Rightarrow> bool" where
  "word_rune r \<longleftrightarrow> (48 \<le> r \<and> r \<le> 57) \<or> (65 \<le> r \<and> r \<le> 90) \<or> (97 \<le> r \<and> r \<le> 122) \<or> r = 95"

text \<open>\<open>\b\<close> between two neighbours, each absent at an end of the text.\<close>

definition boundary :: "nat option \<Rightarrow> nat option \<Rightarrow> bool" where
  "boundary a b \<longleftrightarrow> (case a of None \<Rightarrow> False | Some r \<Rightarrow> word_rune r) \<noteq> (case b of None \<Rightarrow> False | Some r \<Rightarrow> word_rune r)"

definition neighbour :: "nat list \<Rightarrow> nat option" where
  "neighbour rs = (case rs of [] \<Rightarrow> None | r # _ \<Rightarrow> Some r)"

text \<open>One alternative at the head of the rest of the text, the runes before it given newest first.\<close>

definition word_here :: "nat list \<Rightarrow> nat list \<Rightarrow> string \<Rightarrow> bool" where
  "word_here prior rest w \<longleftrightarrow>
     (let p = pat w; hit = take (length p) rest; after = drop (length p) rest
      in map fold_rune hit = p \<and> boundary (neighbour prior) (neighbour rest)
         \<and> boundary (neighbour (rev hit @ prior)) (neighbour after))"

fun words_match :: "string list \<Rightarrow> nat list \<Rightarrow> nat list \<Rightarrow> bool" where
  "words_match ws prior [] \<longleftrightarrow> False"
| "words_match ws prior (r # rest) \<longleftrightarrow>
     list_ex (word_here prior (r # rest)) ws \<or> words_match ws (r # prior) rest"

definition match_string :: "string list \<Rightarrow> string \<Rightarrow> bool" where
  "match_string ws text = words_match ws [] (rune_values text)"

definition rateRE :: "string list" where
  "rateRE = [''rate limit'', ''too many requests'', ''usage limit'', ''quota'']"

definition authRE :: "string list" where
  "authRE = [''not logged in'', ''please run /login'', ''invalid api key'', ''unauthorized'', ''authentication'', ''auth error'']"

definition unavailableRE :: "string list" where
  "unavailableRE = [''overloaded'', ''service unavailable'', ''server error'', ''stream disconnected'', ''reconnecting'',
     ''connection refused'', ''connection reset'', ''connection closed'', ''time out'', ''timed out'', ''timeout'',
     ''enotfound'', ''econnrefused'', ''econnreset'', ''eai_again'', ''fetch failed'', ''network'']"

text \<open>\<open>strings.Contains(strings.ToLower(text), w)\<close> for an ASCII word.\<close>

fun contains_from :: "nat list \<Rightarrow> nat list \<Rightarrow> bool" where
  "contains_from p [] \<longleftrightarrow> p = []"
| "contains_from p (r # rest) \<longleftrightarrow> take (length p) (r # rest) = p \<or> contains_from p rest"

definition contains_lower :: "string \<Rightarrow> string \<Rightarrow> bool" where
  "contains_lower text w = contains_from (pat w) (map lower_rune (rune_values text))"

section \<open>Status codes\<close>

definition digit_value :: "nat \<Rightarrow> nat option" where
  "digit_value r = (if 48 \<le> r \<and> r \<le> 57 then Some (r - 48) else None)"

text \<open>The leftmost match of \<open>\b([45]\d\d)\b\<close>.\<close>

fun find_status :: "nat list \<Rightarrow> nat list \<Rightarrow> int" where
  "find_status prior (a # b # c # rest) =
     (case (digit_value a, digit_value b, digit_value c) of
        (Some x, Some y, Some z) \<Rightarrow>
          if (x = 4 \<or> x = 5) \<and> boundary (neighbour prior) (Some a) \<and> boundary (Some c) (neighbour rest)
          then int (100 * x + 10 * y + z)
          else find_status (a # prior) (b # c # rest)
      | _ \<Rightarrow> find_status (a # prior) (b # c # rest))"
| "find_status prior _ = 0"

definition normalizedStatus :: "string \<Rightarrow> int \<Rightarrow> int" where
  "normalizedStatus text explicit = (if explicit > 0 then explicit else find_status [] (rune_values text))"

section \<open>Details\<close>

fun digits_of :: "nat \<Rightarrow> string" where
  "digits_of n = (if n < 10 then [char_of (48 + n)] else digits_of (n div 10) @ [char_of (48 + n mod 10)])"

declare digits_of.simps [simp del]

definition format_int :: "int \<Rightarrow> string" where
  "format_int n = (if n < 0 then ''-'' @ digits_of (nat (- n)) else digits_of (nat n))"

definition statusDetail :: "string \<Rightarrow> int \<Rightarrow> string" where
  "statusDetail detail status = (if status = 0 then detail else detail @ '' ('' @ format_int status @ '')'')"

definition qualifiedStatusDetail :: "string \<Rightarrow> int \<Rightarrow> string \<Rightarrow> string" where
  "qualifiedStatusDetail detail status qualifier =
     (if status = 0 then detail @ '' ('' @ qualifier @ '')''
      else detail @ '' ('' @ format_int status @ '', '' @ qualifier @ '')'')"

definition providerName :: "string \<Rightarrow> string" where
  "providerName provider =
     (if contains_lower provider ''claude'' then ''Claude''
      else if contains_lower provider ''codex'' then ''Codex'' else ''Provider'')"

definition authDetail :: "string \<Rightarrow> string \<Rightarrow> int \<Rightarrow> string" where
  "authDetail name text status =
     (if contains_lower text ''not logged in'' \<or> contains_lower text ''please run /login'' then name @ '' is not logged in''
      else if contains_lower text ''invalid api key'' then name @ '' API key is invalid''
      else statusDetail (name @ '' authentication failed'') status)"

definition unavailableDetail :: "string \<Rightarrow> string \<Rightarrow> int \<Rightarrow> string" where
  "unavailableDetail name text status =
     (if contains_lower text ''overload'' then
        (if name = ''Claude'' then statusDetail ''Claude API overloaded'' status
         else qualifiedStatusDetail (name @ '' API unavailable'') status ''overloaded'')
      else if contains_lower text ''reconnecting'' then name @ '' connection interrupted (reconnecting)''
      else if contains_lower text ''stream disconnected'' then name @ '' stream disconnected''
      else if contains_lower text ''timed out'' \<or> contains_lower text ''timeout'' then name @ '' API request timed out''
      else if contains_lower text ''connection refused'' \<or> contains_lower text ''econnrefused''
        then name @ '' API connection failed (connection refused)''
      else if contains_lower text ''connection reset'' \<or> contains_lower text ''econnreset''
        then name @ '' API connection failed (connection reset)''
      else if contains_lower text ''connection closed'' then name @ '' API connection closed''
      else if contains_lower text ''enotfound'' \<or> contains_lower text ''eai_again''
        then name @ '' API host could not be resolved''
      else if contains_lower text ''network'' \<or> contains_lower text ''fetch failed'' then name @ '' network unavailable''
      else statusDetail (name @ '' API unavailable'') status)"

text \<open>\<open>strings.Fields\<close>, and the text cut to one line of at most 160 runes.\<close>

fun fields_of :: "(nat \<times> string) list \<Rightarrow> string \<Rightarrow> string list" where
  "fields_of [] w = (if w = [] then [] else [w])"
| "fields_of ((r, bs) # rs) w =
     (if is_space r then (if w = [] then fields_of rs [] else w # fields_of rs []) else fields_of rs (w @ bs))"

definition ellipsis :: string where "ellipsis = [CHR 0xE2, CHR 0x80, CHR 0xA6]"

definition concise :: "string \<Rightarrow> string" where
  "concise text =
     (let line = join_with CHR '' '' (fields_of (runes text) []); rs = runes (trim_space line)
      in if length rs > 160
         then unrunes (rev (dropWhile (is_space \<circ> fst) (rev (runes (valid_utf8 (unrunes (take 159 rs))))))) @ ellipsis
         else line)"

section \<open>Classification\<close>

record fault =
  ft_Kind :: string
  ft_Detail :: string
  ft_Status :: int
  ft_Evidence :: string

definition Detect :: "string \<Rightarrow> string \<Rightarrow> int \<Rightarrow> fault option" where
  "Detect provider text statusCode =
     (let status = normalizedStatus text statusCode; name = providerName provider; evidence = concise text in
      if status = 401 \<or> status = 403 \<or> match_string authRE text
      then Some \<lparr>ft_Kind = ''auth'', ft_Detail = authDetail name text status, ft_Status = status, ft_Evidence = evidence\<rparr>
      else if status = 429 \<or> match_string rateRE text
      then Some \<lparr>ft_Kind = ''rate-limited'', ft_Detail = statusDetail (name @ '' rate limit reached'') status,
                 ft_Status = status, ft_Evidence = evidence\<rparr>
      else if (500 \<le> status \<and> status \<le> 599) \<or> match_string unavailableRE text
      then Some \<lparr>ft_Kind = ''provider-unavailable'', ft_Detail = unavailableDetail name text status,
                 ft_Status = status, ft_Evidence = evidence\<rparr>
      else None)"

definition Classify :: "string \<Rightarrow> string \<Rightarrow> int \<Rightarrow> fault" where
  "Classify provider text statusCode =
     (case Detect provider text statusCode of Some f \<Rightarrow> f
      | None \<Rightarrow>
          (let detail = (if concise text = [] then ''provider turn failed'' else concise text)
           in \<lparr>ft_Kind = ''other'', ft_Detail = providerName provider @ '' turn failed: '' @ detail,
               ft_Status = normalizedStatus text statusCode, ft_Evidence = detail\<rparr>))"

end
