(* ===== verification/Structured_Record.thy ===== *)
theory Structured_Record
  imports Json Provider_Fault
begin

text \<open>
  One record of a structured provider stream, as \<open>json.Unmarshal\<close> gives it to Go in a
  \<open>map[string]any\<close>, and what \<open>runtime/internal/state/structured.go\<close> and the first half of
  \<open>observations_records.go\<close> read off it.  A record is the member list of its object: the last member of
  a name is the entry of the map, and the nil map has no member.  \<open>clock\<close> stands for
  \<open>time.Parse(time.RFC3339Nano, text)\<close>, as Unix milliseconds, \<open>None\<close> for its error.
\<close>

section \<open>Numbers\<close>

text \<open>
  A JSON number in an \<open>any\<close> is a \<open>float64\<close>: the decimal is rounded to 53 significant bits, half to even.
  \<open>JReal\<close> carries the text of a number that is not written as an integer.
\<close>

definition digits_value :: "string \<Rightarrow> nat" where
  "digits_value s = foldl (\<lambda>n c. 10 * n + (byte_of c - 48)) 0 s"

definition is_digit :: "char \<Rightarrow> bool" where
  "is_digit c \<longleftrightarrow> 48 \<le> byte_of c \<and> byte_of c \<le> 57"

text \<open>A decimal as its sign, numerator and denominator.\<close>

definition decimal :: "string \<Rightarrow> bool \<times> nat \<times> nat" where
  "decimal s =
     (let neg = has_prefix s ''-''; t = (if neg then drop 1 s else s);
          whole = takeWhile is_digit t; t1 = dropWhile is_digit t;
          frac = (if has_prefix t1 ''.'' then takeWhile is_digit (drop 1 t1) else []);
          t2 = (if has_prefix t1 ''.'' then dropWhile is_digit (drop 1 t1) else t1);
          ex = drop 1 t2; down = has_prefix ex ''-'';
          e = digits_value (filter is_digit ex);
          num = digits_value (whole @ frac); den = 10 ^ length frac
      in if down then (neg, num, den * 10 ^ e) else (neg, num * 10 ^ e, den))"

definition number :: "json \<Rightarrow> (bool \<times> nat \<times> nat) option" where
  "number v = (case v of JInt n \<Rightarrow> Some (n < 0, nat \<bar>n\<bar>, 1) | JReal s \<Rightarrow> Some (decimal s) | _ \<Rightarrow> None)"

fun bit_length :: "nat \<Rightarrow> nat" where
  "bit_length n = (if n = 0 then 0 else Suc (bit_length (n div 2)))"

declare bit_length.simps [simp del]

definition half_even :: "nat \<Rightarrow> nat \<Rightarrow> nat" where
  "half_even p q = (let d = p div q; r = p mod q in
     if 2 * r < q \<or> (2 * r = q \<and> even d) then d else d + 1)"

text \<open>The integral part of the \<open>float64\<close> nearest to \<open>p / q\<close>.\<close>

definition float_floor :: "nat \<Rightarrow> nat \<Rightarrow> nat" where
  "float_floor p q =
     (let w = p div q; l = bit_length w in
      if w = 0 then (if (q - p) * 2 ^ 54 \<le> q then 1 else 0)
      else if l \<le> 53 then half_even (p * 2 ^ (53 - l)) q div 2 ^ (53 - l)
      else half_even p (q * 2 ^ (l - 53)) * 2 ^ (l - 53))"

text \<open>\<open>int64(f)\<close> for a \<open>float64\<close>; out of range it is the least \<open>int64\<close>, as on amd64.\<close>

definition int64_of :: "json \<Rightarrow> int" where
  "int64_of v = (case number v of None \<Rightarrow> 0
     | Some (neg, p, q) \<Rightarrow>
         (let t = (if neg then - int (float_floor p q) else int (float_floor p q))
          in if in_i64 t then t else - (2 ^ 63)))"

text \<open>\<open>f > 0\<close>; what is at most half the least positive \<open>float64\<close> is zero.\<close>

definition positive :: "json \<Rightarrow> bool" where
  "positive v = (case number v of None \<Rightarrow> False | Some (neg, p, q) \<Rightarrow> \<not> neg \<and> p * 2 ^ 1075 > q)"

text \<open>A number beyond the largest \<open>float64\<close> fails the whole decoding, wherever it stands.\<close>

fun numbers_fit :: "json \<Rightarrow> bool" where
  "numbers_fit (JInt n) \<longleftrightarrow> nat \<bar>n\<bar> < 2 ^ 1024 - 2 ^ 970"
| "numbers_fit (JReal s) \<longleftrightarrow> (case decimal s of (neg, p, q) \<Rightarrow> p < (2 ^ 1024 - 2 ^ 970) * q)"
| "numbers_fit (JArr vs) \<longleftrightarrow> list_all numbers_fit vs"
| "numbers_fit (JObj ms) \<longleftrightarrow> list_all (\<lambda>m. numbers_fit (snd m)) ms"
| "numbers_fit _ \<longleftrightarrow> True"

text \<open>A field of type \<open>any\<close>: whatever the last member holds, as long as its numbers are \<open>float64\<close>s.\<close>

definition dec_any :: "json decoder" where
  "dec_any x v = (if numbers_fit v then Some v else None)"

section \<open>Members\<close>

text \<open>\<open>json.Unmarshal(raw, &value)\<close> into a fresh \<open>map[string]any\<close>.\<close>

definition record_of :: "json option \<Rightarrow> members option" where
  "record_of text = (case text of
       Some JNull \<Rightarrow> Some []
     | Some (JObj ms) \<Rightarrow> if numbers_fit (JObj ms) then Some ms else None
     | _ \<Rightarrow> None)"

definition entry :: "members \<Rightarrow> string \<Rightarrow> json option" where
  "entry ms k = map_of (rev ms) k"

text \<open>\<open>v, _ := value[k].(T)\<close> for a string, a bool, an object and a slice.\<close>

definition str_at :: "members \<Rightarrow> string \<Rightarrow> string" where
  "str_at ms k = (case entry ms k of Some (JStr s) \<Rightarrow> s | _ \<Rightarrow> [])"

definition bool_at :: "members \<Rightarrow> string \<Rightarrow> bool" where
  "bool_at ms k = (case entry ms k of Some (JBool b) \<Rightarrow> b | _ \<Rightarrow> False)"

definition obj_of :: "json option \<Rightarrow> members" where
  "obj_of v = (case v of Some (JObj ms) \<Rightarrow> ms | _ \<Rightarrow> [])"

definition arr_of :: "json option \<Rightarrow> json list" where
  "arr_of v = (case v of Some (JArr vs) \<Rightarrow> vs | _ \<Rightarrow> [])"

section \<open>What a record says\<close>

definition block_text :: "json \<Rightarrow> string" where
  "block_text v = str_at (obj_of (Some v)) ''text''"

definition structuredContentText :: "json option \<Rightarrow> string" where
  "structuredContentText content = (case content of
       Some (JStr s) \<Rightarrow> s
     | _ \<Rightarrow> concat (map block_text (arr_of content)))"

definition numericStatus :: "json option \<Rightarrow> int" where
  "numericStatus v = (case v of None \<Rightarrow> 0 | Some x \<Rightarrow> int64_of x)"

definition is_tool_result :: "json \<Rightarrow> bool" where
  "is_tool_result v \<longleftrightarrow> str_at (obj_of (Some v)) ''type'' = ''tool_result''"

definition is_text_block :: "json \<Rightarrow> bool" where
  "is_text_block v \<longleftrightarrow> str_at (obj_of (Some v)) ''type'' = ''text''"

text \<open>The text the block loop of \<open>realUserMessage\<close> ends with: the first that is not empty.\<close>

fun first_text :: "json list \<Rightarrow> string" where
  "first_text [] = []"
| "first_text (v # vs) = (if is_text_block v \<and> block_text v \<noteq> [] then block_text v else first_text vs)"

definition user_text :: "json option \<Rightarrow> string option" where
  "user_text content = (case content of
       Some (JStr s) \<Rightarrow> Some s
     | Some (JArr vs) \<Rightarrow> if vs = [] \<or> list_all is_tool_result vs then None else Some (first_text vs)
     | _ \<Rightarrow> None)"

definition harness_prefixes :: "string list" where
  "harness_prefixes = [''<'', ''Caveat:'', ''This session is being continued'',
     ''[Request interrupted'', ''[SYSTEM NOTIFICATION'']"

definition trim_left_blank :: "string \<Rightarrow> string" where
  "trim_left_blank s = dropWhile (\<lambda>c. byte_of c \<in> {9, 10, 13, 32}) s"

definition realUserMessage :: "members \<Rightarrow> bool" where
  "realUserMessage e =
     (if str_at e ''type'' \<noteq> ''user'' \<or> bool_at e ''isMeta'' then False
      else let m = obj_of (entry e ''message'') in
        if str_at m ''role'' \<noteq> ''user'' then False
        else case user_text (entry m ''content'') of
            None \<Rightarrow> False
          | Some s \<Rightarrow> \<not> list_ex (has_prefix (trim_left_blank s)) harness_prefixes)"

definition nativeClaudeProviderFault :: "members \<Rightarrow> fault option" where
  "nativeClaudeProviderFault e =
     (if \<not> (bool_at e ''isApiErrorMessage'' \<or> bool_at e ''is_api_error_message'')
         \<or> str_at e ''type'' \<noteq> ''assistant'' then None
      else let s = numericStatus (entry e ''apiErrorStatus'');
               st = (if s = 0 then numericStatus (entry e ''api_error_status'') else s)
        in Some (Classify ''claude'' (structuredContentText (entry (obj_of (entry e ''message'')) ''content'')) st))"

definition successfulProviderTurn :: "members \<Rightarrow> bool" where
  "successfulProviderTurn e =
     (if str_at e ''source'' = ''codex-app-server'' \<and> str_at e ''subtype'' = ''turn_completed''
      then key_match ''completed'' (str_at e ''status'')
      else if str_at e ''source'' \<noteq> ''claude-p-stream-json'' \<or> str_at e ''type'' \<noteq> ''result'' then False
      else \<not> bool_at e ''is_error'')"

section \<open>Who wrote a record, and when\<close>

datatype origin = FromRunnerStream | FromRunnerReplay | FromWatcher

definition sessionsAuthoredSubtypes :: "string list" where
  "sessionsAuthoredSubtypes = [''user_message'', ''user_steer'', ''input_rejected'',
     ''approval_requested'', ''approval_resolved'', ''provider_fault'', ''provider_retry'',
     ''continuation_started'', ''imported_message'', ''resume_history_unavailable'']"

definition metadataRecordTypes :: "string list" where
  "metadataRecordTypes = [''summary'', ''file-history-snapshot'', ''custom-title'',
     ''ai-title'', ''queue-operation'', ''last-prompt'']"

definition metadataRecordSubtypes :: "string list" where
  "metadataRecordSubtypes = [''token_count'', ''unknown'']"

definition sessionsAuthored :: "members \<Rightarrow> bool" where
  "sessionsAuthored e =
     (if str_at e ''origin'' = ''sessions'' then True
      else if str_at e ''source'' = ''sessions-next-turn'' \<or> str_at e ''source'' = ''sessions-continuation'' then True
      else (str_at e ''type'' = ''claude'' \<and> str_at e ''subtype'' = ''turn_started'')
        \<or> str_at e ''subtype'' \<in> set sessionsAuthoredSubtypes)"

definition metadataRecord :: "members \<Rightarrow> bool" where
  "metadataRecord e \<longleftrightarrow> str_at e ''type'' \<in> set metadataRecordTypes \<or> str_at e ''subtype'' \<in> set metadataRecordSubtypes"

definition parseRecordTime :: "(string \<Rightarrow> int option) \<Rightarrow> json option \<Rightarrow> int" where
  "parseRecordTime clock v = (case v of
       Some (JStr s) \<Rightarrow> (case clock s of Some t \<Rightarrow> if t > 0 then t else 0 | None \<Rightarrow> 0)
     | Some x \<Rightarrow> if positive x then int64_of x else 0
     | None \<Rightarrow> 0)"

text \<open>When Sessions observed a record and when it says it happened; 0 is unknown.\<close>

definition recordTimes :: "(string \<Rightarrow> int option) \<Rightarrow> members \<Rightarrow> origin \<Rightarrow> int \<Rightarrow> int \<times> int" where
  "recordTimes clock e origin now =
     (let stamp = parseRecordTime clock (entry e ''timestamp'');
          runner = (str_at e ''timestamp_source'' = ''observed'');
          o1 = parseRecordTime clock (entry e ''observed_at'');
          o2 = (if o1 = 0 \<and> runner then stamp else o1);
          observed = (if o2 = 0 \<and> origin = FromRunnerStream then now else o2)
      in (observed, if runner then 0 else stamp))"

definition recordTime :: "int \<Rightarrow> int \<Rightarrow> int" where
  "recordTime observed event = (if event > 0 then event else observed)"

definition assistantEndedTurn :: "members \<Rightarrow> bool" where
  "assistantEndedTurn e \<longleftrightarrow> str_at (obj_of (entry e ''message'')) ''stop_reason'' = ''end_turn''"

end
