(* ===== verification/Delivery_Store.thy ===== *)
theory Delivery_Store
  imports Prelude Go_Text Structured_Record
begin

text \<open>
  The receipts of composer submissions: \<open>runtime/internal/delivery/store.go\<close>.  A receipt is one JSON file named by its
  operation id.  A file is its record, or \<open>Unreadable\<close> when a write was cut short; a rename replaces it whole.  What
  the operating system answers is an argument, and so is \<open>hash\<close>, the lower-case hexadecimal SHA-256 of a text.
\<close>

section \<open>Records\<close>

datatype delivery_status = StatusPending | StatusAccepted | StatusNotDelivered | StatusUnknown | StatusTextOnly

record transcript_intent =
  ti_Cursor :: int
  ti_Anchor :: string
  ti_MessageHash :: string
  ti_RuntimeCreatedAt :: int

record delivery_record =
  dr_OperationID :: string
  dr_SessionID :: string
  dr_ContentHash :: string
  dr_ContentBytes :: nat
  dr_Mode :: string
  dr_Status :: delivery_status
  dr_Delivered :: bool
  dr_Retry :: bool
  dr_Reason :: string
  dr_Acceptance :: string
  dr_Transcript :: "transcript_intent option"
  dr_Attempts :: nat
  dr_CreatedAtMS :: int
  dr_UpdatedAtMS :: int

datatype stored = Stored delivery_record | Unreadable

type_synonym receipts = "string \<Rightarrow> stored option"

datatype delivery_error =
    InvalidOperationID | NoSession | OSFailed | NoReceipt | UnreadableReceipt | OtherMessage | NoLongerPending
  | BadBoundary | BadStatus | NoAcceptance

section \<open>Operation ids\<close>

definition lower_hex :: "char \<Rightarrow> bool" where
  "lower_hex c \<longleftrightarrow> is_digit c \<or> (97 \<le> byte_of c \<and> byte_of c \<le> 102)"

definition uuid_template :: string where
  "uuid_template = ''xxxxxxxx-xxxx-4xxx-yxxx-xxxxxxxxxxxx''"

definition uuid_char :: "char \<Rightarrow> char \<Rightarrow> bool" where
  "uuid_char p c \<longleftrightarrow> (if p = CHR ''x'' then lower_hex c else if p = CHR ''y'' then c \<in> set ''89ab'' else c = p)"

definition operationIDPattern :: "string \<Rightarrow> bool" where
  "operationIDPattern s \<longleftrightarrow> length s = length uuid_template \<and> list_all2 uuid_char uuid_template s"

definition ValidateOperationID :: "string \<Rightarrow> delivery_error option" where
  "ValidateOperationID s = (if operationIDPattern s then None else Some InvalidOperationID)"

definition hex_char :: "8 word \<Rightarrow> char" where
  "hex_char w = ''0123456789abcdef'' ! unat w"

definition hex_encode :: "8 word list \<Rightarrow> string" where
  "hex_encode bs = concat (map (\<lambda>b. [hex_char (drop_bit 4 b), hex_char (and b 15)]) bs)"

text \<open>\<open>random\<close> is what \<open>rand.Read\<close> filled in, or an error.\<close>

definition NewOperationID :: "8 word list option \<Rightarrow> string option" where
  "NewOperationID random = (case random of None \<Rightarrow> None | Some value \<Rightarrow>
     (let v1 = value[6 := or (and (value ! 6) 0x0f) 0x40];
          v2 = v1[8 := or (and (v1 ! 8) 0x3f) 0x80];
          e = hex_encode v2
      in Some (take 8 e @ ''-'' @ take 4 (drop 8 e) @ ''-'' @ take 4 (drop 12 e) @ ''-'' @ take 4 (drop 16 e) @ ''-'' @ drop 20 e)))"

section \<open>Files\<close>

definition read_receipt :: "receipts \<Rightarrow> string \<Rightarrow> delivery_error + delivery_record" where
  "read_receipt fs op = (case fs op of
       None \<Rightarrow> Inl NoReceipt
     | Some Unreadable \<Rightarrow> Inl UnreadableReceipt
     | Some (Stored r) \<Rightarrow> if operationIDPattern (dr_OperationID r) then Inr r else Inl UnreadableReceipt)"

definition writeAtomic :: "bool \<Rightarrow> string \<Rightarrow> delivery_record \<Rightarrow> receipts \<Rightarrow> bool \<times> receipts" where
  "writeAtomic works op r fs = (if works then (True, fs(op \<mapsto> Stored r)) else (False, fs))"

text \<open>
  The exclusive creation: it works; it fails; or the file was created and the write or the close failed, and then the
  removal worked (\<open>None\<close>) or left a part of the file or all of it.
\<close>

datatype creation = Created | CreateFails | LeftBehind "bool option"

section \<open>Operations\<close>

definition Begin ::
  "(string \<Rightarrow> string) \<Rightarrow> bool \<Rightarrow> creation \<Rightarrow> bool \<Rightarrow> int \<Rightarrow> string \<Rightarrow> string \<Rightarrow> string \<Rightarrow> string \<Rightarrow> receipts
   \<Rightarrow> (delivery_error + delivery_record \<times> bool) \<times> receipts" where
  "Begin hash mkdir creation works now op sid content mode fs =
     (if \<not> operationIDPattern op then (Inl InvalidOperationID, fs)
      else if sid = [] then (Inl NoSession, fs)
      else if \<not> mkdir then (Inl OSFailed, fs)
      else
        (let wanted = \<lparr>dr_OperationID = op, dr_SessionID = sid, dr_ContentHash = hash content,
               dr_ContentBytes = length content, dr_Mode = (if mode \<noteq> ''auto'' then mode else []),
               dr_Status = StatusPending, dr_Delivered = False, dr_Retry = False, dr_Reason = [], dr_Acceptance = [],
               dr_Transcript = None, dr_Attempts = 0, dr_CreatedAtMS = now, dr_UpdatedAtMS = now\<rparr>
         in if fs op = None then
              (case creation of
                 Created \<Rightarrow> (Inr (wanted, True), fs(op \<mapsto> Stored wanted))
               | CreateFails \<Rightarrow> (Inl OSFailed, fs)
               | LeftBehind left \<Rightarrow> (Inl OSFailed, fs(op := map_option (\<lambda>whole. if whole then Stored wanted else Unreadable) left)))
            else if creation = CreateFails then (Inl OSFailed, fs)
            else case read_receipt fs op of
                Inl e \<Rightarrow> (Inl e, fs)
              | Inr r \<Rightarrow>
                  if dr_SessionID r \<noteq> sid \<or> dr_ContentHash r \<noteq> dr_ContentHash wanted
                     \<or> dr_ContentBytes r \<noteq> dr_ContentBytes wanted \<or> dr_Mode r \<noteq> dr_Mode wanted
                  then (Inl OtherMessage, fs)
                  else if dr_Status r \<noteq> StatusNotDelivered \<or> \<not> dr_Retry r \<or> dr_Delivered r then (Inr (r, False), fs)
                  else
                    (let again = r\<lparr>dr_Status := StatusPending, dr_Retry := False, dr_Reason := [], dr_Acceptance := [],
                           dr_Attempts := dr_Attempts r + 1, dr_UpdatedAtMS := now\<rparr>
                     in case writeAtomic works op again fs of (done, fs1) \<Rightarrow>
                          if done then (Inr (again, True), fs1) else (Inl OSFailed, fs1))))"

definition Get :: "string \<Rightarrow> receipts \<Rightarrow> delivery_error + delivery_record" where
  "Get op fs = (if operationIDPattern op then read_receipt fs op else Inl InvalidOperationID)"

definition validTerminalStatus :: "delivery_status \<Rightarrow> bool" where
  "validTerminalStatus st \<longleftrightarrow> st \<noteq> StatusPending"

definition Complete ::
  "bool \<Rightarrow> int \<Rightarrow> string \<Rightarrow> delivery_status \<Rightarrow> bool \<Rightarrow> bool \<Rightarrow> string \<Rightarrow> string option \<Rightarrow> receipts
   \<Rightarrow> (delivery_error + delivery_record) \<times> receipts" where
  "Complete works now op st delivered retry reason acceptance fs =
     (if \<not> validTerminalStatus st then (Inl BadStatus, fs)
      else case read_receipt fs op of
          Inl e \<Rightarrow> (Inl e, fs)
        | Inr r \<Rightarrow>
            if dr_Status r \<noteq> StatusPending then (Inr r, fs)
            else
              (let r1 = r\<lparr>dr_Status := st, dr_Delivered := delivered, dr_Retry := retry, dr_Reason := reason,
                     dr_Acceptance := (case acceptance of Some a \<Rightarrow> a | None \<Rightarrow> dr_Acceptance r), dr_UpdatedAtMS := now\<rparr>
               in case writeAtomic works op r1 fs of (done, fs1) \<Rightarrow> if done then (Inr r1, fs1) else (Inl OSFailed, fs1)))"

definition ConfirmAccepted ::
  "bool \<Rightarrow> int \<Rightarrow> string \<Rightarrow> string \<Rightarrow> string \<Rightarrow> receipts \<Rightarrow> (delivery_error + delivery_record) \<times> receipts" where
  "ConfirmAccepted works now op acceptance reason fs =
     (if acceptance = [] then (Inl NoAcceptance, fs)
      else case read_receipt fs op of
          Inl e \<Rightarrow> (Inl e, fs)
        | Inr r \<Rightarrow>
            if dr_Status r \<noteq> StatusUnknown \<or> dr_Acceptance r \<noteq> [] then (Inr r, fs)
            else
              (let r1 = r\<lparr>dr_Status := StatusAccepted, dr_Delivered := True, dr_Retry := False, dr_Acceptance := acceptance,
                     dr_Reason := reason, dr_UpdatedAtMS := now\<rparr>
               in case writeAtomic works op r1 fs of (done, fs1) \<Rightarrow> if done then (Inr r1, fs1) else (Inl OSFailed, fs1)))"

definition RecordTranscriptIntent ::
  "bool \<Rightarrow> string \<Rightarrow> transcript_intent \<Rightarrow> receipts \<Rightarrow> delivery_error option \<times> receipts" where
  "RecordTranscriptIntent works op intent fs =
     (case read_receipt fs op of
        Inl e \<Rightarrow> (Some e, fs)
      | Inr r \<Rightarrow>
          if dr_Status r \<noteq> StatusPending then (Some NoLongerPending, fs)
          else if ti_Cursor intent < 0 \<or> length (ti_MessageHash intent) \<noteq> 64
                  \<or> (ti_Cursor intent > 0 \<and> length (ti_Anchor intent) \<noteq> 64)
          then (Some BadBoundary, fs)
          else (case writeAtomic works op (r\<lparr>dr_Transcript := Some intent\<rparr>) fs of (done, fs1) \<Rightarrow>
                  (if done then None else Some OSFailed, fs1)))"

section \<open>Operation ids are well formed\<close>

lemma hex_char_lower: "w < 16 \<Longrightarrow> lower_hex (hex_char w)"
proof -
  assume "w < 16"
  then have "unat w < 16" by (simp add: word_less_nat_alt)
  moreover have "\<forall>n < 16. lower_hex (''0123456789abcdef'' ! n)" by code_simp
  ultimately show ?thesis by (simp add: hex_char_def)
qed

lemma nibbles: "drop_bit 4 b < 16" "and b 15 < (16 :: 8 word)" for b :: "8 word"
proof -
  have "unat b < 256" using unsigned_less [of b, where ?'a = nat] by simp
  then show "drop_bit 4 b < 16"
    by (simp add: word_less_nat_alt drop_bit_eq_div unat_div_distrib less_mult_imp_div_less)
  show "and b 15 < 16" by (rule le_less_trans [OF word_and_le1]) simp
qed

lemma version_nibble: "drop_bit 4 (or (and b 0x0f) 0x40) = (4 :: 8 word)" for b :: "8 word"
  by (simp add: drop_bit_or drop_bit_and)

lemma variant_nibble: "hex_char (drop_bit 4 (or (and b 0x3f) 0x80)) \<in> set ''89ab''" for b :: "8 word"
proof -
  have "drop_bit 4 (or (and b 0x3f) 0x80) = or (and (drop_bit 4 b) 3) (8 :: 8 word)" by (simp add: drop_bit_or drop_bit_and)
  moreover have "and (drop_bit 4 b) 3 = (drop_bit 4 b) mod 4"
    using take_bit_eq_mask [of 2 "drop_bit 4 b"] by (simp add: take_bit_eq_mod mask_eq_exp_minus_1)
  moreover have "drop_bit 4 b mod 4 \<in> {0, 1, 2, 3}"
  proof -
    have "unat (drop_bit 4 b mod 4) < 4" by (simp add: unat_mod_distrib)
    then have "unat (drop_bit 4 b mod 4) \<in> {unat (0 :: 8 word), unat (1 :: 8 word), unat (2 :: 8 word), unat (3 :: 8 word)}" by auto
    then show ?thesis by (simp only: word_unat_eq_iff [symmetric] insert_iff empty_iff)
  qed
  ultimately show ?thesis by (elim insertE emptyE) (simp_all add: hex_char_def)
qed

lemma length_16: "length xs = 16 \<Longrightarrow> \<exists>a b c d e f g h i j k l m n p q. xs = [a, b, c, d, e, f, g, h, i, j, k, l, m, n, p, q]"
  by (auto simp: eval_nat_numeral length_Suc_conv)

text \<open>An operation id made from any sixteen random bytes is a version 4 UUID that the store accepts.\<close>

lemma NewOperationID_valid:
  assumes "length random = 16"
  shows "\<exists>op. NewOperationID (Some random) = Some op \<and> ValidateOperationID op = None"
proof -
  obtain a b c d e f g h i j k l m n p q where r: "random = [a, b, c, d, e, f, g, h, i, j, k, l, m, n, p, q]"
    using length_16 [OF assms] by blast
  note lower = hex_char_lower [OF nibbles(1)] hex_char_lower [OF nibbles(2)]
  have u: "random[6 := x] = [a, b, c, d, e, f, x, h, i, j, k, l, m, n, p, q]"
    "[a, b, c, d, e, f, x, h, i, j, k, l, m, n, p, q][8 := y] = [a, b, c, d, e, f, x, h, y, j, k, l, m, n, p, q]" for x y
    by (simp_all add: r eval_nat_numeral)
  have "hex_char (4 :: 8 word) = CHR ''4''" by (simp add: hex_char_def)
  moreover have "lower_hex (hex_char (and (or (and i 0x3f) 0x80) 15))" "lower_hex (hex_char (and (or (and g 0x0f) 0x40) 15))"
    by (simp_all only: lower)
  ultimately show ?thesis
    using variant_nibble [of i]
    by (simp add: NewOperationID_def u r hex_encode_def ValidateOperationID_def operationIDPattern_def uuid_template_def
        uuid_char_def lower version_nibble Let_def del: set_simps)
qed

lemma NewOperationID_valid_witness: "\<exists>op. NewOperationID (Some (replicate 16 0)) = Some op \<and> ValidateOperationID op = None"
  by (rule NewOperationID_valid) simp

end
