(* ===== verification/Observations.thy ===== *)
theory Observations
  imports Structured_Record
begin

text \<open>
  \<open>runtime/internal/state/observations.go\<close>, \<open>observations_records.go\<close> and the projections of
  \<open>observations_project.go\<close>: the incremental facts Sessions keeps about one session, updated
  once by every record.  Times are Unix milliseconds, 0 for unknown.  The Go map of tools is an
  association list whose keys are distinct.
\<close>

section \<open>Facts of a runtime\<close>

definition RuntimeOf :: "string \<Rightarrow> string \<Rightarrow> string" where
  "RuntimeOf kind tool =
     (if kind = ''claude-structured'' then ''claude-structured''
      else if kind = ''codex-app-server'' then ''codex-app-server''
      else if kind = ''lane'' \<or> has_prefix tool ''lane'' then ''lane''
      else if tool = ''claude-code'' then ''claude-pty''
      else if tool = ''codex'' then ''codex-pty''
      else ''terminal'')"

record capabilities =
  cb_Runtime :: string
  cb_TurnBoundaries :: string
  cb_ToolRecords :: string
  cb_TerminalOutput :: bool
  cb_Approvals :: string
  cb_Hooks :: string

definition CapabilitiesOf :: "string \<Rightarrow> capabilities" where
  "CapabilitiesOf runtime =
     (let c = \<lparr>cb_Runtime = runtime, cb_TurnBoundaries = ''none'', cb_ToolRecords = ''none'',
                cb_TerminalOutput = True, cb_Approvals = ''none'', cb_Hooks = ''none''\<rparr>
      in if runtime = ''claude-structured'' \<or> runtime = ''codex-app-server''
         then c\<lparr>cb_TurnBoundaries := ''provider-stream'', cb_ToolRecords := ''provider-stream'',
                cb_TerminalOutput := False, cb_Approvals := ''runner-brokered''\<rparr>
         else if runtime = ''claude-pty''
         then c\<lparr>cb_TurnBoundaries := ''transcript-file'', cb_ToolRecords := ''transcript-file''\<rparr>
         else if runtime = ''codex-pty''
         then c\<lparr>cb_TurnBoundaries := ''rollout-file'', cb_ToolRecords := ''rollout-file''\<rparr>
         else c)"

definition optionalMillis :: "int \<Rightarrow> int option" where
  "optionalMillis v = (if v \<le> 0 then None else Some v)"

definition optionalString :: "string \<Rightarrow> string option" where
  "optionalString s = (if s = [] then None else Some s)"

section \<open>Turns\<close>

record turn_tracker =
  tn_Observed :: bool
  tn_Open :: bool
  tn_StartedAt :: int
  tn_StartedBy :: string
  tn_DispatchedLive :: bool
  tn_ConfirmedAt :: int
  tn_EndedAt :: int
  tn_EndedBy :: string

definition no_turn :: turn_tracker where
  "no_turn = \<lparr>tn_Observed = False, tn_Open = False, tn_StartedAt = 0, tn_StartedBy = [],
     tn_DispatchedLive = False, tn_ConfirmedAt = 0, tn_EndedAt = 0, tn_EndedBy = []\<rparr>"

definition turn_confirm :: "int \<Rightarrow> turn_tracker \<Rightarrow> turn_tracker" where
  "turn_confirm at tn =
     (if tn_Observed tn \<and> tn_Open tn \<and> tn_ConfirmedAt tn = 0 then tn\<lparr>tn_ConfirmedAt := at\<rparr> else tn)"

definition turn_start :: "int \<Rightarrow> string \<Rightarrow> turn_tracker \<Rightarrow> turn_tracker" where
  "turn_start at by_whom tn =
     (if tn_Observed tn \<and> tn_Open tn \<and> by_whom = ''provider''
      then (if tn_ConfirmedAt tn = 0 then tn\<lparr>tn_ConfirmedAt := at\<rparr> else tn)
      else no_turn\<lparr>tn_Observed := True, tn_Open := True, tn_StartedAt := at, tn_StartedBy := by_whom,
        tn_ConfirmedAt := (if by_whom = ''provider'' then at else 0)\<rparr>)"

definition turn_end :: "int \<Rightarrow> string \<Rightarrow> turn_tracker \<Rightarrow> turn_tracker" where
  "turn_end at by_whom tn = tn\<lparr>tn_Observed := True, tn_Open := False, tn_EndedAt := at, tn_EndedBy := by_whom\<rparr>"

section \<open>The tracker\<close>

definition maxObservedOpenTools :: nat where "maxObservedOpenTools = 32"
definition maxTrackedTools :: nat where "maxTrackedTools = 1024"

record observed_tool =
  ot_ID :: string
  ot_Name :: "string option"
  ot_StartedAt :: "int option"

record observer_health =
  oh_Name :: string
  oh_State :: string
  oh_Detail :: string
  oh_Since :: int

record tracker =
  tr_ProviderObservedAt :: int
  tr_ProviderEventAt :: int
  tr_TerminalOutputAt :: int
  tr_TranscriptEventAt :: int
  tr_Turn :: turn_tracker
  tr_Tools :: "(string \<times> observed_tool) list"
  tr_ToolOrder :: "string list"
  tr_LastToolStartedAt :: int
  tr_LastToolEndedAt :: int
  tr_LastToolEndStatus :: string
  tr_HistoryIncomplete :: bool
  tr_FirstRecordAt :: int
  tr_AttachedAt :: int
  tr_AdoptedAt :: int
  tr_ToolsDropped :: bool
  tr_FromStart :: bool
  tr_WorkingSource :: string
  tr_Observers :: "(string \<times> observer_health) list"

definition no_tracker :: tracker where
  "no_tracker = \<lparr>tr_ProviderObservedAt = 0, tr_ProviderEventAt = 0, tr_TerminalOutputAt = 0,
     tr_TranscriptEventAt = 0, tr_Turn = no_turn, tr_Tools = [], tr_ToolOrder = [],
     tr_LastToolStartedAt = 0, tr_LastToolEndedAt = 0, tr_LastToolEndStatus = [],
     tr_HistoryIncomplete = False, tr_FirstRecordAt = 0, tr_AttachedAt = 0, tr_AdoptedAt = 0,
     tr_ToolsDropped = False, tr_FromStart = False, tr_WorkingSource = [], tr_Observers = []\<rparr>"

definition observeTerminalOutput :: "int \<Rightarrow> tracker \<Rightarrow> tracker" where
  "observeTerminalOutput at t = (if at > tr_TerminalOutputAt t then t\<lparr>tr_TerminalOutputAt := at\<rparr> else t)"

definition setObserver :: "string \<Rightarrow> string \<Rightarrow> string \<Rightarrow> int \<Rightarrow> tracker \<Rightarrow> tracker" where
  "setObserver name st detail at t =
     (if (case map_of (tr_Observers t) name of None \<Rightarrow> False
          | Some old \<Rightarrow> oh_State old = st \<and> oh_Detail old = detail) then t
      else t\<lparr>tr_Observers := AList.update name
        \<lparr>oh_Name = name, oh_State = st, oh_Detail = detail, oh_Since = at\<rparr> (tr_Observers t)\<rparr>)"

definition observerList :: "tracker \<Rightarrow> observer_health list" where
  "observerList t = sort_key oh_Name (map snd (tr_Observers t))"

section \<open>Tools\<close>

definition startTool :: "string \<Rightarrow> string \<Rightarrow> int \<Rightarrow> tracker \<Rightarrow> tracker" where
  "startTool i name at t =
     (if i = [] then t
      else let t1 = t\<lparr>tr_LastToolStartedAt := max (tr_LastToolStartedAt t) at\<rparr>
        in if map_of (tr_Tools t) i \<noteq> None then t1
        else if maxTrackedTools \<le> length (tr_Tools t) then t1\<lparr>tr_ToolsDropped := True\<rparr>
        else t1\<lparr>tr_Tools := AList.update i \<lparr>ot_ID = i, ot_Name = optionalString name,
                   ot_StartedAt = optionalMillis at\<rparr> (tr_Tools t),
                tr_ToolOrder := tr_ToolOrder t @ [i]\<rparr>)"

definition codexToolEndStatus :: "string \<Rightarrow> string" where
  "codexToolEndStatus st =
     (if st = ''completed'' then ''result'' else if st = ''failed'' then ''error''
      else if st \<in> set [''declined'', ''cancelled'', ''canceled'', ''interrupted''] then ''cancelled''
      else ''unknown'')"

definition endTool :: "string \<Rightarrow> int \<Rightarrow> string \<Rightarrow> tracker \<Rightarrow> tracker" where
  "endTool i at st t =
     (if i = [] then t
      else let t1 = t\<lparr>tr_LastToolEndedAt := max (tr_LastToolEndedAt t) at, tr_LastToolEndStatus := st\<rparr>
        in if map_of (tr_Tools t) i = None then t1
        else t1\<lparr>tr_Tools := AList.delete i (tr_Tools t),
                tr_ToolOrder := filter (\<lambda>c. c \<noteq> i) (tr_ToolOrder t)\<rparr>)"

definition codexNonToolItems :: "string list" where
  "codexNonToolItems = [''agentMessage'', ''reasoning'', ''userMessage'']"

definition observe_part :: "int \<Rightarrow> tracker \<Rightarrow> json \<Rightarrow> tracker" where
  "observe_part at t v =
     (let p = obj_of (Some v); k = str_at p ''type'' in
      if k = ''tool_use'' then startTool (str_at p ''id'') (str_at p ''name'') at t
      else if k = ''tool_result''
      then endTool (str_at p ''tool_use_id'') at (if bool_at p ''is_error'' then ''error'' else ''result'') t
      else t)"

definition observeTools :: "members \<Rightarrow> int \<Rightarrow> tracker \<Rightarrow> tracker" where
  "observeTools e at t =
     (let sub = str_at e ''subtype'' in
      if sub = ''item_started'' \<or> sub = ''item_completed''
      then (let item = obj_of (entry e ''item''); i = str_at item ''id''; k = str_at item ''type'' in
            if i = [] \<or> k \<in> set codexNonToolItems then t
            else if sub = ''item_started'' then startTool i k at t
            else endTool i at (codexToolEndStatus (str_at item ''status'')) t)
      else foldl (observe_part at) t (arr_of (entry (obj_of (entry e ''message'')) ''content'')))"

section \<open>Records\<close>

definition observeSessionsRecord :: "members \<Rightarrow> int \<Rightarrow> origin \<Rightarrow> tracker \<Rightarrow> tracker" where
  "observeSessionsRecord e at origin t =
     (let k = str_at e ''type''; sub = str_at e ''subtype'' in
      if k = ''claude'' \<and> sub = ''turn_started''
      then t\<lparr>tr_Turn := (turn_start at ''sessions-dispatch'' (tr_Turn t))\<lparr>tn_DispatchedLive := (origin = FromRunnerStream)\<rparr>\<rparr>
      else if k = ''claude'' \<and> sub = ''turn_interrupted''
      then t\<lparr>tr_Turn := turn_end at ''runner-interrupt'' (tr_Turn t)\<rparr>
      else if k = ''result'' then t\<lparr>tr_Turn := turn_end at ''runner-failure'' (tr_Turn t)\<rparr>
      else t)"

definition observeProviderTurn :: "members \<Rightarrow> int \<Rightarrow> origin \<Rightarrow> tracker \<Rightarrow> tracker" where
  "observeProviderTurn e at origin t =
     (let k = str_at e ''type''; sub = str_at e ''subtype''; src = str_at e ''source''; tn = tr_Turn t in
      if k = ''system'' \<and> sub = ''init''
      then (if origin = FromRunnerStream \<and> tn_DispatchedLive tn then t\<lparr>tr_Turn := turn_confirm at tn\<rparr> else t)
      else if src = ''codex-app-server'' \<and> sub = ''turn_started'' then t\<lparr>tr_Turn := turn_start at ''provider'' tn\<rparr>
      else if src = ''codex-app-server'' \<and> sub = ''turn_completed''
      then t\<lparr>tr_Turn := turn_end at ''provider-turn-complete'' tn\<rparr>
      else if k = ''result'' then t\<lparr>tr_Turn := turn_end at ''provider-result'' tn\<rparr>
      else if origin = FromWatcher \<and> realUserMessage e then t\<lparr>tr_Turn := turn_start at ''provider'' tn\<rparr>
      else if origin = FromWatcher \<and> k = ''assistant'' \<and> assistantEndedTurn e
      then t\<lparr>tr_Turn := turn_end at ''transcript-end-turn'' tn\<rparr>
      else t)"

text \<open>The first two steps of \<open>observeRecord\<close>, and what a provider's own record adds.\<close>

definition note_first :: "int \<Rightarrow> tracker \<Rightarrow> tracker" where
  "note_first at t = (if at > 0 \<and> (tr_FirstRecordAt t = 0 \<or> at < tr_FirstRecordAt t)
     then t\<lparr>tr_FirstRecordAt := at\<rparr> else t)"

definition note_provider :: "int \<Rightarrow> int \<Rightarrow> origin \<Rightarrow> tracker \<Rightarrow> tracker" where
  "note_provider observed event origin t =
     t\<lparr>tr_ProviderObservedAt := (if origin \<noteq> FromWatcher then max (tr_ProviderObservedAt t) observed
                                 else tr_ProviderObservedAt t),
       tr_ProviderEventAt := max (tr_ProviderEventAt t) event,
       tr_TranscriptEventAt := (if origin = FromWatcher then max (tr_TranscriptEventAt t) event
                                else tr_TranscriptEventAt t)\<rparr>"

definition observeRecord :: "(string \<Rightarrow> int option) \<Rightarrow> members \<Rightarrow> origin \<Rightarrow> int \<Rightarrow> tracker \<Rightarrow> tracker" where
  "observeRecord clock e origin now t =
     (let (observed, event) = recordTimes clock e origin now;
          at = recordTime observed event;
          t1 = note_first at t
      in if sessionsAuthored e then observeSessionsRecord e at origin t1
         else if metadataRecord e then t1
         else observeTools e at (observeProviderTurn e at origin (note_provider observed event origin t1)))"

definition observeRollout :: "bool \<Rightarrow> int \<Rightarrow> tracker \<Rightarrow> tracker" where
  "observeRollout working at t =
     (if working then t\<lparr>tr_Turn := turn_start at ''provider'' (tr_Turn t)\<rparr>
      else t\<lparr>tr_Turn := turn_end at ''rollout-file'' (tr_Turn t)\<rparr>)"

section \<open>Projections\<close>

record observed_turn =
  pt_Open :: "bool option"
  pt_StartedAt :: "int option"
  pt_StartedBy :: "string option"
  pt_ConfirmedAt :: "int option"
  pt_EndedAt :: "int option"
  pt_EndedBy :: "string option"

definition turn_project :: "turn_tracker \<Rightarrow> observed_turn" where
  "turn_project tn =
     (if \<not> tn_Observed tn
      then \<lparr>pt_Open = None, pt_StartedAt = None, pt_StartedBy = None, pt_ConfirmedAt = None,
             pt_EndedAt = None, pt_EndedBy = None\<rparr>
      else \<lparr>pt_Open = Some (tn_Open tn), pt_StartedAt = optionalMillis (tn_StartedAt tn),
             pt_StartedBy = optionalString (tn_StartedBy tn), pt_ConfirmedAt = optionalMillis (tn_ConfirmedAt tn),
             pt_EndedAt = optionalMillis (tn_EndedAt tn), pt_EndedBy = optionalString (tn_EndedBy tn)\<rparr>)"

record observed_tools =
  os_Open :: "observed_tool list"
  os_OpenCount :: nat
  os_LastStartedAt :: "int option"
  os_LastEndedAt :: "int option"
  os_LastEndStatus :: "string option"
  os_ObservedSince :: "int option"
  os_HistoryComplete :: bool
  os_OpenCountExact :: bool

definition observedSince :: "tracker \<Rightarrow> int" where
  "observedSince t =
     (if tr_FirstRecordAt t > 0 \<and> tr_AttachedAt t > 0 then min (tr_FirstRecordAt t) (tr_AttachedAt t)
      else if tr_FirstRecordAt t > 0 then tr_FirstRecordAt t
      else tr_AttachedAt t)"

definition toolsProjection :: "tracker \<Rightarrow> observed_tools" where
  "toolsProjection t =
     (let complete = tr_FromStart t \<and> \<not> tr_HistoryIncomplete t in
      \<lparr>os_Open = map (\<lambda>i. the (map_of (tr_Tools t) i)) (take maxObservedOpenTools (tr_ToolOrder t)),
       os_OpenCount = length (tr_Tools t),
       os_LastStartedAt = optionalMillis (tr_LastToolStartedAt t),
       os_LastEndedAt = optionalMillis (tr_LastToolEndedAt t),
       os_LastEndStatus = optionalString (tr_LastToolEndStatus t),
       os_ObservedSince = optionalMillis (observedSince t),
       os_HistoryComplete = complete,
       os_OpenCountExact = (complete \<and> \<not> tr_ToolsDropped t)\<rparr>)"


section \<open>What the open tools mean\<close>

text \<open>
  The reference: every provider record carries a list of starts and ends, and a call is running
  when it was started and has not been ended since.
\<close>

datatype tool_fact = Started string | Ended string

definition part_facts :: "json \<Rightarrow> tool_fact list" where
  "part_facts v =
     (let p = obj_of (Some v); k = str_at p ''type'' in
      if k = ''tool_use'' \<and> str_at p ''id'' \<noteq> [] then [Started (str_at p ''id'')]
      else if k = ''tool_result'' \<and> str_at p ''tool_use_id'' \<noteq> [] then [Ended (str_at p ''tool_use_id'')]
      else [])"

definition item_facts :: "members \<Rightarrow> tool_fact list" where
  "item_facts e =
     (let item = obj_of (entry e ''item''); i = str_at item ''id'' in
      if i = [] \<or> str_at item ''type'' \<in> set codexNonToolItems then []
      else if str_at e ''subtype'' = ''item_started'' then [Started i] else [Ended i])"

definition tool_facts :: "members \<Rightarrow> tool_fact list" where
  "tool_facts e =
     (if sessionsAuthored e \<or> metadataRecord e then []
      else if str_at e ''subtype'' \<in> set [''item_started'', ''item_completed''] then item_facts e
      else concat (map part_facts (arr_of (entry (obj_of (entry e ''message'')) ''content''))))"

definition running :: "tool_fact list \<Rightarrow> string \<Rightarrow> bool" where
  "running fs i \<longleftrightarrow> (\<exists>pre post. fs = pre @ Started i # post \<and> Ended i \<notin> set post)"

lemma running_Nil [simp]: "\<not> running [] i"
  by (simp add: running_def)

lemma running_started [simp]: "running (fs @ [Started j]) i \<longleftrightarrow> i = j \<or> running fs i"
proof
  assume "running (fs @ [Started j]) i"
  then obtain pre post where p: "fs @ [Started j] = pre @ Started i # post" "Ended i \<notin> set post"
    by (auto simp: running_def)
  show "i = j \<or> running fs i"
  proof (cases post rule: rev_cases)
    case Nil
    then show ?thesis using p by simp
  next
    case (snoc post' x)
    then have "fs = pre @ Started i # post'" using p(1) by simp
    then show ?thesis using p(2) snoc by (auto simp: running_def)
  qed
next
  assume "i = j \<or> running fs i"
  then show "running (fs @ [Started j]) i"
  proof
    assume "i = j"
    then have "fs @ [Started j] = fs @ Started i # []" by simp
    then show ?thesis unfolding running_def by (metis empty_iff empty_set)
  next
    assume "running fs i"
    then obtain pre post where "fs = pre @ Started i # post" "Ended i \<notin> set post" by (auto simp: running_def)
    then have "fs @ [Started j] = pre @ Started i # (post @ [Started j])" "Ended i \<notin> set (post @ [Started j])" by auto
    then show ?thesis unfolding running_def by blast
  qed
qed

lemma running_ended [simp]: "running (fs @ [Ended j]) i \<longleftrightarrow> i \<noteq> j \<and> running fs i"
proof
  assume "running (fs @ [Ended j]) i"
  then obtain pre post where p: "fs @ [Ended j] = pre @ Started i # post" "Ended i \<notin> set post"
    by (auto simp: running_def)
  show "i \<noteq> j \<and> running fs i"
  proof (cases post rule: rev_cases)
    case Nil
    then show ?thesis using p by simp
  next
    case (snoc post' x)
    then have "fs = pre @ Started i # post'" "x = Ended j" using p(1) by simp_all
    then show ?thesis using p(2) snoc by (auto simp: running_def)
  qed
next
  assume "i \<noteq> j \<and> running fs i"
  then obtain pre post where "fs = pre @ Started i # post" "Ended i \<notin> set post" "i \<noteq> j" by (auto simp: running_def)
  then have "fs @ [Ended j] = pre @ Started i # (post @ [Ended j])" "Ended i \<notin> set (post @ [Ended j])" by auto
  then show "running (fs @ [Ended j]) i" unfolding running_def by blast
qed

text \<open>The tracker after some facts.\<close>

definition tracks :: "tool_fact list \<Rightarrow> tracker \<Rightarrow> bool" where
  "tracks fs t \<longleftrightarrow> distinct (tr_ToolOrder t) \<and> map fst (tr_Tools t) = tr_ToolOrder t
     \<and> length (tr_Tools t) \<le> maxTrackedTools \<and> (\<forall>p \<in> set (tr_Tools t). ot_ID (snd p) = fst p)
     \<and> (\<forall>i \<in> set (tr_ToolOrder t). running fs i)
     \<and> (\<not> tr_ToolsDropped t \<longrightarrow> (\<forall>i. running fs i \<longrightarrow> i \<in> set (tr_ToolOrder t)))"

text \<open>The part of a tracker that tools are about.\<close>

definition tool_part :: "tracker \<Rightarrow> (string \<times> observed_tool) list \<times> string list \<times> bool" where
  "tool_part t = (tr_Tools t, tr_ToolOrder t, tr_ToolsDropped t)"

lemma tracks_cong: "tool_part t' = tool_part t \<Longrightarrow> tracks fs t' = tracks fs t"
  by (simp add: tracks_def tool_part_def)

lemma update_absent: "map_of al k = None \<Longrightarrow> AList.update k v al = al @ [(k, v)]"
  by (induction al) (auto split: if_splits)

lemma map_fst_delete: "map fst (AList.delete k al) = filter (\<lambda>x. x \<noteq> k) (map fst al)"
  by (induction al) (auto simp: AList.delete_eq)

lemma start_tracks:
  assumes "tracks fs t" and "i \<noteq> []"
  shows "tracks (fs @ [Started i]) (startTool i name at t)"
proof (cases "map_of (tr_Tools t) i = None")
  case True
  then have new: "i \<notin> set (tr_ToolOrder t)"
    using assms(1) by (metis map_of_eq_None_iff tracks_def set_map)
  show ?thesis using assms new True
    by (auto simp: tracks_def startTool_def Let_def update_absent simp del: map_of_eq_None_iff)
next
  case False
  then have "i \<in> set (tr_ToolOrder t)"
    using assms(1) by (metis map_of_eq_None_iff tracks_def set_map)
  then show ?thesis using assms False by (auto simp: tracks_def startTool_def Let_def)
qed

lemma end_tracks:
  assumes "tracks fs t" and "i \<noteq> []"
  shows "tracks (fs @ [Ended i]) (endTool i at st t)"
proof (cases "map_of (tr_Tools t) i = None")
  case True
  then have "i \<notin> set (tr_ToolOrder t)"
    using assms(1) by (metis map_of_eq_None_iff tracks_def set_map)
  then show ?thesis using assms True by (auto simp: tracks_def endTool_def Let_def)
next
  case False
  have "length (AList.delete i (tr_Tools t)) \<le> maxTrackedTools"
    using assms(1) AList.length_delete_le [of i "tr_Tools t"] by (simp add: tracks_def)
  moreover have "\<forall>p \<in> set (AList.delete i (tr_Tools t)). ot_ID (snd p) = fst p"
    using assms(1) AList.delete_notin_dom by (auto simp: tracks_def AList.delete_eq)
  moreover have "map fst (AList.delete i (tr_Tools t)) = filter (\<lambda>c. c \<noteq> i) (tr_ToolOrder t)"
    using assms(1) by (simp add: map_fst_delete tracks_def)
  moreover have "endTool i at st t = t\<lparr>tr_LastToolEndedAt := max (tr_LastToolEndedAt t) at, tr_LastToolEndStatus := st,
      tr_Tools := AList.delete i (tr_Tools t), tr_ToolOrder := filter (\<lambda>c. c \<noteq> i) (tr_ToolOrder t)\<rparr>"
    using False assms(2) by (auto simp: endTool_def Let_def)
  ultimately show ?thesis using assms(1) by (simp add: tracks_def)
qed

lemma part_tracks: "tracks fs t \<Longrightarrow> tracks (fs @ part_facts v) (observe_part at t v)"
  using start_tracks end_tracks
  by (auto simp: observe_part_def part_facts_def Let_def startTool_def [of "[]"] endTool_def [of "[]"])

lemma parts_track:
  "tracks fs t \<Longrightarrow> tracks (fs @ concat (map part_facts vs)) (foldl (observe_part at) t vs)"
proof (induction vs arbitrary: fs t)
  case (Cons v vs)
  show ?case using Cons.IH [OF part_tracks [OF Cons.prems]] by simp
qed simp

lemma observeTools_tracks:
  assumes "tracks fs t" and "\<not> sessionsAuthored e" and "\<not> metadataRecord e"
  shows "tracks (fs @ tool_facts e) (observeTools e at t)"
proof (cases "str_at e ''subtype'' \<in> set [''item_started'', ''item_completed'']")
  case True
  then show ?thesis using assms start_tracks [OF assms(1)] end_tracks [OF assms(1)]
    by (auto simp: tool_facts_def item_facts_def observeTools_def Let_def)
next
  case False
  then show ?thesis using assms parts_track [OF assms(1)]
    by (simp add: tool_facts_def observeTools_def Let_def)
qed

lemma tool_part_frames:
  "tool_part (note_first at t) = tool_part t"
  "tool_part (note_provider observed event origin t) = tool_part t"
  "tool_part (observeSessionsRecord e at origin t) = tool_part t"
  "tool_part (observeProviderTurn e at origin t) = tool_part t"
  by (simp_all add: tool_part_def note_first_def note_provider_def observeSessionsRecord_def
      observeProviderTurn_def Let_def)

lemma observeRecord_tracks:
  assumes "tracks fs t"
  shows "tracks (fs @ tool_facts e) (observeRecord clock e origin now t)"
proof (cases "sessionsAuthored e \<or> metadataRecord e")
  case True
  obtain observed event where r: "recordTimes clock e origin now = (observed, event)" by fastforce
  have "tool_part (observeRecord clock e origin now t) = tool_part t"
    using True by (cases "sessionsAuthored e") (simp_all add: observeRecord_def r Let_def tool_part_frames)
  then have "tracks fs (observeRecord clock e origin now t)" using assms tracks_cong by blast
  moreover have "tool_facts e = []" using True by (simp add: tool_facts_def)
  ultimately show ?thesis by simp
next
  case False
  obtain observed event where r: "recordTimes clock e origin now = (observed, event)" by fastforce
  let ?at = "recordTime observed event"
  have "tracks fs (observeProviderTurn e ?at origin (note_provider observed event origin (note_first ?at t)))"
    using assms by (subst tracks_cong [where t = t]) (simp_all add: tool_part_frames)
  then show ?thesis using False observeTools_tracks by (simp add: observeRecord_def r Let_def)
qed

type_synonym observation = "members \<times> origin \<times> int"

definition observe_all :: "(string \<Rightarrow> int option) \<Rightarrow> observation list \<Rightarrow> tracker \<Rightarrow> tracker" where
  "observe_all clock rs t = foldl (\<lambda>t (e, origin, now). observeRecord clock e origin now t) t rs"

definition all_facts :: "observation list \<Rightarrow> tool_fact list" where
  "all_facts rs = concat (map (\<lambda>(e, _). tool_facts e) rs)"

lemma observe_all_tracks: "tracks fs t \<Longrightarrow> tracks (fs @ all_facts rs) (observe_all clock rs t)"
proof (induction rs arbitrary: fs t)
  case (Cons r rs)
  obtain e origin now where r: "r = (e, origin, now)" by (cases r)
  show ?case using Cons.IH [OF observeRecord_tracks [OF Cons.prems]]
    by (simp add: observe_all_def all_facts_def r)
qed (simp add: observe_all_def all_facts_def)

definition fresh_tracker :: "bool \<Rightarrow> int \<Rightarrow> tracker" where
  "fresh_tracker launched at = no_tracker\<lparr>tr_FromStart := launched, tr_AttachedAt := at\<rparr>"

lemma fresh_tracks: "tracks [] (fresh_tracker launched at)"
  by (simp add: tracks_def fresh_tracker_def no_tracker_def)

lemma open_is_tool:
  assumes "tracks fs t"
  shows "map ot_ID (os_Open (toolsProjection t)) = take maxObservedOpenTools (tr_ToolOrder t)"
proof -
  have "ot_ID (the (map_of (tr_Tools t) i)) = i" if "i \<in> set (tr_ToolOrder t)" for i
  proof -
    have "i \<in> fst ` set (tr_Tools t)" using assms that by (metis tracks_def set_map)
    then obtain c where "map_of (tr_Tools t) i = Some c" by (metis map_of_eq_None_iff not_None_eq)
    then show ?thesis using assms map_of_SomeD by (fastforce simp: tracks_def)
  qed
  then have "map (\<lambda>i. ot_ID (the (map_of (tr_Tools t) i))) xs = xs" if "set xs \<subseteq> set (tr_ToolOrder t)" for xs
    using that by (induction xs) auto
  then show ?thesis by (simp add: toolsProjection_def Let_def set_take_subset comp_def)
qed

section \<open>What a record does to the turn and the times\<close>

definition time_part :: "tracker \<Rightarrow> int \<times> int \<times> int \<times> turn_tracker" where
  "time_part t = (tr_ProviderObservedAt t, tr_ProviderEventAt t, tr_TranscriptEventAt t, tr_Turn t)"

lemma time_part_tool: "time_part (startTool i name at t) = time_part t" "time_part (endTool i at st t) = time_part t"
  by (simp_all add: time_part_def startTool_def endTool_def Let_def)

lemma time_part_parts: "time_part (foldl (observe_part at) t vs) = time_part t"
proof -
  have "time_part (observe_part at t v) = time_part t" for t v
    by (simp add: observe_part_def Let_def time_part_tool)
  then show ?thesis by (induction vs arbitrary: t) simp_all
qed

lemma time_part_tools: "time_part (observeTools e at t) = time_part t"
proof -
  have "time_part (if b then (if c then t else if d then startTool i k at t else endTool i at w t)
      else foldl (observe_part at) t vs) = time_part t" for b c d i k w vs
    by (simp add: time_part_parts time_part_tool)
  then show ?thesis unfolding observeTools_def Let_def .
qed

lemma note_first_turn [simp]:
  "tr_Turn (note_first at t) = tr_Turn t" "tr_ProviderObservedAt (note_first at t) = tr_ProviderObservedAt t"
  "tr_ProviderEventAt (note_first at t) = tr_ProviderEventAt t" "tr_TranscriptEventAt (note_first at t) = tr_TranscriptEventAt t"
  "tr_Tools (note_first at t) = tr_Tools t"
  by (simp_all add: note_first_def)

lemma observeRecord_turn:
  "tr_Turn (observeRecord clock e origin now t) =
     (let (observed, event) = recordTimes clock e origin now; at = recordTime observed event
      in if sessionsAuthored e then tr_Turn (observeSessionsRecord e at origin t)
         else if metadataRecord e then tr_Turn t else tr_Turn (observeProviderTurn e at origin t))"
proof -
  obtain observed event where r: "recordTimes clock e origin now = (observed, event)" by fastforce
  let ?at = "recordTime observed event"
  have "tr_Turn (observeTools e ?at s) = tr_Turn s" for s
    using time_part_tools [of e ?at s] by (simp add: time_part_def)
  then show ?thesis
    by (simp add: observeRecord_def r Let_def observeSessionsRecord_def observeProviderTurn_def note_provider_def)
qed

lemma own_record_frame:
  assumes "sessionsAuthored e \<or> metadataRecord e"
  shows "tr_ProviderObservedAt (observeRecord clock e origin now t) = tr_ProviderObservedAt t"
    "tr_ProviderEventAt (observeRecord clock e origin now t) = tr_ProviderEventAt t"
    "tr_TranscriptEventAt (observeRecord clock e origin now t) = tr_TranscriptEventAt t"
    "tr_Tools (observeRecord clock e origin now t) = tr_Tools t"
  using assms
  by (cases "sessionsAuthored e"; simp add: observeRecord_def Let_def observeSessionsRecord_def split: prod.split)+

lemma sessions_turn:
  "tn_ConfirmedAt (tr_Turn (observeSessionsRecord e at origin t)) \<in> {0, tn_ConfirmedAt (tr_Turn t)}"
  "tn_Open (tr_Turn t) \<Longrightarrow> \<not> tn_Open (tr_Turn (observeSessionsRecord e at origin t)) \<Longrightarrow>
     str_at e ''type'' = ''result'' \<or> (str_at e ''type'' = ''claude'' \<and> str_at e ''subtype'' = ''turn_interrupted'')"
  by (auto simp: observeSessionsRecord_def Let_def turn_start_def turn_end_def no_turn_def split: if_splits)

lemma provider_turn_confirms:
  assumes "tn_ConfirmedAt (tr_Turn (observeProviderTurn e at origin t)) \<noteq> tn_ConfirmedAt (tr_Turn t)"
  shows "(str_at e ''type'' = ''system'' \<and> str_at e ''subtype'' = ''init'' \<and> origin = FromRunnerStream
           \<and> tn_DispatchedLive (tr_Turn t) \<and> tn_Open (tr_Turn t))
        \<or> (str_at e ''source'' = ''codex-app-server'' \<and> str_at e ''subtype'' = ''turn_started'')
        \<or> (origin = FromWatcher \<and> realUserMessage e)"
  using assms
  by (simp add: observeProviderTurn_def Let_def turn_end_def turn_confirm_def split: if_splits)

lemma provider_turn_ends:
  assumes "tn_Open (tr_Turn t)" and "\<not> tn_Open (tr_Turn (observeProviderTurn e at origin t))"
  shows "str_at e ''type'' = ''result'' \<or> (str_at e ''source'' = ''codex-app-server'' \<and> str_at e ''subtype'' = ''turn_completed'')
        \<or> (origin = FromWatcher \<and> assistantEndedTurn e)"
  using assms
  by (simp add: observeProviderTurn_def Let_def turn_start_def turn_confirm_def split: if_splits)

section \<open>Properties\<close>

text \<open>C8: the open tool calls a session reports.  After any records, from any source and in any order,
  at most 1024 calls are tracked and at most 32 are listed, none twice; each one listed was started by a
  record and not ended by a later one; and when the projection calls its count exact, it is
  the number of all calls so running.\<close>

theorem open_tools_exact:
  assumes "p = toolsProjection (observe_all clock rs (fresh_tracker launched at))"
  shows "os_OpenCount p \<le> 1024
    \<and> length (os_Open p) = min 32 (os_OpenCount p)
    \<and> distinct (map ot_ID (os_Open p))
    \<and> (\<forall>c \<in> set (os_Open p). running (all_facts rs) (ot_ID c))
    \<and> (os_OpenCountExact p \<longrightarrow>
         os_OpenCount p = card {i. running (all_facts rs) i})"
proof -
  let ?t = "observe_all clock rs (fresh_tracker launched at)"
  have t: "tracks (all_facts rs) ?t" using observe_all_tracks [OF fresh_tracks] by fastforce
    note p = assms
  have ids: "map ot_ID (os_Open p) = take maxObservedOpenTools (tr_ToolOrder ?t)"
    unfolding p by (rule open_is_tool [OF t])
  have len: "length (tr_ToolOrder ?t) = os_OpenCount p"
    using t by (metis length_map observed_tools.select_convs(2) assms toolsProjection_def tracks_def)
  have "os_OpenCount p \<le> 1024" using t by (simp add: p toolsProjection_def tracks_def maxTrackedTools_def Let_def)
  moreover have "length (os_Open p) = min 32 (os_OpenCount p)"
    using arg_cong [OF ids, of length] len by (simp add: maxObservedOpenTools_def min.commute)
  moreover have "distinct (map ot_ID (os_Open p))" unfolding ids using t by (simp add: tracks_def)
  moreover have "running (all_facts rs) (ot_ID c)" if "c \<in> set (os_Open p)" for c
  proof -
    have "ot_ID c \<in> set (map ot_ID (os_Open p))" using that by simp
    then have "ot_ID c \<in> set (tr_ToolOrder ?t)" unfolding ids by (rule in_set_takeD)
    then show ?thesis using t by (simp add: tracks_def)
  qed
  moreover have "os_OpenCount p = card {i. running (all_facts rs) i}" if "os_OpenCountExact p"
  proof -
    have "{i. running (all_facts rs) i} = set (tr_ToolOrder ?t)"
      using that t by (auto simp: p toolsProjection_def tracks_def Let_def)
    then show ?thesis using len t by (simp add: distinct_card tracks_def)
  qed
  ultimately show ?thesis by blast
qed

text \<open>C29: no false evidence.  A record Sessions wrote itself and a metadata record move no provider time,
  touch no tool call and never count as the provider's confirmation of a turn; a confirmation comes
  only from a start the provider wrote, or from an init that arrives live while a turn that was seen being
  dispatched live is open; and an open turn is ended only by a record that says so.\<close>

theorem no_false_evidence:
  assumes "t' = observeRecord clock e origin now t"
  shows "(sessionsAuthored e \<or> metadataRecord e \<longrightarrow>
      tr_ProviderObservedAt t' = tr_ProviderObservedAt t
      \<and> tr_ProviderEventAt t' = tr_ProviderEventAt t
      \<and> tr_TranscriptEventAt t' = tr_TranscriptEventAt t
      \<and> tr_Tools t' = tr_Tools t
      \<and> tn_ConfirmedAt (tr_Turn t') \<in> {0, tn_ConfirmedAt (tr_Turn t)})
    \<and> (tn_ConfirmedAt (tr_Turn t') \<notin> {0, tn_ConfirmedAt (tr_Turn t)} \<longrightarrow>
        (str_at e ''type'' = ''system'' \<and> str_at e ''subtype'' = ''init'' \<and> origin = FromRunnerStream
           \<and> tn_DispatchedLive (tr_Turn t) \<and> tn_Open (tr_Turn t))
        \<or> (str_at e ''source'' = ''codex-app-server'' \<and> str_at e ''subtype'' = ''turn_started'')
        \<or> (origin = FromWatcher \<and> realUserMessage e))
    \<and> (tn_Open (tr_Turn t) \<and> \<not> tn_Open (tr_Turn t') \<longrightarrow>
        str_at e ''type'' = ''result'' \<or> (str_at e ''type'' = ''claude'' \<and> str_at e ''subtype'' = ''turn_interrupted'')
        \<or> (str_at e ''source'' = ''codex-app-server'' \<and> str_at e ''subtype'' = ''turn_completed'')
        \<or> (origin = FromWatcher \<and> assistantEndedTurn e))"
proof -
  obtain observed event where r: "recordTimes clock e origin now = (observed, event)" by fastforce
  note turn = observeRecord_turn [of clock e origin now t, unfolded r Let_def prod.case]
  have own: "tn_ConfirmedAt (tr_Turn t') \<in> {0, tn_ConfirmedAt (tr_Turn t)}"
    if "sessionsAuthored e \<or> metadataRecord e"
    using that sessions_turn(1) unfolding assms turn by auto
  have confirms: "\<not> (sessionsAuthored e \<or> metadataRecord e)
      \<and> tr_Turn t' = tr_Turn (observeProviderTurn e (recordTime observed event) origin t)"
    if "tn_ConfirmedAt (tr_Turn t') \<notin> {0, tn_ConfirmedAt (tr_Turn t)}"
    using that own unfolding assms turn by auto
  show ?thesis
  proof (intro conjI impI)
    assume h: "sessionsAuthored e \<or> metadataRecord e"
    show "tr_ProviderObservedAt t' = tr_ProviderObservedAt t"
      "tr_ProviderEventAt t' = tr_ProviderEventAt t"
      "tr_TranscriptEventAt t' = tr_TranscriptEventAt t"
      "tr_Tools t' = tr_Tools t"
      unfolding assms by (rule own_record_frame [OF h])+
    show "tn_ConfirmedAt (tr_Turn t') \<in> {0, tn_ConfirmedAt (tr_Turn t)}" by (rule own [OF h])
  next
    assume "tn_ConfirmedAt (tr_Turn t') \<notin> {0, tn_ConfirmedAt (tr_Turn t)}"
    then show "(str_at e ''type'' = ''system'' \<and> str_at e ''subtype'' = ''init'' \<and> origin = FromRunnerStream
           \<and> tn_DispatchedLive (tr_Turn t) \<and> tn_Open (tr_Turn t))
        \<or> (str_at e ''source'' = ''codex-app-server'' \<and> str_at e ''subtype'' = ''turn_started'')
        \<or> (origin = FromWatcher \<and> realUserMessage e)"
      using confirms provider_turn_confirms by fastforce
  next
    assume "tn_Open (tr_Turn t) \<and> \<not> tn_Open (tr_Turn t')"
    then show "str_at e ''type'' = ''result'' \<or> (str_at e ''type'' = ''claude'' \<and> str_at e ''subtype'' = ''turn_interrupted'')
        \<or> (str_at e ''source'' = ''codex-app-server'' \<and> str_at e ''subtype'' = ''turn_completed'')
        \<or> (origin = FromWatcher \<and> assistantEndedTurn e)"
      using sessions_turn(2) [of t e "recordTime observed event" origin]
        provider_turn_ends [of t e "recordTime observed event" origin] unfolding assms turn
      by (cases "sessionsAuthored e"; cases "metadataRecord e") (simp_all, blast+)
  qed
qed

text \<open>A turn dispatched live, the live init that confirms it, and two tool calls of which one has ended.\<close>

definition sample_dispatch :: members where
  "sample_dispatch = [(''type'', JStr ''claude''), (''subtype'', JStr ''turn_started'')]"

definition sample_init :: members where
  "sample_init = [(''type'', JStr ''system''), (''subtype'', JStr ''init'')]"

definition sample_calls :: members where
  "sample_calls = [(''type'', JStr ''assistant''), (''message'', JObj [(''content'', JArr
     [JObj [(''type'', JStr ''tool_use''), (''id'', JStr ''a''), (''name'', JStr ''Bash'')],
      JObj [(''type'', JStr ''tool_use''), (''id'', JStr ''b'')],
      JObj [(''type'', JStr ''tool_result''), (''tool_use_id'', JStr ''b'')]])])]"

definition sample_turn :: tracker where
  "sample_turn = observeRecord (\<lambda>_. None) sample_dispatch FromRunnerStream 10 (fresh_tracker True 5)"

lemma observe_one: "observe_all clock [(e, origin, now)] t = observeRecord clock e origin now t"
  by (simp add: observe_all_def)

theorem open_tools_exact_witness:
  "card {i. running (all_facts [(sample_calls, FromRunnerStream, 30)]) i} = 1"
proof -
  let ?t = "observe_all (\<lambda>_. None) [(sample_calls, FromRunnerStream, 30)] (fresh_tracker True 5)"
  have e: "os_OpenCountExact (toolsProjection ?t)"
    unfolding observe_one toolsProjection_def Let_def observed_tools.select_convs by code_simp
  have "os_OpenCount (toolsProjection ?t) = 1"
    unfolding observe_one toolsProjection_def Let_def observed_tools.select_convs by code_simp
  then show ?thesis using open_tools_exact [OF refl, of "\<lambda>_. None" "[(sample_calls, FromRunnerStream, 30)]" True 5] e
    by simp
qed

theorem no_false_evidence_witness:
  "tn_ConfirmedAt (tr_Turn (observeRecord (\<lambda>_. None) sample_init FromRunnerStream 20 sample_turn)) = 20
   \<and> tn_DispatchedLive (tr_Turn sample_turn) \<and> tn_Open (tr_Turn sample_turn)"
proof -
  let ?t = "observeRecord (\<lambda>_. None) sample_init FromRunnerStream 20 sample_turn"
  have c: "tn_ConfirmedAt (tr_Turn ?t) = 20" "tn_ConfirmedAt (tr_Turn sample_turn) = 0" by code_simp+
  have k: "str_at sample_init ''source'' = []" "\<not> realUserMessage sample_init" by code_simp+
  show ?thesis using no_false_evidence [of ?t "\<lambda>_. None" sample_init FromRunnerStream 20 sample_turn, OF refl] c k by simp
qed

end
