(* ===== verification/Hook_Tracker.thy ===== *)
theory Hook_Tracker
  imports Observations Frames
begin

text \<open>
  What Claude's own hook events reported for one launch: the sink records of
  \<open>runtime/internal/claudehooks/record.go\<close> and the tracker of
  \<open>runtime/internal/state/observations_hooks.go\<close>.  Hooks run as concurrent processes, so the lines of
  the sink are read in any order; the lemmas say which facts depend on it.

  \<open>parse\<close> reads a line as JSON.
\<close>

section \<open>Sink records\<close>

record hook_record =
  hk_Version :: int
  hk_Launch :: string
  hk_ObservedAt :: int
  hk_Event :: string
  hk_ConversationID :: string
  hk_ToolUseID :: string
  hk_ToolName :: string
  hk_AgentID :: string
  hk_Detail :: string
  hk_IsInterrupt :: "bool option"
  hk_StopHookActive :: "bool option"
  hk_Gap :: string

definition zero_hook :: hook_record where
  "zero_hook = \<lparr>hk_Version = 0, hk_Launch = [], hk_ObservedAt = 0, hk_Event = [], hk_ConversationID = [],
     hk_ToolUseID = [], hk_ToolName = [], hk_AgentID = [], hk_Detail = [], hk_IsInterrupt = None,
     hk_StopHookActive = None, hk_Gap = []\<rparr>"

definition dec_hook :: "hook_record \<Rightarrow> members \<Rightarrow> hook_record option" where
  "dec_hook z ms =
     (case (field dec_int ''v'' (hk_Version z) ms, field dec_str ''launch'' (hk_Launch z) ms,
            field dec_int ''observed_at'' (hk_ObservedAt z) ms, field dec_str ''event'' (hk_Event z) ms,
            field dec_str ''session_id'' (hk_ConversationID z) ms, field dec_str ''tool_use_id'' (hk_ToolUseID z) ms,
            field dec_str ''tool_name'' (hk_ToolName z) ms, field dec_str ''agent_id'' (hk_AgentID z) ms,
            field dec_str ''detail'' (hk_Detail z) ms,
            field (dec_ptr False dec_bool) ''is_interrupt'' (hk_IsInterrupt z) ms,
            field (dec_ptr False dec_bool) ''stop_hook_active'' (hk_StopHookActive z) ms,
            field dec_str ''gap'' (hk_Gap z) ms) of
       (Some v, Some l, Some at, Some ev, Some conv, Some tid, Some tn, Some ag, Some det, Some ii, Some sh, Some gap) \<Rightarrow>
         Some \<lparr>hk_Version = v, hk_Launch = l, hk_ObservedAt = at, hk_Event = ev, hk_ConversationID = conv,
           hk_ToolUseID = tid, hk_ToolName = tn, hk_AgentID = ag, hk_Detail = det, hk_IsInterrupt = ii,
           hk_StopHookActive = sh, hk_Gap = gap\<rparr>
     | _ \<Rightarrow> None)"

definition RecordVersion :: int where "RecordVersion = 1"
definition MaxRecordBytes :: nat where "MaxRecordBytes = 2048"

definition lower_letter :: "char \<Rightarrow> bool" where "lower_letter c \<longleftrightarrow> 97 \<le> byte_of c \<and> byte_of c \<le> 122"
definition upper_letter :: "char \<Rightarrow> bool" where "upper_letter c \<longleftrightarrow> 65 \<le> byte_of c \<and> byte_of c \<le> 90"

definition id_char :: "char \<Rightarrow> bool" where
  "id_char c \<longleftrightarrow> lower_letter c \<or> upper_letter c \<or> is_digit c \<or> c = CHR ''_'' \<or> c = CHR ''-''"

definition launchPattern :: "string \<Rightarrow> bool" where
  "launchPattern s \<longleftrightarrow> length s = 32 \<and> list_all (\<lambda>c. is_digit c \<or> (97 \<le> byte_of c \<and> byte_of c \<le> 102)) s"

definition eventPattern :: "string \<Rightarrow> bool" where
  "eventPattern s \<longleftrightarrow> 2 \<le> length s \<and> length s \<le> 41 \<and> upper_letter (hd s)
     \<and> list_all (\<lambda>c. lower_letter c \<or> upper_letter c) (tl s)"

definition conversationPattern :: "string \<Rightarrow> bool" where
  "conversationPattern s \<longleftrightarrow> 1 \<le> length s \<and> length s \<le> 64 \<and> list_all id_char s"

definition toolIDPattern :: "string \<Rightarrow> bool" where
  "toolIDPattern s \<longleftrightarrow> 1 \<le> length s \<and> length s \<le> 128 \<and> list_all id_char s"

definition toolNamePattern :: "string \<Rightarrow> bool" where
  "toolNamePattern s \<longleftrightarrow> 1 \<le> length s \<and> length s \<le> 128
     \<and> list_all (\<lambda>c. id_char c \<or> c = CHR ''.'' \<or> c = CHR '':'') s"

definition detailPattern :: "string \<Rightarrow> bool" where
  "detailPattern s \<longleftrightarrow> 1 \<le> length s \<and> length s \<le> 64 \<and> lower_letter (hd s)
     \<and> list_all (\<lambda>c. lower_letter c \<or> is_digit c \<or> c = CHR ''_'') (tl s)"

definition fieldsValid :: "hook_record \<Rightarrow> bool" where
  "fieldsValid r \<longleftrightarrow>
     (hk_Event r = [] \<or> eventPattern (hk_Event r)) \<and> (hk_ConversationID r = [] \<or> conversationPattern (hk_ConversationID r))
     \<and> (hk_ToolUseID r = [] \<or> toolIDPattern (hk_ToolUseID r)) \<and> (hk_ToolName r = [] \<or> toolNamePattern (hk_ToolName r))
     \<and> (hk_AgentID r = [] \<or> conversationPattern (hk_AgentID r)) \<and> (hk_Detail r = [] \<or> detailPattern (hk_Detail r))
     \<and> hk_Gap r \<in> set [[], ''oversized-input'', ''malformed-input'']"

definition ParseLine :: "(byte list \<Rightarrow> json option) \<Rightarrow> byte list \<Rightarrow> hook_record option" where
  "ParseLine parse line =
     (if line = [] \<or> MaxRecordBytes < length line then None
      else case unmarshal (dec_struct dec_hook) zero_hook (parse line) of None \<Rightarrow> None
       | Some r \<Rightarrow>
           if hk_Version r \<noteq> RecordVersion \<or> \<not> launchPattern (hk_Launch r) \<or> hk_ObservedAt r \<le> 0 then None
           else if \<not> fieldsValid r then None else Some r)"

section \<open>The tracker\<close>

record hook_event =
  he_Name :: string
  he_ObservedAt :: int
  he_ConversationID :: "string option"
  he_ToolUseID :: "string option"
  he_ToolName :: "string option"
  he_AgentID :: "string option"
  he_Detail :: "string option"
  he_IsInterrupt :: "bool option"
  he_StopHookActive :: "bool option"

definition maxHookEndedIDs :: nat where "maxHookEndedIDs = 1024"
definition maxHookPending :: nat where "maxHookPending = 256"

record hook_tracker =
  ht_Applicable :: bool
  ht_Launch :: string
  ht_Reason :: string
  ht_Expected :: string
  ht_Confirmed :: "string list"
  ht_Pending :: "hook_record list"
  ht_Current :: "hook_event option"
  ht_Receiving :: bool
  ht_FirstAt :: int
  ht_Last :: "hook_event option"
  ht_Events :: "(string \<times> hook_event) list"
  ht_Tools :: "tracker option"
  ht_Ended :: "string list"
  ht_LastEndKey :: string
  ht_EndedOrder :: "string list"
  ht_Gaps :: "string list"
  ht_Foreign :: nat
  ht_Malformed :: nat

text \<open>A tracker for a launch with hooks, \<open>launch\<close> its id; \<open>expected\<close> is the conversation argv names.\<close>

definition hooks_of_launch :: "string \<Rightarrow> string \<Rightarrow> hook_tracker" where
  "hooks_of_launch launch expected = \<lparr>ht_Applicable = True, ht_Launch = launch, ht_Reason = [],
     ht_Expected = expected, ht_Confirmed = [], ht_Pending = [], ht_Current = None, ht_Receiving = False,
     ht_FirstAt = 0, ht_Last = None, ht_Events = [], ht_Tools = None, ht_Ended = [], ht_LastEndKey = [],
     ht_EndedOrder = [], ht_Gaps = [], ht_Foreign = 0, ht_Malformed = 0\<rparr>"

definition markGap :: "string \<Rightarrow> hook_tracker \<Rightarrow> hook_tracker" where
  "markGap kind h = (if ht_Applicable h then h\<lparr>ht_Gaps := List.insert kind (ht_Gaps h)\<rparr> else h)"

definition isConfirmed :: "hook_tracker \<Rightarrow> string \<Rightarrow> bool" where
  "isConfirmed h conv \<longleftrightarrow> conv = ht_Expected h \<or> conv \<in> set (ht_Confirmed h)"

definition flag_text :: "bool option \<Rightarrow> string" where
  "flag_text b = (case b of None \<Rightarrow> [] | Some True \<Rightarrow> ''true'' | Some False \<Rightarrow> ''false'')"

definition value_text :: "string option \<Rightarrow> string" where
  "value_text v = (case v of None \<Rightarrow> [] | Some s \<Rightarrow> s)"

definition hookEventKey :: "hook_event \<Rightarrow> string" where
  "hookEventKey e = join_with (CHR 0x00) [he_Name e, value_text (he_ConversationID e), value_text (he_ToolUseID e),
     value_text (he_Detail e), value_text (he_AgentID e), flag_text (he_IsInterrupt e), flag_text (he_StopHookActive e)]"

definition hookEventAfter :: "hook_event \<Rightarrow> hook_event \<Rightarrow> bool" where
  "hookEventAfter a b = (if he_ObservedAt a \<noteq> he_ObservedAt b then he_ObservedAt a > he_ObservedAt b
     else hookEventKey a > hookEventKey b)"

definition event_of :: "hook_record \<Rightarrow> hook_event" where
  "event_of r = \<lparr>he_Name = hk_Event r, he_ObservedAt = hk_ObservedAt r,
     he_ConversationID = optionalString (hk_ConversationID r), he_ToolUseID = optionalString (hk_ToolUseID r),
     he_ToolName = optionalString (hk_ToolName r), he_AgentID = optionalString (hk_AgentID r),
     he_Detail = optionalString (hk_Detail r), he_IsInterrupt = hk_IsInterrupt r, he_StopHookActive = hk_StopHookActive r\<rparr>"

definition hook_tools :: "hook_tracker \<Rightarrow> tracker" where
  "hook_tools h = (case ht_Tools h of None \<Rightarrow> no_tracker | Some t \<Rightarrow> t)"

definition hook_endTool :: "string \<Rightarrow> int \<Rightarrow> string \<Rightarrow> hook_tracker \<Rightarrow> hook_tracker" where
  "hook_endTool i at st h =
     (if i \<in> set (ht_Ended h) then h
      else let t = hook_tools h; k = st @ CHR 0x00 # i;
               newest = (at > tr_LastToolEndedAt t \<or> (at = tr_LastToolEndedAt t \<and> k > ht_LastEndKey h));
               t1 = endTool i at st t;
               h1 = (if newest then h\<lparr>ht_Tools := Some t1, ht_LastEndKey := k\<rparr>
                     else h\<lparr>ht_Tools := Some (t1\<lparr>tr_LastToolEndStatus := tr_LastToolEndStatus t\<rparr>)\<rparr>);
               h2 = (if maxHookEndedIDs \<le> length (ht_EndedOrder h1)
                     then markGap ''tool-ends-forgotten'' (h1\<lparr>ht_Ended := removeAll (hd (ht_EndedOrder h1)) (ht_Ended h1),
                       ht_EndedOrder := tl (ht_EndedOrder h1)\<rparr>)
                     else h1)
           in h2\<lparr>ht_Ended := ht_Ended h2 @ [i], ht_EndedOrder := ht_EndedOrder h2 @ [i]\<rparr>)"

definition hook_startTool :: "string \<Rightarrow> string \<Rightarrow> int \<Rightarrow> hook_tracker \<Rightarrow> hook_tracker" where
  "hook_startTool i name at h =
     (let t = hook_tools h in
      if i \<in> set (ht_Ended h)
      then h\<lparr>ht_Tools := Some (t\<lparr>tr_LastToolStartedAt := max (tr_LastToolStartedAt t) at\<rparr>)\<rparr>
      else h\<lparr>ht_Tools := Some (startTool i name at t)\<rparr>)"

definition applyTool :: "hook_record \<Rightarrow> int \<Rightarrow> hook_tracker \<Rightarrow> hook_tracker" where
  "applyTool r at h =
     (let i = hk_ToolUseID r in
      if i = [] then h
      else if hk_Event r = ''PreToolUse'' then hook_startTool i (hk_ToolName r) at h
      else if hk_Event r = ''PostToolUse'' then hook_endTool i at ''result'' h
      else if hk_Event r = ''PostToolUseFailure''
      then hook_endTool i at (if hk_IsInterrupt r = Some True then ''cancelled'' else ''error'') h
      else if hk_Event r = ''PermissionDenied'' then hook_endTool i at ''cancelled'' h
      else h)"

definition newer :: "hook_event \<Rightarrow> hook_event option \<Rightarrow> bool" where
  "newer e old = (case old of None \<Rightarrow> True | Some o1 \<Rightarrow> hookEventAfter e o1)"

definition note_hook :: "hook_event \<Rightarrow> hook_tracker \<Rightarrow> hook_tracker" where
  "note_hook e h = h\<lparr>
     ht_FirstAt := (if ht_FirstAt h = 0 \<or> he_ObservedAt e < ht_FirstAt h then he_ObservedAt e else ht_FirstAt h),
     ht_Events := (if newer e (map_of (ht_Events h) (he_Name e)) then AList.update (he_Name e) e (ht_Events h) else ht_Events h),
     ht_Last := (if newer e (ht_Last h) then Some e else ht_Last h),
     ht_Current := (if he_Name e = ''SessionStart'' \<and> newer e (ht_Current h) then Some e else ht_Current h)\<rparr>"

definition hook_apply :: "hook_record \<Rightarrow> hook_tracker \<Rightarrow> hook_tracker" where
  "hook_apply r h = applyTool r (hk_ObservedAt r) (note_hook (event_of r) h)"

definition hook_confirm :: "hook_record \<Rightarrow> hook_tracker \<Rightarrow> hook_tracker" where
  "hook_confirm r h =
     (let same = (\<lambda>c. hk_ConversationID c = hk_ConversationID r); ready = filter same (ht_Pending h)
      in foldl (\<lambda>h c. hook_apply c h)
        (h\<lparr>ht_Confirmed := List.insert (hk_ConversationID r) (ht_Confirmed h),
           ht_Pending := filter (\<lambda>c. \<not> same c) (ht_Pending h)\<rparr>) ready)"

definition hook_hold :: "hook_record \<Rightarrow> hook_tracker \<Rightarrow> hook_tracker" where
  "hook_hold r h =
     (let h1 = (if maxHookPending \<le> length (ht_Pending h)
                then markGap ''unconfirmed-records-dropped'' (h\<lparr>ht_Pending := tl (ht_Pending h)\<rparr>) else h)
      in h1\<lparr>ht_Pending := ht_Pending h1 @ [r]\<rparr>)"

text \<open>A valid record of this launch, and a line of the sink.\<close>

definition take_record :: "hook_record \<Rightarrow> hook_tracker \<Rightarrow> hook_tracker" where
  "take_record r h =
     (let h1 = h\<lparr>ht_Receiving := True\<rparr>;
          h2 = (if hk_Event r = ''SessionStart'' then hook_confirm r h1 else h1)
      in if isConfirmed h2 (hk_ConversationID r) then hook_apply r h2 else hook_hold r h2)"

definition observeLine :: "(byte list \<Rightarrow> json option) \<Rightarrow> byte list \<Rightarrow> hook_tracker \<Rightarrow> hook_tracker" where
  "observeLine parse line h =
     (if \<not> ht_Applicable h \<or> ht_Launch h = [] then h
      else case ParseLine parse line of
          None \<Rightarrow> markGap ''malformed-record'' (h\<lparr>ht_Malformed := ht_Malformed h + 1\<rparr>)
        | Some r \<Rightarrow>
            if hk_Launch r \<noteq> ht_Launch h then h\<lparr>ht_Foreign := ht_Foreign h + 1\<rparr>
            else let h1 = (if hk_Gap r \<noteq> [] then markGap (hk_Gap r) h else h)
              in if hk_Event r = [] \<or> hk_ConversationID r = [] then h1\<lparr>ht_Malformed := ht_Malformed h1 + 1\<rparr>
                 else take_record r h1)"

section \<open>The projection\<close>

record observed_hooks =
  hv_Coverage :: string
  hv_UnavailableReason :: "string option"
  hv_ConversationID :: "string option"
  hv_LastEvent :: "hook_event option"
  hv_Events :: "string \<Rightarrow> hook_event option"
  hv_Tools :: "observed_tools option"
  hv_Gaps :: "string list"
  hv_Foreign :: nat
  hv_Unconfirmed :: nat
  hv_Malformed :: nat

definition hook_project :: "hook_tracker \<Rightarrow> observed_hooks option" where
  "hook_project h =
     (if \<not> ht_Applicable h then None
      else if ht_Launch h = []
      then Some \<lparr>hv_Coverage = ''unavailable'', hv_UnavailableReason = optionalString (ht_Reason h),
             hv_ConversationID = None, hv_LastEvent = None, hv_Events = Map.empty, hv_Tools = None, hv_Gaps = [],
             hv_Foreign = ht_Foreign h, hv_Unconfirmed = 0, hv_Malformed = ht_Malformed h\<rparr>
      else Some \<lparr>hv_Coverage = (if ht_Receiving h then ''receiving'' else ''configured''), hv_UnavailableReason = None,
             hv_ConversationID = (case ht_Current h of None \<Rightarrow> optionalString (ht_Expected h) | Some e \<Rightarrow> he_ConversationID e),
             hv_LastEvent = ht_Last h, hv_Events = map_of (ht_Events h),
             hv_Tools = Some (toolsProjection ((hook_tools h)\<lparr>tr_FromStart := (ht_Gaps h = [] \<and> ht_Malformed h = 0),
               tr_FirstRecordAt := ht_FirstAt h\<rparr>)),
             hv_Gaps = sort (ht_Gaps h), hv_Foreign = ht_Foreign h, hv_Unconfirmed = length (ht_Pending h),
             hv_Malformed = ht_Malformed h\<rparr>)"


section \<open>The newest of some events\<close>

definition event_rank :: "hook_event \<Rightarrow> int \<times> string" where
  "event_rank e = (he_ObservedAt e, hookEventKey e)"

lemma hookEventAfter_rank: "hookEventAfter a b \<longleftrightarrow> event_rank a > event_rank b"
  by (auto simp: hookEventAfter_def event_rank_def)

definition newest :: "hook_event list \<Rightarrow> hook_event option" where
  "newest es = foldl (\<lambda>b e. if newer e b then Some e else b) None es"

lemma newest_Nil [simp]: "newest [] = None"
  by (simp add: newest_def)

lemma newest_snoc: "newest (es @ [e]) = (if newer e (newest es) then Some e else newest es)"
  by (simp add: newest_def)

lemma newest_spec:
  "es \<noteq> [] \<Longrightarrow> \<exists>m \<in> set es. newest es = Some m \<and> (\<forall>e \<in> set es. event_rank e \<le> event_rank m)"
proof (induction es rule: rev_induct)
  case (snoc e es)
  show ?case
  proof (cases "es = []")
    case True
    then show ?thesis by (simp add: newest_def newer_def)
  next
    case False
    then obtain m where "m \<in> set es" "newest es = Some m" "\<forall>e \<in> set es. event_rank e \<le> event_rank m"
      using snoc.IH by blast
    then show ?thesis
      by (auto simp: newest_snoc newer_def hookEventAfter_rank intro: less_imp_le order.trans)
  qed
qed simp

lemma newest_set:
  assumes "set es = set es'" and "inj_on event_rank (set es)"
  shows "newest es = newest es'"
proof (cases "es = []")
  case True
  then show ?thesis using assms(1) by simp
next
  case False
  then have "es' \<noteq> []" using assms(1) by auto
  obtain m where m: "m \<in> set es" "newest es = Some m" "\<forall>e \<in> set es. event_rank e \<le> event_rank m"
    using newest_spec [OF False] by blast
  obtain m' where m': "m' \<in> set es'" "newest es' = Some m'" "\<forall>e \<in> set es'. event_rank e \<le> event_rank m'"
    using newest_spec [OF \<open>es' \<noteq> []\<close>] by blast
  have "event_rank m = event_rank m'" using m m' assms(1) by (simp add: order.antisym)
  then have "m = m'" using assms m(1) m'(1) by (simp add: inj_on_def)
  then show ?thesis using m(2) m'(2) by simp
qed

section \<open>What the records applied so far give\<close>

definition ends_tool :: "hook_record \<Rightarrow> bool" where
  "ends_tool r \<longleftrightarrow> hk_ToolUseID r \<noteq> [] \<and> hk_Event r \<in> set [''PostToolUse'', ''PostToolUseFailure'', ''PermissionDenied'']"

definition starts_tool :: "hook_record \<Rightarrow> bool" where
  "starts_tool r \<longleftrightarrow> hk_ToolUseID r \<noteq> [] \<and> hk_Event r = ''PreToolUse''"

definition ended_ids :: "hook_record list \<Rightarrow> string set" where
  "ended_ids rs = hk_ToolUseID ` {r \<in> set rs. ends_tool r}"

definition started_ids :: "hook_record list \<Rightarrow> string set" where
  "started_ids rs = hk_ToolUseID ` {r \<in> set rs. starts_tool r}"

definition last_start :: "hook_record list \<Rightarrow> int" where
  "last_start rs = foldl max 0 (map hk_ObservedAt (filter starts_tool rs))"

definition first_time :: "hook_record list \<Rightarrow> int" where
  "first_time rs = foldl (\<lambda>a r. if a = 0 \<or> hk_ObservedAt r < a then hk_ObservedAt r else a) 0 rs"

definition tools_of :: "hook_record list \<Rightarrow> hook_tracker \<Rightarrow> bool" where
  "tools_of rs h \<longleftrightarrow> (let t = hook_tools h in
     ht_EndedOrder h = ht_Ended h \<and> set (ht_Ended h) = ended_ids rs \<and> length (ht_Ended h) \<le> length rs
     \<and> distinct (tr_ToolOrder t) \<and> map fst (tr_Tools t) = tr_ToolOrder t
     \<and> set (tr_ToolOrder t) = started_ids rs - ended_ids rs \<and> length (tr_Tools t) \<le> length rs
     \<and> \<not> tr_ToolsDropped t \<and> tr_LastToolStartedAt t = last_start rs
     \<and> \<not> tr_HistoryIncomplete t \<and> tr_AttachedAt t = 0)"

definition events_of :: "hook_record list \<Rightarrow> hook_tracker \<Rightarrow> bool" where
  "events_of rs h \<longleftrightarrow> ht_Last h = newest (map event_of rs)
     \<and> (\<forall>n. map_of (ht_Events h) n = newest (filter (\<lambda>e. he_Name e = n) (map event_of rs)))
     \<and> ht_Current h = newest (filter (\<lambda>e. he_Name e = ''SessionStart'') (map event_of rs))
     \<and> ht_FirstAt h = first_time rs"

lemma note_hooks: "events_of rs h \<Longrightarrow> events_of (rs @ [r]) (note_hook (event_of r) h)"
  by (auto simp: events_of_def note_hook_def newest_snoc first_time_def AList.update_conv' event_of_def)

text \<open>Everything that neither the events nor the tools are about.\<close>

definition rest_part :: "hook_tracker \<Rightarrow> bool \<times> string \<times> string \<times> string list \<times> hook_record list \<times> bool \<times> nat \<times> nat" where
  "rest_part h = (ht_Applicable h, ht_Launch h, ht_Expected h, ht_Confirmed h, ht_Pending h, ht_Receiving h,
     ht_Foreign h, ht_Malformed h)"

definition event_part :: "hook_tracker \<Rightarrow> hook_event option \<times> (string \<times> hook_event) list \<times> hook_event option \<times> int" where
  "event_part h = (ht_Last h, ht_Events h, ht_Current h, ht_FirstAt h)"

lemma rest_frames:
  "rest_part (note_hook e h) = rest_part h" "rest_part (markGap k h) = rest_part h"
  "rest_part (hook_startTool i name at h) = rest_part h" "rest_part (hook_endTool i at st h) = rest_part h"
  by (simp_all add: rest_part_def note_hook_def markGap_def hook_startTool_def hook_endTool_def Let_def)

lemma event_frames:
  "event_part (hook_startTool i name at h) = event_part h" "event_part (hook_endTool i at st h) = event_part h"
  by (simp_all add: event_part_def markGap_def hook_startTool_def hook_endTool_def Let_def)

lemma applyTool_rest: "rest_part (applyTool r at h) = rest_part h"
  unfolding applyTool_def Let_def by (simp add: rest_frames)

lemma applyTool_events: "event_part (applyTool r at h) = event_part h"
  unfolding applyTool_def Let_def by (simp add: event_frames)

lemma hook_apply_rest: "rest_part (hook_apply r h) = rest_part h"
  by (simp add: hook_apply_def applyTool_rest rest_frames)

lemma events_of_cong: "event_part h' = event_part h \<Longrightarrow> events_of rs h' = events_of rs h"
  by (simp add: events_of_def event_part_def)

lemma apply_events: "events_of rs h \<Longrightarrow> events_of (rs @ [r]) (hook_apply r h)"
  unfolding hook_apply_def
  by (subst events_of_cong [OF applyTool_events]) (rule note_hooks)

lemma last_start_snoc:
  "last_start (rs @ [r]) = (if starts_tool r then max (last_start rs) (hk_ObservedAt r) else last_start rs)"
  by (simp add: last_start_def)

lemma ids_snoc:
  "ended_ids (rs @ [r]) = (if ends_tool r then insert (hk_ToolUseID r) (ended_ids rs) else ended_ids rs)"
  "started_ids (rs @ [r]) = (if starts_tool r then insert (hk_ToolUseID r) (started_ids rs) else started_ids rs)"
  by (auto simp: ended_ids_def started_ids_def)

lemma absent_iff: "map fst al = ks \<Longrightarrow> map_of al i = None \<longleftrightarrow> i \<notin> set ks"
  by (metis map_of_eq_None_iff set_map)


lemma start_tools:
  assumes "tools_of rs h" and "length rs < 256" and "starts_tool r"
  shows "tools_of (rs @ [r]) (hook_startTool (hk_ToolUseID r) name (hk_ObservedAt r) h)"
proof -
  let ?i = "hk_ToolUseID r" and ?t = "hook_tools h"
  have i: "?i \<noteq> []" "\<not> ends_tool r" using assms(3) by (auto simp: starts_tool_def ends_tool_def)
  have a: "map_of (tr_Tools ?t) ?i = None \<longleftrightarrow> ?i \<notin> set (tr_ToolOrder ?t)"
    using assms(1) absent_iff by (metis tools_of_def)
  have room: "length (tr_Tools ?t) < maxTrackedTools"
    using assms(1,2) by (simp add: tools_of_def Let_def maxTrackedTools_def)
  consider "?i \<in> set (ht_Ended h)" | "?i \<notin> set (ht_Ended h)" "?i \<in> set (tr_ToolOrder ?t)"
    | "?i \<notin> set (ht_Ended h)" "?i \<notin> set (tr_ToolOrder ?t)" by blast
  then show ?thesis
  proof cases
    case 1
    then show ?thesis using assms(1,3) i
      by (auto simp: tools_of_def Let_def hook_startTool_def hook_tools_def ids_snoc last_start_snoc)
  next
    case 2
    then have "startTool ?i name (hk_ObservedAt r) ?t
        = ?t\<lparr>tr_LastToolStartedAt := max (tr_LastToolStartedAt ?t) (hk_ObservedAt r)\<rparr>"
      using a i by (auto simp: startTool_def Let_def)
    then have "hook_tools (hook_startTool ?i name (hk_ObservedAt r) h)
        = ?t\<lparr>tr_LastToolStartedAt := max (tr_LastToolStartedAt ?t) (hk_ObservedAt r)\<rparr>"
      using 2 by (simp add: hook_startTool_def hook_tools_def Let_def)
    then show ?thesis using assms(1,3) i 2
      by (auto simp: tools_of_def Let_def ids_snoc last_start_snoc hook_startTool_def)
  next
    case 3
    let ?t' = "?t\<lparr>tr_LastToolStartedAt := max (tr_LastToolStartedAt ?t) (hk_ObservedAt r),
        tr_Tools := tr_Tools ?t @ [(?i, \<lparr>ot_ID = ?i, ot_Name = optionalString name, ot_StartedAt = optionalMillis (hk_ObservedAt r)\<rparr>)],
        tr_ToolOrder := tr_ToolOrder ?t @ [?i]\<rparr>"
    have "startTool ?i name (hk_ObservedAt r) ?t = ?t'"
      using a i 3 room by (simp add: startTool_def Let_def update_absent)
    then have "hook_tools (hook_startTool ?i name (hk_ObservedAt r) h) = ?t'"
      using 3 by (simp add: hook_startTool_def hook_tools_def Let_def)
    then show ?thesis using assms(1,3) i 3
      by (auto simp: tools_of_def Let_def ids_snoc last_start_snoc hook_startTool_def)
  qed
qed

lemma end_tools:
  assumes "tools_of rs h" and "length rs < 256" and "ends_tool r"
  shows "tools_of (rs @ [r]) (hook_endTool (hk_ToolUseID r) at st h)"
proof (cases "hk_ToolUseID r \<in> set (ht_Ended h)")
  case True
  have "\<not> starts_tool r" using assms(3) by (auto simp: starts_tool_def ends_tool_def)
  then show ?thesis using True assms(1,3)
    by (auto simp: tools_of_def Let_def hook_endTool_def ids_snoc last_start_snoc)
next
  case False
  let ?i = "hk_ToolUseID r" and ?t = "hook_tools h"
  have i: "?i \<noteq> []" "\<not> starts_tool r" using assms(3) by (auto simp: starts_tool_def ends_tool_def)
  have a: "map_of (tr_Tools ?t) ?i = None \<longleftrightarrow> ?i \<notin> set (tr_ToolOrder ?t)"
    using assms(1) absent_iff by (metis tools_of_def)
  have few: "length (ht_EndedOrder h) < maxHookEndedIDs"
    using assms(1,2) by (simp add: tools_of_def Let_def maxHookEndedIDs_def)
  let ?h = "hook_endTool ?i at st h"
  have e: "ht_Ended ?h = ht_Ended h @ [?i]" "ht_EndedOrder ?h = ht_EndedOrder h @ [?i]"
    using False few by (simp_all add: hook_endTool_def Let_def)
  have t: "tr_Tools (hook_tools ?h) = tr_Tools (endTool ?i at st ?t)" "tr_ToolOrder (hook_tools ?h) = tr_ToolOrder (endTool ?i at st ?t)"
    "tr_ToolsDropped (hook_tools ?h) = tr_ToolsDropped (endTool ?i at st ?t)"
    "tr_LastToolStartedAt (hook_tools ?h) = tr_LastToolStartedAt (endTool ?i at st ?t)"
    "tr_HistoryIncomplete (hook_tools ?h) = tr_HistoryIncomplete (endTool ?i at st ?t)"
    "tr_AttachedAt (hook_tools ?h) = tr_AttachedAt (endTool ?i at st ?t)"
    using False few by (simp_all add: hook_endTool_def Let_def hook_tools_def)
  have et: "tr_ToolOrder (endTool ?i at st ?t) = filter (\<lambda>c. c \<noteq> ?i) (tr_ToolOrder ?t)"
    "tr_ToolsDropped (endTool ?i at st ?t) = tr_ToolsDropped ?t"
    "tr_LastToolStartedAt (endTool ?i at st ?t) = tr_LastToolStartedAt ?t"
    "tr_HistoryIncomplete (endTool ?i at st ?t) = tr_HistoryIncomplete ?t"
    "tr_AttachedAt (endTool ?i at st ?t) = tr_AttachedAt ?t"
    using i a by (auto simp: endTool_def Let_def intro!: filter_True [symmetric])
  have "tr_Tools (endTool ?i at st ?t) = AList.delete ?i (tr_Tools ?t)"
  proof (cases "map_of (tr_Tools ?t) ?i")
    case None
    then have "?i \<notin> fst ` set (tr_Tools ?t)" by (simp add: map_of_eq_None_iff)
    then show ?thesis using None i by (simp add: endTool_def Let_def)
  next
    case (Some c)
    then show ?thesis using i by (simp add: endTool_def Let_def)
  qed
  then have al: "map fst (tr_Tools (endTool ?i at st ?t)) = tr_ToolOrder (endTool ?i at st ?t)"
    using assms(1) et(1) by (simp add: map_fst_delete tools_of_def Let_def)
  have "length (tr_Tools (endTool ?i at st ?t)) \<le> length (tr_ToolOrder ?t)"
    using al et(1) length_filter_le [of "\<lambda>c. c \<noteq> ?i" "tr_ToolOrder ?t"] by (metis length_map)
  moreover have "length (tr_ToolOrder ?t) \<le> length rs" using assms(1) by (metis length_map tools_of_def)
  ultimately show ?thesis using assms(1,3) i e t et al
    by (auto simp: tools_of_def Let_def ids_snoc last_start_snoc)
qed

lemma apply_tools:
  assumes "tools_of rs h" and "length rs < 256"
  shows "tools_of (rs @ [r]) (hook_apply r h)"
proof -
  let ?h = "note_hook (event_of r) h"
  have h: "tools_of rs ?h" using assms(1) by (simp add: tools_of_def note_hook_def hook_tools_def)
  consider "starts_tool r" | "ends_tool r" | "\<not> starts_tool r" "\<not> ends_tool r" by blast
  then show ?thesis
  proof cases
    case 1
    then show ?thesis using start_tools [OF h assms(2) 1]
      by (auto simp: hook_apply_def applyTool_def Let_def starts_tool_def)
  next
    case 2
    then show ?thesis using end_tools [OF h assms(2) 2]
      by (auto simp: hook_apply_def applyTool_def Let_def ends_tool_def)
  next
    case 3
    then have "applyTool r (hk_ObservedAt r) ?h = ?h"
      by (auto simp: applyTool_def Let_def starts_tool_def ends_tool_def)
    then show ?thesis using h 3 by (auto simp: hook_apply_def tools_of_def Let_def ids_snoc last_start_snoc)
  qed
qed

definition end_status :: "hook_record \<Rightarrow> string" where
  "end_status r = (if hk_Event r = ''PostToolUse'' then ''result''
     else if hk_Event r = ''PostToolUseFailure'' \<and> hk_IsInterrupt r \<noteq> Some True then ''error'' else ''cancelled'')"

lemma hook_apply_end:
  "ends_tool r \<Longrightarrow> hook_apply r h = hook_endTool (hk_ToolUseID r) (hk_ObservedAt r) (end_status r) (note_hook (event_of r) h)"
  by (auto simp: hook_apply_def applyTool_def ends_tool_def end_status_def Let_def)

text \<open>How the last call ended: the end with the greatest observed time, then by status and id, as
  long as no call has two ends.  And the entries of the open calls carry their own ids.\<close>

definition end_key :: "hook_record \<Rightarrow> int \<times> string" where
  "end_key r = (hk_ObservedAt r, end_status r @ CHR 0x00 # hk_ToolUseID r)"

definition one_end_each :: "hook_record list \<Rightarrow> bool" where
  "one_end_each rs \<longleftrightarrow> distinct (map hk_ToolUseID (filter ends_tool rs))"

definition last_end :: "hook_record list \<Rightarrow> int \<times> string" where
  "last_end rs = foldl max (0, []) (map end_key (filter ends_tool rs))"

definition ends_of :: "hook_record list \<Rightarrow> hook_tracker \<Rightarrow> bool" where
  "ends_of rs h \<longleftrightarrow> (let t = hook_tools h in
     (\<forall>(i, c) \<in> set (tr_Tools t). ot_ID c = i)
     \<and> (one_end_each rs \<longrightarrow> (tr_LastToolEndedAt t, ht_LastEndKey h) = last_end rs
          \<and> tr_LastToolEndStatus t = takeWhile (\<lambda>c. c \<noteq> CHR 0x00) (ht_LastEndKey h)))"

lemma status_of_key: "takeWhile (\<lambda>c. c \<noteq> CHR 0x00) (end_status r @ CHR 0x00 # i) = end_status r"
  by (simp add: end_status_def)

lemma own_entries:
  "\<forall>(i, c) \<in> set (tr_Tools t). ot_ID c = i \<Longrightarrow> \<forall>(i, c) \<in> set (tr_Tools (startTool j name at t)). ot_ID c = i"
  "\<forall>(i, c) \<in> set (tr_Tools t). ot_ID c = i \<Longrightarrow> \<forall>(i, c) \<in> set (tr_Tools (endTool j at st t)). ot_ID c = i"
  by (auto simp: startTool_def endTool_def Let_def AList.delete_eq update_absent)

lemma start_ends:
  assumes "ends_of rs h" and "starts_tool r"
  shows "ends_of (rs @ [r]) (hook_startTool i name at h)"
proof -
  have "one_end_each (rs @ [r]) = one_end_each rs" "last_end (rs @ [r]) = last_end rs"
    using assms(2) by (auto simp: one_end_each_def last_end_def starts_tool_def ends_tool_def)
  moreover have "ht_LastEndKey (hook_startTool i name at h) = ht_LastEndKey h"
    "tr_LastToolEndedAt (hook_tools (hook_startTool i name at h)) = tr_LastToolEndedAt (hook_tools h)"
    "tr_LastToolEndStatus (hook_tools (hook_startTool i name at h)) = tr_LastToolEndStatus (hook_tools h)"
    by (simp_all add: hook_startTool_def hook_tools_def startTool_def Let_def)
  moreover have "\<forall>(i, c) \<in> set (tr_Tools (hook_tools (hook_startTool i name at h))). ot_ID c = i"
    using assms(1) own_entries(1) [of "hook_tools h" i name at]
    by (simp add: ends_of_def Let_def hook_startTool_def hook_tools_def)
  ultimately show ?thesis using assms(1) by (simp add: ends_of_def Let_def)
qed

lemma end_ends:
  assumes "ends_of rs h" and "tools_of rs h" and "length rs < 256" and "ends_tool r"
  shows "ends_of (rs @ [r]) (hook_endTool (hk_ToolUseID r) (hk_ObservedAt r) (end_status r) h)"
proof -
  let ?i = "hk_ToolUseID r" and ?t = "hook_tools h" and ?at = "hk_ObservedAt r" and ?st = "end_status r"
  let ?h = "hook_endTool ?i ?at ?st h" and ?k = "end_status r @ CHR 0x00 # hk_ToolUseID r"
  have few: "length (ht_EndedOrder h) < maxHookEndedIDs" and ended: "set (ht_Ended h) = ended_ids rs"
    using assms(2,3) by (simp_all add: tools_of_def Let_def maxHookEndedIDs_def)
  have i: "?i \<noteq> []" using assms(4) by (simp add: ends_tool_def)
  have own: "\<forall>(i, c) \<in> set (tr_Tools (hook_tools ?h)). ot_ID c = i"
    using assms(1) own_entries(2) [of ?t ?i ?at ?st] few
    by (simp add: ends_of_def Let_def hook_endTool_def hook_tools_def)
  have "(tr_LastToolEndedAt (hook_tools ?h), ht_LastEndKey ?h) = last_end (rs @ [r])
      \<and> tr_LastToolEndStatus (hook_tools ?h) = takeWhile (\<lambda>c. c \<noteq> CHR 0x00) (ht_LastEndKey ?h)"
    if one: "one_end_each (rs @ [r])"
  proof -
    have fresh: "?i \<notin> set (ht_Ended h)" "one_end_each rs"
      using one assms(4) ended by (auto simp: one_end_each_def ended_ids_def)
    have now: "(tr_LastToolEndedAt ?t, ht_LastEndKey h) = last_end rs"
      "tr_LastToolEndStatus ?t = takeWhile (\<lambda>c. c \<noteq> CHR 0x00) (ht_LastEndKey h)"
      using assms(1) fresh(2) by (simp_all add: ends_of_def Let_def)
    have last: "last_end (rs @ [r]) = max (last_end rs) (?at, ?k)"
      using assms(4) by (simp add: last_end_def end_key_def)
    have e: "tr_LastToolEndStatus (endTool ?i at st t) = st" "tr_LastToolEndedAt (endTool ?i at st t) = max (tr_LastToolEndedAt t) at"
      for at st t using i by (simp_all add: endTool_def Let_def)
    show ?thesis
    proof (cases "last_end rs < (?at, ?k)")
      case True
      then have n: "?at > tr_LastToolEndedAt ?t \<or> (?at = tr_LastToolEndedAt ?t \<and> ?k > ht_LastEndKey h)"
        unfolding now(1) [symmetric] by auto
      have "ht_LastEndKey ?h = ?k" "tr_LastToolEndedAt (hook_tools ?h) = ?at" "tr_LastToolEndStatus (hook_tools ?h) = ?st"
        using n fresh(1) few e by (auto simp: hook_endTool_def hook_tools_def Let_def)
      then show ?thesis unfolding last max_absorb2 [OF less_imp_le [OF True]] using status_of_key by simp
    next
      case False
      then have n: "\<not> (?at > tr_LastToolEndedAt ?t \<or> (?at = tr_LastToolEndedAt ?t \<and> ?k > ht_LastEndKey h))"
        unfolding now(1) [symmetric] by auto
      have "ht_LastEndKey ?h = ht_LastEndKey h" "tr_LastToolEndedAt (hook_tools ?h) = tr_LastToolEndedAt ?t"
        "tr_LastToolEndStatus (hook_tools ?h) = tr_LastToolEndStatus ?t"
        using n fresh(1) few e by (auto simp: hook_endTool_def hook_tools_def Let_def)
      then show ?thesis unfolding last max_absorb1 [OF leI [OF False]] using now by simp
    qed
  qed
  then show ?thesis using own by (simp add: ends_of_def Let_def)
qed

lemma apply_ends:
  assumes "ends_of rs h" and "tools_of rs h" and "length rs < 256"
  shows "ends_of (rs @ [r]) (hook_apply r h)"
proof -
  let ?h = "note_hook (event_of r) h"
  have h: "ends_of rs ?h" "tools_of rs ?h"
    using assms(1,2) by (simp_all add: ends_of_def tools_of_def note_hook_def hook_tools_def)
  consider "starts_tool r" | "ends_tool r" | "\<not> starts_tool r" "\<not> ends_tool r" by blast
  then show ?thesis
  proof cases
    case 1
    then show ?thesis using start_ends [OF h(1) 1]
      by (auto simp: hook_apply_def applyTool_def Let_def starts_tool_def)
  next
    case 2
    then show ?thesis using end_ends [OF h assms(3) 2] by (simp add: hook_apply_end)
  next
    case 3
    then have "applyTool r (hk_ObservedAt r) ?h = ?h"
      by (auto simp: applyTool_def Let_def starts_tool_def ends_tool_def)
    then show ?thesis using h(1) 3
      by (simp add: hook_apply_def ends_of_def Let_def one_end_each_def last_end_def)
  qed
qed

section \<open>Which records are applied\<close>

definition known :: "string \<Rightarrow> hook_record list \<Rightarrow> hook_record \<Rightarrow> bool" where
  "known expected rs r \<longleftrightarrow> hk_ConversationID r = expected
     \<or> (\<exists>s \<in> set rs. hk_Event s = ''SessionStart'' \<and> hk_ConversationID s = hk_ConversationID r)"

definition applied :: "hook_record list \<Rightarrow> hook_tracker \<Rightarrow> bool" where
  "applied xs h \<longleftrightarrow> events_of xs h \<and> tools_of xs h \<and> ends_of xs h"

lemma apply_applied: "applied xs h \<Longrightarrow> length xs < 256 \<Longrightarrow> applied (xs @ [r]) (hook_apply r h)"
  by (simp add: applied_def apply_events apply_tools apply_ends)

lemma applies_applied:
  "applied xs h \<Longrightarrow> length xs + length rs \<le> 256 \<Longrightarrow> applied (xs @ rs) (foldl (\<lambda>h c. hook_apply c h) h rs)"
proof (induction rs arbitrary: xs h)
  case (Cons r rs)
  then show ?case using Cons.IH [of "xs @ [r]"] apply_applied by simp
qed simp

lemma applies_rest: "rest_part (foldl (\<lambda>h c. hook_apply c h) h rs) = rest_part h"
  by (induction rs arbitrary: h) (simp_all add: hook_apply_rest)


definition taken :: "string \<Rightarrow> hook_record list \<Rightarrow> hook_tracker \<Rightarrow> bool" where
  "taken expected rs h \<longleftrightarrow> ht_Expected h = expected
     \<and> set (ht_Confirmed h) = hk_ConversationID ` {s \<in> set rs. hk_Event s = ''SessionStart''}
     \<and> ht_Pending h = filter (\<lambda>r. \<not> known expected rs r) rs
     \<and> (\<exists>xs. mset xs = mset (filter (known expected rs) rs) \<and> applied xs h)"

lemma known_snoc:
  "known expected (rs @ [r]) x \<longleftrightarrow>
     known expected rs x \<or> (hk_Event r = ''SessionStart'' \<and> hk_ConversationID r = hk_ConversationID x)"
  by (auto simp: known_def)

lemma confirmed_known: "taken expected rs h \<Longrightarrow> isConfirmed h (hk_ConversationID r) \<longleftrightarrow> known expected rs r"
proof -
  assume t: "taken expected rs h"
  have "set (ht_Confirmed h) = hk_ConversationID ` {s \<in> set rs. hk_Event s = ''SessionStart''}" "ht_Expected h = expected"
    using t by (simp_all add: taken_def)
  then show ?thesis unfolding isConfirmed_def known_def by (auto simp: image_iff eq_commute)
qed

lemma takenI:
  "ht_Expected h = expected \<Longrightarrow> set (ht_Confirmed h) = hk_ConversationID ` {s \<in> set rs. hk_Event s = ''SessionStart''} \<Longrightarrow>
   ht_Pending h = filter (\<lambda>r. \<not> known expected rs r) rs \<Longrightarrow> mset xs = mset (filter (known expected rs) rs) \<Longrightarrow>
   applied xs h \<Longrightarrow> taken expected rs h"
  unfolding taken_def by blast

lemma mset_filter_disj:
  "mset (filter (\<lambda>x. P x \<or> Q x) xs) = mset (filter P xs) + mset (filter (\<lambda>x. \<not> P x \<and> Q x) xs)"
  by (induction xs) auto

lemma applied_frame: "applied xs h \<Longrightarrow> applied xs (h\<lparr>ht_Receiving := a, ht_Confirmed := b, ht_Pending := c\<rparr>)"
  by (simp add: applied_def events_of_def tools_of_def ends_of_def hook_tools_def)

lemma length_known: "mset xs = mset (filter P rs) \<Longrightarrow> length xs + length (filter (\<lambda>x. \<not> P x) rs) = length rs"
  using sum_length_filter_compl [of P rs] by (metis size_mset)

lemma start_gaps: "ht_Gaps (hook_startTool i name at h) = ht_Gaps h"
  by (simp add: hook_startTool_def Let_def)

lemma end_gaps: "length (ht_EndedOrder h) < maxHookEndedIDs \<Longrightarrow> ht_Gaps (hook_endTool i at st h) = ht_Gaps h"
  by (simp add: hook_endTool_def Let_def)

lemma note_gaps: "ht_Gaps (note_hook e h) = ht_Gaps h" "ht_EndedOrder (note_hook e h) = ht_EndedOrder h"
  by (simp_all add: note_hook_def)

lemma apply_gaps:
  assumes "tools_of rs h" and "length rs < 256"
  shows "ht_Gaps (hook_apply r h) = ht_Gaps h"
proof -
  have "length (ht_EndedOrder h) < maxHookEndedIDs"
    using assms by (simp add: tools_of_def Let_def maxHookEndedIDs_def)
  then have "ht_Gaps (applyTool r at (note_hook e h)) = ht_Gaps h" for at e
    unfolding applyTool_def Let_def by (simp add: start_gaps end_gaps note_gaps)
  then show ?thesis by (simp add: hook_apply_def)
qed

lemma applies_gaps:
  "tools_of xs h \<Longrightarrow> length xs + length rs \<le> 256 \<Longrightarrow> ht_Gaps (foldl (\<lambda>h c. hook_apply c h) h rs) = ht_Gaps h"
proof (induction rs arbitrary: xs h)
  case (Cons r rs)
  then show ?case using Cons.IH [of "xs @ [r]" "hook_apply r h"] apply_tools apply_gaps by simp
qed simp

lemma take_start:
  assumes "taken expected rs h" and "length rs < 256" and "hk_Event r = ''SessionStart''"
  shows "taken expected (rs @ [r]) (take_record r h) \<and> ht_Gaps (take_record r h) = ht_Gaps h
    \<and> rest_part (take_record r h) = (ht_Applicable h, ht_Launch h, expected,
        List.insert (hk_ConversationID r) (ht_Confirmed h), filter (\<lambda>x. \<not> known expected (rs @ [r]) x) (rs @ [r]),
        True, ht_Foreign h, ht_Malformed h)"
proof -
  obtain xs where xs: "mset xs = mset (filter (known expected rs) rs)" "applied xs h" using assms(1) by (auto simp: taken_def)
  let ?same = "\<lambda>c. hk_ConversationID c = hk_ConversationID r"
  have pend: "ht_Pending h = filter (\<lambda>x. \<not> known expected rs x) rs" using assms(1) by (simp add: taken_def)
  let ?ready = "filter ?same (ht_Pending h)"
  let ?h1 = "h\<lparr>ht_Receiving := True, ht_Confirmed := List.insert (hk_ConversationID r) (ht_Confirmed h),
      ht_Pending := filter (\<lambda>c. \<not> ?same c) (ht_Pending h)\<rparr>"
  let ?h2 = "foldl (\<lambda>h c. hook_apply c h) ?h1 ?ready"
  have len: "length xs + length ?ready \<le> length rs"
    using length_known [OF xs(1)] pend length_filter_le [of ?same "ht_Pending h"] by simp
  have a1: "applied xs ?h1" using applied_frame [OF xs(2)] by simp
  have a2: "applied (xs @ ?ready) ?h2" using applies_applied [OF a1] len assms(2) by simp
  have rest: "rest_part ?h2 = rest_part ?h1" by (rule applies_rest)
  have conf: "isConfirmed ?h2 (hk_ConversationID r)" using rest by (simp add: rest_part_def isConfirmed_def)
  have res: "take_record r h = hook_apply r ?h2"
    using conf assms(3) by (simp add: take_record_def hook_confirm_def Let_def)
  have A: "applied ((xs @ ?ready) @ [r]) (hook_apply r ?h2)" using apply_applied [OF a2] len assms(2) by simp
  have M: "mset ((xs @ ?ready) @ [r]) = mset (filter (known expected (rs @ [r])) (rs @ [r]))"
  proof -
    have "filter (known expected (rs @ [r])) rs = filter (\<lambda>x. known expected rs x \<or> ?same x) rs"
      by (rule filter_cong) (auto simp: known_snoc assms(3))
    moreover have "known expected (rs @ [r]) r" by (simp add: known_snoc assms(3))
    moreover have "mset ?ready = mset (filter (\<lambda>x. \<not> known expected rs x \<and> ?same x) rs)"
      using pend by (simp add: conj_commute)
    ultimately show ?thesis using xs(1) mset_filter_disj [of "known expected rs" ?same rs] by simp
  qed
  have keep: "filter (\<lambda>c. \<not> ?same c) (ht_Pending h) = filter (\<lambda>x. \<not> known expected (rs @ [r]) x) (rs @ [r])"
  proof -
    have "known expected (rs @ [r]) r" by (simp add: known_snoc assms(3))
    moreover have "filter (\<lambda>x. \<not> known expected (rs @ [r]) x) rs = filter (\<lambda>x. \<not> ?same x \<and> \<not> known expected rs x) rs"
      by (rule filter_cong) (auto simp: known_snoc assms(3))
    ultimately show ?thesis using pend by (simp add: conj_commute)
  qed
  have r: "rest_part (hook_apply r ?h2) = (ht_Applicable h, ht_Launch h, expected,
      List.insert (hk_ConversationID r) (ht_Confirmed h), filter (\<lambda>x. \<not> known expected (rs @ [r]) x) (rs @ [r]),
      True, ht_Foreign h, ht_Malformed h)"
    using rest hook_apply_rest assms(1) unfolding keep [symmetric] by (simp add: rest_part_def taken_def)
  have S: "set (List.insert (hk_ConversationID r) (ht_Confirmed h))
      = hk_ConversationID ` {s \<in> set (rs @ [r]). hk_Event s = ''SessionStart''}"
    using assms(1,3) by (auto simp: taken_def)
  have G: "ht_Gaps (hook_apply r ?h2) = ht_Gaps h"
    using apply_gaps [of "xs @ ?ready" ?h2 r] applies_gaps [of xs ?h1 ?ready] a1 a2 len assms(2) by (simp add: applied_def)
  have F: "ht_Expected (hook_apply r ?h2) = expected"
    "ht_Confirmed (hook_apply r ?h2) = List.insert (hk_ConversationID r) (ht_Confirmed h)"
    "ht_Pending (hook_apply r ?h2) = filter (\<lambda>x. \<not> known expected (rs @ [r]) x) (rs @ [r])"
    using r unfolding rest_part_def by (simp_all only: prod.inject)
  have "taken expected (rs @ [r]) (hook_apply r ?h2)"
    by (rule takenI [OF F(1) _ F(3) M A]) (simp only: F(2) S)
  then show ?thesis unfolding res using r G by blast
qed

lemma take_other:
  assumes "taken expected rs h" and "length rs < 256" and "hk_Event r \<noteq> ''SessionStart''"
  shows "taken expected (rs @ [r]) (take_record r h) \<and> ht_Gaps (take_record r h) = ht_Gaps h
    \<and> rest_part (take_record r h) = (ht_Applicable h, ht_Launch h, expected, ht_Confirmed h,
        filter (\<lambda>x. \<not> known expected (rs @ [r]) x) (rs @ [r]), True, ht_Foreign h, ht_Malformed h)"
proof -
  obtain xs where xs: "mset xs = mset (filter (known expected rs) rs)" "applied xs h" using assms(1) by (auto simp: taken_def)
  let ?h1 = "h\<lparr>ht_Receiving := True\<rparr>"
  have kn: "known expected (rs @ [r]) x = known expected rs x" for x by (simp add: known_snoc assms(3))
  have pend: "ht_Pending h = filter (\<lambda>x. \<not> known expected rs x) rs" using assms(1) by (simp add: taken_def)
  have len: "length xs + length (ht_Pending h) = length rs" using length_known [OF xs(1)] pend by simp
  have a1: "applied xs ?h1" using applied_frame [OF xs(2), where a = True and b = "ht_Confirmed h" and c = "ht_Pending h"] by simp
  have conf: "isConfirmed ?h1 (hk_ConversationID r) = known expected rs r"
    using confirmed_known [OF assms(1)] by (simp add: isConfirmed_def)
  have set_eq: "{s \<in> set (rs @ [r]). hk_Event s = ''SessionStart''} = {s \<in> set rs. hk_Event s = ''SessionStart''}"
    using assms(3) by auto
  show ?thesis
  proof (cases "known expected rs r")
    case True
    then have res: "take_record r h = hook_apply r ?h1" using conf assms(3) by (simp add: take_record_def Let_def)
    have A: "applied (xs @ [r]) (hook_apply r ?h1)" using apply_applied [OF a1] len assms(2) by simp
    have M: "mset (xs @ [r]) = mset (filter (known expected (rs @ [r])) (rs @ [r]))" using xs(1) True by (simp add: kn)
    have e: "rest_part (hook_apply r ?h1) = (ht_Applicable h, ht_Launch h, expected, ht_Confirmed h,
        filter (\<lambda>x. \<not> known expected (rs @ [r]) x) (rs @ [r]), True, ht_Foreign h, ht_Malformed h)"
      using hook_apply_rest [of r ?h1] assms(1) True by (simp add: rest_part_def taken_def kn)
    have F: "ht_Expected (hook_apply r ?h1) = expected" "ht_Confirmed (hook_apply r ?h1) = ht_Confirmed h"
      "ht_Pending (hook_apply r ?h1) = filter (\<lambda>x. \<not> known expected (rs @ [r]) x) (rs @ [r])"
      using e unfolding rest_part_def by (simp_all only: prod.inject)
    have S: "set (ht_Confirmed h) = hk_ConversationID ` {s \<in> set (rs @ [r]). hk_Event s = ''SessionStart''}"
      using assms(1) unfolding set_eq by (simp add: taken_def)
    have G: "ht_Gaps (hook_apply r ?h1) = ht_Gaps h"
      using apply_gaps [of xs ?h1 r] a1 len assms(2) by (simp add: applied_def)
    have "taken expected (rs @ [r]) (hook_apply r ?h1)"
      by (rule takenI [OF F(1) _ F(3) M A]) (simp only: F(2) S)
    then show ?thesis unfolding res using e G by blast
  next
    case False
    have "length (ht_Pending h) < maxHookPending" using len assms(2) by (simp add: maxHookPending_def)
    then have res: "take_record r h = h\<lparr>ht_Receiving := True, ht_Pending := ht_Pending h @ [r]\<rparr>"
      using False conf assms(3) by (simp add: take_record_def hook_hold_def Let_def)
    have "applied xs (take_record r h)"
      unfolding res using applied_frame [OF xs(2), where a = True and b = "ht_Confirmed h" and c = "ht_Pending h @ [r]"] by simp
    moreover have "set (ht_Confirmed h) = hk_ConversationID ` {s \<in> set (rs @ [r]). hk_Event s = ''SessionStart''}"
      using assms(1) unfolding set_eq by (simp add: taken_def)
    moreover have "ht_Expected h = expected" using assms(1) by (simp add: taken_def)
    ultimately show ?thesis using False xs(1) pend takenI [of "take_record r h" expected "rs @ [r]" xs]
      unfolding res by (simp add: rest_part_def kn)
  qed
qed


lemma take_step:
  assumes "taken expected rs h" and "length rs < 256"
  shows "taken expected (rs @ [r]) (take_record r h)" "ht_Gaps (take_record r h) = ht_Gaps h"
    "ht_Applicable (take_record r h) = ht_Applicable h" "ht_Launch (take_record r h) = ht_Launch h"
    "ht_Receiving (take_record r h)" "ht_Foreign (take_record r h) = ht_Foreign h"
    "ht_Malformed (take_record r h) = ht_Malformed h"
  by (cases "hk_Event r = ''SessionStart''";
      use take_start [OF assms, of r] take_other [OF assms, of r] in \<open>simp add: rest_part_def\<close>)+

section \<open>Lines\<close>

text \<open>What a line is to a launch.\<close>

definition own_record :: "string \<Rightarrow> (byte list \<Rightarrow> json option) \<Rightarrow> byte list \<Rightarrow> hook_record option" where
  "own_record launch parse line = (case ParseLine parse line of None \<Rightarrow> None
     | Some r \<Rightarrow> if hk_Launch r = launch \<and> hk_Event r \<noteq> [] \<and> hk_ConversationID r \<noteq> [] then Some r else None)"

definition own_records :: "string \<Rightarrow> (byte list \<Rightarrow> json option) \<Rightarrow> byte list list \<Rightarrow> hook_record list" where
  "own_records launch parse lines = List.map_filter (own_record launch parse) lines"

definition foreign_line :: "string \<Rightarrow> (byte list \<Rightarrow> json option) \<Rightarrow> byte list \<Rightarrow> bool" where
  "foreign_line launch parse line = (case ParseLine parse line of None \<Rightarrow> False | Some r \<Rightarrow> hk_Launch r \<noteq> launch)"

definition bad_line :: "string \<Rightarrow> (byte list \<Rightarrow> json option) \<Rightarrow> byte list \<Rightarrow> bool" where
  "bad_line launch parse line = (case ParseLine parse line of None \<Rightarrow> True
     | Some r \<Rightarrow> hk_Launch r = launch \<and> (hk_Event r = [] \<or> hk_ConversationID r = []))"

definition gaps_of :: "string \<Rightarrow> (byte list \<Rightarrow> json option) \<Rightarrow> byte list \<Rightarrow> string set" where
  "gaps_of launch parse line = (case ParseLine parse line of None \<Rightarrow> {''malformed-record''}
     | Some r \<Rightarrow> if hk_Launch r = launch \<and> hk_Gap r \<noteq> [] then {hk_Gap r} else {})"

definition observe_lines :: "(byte list \<Rightarrow> json option) \<Rightarrow> byte list list \<Rightarrow> hook_tracker \<Rightarrow> hook_tracker" where
  "observe_lines parse lines h = foldl (\<lambda>h l. observeLine parse l h) h lines"

definition lines_of :: "string \<Rightarrow> string \<Rightarrow> (byte list \<Rightarrow> json option) \<Rightarrow> byte list list \<Rightarrow> hook_tracker \<Rightarrow> bool" where
  "lines_of launch expected parse ls h \<longleftrightarrow> ht_Applicable h \<and> ht_Launch h = launch
     \<and> ht_Foreign h = length (filter (foreign_line launch parse) ls)
     \<and> ht_Malformed h = length (filter (bad_line launch parse) ls)
     \<and> (ht_Receiving h \<longleftrightarrow> own_records launch parse ls \<noteq> [])
     \<and> set (ht_Gaps h) = (\<Union>l \<in> set ls. gaps_of launch parse l) \<and> distinct (ht_Gaps h)
     \<and> taken expected (own_records launch parse ls) h"

lemma taken_frame: "taken expected rs h \<Longrightarrow> taken expected rs (h\<lparr>ht_Malformed := a, ht_Foreign := b, ht_Gaps := c\<rparr>)"
  by (simp add: taken_def applied_def events_of_def tools_of_def ends_of_def hook_tools_def)

lemma own_records_snoc:
  "own_records launch parse (ls @ [l]) = own_records launch parse ls
     @ (case own_record launch parse l of None \<Rightarrow> [] | Some r \<Rightarrow> [r])"
  by (simp add: own_records_def List.map_filter_def split: option.split)

lemma length_own: "length (own_records launch parse ls) \<le> length ls"
  by (simp add: own_records_def List.map_filter_def)

lemma line_step:
  assumes "lines_of launch expected parse ls h" and "launch \<noteq> []" and "length ls < 256"
  shows "lines_of launch expected parse (ls @ [l]) (observeLine parse l h)"
proof -
  have t: "taken expected (own_records launch parse ls) h" and lp: "ht_Applicable h" "ht_Launch h = launch"
    using assms(1) by (simp_all add: lines_of_def)
  have few: "length (own_records launch parse ls) < 256" using length_own [of launch parse ls] assms(3) by simp
  show ?thesis
  proof (cases "ParseLine parse l")
    case None
    let ?h = "h\<lparr>ht_Malformed := ht_Malformed h + 1, ht_Gaps := List.insert ''malformed-record'' (ht_Gaps h)\<rparr>"
    have "observeLine parse l h = ?h" using None lp assms(2) by (simp add: observeLine_def markGap_def)
    moreover have "taken expected (own_records launch parse ls) ?h"
      using taken_frame [OF t, where a = "ht_Malformed h + 1" and b = "ht_Foreign h" and c = "ht_Gaps ?h"] by simp
    ultimately show ?thesis using assms(1) None
      by (simp add: lines_of_def own_records_snoc own_record_def foreign_line_def bad_line_def gaps_of_def)
  next
    case (Some r)
    show ?thesis
    proof (cases "hk_Launch r = launch")
      case False
      let ?h = "h\<lparr>ht_Foreign := ht_Foreign h + 1\<rparr>"
      have "observeLine parse l h = ?h" using Some False lp assms(2) by (simp add: observeLine_def)
      moreover have "taken expected (own_records launch parse ls) ?h"
        using taken_frame [OF t, where a = "ht_Malformed h" and b = "ht_Foreign h + 1" and c = "ht_Gaps h"] by simp
      ultimately show ?thesis using assms(1) Some False
        by (simp add: lines_of_def own_records_snoc own_record_def foreign_line_def bad_line_def gaps_of_def)
    next
      case True
      let ?g = "if hk_Gap r \<noteq> [] then List.insert (hk_Gap r) (ht_Gaps h) else ht_Gaps h"
      let ?h = "h\<lparr>ht_Gaps := ?g\<rparr>"
      have g: "(if hk_Gap r \<noteq> [] then markGap (hk_Gap r) h else h) = ?h" using lp by (simp add: markGap_def)
      have th: "taken expected (own_records launch parse ls) ?h"
        using taken_frame [OF t, where a = "ht_Malformed h" and b = "ht_Foreign h" and c = ?g] by simp
      show ?thesis
      proof (cases "hk_Event r = [] \<or> hk_ConversationID r = []")
        case e: True
        let ?h2 = "h\<lparr>ht_Malformed := ht_Malformed h + 1, ht_Gaps := ?g\<rparr>"
        have "observeLine parse l h = ?h2" using Some True lp assms(2) e g by (simp add: observeLine_def)
        moreover have "taken expected (own_records launch parse ls) ?h2"
          using taken_frame [OF t, where a = "ht_Malformed h + 1" and b = "ht_Foreign h" and c = ?g]
          by (cases "hk_Gap r = []") simp_all
        ultimately show ?thesis using assms(1) Some True e
          by (auto simp: lines_of_def own_records_snoc own_record_def foreign_line_def bad_line_def gaps_of_def)
      next
        case e: False
        have "observeLine parse l h = take_record r ?h" using Some True lp assms(2) e g by (simp add: observeLine_def)
        moreover have "own_record launch parse l = Some r" using Some True e by (simp add: own_record_def)
        ultimately show ?thesis using assms(1) Some True e take_step [OF th few, of r]
          by (auto simp: lines_of_def own_records_snoc foreign_line_def bad_line_def gaps_of_def)
      qed
    qed
  qed
qed

lemma fresh_lines: "lines_of launch expected parse [] (hooks_of_launch launch expected)"
proof -
  have "applied [] (hooks_of_launch launch expected)"
    by (simp add: applied_def events_of_def tools_of_def ends_of_def last_end_def hooks_of_launch_def hook_tools_def no_tracker_def
        ended_ids_def started_ids_def last_start_def first_time_def Let_def)
  then have "taken expected [] (hooks_of_launch launch expected)"
    by (intro takenI [where xs = "[]"]) (simp_all add: hooks_of_launch_def)
  then show ?thesis by (simp add: lines_of_def own_records_def List.map_filter_def hooks_of_launch_def)
qed

lemma lines_observed:
  "launch \<noteq> [] \<Longrightarrow> length ls \<le> 256 \<Longrightarrow>
     lines_of launch expected parse ls (observe_lines parse ls (hooks_of_launch launch expected))"
proof (induction ls rule: rev_induct)
  case Nil
  then show ?case using fresh_lines by (simp add: observe_lines_def)
next
  case (snoc l ls)
  then show ?case using line_step by (simp add: observe_lines_def)
qed


section \<open>Facts that do not depend on the order of reading\<close>

lemma foldl_max: "foldl max (b :: 'a :: linorder) xs = Max (insert b (set xs))"
proof (induction xs rule: rev_induct)
  case (snoc x xs)
  have "Max (insert b (set (xs @ [x]))) = Max (insert x (insert b (set xs)))" by (simp add: insert_commute)
  also have "\<dots> = max x (Max (insert b (set xs)))" by (rule Max_insert) auto
  finally show ?case using snoc by (simp add: max.commute)
qed simp

lemma last_start_set: "set xs = set ys \<Longrightarrow> last_start xs = last_start ys"
  by (simp add: last_start_def foldl_max)

lemma first_time_Min:
  "xs \<noteq> [] \<Longrightarrow> \<forall>r \<in> set xs. 0 < hk_ObservedAt r \<Longrightarrow> first_time xs = Min (hk_ObservedAt ` set xs)"
proof (induction xs rule: rev_induct)
  case (snoc r xs)
  show ?case
  proof (cases "xs = []")
    case True
    then show ?thesis by (simp add: first_time_def)
  next
    case False
    then have m: "first_time xs = Min (hk_ObservedAt ` set xs)" using snoc by simp
    have "Min (hk_ObservedAt ` set xs) \<in> hk_ObservedAt ` set xs" using False by (intro Min_in) auto
    then have "0 < first_time xs" using m snoc.prems(2) by auto
    moreover have "Min (hk_ObservedAt ` set (xs @ [r])) = min (hk_ObservedAt r) (Min (hk_ObservedAt ` set xs))"
      using False by (simp add: Min_insert)
    ultimately show ?thesis using m by (auto simp: first_time_def min_def)
  qed
qed simp

lemma first_time_set:
  assumes "set xs = set ys" and "\<forall>r \<in> set xs. 0 < hk_ObservedAt r"
  shows "first_time xs = first_time ys"
proof (cases "xs = []")
  case True
  then show ?thesis using assms(1) by simp
next
  case False
  then have "ys \<noteq> []" using assms(1) by auto
  then show ?thesis using False first_time_Min assms by (metis (no_types, lifting))
qed

lemma events_agree:
  assumes "events_of xs h" and "events_of ys g" and "set xs = set ys"
    and "inj_on event_rank (event_of ` set xs)" and "\<forall>r \<in> set xs. 0 < hk_ObservedAt r"
  shows "ht_Last g = ht_Last h" "map_of (ht_Events g) = map_of (ht_Events h)" "ht_Current g = ht_Current h"
    "ht_FirstAt g = ht_FirstAt h"
proof -
  have n: "newest (filter P (map event_of ys)) = newest (filter P (map event_of xs))" for P
    by (rule newest_set) (use assms(3,4) in \<open>auto intro: inj_on_subset\<close>)
  have "newest (map event_of ys) = newest (map event_of xs)" using n [of "\<lambda>_. True"] by simp
  then show "ht_Last g = ht_Last h" using assms(1,2) by (simp add: events_of_def)
  show "map_of (ht_Events g) = map_of (ht_Events h)"
    using assms(1,2) n by (auto simp: events_of_def fun_eq_iff)
  show "ht_Current g = ht_Current h" using assms(1,2) n by (simp add: events_of_def)
  show "ht_FirstAt g = ht_FirstAt h" using assms(1,2) first_time_set [OF assms(3,5)] by (simp add: events_of_def)
qed

lemma tools_agree:
  assumes "tools_of xs h" and "tools_of ys g" and "set xs = set ys"
  shows "length (tr_Tools (hook_tools g)) = length (tr_Tools (hook_tools h))"
    "tr_LastToolStartedAt (hook_tools g) = tr_LastToolStartedAt (hook_tools h)"
proof -
  have "length (tr_Tools (hook_tools h)) = card (started_ids xs - ended_ids xs)"
    using assms(1) by (metis distinct_card length_map tools_of_def)
  moreover have "length (tr_Tools (hook_tools g)) = card (started_ids ys - ended_ids ys)"
    using assms(2) by (metis distinct_card length_map tools_of_def)
  moreover have "started_ids ys = started_ids xs" "ended_ids ys = ended_ids xs"
    using assms(3) by (simp_all add: started_ids_def ended_ids_def)
  ultimately show "length (tr_Tools (hook_tools g)) = length (tr_Tools (hook_tools h))" by simp
  show "tr_LastToolStartedAt (hook_tools g) = tr_LastToolStartedAt (hook_tools h)"
    using assms(1,2) last_start_set [OF assms(3)] by (simp add: tools_of_def Let_def)
qed

lemma last_end_mset: "mset xs = mset ys \<Longrightarrow> last_end xs = last_end ys"
  using mset_eq_setD [of xs ys] by (simp add: last_end_def foldl_max)

lemma one_end_each_mset: "mset xs = mset ys \<Longrightarrow> one_end_each xs = one_end_each ys"
  unfolding one_end_each_def by (rule mset_eq_imp_distinct_iff) simp

lemma one_end_each_filter: "one_end_each rs \<Longrightarrow> one_end_each (filter P rs)"
proof -
  assume "one_end_each rs"
  moreover have "filter ends_tool (filter P rs) = filter P (filter ends_tool rs)" by (simp add: conj_commute)
  ultimately show ?thesis unfolding one_end_each_def by (simp add: distinct_map_filter del: filter_filter)
qed

lemma ends_agree:
  assumes "ends_of xs h" and "ends_of ys g" and "mset xs = mset ys" and "one_end_each xs"
  shows "tr_LastToolEndedAt (hook_tools g) = tr_LastToolEndedAt (hook_tools h)
    \<and> tr_LastToolEndStatus (hook_tools g) = tr_LastToolEndStatus (hook_tools h)"
proof -
  have "one_end_each ys" using assms(3,4) one_end_each_mset by blast
  then have "(tr_LastToolEndedAt (hook_tools g), ht_LastEndKey g) = last_end ys"
    "tr_LastToolEndStatus (hook_tools g) = takeWhile (\<lambda>c. c \<noteq> CHR 0x00) (ht_LastEndKey g)"
    using assms(2) by (simp_all add: ends_of_def Let_def)
  moreover have "(tr_LastToolEndedAt (hook_tools h), ht_LastEndKey h) = last_end xs"
    "tr_LastToolEndStatus (hook_tools h) = takeWhile (\<lambda>c. c \<noteq> CHR 0x00) (ht_LastEndKey h)"
    using assms(1,4) by (simp_all add: ends_of_def Let_def)
  ultimately show ?thesis using last_end_mset [OF assms(3)] by (metis prod.inject)
qed

text \<open>The ids of the open calls a projection lists, when it lists them all.\<close>

definition open_ids :: "observed_tools \<Rightarrow> string set" where
  "open_ids t = ot_ID ` set (os_Open t)"

lemma listed_ids:
  assumes "tools_of xs h" and "ends_of xs h" and "length (tr_Tools (hook_tools h)) \<le> maxObservedOpenTools"
  shows "open_ids (toolsProjection ((hook_tools h)\<lparr>tr_FromStart := a, tr_FirstRecordAt := b\<rparr>)) = started_ids xs - ended_ids xs"
proof -
  let ?t = "hook_tools h"
  have o: "map fst (tr_Tools ?t) = tr_ToolOrder ?t" "set (tr_ToolOrder ?t) = started_ids xs - ended_ids xs"
    using assms(1) by (simp_all add: tools_of_def Let_def)
  have all: "take maxObservedOpenTools (tr_ToolOrder ?t) = tr_ToolOrder ?t"
    using assms(3) arg_cong [OF o(1), of length] by simp
  have own: "ot_ID (the (map_of (tr_Tools ?t) i)) = i" if "i \<in> set (tr_ToolOrder ?t)" for i
  proof -
    have "map_of (tr_Tools ?t) i \<noteq> None" using absent_iff [OF o(1), of i] that by simp
    then obtain c where c: "map_of (tr_Tools ?t) i = Some c" by blast
    have e: "\<forall>(i, c) \<in> set (tr_Tools ?t). ot_ID c = i" using assms(2) by (simp add: ends_of_def Let_def)
    show ?thesis using bspec [OF e map_of_SomeD [OF c]] c by simp
  qed
  have "os_Open (toolsProjection (?t\<lparr>tr_FromStart := a, tr_FirstRecordAt := b\<rparr>))
      = map (\<lambda>i. the (map_of (tr_Tools ?t) i)) (tr_ToolOrder ?t)"
    using all by (simp add: toolsProjection_def Let_def)
  then have "open_ids (toolsProjection (?t\<lparr>tr_FromStart := a, tr_FirstRecordAt := b\<rparr>))
      = (\<lambda>i. ot_ID (the (map_of (tr_Tools ?t) i))) ` set (tr_ToolOrder ?t)"
    by (simp add: open_ids_def image_image)
  also have "\<dots> = set (tr_ToolOrder ?t)" using own by (simp add: image_def)
  finally show ?thesis using o(2) by simp
qed

lemma own_records_mset:
  assumes "mset ls = mset ls'"
  shows "mset (own_records launch parse ls) = mset (own_records launch parse ls')"
  using assms by (simp add: own_records_def List.map_filter_def)

lemma own_record_positive: "r \<in> set (own_records launch parse ls) \<Longrightarrow> 0 < hk_ObservedAt r"
proof -
  assume "r \<in> set (own_records launch parse ls)"
  then obtain l where "own_record launch parse l = Some r"
    by (auto simp: own_records_def List.map_filter_def)
  then have "ParseLine parse l = Some r" by (auto simp: own_record_def split: option.splits if_splits)
  then show ?thesis by (simp add: ParseLine_def split: if_splits option.splits)
qed

lemma known_agree: "set rs = set rs' \<Longrightarrow> known expected rs = known expected rs'"
  unfolding known_def by simp

lemma lines_agree:
  assumes "lines_of launch expected parse ls h" and "lines_of launch expected parse ls' g" and "mset ls = mset ls'"
  shows "ht_Foreign g = ht_Foreign h" "ht_Malformed g = ht_Malformed h" "ht_Receiving g = ht_Receiving h"
    "sort (ht_Gaps g) = sort (ht_Gaps h)" "length (ht_Pending g) = length (ht_Pending h)"
    "ht_Expected g = ht_Expected h" "(ht_Gaps g = []) = (ht_Gaps h = [])"
proof -
  let ?own = "own_records launch parse"
  have m: "mset (?own ls') = mset (?own ls)" by (rule own_records_mset [OF assms(3) [symmetric]])
  have s: "set ls' = set ls" using assms(3) mset_eq_setD by metis
  have f: "length (filter P ls') = length (filter P ls)" for P
    using assms(3) by (metis mset_filter size_mset)
  show "ht_Foreign g = ht_Foreign h" "ht_Malformed g = ht_Malformed h" using assms(1,2) f by (simp_all add: lines_of_def)
  have "(?own ls' = []) = (?own ls = [])" using m by (metis mset_zero_iff)
  then show "ht_Receiving g = ht_Receiving h" using assms(1,2) by (simp add: lines_of_def)
  have gs: "set (ht_Gaps g) = set (ht_Gaps h)" "distinct (ht_Gaps g)" "distinct (ht_Gaps h)"
    using assms(1,2) s by (simp_all add: lines_of_def)
  then show "sort (ht_Gaps g) = sort (ht_Gaps h)" by (intro sorted_distinct_set_unique) simp_all
  show "(ht_Gaps g = []) = (ht_Gaps h = [])" using gs(1) by (metis set_empty)
  have k: "known expected (?own ls') = known expected (?own ls)" using known_agree m mset_eq_setD by metis
  have "length (filter P (?own ls')) = length (filter P (?own ls))" for P
    using m by (metis mset_filter size_mset)
  then show "length (ht_Pending g) = length (ht_Pending h)" using assms(1,2) k by (simp add: lines_of_def taken_def)
  show "ht_Expected g = ht_Expected h" using assms(1,2) by (simp add: lines_of_def taken_def)
qed

section \<open>Properties\<close>


text \<open>But how the last tool call ended does.  Of two ends of one call, the one read first decides the
  status and the time of the last end, even when the other one was observed later.\<close>

lemma hook_end_order:
  assumes "ends_tool r" and "ends_tool s" and "hk_ToolUseID s = hk_ToolUseID r" and "hk_ToolUseID r \<notin> set (ht_Ended h)"
    and "tr_LastToolEndedAt (hook_tools h) < hk_ObservedAt r" and "length (ht_EndedOrder h) < maxHookEndedIDs"
  shows "tr_LastToolEndStatus (hook_tools (hook_apply s (hook_apply r h))) = end_status r
    \<and> tr_LastToolEndedAt (hook_tools (hook_apply s (hook_apply r h))) = hk_ObservedAt r"
proof -
  let ?i = "hk_ToolUseID r" and ?h = "note_hook (event_of r) h"
  have n: "hook_tools (note_hook e g) = hook_tools g" "ht_Ended (note_hook e g) = ht_Ended g"
    "ht_EndedOrder (note_hook e g) = ht_EndedOrder g" for e g by (simp_all add: note_hook_def hook_tools_def)
  have i: "?i \<noteq> []" using assms(1) by (simp add: ends_tool_def)
  have e: "tr_LastToolEndStatus (endTool ?i at st t) = st" "tr_LastToolEndedAt (endTool ?i at st t) = max (tr_LastToolEndedAt t) at"
    for at st t using i by (simp_all add: endTool_def Let_def)
  have some: "hook_tools (g\<lparr>ht_Tools := Some t, ht_LastEndKey := k, ht_Ended := a, ht_EndedOrder := b\<rparr>) = t" for g t k a b
    by (simp add: hook_tools_def)
  have one: "?i \<in> set (ht_Ended (hook_apply r h))" "tr_LastToolEndStatus (hook_tools (hook_apply r h)) = end_status r"
    "tr_LastToolEndedAt (hook_tools (hook_apply r h)) = hk_ObservedAt r"
    using assms(4-6) e n some unfolding hook_apply_end [OF assms(1)] hook_endTool_def Let_def
    by simp_all
  then have "hook_tools (hook_apply s (hook_apply r h)) = hook_tools (hook_apply r h)"
    unfolding hook_apply_end [OF assms(2)] using assms(3) n by (simp add: hook_endTool_def)
  then show ?thesis using one by simp
qed

text \<open>Lines of one launch: a call that came to a result, another that failed later, and a third that has only
  been started.\<close>

definition sample_launch :: string where "sample_launch = replicate 32 CHR ''a''"

definition sample_tool :: "int \<Rightarrow> string \<Rightarrow> string \<Rightarrow> hook_record" where
  "sample_tool at event i = zero_hook\<lparr>hk_Version := 1, hk_Launch := sample_launch, hk_ObservedAt := at, hk_Event := event,
     hk_ConversationID := ''c'', hk_ToolUseID := i\<rparr>"

definition sample_end :: "int \<Rightarrow> string \<Rightarrow> hook_record" where
  "sample_end at event = sample_tool at event ''t''"

definition sample_json :: "hook_record \<Rightarrow> json" where
  "sample_json r = JObj [(''v'', JInt 1), (''launch'', JStr (hk_Launch r)), (''observed_at'', JInt (hk_ObservedAt r)),
     (''event'', JStr (hk_Event r)), (''session_id'', JStr (hk_ConversationID r)), (''tool_use_id'', JStr (hk_ToolUseID r))]"

definition sample_line :: "byte list \<Rightarrow> json option" where
  "sample_line line = map_option sample_json
     (if line = [1] then Some (sample_tool 10 ''PostToolUse'' ''t'')
      else if line = [2] then Some (sample_tool 20 ''PostToolUseFailure'' ''u'')
      else if line = [3] then Some (sample_tool 15 ''PreToolUse'' ''w'') else None)"

definition sample_sink :: "byte list list" where
  "sample_sink = map (\<lambda>b. [b]) [1, 2, 3]"

lemma sample_lines: "own_records sample_launch sample_line sample_sink
     = [sample_tool 10 ''PostToolUse'' ''t'', sample_tool 20 ''PostToolUseFailure'' ''u'', sample_tool 15 ''PreToolUse'' ''w'']"
  by code_simp

definition sample_tools :: "byte list list \<Rightarrow> observed_tools option" where
  "sample_tools ls = Option.bind (hook_project (observe_lines sample_line ls (hooks_of_launch sample_launch ''c''))) hv_Tools"

lemma sample_read: "map_option (\<lambda>t. (os_OpenCount t, map ot_ID (os_Open t), os_LastEndedAt t, os_LastEndStatus t)) (sample_tools sample_sink)
     = Some (1, [''w''], Some 20, Some ''error'')"
  by code_simp


lemma hook_end_order_witness:
  "tr_LastToolEndStatus (hook_tools (hook_apply (sample_end 20 ''PostToolUseFailure'')
       (hook_apply (sample_end 10 ''PostToolUse'') (hooks_of_launch sample_launch ''c'')))) = ''result''
   \<and> tr_LastToolEndStatus (hook_tools (hook_apply (sample_end 10 ''PostToolUse'')
       (hook_apply (sample_end 20 ''PostToolUseFailure'') (hooks_of_launch sample_launch ''c'')))) = ''error''"
  using hook_end_order [of "sample_end 10 ''PostToolUse''" "sample_end 20 ''PostToolUseFailure''" "hooks_of_launch sample_launch ''c''"]
    hook_end_order [of "sample_end 20 ''PostToolUseFailure''" "sample_end 10 ''PostToolUse''" "hooks_of_launch sample_launch ''c''"]
  by (simp add: sample_end_def sample_tool_def ends_tool_def end_status_def hooks_of_launch_def hook_tools_def no_tracker_def maxHookEndedIDs_def zero_hook_def)

end
