(* ===== verification/Session.thy ===== *)
theory Session
  imports Hook_Tracker Runner_Messages Event_Log Provider_Args
begin

text \<open>
  One session of the daemon: \<open>runtime/internal/state/session.go\<close>, \<open>structured.go\<close>,
  \<open>session_message.go\<close>, the clocks of \<open>message_principal.go\<close> and \<open>classifyTool\<close>/\<open>spawnControls\<close> of
  \<open>registry_runtime.go\<close>.  \<open>mu\<close> makes each operation below one step; \<open>now\<close> is its reading of the clock.
  What a call to the runner or the terminal mirror returns is an argument, and the mirror itself (a
  terminal emulator) is not part of the state.  The fields of \<open>SessionInfo\<close> that are only copied from the
  metadata are left out.
\<close>

section \<open>State\<close>

record approval_prompt =
  ap_ID :: string
  ap_Kind :: string
  ap_Summary :: string
  ap_Command :: string
  ap_Cwd :: string
  ap_Reason :: string
  ap_At :: int

text \<open>\<open>si_Retry\<close> is a Go pointer: the number tells two pointers apart.\<close>

record session_info =
  si_ID :: string
  si_Name :: string
  si_NameSource :: string
  si_Description :: string
  si_DescriptionSource :: string
  si_Tags :: "(string \<times> string) list"
  si_Kind :: string
  si_Cmd :: string
  si_Args :: "string list"
  si_Cols :: int
  si_Rows :: int
  si_CreatedAt :: int
  si_PID :: int
  si_RunnerProtocol :: int
  si_RunnerVersion :: string
  si_MessageSubmit :: bool
  si_Tool :: string
  si_Launching :: bool
  si_Working :: bool
  si_LastDataAt :: int
  si_LastDataUnknown :: bool
  si_LastUserMessageAt :: "int option"
  si_LastHumanMessageAt :: "int option"
  si_LastAgentMessageAt :: "int option"
  si_IdleReason :: string
  si_IdleDetail :: string
  si_IdleSince :: "int option"
  si_LastSummary :: string
  si_FailureKind :: string
  si_FailureDetail :: string
  si_FailureProvider :: string
  si_FailureEvidence :: string
  si_FailureAt :: int
  si_Retry :: "(nat \<times> provider_retry) option"
  si_PendingApproval :: "approval_prompt option"
  si_Exited :: bool
  si_ExitCode :: "int option"
  si_ExitSignal :: "string option"
  si_ExitReason :: string
  si_ExitedAt :: "int option"
  si_Unreachable :: bool
  si_UnreachableReason :: string
  si_UnreachableSince :: "int option"
  si_RunnerGone :: bool
  si_LostAtMS :: int
  si_ClaudeCustomTitle :: string
  si_ClaudeAITitle :: string
  si_Model :: string
  si_Effort :: string
  si_Fast :: bool
  si_ConversationID :: string
  si_DisplayParentSessionID :: "string option"
  si_SetAsideAt :: "int option"
  si_Pinned :: bool
  si_MemoryBytes :: "int option"
  si_CPUPercent :: "string option"
  si_ResourceProcesses :: "int option"
  si_ResourceSampledAt :: "int option"

record session_metadata =
  md_Name :: string
  md_NameSource :: string
  md_Description :: string
  md_DescriptionSource :: string
  md_Tags :: "(string \<times> string) list"
  md_Kind :: string
  md_DisplayParentSessionID :: "string option"
  md_SetAsideAt :: "int option"
  md_Pinned :: bool
  md_LastHumanMessageAt :: "int option"
  md_LastAgentMessageAt :: "int option"
  md_Adopted :: bool

record attachment =
  at_LastSeq :: "32 word"
  at_Replay :: replay_window
  at_ClaudeEvents :: "byte list list"
  at_ClaudeEventsCount :: int
  at_ClaudeReplayStart :: int

text \<open>
  \<open>ss_Streams\<close> are the subscriptions in the order of their ids; \<open>ss_Pump\<close> is whether the goroutine of
  \<open>start\<close> still reads the runner.  The last six fields are history: every output and record ever
  recorded, what each attachment was given, the event the session ended with, where the sequence stood when
  the session was built, and whether the runner has repeated or exhausted the numbers since.
\<close>

record session =
  ss_Info :: session_info
  ss_ObservedAt :: int
  ss_Observed :: tracker
  ss_Hooks :: hook_tracker
  ss_Outputs :: "output_msg list"
  ss_OutputSize :: int
  ss_NextSeq :: "32 word"
  ss_Claude :: "byte list list"
  ss_ClaudeBase :: int
  ss_Exit :: exit_event
  ss_Streams :: "runner_event stream list"
  ss_Pump :: bool
  ss_NextRetry :: nat
  ss_PersistedHumanAt :: int
  ss_PersistedAgentAt :: int
  ss_AllOutputs :: "output_msg list"
  ss_AllRecords :: "byte list list"
  ss_Given :: "attachment list"
  ss_Terminal :: "runner_event option"
  ss_Start :: "32 word"
  ss_Irregular :: bool

section \<open>Outputs\<close>

definition defaultEventLogBytes :: int where "defaultEventLogBytes = 4 * 1024 * 1024"

fun trim_outputs :: "int \<Rightarrow> output_msg list \<Rightarrow> output_msg list \<times> int" where
  "trim_outputs bytes (e # f # rest) =
     (if bytes > defaultEventLogBytes then trim_outputs (bytes - int (length (ou_Data e))) (f # rest)
      else (e # f # rest, bytes))"
| "trim_outputs bytes es = (es, bytes)"

definition appendOutputLocked :: "int \<Rightarrow> output_msg \<Rightarrow> session \<Rightarrow> session" where
  "appendOutputLocked now e s =
     (let e1 = (if ou_At e = 0 then e\<lparr>ou_At := now\<rparr> else e);
          (outputs, bytes) = trim_outputs (ss_OutputSize s + int (length (ou_Data e1))) (ss_Outputs s @ [e1])
      in s\<lparr>ss_Outputs := outputs, ss_OutputSize := bytes,
           ss_NextSeq := (if ou_Seq e1 \<ge> ss_NextSeq s then ou_Seq e1 + 1 else ss_NextSeq s),
           ss_AllOutputs := ss_AllOutputs s @ [e1],
           ss_Irregular := (ss_Irregular s \<or> ou_Seq e1 = - 1 \<or> ou_Seq e1 < ss_NextSeq s)\<rparr>)"

definition replayLocked :: "32 word \<Rightarrow> session \<Rightarrow> replay_window" where
  "replayLocked after s =
     (let oldest = (case ss_Outputs s of [] \<Rightarrow> ss_NextSeq s | e # _ \<Rightarrow> ou_Seq e);
          current = (if ss_NextSeq s > 0 then ss_NextSeq s - 1 else 0)
      in \<lparr>rw_Events = filter (\<lambda>e. ou_Seq e > after) (ss_Outputs s), rw_Structured = [],
          rw_Gap = (ss_Outputs s \<noteq> [] \<and> after + 1 < oldest), rw_Oldest = oldest, rw_Current = current\<rparr>)"

section \<open>Provider faults, approvals and titles\<close>

definition setProviderFaultLocked :: "string \<Rightarrow> string \<Rightarrow> string \<Rightarrow> string \<Rightarrow> int \<Rightarrow> session_info \<Rightarrow> session_info" where
  "setProviderFaultLocked provider kind detail evidence at i =
     (if at > 0 \<and> si_CreatedAt i > 0 \<and> at < si_CreatedAt i then i
      else i\<lparr>si_FailureKind := kind, si_FailureDetail := detail, si_FailureProvider := provider,
             si_FailureEvidence := evidence, si_FailureAt := at\<rparr>)"

definition clearProviderFaultLocked :: "session_info \<Rightarrow> session_info" where
  "clearProviderFaultLocked i = i\<lparr>si_FailureKind := [], si_FailureDetail := [], si_FailureProvider := [],
     si_FailureEvidence := [], si_FailureAt := 0\<rparr>"

definition trackProviderFaultLocked :: "members \<Rightarrow> int \<Rightarrow> session_info \<Rightarrow> session_info" where
  "trackProviderFaultLocked e at i =
     (if str_at e ''type'' = ''system'' \<and> str_at e ''subtype'' = ''provider_fault''
      then setProviderFaultLocked (str_at e ''provider'') (str_at e ''kind'') (str_at e ''detail'') (str_at e ''evidence'') at i
      else case nativeClaudeProviderFault e of
          Some f \<Rightarrow> setProviderFaultLocked ''claude'' (ft_Kind f) (ft_Detail f) (ft_Evidence f) at i
        | None \<Rightarrow> if successfulProviderTurn e then clearProviderFaultLocked i else i)"

definition trackApprovalLocked :: "members \<Rightarrow> int \<Rightarrow> session_info \<Rightarrow> session_info" where
  "trackApprovalLocked e at i =
     (let a = obj_of (entry e ''approval''); sub = str_at e ''subtype'' in
      if sub = ''approval_requested''
      then (if str_at a ''id'' = [] then i
            else i\<lparr>si_PendingApproval := Some \<lparr>ap_ID = str_at a ''id'', ap_Kind = str_at a ''kind'',
              ap_Summary = str_at a ''summary'', ap_Command = str_at a ''command'', ap_Cwd = str_at a ''cwd'',
              ap_Reason = str_at a ''reason'', ap_At = at\<rparr>\<rparr>)
      else if sub = ''approval_resolved''
      then (case si_PendingApproval i of None \<Rightarrow> i
            | Some p \<Rightarrow> if str_at a ''id'' = [] \<or> ap_ID p = str_at a ''id'' then i\<lparr>si_PendingApproval := None\<rparr> else i)
      else i)"

definition trackTitle :: "members \<Rightarrow> session_info \<Rightarrow> session_info" where
  "trackTitle e i =
     (if str_at e ''type'' = ''custom-title'' \<and> str_at e ''customTitle'' \<noteq> []
      then i\<lparr>si_ClaudeCustomTitle := str_at e ''customTitle''\<rparr>
      else if str_at e ''type'' = ''ai-title'' \<and> str_at e ''aiTitle'' \<noteq> []
      then i\<lparr>si_ClaudeAITitle := str_at e ''aiTitle''\<rparr>
      else i)"

definition trackUserMessage :: "(string \<Rightarrow> int option) \<Rightarrow> members \<Rightarrow> session_info \<Rightarrow> session_info" where
  "trackUserMessage clock e i =
     (if \<not> realUserMessage e then i
      else case entry e ''timestamp'' of
          Some (JStr text) \<Rightarrow>
            (case clock text of None \<Rightarrow> i
             | Some millis \<Rightarrow>
                 if (case si_LastUserMessageAt i of None \<Rightarrow> True | Some t \<Rightarrow> millis > t)
                 then i\<lparr>si_LastUserMessageAt := Some millis\<rparr> else i)
        | _ \<Rightarrow> i)"

section \<open>Structured records\<close>

text \<open>The time a record is ledgered with: its own, or the clock.\<close>

definition activity_time :: "(string \<Rightarrow> int option) \<Rightarrow> members \<Rightarrow> int \<Rightarrow> int" where
  "activity_time clock e now = (case entry e ''timestamp'' of
       Some (JStr text) \<Rightarrow> (case clock text of Some t \<Rightarrow> t | None \<Rightarrow> now)
     | Some v \<Rightarrow> if positive v then int64_of v else now
     | None \<Rightarrow> now)"

text \<open>The index the record is given, the activity time, and the session.\<close>

definition recordClaudeLocked ::
  "(string \<Rightarrow> int option) \<Rightarrow> (byte list \<Rightarrow> json option) \<Rightarrow> int \<Rightarrow> origin \<Rightarrow> byte list \<Rightarrow> session \<Rightarrow> int \<times> int \<times> session" where
  "recordClaudeLocked clock parse now origin raw s =
     (let index = ss_ClaudeBase s + int (length (ss_Claude s));
          (claude, removed) = RetainStructuredHistory (ss_Claude s) raw;
          s1 = s\<lparr>ss_Claude := claude, ss_ClaudeBase := ss_ClaudeBase s + int removed, ss_AllRecords := ss_AllRecords s @ [raw]\<rparr>
      in case record_of (parse raw) of
           None \<Rightarrow> (index, now, s1\<lparr>ss_Observed := (ss_Observed s1)\<lparr>tr_HistoryIncomplete :=
               (tr_HistoryIncomplete (ss_Observed s1) \<or> origin \<noteq> FromWatcher)\<rparr>\<rparr>)
         | Some e \<Rightarrow>
             (let at = activity_time clock e now;
                  i1 = trackProviderFaultLocked e at (ss_Info s1);
                  i2 = (if str_at e ''type'' = ''system'' then trackApprovalLocked e at i1 else trackTitle e i1)
              in (index, at, s1\<lparr>ss_Observed := observeRecord clock e origin now (ss_Observed s1),
                                ss_Info := trackUserMessage clock e i2\<rparr>)))"

section \<open>Events of the runner\<close>

definition lost_event :: "exit_event \<Rightarrow> session \<Rightarrow> exit_event" where
  "lost_event x s = x\<lparr>xe_Reason := (if xe_Reason x = [] then ''runner-lost'' else xe_Reason x),
     xe_Seq := (if xe_Seq x = 0 \<and> ss_NextSeq s > 0 then ss_NextSeq s - 1 else xe_Seq x)\<rparr>"

definition exit_of :: "exit_event \<Rightarrow> session \<Rightarrow> exit_event" where
  "exit_of x s = x\<lparr>xe_Seq := (if xe_Seq x = 0 \<and> ss_NextSeq s > 0 then ss_NextSeq s - 1 else xe_Seq x)\<rparr>"

text \<open>
  The branches of \<open>applyEvent\<close>: the event as it is broadcast, and the session before the broadcast.
\<close>

definition apply_output :: "int \<Rightarrow> output_msg \<Rightarrow> session \<Rightarrow> runner_event \<times> session" where
  "apply_output now o1 s =
     (let o2 = (if ou_Seq o1 = 0 then o1\<lparr>ou_Seq := ss_NextSeq s\<rparr> else o1) in
      if ou_Seq o2 \<ge> ss_NextSeq s
      then (let s1 = appendOutputLocked now o2 s
            in (EventOutput o2, s1\<lparr>ss_Info := (ss_Info s1)\<lparr>si_LastDataAt := now, si_LastDataUnknown := False\<rparr>,
                  ss_ObservedAt := now, ss_Observed := observeTerminalOutput now (ss_Observed s1)\<rparr>))
      else (EventOutput o2, s\<lparr>ss_Irregular := (ss_Irregular s \<or> ou_Seq o2 > ss_Start s)\<rparr>))"

definition apply_codex :: "(string \<Rightarrow> int option) \<Rightarrow> (byte list \<Rightarrow> json option) \<Rightarrow> int \<Rightarrow> byte list \<Rightarrow> session \<Rightarrow> runner_event \<times> session" where
  "apply_codex clock parse now raw s =
     (case recordClaudeLocked clock parse now FromRunnerStream raw s of (index, at, s1) \<Rightarrow>
        let s2 = (if at > si_LastDataAt (ss_Info s1)
                  then s1\<lparr>ss_Info := (ss_Info s1)\<lparr>si_LastDataAt := at, si_LastDataUnknown := False\<rparr>\<rparr> else s1);
            s3 = (if at > ss_ObservedAt s2 then s2\<lparr>ss_ObservedAt := at\<rparr> else s2)
        in (EventCodex raw index at, s3))"

definition apply_lost :: "int \<Rightarrow> exit_event \<Rightarrow> session \<Rightarrow> runner_event \<times> session" where
  "apply_lost now x s =
     (let l = lost_event x s
      in (EventRunnerLost l, s\<lparr>ss_Info := (ss_Info s)\<lparr>si_Unreachable := True, si_UnreachableReason := xe_Reason l,
            si_UnreachableSince := Some now, si_Working := False\<rparr>\<rparr>))"

definition apply_exit :: "int \<Rightarrow> exit_event \<Rightarrow> session \<Rightarrow> runner_event \<times> session" where
  "apply_exit now x s =
     (let l = exit_of x s
      in (EventExit l, s\<lparr>ss_Info := (ss_Info s)\<lparr>si_Exited := True, si_Working := False, si_Unreachable := False,
            si_UnreachableReason := [], si_UnreachableSince := None, si_ExitCode := xe_Code l,
            si_ExitSignal := xe_Signal l, si_ExitReason := xe_Reason l, si_ExitedAt := Some now,
            si_IdleSince := Some now,
            si_IdleReason := (case xe_Code l of Some c \<Rightarrow> if c \<noteq> 0 then ''failed'' else ''completed'' | None \<Rightarrow> ''completed'')\<rparr>,
            ss_Exit := l\<rparr>))"

definition broadcastEventLocked :: "runner_event \<Rightarrow> session \<Rightarrow> session" where
  "broadcastEventLocked e s = s\<lparr>ss_Streams := broadcast e (ss_Streams s)\<rparr>"

text \<open>A terminal event reaches every subscriber, closes the streams and ends the pump.\<close>

definition broadcast_terminal :: "(nat \<Rightarrow> nat) \<Rightarrow> runner_event \<Rightarrow> session \<Rightarrow> session" where
  "broadcast_terminal ns e s = s\<lparr>ss_Streams := broadcast_last ns e (ss_Streams s), ss_Terminal := Some e, ss_Pump := False\<rparr>"

definition applyEvent ::
  "(string \<Rightarrow> int option) \<Rightarrow> (byte list \<Rightarrow> json option) \<Rightarrow> int \<Rightarrow> (nat \<Rightarrow> nat) \<Rightarrow> runner_event \<Rightarrow> session \<Rightarrow> session" where
  "applyEvent clock parse now ns ev s = (case ev of
       EventOutput o1 \<Rightarrow> (case apply_output now o1 s of (e, s1) \<Rightarrow> broadcastEventLocked e s1)
     | EventClaude raw _ _ \<Rightarrow> (case recordClaudeLocked clock parse now FromWatcher raw s of
         (index, at, s1) \<Rightarrow> broadcastEventLocked (EventClaude raw index at) s1)
     | EventCodex raw _ _ \<Rightarrow> (case apply_codex clock parse now raw s of (e, s1) \<Rightarrow> broadcastEventLocked e s1)
     | EventRetry r \<Rightarrow> broadcastEventLocked (EventRetry r)
         (s\<lparr>ss_Info := (ss_Info s)\<lparr>si_Retry := map_option (Pair (ss_NextRetry s)) r\<rparr>, ss_NextRetry := ss_NextRetry s + 1\<rparr>)
     | EventRunnerLost x \<Rightarrow> (case apply_lost now x s of (e, s1) \<Rightarrow> broadcast_terminal ns e s1)
     | EventExit x \<Rightarrow> (case apply_exit now x s of (e, s1) \<Rightarrow> broadcast_terminal ns e s1))"

section \<open>A new session\<close>

definition classifyTool :: "string \<Rightarrow> string" where
  "classifyTool cmd =
     (let l = lower cmd; ends = (\<lambda>w. has_prefix (rev l) (rev w)) in
      if l = ''claude'' \<or> ends ''/claude'' then ''claude-code''
      else if l = ''codex'' \<or> ends ''/codex'' then ''codex''
      else ''terminal'')"

definition spawnControls :: "string \<Rightarrow> string list \<Rightarrow> string \<times> string \<times> bool" where
  "spawnControls tool args =
     (let model = Value args [''--model'', ''-m''] in
      if tool = ''codex'' then (model, ConfigValue args ''model_reasoning_effort'', ConfigValue args ''service_tier'' = ''priority'')
      else (model, Value args [''--effort''], False))"

definition withModelControls :: "string \<Rightarrow> string list \<Rightarrow> string \<Rightarrow> string \<Rightarrow> string list" where
  "withModelControls tool args model effort =
     (let result = WithValue args model [''--model'', ''-m''] in
      if tool = ''codex'' then WithConfigValue result ''model_reasoning_effort'' effort
      else WithValue result effort [''--effort''])"

definition pointerMillis :: "int option \<Rightarrow> int" where
  "pointerMillis v = (case v of None \<Rightarrow> 0 | Some t \<Rightarrow> t)"

definition adoptedLastData :: "int \<Rightarrow> session_metadata \<Rightarrow> int \<times> bool" where
  "adoptedLastData createdAt md =
     (let cs = filter (\<lambda>t. t > 0) (map pointerMillis [md_LastHumanMessageAt md, md_LastAgentMessageAt md])
      in (foldl max createdAt cs, cs = []))"

definition session_tool :: "string \<Rightarrow> string \<Rightarrow> string" where
  "session_tool kind cmd =
     (if kind = ''lane'' then ''lane:'' @ base_name cmd
      else if kind = ''codex-app-server'' then ''codex''
      else if kind = ''claude-structured'' then ''claude-code''
      else classifyTool cmd)"

definition new_info :: "int \<Rightarrow> runner_info \<Rightarrow> session_metadata \<Rightarrow> session_info" where
  "new_info now ri md =
     (let tool = session_tool (md_Kind md) (ri_Cmd ri); (model, effort, fast) = spawnControls tool (ri_Args ri);
          (at, unknown) = (if md_Adopted md then adoptedLastData (ri_CreatedAt ri) md else (now, False))
      in \<lparr>si_ID = ri_ID ri, si_Name = md_Name md, si_NameSource = md_NameSource md, si_Description = md_Description md,
          si_DescriptionSource = md_DescriptionSource md, si_Tags = md_Tags md, si_Kind = md_Kind md, si_Cmd = ri_Cmd ri,
          si_Args = ri_Args ri, si_Cols = ri_Cols ri, si_Rows = ri_Rows ri, si_CreatedAt = ri_CreatedAt ri, si_PID = ri_PID ri,
          si_RunnerProtocol = ri_ProtocolVersion ri, si_RunnerVersion = ri_RuntimeVersion ri,
          si_MessageSubmit = ri_MessageSubmit ri, si_Tool = tool, si_Launching = False, si_Working = False,
          si_LastDataAt = at, si_LastDataUnknown = unknown, si_LastUserMessageAt = None,
          si_LastHumanMessageAt = md_LastHumanMessageAt md, si_LastAgentMessageAt = md_LastAgentMessageAt md,
          si_IdleReason = ''never-started'', si_IdleDetail = [], si_IdleSince = Some now, si_LastSummary = [],
          si_FailureKind = [], si_FailureDetail = [], si_FailureProvider = [], si_FailureEvidence = [], si_FailureAt = 0,
          si_Retry = map_option (Pair 0) (ri_Retry ri), si_PendingApproval = None, si_Exited = False, si_ExitCode = None,
          si_ExitSignal = None, si_ExitReason = [], si_ExitedAt = None, si_Unreachable = False, si_UnreachableReason = [],
          si_UnreachableSince = None, si_RunnerGone = False, si_LostAtMS = 0, si_ClaudeCustomTitle = [], si_ClaudeAITitle = [],
          si_Model = model, si_Effort = effort, si_Fast = fast, si_ConversationID = ri_ConversationID ri,
          si_DisplayParentSessionID = md_DisplayParentSessionID md, si_SetAsideAt = md_SetAsideAt md, si_Pinned = md_Pinned md,
          si_MemoryBytes = None, si_CPUPercent = None, si_ResourceProcesses = None, si_ResourceSampledAt = None\<rparr>)"

text \<open>\<open>launch\<close> and \<open>reason\<close> are what \<open>claudehooks\<close> reads off the arguments.\<close>

definition resolveHooks :: "string \<Rightarrow> string \<Rightarrow> session_info \<Rightarrow> hook_tracker" where
  "resolveHooks launch reason i =
     (let h = (hooks_of_launch launch (ClaudeSessionID (si_Args i))) in
      if RuntimeOf (si_Kind i) (si_Tool i) \<noteq> ''claude-pty''
      then (hooks_of_launch [] [])\<lparr>ht_Applicable := False\<rparr>
      else if launch = [] then h\<lparr>ht_Reason := reason\<rparr> else h)"

definition bare_session :: "int \<Rightarrow> string \<Rightarrow> string \<Rightarrow> runner_info \<Rightarrow> session_metadata \<Rightarrow> session" where
  "bare_session now launch reason ri md =
     (let i = new_info now ri md
      in \<lparr>ss_Info = i, ss_ObservedAt = now,
          ss_Observed = (fresh_tracker (\<not> md_Adopted md) now)\<lparr>tr_AdoptedAt := (if md_Adopted md then now else 0)\<rparr>,
          ss_Hooks = resolveHooks launch reason i, ss_Outputs = [], ss_OutputSize = 0, ss_NextSeq = 1, ss_Claude = [],
          ss_ClaudeBase = 0, ss_Exit = zero_exit, ss_Streams = [], ss_Pump = True, ss_NextRetry = 1,
          ss_PersistedHumanAt = pointerMillis (md_LastHumanMessageAt md),
          ss_PersistedAgentAt = pointerMillis (md_LastAgentMessageAt md),
          ss_AllOutputs = [], ss_AllRecords = [], ss_Given = [], ss_Terminal = None, ss_Start = 0, ss_Irregular = False\<rparr>)"

definition newSession ::
  "(string \<Rightarrow> int option) \<Rightarrow> (byte list \<Rightarrow> json option) \<Rightarrow> int \<Rightarrow> string \<Rightarrow> string \<Rightarrow> runner_info \<Rightarrow> session_metadata
   \<Rightarrow> replay_window \<Rightarrow> session" where
  "newSession clock parse now launch reason ri md replay =
     (let s1 = foldl (\<lambda>s e. appendOutputLocked now e s) (bare_session now launch reason ri md) (rw_Events replay);
          s2 = foldl (\<lambda>s raw. snd (snd (recordClaudeLocked clock parse now FromRunnerReplay raw s))) s1 (rw_Structured replay);
          s3 = (if rw_Current replay \<ge> ss_NextSeq s2
                then s2\<lparr>ss_NextSeq := rw_Current replay + 1, ss_Irregular := (ss_Irregular s2 \<or> rw_Current replay = - 1)\<rparr>
                else s2)
      in s3\<lparr>ss_Start := ss_NextSeq s3 - 1\<rparr>)"

section \<open>Attaching\<close>

definition replay_from :: "bool \<Rightarrow> int \<Rightarrow> int \<Rightarrow> session \<Rightarrow> nat" where
  "replay_from include since cap s =
     (let len = int (length (ss_Claude s)) in
      if \<not> include then length (ss_Claude s)
      else if since > 0
      then nat (min (max (since - ss_ClaudeBase s) 0) len)
      else nat (max (len - (if cap \<le> 0 then 300 else cap)) 0))"

definition Attach :: "32 word \<Rightarrow> int \<Rightarrow> bool \<Rightarrow> int \<Rightarrow> session \<Rightarrow> attachment \<times> session" where
  "Attach lastSeq since include cap s =
     (let start = replay_from include since cap s;
          a = \<lparr>at_LastSeq = lastSeq, at_Replay = replayLocked lastSeq s, at_ClaudeEvents = drop start (ss_Claude s),
               at_ClaudeEventsCount = ss_ClaudeBase s + int (length (ss_Claude s)),
               at_ClaudeReplayStart = ss_ClaudeBase s + int start\<rparr>
      in (a, s\<lparr>ss_Streams := ss_Streams s @ [new_stream], ss_Given := ss_Given s @ [a]\<rparr>))"

definition cancel_attachment :: "nat \<Rightarrow> session \<Rightarrow> session" where
  "cancel_attachment i s = s\<lparr>ss_Streams := cancel i (ss_Streams s)\<rparr>"

definition clamp :: "int \<Rightarrow> int \<Rightarrow> int \<Rightarrow> int" where
  "clamp v lo hi = (if v < lo then lo else if v > hi then hi else v)"

record events_window =
  ew_Events :: "byte list list"
  ew_TotalCount :: int
  ew_StartIndex :: int
  ew_EndIndex :: int

definition EventsWindow :: "int option \<Rightarrow> int option \<Rightarrow> int option \<Rightarrow> session \<Rightarrow> events_window" where
  "EventsWindow since tail before_index s =
     (let len = int (length (ss_Claude s)); base = ss_ClaudeBase s;
          end1 = (case before_index of Some b \<Rightarrow> if b \<ge> 0 then clamp (b - base) 0 len else len | None \<Rightarrow> len);
          start1 = (case since of Some f \<Rightarrow> if f \<ge> 0 then clamp (f - base) 0 end1 else 0 | None \<Rightarrow> 0);
          start2 = (case tail of Some t \<Rightarrow> if t > 0 then max start1 (max (end1 - t) 0) else start1 | None \<Rightarrow> start1);
          start3 = min start2 end1
      in \<lparr>ew_Events = take (nat (end1 - start3)) (drop (nat start3) (ss_Claude s)),
          ew_TotalCount = base + len, ew_StartIndex = base + start3, ew_EndIndex = base + end1\<rparr>)"

section \<open>Snapshots\<close>

definition message_text :: "members \<Rightarrow> string option" where
  "message_text e =
     (case entry e ''message'' of
        Some (JObj m) \<Rightarrow>
          (let role = str_at m ''role''; text = structuredContentText (entry m ''content'') in
           if role \<noteq> ''user'' \<and> role \<noteq> ''assistant'' then None
           else if trim_space text = [] then None
           else Some (''['' @ role @ '']'' @ [CHR 0x0A] @ text))
      | _ \<Rightarrow> None)"

definition structuredSnapshot :: "(byte list \<Rightarrow> json option) \<Rightarrow> byte list list \<Rightarrow> string" where
  "structuredSnapshot parse events =
     foldl (\<lambda>acc raw. case record_of (parse raw) of None \<Rightarrow> acc
       | Some e \<Rightarrow> (case message_text e of None \<Rightarrow> acc
           | Some t \<Rightarrow> (if acc = [] then t else acc @ [CHR 0x0A, CHR 0x0A] @ t))) [] events"

definition lane_snapshot :: "output_msg list \<Rightarrow> byte list" where
  "lane_snapshot outputs =
     (let text = concat (map ou_Data outputs)
      in if length text > 64 * 1024 then drop (length text - 64 * 1024) text else text)"

section \<open>Controls\<close>

datatype session_error =
    SessionEnded | NoPendingApproval | RetryUnsupported | RunnerProtocol | NoRetryScheduled | NoFailedTurn
  | SessionWorking | NothingToContinue string | ControlFailed | MessagesUnsupported

text \<open>The frame \<open>Approve\<close> sends, or why it sends none.\<close>

definition session_Approve :: "approval_control \<Rightarrow> session \<Rightarrow> session_error + approval_control" where
  "session_Approve c s =
     (if si_Exited (ss_Info s) then Inl SessionEnded
      else case si_PendingApproval (ss_Info s) of
          None \<Rightarrow> Inl NoPendingApproval
        | Some p \<Rightarrow>
            if ac_ID c = [] then Inr (c\<lparr>ac_ID := ap_ID p\<rparr>)
            else if ac_ID c \<noteq> ap_ID p then Inl NoPendingApproval
            else Inr c)"

definition retryEligibilityLocked :: "bool \<Rightarrow> bool \<Rightarrow> session_info \<Rightarrow> session_error option" where
  "retryEligibilityLocked controller stop i =
     (if si_Kind i \<noteq> ''codex-app-server'' \<and> si_Kind i \<noteq> ''claude-structured'' then Some RetryUnsupported
      else if si_Exited i then Some SessionEnded
      else if si_RunnerProtocol i < 4 then Some RunnerProtocol
      else if \<not> controller then Some RetryUnsupported
      else if stop \<and> si_Retry i = None then Some NoRetryScheduled
      else if \<not> stop \<and> si_FailureKind i = [] \<and> si_Kind i \<noteq> ''claude-structured'' then Some NoFailedTurn
      else if \<not> stop \<and> si_Working i \<and> si_FailureKind i \<noteq> [] then Some SessionWorking
      else None)"

fun contains :: "string \<Rightarrow> string \<Rightarrow> bool" where
  "contains [] w = (w = [])"
| "contains (c # cs) w = (has_prefix (c # cs) w \<or> contains cs w)"

definition advice_active :: string where
  "advice_active = ''Claude's runner still has a turn open. Wait for it to finish, or interrupt it, then use Retry again''"

definition continueRefusalAdvice :: "string \<Rightarrow> string" where
  "continueRefusalAdvice reason =
     (if contains reason ''has not exited'' then []
      else if reason = ''Claude turn is active'' then advice_active
      else if contains reason ''saved next-turn message'' then
        ''Claude's runner has no saved message waiting to be dispatched. Messages it already dispatched are never sent again; ''
        @ ''read the conversation to see whether Claude answered them, and send a new message only for anything still needed''
      else if contains reason ''no failed turn to retry'' then
        ''This answer does not mention saved messages, which is how a runner without a next-turn queue answers, so this runner ''
        @ ''cannot continue saved messages. Read the conversation and send a new message for anything still needed''
      else ''Read the conversation before sending anything again'')"

text \<open>The runner's answer to a retry control: accepted, refused with a reason, or another error.\<close>

datatype control_answer = Accepted | Refused string | Broken

definition RetryProvider :: "bool \<Rightarrow> control_answer \<Rightarrow> session \<Rightarrow> session_error option" where
  "RetryProvider controller answer s =
     (let recorded = si_FailureKind (ss_Info s) \<noteq> [] in
      case retryEligibilityLocked controller False (ss_Info s) of
        Some e \<Rightarrow> Some e
      | None \<Rightarrow>
          (case answer of Accepted \<Rightarrow> None
           | Refused reason \<Rightarrow> if recorded then Some ControlFailed else Some (NothingToContinue (continueRefusalAdvice reason))
           | Broken \<Rightarrow> Some ControlFailed))"

text \<open>
  \<open>StopProviderRetry\<close> captures the schedule, lets the lock go while the runner answers, and clears the schedule
  only if the pointer is still the one it captured.
\<close>

definition stop_retry_begin :: "bool \<Rightarrow> session \<Rightarrow> session_error + (nat \<times> provider_retry) option" where
  "stop_retry_begin controller s = (case retryEligibilityLocked controller True (ss_Info s) of
       Some e \<Rightarrow> Inl e | None \<Rightarrow> Inr (si_Retry (ss_Info s)))"

definition stop_retry_end :: "(nat \<times> provider_retry) option \<Rightarrow> session \<Rightarrow> session" where
  "stop_retry_end stopped s =
     (if map_option fst (si_Retry (ss_Info s)) = map_option fst stopped
      then s\<lparr>ss_Info := (ss_Info s)\<lparr>si_Retry := None\<rparr>\<rparr> else s)"

definition modelChangeEligible :: "session_info \<Rightarrow> session_error option" where
  "modelChangeEligible i =
     (if si_Exited i then Some SessionEnded
      else if si_Working i then Some SessionWorking
      else if si_RunnerProtocol i < 2 then Some RunnerProtocol
      else None)"

text \<open>The second section of \<open>ConfigureModel\<close>, when the runner has acknowledged.\<close>

definition record_model :: "string \<Rightarrow> string \<Rightarrow> session \<Rightarrow> session" where
  "record_model model effort s = (let i = ss_Info s in s\<lparr>ss_Info := i\<lparr>
     si_Args := withModelControls (si_Tool i) (si_Args i) model effort, si_Model := model, si_Effort := effort\<rparr>\<rparr>)"

definition session_Input :: "bool \<Rightarrow> session \<Rightarrow> bool" where
  "session_Input sent s \<longleftrightarrow> \<not> si_Exited (ss_Info s) \<and> sent"

definition session_SubmitMessage :: "bool \<Rightarrow> session \<Rightarrow> bool" where
  "session_SubmitMessage supported s \<longleftrightarrow> supported \<and> si_MessageSubmit (ss_Info s) \<and> \<not> si_Exited (ss_Info s)
     \<and> \<not> si_Unreachable (ss_Info s)"

definition session_Resize :: "bool \<Rightarrow> bool \<Rightarrow> int \<Rightarrow> int \<Rightarrow> session \<Rightarrow> bool \<times> session" where
  "session_Resize sent screen cols rows s =
     (if si_Exited (ss_Info s) \<or> \<not> sent \<or> \<not> screen then (False, s)
      else (True, s\<lparr>ss_Info := (ss_Info s)\<lparr>si_Cols := cols, si_Rows := rows\<rparr>\<rparr>))"

text \<open>\<open>RequestKill\<close>: \<open>gone\<close> and \<open>gone'\<close> are what the runner connection says before and after the frame.\<close>

definition RequestKill :: "bool \<Rightarrow> bool \<Rightarrow> bool \<Rightarrow> session \<Rightarrow> session_error option" where
  "RequestKill gone sent gone' s =
     (if si_Exited (ss_Info s) \<or> gone then None
      else if sent then None
      else if si_Exited (ss_Info s) \<or> gone' then None else Some ControlFailed)"

section \<open>What the session manager records\<close>

definition SetWorking :: "bool \<Rightarrow> session \<Rightarrow> (bool \<times> bool) \<times> session" where
  "SetWorking working s =
     (let i = ss_Info s in
      ((si_Working i, si_Exited i),
       if si_Exited i then s
       else s\<lparr>ss_Info := (if working then i\<lparr>si_Working := True, si_IdleReason := [], si_IdleDetail := [], si_IdleSince := None\<rparr>
                          else i\<lparr>si_Working := False\<rparr>)\<rparr>))"

definition SetIdleResult :: "string \<Rightarrow> string \<Rightarrow> string \<Rightarrow> int \<Rightarrow> session \<Rightarrow> session" where
  "SetIdleResult reason detail summary at s =
     (let i = ss_Info s in
      if si_Exited i then s
      else s\<lparr>ss_Info := i\<lparr>si_IdleReason := reason, si_IdleDetail := detail, si_IdleSince := Some at,
        si_LastSummary := (if summary \<noteq> [] \<and> reason \<noteq> ''failed'' then summary else si_LastSummary i)\<rparr>\<rparr>)"

definition ClearIdleResult :: "session \<Rightarrow> session" where
  "ClearIdleResult s =
     (if si_Exited (ss_Info s) then s
      else s\<lparr>ss_Info := (ss_Info s)\<lparr>si_IdleReason := [], si_IdleDetail := [], si_IdleSince := None\<rparr>\<rparr>)"

definition setFirstMessageDescription :: "string \<Rightarrow> session \<Rightarrow> bool \<times> session" where
  "setFirstMessageDescription d s =
     (let i = ss_Info s in
      if si_DescriptionSource i = ''explicit'' \<or> si_Description i \<noteq> [] then (False, s)
      else (True, s\<lparr>ss_Info := i\<lparr>si_Description := d, si_DescriptionSource := ''first-message''\<rparr>\<rparr>))"

text \<open>Who sent a message last; the result is whether the stamp is worth persisting.\<close>

definition messagePrincipalPersistInterval :: int where "messagePrincipalPersistInterval = 30000"

definition noteMessagePrincipal :: "bool \<Rightarrow> int \<Rightarrow> session \<Rightarrow> bool \<times> session" where
  "noteMessagePrincipal agent at s =
     (let i = ss_Info s; stamp = (if agent then si_LastAgentMessageAt i else si_LastHumanMessageAt i);
          persisted = (if agent then ss_PersistedAgentAt s else ss_PersistedHumanAt s) in
      if (case stamp of None \<Rightarrow> False | Some t \<Rightarrow> t \<ge> at) then (False, s)
      else let s1 = s\<lparr>ss_Info := (if agent then i\<lparr>si_LastAgentMessageAt := Some at\<rparr> else i\<lparr>si_LastHumanMessageAt := Some at\<rparr>)\<rparr> in
        if i64 (at - persisted) < messagePrincipalPersistInterval then (False, s1)
        else (True, if agent then s1\<lparr>ss_PersistedAgentAt := at\<rparr> else s1\<lparr>ss_PersistedHumanAt := at\<rparr>))"

definition carryActivity :: "session_info \<Rightarrow> session \<Rightarrow> session" where
  "carryActivity previous s =
     (let i = ss_Info s in
      if si_LastDataAt previous > si_LastDataAt i \<or> (si_LastDataUnknown i \<and> \<not> si_LastDataUnknown previous)
      then s\<lparr>ss_Info := i\<lparr>si_LastDataAt := max (si_LastDataAt previous) (si_LastDataAt i),
                          si_LastDataUnknown := si_LastDataUnknown previous\<rparr>\<rparr>
      else s)"

text \<open>One sample of what the session costs; the CPU percentage is kept as text.\<close>

definition SetResources :: "(int \<times> int \<times> int \<times> string option) option \<Rightarrow> session \<Rightarrow> session" where
  "SetResources sample s = (case sample of
       None \<Rightarrow> s\<lparr>ss_Info := (ss_Info s)\<lparr>si_MemoryBytes := None, si_CPUPercent := None,
         si_ResourceProcesses := None, si_ResourceSampledAt := None\<rparr>\<rparr>
     | Some (memory, processes, at, cpu) \<Rightarrow> s\<lparr>ss_Info := (ss_Info s)\<lparr>si_MemoryBytes := Some memory,
         si_ResourceProcesses := Some processes, si_ResourceSampledAt := Some at, si_CPUPercent := cpu\<rparr>\<rparr>)"

definition setName :: "string \<Rightarrow> string \<Rightarrow> session \<Rightarrow> session" where
  "setName name source s = s\<lparr>ss_Info := (ss_Info s)\<lparr>si_Name := name, si_NameSource := source\<rparr>\<rparr>"

definition ProviderFault :: "session_info \<Rightarrow> fault option" where
  "ProviderFault i =
     (if si_FailureKind i = [] \<or> si_FailureDetail i = [] then None
      else Some ((Classify (si_FailureProvider i) (si_FailureDetail i) 0)\<lparr>ft_Kind := si_FailureKind i,
        ft_Detail := si_FailureDetail i, ft_Evidence := si_FailureEvidence i\<rparr>))"

end
