(* ===== verification/Delivery_Match.thy ===== *)
theory Delivery_Match
  imports Delivery_Store Session
begin

text \<open>
  How a submitted text is recognised in the conversation of a session: \<open>message.go\<close> and \<open>claude_paste.go\<close> of
  \<open>runtime/internal/delivery\<close>, \<open>waitForCompleteLegacyMessage\<close> of \<open>legacy_submit.go\<close>, and the late confirmations
  of \<open>delivery_transcript.go\<close> and \<open>delivery_handlers.go\<close> of \<open>runtime/internal/api\<close>.  \<open>parse\<close> is JSON, \<open>clock\<close>
  \<open>time.Parse\<close> in milliseconds, \<open>hash\<close> and \<open>digest\<close> are SHA-256 of a text and of a record.
\<close>

section \<open>Envelopes\<close>

definition legacyProvider :: "session_info \<Rightarrow> bool" where
  "legacyProvider i \<longleftrightarrow> (si_Tool i = ''claude-code'' \<or> si_Tool i = ''codex'')
     \<and> si_Kind i \<noteq> ''claude-structured'' \<and> si_Kind i \<noteq> ''codex-app-server''"

definition PasteStart :: string where "PasteStart = CHR 0x1B # ''[200~''"
definition PasteEnd :: string where "PasteEnd = CHR 0x1B # ''[201~''"

definition has_suffix :: "string \<Rightarrow> string \<Rightarrow> bool" where
  "has_suffix s w = has_prefix (rev s) (rev w)"

text \<open>\<open>composerMessageText\<close>, and \<open>delivery.MessageText\<close>, which is the same.\<close>

definition composerMessageText :: "string \<Rightarrow> string" where
  "composerMessageText data = (if has_prefix data PasteStart \<and> has_suffix data PasteEnd
     then (let rest = drop (length PasteStart) data
           in if has_suffix rest PasteEnd then take (length rest - length PasteEnd) rest else rest)
     else data)"


abbreviation MessageText :: "string \<Rightarrow> string" where
  "MessageText \<equiv> composerMessageText"

text \<open>A text is refused when a rune other than newline, return and tab is a terminal control.\<close>

definition LegacyPaste :: "string \<Rightarrow> string option" where
  "LegacyPaste data =
     (let text = MessageText data in
      if has_rune (\<lambda>r. (r < 32 \<and> r \<noteq> 10 \<and> r \<noteq> 13 \<and> r \<noteq> 9) \<or> r = 127) text then None
      else Some (PasteStart @ text @ PasteEnd))"

definition NormalizedMessage :: "string \<Rightarrow> string" where
  "NormalizedMessage text = trim_space (replace_crlf text)"

text \<open>The opening tag \<open><pasted_content>\<close>, with or without an id, at the start of the text.\<close>

definition paste_id_char :: "char \<Rightarrow> bool" where
  "paste_id_char c \<longleftrightarrow> id_char c"

definition claudePasteOpening :: "string \<Rightarrow> string option" where
  "claudePasteOpening s =
     (let plain = ''<pasted_content>''; start = ''<pasted_content id='' @ [CHR 0x22] in
      if has_prefix s plain then Some plain
      else if has_prefix s start then
        (let name = takeWhile paste_id_char (drop (length start) s); open = start @ name @ [CHR 0x22] @ ''>''
         in if name \<noteq> [] \<and> has_prefix s open then Some open else None)
      else None)"

definition ClaudePastedText :: "string \<Rightarrow> string option" where
  "ClaudePastedText text =
     (let trimmed = trim_space text in
      case claudePasteOpening trimmed of
        None \<Rightarrow> None
      | Some opening \<Rightarrow>
          (let own = ''</'' @ drop 1 opening; ordinary = ''</pasted_content>'';
               closing = (if has_suffix trimmed own then own else ordinary)
           in if \<not> has_suffix trimmed closing then None
              else if length trimmed < length opening + length closing then None
              else Some (take (length trimmed - length closing - length opening) (drop (length opening) trimmed))))"

section \<open>User records\<close>

text \<open>A field of type \<open>json.RawMessage\<close>, \<open>None\<close> when it was never set.\<close>

definition dec_raw :: "json option decoder" where
  "dec_raw x v = Some (Some v)"

record user_message =
  um_Role :: string
  um_Content :: "json option"

record user_event =
  ue_Type :: string
  ue_Message :: user_message

definition zero_user_event :: user_event where
  "zero_user_event = \<lparr>ue_Type = [], ue_Message = \<lparr>um_Role = [], um_Content = None\<rparr>\<rparr>"

definition dec_user_message :: "user_message \<Rightarrow> members \<Rightarrow> user_message option" where
  "dec_user_message z ms = (case (field dec_str ''role'' (um_Role z) ms, field dec_raw ''content'' (um_Content z) ms) of
       (Some r, Some c) \<Rightarrow> Some \<lparr>um_Role = r, um_Content = c\<rparr> | _ \<Rightarrow> None)"

definition dec_user_event :: "user_event \<Rightarrow> members \<Rightarrow> user_event option" where
  "dec_user_event z ms = (case (field dec_str ''type'' (ue_Type z) ms,
         field (dec_struct dec_user_message) ''message'' (ue_Message z) ms) of
       (Some t, Some m) \<Rightarrow> Some \<lparr>ue_Type = t, ue_Message = m\<rparr> | _ \<Rightarrow> None)"

definition dec_text_block :: "string \<times> string \<Rightarrow> members \<Rightarrow> (string \<times> string) option" where
  "dec_text_block z ms = (case (field dec_str ''type'' (fst z) ms, field dec_str ''text'' (snd z) ms) of
       (Some t, Some x) \<Rightarrow> Some (t, x) | _ \<Rightarrow> None)"

definition UserText :: "(byte list \<Rightarrow> json option) \<Rightarrow> byte list \<Rightarrow> string option" where
  "UserText parse raw =
     (case unmarshal (dec_struct dec_user_event) zero_user_event (parse raw) of
        None \<Rightarrow> None
      | Some e \<Rightarrow>
          if ue_Type e \<noteq> ''user'' \<or> um_Role (ue_Message e) \<noteq> ''user'' then None
          else case unmarshal dec_str [] (um_Content (ue_Message e)) of
              Some text \<Rightarrow> Some text
            | None \<Rightarrow>
                (case unmarshal (dec_list ([], []) (dec_struct dec_text_block)) [] (um_Content (ue_Message e)) of
                   None \<Rightarrow> None
                 | Some blocks \<Rightarrow>
                     if \<exists>b \<in> set blocks. fst b \<noteq> ''text'' \<and> fst b \<noteq> ''input_text'' then None
                     else Some (concat (map snd blocks))))"

definition MatchingUserText :: "(byte list \<Rightarrow> json option) \<Rightarrow> byte list \<Rightarrow> string \<Rightarrow> bool" where
  "MatchingUserText parse raw intended =
     (let wanted = NormalizedMessage (MessageText intended) in
      case UserText parse raw of
        None \<Rightarrow> False
      | Some text \<Rightarrow> wanted \<noteq> [] \<and> (NormalizedMessage text = wanted
          \<or> (case ClaudePastedText text of None \<Rightarrow> False | Some pasted \<Rightarrow> NormalizedMessage pasted = wanted)))"

definition MessageHash :: "(string \<Rightarrow> string) \<Rightarrow> string \<Rightarrow> string" where
  "MessageHash hash text = hash (NormalizedMessage (MessageText text))"

definition dec_timestamp :: "string \<Rightarrow> members \<Rightarrow> string option" where
  "dec_timestamp z ms = field dec_str ''timestamp'' z ms"

definition MatchesLateUserEvent ::
  "(string \<Rightarrow> int option) \<Rightarrow> (byte list \<Rightarrow> json option) \<Rightarrow> (string \<Rightarrow> string) \<Rightarrow> byte list \<Rightarrow> string \<Rightarrow> int \<Rightarrow> bool" where
  "MatchesLateUserEvent clock parse hash raw h createdAt =
     (case (UserText parse raw, unmarshal (dec_struct dec_timestamp) [] (parse raw)) of
        (Some text, Some stamp) \<Rightarrow>
          trim_space text \<noteq> []
          \<and> (case clock stamp of
               None \<Rightarrow> False
             | Some at \<Rightarrow> at \<ge> createdAt
                 \<and> (MessageHash hash text = h
                    \<or> (case ClaudePastedText text of None \<Rightarrow> False
                       | Some pasted \<Rightarrow> trim_space pasted \<noteq> [] \<and> MessageHash hash pasted = h)))
      | _ \<Rightarrow> False)"

section \<open>Confirming from the transcript\<close>

text \<open>One look of \<open>waitForCompleteLegacyMessage\<close>: whether the message is there, and the next cursor.\<close>

definition legacy_look :: "(byte list \<Rightarrow> json option) \<Rightarrow> string \<Rightarrow> int \<Rightarrow> session \<Rightarrow> bool \<times> int" where
  "legacy_look parse intended cursor s =
     (let w = EventsWindow (Some cursor) None None s
      in (\<exists>raw \<in> set (ew_Events w). MatchingUserText parse raw intended, ew_TotalCount w))"

fun waitForCompleteLegacyMessage :: "(byte list \<Rightarrow> json option) \<Rightarrow> string \<Rightarrow> int \<Rightarrow> session list \<Rightarrow> bool" where
  "waitForCompleteLegacyMessage parse intended cursor [] = False"
| "waitForCompleteLegacyMessage parse intended cursor (s # ss) =
     (case legacy_look parse intended cursor s of (found, next) \<Rightarrow>
        found \<or> waitForCompleteLegacyMessage parse intended next ss)"

text \<open>The boundary \<open>deliverLegacyProvider\<close> records before it writes anything.\<close>

definition transcript_boundary :: "(byte list \<Rightarrow> string) \<Rightarrow> (string \<Rightarrow> string) \<Rightarrow> string \<Rightarrow> session \<Rightarrow> transcript_intent" where
  "transcript_boundary digest hash data s =
     (let w = EventsWindow None (Some 1) None s
      in \<lparr>ti_Cursor = ew_TotalCount w, ti_Anchor = (if ew_Events w = [] then [] else digest (last (ew_Events w))),
          ti_MessageHash = MessageHash hash data, ti_RuntimeCreatedAt = si_CreatedAt (ss_Info s)\<rparr>)"

definition reconcileTranscriptAcceptance ::
  "(string \<Rightarrow> int option) \<Rightarrow> (byte list \<Rightarrow> json option) \<Rightarrow> (byte list \<Rightarrow> string) \<Rightarrow> (string \<Rightarrow> string) \<Rightarrow> delivery_record
   \<Rightarrow> transcript_intent \<Rightarrow> session \<Rightarrow> bool" where
  "reconcileTranscriptAcceptance clock parse digest hash r intent s =
     (if \<not> legacyProvider (ss_Info s) \<or> si_CreatedAt (ss_Info s) \<noteq> ti_RuntimeCreatedAt intent then False
      else let start = (if ti_Cursor intent > 0 then ti_Cursor intent - 1 else ti_Cursor intent);
               w = EventsWindow (Some start) None None s in
        if ew_StartIndex w \<noteq> start \<or> ew_TotalCount w < ti_Cursor intent then False
        else if ti_Cursor intent > 0 \<and> (ew_Events w = [] \<or> digest (hd (ew_Events w)) \<noteq> ti_Anchor intent) then False
        else \<exists>raw \<in> set (if ti_Cursor intent > 0 then tl (ew_Events w) else ew_Events w).
               MatchesLateUserEvent clock parse hash raw (ti_MessageHash intent) (dr_CreatedAtMS r))"

text \<open>
  \<open>reconcileLateAcceptance\<close>: what may be confirmed, and with which boundary.  \<open>late\<close> is \<open>LateMessageResult\<close> of
  the registered session, if there is one.
\<close>

definition reconcileLateAcceptance ::
  "(string \<Rightarrow> int option) \<Rightarrow> (byte list \<Rightarrow> json option) \<Rightarrow> (byte list \<Rightarrow> string) \<Rightarrow> (string \<Rightarrow> string) \<Rightarrow> (session \<times> message_result option) option
   \<Rightarrow> delivery_record \<Rightarrow> string option" where
  "reconcileLateAcceptance clock parse digest hash current r =
     (if dr_Status r \<noteq> StatusUnknown \<or> dr_Acceptance r \<noteq> [] then None
      else case current of
          None \<Rightarrow> None
        | Some (s, late) \<Rightarrow>
            (case dr_Transcript r of
               Some intent \<Rightarrow> if reconcileTranscriptAcceptance clock parse digest hash r intent s then Some ''transcript'' else None
             | None \<Rightarrow> (case late of
                 None \<Rightarrow> None
               | Some result \<Rightarrow> if mr_Accepted result \<and> mr_Boundary result \<noteq> [] then Some (mr_Boundary result) else None)))"

end
