(* ===== verification/Delivery_Submit.thy ===== *)
theory Delivery_Submit
  imports Delivery_Match
begin

text \<open>
  The submit route: \<open>message_submit.go\<close>, \<open>legacy_submit.go\<close>, \<open>submit_guard.go\<close> and \<open>delivery_handlers.go\<close> of
  \<open>runtime/internal/api\<close>, and the \<open>/submit\<close> part of \<open>server_routes.go\<close>.  A submission first begins its receipt,
  then hands the message to the runner, then completes the receipt; the daemon may stop between any two of these.
  What the runner, the terminal and the clock do is an argument of each step.
\<close>

section \<open>Which way a message goes\<close>

record submit_result =
  sr_Status :: delivery_status
  sr_Delivered :: bool
  sr_Retry :: bool
  sr_Reason :: string
  sr_Acceptance :: "string option"

definition semanticSubmitRefusal :: "session_info \<Rightarrow> string option" where
  "semanticSubmitRefusal i =
     (if si_IdleReason i \<noteq> ''needs-input'' then None
      else let detail = trim_space (si_IdleDetail i); normalized = lower detail in
        if contains normalized ''trust this folder'' \<or> contains normalized ''project you created or one you trust''
           \<or> has_prefix normalized ''allow '' \<or> has_prefix normalized ''approve '' \<or> contains normalized ''press enter to confirm''
        then Some (''message not sent: '' @ (if detail = [] then ''the provider is waiting for a terminal choice'' else detail)
          @ ''; answer the provider control in Terminal view or with `sessions keys <id> down|up|enter|esc`'')
        else None)"

text \<open>
  \<open>submitStructuredMessage\<close>: \<open>service\<close> is whether the registry takes messages, \<open>answer\<close> what \<open>SubmitMessage\<close>
  returned.  \<open>explain\<close> is \<open>err.Error()\<close>.
\<close>

definition submitStructuredMessage ::
  "(message_error \<Rightarrow> string) \<Rightarrow> string \<Rightarrow> string \<Rightarrow> string \<Rightarrow> bool \<Rightarrow> message_result \<times> string option \<Rightarrow> submit_result" where
  "submitStructuredMessage explain op data mode service answer =
     (let refused = \<lparr>sr_Status = StatusNotDelivered, sr_Delivered = False, sr_Retry = True, sr_Reason = [], sr_Acceptance = Some []\<rparr> in
      case ValidateMessage \<lparr>mg_OperationID = op, mg_Text = composerMessageText data, mg_Mode = mode\<rparr> of
        Some e \<Rightarrow> refused\<lparr>sr_Reason := explain e\<rparr>
      | None \<Rightarrow>
          if \<not> service then refused\<lparr>sr_Reason := ''acknowledged message control is unavailable''\<rparr>
          else (case answer of (r, err) \<Rightarrow>
            let base = refused\<lparr>sr_Reason := (case err of Some e \<Rightarrow> e | None \<Rightarrow> mr_Error r), sr_Acceptance := Some (mr_Boundary r)\<rparr> in
            if err \<noteq> None \<or> mr_Boundary r = ''unknown'' then base\<lparr>sr_Status := StatusUnknown, sr_Retry := False\<rparr>
            else if mr_Accepted r then base\<lparr>sr_Status := StatusAccepted, sr_Delivered := True, sr_Retry := False\<rparr>
            else base))"

text \<open>
  \<open>deliverLegacyProvider\<close>, with the steps it takes as arguments: the text can be pasted, the session is there, the
  boundary was recorded, the text was written, the settle delay passed, Enter was pressed, the message was seen.
  The last result is whether the terminal was written to at all.
\<close>

record legacy_steps =
  lg_Pasted :: bool
  lg_Found :: bool
  lg_Intent :: bool
  lg_Written :: bool
  lg_Settled :: bool
  lg_Entered :: bool
  lg_Seen :: bool

definition deliverLegacyProvider :: "legacy_steps \<Rightarrow> delivery_status \<times> bool \<times> bool" where
  "deliverLegacyProvider g =
     (if \<not> lg_Pasted g then (StatusNotDelivered, False, False)
      else if \<not> lg_Found g then (StatusNotDelivered, False, False)
      else if \<not> lg_Intent g then (StatusNotDelivered, False, False)
      else if \<not> lg_Written g then (StatusUnknown, False, True)
      else if \<not> lg_Settled g then (StatusUnknown, False, True)
      else if \<not> lg_Entered g then (StatusUnknown, False, True)
      else if lg_Seen g then (StatusAccepted, True, True)
      else (StatusUnknown, False, True))"

definition submitLegacyProvider :: "string \<Rightarrow> legacy_steps \<Rightarrow> submit_result" where
  "submitLegacyProvider reason g = (case deliverLegacyProvider g of (st, delivered, touched) \<Rightarrow>
     \<lparr>sr_Status = st, sr_Delivered = delivered, sr_Retry = (st = StatusNotDelivered), sr_Reason = reason,
      sr_Acceptance = Some (if delivered then ''transcript'' else [])\<rparr>)"

text \<open>The plain terminal: the write failed; the request or Enter failed after it; or all of it worked.\<close>

datatype plain_steps = PlainNotWritten string | PlainNoEnter string | PlainSent

definition submit_plain :: "plain_steps \<Rightarrow> submit_result" where
  "submit_plain p = (case p of
       PlainNotWritten e \<Rightarrow> \<lparr>sr_Status = StatusUnknown, sr_Delivered = False, sr_Retry = False, sr_Reason = e, sr_Acceptance = None\<rparr>
     | PlainNoEnter e \<Rightarrow> \<lparr>sr_Status = StatusTextOnly, sr_Delivered = True, sr_Retry = False, sr_Reason = e, sr_Acceptance = None\<rparr>
     | PlainSent \<Rightarrow> \<lparr>sr_Status = StatusAccepted, sr_Delivered = True, sr_Retry = False, sr_Reason = [], sr_Acceptance = None\<rparr>)"

definition steer_refusal :: string where
  "steer_refusal = ''Steer now requires an updated structured Codex runner. This message was not sent.''"

definition not_delivered :: "string \<Rightarrow> submit_result" where
  "not_delivered reason = \<lparr>sr_Status = StatusNotDelivered, sr_Delivered = False, sr_Retry = True, sr_Reason = reason, sr_Acceptance = None\<rparr>"

text \<open>
  What one execution of the handler answers and whether the message was given to the provider.  For a structured
  runner this is its contract: an answer that refuses the message, with no error and no unknown boundary, means
  that it was not given, and one that accepts it that it was; of an error nothing is known.
\<close>

inductive execution :: "(message_error \<Rightarrow> string) \<Rightarrow> string \<Rightarrow> string \<Rightarrow> string \<Rightarrow> session_info option \<Rightarrow> submit_result \<Rightarrow> bool \<Rightarrow> bool"
  for explain op data mode where
  exec_no_session: "execution explain op data mode None (not_delivered ''unknown session'') False"
| exec_structured_refused: "si_MessageSubmit i \<Longrightarrow>
     ValidateMessage \<lparr>mg_OperationID = op, mg_Text = composerMessageText data, mg_Mode = mode\<rparr> \<noteq> None \<or> \<not> service
       \<or> (err = None \<and> \<not> mr_Accepted r \<and> mr_Boundary r \<noteq> ''unknown'') \<Longrightarrow>
     execution explain op data mode (Some i) (submitStructuredMessage explain op data mode service (r, err)) False"
| exec_structured: "si_MessageSubmit i \<Longrightarrow>
     ValidateMessage \<lparr>mg_OperationID = op, mg_Text = composerMessageText data, mg_Mode = mode\<rparr> = None \<Longrightarrow> service \<Longrightarrow>
     err \<noteq> None \<or> mr_Boundary r = ''unknown'' \<or> mr_Accepted r \<and> took \<Longrightarrow>
     execution explain op data mode (Some i) (submitStructuredMessage explain op data mode service (r, err)) took"
| exec_steer: "\<not> si_MessageSubmit i \<Longrightarrow> mode \<noteq> [] \<Longrightarrow> mode \<noteq> ''auto'' \<Longrightarrow>
     execution explain op data mode (Some i) (not_delivered steer_refusal) False"
| exec_blocked: "\<not> si_MessageSubmit i \<Longrightarrow> mode = [] \<or> mode = ''auto'' \<Longrightarrow> semanticSubmitRefusal i = Some reason \<Longrightarrow>
     execution explain op data mode (Some i) (not_delivered reason) False"
| exec_legacy: "\<not> si_MessageSubmit i \<Longrightarrow> mode = [] \<or> mode = ''auto'' \<Longrightarrow> semanticSubmitRefusal i = None \<Longrightarrow> legacyProvider i \<Longrightarrow>
     deliverLegacyProvider g = (st, delivered, touched) \<Longrightarrow> took = touched \<or> (st = StatusUnknown \<and> \<not> took) \<Longrightarrow>
     execution explain op data mode (Some i) (submitLegacyProvider reason g) took"
| exec_plain: "\<not> si_MessageSubmit i \<Longrightarrow> mode = [] \<or> mode = ''auto'' \<Longrightarrow> semanticSubmitRefusal i = None \<Longrightarrow> \<not> legacyProvider i \<Longrightarrow>
     took \<or> (\<exists>e. p = PlainNotWritten e) \<Longrightarrow>
     execution explain op data mode (Some i) (submit_plain p) took"

section \<open>The desk\<close>

text \<open>
  The receipts, the submissions under way (whether the message has been handed over, and with what result), the answers of
  runners that arrived after their caller had gone, and two histories: what providers were given (the session, the hash and the
  length of the text), and each time a request for a receipt found a late confirmation, the receipt as it read it, the session
  the registry returned, and the boundary it goes on to record.
\<close>

datatype phase = Begun string string | Executed submit_result

record taken =
  tk_Operation :: string
  tk_Session :: string
  tk_Hash :: string
  tk_Bytes :: nat

record late_look =
  lk_Record :: delivery_record
  lk_Session :: session
  lk_Boundary :: string

record desk =
  dk_Files :: receipts
  dk_Running :: "string \<Rightarrow> phase option"
  dk_Acks :: "string \<Rightarrow> message_result option"
  dk_Taken :: "taken list"
  dk_Looks :: "late_look list"

definition taken_of :: "string \<Rightarrow> desk \<Rightarrow> taken list" where
  "taken_of op d = filter (\<lambda>t. tk_Operation t = op) (dk_Taken d)"

text \<open>
  A request for a receipt reads it, asks the session the registry knows, and then confirms: other steps come in between.  Of
  the late answer of a runner the contract is that of \<open>execution\<close>: one that accepts an operation means that it was given.
  Of what the transcript says nothing is assumed: anybody may have typed the text that is found there.
\<close>

inductive desk_step ::
  "(string \<Rightarrow> int option) \<Rightarrow> (byte list \<Rightarrow> json option) \<Rightarrow> (byte list \<Rightarrow> string) \<Rightarrow> (string \<Rightarrow> string) \<Rightarrow> (message_error \<Rightarrow> string)
   \<Rightarrow> desk \<Rightarrow> desk \<Rightarrow> bool" for clock parse digest hash explain where
  desk_begin: "Begin hash mkdir creation works now op sid data mode (dk_Files d) = (Inr (r, True), fs) \<Longrightarrow>
     desk_step clock parse digest hash explain d (d\<lparr>dk_Files := fs, dk_Running := (dk_Running d)(op \<mapsto> Begun data mode)\<rparr>)"
| desk_again: "Begin hash mkdir creation works now op sid data mode (dk_Files d) = (answer, fs) \<Longrightarrow> \<forall>r. answer \<noteq> Inr (r, True) \<Longrightarrow>
     desk_step clock parse digest hash explain d (d\<lparr>dk_Files := fs\<rparr>)"
| desk_intent: "dk_Running d op = Some (Begun data mode) \<Longrightarrow>
     desk_step clock parse digest hash explain d
       (d\<lparr>dk_Files := snd (RecordTranscriptIntent works op (transcript_boundary digest hash data s) (dk_Files d))\<rparr>)"
| desk_execute: "dk_Running d op = Some (Begun data mode) \<Longrightarrow> dk_Files d op = Some (Stored r) \<Longrightarrow>
     execution explain op data mode i result took \<Longrightarrow>
     desk_step clock parse digest hash explain d (d\<lparr>dk_Running := (dk_Running d)(op \<mapsto> Executed result),
       dk_Taken := (if took then dk_Taken d @ [\<lparr>tk_Operation = op, tk_Session = dr_SessionID r, tk_Hash = hash data,
         tk_Bytes = length data\<rparr>] else dk_Taken d)\<rparr>)"
| desk_complete: "dk_Running d op = Some (Executed x) \<Longrightarrow>
     Complete works now op (sr_Status x) (sr_Delivered x) (sr_Retry x) (sr_Reason x) (sr_Acceptance x) (dk_Files d) = (answer, fs) \<Longrightarrow>
     desk_step clock parse digest hash explain d (d\<lparr>dk_Files := fs, dk_Running := (dk_Running d)(op := None)\<rparr>)"
| desk_ack: "(\<And>result. answer = Some result \<Longrightarrow> mr_Accepted result \<Longrightarrow> taken_of op d \<noteq> []) \<Longrightarrow>
     desk_step clock parse digest hash explain d (d\<lparr>dk_Acks := (dk_Acks d)(op := answer)\<rparr>)"
| desk_look: "Get op (dk_Files d) = Inr r \<Longrightarrow> si_ID (ss_Info s) = dr_SessionID r \<Longrightarrow>
     reconcileLateAcceptance clock parse digest hash (Some (s, dk_Acks d (dr_OperationID r))) r = Some acc \<Longrightarrow>
     desk_step clock parse digest hash explain d
       (d\<lparr>dk_Looks := dk_Looks d @ [\<lparr>lk_Record = r, lk_Session = s, lk_Boundary = acc\<rparr>]\<rparr>)"
| desk_confirm: "look \<in> set (dk_Looks d) \<Longrightarrow>
     desk_step clock parse digest hash explain d
       (d\<lparr>dk_Files := snd (ConfirmAccepted works now (dr_OperationID (lk_Record look)) (lk_Boundary look) reason (dk_Files d))\<rparr>)"
| desk_abandon: "desk_step clock parse digest hash explain d (d\<lparr>dk_Running := (dk_Running d)(op := None)\<rparr>)"
| desk_restart: "desk_step clock parse digest hash explain d (d\<lparr>dk_Running := (\<lambda>op. None), dk_Acks := (\<lambda>op. None)\<rparr>)"

definition desk_start :: "desk \<Rightarrow> bool" where
  "desk_start d \<longleftrightarrow> dk_Files d = (\<lambda>op. None) \<and> dk_Running d = (\<lambda>op. None) \<and> dk_Acks d = (\<lambda>op. None)
     \<and> dk_Taken d = [] \<and> dk_Looks d = []"

abbreviation desk_reached ::
  "(string \<Rightarrow> int option) \<Rightarrow> (byte list \<Rightarrow> json option) \<Rightarrow> (byte list \<Rightarrow> string) \<Rightarrow> (string \<Rightarrow> string) \<Rightarrow> (message_error \<Rightarrow> string)
   \<Rightarrow> desk \<Rightarrow> bool" where
  "desk_reached clock parse digest hash explain \<equiv> reached (desk_step clock parse digest hash explain) desk_start"

section \<open>What a receipt says\<close>

record receipt_body =
  rb_Record :: delivery_record
  rb_Status :: delivery_status
  rb_Delivered :: bool
  rb_Retry :: bool
  rb_Reason :: string
  rb_Duplicate :: bool

text \<open>\<open>legacy\<close>: the session is registered and its provider is written to as a terminal.\<close>

definition deliveryReceiptBody :: "bool \<Rightarrow> delivery_record \<Rightarrow> bool \<Rightarrow> receipt_body" where
  "deliveryReceiptBody legacy r duplicate =
     (let (st, delivered, retry, reason) =
            (if dr_Status r = StatusAccepted \<and> dr_Acceptance r = [] \<and> legacy
             then (StatusUnknown, False, False, ''this legacy receipt confirms only terminal input writes, not the complete provider message; ''
               @ ''inspect history and do not automatically resend'')
             else (dr_Status r, dr_Delivered r, dr_Retry r, dr_Reason r));
          (st1, reason1) =
            (if st = StatusPending
             then (StatusUnknown, if reason = [] then ''the request was recorded, but Sessions cannot prove whether runner ''
               @ ''input happened before the previous caller disconnected'' else reason)
             else (st, reason))
      in \<lparr>rb_Record = r, rb_Status = st1, rb_Delivered = delivered, rb_Retry = retry, rb_Reason = reason1, rb_Duplicate = duplicate\<rparr>)"

section \<open>At most once\<close>

text \<open>A result and how often the message was given while it came about.\<close>

definition honest :: "submit_result \<Rightarrow> nat \<Rightarrow> bool" where
  "honest x n \<longleftrightarrow> n \<le> 1 \<and> sr_Status x \<noteq> StatusPending \<and> (sr_Status x = StatusNotDelivered \<or> sr_Retry x \<longrightarrow> n = 0)
     \<and> (sr_Delivered x \<or> sr_Status x = StatusAccepted \<or> sr_Status x = StatusTextOnly \<longrightarrow> n = 1)"

text \<open>
  The message of a receipt was found in the conversation: a request asked the session of that id while the session still was the
  run the submission had noted, and one of its records is a user message with the submitted text.
\<close>

definition found_by ::
  "(string \<Rightarrow> int option) \<Rightarrow> (byte list \<Rightarrow> json option) \<Rightarrow> (string \<Rightarrow> string) \<Rightarrow> late_look \<Rightarrow> delivery_record \<Rightarrow> bool" where
  "found_by clock parse hash look r \<longleftrightarrow> (let s = lk_Session look in \<exists>intent data. dr_Transcript r = Some intent
     \<and> hash data = dr_ContentHash r \<and> length data = dr_ContentBytes r
     \<and> si_ID (ss_Info s) = dr_SessionID r \<and> si_CreatedAt (ss_Info s) = ti_RuntimeCreatedAt intent \<and> legacyProvider (ss_Info s)
     \<and> (\<exists>raw \<in> set (ss_Claude s). MatchesLateUserEvent clock parse hash raw (MessageHash hash data) (dr_CreatedAtMS r)))"

definition found_in_history ::
  "(string \<Rightarrow> int option) \<Rightarrow> (byte list \<Rightarrow> json option) \<Rightarrow> (string \<Rightarrow> string) \<Rightarrow> late_look list \<Rightarrow> delivery_record \<Rightarrow> bool" where
  "found_in_history clock parse hash looks r \<longleftrightarrow> dr_Acceptance r = ''transcript'' \<and> (\<exists>look \<in> set looks. found_by clock parse hash look r)"

text \<open>What a receipt may say when its message was given \<open>n\<close> times and was found in the conversation or not.\<close>

definition record_honest :: "delivery_record \<Rightarrow> nat \<Rightarrow> bool \<Rightarrow> bool" where
  "record_honest r n found \<longleftrightarrow> n \<le> 1 \<and> (dr_Status r = StatusNotDelivered \<or> dr_Retry r \<longrightarrow> n = 0)
     \<and> (dr_Delivered r \<or> dr_Status r = StatusAccepted \<or> dr_Status r = StatusTextOnly \<longrightarrow> n = 1 \<or> found)
     \<and> (dr_Status r = StatusPending \<longrightarrow> \<not> dr_Retry r)"

text \<open>The boundary a receipt holds is the one of its own text.\<close>

definition own_boundary :: "(string \<Rightarrow> string) \<Rightarrow> delivery_record \<Rightarrow> bool" where
  "own_boundary hash r \<longleftrightarrow> (\<forall>intent. dr_Transcript r = Some intent \<longrightarrow>
     (\<exists>data. hash data = dr_ContentHash r \<and> length data = dr_ContentBytes r \<and> ti_MessageHash intent = MessageHash hash data))"

text \<open>
  A look at a receipt: what it read is unknown, and the receipt is still that, or was accepted since and is the same otherwise.
\<close>

definition same_message :: "delivery_record \<Rightarrow> delivery_record \<Rightarrow> bool" where
  "same_message r q \<longleftrightarrow> dr_OperationID q = dr_OperationID r \<and> dr_SessionID q = dr_SessionID r \<and> dr_ContentHash q = dr_ContentHash r
     \<and> dr_ContentBytes q = dr_ContentBytes r \<and> dr_Transcript q = dr_Transcript r \<and> dr_CreatedAtMS q = dr_CreatedAtMS r"

definition look_ok ::
  "(string \<Rightarrow> int option) \<Rightarrow> (byte list \<Rightarrow> json option) \<Rightarrow> (string \<Rightarrow> string) \<Rightarrow> delivery_record \<Rightarrow> nat \<Rightarrow> late_look \<Rightarrow> bool" where
  "look_ok clock parse hash r n look \<longleftrightarrow> same_message (lk_Record look) r \<and> (dr_Status r = StatusUnknown \<or> dr_Status r = StatusAccepted)
     \<and> (n = 0 \<longrightarrow> lk_Boundary look = ''transcript'' \<and> found_by clock parse hash look r)"

definition looks_of :: "string \<Rightarrow> desk \<Rightarrow> late_look list" where
  "looks_of op d = filter (\<lambda>l. dr_OperationID (lk_Record l) = op) (dk_Looks d)"

text \<open>The file of an operation, its phase, the late answer, how it was given, and the looks at it.\<close>

definition op_ok ::
  "(string \<Rightarrow> int option) \<Rightarrow> (byte list \<Rightarrow> json option) \<Rightarrow> (string \<Rightarrow> string) \<Rightarrow> string
   \<Rightarrow> stored option \<Rightarrow> phase option \<Rightarrow> message_result option \<Rightarrow> taken list \<Rightarrow> late_look list \<Rightarrow> bool" where
  "op_ok clock parse hash op file ph ack ts looks \<longleftrightarrow>
     (\<forall>a. ack = Some a \<and> mr_Accepted a \<longrightarrow> ts \<noteq> []) \<and> (case file of
       Some (Stored r) \<Rightarrow> dr_OperationID r = op \<and> operationIDPattern op \<and> own_boundary hash r
         \<and> record_honest r (length ts) (found_in_history clock parse hash looks r)
         \<and> (\<forall>look \<in> set looks. look_ok clock parse hash r (length ts) look)
         \<and> (\<forall>t \<in> set ts. tk_Session t = dr_SessionID r \<and> tk_Hash t = dr_ContentHash r \<and> tk_Bytes t = dr_ContentBytes r)
         \<and> (case ph of
              None \<Rightarrow> True
            | Some (Begun data mode) \<Rightarrow> dr_Status r = StatusPending \<and> ts = []
                \<and> hash data = dr_ContentHash r \<and> length data = dr_ContentBytes r
            | Some (Executed x) \<Rightarrow> dr_Status r = StatusPending \<and> honest x (length ts))
     | _ \<Rightarrow> ts = [] \<and> ph = None \<and> looks = [])"

definition op_inv ::
  "(string \<Rightarrow> int option) \<Rightarrow> (byte list \<Rightarrow> json option) \<Rightarrow> (string \<Rightarrow> string) \<Rightarrow> desk \<Rightarrow> string \<Rightarrow> bool" where
  "op_inv clock parse hash d op \<longleftrightarrow>
     op_ok clock parse hash op (dk_Files d op) (dk_Running d op) (dk_Acks d op) (taken_of op d) (looks_of op d)"

lemma execution_honest: "execution explain op data mode i x took \<Longrightarrow> honest x (if took then 1 else 0)"
proof (induction rule: execution.induct)
  case (exec_legacy i g st delivered touched took reason)
  then show ?case by (auto simp: honest_def submitLegacyProvider_def deliverLegacyProvider_def split: if_splits)
qed (auto simp: honest_def not_delivered_def submitStructuredMessage_def submit_plain_def Let_def
       split: option.split plain_steps.split if_splits)

lemma desk_histories [simp]:
  "taken_of op (d\<lparr>dk_Files := x\<rparr>) = taken_of op d" "taken_of op (d\<lparr>dk_Running := y\<rparr>) = taken_of op d"
  "taken_of op (d\<lparr>dk_Files := x, dk_Running := y\<rparr>) = taken_of op d"
  "taken_of op (d\<lparr>dk_Acks := a\<rparr>) = taken_of op d" "taken_of op (d\<lparr>dk_Running := y, dk_Acks := a\<rparr>) = taken_of op d"
  "taken_of op (d\<lparr>dk_Looks := l\<rparr>) = taken_of op d"
  "taken_of op (d\<lparr>dk_Running := y, dk_Taken := ts @ [t]\<rparr>)
    = filter (\<lambda>t. tk_Operation t = op) ts @ (if tk_Operation t = op then [t] else [])"
  "taken_of op (d\<lparr>dk_Running := y, dk_Taken := dk_Taken d\<rparr>) = taken_of op d"
  "looks_of op (d\<lparr>dk_Files := x\<rparr>) = looks_of op d" "looks_of op (d\<lparr>dk_Running := y\<rparr>) = looks_of op d"
  "looks_of op (d\<lparr>dk_Files := x, dk_Running := y\<rparr>) = looks_of op d"
  "looks_of op (d\<lparr>dk_Acks := a\<rparr>) = looks_of op d" "looks_of op (d\<lparr>dk_Running := y, dk_Acks := a\<rparr>) = looks_of op d"
  "looks_of op (d\<lparr>dk_Running := y, dk_Taken := ts'\<rparr>) = looks_of op d"
  "looks_of op (d\<lparr>dk_Looks := dk_Looks d @ [k]\<rparr>) = looks_of op d @ (if dr_OperationID (lk_Record k) = op then [k] else [])"
  by (simp_all add: taken_of_def looks_of_def)

text \<open>Each operation of the store leaves every other receipt alone.\<close>

lemma store_frame:
  "op' \<noteq> op \<Longrightarrow> snd (Begin hash mkdir creation works now op sid data mode fs) op' = fs op'"
  "op' \<noteq> op \<Longrightarrow> snd (Complete works now op st dl rt rs ac fs) op' = fs op'"
  "op' \<noteq> op \<Longrightarrow> snd (ConfirmAccepted works now op acc reason fs) op' = fs op'"
  "op' \<noteq> op \<Longrightarrow> snd (RecordTranscriptIntent works op intent fs) op' = fs op'"
  by (auto simp: Begin_def Complete_def ConfirmAccepted_def RecordTranscriptIntent_def writeAtomic_def Let_def
      split: creation.split sum.split)

text \<open>What a submission that may run finds, and what the others leave.\<close>

lemma begin_created:
  assumes "Begin hash mkdir creation works now op sid data mode fs = (Inr (r, True), fs')"
  shows "fs' op = Some (Stored r)" "dr_Status r = StatusPending" "dr_OperationID r = op \<or> (\<exists>r0. fs op = Some (Stored r0) \<and> dr_OperationID r0 = dr_OperationID r)"
    "operationIDPattern op" "hash data = dr_ContentHash r" "length data = dr_ContentBytes r" "dr_SessionID r = sid"
    "\<not> dr_Delivered r" "\<not> dr_Retry r"
    "fs op = None \<or> (\<exists>r0. fs op = Some (Stored r0) \<and> dr_Status r0 = StatusNotDelivered \<and> dr_SessionID r0 = sid
        \<and> dr_ContentHash r0 = hash data \<and> dr_ContentBytes r0 = length data)"
  using assms
  by (auto simp: Begin_def read_receipt_def writeAtomic_def Let_def
      split: if_splits creation.splits sum.splits option.splits stored.splits)

lemma begin_other:
  assumes "Begin hash mkdir creation works now op sid data mode fs = (answer, fs')" and "\<forall>r. answer \<noteq> Inr (r, True)"
  shows "fs' op = fs op \<or> fs op = None"
  using assms
  by (auto simp: Begin_def read_receipt_def writeAtomic_def Let_def
      split: if_splits creation.splits sum.splits option.splits stored.splits)

lemma begin_left:
  assumes "Begin hash mkdir creation works now op sid data mode fs = (answer, fs')" and "\<forall>r. answer \<noteq> Inr (r, True)"
    and "fs op = None" and "fs' op = Some (Stored r)"
  shows "dr_OperationID r = op" "operationIDPattern op" "dr_Status r = StatusPending" "\<not> dr_Delivered r" "\<not> dr_Retry r"
  using assms
  by (auto simp: Begin_def Let_def split: if_splits creation.splits option.splits)

lemma complete_effect:
  assumes "Complete works now op st dl rt rs ac fs = (answer, fs')" and "fs op = Some (Stored r)" and "dr_Status r = StatusPending"
  shows "fs' op = Some (Stored r) \<or> (\<exists>r'. fs' op = Some (Stored r') \<and> same_message r r'
      \<and> dr_Status r' = st \<and> dr_Delivered r' = dl \<and> dr_Retry r' = rt)"
  using assms
  by (auto simp: Complete_def read_receipt_def writeAtomic_def same_message_def Let_def split: if_splits)

lemma confirm_effect:
  assumes "fs op = Some (Stored r)"
  shows "snd (ConfirmAccepted works now op acc reason fs) op = Some (Stored r)
    \<or> (dr_Status r = StatusUnknown \<and> (\<exists>r'. snd (ConfirmAccepted works now op acc reason fs) op = Some (Stored r')
        \<and> same_message r r' \<and> dr_Status r' = StatusAccepted \<and> dr_Delivered r' \<and> \<not> dr_Retry r' \<and> dr_Acceptance r' = acc))"
  using assms by (auto simp: ConfirmAccepted_def read_receipt_def writeAtomic_def same_message_def Let_def split: if_splits)

lemma intent_effect:
  assumes "fs op = Some (Stored r)"
  shows "snd (RecordTranscriptIntent works op intent fs) op = Some (Stored r)
    \<or> snd (RecordTranscriptIntent works op intent fs) op = Some (Stored (r\<lparr>dr_Transcript := Some intent\<rparr>))"
  using assms by (auto simp: RecordTranscriptIntent_def read_receipt_def writeAtomic_def)

lemma no_file_effect:
  "fs op = None \<or> fs op = Some Unreadable \<Longrightarrow> snd (ConfirmAccepted works now op acc reason fs) op = fs op"
  "fs op = None \<or> fs op = Some Unreadable \<Longrightarrow> snd (RecordTranscriptIntent works op intent fs) op = fs op"
  by (auto simp: ConfirmAccepted_def RecordTranscriptIntent_def read_receipt_def)

lemma found_cong: "same_message r q \<Longrightarrow> found_by clock parse hash look q = found_by clock parse hash look r"
  by (simp add: same_message_def found_by_def Let_def)

lemma own_cong: "same_message r q \<Longrightarrow> own_boundary hash q = own_boundary hash r"
  by (simp add: same_message_def own_boundary_def)

lemma look_cong: "same_message r q \<Longrightarrow> dr_Status q = StatusUnknown \<or> dr_Status q = StatusAccepted \<Longrightarrow>
   look_ok clock parse hash r n look \<Longrightarrow> look_ok clock parse hash q n look"
  using found_cong [of r q] by (auto simp: look_ok_def) (auto simp: same_message_def)

section \<open>Each step keeps the operation in order\<close>

lemma op_ok_stored:
  assumes "op_ok clock parse hash op (Some (Stored r)) ph ack ts looks"
  shows "dr_OperationID r = op" "operationIDPattern op" "own_boundary hash r"
    "record_honest r (length ts) (found_in_history clock parse hash looks r)"
    "\<forall>look \<in> set looks. look_ok clock parse hash r (length ts) look"
    "\<forall>t \<in> set ts. tk_Session t = dr_SessionID r \<and> tk_Hash t = dr_ContentHash r \<and> tk_Bytes t = dr_ContentBytes r"
    "\<forall>a. ack = Some a \<and> mr_Accepted a \<longrightarrow> ts \<noteq> []"
    "ph = Some (Begun data mode) \<Longrightarrow> dr_Status r = StatusPending \<and> ts = []
        \<and> hash data = dr_ContentHash r \<and> length data = dr_ContentBytes r"
    "ph = Some (Executed x) \<Longrightarrow> dr_Status r = StatusPending \<and> honest x (length ts)"
  using assms by (auto simp: op_ok_def)

lemma op_ok_pending:
  assumes "op_ok clock parse hash op (Some (Stored r)) ph ack ts looks" "dr_Status r = StatusPending \<or> dr_Status r = StatusNotDelivered"
  shows "looks = []"
  using op_ok_stored(5) [OF assms(1)] assms(2) by (cases looks) (auto simp: look_ok_def)

lemma op_ok_running: "op_ok clock parse hash op file (Some p) ack ts looks \<Longrightarrow> \<exists>r. file = Some (Stored r)"
  by (auto simp: op_ok_def split: option.splits stored.splits)

lemma op_ok_looked: "op_ok clock parse hash op file ph ack ts looks \<Longrightarrow> look \<in> set looks \<Longrightarrow> \<exists>r. file = Some (Stored r)"
  by (auto simp: op_ok_def split: option.splits stored.splits)

lemma op_ok_settled:
  assumes "op_ok clock parse hash op (Some (Stored r)) ph ack ts looks" and "same_message r r'"
    and "record_honest r' (length ts) (found_in_history clock parse hash looks r')"
    and "looks = [] \<or> dr_Status r' = StatusUnknown \<or> dr_Status r' = StatusAccepted"
  shows "op_ok clock parse hash op (Some (Stored r')) None ack ts looks"
  using op_ok_stored(1-7) [OF assms(1)] assms(2-4) own_cong [OF assms(2)] look_cong [OF assms(2)]
  by (auto simp: op_ok_def same_message_def)

lemma begin_op_ok:
  assumes "Begin hash mkdir creation works now op sid data mode fs = (Inr (r, True), fs')"
    and "op_ok clock parse hash op (fs op) ph ack ts looks"
  shows "op_ok clock parse hash op (fs' op) (Some (Begun data mode)) ack ts looks"
proof -
  note b = begin_created [OF assms(1)]
  consider "fs op = None" | r0 where "fs op = Some (Stored r0)" "dr_Status r0 = StatusNotDelivered" using b(10) by (elim disjE exE conjE) simp_all
  then show ?thesis
  proof cases
    case 1
    then have "ts = []" "looks = []" "ack = None \<or> \<not> mr_Accepted (the ack)" using assms(2) by (auto simp: op_ok_def)
    moreover have "dr_Transcript r = None" "dr_OperationID r = op"
      using assms(1) 1 by (auto simp: Begin_def Let_def split: if_splits creation.splits)
    ultimately show ?thesis using b by (auto simp: op_ok_def own_boundary_def record_honest_def)
  next
    case 2
    note o = op_ok_stored [OF assms(2) [unfolded 2(1)]]
    have l: "looks = []" using op_ok_pending assms(2) 2 by metis
    have "ts = []" using o(4) 2(2) by (simp add: record_honest_def)
    moreover have "dr_Transcript r = dr_Transcript r0" "dr_OperationID r = dr_OperationID r0" "dr_ContentHash r = dr_ContentHash r0"
      "dr_ContentBytes r = dr_ContentBytes r0"
      using assms(1) 2 by (auto simp: Begin_def read_receipt_def writeAtomic_def Let_def split: if_splits)
    ultimately show ?thesis using b o(1,2,3,7) l by (simp add: op_ok_def own_boundary_def record_honest_def)
  qed
qed

lemma again_op_ok:
  assumes "Begin hash mkdir creation works now op sid data mode fs = (answer, fs')" "\<forall>r. answer \<noteq> Inr (r, True)"
    and "op_ok clock parse hash op (fs op) ph ack ts looks"
  shows "op_ok clock parse hash op (fs' op) ph ack ts looks"
proof (cases "fs' op = fs op")
  case False
  then have o: "fs op = None" using begin_other [OF assms(1,2)] by blast
  then have e: "ts = []" "looks = []" "ph = None" "\<forall>a. ack = Some a \<and> mr_Accepted a \<longrightarrow> ts \<noteq> []"
    using assms(3) by (auto simp: op_ok_def)
  show ?thesis
  proof (cases "fs' op")
    case (Some st)
    then show ?thesis
    proof (cases st)
      case (Stored r)
      then have "fs' op = Some (Stored r)" using Some by simp
      note l = begin_left [OF assms(1,2) o this]
      have "dr_Transcript r = None"
        using assms(1) o \<open>fs' op = Some (Stored r)\<close> by (auto simp: Begin_def Let_def split: if_splits creation.splits option.splits)
      then show ?thesis using l e Some Stored by (simp add: op_ok_def own_boundary_def record_honest_def)
    qed (use e Some in \<open>simp add: op_ok_def\<close>)
  qed (use e in \<open>simp add: op_ok_def\<close>)
qed (use assms(3) in simp)

lemma intent_op_ok:
  assumes "op_ok clock parse hash op (fs op) (Some (Begun data mode)) ack ts looks"
  shows "op_ok clock parse hash op (snd (RecordTranscriptIntent works op (transcript_boundary digest hash data s) fs) op) (Some (Begun data mode)) ack ts looks"
proof -
  obtain r where r: "fs op = Some (Stored r)" using op_ok_running [OF assms] by blast
  note o = op_ok_stored [OF assms [unfolded r]]
  have p: "dr_Status r = StatusPending" "looks = []" using o(8) op_ok_pending [OF assms [unfolded r]] by auto
  let ?r = "r\<lparr>dr_Transcript := Some (transcript_boundary digest hash data s)\<rparr>"
  have "own_boundary hash ?r" using o(8) [OF refl] by (auto simp: own_boundary_def transcript_boundary_def Let_def)
  moreover have "record_honest ?r (length ts) (found_in_history clock parse hash looks ?r)"
    using o(4) p by (auto simp: record_honest_def found_in_history_def)
  ultimately have "op_ok clock parse hash op (Some (Stored ?r)) (Some (Begun data mode)) ack ts looks"
    using o(1,2,6,7) o(8) [OF refl] p(2) by (simp add: op_ok_def)
  then show ?thesis using intent_effect [where fs = fs, OF r] assms r by metis
qed

lemma execute_op_ok:
  assumes "op_ok clock parse hash op (Some (Stored r)) (Some (Begun data mode)) ack ts looks" and "execution explain op data mode i x took"
  shows "op_ok clock parse hash op (Some (Stored r)) (Some (Executed x)) ack
     (ts @ (if took then [\<lparr>tk_Operation = op, tk_Session = dr_SessionID r, tk_Hash = hash data, tk_Bytes = length data\<rparr>] else [])) looks"
proof -
  note o = op_ok_stored [OF assms(1)]
  have p: "dr_Status r = StatusPending" "ts = []" "hash data = dr_ContentHash r" "length data = dr_ContentBytes r"
    using o(8) [OF refl] by simp_all
  have l: "looks = []" using op_ok_pending [OF assms(1)] p(1) by simp
  show ?thesis using o(1-4) p l execution_honest [OF assms(2)] o(7)
    by (auto simp: op_ok_def record_honest_def honest_def split: if_splits)
qed

lemma complete_op_ok:
  assumes "Complete works now op (sr_Status x) (sr_Delivered x) (sr_Retry x) (sr_Reason x) (sr_Acceptance x) fs = (answer, fs')"
    and "op_ok clock parse hash op (fs op) (Some (Executed x)) ack ts looks"
  shows "op_ok clock parse hash op (fs' op) None ack ts looks"
proof -
  obtain r where r: "fs op = Some (Stored r)" using op_ok_running [OF assms(2)] by blast
  note o = op_ok_stored [OF assms(2) [unfolded r]]
  have x: "dr_Status r = StatusPending" "honest x (length ts)" using o(9) [OF refl] by simp_all
  have l: "looks = []" using op_ok_pending [OF assms(2) [unfolded r]] x(1) by simp
  show ?thesis
    using complete_effect [OF assms(1) r x(1)]
  proof (elim disjE exE conjE)
    assume "fs' op = Some (Stored r)"
    then show ?thesis using op_ok_settled [OF assms(2) [unfolded r], of r] o(4) l by (simp add: same_message_def)
  next
    fix r' assume u: "fs' op = Some (Stored r')" "same_message r r'" "dr_Status r' = sr_Status x"
      "dr_Delivered r' = sr_Delivered x" "dr_Retry r' = sr_Retry x"
    have "record_honest r' (length ts) f" for f using x(2) u(3-5) by (auto simp: honest_def record_honest_def)
    then show ?thesis using op_ok_settled [OF assms(2) [unfolded r] u(2)] l u(1) by simp
  qed
qed

lemma late_look:
  assumes "reconcileLateAcceptance clock parse digest hash (Some (s, ack)) r = Some acc" "own_boundary hash r"
    and "si_ID (ss_Info s) = dr_SessionID r"
  shows "dr_Status r = StatusUnknown"
    and "acc = ''transcript'' \<and> found_by clock parse hash \<lparr>lk_Record = r, lk_Session = s, lk_Boundary = acc\<rparr> r
      \<or> (\<exists>a. ack = Some a \<and> mr_Accepted a)"
proof -
  show "dr_Status r = StatusUnknown" using assms(1) by (auto simp: reconcileLateAcceptance_def split: if_splits)
  show "acc = ''transcript'' \<and> found_by clock parse hash \<lparr>lk_Record = r, lk_Session = s, lk_Boundary = acc\<rparr> r
      \<or> (\<exists>a. ack = Some a \<and> mr_Accepted a)"
  proof (cases "dr_Transcript r")
    case (Some intent)
    then have b: "acc = ''transcript''" and c: "reconcileTranscriptAcceptance clock parse digest hash r intent s"
      using assms(1) by (auto simp: reconcileLateAcceptance_def split: if_splits)
    have w: "set (ew_Events (EventsWindow a b c s)) \<subseteq> set (ss_Claude s)" for a b c
      by (auto simp: EventsWindow_def Let_def dest!: in_set_takeD in_set_dropD)
    have "set (tl es) \<subseteq> set es" for es :: "byte list list" by (cases es) auto
    then obtain raw where raw: "raw \<in> set (ss_Claude s)" "MatchesLateUserEvent clock parse hash raw (ti_MessageHash intent) (dr_CreatedAtMS r)"
      and i: "legacyProvider (ss_Info s)" "si_CreatedAt (ss_Info s) = ti_RuntimeCreatedAt intent"
      using c w by (fastforce simp: reconcileTranscriptAcceptance_def Let_def split: if_splits)
    obtain data where "hash data = dr_ContentHash r" "length data = dr_ContentBytes r" "ti_MessageHash intent = MessageHash hash data"
      using assms(2) Some by (auto simp: own_boundary_def)
    then show ?thesis using raw i b Some assms(3) by (auto simp: found_by_def Let_def)
  next
    case None
    then show ?thesis using assms(1) by (auto simp: reconcileLateAcceptance_def split: if_splits option.splits)
  qed
qed

lemma look_op_ok:
  assumes "op_ok clock parse hash op (Some (Stored r)) ph ack ts looks"
    and "reconcileLateAcceptance clock parse digest hash (Some (s, ack)) r = Some acc" "si_ID (ss_Info s) = dr_SessionID r"
  shows "op_ok clock parse hash op (Some (Stored r)) ph ack ts (looks @ [\<lparr>lk_Record = r, lk_Session = s, lk_Boundary = acc\<rparr>])"
proof -
  note o = op_ok_stored [OF assms(1)]
  note l = late_look [OF assms(2) o(3) assms(3)]
  have "look_ok clock parse hash r (length ts) \<lparr>lk_Record = r, lk_Session = s, lk_Boundary = acc\<rparr>"
    using l o(7) by (auto simp: look_ok_def same_message_def)
  moreover have "record_honest r (length ts) (found_in_history clock parse hash (looks @ [k]) r)" for k
    using o(4) by (auto simp: record_honest_def found_in_history_def)
  ultimately show ?thesis using assms(1) by (simp add: op_ok_def)
qed

lemma confirm_op_ok:
  assumes "op_ok clock parse hash op (fs op) ph ack ts looks" "look \<in> set looks"
  shows "op_ok clock parse hash op (snd (ConfirmAccepted works now op (lk_Boundary look) reason fs) op) ph ack ts looks"
proof -
  obtain r where r: "fs op = Some (Stored r)" using op_ok_looked [OF assms] by blast
  note o = op_ok_stored [OF assms(1) [unfolded r]]
  have k: "look_ok clock parse hash r (length ts) look" using o(5) assms(2) by blast
  have idle: "ph = None"
  proof (rule ccontr)
    assume "ph \<noteq> None"
    then obtain p where "ph = Some p" by blast
    then have "dr_Status r = StatusPending" using o(8,9) by (cases p) auto
    then show False using k by (simp add: look_ok_def)
  qed
  show ?thesis
    using confirm_effect [where fs = fs, OF r, of works now "lk_Boundary look" reason]
  proof (elim disjE conjE exE)
    fix r' assume u: "dr_Status r = StatusUnknown" "snd (ConfirmAccepted works now op (lk_Boundary look) reason fs) op = Some (Stored r')"
      "same_message r r'" "dr_Status r' = StatusAccepted" "dr_Delivered r'" "\<not> dr_Retry r'" "dr_Acceptance r' = lk_Boundary look"
    have "length ts \<le> 1" using o(4) by (simp add: record_honest_def)
    moreover have "found_in_history clock parse hash looks r'" if "length ts = 0"
      using k that assms(2) found_cong [OF u(3)] u(7) by (auto simp: look_ok_def found_in_history_def)
    ultimately have "record_honest r' (length ts) (found_in_history clock parse hash looks r')"
      using u(4-6) by (cases "length ts") (auto simp: record_honest_def)
    then show ?thesis using op_ok_settled [OF assms(1) [unfolded r] u(3)] u(2,4) idle by simp
  qed (use assms(1) r idle in simp)
qed

lemma step_op_inv:
  assumes "desk_step clock parse digest hash explain d e" and all: "\<And>op. op_inv clock parse hash d op"
  shows "op_inv clock parse hash e op"
proof -
  note inv = all [of op]
  show ?thesis
  using assms(1)
proof (cases rule: desk_step.cases)
  case (desk_begin mkdir creation works now op' sid data mode r fs)
  have "op' \<noteq> op \<Longrightarrow> fs op = dk_Files d op"
    using store_frame(1) [of op op' hash mkdir creation works now sid data mode "dk_Files d"] desk_begin(2) by simp
  then show ?thesis using inv begin_op_ok desk_begin(2) unfolding desk_begin(1) op_inv_def by (cases "op' = op") auto
next
  case (desk_again mkdir creation works now op' sid data mode answer fs)
  have "op' \<noteq> op \<Longrightarrow> fs op = dk_Files d op"
    using store_frame(1) [of op op' hash mkdir creation works now sid data mode "dk_Files d"] desk_again(2) by simp
  then show ?thesis using inv again_op_ok [OF desk_again(2,3)] unfolding desk_again(1) op_inv_def by (cases "op' = op") auto
next
  case (desk_intent op' data mode works s)
  then show ?thesis using inv intent_op_ok [of clock parse hash op "dk_Files d" data mode] unfolding desk_intent(1) op_inv_def
    by (cases "op' = op") (auto simp: store_frame)
next
  case (desk_execute op' data mode r i result took)
  show ?thesis
  proof (cases "op' = op")
    case True
    have "op_ok clock parse hash op (Some (Stored r)) (Some (Begun data mode)) (dk_Acks d op) (taken_of op d) (looks_of op d)"
      using inv desk_execute(2,3) True by (simp add: op_inv_def)
    from execute_op_ok [OF this desk_execute(4) [unfolded True]] show ?thesis
      using desk_execute(3) True unfolding desk_execute(1) op_inv_def by (auto simp: taken_of_def split: if_splits)
  next
    case False
    then show ?thesis using inv unfolding desk_execute(1) op_inv_def by (auto simp: taken_of_def)
  qed
next
  case (desk_complete op' x works now answer fs)
  have "fs op = dk_Files d op" if "op' \<noteq> op" using store_frame(2) that desk_complete(3) by (metis snd_conv)
  then show ?thesis using inv complete_op_ok [OF desk_complete(3)] desk_complete(2) unfolding desk_complete(1) op_inv_def
    by (cases "op' = op") auto
next
  case (desk_ack answer op')
  then show ?thesis using inv unfolding desk_ack(1) op_inv_def by (cases "op' = op") (auto simp: op_ok_def)
next
  case (desk_look op' r s acc)
  have f: "dk_Files d op' = Some (Stored r)"
    using desk_look(2) by (auto simp: Get_def read_receipt_def split: if_splits option.splits stored.splits)
  show ?thesis
  proof (cases "dr_OperationID r = op")
    case True
    have "dr_OperationID r = op'" using all [of op'] f by (auto simp: op_inv_def op_ok_def)
    then have o: "op' = op" using True by simp
    from look_op_ok [OF inv [unfolded op_inv_def f [unfolded o]] desk_look(4) [unfolded True] desk_look(3)]
    show ?thesis using True f o unfolding desk_look(1) op_inv_def by simp
  next
    case False
    then show ?thesis using inv unfolding desk_look(1) op_inv_def by simp
  qed
next
  case (desk_confirm look works now reason)
  show ?thesis
  proof (cases "dr_OperationID (lk_Record look) = op")
    case True
    then have "look \<in> set (looks_of op d)" using desk_confirm(2) by (simp add: looks_of_def)
    from confirm_op_ok [where fs = "dk_Files d", OF inv [unfolded op_inv_def] this] show ?thesis using True unfolding desk_confirm(1) op_inv_def by simp
  next
    case False
    then show ?thesis using inv unfolding desk_confirm(1) op_inv_def by (simp add: store_frame)
  qed
next
  case (desk_abandon op')
  then show ?thesis using inv unfolding desk_abandon op_inv_def
    by (cases "op' = op") (auto simp: op_ok_def split: option.splits stored.splits)
next
  case desk_restart
  then show ?thesis using inv unfolding op_inv_def by (auto simp: op_ok_def split: option.splits stored.splits)
qed
qed

lemma desk_inv: "desk_reached clock parse digest hash explain d \<Longrightarrow> op_inv clock parse hash d op"
proof (induction arbitrary: op rule: reached.induct)
  case (reached_init d)
  then show ?case by (simp add: desk_start_def op_inv_def op_ok_def taken_of_def looks_of_def)
next
  case (reached_step d e)
  then show ?case by (blast intro: step_op_inv)
qed

section \<open>Properties\<close>


text \<open>An example: a message that was refused before it was sent is sent on the second request.\<close>

definition sample_op :: string where "sample_op = ''00000000-0000-4000-8000-000000000000''"

definition sample_begin :: "receipts \<Rightarrow> (delivery_error + delivery_record \<times> bool) \<times> receipts" where
  "sample_begin = Begin (\<lambda>t. t) True Created True 5 sample_op ''s1'' ''hi'' []"

abbreviation sample_steps :: "desk \<Rightarrow> desk \<Rightarrow> bool" where
  "sample_steps \<equiv> desk_step (\<lambda>_. None) (\<lambda>_. None) (\<lambda>_. []) (\<lambda>t. t) (\<lambda>_. [])"

abbreviation sample_desks :: "desk \<Rightarrow> bool" where
  "sample_desks \<equiv> desk_reached (\<lambda>_. None) (\<lambda>_. None) (\<lambda>_. []) (\<lambda>t. t) (\<lambda>_. [])"

definition sample_refused :: desk where
  "sample_refused = \<lparr>dk_Files = snd (Complete True 6 sample_op StatusNotDelivered False True ''unknown session'' None (snd (sample_begin (\<lambda>_. None)))),
     dk_Running = (\<lambda>_. None), dk_Acks = (\<lambda>_. None), dk_Taken = [], dk_Looks = []\<rparr>"

lemma sample_pattern: "operationIDPattern sample_op"
  by code_simp

lemma sample_refused_eval:
  "\<exists>r. dk_Files sample_refused sample_op = Some (Stored r) \<and> dr_Status r = StatusNotDelivered \<and> Get sample_op (dk_Files sample_refused) = Inr r"
  using sample_pattern
  by (simp add: sample_refused_def sample_begin_def Begin_def Complete_def read_receipt_def writeAtomic_def validTerminalStatus_def Get_def Let_def)

lemma sample_refused_reached: "sample_desks sample_refused"
proof -
  let ?d0 = "\<lparr>dk_Files = (\<lambda>_. None), dk_Running = (\<lambda>_. None), dk_Acks = (\<lambda>_. None), dk_Taken = [], dk_Looks = []\<rparr> :: desk"
  obtain r where b: "sample_begin (\<lambda>_. None) = (Inr (r, True), [sample_op \<mapsto> Stored r])"
    using sample_pattern by (simp add: sample_begin_def Begin_def Let_def)
  let ?d1 = "?d0\<lparr>dk_Files := [sample_op \<mapsto> Stored r], dk_Running := (dk_Running ?d0)(sample_op \<mapsto> Begun ''hi'' [])\<rparr>"
  have "sample_desks ?d0" by (rule reached_init) (simp add: desk_start_def)
  moreover have "sample_steps ?d0 ?d1"
    by (rule desk_begin) (use b in \<open>simp add: sample_begin_def\<close>)
  ultimately have r1: "sample_desks ?d1" by (rule reached_step)
  let ?x = "not_delivered ''unknown session''"
  let ?d2 = "?d1\<lparr>dk_Running := (dk_Running ?d1)(sample_op \<mapsto> Executed ?x), dk_Taken := (if False then [undefined] else dk_Taken ?d1)\<rparr>"
  have "sample_steps ?d1 (?d1\<lparr>dk_Running := (dk_Running ?d1)(sample_op \<mapsto> Executed ?x),
       dk_Taken := (if False then dk_Taken ?d1 @ [\<lparr>tk_Operation = sample_op, tk_Session = dr_SessionID r, tk_Hash = ''hi'', tk_Bytes = length ''hi''\<rparr>] else dk_Taken ?d1)\<rparr>)"
    by (rule desk_execute [OF _ _ exec_no_session]) simp_all
  with r1 have r2: "sample_desks (?d1\<lparr>dk_Running := (dk_Running ?d1)(sample_op \<mapsto> Executed ?x), dk_Taken := []\<rparr>)"
    by (auto intro: reached_step)
  let ?e = "?d1\<lparr>dk_Running := (dk_Running ?d1)(sample_op \<mapsto> Executed ?x), dk_Taken := []\<rparr>"
  have "sample_steps ?e (?e\<lparr>dk_Files := snd (Complete True 6 sample_op StatusNotDelivered False True ''unknown session'' None (dk_Files ?e)),
      dk_Running := (dk_Running ?e)(sample_op := None)\<rparr>)"
    by (rule desk_complete [where answer = "fst (Complete True 6 sample_op StatusNotDelivered False True ''unknown session'' None (dk_Files ?e))"
          and works = True and now = 6 and x = ?x]) (simp_all add: not_delivered_def)
  with r2 have "sample_desks (?e\<lparr>dk_Files := snd (Complete True 6 sample_op StatusNotDelivered False True ''unknown session'' None (dk_Files ?e)),
      dk_Running := (dk_Running ?e)(sample_op := None)\<rparr>)"
    by (rule reached_step)
  then show ?thesis by (simp add: sample_refused_def b fun_upd_idem)
qed


end
