(* ===== verification/Session_Steps.thy ===== *)
theory Session_Steps
  imports Session
begin

text \<open>
  A session over time: the event pump, the transcript watcher and the hook follower that record into it,
  the session manager that sets its fields, and any number of subscribers, interleaved at the session's lock.
  Then what a WebSocket client is sent of it (\<open>sendInitial\<close> and \<open>streamAttachment\<close> of
  \<open>runtime/internal/api/ws.go\<close>).
\<close>

section \<open>Steps\<close>

text \<open>Operations of the manager and the controls: none of them touches history or subscribers.\<close>

definition set_info :: "session_info \<Rightarrow> session \<Rightarrow> session" where
  "set_info i s = s\<lparr>ss_Info := i\<rparr>"

inductive manage :: "(byte list \<Rightarrow> json option) \<Rightarrow> session \<Rightarrow> session \<Rightarrow> bool" for parse where
  manage_working: "manage parse s (snd (SetWorking w s))"
| manage_idle: "manage parse s (SetIdleResult reason detail summary at s)"
| manage_clear_idle: "manage parse s (ClearIdleResult s)"
| manage_description: "manage parse s (snd (setFirstMessageDescription d s))"
| manage_name: "manage parse s (setName name source s)"
| manage_principal: "manage parse s (snd (noteMessagePrincipal agent at s))"
| manage_carry: "manage parse s (carryActivity previous s)"
| manage_resources: "manage parse s (SetResources sample s)"
| manage_model: "manage parse s (record_model model effort s)"
| manage_stop_retry: "manage parse s (stop_retry_end stopped s)"
| manage_resize: "manage parse s (snd (session_Resize sent screen cols rows s))"
| manage_fault: "manage parse s (s\<lparr>ss_Info := setProviderFaultLocked provider kind detail evidence at (ss_Info s)\<rparr>)"
| manage_no_fault: "manage parse s (s\<lparr>ss_Info := clearProviderFaultLocked (ss_Info s)\<rparr>)"
| manage_hook: "manage parse s (s\<lparr>ss_Hooks := observeLine parse line (ss_Hooks s)\<rparr>)"
| manage_hook_gap: "manage parse s (s\<lparr>ss_Hooks := markGap kind (ss_Hooks s)\<rparr>)"
| manage_gap: "manage parse s (s\<lparr>ss_Observed := (ss_Observed s)\<lparr>tr_HistoryIncomplete := True\<rparr>\<rparr>)"
| manage_source: "manage parse s (s\<lparr>ss_Observed := (ss_Observed s)\<lparr>tr_WorkingSource := source\<rparr>\<rparr>)"
| manage_rollout: "manage parse s (s\<lparr>ss_Observed := observeRollout working at (ss_Observed s)\<rparr>)"
| manage_observer: "manage parse s (s\<lparr>ss_Observed := setObserver name st detail at (ss_Observed s)\<rparr>)"

text \<open>The pump stops at a terminal event; the watcher and direct records may come at any time.\<close>

inductive session_step :: "(string \<Rightarrow> int option) \<Rightarrow> (byte list \<Rightarrow> json option) \<Rightarrow> session \<Rightarrow> session \<Rightarrow> bool"
  for clock parse where
  session_pump: "ss_Pump s \<Longrightarrow> session_step clock parse s (applyEvent clock parse now ns ev s)"
| session_watch: "session_step clock parse s (applyEvent clock parse now ns (EventClaude raw 0 0) s)"
| session_record: "session_step clock parse s (applyEvent clock parse now ns (EventCodex raw 0 0) s)"
| session_attach: "session_step clock parse s (snd (Attach lastSeq since include cap s))"
| session_cancel: "session_step clock parse s (cancel_attachment i s)"
| session_consume: "session_step clock parse s (s\<lparr>ss_Streams := consume i (ss_Streams s)\<rparr>)"
| session_manage: "manage parse s t \<Longrightarrow> session_step clock parse s t"

definition session_start :: "(string \<Rightarrow> int option) \<Rightarrow> (byte list \<Rightarrow> json option) \<Rightarrow> session \<Rightarrow> bool" where
  "session_start clock parse s \<longleftrightarrow> (\<exists>now launch reason ri md replay. s = newSession clock parse now launch reason ri md replay)"

abbreviation session_reached :: "(string \<Rightarrow> int option) \<Rightarrow> (byte list \<Rightarrow> json option) \<Rightarrow> session \<Rightarrow> bool" where
  "session_reached clock parse \<equiv> reached (session_step clock parse) (session_start clock parse)"

section \<open>What each operation touches\<close>

text \<open>The history and the subscribers.\<close>

definition feed_part ::
  "session \<Rightarrow> output_msg list \<times> 32 word \<times> byte list list \<times> int \<times> runner_event stream list \<times> bool \<times> output_msg list
     \<times> byte list list \<times> attachment list \<times> runner_event option \<times> 32 word \<times> bool \<times> exit_event" where
  "feed_part s = (ss_Outputs s, ss_NextSeq s, ss_Claude s, ss_ClaudeBase s, ss_Streams s, ss_Pump s, ss_AllOutputs s,
     ss_AllRecords s, ss_Given s, ss_Terminal s, ss_Start s, ss_Irregular s, ss_Exit s)"

text \<open>How the session stands with its runner.\<close>

definition life_part :: "session \<Rightarrow> bool \<times> int option \<times> string option \<times> string \<times> bool" where
  "life_part s = (let i = ss_Info s in (si_Exited i, si_ExitCode i, si_ExitSignal i, si_ExitReason i, si_Unreachable i))"

lemma fault_life [simp]:
  "si_Exited (setProviderFaultLocked p k d e at i) = si_Exited i" "si_ExitCode (setProviderFaultLocked p k d e at i) = si_ExitCode i"
  "si_ExitSignal (setProviderFaultLocked p k d e at i) = si_ExitSignal i"
  "si_ExitReason (setProviderFaultLocked p k d e at i) = si_ExitReason i"
  "si_Unreachable (setProviderFaultLocked p k d e at i) = si_Unreachable i"
  "si_Working (setProviderFaultLocked p k d e at i) = si_Working i"
  "si_Exited (clearProviderFaultLocked i) = si_Exited i" "si_ExitCode (clearProviderFaultLocked i) = si_ExitCode i"
  "si_ExitSignal (clearProviderFaultLocked i) = si_ExitSignal i"
  "si_ExitReason (clearProviderFaultLocked i) = si_ExitReason i"
  "si_Unreachable (clearProviderFaultLocked i) = si_Unreachable i"
  "si_Working (clearProviderFaultLocked i) = si_Working i"
  by (simp_all add: setProviderFaultLocked_def clearProviderFaultLocked_def)

lemma manage_feed: "manage parse s t \<Longrightarrow> feed_part t = feed_part s"
  by (induction rule: manage.induct)
     (simp_all add: feed_part_def SetWorking_def SetIdleResult_def ClearIdleResult_def setFirstMessageDescription_def
       setName_def noteMessagePrincipal_def carryActivity_def SetResources_def record_model_def stop_retry_end_def
       session_Resize_def Let_def split: option.split prod.split)

lemma manage_life: "manage parse s t \<Longrightarrow> life_part t = life_part s"
  by (induction rule: manage.induct)
     (simp_all add: life_part_def SetWorking_def SetIdleResult_def ClearIdleResult_def setFirstMessageDescription_def
       setName_def noteMessagePrincipal_def carryActivity_def SetResources_def record_model_def stop_retry_end_def
       session_Resize_def Let_def split: option.split prod.split)

lemma manage_working_exited: "manage parse s t \<Longrightarrow> si_Exited (ss_Info s) \<Longrightarrow> si_Working (ss_Info t) = si_Working (ss_Info s)"
  by (induction rule: manage.induct)
     (simp_all add: SetWorking_def SetIdleResult_def ClearIdleResult_def setFirstMessageDescription_def
       setName_def noteMessagePrincipal_def carryActivity_def SetResources_def record_model_def stop_retry_end_def
       session_Resize_def Let_def split: option.split prod.split)


lemma track_life [simp]:
  "si_Exited (trackProviderFaultLocked e at i) = si_Exited i" "si_ExitCode (trackProviderFaultLocked e at i) = si_ExitCode i"
  "si_ExitSignal (trackProviderFaultLocked e at i) = si_ExitSignal i" "si_ExitReason (trackProviderFaultLocked e at i) = si_ExitReason i"
  "si_Unreachable (trackProviderFaultLocked e at i) = si_Unreachable i" "si_Working (trackProviderFaultLocked e at i) = si_Working i"
  "si_Exited (trackApprovalLocked e at i) = si_Exited i" "si_ExitCode (trackApprovalLocked e at i) = si_ExitCode i"
  "si_ExitSignal (trackApprovalLocked e at i) = si_ExitSignal i" "si_ExitReason (trackApprovalLocked e at i) = si_ExitReason i"
  "si_Unreachable (trackApprovalLocked e at i) = si_Unreachable i" "si_Working (trackApprovalLocked e at i) = si_Working i"
  "si_Exited (trackTitle e i) = si_Exited i" "si_ExitCode (trackTitle e i) = si_ExitCode i"
  "si_ExitSignal (trackTitle e i) = si_ExitSignal i" "si_ExitReason (trackTitle e i) = si_ExitReason i"
  "si_Unreachable (trackTitle e i) = si_Unreachable i" "si_Working (trackTitle e i) = si_Working i"
  "si_Exited (trackUserMessage clock e i) = si_Exited i" "si_ExitCode (trackUserMessage clock e i) = si_ExitCode i"
  "si_ExitSignal (trackUserMessage clock e i) = si_ExitSignal i" "si_ExitReason (trackUserMessage clock e i) = si_ExitReason i"
  "si_Unreachable (trackUserMessage clock e i) = si_Unreachable i" "si_Working (trackUserMessage clock e i) = si_Working i"
  by (simp_all add: trackProviderFaultLocked_def trackApprovalLocked_def trackTitle_def trackUserMessage_def Let_def
      split: option.split json.split)

text \<open>Recording a structured record, seen from outside.\<close>

lemma record_effect:
  assumes "recordClaudeLocked clock parse now origin raw s = (index, at, t)"
  shows "index = ss_ClaudeBase s + int (length (ss_Claude s))"
    "ss_Claude t = fst (RetainStructuredHistory (ss_Claude s) raw)"
    "ss_ClaudeBase t = ss_ClaudeBase s + int (snd (RetainStructuredHistory (ss_Claude s) raw))"
    "ss_AllRecords t = ss_AllRecords s @ [raw]"
    "ss_Outputs t = ss_Outputs s" "ss_NextSeq t = ss_NextSeq s" "ss_Streams t = ss_Streams s" "ss_Pump t = ss_Pump s"
    "ss_AllOutputs t = ss_AllOutputs s" "ss_Given t = ss_Given s" "ss_Terminal t = ss_Terminal s" "ss_Start t = ss_Start s"
    "ss_Irregular t = ss_Irregular s" "ss_Exit t = ss_Exit s" "life_part t = life_part s"
    "si_Working (ss_Info t) = si_Working (ss_Info s)"
  using assms
  by (auto simp: recordClaudeLocked_def life_part_def Let_def split: prod.splits option.splits if_splits)

lemma append_effect:
  "ss_NextSeq (appendOutputLocked now e s) = (if ou_Seq e \<ge> ss_NextSeq s then ou_Seq e + 1 else ss_NextSeq s)"
  "ss_AllOutputs (appendOutputLocked now e s) = ss_AllOutputs s @ [if ou_At e = 0 then e\<lparr>ou_At := now\<rparr> else e]"
  "ss_Claude (appendOutputLocked now e s) = ss_Claude s" "ss_ClaudeBase (appendOutputLocked now e s) = ss_ClaudeBase s"
  "ss_Streams (appendOutputLocked now e s) = ss_Streams s" "ss_Pump (appendOutputLocked now e s) = ss_Pump s"
  "ss_AllRecords (appendOutputLocked now e s) = ss_AllRecords s" "ss_Given (appendOutputLocked now e s) = ss_Given s"
  "ss_Terminal (appendOutputLocked now e s) = ss_Terminal s" "ss_Start (appendOutputLocked now e s) = ss_Start s"
  "ss_Irregular (appendOutputLocked now e s) = (ss_Irregular s \<or> ou_Seq e = - 1 \<or> ou_Seq e < ss_NextSeq s)"
  "ss_Exit (appendOutputLocked now e s) = ss_Exit s" "ss_Info (appendOutputLocked now e s) = ss_Info s"
  "ss_Outputs (appendOutputLocked now e s) = fst (trim_outputs (ss_OutputSize s + int (length (ou_Data e)))
     (ss_Outputs s @ [if ou_At e = 0 then e\<lparr>ou_At := now\<rparr> else e]))"
  "ss_Observed (appendOutputLocked now e s) = ss_Observed s"
  by (simp_all add: appendOutputLocked_def Let_def split: prod.split)

lemma apply_output_effect:
  assumes "apply_output now o1 s = (e, s1)"
  shows "\<not> ends_feed e" "ss_Streams s1 = ss_Streams s" "ss_Terminal s1 = ss_Terminal s" "ss_Pump s1 = ss_Pump s"
    "life_part s1 = life_part s" "si_Working (ss_Info s1) = si_Working (ss_Info s)" "ss_Exit s1 = ss_Exit s"
    "ss_Claude s1 = ss_Claude s" "ss_ClaudeBase s1 = ss_ClaudeBase s" "ss_AllRecords s1 = ss_AllRecords s"
    "ss_Given s1 = ss_Given s" "ss_Start s1 = ss_Start s"
  using assms by (auto simp: apply_output_def append_effect life_part_def Let_def split: if_splits)

lemma apply_codex_effect:
  assumes "apply_codex clock parse now raw s = (e, s1)"
  shows "\<exists>at. e = EventCodex raw (ss_ClaudeBase s + int (length (ss_Claude s))) at"
    "ss_Claude s1 = fst (RetainStructuredHistory (ss_Claude s) raw)"
    "ss_ClaudeBase s1 = ss_ClaudeBase s + int (snd (RetainStructuredHistory (ss_Claude s) raw))"
    "ss_AllRecords s1 = ss_AllRecords s @ [raw]"
    "ss_Outputs s1 = ss_Outputs s" "ss_NextSeq s1 = ss_NextSeq s" "ss_Streams s1 = ss_Streams s" "ss_Pump s1 = ss_Pump s"
    "ss_AllOutputs s1 = ss_AllOutputs s" "ss_Given s1 = ss_Given s" "ss_Terminal s1 = ss_Terminal s" "ss_Start s1 = ss_Start s"
    "ss_Irregular s1 = ss_Irregular s" "ss_Exit s1 = ss_Exit s" "life_part s1 = life_part s"
    "si_Working (ss_Info s1) = si_Working (ss_Info s)" "\<not> ends_feed e"
proof -
  obtain index at t where r: "recordClaudeLocked clock parse now FromRunnerStream raw s = (index, at, t)" by (cases rule: prod_cases3)
  note [simp] = record_effect [OF r]
  have "life_part s1 = life_part t" using assms by (auto simp: apply_codex_def r life_part_def Let_def split: if_splits)
  then show "life_part s1 = life_part s" by simp
qed (use assms in \<open>auto simp: apply_codex_def Let_def record_effect split: prod.splits if_splits\<close>)

section \<open>The session as a feed\<close>

text \<open>A step that leaves the subscribers and the life of the session alone.\<close>

definition quiet :: "session \<Rightarrow> session \<Rightarrow> bool" where
  "quiet s t \<longleftrightarrow> ss_Streams t = ss_Streams s \<and> ss_Terminal t = ss_Terminal s \<and> ss_Pump t = ss_Pump s
    \<and> life_part t = life_part s \<and> si_Working (ss_Info t) = si_Working (ss_Info s) \<and> ss_Exit t = ss_Exit s
    \<and> ss_Given t = ss_Given s \<and> ss_Start t = ss_Start s"

text \<open>Everything that is broadcast, apart from the end.\<close>

lemma applyEvent_broadcast:
  assumes "\<not> ends_feed ev"
  obtains e s1 where "applyEvent clock parse now ns ev s = broadcastEventLocked e s1" "\<not> ends_feed e" "quiet s s1"
proof (cases ev)
  case (EventOutput o1)
  obtain e s1 where a: "apply_output now o1 s = (e, s1)" by (cases "apply_output now o1 s")
  show thesis
    by (rule that [of e s1]) (simp_all add: applyEvent_def EventOutput a quiet_def apply_output_effect [OF a])
next
  case (EventClaude raw a b)
  obtain index at t where r: "recordClaudeLocked clock parse now FromWatcher raw s = (index, at, t)" by (cases rule: prod_cases3)
  show thesis
    by (rule that [of "EventClaude raw index at" t]) (simp_all add: applyEvent_def EventClaude r quiet_def record_effect(4-) [OF r])
next
  case (EventCodex raw a b)
  obtain e s1 where c: "apply_codex clock parse now raw s = (e, s1)" by (cases "apply_codex clock parse now raw s")
  show thesis
    by (rule that [of e s1]) (use apply_codex_effect [OF c] in \<open>simp_all add: applyEvent_def EventCodex c quiet_def\<close>)
next
  case (EventRetry r)
  show thesis
    by (rule that [of "EventRetry r" "s\<lparr>ss_Info := (ss_Info s)\<lparr>si_Retry := map_option (Pair (ss_NextRetry s)) r\<rparr>,
        ss_NextRetry := ss_NextRetry s + 1\<rparr>"]) (simp_all add: applyEvent_def EventRetry quiet_def life_part_def Let_def)
qed (use assms in auto)

lemma applyEvent_terminal:
  assumes "ends_feed ev"
  shows "\<exists>e. ends_feed e \<and> ss_Streams (applyEvent clock parse now ns ev s) = broadcast_last ns e (ss_Streams s)
    \<and> ss_Terminal (applyEvent clock parse now ns ev s) = Some e \<and> \<not> ss_Pump (applyEvent clock parse now ns ev s)"
  using assms
  by (cases ev) (auto simp: applyEvent_def apply_lost_def apply_exit_def broadcast_terminal_def Let_def)

lemma manage_frames:
  assumes "manage parse s t"
  shows "ss_Streams t = ss_Streams s" "ss_Terminal t = ss_Terminal s" "ss_Pump t = ss_Pump s" "ss_Exit t = ss_Exit s"
    "ss_Outputs t = ss_Outputs s" "ss_NextSeq t = ss_NextSeq s" "ss_Claude t = ss_Claude s" "ss_ClaudeBase t = ss_ClaudeBase s"
    "ss_AllOutputs t = ss_AllOutputs s" "ss_AllRecords t = ss_AllRecords s" "ss_Given t = ss_Given s" "ss_Start t = ss_Start s"
    "ss_Irregular t = ss_Irregular s"
  using manage_feed [OF assms] by (simp_all add: feed_part_def)

text \<open>The pump runs exactly while nothing has ended the session.\<close>

definition pump_inv :: "session \<Rightarrow> bool" where
  "pump_inv s \<longleftrightarrow> (ss_Pump s \<longleftrightarrow> ss_Terminal s = None)"

lemma applyEvent_pump: "pump_inv s \<Longrightarrow> pump_inv (applyEvent clock parse now ns ev s)"
proof (cases "ends_feed ev")
  case True
  then show ?thesis using applyEvent_terminal [OF True] by (fastforce simp: pump_inv_def)
next
  case False
  assume "pump_inv s"
  then show ?thesis
    by (rule_tac applyEvent_broadcast [OF False, of clock parse now ns s]) (simp add: pump_inv_def broadcastEventLocked_def quiet_def)
qed

lemma foldl_append_start:
  "ss_Streams (foldl (\<lambda>s e. appendOutputLocked now e s) s es) = ss_Streams s"
  "ss_Terminal (foldl (\<lambda>s e. appendOutputLocked now e s) s es) = ss_Terminal s"
  "ss_Pump (foldl (\<lambda>s e. appendOutputLocked now e s) s es) = ss_Pump s"
  "ss_Given (foldl (\<lambda>s e. appendOutputLocked now e s) s es) = ss_Given s"
  "ss_Claude (foldl (\<lambda>s e. appendOutputLocked now e s) s es) = ss_Claude s"
  "ss_ClaudeBase (foldl (\<lambda>s e. appendOutputLocked now e s) s es) = ss_ClaudeBase s"
  "ss_AllRecords (foldl (\<lambda>s e. appendOutputLocked now e s) s es) = ss_AllRecords s"
  "life_part (foldl (\<lambda>s e. appendOutputLocked now e s) s es) = life_part s"
  "ss_Exit (foldl (\<lambda>s e. appendOutputLocked now e s) s es) = ss_Exit s"
  by (induction es arbitrary: s) (simp_all add: append_effect life_part_def)

lemma foldl_record_start:
  "ss_Streams (foldl (\<lambda>s raw. snd (snd (recordClaudeLocked clock parse now o1 raw s))) s rs) = ss_Streams s
   \<and> ss_Terminal (foldl (\<lambda>s raw. snd (snd (recordClaudeLocked clock parse now o1 raw s))) s rs) = ss_Terminal s
   \<and> ss_Pump (foldl (\<lambda>s raw. snd (snd (recordClaudeLocked clock parse now o1 raw s))) s rs) = ss_Pump s
   \<and> ss_Given (foldl (\<lambda>s raw. snd (snd (recordClaudeLocked clock parse now o1 raw s))) s rs) = ss_Given s
   \<and> ss_Outputs (foldl (\<lambda>s raw. snd (snd (recordClaudeLocked clock parse now o1 raw s))) s rs) = ss_Outputs s
   \<and> ss_AllOutputs (foldl (\<lambda>s raw. snd (snd (recordClaudeLocked clock parse now o1 raw s))) s rs) = ss_AllOutputs s
   \<and> ss_NextSeq (foldl (\<lambda>s raw. snd (snd (recordClaudeLocked clock parse now o1 raw s))) s rs) = ss_NextSeq s
   \<and> ss_Irregular (foldl (\<lambda>s raw. snd (snd (recordClaudeLocked clock parse now o1 raw s))) s rs) = ss_Irregular s
   \<and> life_part (foldl (\<lambda>s raw. snd (snd (recordClaudeLocked clock parse now o1 raw s))) s rs) = life_part s
   \<and> ss_Exit (foldl (\<lambda>s raw. snd (snd (recordClaudeLocked clock parse now o1 raw s))) s rs) = ss_Exit s"
proof (induction rs arbitrary: s)
  case (Cons raw rs)
  obtain index at t where r: "recordClaudeLocked clock parse now o1 raw s = (index, at, t)" by (cases rule: prod_cases3)
  show ?case using Cons.IH [of t] record_effect [OF r] by (simp add: r)
qed simp

lemma newSession_starts:
  "ss_Streams (newSession clock parse now launch reason ri md replay) = []"
  "ss_Terminal (newSession clock parse now launch reason ri md replay) = None"
  "ss_Pump (newSession clock parse now launch reason ri md replay)"
  "ss_Given (newSession clock parse now launch reason ri md replay) = []"
  "life_part (newSession clock parse now launch reason ri md replay) = (False, None, None, [], False)"
proof -
  have l: "life_part (bare_session now launch reason ri md) = (False, None, None, [], False)"
    by (simp add: bare_session_def new_info_def life_part_def Let_def split: prod.split)
  have f: "life_part (s\<lparr>ss_Start := x\<rparr>) = life_part s" "life_part (s\<lparr>ss_NextSeq := y, ss_Irregular := z\<rparr>) = life_part s"
    for s x y z
    by (simp_all add: life_part_def)
  show "life_part (newSession clock parse now launch reason ri md replay) = (False, None, None, [], False)"
    by (simp add: newSession_def Let_def f foldl_append_start foldl_record_start l cong: if_cong split: if_split)
qed (simp_all add: newSession_def Let_def foldl_append_start foldl_record_start bare_session_def)

lemma session_pump_inv: "session_reached clock parse s \<Longrightarrow> pump_inv s"
proof (induction rule: reached.induct)
  case (reached_init s)
  then show ?case by (auto simp: session_start_def pump_inv_def newSession_starts)
next
  case (reached_step s t)
  from reached_step(2) show ?case
  proof (cases rule: session_step.cases)
    case session_manage
    then show ?thesis using reached_step.IH manage_frames by (simp add: pump_inv_def)
  qed (use reached_step.IH applyEvent_pump in \<open>auto simp: pump_inv_def Attach_def cancel_attachment_def Let_def\<close>)
qed

lemma applyEvent_move:
  assumes "pump_inv s" and "ends_feed ev \<Longrightarrow> ss_Pump s"
  shows "feed_move ends_feed (ss_Terminal s, ss_Streams s)
    (ss_Terminal (applyEvent clock parse now ns ev s), ss_Streams (applyEvent clock parse now ns ev s))"
proof (cases "ends_feed ev")
  case True
  then have "ss_Terminal s = None" using assms by (simp add: pump_inv_def)
  then show ?thesis using applyEvent_terminal [OF True, of clock parse now ns s] by (auto intro: move_last)
next
  case False
  obtain e s1 where "applyEvent clock parse now ns ev s = broadcastEventLocked e s1" "\<not> ends_feed e" "quiet s s1"
    by (rule applyEvent_broadcast [OF False])
  then show ?thesis by (auto simp: broadcastEventLocked_def quiet_def intro: move_broadcast)
qed

interpretation session_feed: feed "session_step clock parse" "session_start clock parse" ends_feed ss_Terminal ss_Streams
  for clock parse
proof unfold_locales
  fix s assume "session_start clock parse s"
  then show "ss_Terminal s = None \<and> ss_Streams s = []" by (auto simp: session_start_def newSession_starts)
next
  fix s t assume r: "session_reached clock parse s" and "session_step clock parse s t"
  have p: "pump_inv s" using session_pump_inv [OF r] .
  from \<open>session_step clock parse s t\<close>
  show "feed_move ends_feed (ss_Terminal s, ss_Streams s) (ss_Terminal t, ss_Streams t)"
  proof (cases rule: session_step.cases)
    case session_manage
    then show ?thesis using manage_frames by (simp add: move_stay)
  next
    case session_watch
    show ?thesis unfolding session_watch by (rule applyEvent_move [OF p]) simp
  next
    case session_record
    show ?thesis unfolding session_record by (rule applyEvent_move [OF p]) simp
  next
    case session_pump
    show ?thesis unfolding session_pump(1) by (rule applyEvent_move [OF p]) (rule session_pump(2))
  qed (use p applyEvent_move in \<open>auto simp: Attach_def cancel_attachment_def Let_def
      intro: move_subscribe move_cancel move_consume\<close>)
qed

end
