(* ===== verification/Session_Attach.thy ===== *)
theory Session_Attach
  imports Session_Steps
begin

text \<open>
  What a WebSocket client is sent of a session: \<open>handleSingle\<close>, \<open>handleMuxAttach\<close>, \<open>sendInitial\<close> and
  \<open>streamAttachment\<close> of \<open>runtime/internal/api/ws.go\<close> and \<open>mux_attach.go\<close>, after \<open>Session.Attach\<close>.
  The session id that every message of a multiplexed connection carries is left out.  A connection is the
  number of messages it still takes; after that every \<open>peer.send\<close> fails.
\<close>

section \<open>Messages\<close>

datatype ws_message =
    WsHello session_info "32 word" "32 word option" int int
  | WsGap "32 word" "32 word"
  | WsOutput "32 word" "byte list"
  | WsClaude "byte list"
  | WsExit "int option" "string option" "32 word" "string option"
  | WsUnreachable string "32 word"

definition exitMessage :: "exit_event \<Rightarrow> ws_message" where
  "exitMessage x = WsExit (xe_Code x) (xe_Signal x) (xe_Seq x) (if xe_Reason x \<noteq> [] then Some (xe_Reason x) else None)"

definition unreachableMessage :: "exit_event \<Rightarrow> ws_message" where
  "unreachableMessage x = WsUnreachable (if xe_Reason x = [] then ''runner-lost'' else xe_Reason x) (xe_Seq x)"

definition sendInitial :: "session_info \<Rightarrow> attachment \<Rightarrow> 32 word \<Rightarrow> bool \<Rightarrow> ws_message list" where
  "sendInitial info a lastSeq includeOutput =
     [WsHello info (rw_Current (at_Replay a)) (if lastSeq > 0 then Some lastSeq else None)
        (at_ClaudeEventsCount a) (at_ClaudeReplayStart a)]
     @ (if includeOutput
        then (if rw_Gap (at_Replay a) then [WsGap (rw_Oldest (at_Replay a)) (rw_Current (at_Replay a))] else [])
          @ map (\<lambda>e. WsOutput (ou_Seq e) (ou_Data e)) (rw_Events (at_Replay a))
        else [])
     @ map WsClaude (at_ClaudeEvents a)"

text \<open>What the handler does, in order.\<close>

datatype ws_action = Sent ws_message | ReleaseSlot | ExitSeen | LossSeen | Cancelled

record stream_options =
  so_includeOutput :: bool
  so_includeClaudeLive :: bool
  so_releaseTerminal :: bool
  so_onExit :: bool
  so_onUnavailable :: bool

fun streamAttachment :: "nat \<Rightarrow> attachment \<Rightarrow> stream_options \<Rightarrow> runner_event list \<Rightarrow> ws_action list" where
  "streamAttachment n a opt [] = []"
| "streamAttachment n a opt (event # events) =
     (if ends_feed event \<and> so_releaseTerminal opt then [ReleaseSlot] else [])
     @ (case event of
          EventOutput e \<Rightarrow>
            if \<not> so_includeOutput opt \<or> ou_Seq e \<le> rw_Current (at_Replay a) then streamAttachment n a opt events
            else if n = 0 then []
            else Sent (WsOutput (ou_Seq e) (ou_Data e)) # streamAttachment (n - 1) a opt events
        | EventClaude raw index _ \<Rightarrow>
            if \<not> so_includeClaudeLive opt \<or> index < at_ClaudeEventsCount a then streamAttachment n a opt events
            else if n = 0 then [] else Sent (WsClaude raw) # streamAttachment (n - 1) a opt events
        | EventCodex raw index _ \<Rightarrow>
            if \<not> so_includeClaudeLive opt \<or> index < at_ClaudeEventsCount a then streamAttachment n a opt events
            else if n = 0 then [] else Sent (WsClaude raw) # streamAttachment (n - 1) a opt events
        | EventExit x \<Rightarrow> if n = 0 then [] else Sent (exitMessage x) # (if so_onExit opt then [ExitSeen] else [])
        | EventRunnerLost x \<Rightarrow>
            if n = 0 then [] else Sent (unreachableMessage x) # (if so_onUnavailable opt then [LossSeen] else [])
        | EventRetry _ \<Rightarrow> streamAttachment n a opt events)"

text \<open>
  The rest of \<open>handleSingle\<close> after \<open>Attach\<close>: \<open>info\<close> and \<open>ended\<close> are what \<open>session.Info\<close> and
  \<open>session.TerminalState\<close> say when they are asked, \<open>events\<close> what the attachment's channel yields.
\<close>

definition TerminalState :: "session \<Rightarrow> exit_event option" where
  "TerminalState s = (if si_Exited (ss_Info s) then Some (ss_Exit s) else None)"

definition single_options :: stream_options where
  "single_options = \<lparr>so_includeOutput = True, so_includeClaudeLive = True, so_releaseTerminal = False,
     so_onExit = True, so_onUnavailable = True\<rparr>"

definition handleSingle ::
  "nat \<Rightarrow> session_info \<Rightarrow> exit_event option \<Rightarrow> attachment \<Rightarrow> 32 word \<Rightarrow> runner_event list \<Rightarrow> ws_action list" where
  "handleSingle n info ended a lastSeq events =
     (let first = sendInitial info a lastSeq True; m = n - length first in
      map Sent (take n first)
      @ (if n < length first then [Cancelled]
         else case ended of
             Some x \<Rightarrow> (if m = 0 then [] else [Sent (exitMessage x)]) @ [Cancelled]
           | None \<Rightarrow> streamAttachment m a single_options events))"

text \<open>The same for a multiplexed connection, from the installed slot on.\<close>

definition mux_options :: "bool \<Rightarrow> bool \<Rightarrow> stream_options" where
  "mux_options output live = \<lparr>so_includeOutput = output, so_includeClaudeLive = live, so_releaseTerminal = True,
     so_onExit = False, so_onUnavailable = False\<rparr>"

definition handleMuxAttach ::
  "nat \<Rightarrow> session_info \<Rightarrow> exit_event option \<Rightarrow> attachment \<Rightarrow> 32 word \<Rightarrow> bool \<Rightarrow> bool \<Rightarrow> runner_event list \<Rightarrow> ws_action list" where
  "handleMuxAttach n info ended a lastSeq output live events =
     (let first = sendInitial info a lastSeq output; m = n - length first in
      map Sent (take n first)
      @ (if n < length first then [ReleaseSlot]
         else case ended of
             Some x \<Rightarrow> ReleaseSlot # (if m = 0 then [] else [Sent (exitMessage x)])
           | None \<Rightarrow> streamAttachment m a (mux_options output live) events))"

text \<open>The outputs and the records among the messages sent.\<close>

fun sent_outputs :: "ws_action list \<Rightarrow> (32 word \<times> byte list) list" where
  "sent_outputs [] = []"
| "sent_outputs (Sent (WsOutput q d) # as) = (q, d) # sent_outputs as"
| "sent_outputs (_ # as) = sent_outputs as"

fun sent_records :: "ws_action list \<Rightarrow> byte list list" where
  "sent_records [] = []"
| "sent_records (Sent (WsClaude raw) # as) = raw # sent_records as"
| "sent_records (_ # as) = sent_records as"

section \<open>The history a session keeps\<close>

lemma retain_suffix:
  "RetainStructuredHistory h raw = (drop (snd (RetainStructuredHistory h raw)) (h @ [raw]), snd (RetainStructuredHistory h raw))
   \<and> snd (RetainStructuredHistory h raw) \<le> length h"
proof -
  obtain j where j: "walk_back (rev h) 1 (length raw) = 1 + j"
    using walk_back_spec [of "rev h" 1 "length raw"] by blast
  show ?thesis by (simp add: RetainStructuredHistory_def Let_def j [simplified])
qed

lemma trim_outputs_suffix: "es \<noteq> [] \<Longrightarrow> \<exists>j. fst (trim_outputs b es) = drop j es \<and> drop j es \<noteq> []"
proof (induction b es rule: trim_outputs.induct)
  case (1 bytes e f rest)
  show ?case
  proof (cases "bytes > defaultEventLogBytes")
    case True
    then obtain j where "fst (trim_outputs (bytes - int (length (ou_Data e))) (f # rest)) = drop j (f # rest)" "drop j (f # rest) \<noteq> []"
      using 1 by auto
    then show ?thesis using True by (intro exI [of _ "Suc j"]) simp
  qed (auto intro: exI [of _ 0])
qed (auto intro: exI [of _ 0])

text \<open>The ring holds the newest outputs; while the runner counts regularly the outputs are strictly rising.\<close>

definition outputs_inv :: "session \<Rightarrow> bool" where
  "outputs_inv s \<longleftrightarrow> (\<exists>j. ss_Outputs s = drop j (ss_AllOutputs s)) \<and> (ss_AllOutputs s \<noteq> [] \<longrightarrow> ss_Outputs s \<noteq> [])
     \<and> (\<not> ss_Irregular s \<longrightarrow> sorted_wrt (<) (map ou_Seq (ss_AllOutputs s)) \<and> (\<forall>e \<in> set (ss_AllOutputs s). ou_Seq e < ss_NextSeq s)
          \<and> 0 < ss_NextSeq s)"

definition start_inv :: "session \<Rightarrow> bool" where
  "start_inv s \<longleftrightarrow> (\<not> ss_Irregular s \<longrightarrow> ss_Start s < ss_NextSeq s)"

definition record_inv :: "session \<Rightarrow> bool" where
  "record_inv s \<longleftrightarrow> 0 \<le> ss_ClaudeBase s \<and> ss_ClaudeBase s + int (length (ss_Claude s)) = int (length (ss_AllRecords s))
     \<and> ss_Claude s = drop (nat (ss_ClaudeBase s)) (ss_AllRecords s)"

lemma word_below_succ:
  fixes a b :: "32 word"
  assumes "b \<le> a" and "a \<noteq> - 1"
  shows "a < a + 1" "b < a + 1" "0 < a + 1"
proof -
  have "1 + a \<noteq> 0" using assms(2) by (metis add.commute add_eq_0_iff)
  then have "a < a + 1" by (simp add: word_less_nat_alt add.commute [of a] unatSuc)
  then show "a < a + 1" "b < a + 1" "0 < a + 1" using assms(1) by (auto intro: le_less_trans)
qed

lemma append_ring:
  assumes "outputs_inv s" shows "outputs_inv (appendOutputLocked now e s)"
proof -
  define e1 where "e1 = (if ou_At e = 0 then e\<lparr>ou_At := now\<rparr> else e)"
  have q: "ou_Seq e1 = ou_Seq e" by (simp add: e1_def)
  obtain j where j: "ss_Outputs s = drop j (ss_AllOutputs s)" using assms by (auto simp: outputs_inv_def)
  obtain k where k: "fst (trim_outputs (ss_OutputSize s + int (length (ou_Data e))) (ss_Outputs s @ [e1])) = drop k (ss_Outputs s @ [e1])"
    "drop k (ss_Outputs s @ [e1]) \<noteq> []" using trim_outputs_suffix by blast
  have "\<exists>m. ss_Outputs s @ [e1] = drop m (ss_AllOutputs s @ [e1])"
    using j by (intro exI [of _ "min j (length (ss_AllOutputs s))"]) (auto simp: min_def)
  then obtain m where "ss_Outputs s @ [e1] = drop m (ss_AllOutputs s @ [e1])" by blast
  then have "\<exists>j. drop k (ss_Outputs s @ [e1]) = drop j (ss_AllOutputs s @ [e1])" by (simp only: drop_drop) blast
  moreover have "sorted_wrt (<) (map ou_Seq (ss_AllOutputs s @ [e1]))
      \<and> (\<forall>x \<in> set (ss_AllOutputs s @ [e1]). ou_Seq x < ou_Seq e + 1) \<and> 0 < ou_Seq e + 1"
    if "\<not> ss_Irregular s" "ou_Seq e \<noteq> - 1" "ss_NextSeq s \<le> ou_Seq e"
  proof -
    have a: "sorted_wrt (<) (map ou_Seq (ss_AllOutputs s))" "\<forall>x \<in> set (ss_AllOutputs s). ou_Seq x < ou_Seq e"
      using assms that by (auto simp: outputs_inv_def intro: less_le_trans)
    note w = word_below_succ [OF order_refl that(2)]
    show ?thesis using a w by (auto simp: sorted_wrt_append q intro: less_trans)
  qed
  ultimately show ?thesis
    using k(2) by (auto simp: outputs_inv_def append_effect e1_def [symmetric] k(1) not_less)
qed

lemma append_start: "outputs_inv s \<Longrightarrow> start_inv s \<Longrightarrow> start_inv (appendOutputLocked now e s)"
  using word_below_succ [of "ss_NextSeq s" "ou_Seq e"]
  by (auto simp: start_inv_def append_effect not_less intro: less_trans)

lemma record_record_inv:
  assumes "record_inv s" and "recordClaudeLocked clock parse now origin1 raw s = (index, at, t)"
  shows "record_inv t"
proof -
  define r where "r = snd (RetainStructuredHistory (ss_Claude s) raw)"
  note k = retain_suffix [of "ss_Claude s" raw, folded r_def]
  have f: "fst (RetainStructuredHistory (ss_Claude s) raw) = drop r (ss_Claude s @ [raw])" using k by (metis fst_conv)
  have b: "0 \<le> ss_ClaudeBase s" "ss_ClaudeBase s + int (length (ss_Claude s)) = int (length (ss_AllRecords s))"
    "ss_Claude s = drop (nat (ss_ClaudeBase s)) (ss_AllRecords s)" using assms(1) by (auto simp: record_inv_def)
  have n: "nat (ss_ClaudeBase s) \<le> length (ss_AllRecords s)" using b by linarith
  have "nat (ss_ClaudeBase s + int r) = r + nat (ss_ClaudeBase s)" using b by linarith
  moreover have "ss_Claude s @ [raw] = drop (nat (ss_ClaudeBase s)) (ss_AllRecords s @ [raw])" using b(3) n by simp
  ultimately show ?thesis
    using b k unfolding record_inv_def record_effect [OF assms(2)] f r_def [symmetric]
    by (auto simp: drop_drop of_nat_diff)
qed

lemma ring_cong:
  assumes "ss_Outputs t = ss_Outputs s" "ss_AllOutputs t = ss_AllOutputs s" "ss_NextSeq t = ss_NextSeq s"
    "ss_Irregular t = ss_Irregular s"
  shows "outputs_inv t = outputs_inv s"
  using assms by (simp add: outputs_inv_def)

lemma start_cong:
  "ss_NextSeq t = ss_NextSeq s \<Longrightarrow> ss_Irregular t = ss_Irregular s \<Longrightarrow> ss_Start t = ss_Start s \<Longrightarrow> start_inv t = start_inv s"
  by (simp add: start_inv_def)

lemma record_cong:
  "ss_Claude t = ss_Claude s \<Longrightarrow> ss_ClaudeBase t = ss_ClaudeBase s \<Longrightarrow> ss_AllRecords t = ss_AllRecords s \<Longrightarrow> record_inv t = record_inv s"
  by (simp add: record_inv_def)

section \<open>What each subscriber is owed\<close>

definition out_key :: "output_msg \<Rightarrow> 32 word \<times> byte list" where
  "out_key e = (ou_Seq e, ou_Data e)"

fun live_outputs :: "attachment \<Rightarrow> runner_event list \<Rightarrow> (32 word \<times> byte list) list" where
  "live_outputs a [] = []"
| "live_outputs a (EventOutput e # es) = (if ou_Seq e > rw_Current (at_Replay a) then [out_key e] else []) @ live_outputs a es"
| "live_outputs a (_ # es) = live_outputs a es"

fun live_records :: "attachment \<Rightarrow> runner_event list \<Rightarrow> byte list list" where
  "live_records a [] = []"
| "live_records a (EventClaude raw index at # es) = (if index \<ge> at_ClaudeEventsCount a then [raw] else []) @ live_records a es"
| "live_records a (EventCodex raw index at # es) = (if index \<ge> at_ClaudeEventsCount a then [raw] else []) @ live_records a es"
| "live_records a (_ # es) = live_records a es"

text \<open>Of all the outputs: the ones after \<open>LastSeq\<close> that the ring still had.\<close>

definition owed_outputs :: "attachment \<Rightarrow> output_msg list \<Rightarrow> (32 word \<times> byte list) list" where
  "owed_outputs a all = map out_key (filter (\<lambda>e. ou_Seq e > min (at_LastSeq a) (rw_Current (at_Replay a))
     \<and> ou_Seq e \<ge> rw_Oldest (at_Replay a)) all)"

definition owed_records :: "attachment \<Rightarrow> byte list list \<Rightarrow> byte list list" where
  "owed_records a all = drop (nat (at_ClaudeReplayStart a)) all"

definition catch_up :: "bool \<Rightarrow> 'a list \<Rightarrow> 'a list \<Rightarrow> bool" where
  "catch_up live got all \<longleftrightarrow> prefix got all \<and> (live \<longrightarrow> got = all)"

definition subscriber_inv :: "session \<Rightarrow> attachment \<Rightarrow> runner_event stream \<Rightarrow> bool" where
  "subscriber_inv s a st \<longleftrightarrow>
     at_ClaudeEventsCount a \<le> int (length (ss_AllRecords s)) \<and> 0 \<le> at_ClaudeReplayStart a
     \<and> at_ClaudeReplayStart a \<le> at_ClaudeEventsCount a
     \<and> catch_up (st_Open st) (at_ClaudeEvents a @ live_records a (st_Offered st)) (owed_records a (ss_AllRecords s))
     \<and> (\<not> ss_Irregular s \<longrightarrow> ss_Start s \<le> rw_Current (at_Replay a) \<and> rw_Current (at_Replay a) < ss_NextSeq s
          \<and> rw_Oldest (at_Replay a) \<le> ss_NextSeq s
          \<and> catch_up (st_Open st) (map out_key (rw_Events (at_Replay a)) @ live_outputs a (st_Offered st))
              (owed_outputs a (ss_AllOutputs s))
          \<and> (\<not> rw_Gap (at_Replay a) \<longrightarrow> (\<forall>e \<in> set (ss_AllOutputs s).
                ou_Seq e > min (at_LastSeq a) (rw_Current (at_Replay a)) \<longrightarrow> ou_Seq e \<ge> rw_Oldest (at_Replay a))))"

definition attach_inv :: "session \<Rightarrow> bool" where
  "attach_inv s \<longleftrightarrow> outputs_inv s \<and> start_inv s \<and> record_inv s \<and> list_all2 (subscriber_inv s) (ss_Given s) (ss_Streams s)"

lemma live_outputs_append: "live_outputs a (es @ fs) = live_outputs a es @ live_outputs a fs"
  by (induction a es rule: live_outputs.induct) simp_all

lemma live_records_append: "live_records a (es @ fs) = live_records a es @ live_records a fs"
  by (induction a es rule: live_records.induct) simp_all

lemma owed_outputs_append: "owed_outputs a (es @ fs) = owed_outputs a es @ owed_outputs a fs"
  by (simp add: owed_outputs_def)

lemma owed_records_append: "nat (at_ClaudeReplayStart a) \<le> length xs \<Longrightarrow> owed_records a (xs @ ys) = owed_records a xs @ ys"
  by (simp add: owed_records_def)

lemma catch_up_step: "catch_up live got all \<Longrightarrow> catch_up live (if live then got @ x else got) (all @ x)"
  by (auto simp: catch_up_def prefix_def)

lemma catch_up_closed: "catch_up live got all \<Longrightarrow> catch_up False got all"
  by (simp add: catch_up_def)

text \<open>A step that appends to the history, and the event it broadcasts.\<close>

definition extends :: "session \<Rightarrow> session \<Rightarrow> output_msg list \<Rightarrow> byte list list \<Rightarrow> bool" where
  "extends s t xs rs \<longleftrightarrow> ss_AllOutputs t = ss_AllOutputs s @ xs \<and> ss_AllRecords t = ss_AllRecords s @ rs
     \<and> ss_Start t = ss_Start s \<and> (ss_Irregular s \<longrightarrow> ss_Irregular t) \<and> (\<not> ss_Irregular t \<longrightarrow> ss_NextSeq s \<le> ss_NextSeq t \<and> (\<forall>e \<in> set xs. ss_NextSeq s \<le> ou_Seq e))"

lemma subscriber_broadcast:
  assumes "subscriber_inv s a st" and "extends s t xs rs"
    and "at_ClaudeEventsCount a \<le> int (length (ss_AllRecords s)) \<Longrightarrow> live_records a [e] = rs"
    and "\<not> ss_Irregular t \<Longrightarrow> ss_Start s \<le> rw_Current (at_Replay a) \<Longrightarrow> rw_Current (at_Replay a) < ss_NextSeq s
      \<Longrightarrow> rw_Oldest (at_Replay a) \<le> ss_NextSeq s \<Longrightarrow> live_outputs a [e] = owed_outputs a xs"
  shows "subscriber_inv t a (if st_Open st then offer e st else st)"
proof -
  have n: "nat (at_ClaudeReplayStart a) \<le> length (ss_AllRecords s)" using assms(1) by (auto simp: subscriber_inv_def)
  have "catch_up (st_Open st) (at_ClaudeEvents a @ live_records a (st_Offered (if st_Open st then offer e st else st)))
      (owed_records a (ss_AllRecords t))"
    using catch_up_step [of "st_Open st" "at_ClaudeEvents a @ live_records a (st_Offered st)" "owed_records a (ss_AllRecords s)" rs]
      assms(1,2) assms(3) by (auto simp: subscriber_inv_def extends_def owed_records_append [OF n] live_records_append split: if_splits)
  moreover have "catch_up (st_Open st) (map out_key (rw_Events (at_Replay a)) @ live_outputs a (st_Offered (if st_Open st then offer e st else st)))
      (owed_outputs a (ss_AllOutputs t))" if "\<not> ss_Irregular t"
    using catch_up_step [of "st_Open st" "map out_key (rw_Events (at_Replay a)) @ live_outputs a (st_Offered st)"
        "owed_outputs a (ss_AllOutputs s)" "owed_outputs a xs"] assms(1,2) assms(4) [OF that] that
    by (auto simp: subscriber_inv_def extends_def owed_outputs_append live_outputs_append split: if_splits)
  moreover have "\<forall>e \<in> set (ss_AllOutputs t). ou_Seq e > min (at_LastSeq a) (rw_Current (at_Replay a)) \<longrightarrow> ou_Seq e \<ge> rw_Oldest (at_Replay a)"
    if "\<not> ss_Irregular t" "\<not> rw_Gap (at_Replay a)"
    using assms(1,2) that by (auto simp: subscriber_inv_def extends_def intro: order_trans)
  ultimately show ?thesis
    using assms(1,2) by (auto simp: subscriber_inv_def extends_def intro: less_le_trans order_trans)
qed

lemma subscriber_closed:
  assumes "subscriber_inv s a st" "st_Offered st' = st_Offered st" "st_Open st' \<longrightarrow> st_Open st"
  shows "subscriber_inv s a st'"
  using assms by (auto simp: subscriber_inv_def catch_up_def)

lemma subscriber_cong:
  assumes "subscriber_inv s a st" "ss_AllOutputs t = ss_AllOutputs s" "ss_AllRecords t = ss_AllRecords s" "ss_Start t = ss_Start s"
    "ss_Irregular t = ss_Irregular s" "ss_NextSeq t = ss_NextSeq s"
  shows "subscriber_inv t a st"
  using assms by (simp add: subscriber_inv_def)

lemma list_all2_update: "list_all2 P xs ys \<Longrightarrow> (\<And>x y. P x y \<Longrightarrow> P x (f y)) \<Longrightarrow> list_all2 P xs (ys[i := f (ys ! i)])"
  by (cases "i < length ys") (auto simp: list_all2_conv_all_nth nth_list_update)

lemma subscribers_broadcast:
  assumes "list_all2 (subscriber_inv s) as ss" and "\<And>a st. subscriber_inv s a st \<Longrightarrow> subscriber_inv t a (if st_Open st then offer e st else st)"
  shows "list_all2 (subscriber_inv t) as (broadcast e ss)"
  using assms by (auto simp: broadcast_def list_all2_conv_all_nth)

lemma subscribers_last:
  assumes "list_all2 (subscriber_inv s) as ss" "ends_feed e" "extends s t [] []"
  shows "list_all2 (subscriber_inv t) as (broadcast_last ns e ss)"
proof -
  have f: "live_outputs a [e] = []" "live_records a [e] = []" for a using assms(2) by (cases e; simp)+
  have "subscriber_inv t a (if st_Open st then shut (offer_last n e st) else st)" if "subscriber_inv s a st" for a st n
  proof -
    have "subscriber_inv t a (if st_Open st then offer e st else st)"
      by (rule subscriber_broadcast [OF that assms(3)]) (use f in \<open>simp_all add: owed_outputs_def\<close>)
    then show ?thesis by (rule subscriber_closed) auto
  qed
  then show ?thesis using assms(1) by (auto simp: broadcast_last_def list_all2_conv_all_nth nth_enumerate_eq)
qed

section \<open>Every step keeps it\<close>

lemma extends_silent:
  "ss_AllOutputs t = ss_AllOutputs s \<Longrightarrow> ss_AllRecords t = ss_AllRecords s \<Longrightarrow> ss_Start t = ss_Start s
   \<Longrightarrow> ss_Irregular t = ss_Irregular s \<Longrightarrow> ss_NextSeq t = ss_NextSeq s \<Longrightarrow> extends s t [] []"
  by (simp add: extends_def)

text \<open>One broadcast event and what it added to the history.\<close>

definition adds :: "session \<Rightarrow> runner_event \<Rightarrow> session \<Rightarrow> bool" where
  "adds s e t \<longleftrightarrow> outputs_inv t \<and> start_inv t \<and> record_inv t \<and> ss_Given t = ss_Given s \<and> ss_Streams t = ss_Streams s
     \<and> (\<exists>xs rs. extends s t xs rs
        \<and> (\<forall>a. at_ClaudeEventsCount a \<le> int (length (ss_AllRecords s)) \<longrightarrow> live_records a [e] = rs)
        \<and> (\<forall>a. \<not> ss_Irregular t \<longrightarrow> ss_Start s \<le> rw_Current (at_Replay a) \<longrightarrow> rw_Current (at_Replay a) < ss_NextSeq s
             \<longrightarrow> rw_Oldest (at_Replay a) \<le> ss_NextSeq s \<longrightarrow> live_outputs a [e] = owed_outputs a xs))"

lemma adds_attach:
  assumes "attach_inv s" and "adds s e t"
  shows "attach_inv (broadcastEventLocked e t)"
proof -
  obtain xs rs where x: "extends s t xs rs"
    "\<forall>a. at_ClaudeEventsCount a \<le> int (length (ss_AllRecords s)) \<longrightarrow> live_records a [e] = rs"
    "\<forall>a. \<not> ss_Irregular t \<longrightarrow> ss_Start s \<le> rw_Current (at_Replay a) \<longrightarrow> rw_Current (at_Replay a) < ss_NextSeq s
       \<longrightarrow> rw_Oldest (at_Replay a) \<le> ss_NextSeq s \<longrightarrow> live_outputs a [e] = owed_outputs a xs"
    and k: "outputs_inv t" "start_inv t" "record_inv t" and g: "ss_Given t = ss_Given s" "ss_Streams t = ss_Streams s"
    using assms(2) by (auto simp: adds_def)
  have "list_all2 (subscriber_inv t) (ss_Given s) (broadcast e (ss_Streams s))"
  proof (rule subscribers_broadcast)
    show "list_all2 (subscriber_inv s) (ss_Given s) (ss_Streams s)" using assms(1) by (simp add: attach_inv_def)
    show "subscriber_inv t a (if st_Open st then offer e st else st)" if "subscriber_inv s a st" for a st
      by (rule subscriber_broadcast [OF that x(1)]) (use x in blast)+
  qed
  then have "list_all2 (subscriber_inv (broadcastEventLocked e t)) (ss_Given s) (broadcast e (ss_Streams s))"
    by (rule list_all2_mono) (auto intro: subscriber_cong simp: broadcastEventLocked_def)
  then show ?thesis
    using k g ring_cong [of "broadcastEventLocked e t" t] start_cong [of "broadcastEventLocked e t" t]
      record_cong [of "broadcastEventLocked e t" t]
    by (simp add: attach_inv_def broadcastEventLocked_def)
qed

lemma adds_output:
  assumes "outputs_inv s" "start_inv s" "record_inv s" and "apply_output now o1 s = (e, t)"
  shows "adds s e t"
proof -
  define o2 where "o2 = (if ou_Seq o1 = 0 then o1\<lparr>ou_Seq := ss_NextSeq s\<rparr> else o1)"
  note f = apply_output_effect [OF assms(4)]
  show ?thesis
  proof (cases "ou_Seq o2 \<ge> ss_NextSeq s")
    case True
    define o3 where "o3 = (if ou_At o2 = 0 then o2\<lparr>ou_At := now\<rparr> else o2)"
    have o3: "ou_Seq o3 = ou_Seq o2" "out_key o3 = out_key o2" by (simp_all add: o3_def out_key_def)
    have e: "e = EventOutput o2"
      and t: "ss_Outputs t = ss_Outputs (appendOutputLocked now o2 s)" "ss_AllOutputs t = ss_AllOutputs (appendOutputLocked now o2 s)"
        "ss_NextSeq t = ss_NextSeq (appendOutputLocked now o2 s)" "ss_Irregular t = ss_Irregular (appendOutputLocked now o2 s)"
        "ss_Start t = ss_Start (appendOutputLocked now o2 s)"
      using assms(4) True by (auto simp: apply_output_def append_effect Let_def o2_def [symmetric])
    have x: "extends s t [o3] []"
      using True word_below_succ [of "ss_NextSeq s" "ou_Seq o2"] f
      by (auto simp: extends_def t append_effect o3 o3_def [symmetric])
    moreover have "outputs_inv t" using append_ring [OF assms(1)] ring_cong [OF t(1,2,3,4)] by simp
    moreover have "start_inv t" using append_start [OF assms(1,2)] start_cong [OF t(3,4,5)] by simp
    moreover have "record_inv t" using assms(3) record_cong [of t s] f by simp
    moreover have "live_outputs a [e] = owed_outputs a [o3]"
      if "rw_Current (at_Replay a) < ss_NextSeq s" "rw_Oldest (at_Replay a) \<le> ss_NextSeq s" for a
    proof -
      have "rw_Current (at_Replay a) < ou_Seq o2" "rw_Oldest (at_Replay a) \<le> ou_Seq o2"
        using that True by (auto intro: less_le_trans order_trans)
      moreover have "min (at_LastSeq a) (rw_Current (at_Replay a)) < ou_Seq o2"
        using min.cobounded2 calculation(1) by (rule le_less_trans)
      ultimately show ?thesis by (simp add: e owed_outputs_def o3)
    qed
    ultimately show ?thesis unfolding adds_def using f e by (intro conjI exI [of _ "[o3]"] exI [of _ "[]"]) auto
  next
    case False
    then have e: "e = EventOutput o2"
      and t: "ss_Outputs t = ss_Outputs s" "ss_AllOutputs t = ss_AllOutputs s" "ss_NextSeq t = ss_NextSeq s"
        "ss_Irregular t = (ss_Irregular s \<or> ou_Seq o2 > ss_Start s)"
      using assms(4) by (auto simp: apply_output_def Let_def o2_def [symmetric])
    have x: "extends s t [] []" using f by (simp add: extends_def t)
    moreover have "outputs_inv t" "start_inv t"
      using assms(1,2) f unfolding outputs_inv_def start_inv_def by (simp_all add: t)
    moreover have "record_inv t" using assms(3) record_cong [of t s] f by simp
    moreover have "live_outputs a [e] = owed_outputs a []" if "\<not> ss_Irregular t" "ss_Start s \<le> rw_Current (at_Replay a)" for a
      using that by (auto simp: e t owed_outputs_def not_less)
    ultimately show ?thesis unfolding adds_def using f e by (intro conjI exI [of _ "[]"]) auto
  qed
qed

lemma adds_record:
  assumes "attach_inv s" and "ss_Outputs t = ss_Outputs s" "ss_NextSeq t = ss_NextSeq s" "ss_AllOutputs t = ss_AllOutputs s"
    "ss_Irregular t = ss_Irregular s" "ss_Start t = ss_Start s" "ss_AllRecords t = ss_AllRecords s @ [raw]" "record_inv t"
    "ss_Given t = ss_Given s" "ss_Streams t = ss_Streams s"
    and e: "e = EventClaude raw (int (length (ss_AllRecords s))) at \<or> e = EventCodex raw (int (length (ss_AllRecords s))) at"
  shows "adds s e t"
proof -
  have "extends s t [] [raw]" using assms by (simp add: extends_def)
  moreover have "outputs_inv t" "start_inv t" using assms ring_cong start_cong unfolding attach_inv_def by metis+
  ultimately show ?thesis
    unfolding adds_def using assms by (intro conjI exI [of _ "[]"] exI [of _ "[raw]"]) (auto simp: owed_outputs_def)
qed

lemma record_index: "record_inv s \<Longrightarrow> ss_ClaudeBase s + int (length (ss_Claude s)) = int (length (ss_AllRecords s))"
  unfolding record_inv_def by (elim conjE)

lemma terminal_attach:
  assumes "attach_inv s" "ends_feed e"
  shows "attach_inv (broadcast_terminal ns e (s\<lparr>ss_Info := i, ss_Exit := x\<rparr>))"
proof -
  let ?t = "broadcast_terminal ns e (s\<lparr>ss_Info := i, ss_Exit := x\<rparr>)"
  have f: "ss_Outputs ?t = ss_Outputs s" "ss_AllOutputs ?t = ss_AllOutputs s" "ss_NextSeq ?t = ss_NextSeq s"
    "ss_Irregular ?t = ss_Irregular s" "ss_Start ?t = ss_Start s" "ss_Claude ?t = ss_Claude s" "ss_ClaudeBase ?t = ss_ClaudeBase s"
    "ss_AllRecords ?t = ss_AllRecords s" "ss_Given ?t = ss_Given s" "ss_Streams ?t = broadcast_last ns e (ss_Streams s)"
    by (simp_all add: broadcast_terminal_def)
  have "list_all2 (subscriber_inv ?t) (ss_Given s) (broadcast_last ns e (ss_Streams s))"
    using assms by (intro subscribers_last extends_silent) (simp_all add: f attach_inv_def)
  then show ?thesis
    using assms(1) ring_cong [OF f(1-4)] start_cong [OF f(3-5)] record_cong [OF f(6-8)] by (simp add: attach_inv_def f)
qed

lemma applyEvent_attach:
  assumes "attach_inv s" shows "attach_inv (applyEvent clock parse now ns ev s)"
proof (cases ev)
  case (EventOutput o1)
  obtain e t where a: "apply_output now o1 s = (e, t)" by (cases "apply_output now o1 s")
  show ?thesis using adds_attach [OF assms adds_output [OF _ _ _ a]] assms by (simp add: applyEvent_def EventOutput a attach_inv_def)
next
  case (EventClaude raw x y)
  obtain index at t where r: "recordClaudeLocked clock parse now FromWatcher raw s = (index, at, t)" by (cases rule: prod_cases3)
  have i: "record_inv s" using assms by (simp add: attach_inv_def)
  have "index = int (length (ss_AllRecords s))" using record_index [OF i] record_effect(1) [OF r] by simp
  then have "adds s (EventClaude raw index at) t"
    by (intro adds_record [OF assms]) (simp_all add: record_effect(4-) [OF r] record_record_inv [OF i r])
  then show ?thesis using adds_attach [OF assms] by (simp add: applyEvent_def EventClaude r)
next
  case (EventCodex raw x y)
  obtain e t where c: "apply_codex clock parse now raw s = (e, t)" by (cases "apply_codex clock parse now raw s")
  obtain index at t' where r: "recordClaudeLocked clock parse now FromRunnerStream raw s = (index, at, t')" by (cases rule: prod_cases3)
  have i: "record_inv s" using assms by (simp add: attach_inv_def)
  have "record_inv t" using record_record_inv [OF i r] record_cong [of t t'] apply_codex_effect(2-4) [OF c] record_effect(2-4) [OF r] by simp
  moreover note record_index [OF i]
  ultimately have "adds s e t"
    using apply_codex_effect [OF c] by (elim exE) (rule adds_record [OF assms], auto)
  then show ?thesis using adds_attach [OF assms] by (simp add: applyEvent_def EventCodex c)
next
  case (EventRetry r)
  let ?t = "s\<lparr>ss_Info := (ss_Info s)\<lparr>si_Retry := map_option (Pair (ss_NextRetry s)) r\<rparr>, ss_NextRetry := ss_NextRetry s + 1\<rparr>"
  have "adds s (EventRetry r) ?t"
    using assms extends_silent [of ?t s] unfolding adds_def attach_inv_def outputs_inv_def start_inv_def record_inv_def
    by (intro conjI exI [of _ "[]"]) (auto simp: owed_outputs_def)
  then show ?thesis using adds_attach [OF assms] by (simp add: applyEvent_def EventRetry)
next
  case (EventExit x)
  then show ?thesis using terminal_attach [OF assms] by (simp add: applyEvent_def apply_exit_def Let_def)
next
  case (EventRunnerLost x)
  then show ?thesis using terminal_attach [OF assms, of _ ns "ss_Exit s"] by (simp add: applyEvent_def apply_lost_def Let_def)
qed


text \<open>What the replay holds of the outputs is what is owed of them.\<close>

lemma replay_owed:
  assumes "outputs_inv s" "start_inv s" "\<not> ss_Irregular s" "at_LastSeq a = lastSeq" "at_Replay a = replayLocked lastSeq s"
  shows "ss_Start s \<le> rw_Current (at_Replay a) \<and> rw_Current (at_Replay a) < ss_NextSeq s \<and> rw_Oldest (at_Replay a) \<le> ss_NextSeq s
      \<and> map out_key (rw_Events (at_Replay a)) = owed_outputs a (ss_AllOutputs s)
      \<and> (\<not> rw_Gap (at_Replay a) \<longrightarrow> (\<forall>e \<in> set (ss_AllOutputs s).
            ou_Seq e > min (at_LastSeq a) (rw_Current (at_Replay a)) \<longrightarrow> ou_Seq e \<ge> rw_Oldest (at_Replay a)))"
proof -
  have p: "0 < ss_NextSeq s" "ss_Start s < ss_NextSeq s" "sorted_wrt (<) (map ou_Seq (ss_AllOutputs s))"
    "\<forall>e \<in> set (ss_AllOutputs s). ou_Seq e < ss_NextSeq s"
    using assms(1-3) by (auto simp: outputs_inv_def start_inv_def)
  have cur: "rw_Current (at_Replay a) = ss_NextSeq s - 1" using p(1) by (simp add: assms(5) replayLocked_def Let_def)
  have below: "x \<le> ss_NextSeq s - 1" if "x < ss_NextSeq s" for x
    using that p(1) by unat_arith
  have "ss_NextSeq s - 1 < ss_NextSeq s" using p(1) by unat_arith
  moreover have "ss_Start s \<le> ss_NextSeq s - 1" using below p(2) .
  moreover obtain j where j: "ss_Outputs s = drop j (ss_AllOutputs s)" using assms(1) by (auto simp: outputs_inv_def)
  have all: "\<forall>e \<in> set (ss_AllOutputs s). ou_Seq e \<le> ss_NextSeq s - 1" using p(4) below by blast
  have "rw_Oldest (at_Replay a) \<le> ss_NextSeq s
     \<and> filter (\<lambda>e. ou_Seq e > lastSeq) (ss_Outputs s)
       = filter (\<lambda>e. ou_Seq e > min lastSeq (ss_NextSeq s - 1) \<and> ou_Seq e \<ge> rw_Oldest (at_Replay a)) (ss_AllOutputs s)
     \<and> (\<not> rw_Gap (at_Replay a) \<longrightarrow> (\<forall>e \<in> set (ss_AllOutputs s). ou_Seq e > min lastSeq (ss_NextSeq s - 1) \<longrightarrow> ou_Seq e \<ge> rw_Oldest (at_Replay a)))"
  proof (cases "ss_Outputs s")
    case Nil
    then have "ss_AllOutputs s = []" using assms(1) by (auto simp: outputs_inv_def)
    then show ?thesis using Nil by (simp add: assms(5) replayLocked_def Let_def)
  next
    case (Cons o1 rest)
    have o: "rw_Oldest (at_Replay a) = ou_Seq o1" by (simp add: assms(5) replayLocked_def Let_def Cons)
    have split: "ss_AllOutputs s = take j (ss_AllOutputs s) @ o1 # rest" using j Cons by (metis append_take_drop_id)
    have "sorted_wrt (<) (map ou_Seq (take j (ss_AllOutputs s)) @ ou_Seq o1 # map ou_Seq rest)"
      using p(3) split by (metis map_append list.simps(9))
    then have old: "\<forall>e \<in> set (take j (ss_AllOutputs s)). \<not> ou_Seq o1 \<le> ou_Seq e" and new: "\<forall>e \<in> set rest. ou_Seq o1 \<le> ou_Seq e"
      by (auto simp: sorted_wrt_append not_le)
    have mem: "set (o1 # rest) \<subseteq> set (ss_AllOutputs s)" using Cons j by (metis set_drop_subset)
    then have "ou_Seq o1 \<le> ss_NextSeq s" using p(4) by auto
    moreover have "filter (\<lambda>e. ou_Seq e > lastSeq) (o1 # rest)
        = filter (\<lambda>e. ou_Seq e > min lastSeq (ss_NextSeq s - 1) \<and> ou_Seq e \<ge> ou_Seq o1) (o1 # rest)"
      using mem all new by (intro filter_cong) (auto simp: min_def not_le dest!: bspec intro: less_le_trans)
    moreover have "filter (\<lambda>e. ou_Seq e > min lastSeq (ss_NextSeq s - 1) \<and> ou_Seq e \<ge> ou_Seq o1) (take j (ss_AllOutputs s)) = []"
      using old by (auto simp: filter_empty_conv)
    moreover have "ou_Seq e \<ge> ou_Seq o1"
      if "\<not> rw_Gap (at_Replay a)" "e \<in> set (ss_AllOutputs s)" "ou_Seq e > min lastSeq (ss_NextSeq s - 1)" for e
    proof -
      have "ou_Seq o1 \<le> lastSeq + 1" using that(1) by (simp add: assms(5) replayLocked_def Let_def Cons not_less)
      moreover have "ou_Seq e > lastSeq" using that(3) all that(2) by (auto simp: min_def not_le split: if_splits)
      then have "lastSeq + 1 \<le> ou_Seq e" by unat_arith
      ultimately show ?thesis by (rule order_trans)
    qed
    ultimately show ?thesis unfolding o Cons by (subst split, simp only: filter_append append_Nil) blast
  qed
  ultimately show ?thesis
    using below p(2) by (simp add: cur owed_outputs_def assms(4)) (simp add: assms(5) replayLocked_def Let_def)
qed

lemma attach_attach:
  assumes "attach_inv s" shows "attach_inv (snd (Attach lastSeq since include cap s))"
proof -
  define a where "a = fst (Attach lastSeq since include cap s)"
  have t: "snd (Attach lastSeq since include cap s) = s\<lparr>ss_Streams := ss_Streams s @ [new_stream], ss_Given := ss_Given s @ [a]\<rparr>"
    and a: "at_LastSeq a = lastSeq" "at_Replay a = replayLocked lastSeq s"
      "at_ClaudeEvents a = drop (replay_from include since cap s) (ss_Claude s)"
      "at_ClaudeEventsCount a = ss_ClaudeBase s + int (length (ss_Claude s))"
      "at_ClaudeReplayStart a = ss_ClaudeBase s + int (replay_from include since cap s)"
    by (simp_all add: Attach_def Let_def a_def)
  have i: "outputs_inv s" "start_inv s" "record_inv s" using assms by (simp_all add: attach_inv_def)
  have c: "0 \<le> ss_ClaudeBase s" "ss_Claude s = drop (nat (ss_ClaudeBase s)) (ss_AllRecords s)" using i(3) unfolding record_inv_def by blast+
  have le: "replay_from include since cap s \<le> length (ss_Claude s)" by (auto simp: replay_from_def Let_def)
  have "at_ClaudeEvents a = owed_records a (ss_AllRecords s)"
    unfolding owed_records_def a by (subst c(2)) (use c(1) in \<open>simp add: drop_drop nat_add_distrib add.commute\<close>)
  moreover have "ss_Start s \<le> rw_Current (at_Replay a) \<and> rw_Current (at_Replay a) < ss_NextSeq s \<and> rw_Oldest (at_Replay a) \<le> ss_NextSeq s
      \<and> map out_key (rw_Events (at_Replay a)) = owed_outputs a (ss_AllOutputs s)
      \<and> (\<not> rw_Gap (at_Replay a) \<longrightarrow> (\<forall>e \<in> set (ss_AllOutputs s).
            ou_Seq e > min (at_LastSeq a) (rw_Current (at_Replay a)) \<longrightarrow> ou_Seq e \<ge> rw_Oldest (at_Replay a)))" if "\<not> ss_Irregular s"
    using replay_owed [OF i(1,2) that a(1,2)] .
  ultimately have "subscriber_inv s a new_stream"
    using record_index [OF i(3)] c(1) le by (auto simp: subscriber_inv_def new_stream_def catch_up_def a)
  then have "list_all2 (subscriber_inv s) (ss_Given s @ [a]) (ss_Streams s @ [new_stream])"
    using assms by (auto simp: attach_inv_def intro: list_all2_appendI)
  then show ?thesis
    unfolding t using i by (auto simp: attach_inv_def outputs_inv_def start_inv_def record_inv_def elim!: list_all2_mono intro: subscriber_cong)
qed

lemma foldl_append_ring:
  "outputs_inv s \<Longrightarrow> outputs_inv (foldl (\<lambda>s e. appendOutputLocked now e s) s es)"
  by (induction es arbitrary: s) (simp_all add: append_ring)

lemma foldl_record_inv:
  "record_inv s \<Longrightarrow> record_inv (foldl (\<lambda>s raw. snd (snd (recordClaudeLocked clock parse now o1 raw s))) s rs)"
proof (induction rs arbitrary: s)
  case (Cons raw rs)
  obtain index at t where r: "recordClaudeLocked clock parse now o1 raw s = (index, at, t)" by (cases rule: prod_cases3)
  show ?case using Cons.IH [OF record_record_inv [OF Cons.prems r]] by (simp add: r)
qed simp

lemma newSession_attach: "attach_inv (newSession clock parse now launch reason ri md replay)"
proof -
  define s1 where "s1 = foldl (\<lambda>s e. appendOutputLocked now e s) (bare_session now launch reason ri md) (rw_Events replay)"
  define s2 where "s2 = foldl (\<lambda>s raw. snd (snd (recordClaudeLocked clock parse now FromRunnerReplay raw s))) s1 (rw_Structured replay)"
  define s3 where "s3 = (if rw_Current replay \<ge> ss_NextSeq s2
                then s2\<lparr>ss_NextSeq := rw_Current replay + 1, ss_Irregular := (ss_Irregular s2 \<or> rw_Current replay = - 1)\<rparr>
                else s2)"
  have n: "newSession clock parse now launch reason ri md replay = s3\<lparr>ss_Start := ss_NextSeq s3 - 1\<rparr>"
    by (simp add: newSession_def s1_def s2_def s3_def Let_def)
  have "outputs_inv s1" unfolding s1_def by (rule foldl_append_ring) (simp add: bare_session_def outputs_inv_def Let_def)
  then have r2: "outputs_inv s2" unfolding s2_def by (subst ring_cong) (simp_all add: foldl_record_start)
  have "record_inv s1" unfolding s1_def
    by (subst record_cong [of _ "bare_session now launch reason ri md"])
       (simp_all add: foldl_append_start, simp add: bare_session_def record_inv_def Let_def)
  then have "record_inv s2" unfolding s2_def by (rule foldl_record_inv)
  then have "record_inv s3" using record_cong [of s3 s2] by (simp add: s3_def)
  then have c3: "record_inv (s3\<lparr>ss_Start := x\<rparr>)" for x using record_cong [of "s3\<lparr>ss_Start := x\<rparr>" s3] by simp
  have r3: "outputs_inv s3"
    using r2 word_below_succ [of "ss_NextSeq s2" "rw_Current replay"]
    by (auto simp: s3_def outputs_inv_def intro: less_trans)
  have "0 < ss_NextSeq s3" if "\<not> ss_Irregular s3" using r3 that by (simp add: outputs_inv_def)
  then have "start_inv (s3\<lparr>ss_Start := ss_NextSeq s3 - 1\<rparr>)" by (simp add: start_inv_def) unat_arith
  moreover have "ss_Given s3 = []" "ss_Streams s3 = []"
    by (simp_all add: s3_def s2_def s1_def foldl_record_start foldl_append_start bare_session_def Let_def)
  ultimately show ?thesis
    unfolding n using r3 c3 by (simp add: attach_inv_def outputs_inv_def)
qed

lemma streams_inv [simp]:
  "outputs_inv (s\<lparr>ss_Streams := x\<rparr>) = outputs_inv s" "start_inv (s\<lparr>ss_Streams := x\<rparr>) = start_inv s"
  "record_inv (s\<lparr>ss_Streams := x\<rparr>) = record_inv s"
  by (simp_all add: outputs_inv_def start_inv_def record_inv_def)

lemma step_attach:
  assumes "session_step clock parse s t" and "attach_inv s"
  shows "attach_inv t"
  using assms(1)
proof (cases rule: session_step.cases)
  case session_attach
  then show ?thesis using attach_attach [OF assms(2)] by simp
next
  case (session_manage)
  note f = manage_frames [OF session_manage]
  have "list_all2 (subscriber_inv t) (ss_Given s) (ss_Streams s)"
    using assms(2) by (auto simp: attach_inv_def f elim!: list_all2_mono intro: subscriber_cong)
  then show ?thesis
    using assms(2) ring_cong [of t s] start_cong [of t s] record_cong [of t s] by (simp add: attach_inv_def f)
next
  case (session_cancel i)
  let ?f = "\<lambda>st. st\<lparr>st_Open := False, st_Cancelled := True\<rparr>"
  have "list_all2 (subscriber_inv s) (ss_Given s) ((ss_Streams s)[i := ?f (ss_Streams s ! i)])"
    using assms(2) by (intro list_all2_update) (auto simp: attach_inv_def intro: subscriber_closed)
  then have "list_all2 (subscriber_inv t) (ss_Given s) (cancel i (ss_Streams s))"
    using assms(2) unfolding session_cancel
    by (auto simp: cancel_def cancel_attachment_def attach_inv_def elim!: list_all2_mono intro: subscriber_cong)
  then show ?thesis
    using assms(2) unfolding session_cancel
    by (simp add: attach_inv_def cancel_attachment_def)
next
  case (session_consume i)
  have "list_all2 (subscriber_inv s) (ss_Given s) ((ss_Streams s)[i := receive (ss_Streams s ! i)])"
    using assms(2) by (intro list_all2_update) (auto simp: attach_inv_def intro: subscriber_closed)
  then have "list_all2 (subscriber_inv t) (ss_Given s) (consume i (ss_Streams s))"
    using assms(2) unfolding session_consume
    by (auto simp: consume_def attach_inv_def elim!: list_all2_mono intro: subscriber_cong)
  then show ?thesis
    using assms(2) unfolding session_consume by (simp add: attach_inv_def)
qed (use applyEvent_attach [OF assms(2)] in simp_all)

lemma session_attach_inv: "session_reached clock parse s \<Longrightarrow> attach_inv s"
  by (induction rule: reached.induct) (auto simp: session_start_def newSession_attach step_attach)

section \<open>What is sent\<close>

lemma sent_append [simp]:
  "sent_outputs (as @ bs) = sent_outputs as @ sent_outputs bs" "sent_records (as @ bs) = sent_records as @ sent_records bs"
  by (induction as rule: sent_outputs.induct) simp_all

lemma sent_initial:
  "sent_outputs (map Sent (sendInitial info a lastSeq True)) = map out_key (rw_Events (at_Replay a))"
  "sent_records (map Sent (sendInitial info a lastSeq True)) = at_ClaudeEvents a"
proof -
  have "sent_outputs (map (Sent \<circ> (\<lambda>e. WsOutput (ou_Seq e) (ou_Data e))) es) = map out_key es"
    "sent_records (map (Sent \<circ> (\<lambda>e. WsOutput (ou_Seq e) (ou_Data e))) es) = []" for es
    by (induction es) (simp_all add: out_key_def)
  moreover have "sent_outputs (map (Sent \<circ> WsClaude) rs) = []" "sent_records (map (Sent \<circ> WsClaude) rs) = rs" for rs
    by (induction rs) simp_all
  ultimately show "sent_outputs (map Sent (sendInitial info a lastSeq True)) = map out_key (rw_Events (at_Replay a))"
    "sent_records (map Sent (sendInitial info a lastSeq True)) = at_ClaudeEvents a"
    by (simp_all add: sendInitial_def)
qed

lemma sent_prefix: "prefix as bs \<Longrightarrow> prefix (sent_outputs as) (sent_outputs bs) \<and> prefix (sent_records as) (sent_records bs)"
  by (auto simp: prefix_def)

lemma stream_sent:
  "prefix (sent_outputs (streamAttachment n a single_options es)) (live_outputs a es)
   \<and> prefix (sent_records (streamAttachment n a single_options es)) (live_records a es)"
proof (induction es arbitrary: n)
  case (Cons e es)
  show ?case
    using Cons.IH [of n] Cons.IH [of "n - 1"]
    by (cases e) (auto simp: single_options_def out_key_def exitMessage_def unreachableMessage_def)
qed simp

lemma stream_sent_all:
  assumes "length (live_outputs a es) + length (live_records a es) \<le> n" and "list_all (\<lambda>e. \<not> ends_feed e) es"
  shows "sent_outputs (streamAttachment n a single_options es) = live_outputs a es
   \<and> sent_records (streamAttachment n a single_options es) = live_records a es"
  using assms
proof (induction es arbitrary: n)
  case (Cons e es)
  show ?case
    using Cons.IH [of n] Cons.IH [of "n - 1"] Cons.prems
    by (cases e) (auto simp: single_options_def out_key_def split: if_splits)
qed simp


lemma initial_length: "length (sendInitial info a lastSeq True) \<le> 2 + length (rw_Events (at_Replay a)) + length (at_ClaudeEvents a)"
  by (simp add: sendInitial_def)

lemma handler_sent:
  "prefix (sent_outputs (handleSingle n info None a lastSeq es)) (map out_key (rw_Events (at_Replay a)) @ live_outputs a es)
   \<and> prefix (sent_records (handleSingle n info None a lastSeq es)) (at_ClaudeEvents a @ live_records a es)"
proof (cases "n < length (sendInitial info a lastSeq True)")
  case True
  have "prefix (map Sent (take n (sendInitial info a lastSeq True))) (map Sent (sendInitial info a lastSeq True))"
    by (simp add: take_is_prefix map_mono_prefix)
  from sent_prefix [OF this] show ?thesis using True by (auto simp: handleSingle_def Let_def sent_initial intro: prefix_prefix)
next
  case False
  then show ?thesis using stream_sent by (simp add: handleSingle_def Let_def sent_initial)
qed

lemma handler_sent_all:
  assumes "2 + length (map out_key (rw_Events (at_Replay a)) @ live_outputs a es) + length (at_ClaudeEvents a @ live_records a es) \<le> n"
    and "list_all (\<lambda>e. \<not> ends_feed e) es"
  shows "sent_outputs (handleSingle n info None a lastSeq es) = map out_key (rw_Events (at_Replay a)) @ live_outputs a es
   \<and> sent_records (handleSingle n info None a lastSeq es) = at_ClaudeEvents a @ live_records a es"
proof -
  have l: "\<not> n < length (sendInitial info a lastSeq True)"
    "length (live_outputs a es) + length (live_records a es) \<le> n - length (sendInitial info a lastSeq True)"
    using initial_length [of info a lastSeq] assms(1) by simp_all
  show ?thesis using l(1) stream_sent_all [OF l(2) assms(2)] by (simp add: handleSingle_def Let_def sent_initial)
qed

section \<open>Properties\<close>

text \<open>In terms of the attachment: what is sent is what is owed.\<close>

lemma attachment_history:
  assumes "session_reached clock parse s" and "i < length (ss_Streams s)" and "\<not> ss_Irregular s"
    and "length (st_Offered (ss_Streams s ! i)) \<le> stream_capacity"
  shows "let a = ss_Given s ! i; st = ss_Streams s ! i; sent = handleSingle n info None a (at_LastSeq a) (seen st);
            outputs = owed_outputs a (ss_AllOutputs s); records = owed_records a (ss_AllRecords s)
    in prefix (sent_outputs sent) outputs \<and> prefix (sent_records sent) records
       \<and> (st_Open st \<and> 2 + length outputs + length records \<le> n \<longrightarrow> sent_outputs sent = outputs \<and> sent_records sent = records)
       \<and> (\<not> rw_Gap (at_Replay a) \<longrightarrow>
            outputs = map out_key (filter (\<lambda>e. ou_Seq e > min (at_LastSeq a) (rw_Current (at_Replay a))) (ss_AllOutputs s)))"
proof -
  let ?a = "ss_Given s ! i" and ?st = "ss_Streams s ! i"
  have "list_all2 (subscriber_inv s) (ss_Given s) (ss_Streams s)"
    using session_attach_inv [OF assms(1)] by (simp add: attach_inv_def)
  then have inv: "subscriber_inv s ?a ?st" using assms(2) by (simp add: list_all2_conv_all_nth)
  have ok: "stream_ok ends_feed (ss_Terminal s) ?st"
    using session_feed.subscriber_contract [OF assms(1)] assms(2) by simp
  have seen: "seen ?st = st_Offered ?st" using ok assms(4) by (simp add: stream_ok_def)
  have live: "list_all (\<lambda>e. \<not> ends_feed e) (st_Offered ?st)" if "st_Open ?st" using ok seen that by (simp add: stream_ok_def)
  let ?out = "map out_key (rw_Events (at_Replay ?a)) @ live_outputs ?a (st_Offered ?st)"
  let ?rec = "at_ClaudeEvents ?a @ live_records ?a (st_Offered ?st)"
  have o: "catch_up (st_Open ?st) ?out (owed_outputs ?a (ss_AllOutputs s))"
    and r: "catch_up (st_Open ?st) ?rec (owed_records ?a (ss_AllRecords s))"
    and g: "\<not> rw_Gap (at_Replay ?a) \<longrightarrow> (\<forall>e \<in> set (ss_AllOutputs s).
        ou_Seq e > min (at_LastSeq ?a) (rw_Current (at_Replay ?a)) \<longrightarrow> ou_Seq e \<ge> rw_Oldest (at_Replay ?a))"
    using inv assms(3) by (auto simp: subscriber_inv_def)
  note h = handler_sent [of n info ?a "at_LastSeq ?a" "st_Offered ?st"]
  show ?thesis
    unfolding Let_def seen
  proof (intro conjI impI)
    show "prefix (sent_outputs (handleSingle n info None ?a (at_LastSeq ?a) (st_Offered ?st))) (owed_outputs ?a (ss_AllOutputs s))"
      "prefix (sent_records (handleSingle n info None ?a (at_LastSeq ?a) (st_Offered ?st))) (owed_records ?a (ss_AllRecords s))"
      using h o r prefix_order.order_trans unfolding catch_up_def by blast+
  next
    assume n: "st_Open ?st \<and> 2 + length (owed_outputs ?a (ss_AllOutputs s)) + length (owed_records ?a (ss_AllRecords s)) \<le> n"
    then have e: "?out = owed_outputs ?a (ss_AllOutputs s)" "?rec = owed_records ?a (ss_AllRecords s)"
      using o r by (simp_all add: catch_up_def)
    have "2 + length ?out + length ?rec \<le> n" using n by (simp only: e)
    note all = handler_sent_all [OF this live [OF conjunct1 [OF n]]]
    show "sent_outputs (handleSingle n info None ?a (at_LastSeq ?a) (st_Offered ?st)) = owed_outputs ?a (ss_AllOutputs s)"
      "sent_records (handleSingle n info None ?a (at_LastSeq ?a) (st_Offered ?st)) = owed_records ?a (ss_AllRecords s)"
      using all e by simp_all
  next
    assume "\<not> rw_Gap (at_Replay ?a)"
    then show "owed_outputs ?a (ss_AllOutputs s) = map out_key
        (filter (\<lambda>e. ou_Seq e > min (at_LastSeq ?a) (rw_Current (at_Replay ?a))) (ss_AllOutputs s))"
      unfolding owed_outputs_def using g by (intro arg_cong [where f = "map out_key"] filter_cong) auto
  qed
qed

lemma quiet_given: "quiet s t \<Longrightarrow> ss_Given t = ss_Given s"
  by (simp add: quiet_def)

lemma applyEvent_given: "ss_Given (applyEvent clock parse now ns ev s) = ss_Given s"
proof (cases "ends_feed ev")
  case True
  then show ?thesis by (cases ev) (auto simp: applyEvent_def apply_lost_def apply_exit_def broadcast_terminal_def Let_def)
next
  case False
  then obtain e s1 where "applyEvent clock parse now ns ev s = broadcastEventLocked e s1" "quiet s s1" by (rule applyEvent_broadcast)
  then show ?thesis by (simp add: broadcastEventLocked_def quiet_given)
qed

lemma given_kept: "(session_step clock parse)\<^sup>*\<^sup>* s t \<Longrightarrow> prefix (ss_Given s) (ss_Given t)"
proof (induction rule: rtranclp_induct)
  case (step t u)
  have "prefix (ss_Given t) (ss_Given u)" using step.hyps(2)
    by cases (auto simp: applyEvent_given manage_frames Attach_def Let_def cancel_attachment_def)
  then show ?case using step.IH by (rule prefix_order.order_trans [rotated])
qed simp

text \<open>The number of the newest output, and of the oldest one that the ring still holds.\<close>

definition newest_seq :: "session \<Rightarrow> 32 word" where
  "newest_seq s = (if ss_NextSeq s > 0 then ss_NextSeq s - 1 else 0)"

definition oldest_seq :: "session \<Rightarrow> 32 word" where
  "oldest_seq s = (if ss_Outputs s = [] then ss_NextSeq s else ou_Seq (hd (ss_Outputs s)))"

text \<open>
  The records a client asks for, as an index into all the records there ever were: none of the past when it wants no replay,
  those from the index it names, or the last ones up to its cap, 300 when it names none; and never those that the window of
  the session has dropped.
\<close>

definition asked_from :: "bool \<Rightarrow> int \<Rightarrow> int \<Rightarrow> session \<Rightarrow> int" where
  "asked_from include since cap s =
     (let total = int (length (ss_AllRecords s)) in
      max (ss_ClaudeBase s)
        (if \<not> include then total else if since > 0 then min since total else total - (if cap \<le> 0 then 300 else cap)))"

lemma replay_from_asked: "record_inv s \<Longrightarrow> ss_ClaudeBase s + int (replay_from include since cap s) = asked_from include since cap s"
  by (auto simp: record_inv_def replay_from_def asked_from_def Let_def max_def min_def)


end
