(* ===== verification/Session_Ends.thy ===== *)
theory Session_Ends
  imports Session_Attach
begin

text \<open>
  How a session ends, as its own record and its subscribers see it, and two ways in which a client is not
  told.  The session of the witnesses is built at the start of the file.
\<close>

section \<open>A small session\<close>

definition small_runner :: runner_info where
  "small_runner = \<lparr>ri_ID = ''s1'', ri_Cmd = ''claude'', ri_Args = [], ri_Cwd = ''/w'', ri_Cols = 80, ri_Rows = 24,
     ri_CreatedAt = 5, ri_PID = 7, ri_SocketPath = [], ri_CurrentSeq = 0, ri_ProtocolVersion = 4, ri_RuntimeVersion = [],
     ri_ConversationID = [], ri_RemoteEndpoint = [], ri_ClaudeSessionID = [], ri_Retry = None, ri_Turn = None,
     ri_MessageSubmit = True\<rparr>"

definition small_metadata :: session_metadata where
  "small_metadata = \<lparr>md_Name = ''n'', md_NameSource = [], md_Description = [], md_DescriptionSource = [], md_Tags = [],
     md_Kind = ''lane'', md_DisplayParentSessionID = None, md_SetAsideAt = None, md_Pinned = False,
     md_LastHumanMessageAt = None, md_LastAgentMessageAt = None, md_Adopted = False\<rparr>"

definition small_output :: "32 word \<Rightarrow> output_msg" where
  "small_output q = \<lparr>ou_Seq = q, ou_Data = [104, 105], ou_At = 9\<rparr>"

definition small_exit :: exit_event where
  "small_exit = \<lparr>xe_Code = Some 0, xe_Signal = None, xe_Seq = 0, xe_Reason = []\<rparr>"

definition small_session :: "(string \<Rightarrow> int option) \<Rightarrow> (byte list \<Rightarrow> json option) \<Rightarrow> session" where
  "small_session clock parse = newSession clock parse 9 [] [] small_runner small_metadata
     \<lparr>rw_Events = [small_output 1], rw_Structured = [], rw_Gap = False, rw_Oldest = 1, rw_Current = 1\<rparr>"

definition small_attached :: "(string \<Rightarrow> int option) \<Rightarrow> (byte list \<Rightarrow> json option) \<Rightarrow> session" where
  "small_attached clock parse = applyEvent clock parse 10 (\<lambda>_. 0) (EventOutput (small_output 2))
     (snd (Attach 0 0 True 300 (small_session clock parse)))"

definition small_exited :: "(string \<Rightarrow> int option) \<Rightarrow> (byte list \<Rightarrow> json option) \<Rightarrow> session" where
  "small_exited clock parse = applyEvent clock parse 11 (\<lambda>_. 0) (EventExit small_exit) (small_attached clock parse)"

definition small_lost :: "(string \<Rightarrow> int option) \<Rightarrow> (byte list \<Rightarrow> json option) \<Rightarrow> session" where
  "small_lost clock parse = applyEvent clock parse 11 (\<lambda>_. 0) (EventRunnerLost small_exit) (small_attached clock parse)"

lemma small_session_eval:
  "ss_Streams (small_session clock parse) = []" "ss_Given (small_session clock parse) = []"
  "ss_NextSeq (small_session clock parse) = 2" "ss_Start (small_session clock parse) = 1"
  "\<not> ss_Irregular (small_session clock parse)" "ss_Pump (small_session clock parse)"
  "ss_AllOutputs (small_session clock parse) = [small_output 1]" "ss_AllRecords (small_session clock parse) = []"
  "ss_Outputs (small_session clock parse) = [small_output 1]" "ss_OutputSize (small_session clock parse) = 2"
  "ss_Claude (small_session clock parse) = []"
  "ss_ClaudeBase (small_session clock parse) = 0" "ss_Terminal (small_session clock parse) = None"
  by (simp_all add: small_session_def newSession_def bare_session_def appendOutputLocked_def small_output_def Let_def)

lemma reached_pump: "session_reached clock parse s \<Longrightarrow> ss_Pump s \<Longrightarrow> session_reached clock parse (applyEvent clock parse now ns ev s)"
  by (blast intro: reached_step session_pump)

lemma small_reached:
  "session_reached clock parse (small_session clock parse)"
  "session_reached clock parse (small_attached clock parse)"
  "session_reached clock parse (small_exited clock parse)"
  "session_reached clock parse (small_lost clock parse)"
proof -
  let ?a = "snd (Attach 0 0 True 300 (small_session clock parse))"
  show s: "session_reached clock parse (small_session clock parse)"
    by (rule reached_init) (unfold session_start_def small_session_def, blast)
  then have "session_reached clock parse ?a" by (rule reached_step) (rule session_attach)
  moreover have "ss_Pump ?a" by (simp add: Attach_def Let_def small_session_eval)
  ultimately show t: "session_reached clock parse (small_attached clock parse)"
    unfolding small_attached_def by (rule reached_pump)
  have "ss_Pump (small_attached clock parse)"
    by (simp add: small_attached_def applyEvent_def apply_output_def Attach_def Let_def small_session_eval small_output_def
        broadcastEventLocked_def append_effect)
  with t show "session_reached clock parse (small_exited clock parse)" "session_reached clock parse (small_lost clock parse)"
    unfolding small_exited_def small_lost_def by (blast intro: reached_pump)+
qed

lemma small_attached_eval:
  "ss_AllOutputs (small_attached clock parse) = [small_output 1, small_output 2]"
  "ss_AllRecords (small_attached clock parse) = []"
  "\<not> ss_Irregular (small_attached clock parse)" "ss_NextSeq (small_attached clock parse) = 3"
  "ss_Streams (small_attached clock parse) = [offer (EventOutput (small_output 2)) new_stream]"
  "ss_Given (small_attached clock parse) = [fst (Attach 0 0 True 300 (small_session clock parse))]"
  by (simp_all add: small_attached_def applyEvent_def apply_output_def Attach_def Let_def small_session_eval small_output_def
      broadcastEventLocked_def broadcast_def append_effect new_stream_def)

text \<open>The attached client is then told of a record, too.\<close>

definition small_told :: session where
  "small_told = applyEvent (\<lambda>_. None) (\<lambda>_. None) 12 (\<lambda>_. 0) (EventClaude [7] 0 0) (small_attached (\<lambda>_. None) (\<lambda>_. None))"

lemma small_told_eval:
  "ss_AllOutputs small_told = [small_output 1, small_output 2]" "ss_AllRecords small_told = [[7]]" "\<not> ss_Irregular small_told"
  "ss_Streams small_told = [offer (EventClaude [7] 0 12) (offer (EventOutput (small_output 2)) new_stream)]"
proof -
  obtain index at t where r: "recordClaudeLocked (\<lambda>_. None) (\<lambda>_. None) 12 FromWatcher [7] (small_attached (\<lambda>_. None) (\<lambda>_. None)) = (index, at, t)"
    by (cases rule: prod_cases3)
  have b: "ss_ClaudeBase (small_attached (\<lambda>_. None) (\<lambda>_. None)) = 0" "ss_Claude (small_attached (\<lambda>_. None) (\<lambda>_. None)) = []"
    by (simp_all add: small_attached_def applyEvent_def apply_output_def Attach_def Let_def small_session_eval small_output_def
        broadcastEventLocked_def append_effect)
  have at: "at = 12" using r by (auto simp: recordClaudeLocked_def record_of_def split: prod.splits)
  have told: "small_told = broadcastEventLocked (EventClaude [7] index at) t"
    by (simp add: small_told_def applyEvent_def r)
  note e = record_effect(1,4,7,9,13) [OF r]
  show "ss_AllOutputs small_told = [small_output 1, small_output 2]" "ss_AllRecords small_told = [[7]]"
    "\<not> ss_Irregular small_told"
    "ss_Streams small_told = [offer (EventClaude [7] 0 12) (offer (EventOutput (small_output 2)) new_stream)]"
    unfolding told by (simp_all add: broadcastEventLocked_def small_attached_eval broadcast_def e at b) (simp_all add: new_stream_def)
qed


section \<open>The life of a session\<close>

text \<open>What the session says of its runner, given the event it ended with.\<close>

definition life_after :: "runner_event option \<Rightarrow> session \<Rightarrow> bool" where
  "life_after tm s \<longleftrightarrow> (case tm of
       Some (EventExit x) \<Rightarrow> life_part s = (True, xe_Code x, xe_Signal x, xe_Reason x, False) \<and> \<not> si_Working (ss_Info s) \<and> ss_Exit s = x
     | Some (EventRunnerLost x) \<Rightarrow> life_part s = (False, None, None, [], True) \<and> xe_Reason x \<noteq> []
     | Some _ \<Rightarrow> False
     | None \<Rightarrow> life_part s = (False, None, None, [], False))"

lemma applyEvent_life:
  assumes "life_after (ss_Terminal s) s" and "ends_feed ev \<Longrightarrow> ss_Terminal s = None"
  shows "life_after (ss_Terminal (applyEvent clock parse now ns ev s)) (applyEvent clock parse now ns ev s)"
proof (cases "ends_feed ev")
  case True
  then have "life_part s = (False, None, None, [], False)" using assms by (simp add: life_after_def)
  then show ?thesis
    using True by (cases ev) (auto simp: applyEvent_def apply_lost_def apply_exit_def broadcast_terminal_def life_after_def
        life_part_def lost_event_def exit_of_def Let_def)
next
  case False
  obtain e s1 where e: "applyEvent clock parse now ns ev s = broadcastEventLocked e s1" "quiet s s1"
    by (rule applyEvent_broadcast [OF False])
  then have "life_part (broadcastEventLocked e s1) = life_part s" by (simp add: broadcastEventLocked_def quiet_def life_part_def)
  then show ?thesis
    using e assms(1) by (auto simp: life_after_def broadcastEventLocked_def quiet_def split: option.splits runner_event.splits)
qed

lemma exited_life: "life_part s = (b, c, g, r, u) \<Longrightarrow> si_Exited (ss_Info s) = b"
  by (simp add: life_part_def Let_def)

lemma session_life: "session_reached clock parse s \<Longrightarrow> life_after (ss_Terminal s) s"
proof (induction rule: reached.induct)
  case (reached_init s)
  then show ?case by (auto simp: session_start_def life_after_def newSession_starts)
next
  case (reached_step s t)
  have p: "ss_Pump s \<longleftrightarrow> ss_Terminal s = None" using session_pump_inv [OF reached_step(1)] by (simp add: pump_inv_def)
  from reached_step(2) show ?case
  proof (cases rule: session_step.cases)
    case session_manage
    note f = manage_frames [OF session_manage] manage_life [OF session_manage] manage_working_exited [OF session_manage]
    show ?thesis using reached_step.IH f(1-4,14-15) exited_life
      by (auto simp: life_after_def split: option.splits runner_event.splits)
  next
    case session_pump
    show ?thesis unfolding session_pump(1) using p session_pump(2) by (intro applyEvent_life reached_step.IH) simp
  next
    case session_watch
    show ?thesis unfolding session_watch by (intro applyEvent_life reached_step.IH) simp
  next
    case session_record
    show ?thesis unfolding session_record by (intro applyEvent_life reached_step.IH) simp
  qed (use reached_step.IH in \<open>auto simp: life_after_def life_part_def Attach_def cancel_attachment_def Let_def
        split: option.splits runner_event.splits\<close>)
qed

section \<open>After the loss of the runner\<close>

lemma silent_stream:
  assumes "session_step clock parse s t" and "\<not> ss_Pump s" and "k < length (ss_Streams s)"
    and "st_Open (ss_Streams s ! k) \<or> st_Cancelled (ss_Streams s ! k)"
  shows "\<not> ss_Pump t \<and> k < length (ss_Streams t) \<and> (st_Open (ss_Streams t ! k) \<or> st_Cancelled (ss_Streams t ! k))"
proof -
  have bc: "k < length (broadcast e (ss_Streams s)) \<and> (st_Open (broadcast e (ss_Streams s) ! k) \<or> st_Cancelled (broadcast e (ss_Streams s) ! k))" for e
    using assms(3,4) by (auto simp: broadcast_def)
  have ap: "\<not> ss_Pump t \<and> k < length (ss_Streams t) \<and> (st_Open (ss_Streams t ! k) \<or> st_Cancelled (ss_Streams t ! k))"
    if x: "t = applyEvent clock parse now ns ev s" "\<not> ends_feed ev" for now ns ev
  proof -
    obtain e s1 where "t = broadcastEventLocked e s1" "quiet s s1"
      using applyEvent_broadcast [OF x(2), of clock parse now ns s] x(1) by metis
    then show ?thesis using bc [of e] assms(2) by (simp add: broadcastEventLocked_def quiet_def)
  qed
  from assms(1) show ?thesis
  proof (cases rule: session_step.cases)
    case session_manage
    then show ?thesis using manage_frames [OF session_manage] assms(2-4) by simp
  next
    case (session_watch now ns raw)
    then show ?thesis by (rule ap) simp
  next
    case (session_record now ns raw)
    then show ?thesis by (rule ap) simp
  next
    case (session_cancel i)
    then show ?thesis using assms(2-4) by (auto simp: cancel_attachment_def cancel_def nth_list_update)
  next
    case (session_consume i)
    then show ?thesis using assms(2-4) by (auto simp: consume_def nth_list_update receive_def split: list.split)
  next
    case session_attach
    then show ?thesis using assms(2-4) by (auto simp: Attach_def Let_def nth_append)
  qed (use assms(2) in simp)
qed

lemma silent_streams:
  assumes "(session_step clock parse)\<^sup>*\<^sup>* s t" and "\<not> ss_Pump s" and "k < length (ss_Streams s)"
    and "st_Open (ss_Streams s ! k) \<or> st_Cancelled (ss_Streams s ! k)"
  shows "\<not> ss_Pump t \<and> k < length (ss_Streams t) \<and> (st_Open (ss_Streams t ! k) \<or> st_Cancelled (ss_Streams t ! k))"
  using assms
proof (induction rule: rtranclp_induct)
  case (step t u)
  then show ?case using silent_stream [OF step(2)] by blast
qed simp

lemma stream_no_end:
  "list_all (\<lambda>e. \<not> ends_feed e) es \<Longrightarrow> Sent (WsUnreachable r q) \<notin> set (streamAttachment n a opt es)
     \<and> LossSeen \<notin> set (streamAttachment n a opt es) \<and> ReleaseSlot \<notin> set (streamAttachment n a opt es)"
proof (induction es arbitrary: n)
  case (Cons e es)
  then show ?case using Cons.IH [of n] Cons.IH [of "n - 1"] by (cases e) auto
qed simp

section \<open>Properties\<close>

text \<open>C11: a session reports an exit exactly when its runner reported one, with the code, signal and reason the
  runner gave, and then never also as unreachable or working; a lost runner makes it unreachable and never exited.
  Whatever else is recorded, attached or set in between, and also afterwards.\<close>

theorem session_exit_truth:
  assumes "session_reached clock parse s"
  shows "(si_Exited (ss_Info s) \<longleftrightarrow> (\<exists>x. ss_Terminal s = Some (EventExit x) \<and> si_ExitCode (ss_Info s) = xe_Code x
        \<and> si_ExitSignal (ss_Info s) = xe_Signal x \<and> si_ExitReason (ss_Info s) = xe_Reason x \<and> TerminalState s = Some x))
     \<and> (si_Unreachable (ss_Info s) \<longleftrightarrow> (\<exists>x. ss_Terminal s = Some (EventRunnerLost x)))
     \<and> (si_Exited (ss_Info s) \<longrightarrow> \<not> si_Unreachable (ss_Info s) \<and> \<not> si_Working (ss_Info s))
     \<and> (\<not> si_Exited (ss_Info s) \<longrightarrow> si_ExitCode (ss_Info s) = None \<and> TerminalState s = None)"
proof (cases "ss_Terminal s")
  case None
  then show ?thesis using session_life [OF assms] by (simp add: life_after_def life_part_def TerminalState_def Let_def)
next
  case (Some e)
  then show ?thesis using session_life [OF assms]
    by (cases e) (simp_all add: life_after_def life_part_def TerminalState_def Let_def)
qed

theorem session_exit_truth_witness:
  "let s = small_exited (\<lambda>_. None) (\<lambda>_. None) in si_Exited (ss_Info s) \<and> \<not> si_Unreachable (ss_Info s) \<and> \<not> si_Working (ss_Info s)"
proof -
  let ?s = "small_exited (\<lambda>_. None) (\<lambda>_. None)"
  have "si_Exited (ss_Info ?s)"
    by (simp add: small_exited_def applyEvent_def apply_exit_def broadcast_terminal_def Let_def)
  moreover note session_exit_truth [OF small_reached(3), of "\<lambda>_. None" "\<lambda>_. None"]
  ultimately show ?thesis unfolding Let_def by blast
qed

text \<open>A session's subscriber receives a subsequence of what was broadcast while it was subscribed, in order and
  nothing twice, and everything while no more than 512 events were; no terminal event comes before the last
  one; and when its channel was closed on it, the last event is the exit or the loss that the session reports.\<close>

lemma session_subscribers:
  assumes "session_reached clock parse s" and "st \<in> set (ss_Streams s)"
  shows "length (st_Buffer st) \<le> 512 \<and> subseq (seen st) (st_Offered st)
     \<and> (length (st_Offered st) \<le> 512 \<longrightarrow> seen st = st_Offered st)
     \<and> list_all (\<lambda>e. \<not> ends_feed e) (butlast (seen st))
     \<and> (\<not> st_Open st \<and> \<not> st_Cancelled st \<longrightarrow>
          (\<exists>x. seen st \<noteq> [] \<and> (last (seen st) = EventExit x \<and> TerminalState s = Some x
                 \<or> last (seen st) = EventRunnerLost x \<and> si_Unreachable (ss_Info s))))"
proof -
  have ok: "stream_ok ends_feed (ss_Terminal s) st" using session_feed.subscriber_contract [OF assms] .
  have life: "life_after (ss_Terminal s) s" using session_life [OF assms(1)] .
  have "list_all (\<lambda>e. \<not> ends_feed e) (butlast (seen st))"
    using ok by (auto simp: stream_ok_def list_all_iff dest: in_set_butlastD split: if_splits)
  moreover have "\<exists>x. seen st \<noteq> [] \<and> (last (seen st) = EventExit x \<and> TerminalState s = Some x
                 \<or> last (seen st) = EventRunnerLost x \<and> si_Unreachable (ss_Info s))"
    if "\<not> st_Open st" "\<not> st_Cancelled st"
  proof -
    obtain pre e where e: "ss_Terminal s = Some e" "seen st = pre @ [e]" using ok \<open>\<not> st_Open st\<close> \<open>\<not> st_Cancelled st\<close>
      by (auto simp: stream_ok_def)
    show ?thesis using life e by (cases e) (auto simp: life_after_def TerminalState_def life_part_def Let_def)
  qed
  ultimately show ?thesis using ok by (simp add: stream_ok_def stream_capacity_def)
qed

lemma session_subscribers_witness:
  "let s = small_exited (\<lambda>_. None) (\<lambda>_. None); st = ss_Streams s ! 0 in length (st_Buffer st) \<le> 512"
proof -
  have "ss_Streams (small_exited (\<lambda>_. None) (\<lambda>_. None)) ! 0 \<in> set (ss_Streams (small_exited (\<lambda>_. None) (\<lambda>_. None)))"
    by (rule nth_mem) (simp add: small_exited_def applyEvent_def apply_exit_def broadcast_terminal_def broadcast_last_def Let_def small_attached_eval)
  from session_subscribers [OF small_reached(3) this] show ?thesis by (simp add: Let_def)
qed

text \<open>A client that attaches after the runner was lost is never told.  Its stream is never closed nor given a
  terminal event, whatever the session does afterwards, and so the handler of the connection neither sends
  \<open>unreachable\<close> nor closes the socket (nor, multiplexed, gives the slot back), although every client that was
  attached when the runner was lost gets both.  The check after the replay asks only for an exit.\<close>

lemma attach_after_loss:
  assumes "session_reached clock parse s" and "ss_Terminal s = Some (EventRunnerLost x)"
    and "(session_step clock parse)\<^sup>*\<^sup>* (snd (Attach lastSeq since include cap s)) u"
  shows "let st = ss_Streams u ! length (ss_Streams s); a = fst (Attach lastSeq since include cap s);
             single = handleSingle n info (TerminalState u) a lastSeq (seen st);
             mux = handleMuxAttach n info (TerminalState u) a lastSeq output live (seen st)
    in (st_Open st \<or> st_Cancelled st) \<and> TerminalState u = None
       \<and> (\<forall>r q. Sent (WsUnreachable r q) \<notin> set single \<and> Sent (WsUnreachable r q) \<notin> set mux) \<and> LossSeen \<notin> set single
       \<and> (length (sendInitial info a lastSeq output) \<le> n \<longrightarrow> ReleaseSlot \<notin> set mux)"
proof -
  let ?t = "snd (Attach lastSeq since include cap s)" and ?st = "ss_Streams u ! length (ss_Streams s)"
  have rt: "session_reached clock parse ?t" using assms(1) by (blast intro: reached_step session_attach)
  have ru: "session_reached clock parse u" using reached_rtranclp [OF rt assms(3)] .
  have "\<not> ss_Pump s" using session_pump_inv [OF assms(1)] assms(2) by (simp add: pump_inv_def)
  then have u: "length (ss_Streams s) < length (ss_Streams u)" "st_Open ?st \<or> st_Cancelled ?st"
    using silent_streams [OF assms(3), of "length (ss_Streams s)"] by (simp_all add: Attach_def Let_def new_stream_def)
  have "stream_ok ends_feed (ss_Terminal u) ?st" using session_feed.subscriber_contract [OF ru] u(1) by simp
  then have quiet: "list_all (\<lambda>e. \<not> ends_feed e) (seen ?st)" using u(2) by (auto simp: stream_ok_def)
  have "ss_Terminal ?t = Some (EventRunnerLost x)" using assms(2) by (simp add: Attach_def Let_def)
  then have "ss_Terminal u = Some (EventRunnerLost x)" using session_feed.end_is_final [OF rt _ assms(3)] by blast
  then have te: "TerminalState u = None" using session_life [OF ru] by (simp add: life_after_def life_part_def TerminalState_def Let_def)
  have first: "WsUnreachable r q \<notin> set (sendInitial info a lastSeq b)" for r q a b by (auto simp: sendInitial_def)
  then have first': "Sent (WsUnreachable r q) \<notin> set (map Sent (take m (sendInitial info a lastSeq b)))" for r q a b m
    by (auto dest: in_set_takeD)
  show ?thesis
    unfolding Let_def te handleSingle_def handleMuxAttach_def option.case
    using u(2) first' stream_no_end [OF quiet] by auto
qed

lemma attach_after_loss_witness:
  "let s = small_lost (\<lambda>_. None) (\<lambda>_. None) in TerminalState (snd (Attach 0 0 True 300 s)) = None"
proof -
  let ?s = "small_lost (\<lambda>_. None) (\<lambda>_. None)"
  obtain x where "ss_Terminal ?s = Some (EventRunnerLost x)"
    by (simp add: small_lost_def applyEvent_def apply_lost_def broadcast_terminal_def Let_def)
  from attach_after_loss [OF small_reached(4) this rtranclp.rtrancl_refl, of 0 0 True 300] show ?thesis by (simp add: Let_def)
qed

text \<open>A session that exits while a client is still being sent its replay: the exit is announced, with the
  number of the last output, and the connection is closed, but the outputs that came in between and wait in
  the client's channel are not sent.  Here the second of two outputs.\<close>

lemma exit_overtakes_output:
  "let s = small_exited clock parse; a = ss_Given s ! 0; st = ss_Streams s ! 0 in
    EventOutput (small_output 2) \<in> set (seen st)
    \<and> owed_outputs a (ss_AllOutputs s) = [(1, [104, 105]), (2, [104, 105])]
    \<and> handleSingle (3 + k) info (TerminalState s) a 0 (seen st)
       = [Sent (WsHello info 1 None 0 0), Sent (WsOutput 1 [104, 105]), Sent (WsExit (Some 0) None 2 None), Cancelled]"
proof -
  let ?s = "small_exited clock parse"
  have a: "ss_Given ?s ! 0 = \<lparr>at_LastSeq = 0, at_Replay = \<lparr>rw_Events = [small_output 1], rw_Structured = [], rw_Gap = False,
         rw_Oldest = 1, rw_Current = 1\<rparr>, at_ClaudeEvents = [], at_ClaudeEventsCount = 0, at_ClaudeReplayStart = 0\<rparr>"
    by (simp add: small_exited_def applyEvent_def apply_exit_def broadcast_terminal_def Let_def small_attached_eval
        Attach_def replay_from_def replayLocked_def small_session_eval small_output_def)
  have st: "ss_Streams ?s ! 0 = shut (offer_last 0 (EventExit (small_exit\<lparr>xe_Seq := 2\<rparr>)) (offer (EventOutput (small_output 2)) new_stream))"
    by (simp add: small_exited_def applyEvent_def apply_exit_def exit_of_def broadcast_terminal_def broadcast_last_def Let_def
        small_attached_eval small_exit_def new_stream_def)
  have te: "TerminalState ?s = Some (small_exit\<lparr>xe_Seq := 2\<rparr>)"
    by (simp add: TerminalState_def small_exited_def applyEvent_def apply_exit_def exit_of_def broadcast_terminal_def Let_def
        small_attached_eval small_exit_def)
  have "EventOutput (small_output 2) \<in> set (seen (ss_Streams ?s ! 0))"
    by (simp add: st offer_last_def offer_def seen_def new_stream_def stream_capacity_def shut_def)
  moreover have "owed_outputs (ss_Given ?s ! 0) (ss_AllOutputs ?s) = [(1, [104, 105]), (2, [104, 105])]"
    unfolding a by (simp add: small_exited_def applyEvent_def apply_exit_def broadcast_terminal_def Let_def small_attached_eval
        owed_outputs_def out_key_def small_output_def)
  moreover have "handleSingle (3 + k) info (TerminalState ?s) (ss_Given ?s ! 0) 0 es
       = [Sent (WsHello info 1 None 0 0), Sent (WsOutput 1 [104, 105]), Sent (WsExit (Some 0) None 2 None), Cancelled]" for es
    by (simp add: te a handleSingle_def sendInitial_def exitMessage_def small_exit_def small_output_def Let_def)
  ultimately show ?thesis unfolding Let_def by blast
qed

end
