(* ===== verification/Delivery_Text.thy ===== *)
theory Delivery_Text
  imports Delivery_Submit Session_Ends
begin

text \<open>
  What confirms a message: that only new records of the conversation do, and what the records of a structured Claude runner
  show of a message after it was accepted, \<open>claude_evidence.go\<close> of \<open>runtime/internal/delivery\<close>.  \<open>parse\<close> is JSON,
  \<open>clock\<close> \<open>time.Parse\<close> in milliseconds, \<open>hash\<close> and \<open>digest\<close> are SHA-256 of a text and of a record.
\<close>

section \<open>Evidence\<close>

record claude_evidence =
  ce_EnqueuedAt :: "int option"
  ce_Dispatch :: string
  ce_DispatchedAt :: "int option"
  ce_ProviderRecordObservedAt :: "int option"
  ce_ProviderResult :: "string option"
  ce_ProviderResultObservedAt :: "int option"

definition no_evidence :: claude_evidence where
  "no_evidence = \<lparr>ce_EnqueuedAt = None, ce_Dispatch = ''not-observed'', ce_DispatchedAt = None,
     ce_ProviderRecordObservedAt = None, ce_ProviderResult = None, ce_ProviderResultObservedAt = None\<rparr>"

record evidence_record =
  er_Type :: string
  er_Operation :: string
  er_UUID :: string
  er_Origin :: string
  er_Source :: string
  er_Timestamp :: string
  er_ObservedAt :: string
  er_IsError :: bool
  er_Transport :: string
  er_SessionsOperationID :: string

definition dec_evidence :: "members \<Rightarrow> evidence_record option" where
  "dec_evidence ms =
     (case (field dec_str ''type'' [] ms, field dec_str ''subtype'' [] ms, field dec_str ''operation'' [] ms, field dec_str ''uuid'' [] ms,
            field dec_str ''origin'' [] ms, field dec_str ''source'' [] ms, field dec_str ''timestamp'' [] ms,
            field dec_str ''observed_at'' [] ms, field dec_bool ''is_error'' False ms, field dec_str ''transport'' [] ms,
            field dec_str ''sessions_operation_id'' [] ms) of
       (Some t, Some _, Some op, Some u, Some og, Some src, Some ts, Some ob, Some err, Some tp, Some oid) \<Rightarrow>
         Some \<lparr>er_Type = t, er_Operation = op, er_UUID = u, er_Origin = og, er_Source = src, er_Timestamp = ts,
           er_ObservedAt = ob, er_IsError = err, er_Transport = tp, er_SessionsOperationID = oid\<rparr>
     | _ \<Rightarrow> None)"

text \<open>\<open>null\<close> leaves the struct as it was made; any other value that is not an object is an error.\<close>

definition evidence_of :: "json option \<Rightarrow> evidence_record option" where
  "evidence_of v = (case v of Some (JObj ms) \<Rightarrow> dec_evidence ms | Some JNull \<Rightarrow> dec_evidence [] | _ \<Rightarrow> None)"

definition message_uuid :: "string \<Rightarrow> string" where
  "message_uuid op = ''sessions-message:'' @ op"

definition text_bytes :: "string \<Rightarrow> byte list" where
  "text_bytes s = map (\<lambda>c. of_nat (byte_of c)) s"

text \<open>A record of the turn that the message started, as the provider wrote it.\<close>

definition own_provider_record :: "string \<Rightarrow> evidence_record \<Rightarrow> bool" where
  "own_provider_record op r \<longleftrightarrow> \<not> (er_Origin r = ''sessions'' \<or> er_Type r = ''queue-operation'' \<or> er_Source r \<noteq> ''claude-p-stream-json'')
     \<and> \<not> (er_Transport r = ''agent-sdk'' \<and> er_SessionsOperationID r \<noteq> op)"

definition observe_own :: "(string \<Rightarrow> int option) \<Rightarrow> evidence_record \<Rightarrow> claude_evidence \<Rightarrow> claude_evidence" where
  "observe_own clock r ev =
     (let observed = clock (er_ObservedAt r);
          ev1 = (if ce_ProviderRecordObservedAt ev = None then ev\<lparr>ce_ProviderRecordObservedAt := observed\<rparr> else ev)
      in if er_Type r = ''result''
         then ev1\<lparr>ce_ProviderResult := Some (if er_IsError r then ''error'' else ''success''), ce_ProviderResultObservedAt := observed\<rparr>
         else ev1)"

fun observe_turn :: "(string \<Rightarrow> int option) \<Rightarrow> (byte list \<Rightarrow> json option) \<Rightarrow> string \<Rightarrow> claude_evidence \<Rightarrow> byte list list \<Rightarrow> claude_evidence" where
  "observe_turn clock parse op ev [] = ev"
| "observe_turn clock parse op ev (raw # raws) =
     (case evidence_of (parse raw) of
        None \<Rightarrow> observe_turn clock parse op ev raws
      | Some r \<Rightarrow>
          if er_Origin r = ''sessions'' \<and> er_Type r = ''user'' then ev
          else observe_turn clock parse op (if own_provider_record op r then observe_own clock r ev else ev) raws)"

fun observe_queue :: "(string \<Rightarrow> int option) \<Rightarrow> (byte list \<Rightarrow> json option) \<Rightarrow> string \<Rightarrow> claude_evidence \<Rightarrow> byte list list \<Rightarrow> claude_evidence" where
  "observe_queue clock parse op ev [] = ev"
| "observe_queue clock parse op ev (raw # raws) =
     (if \<not> infix_of (text_bytes (CHR 0x22 # message_uuid op)) raw then observe_queue clock parse op ev raws
      else case evidence_of (parse raw) of
          None \<Rightarrow> observe_queue clock parse op ev raws
        | Some r \<Rightarrow>
            if er_Type r = ''queue-operation'' \<and> er_Operation r = ''enqueue'' \<and> er_UUID r = message_uuid op
            then observe_queue clock parse op (ev\<lparr>ce_EnqueuedAt := clock (er_Timestamp r)\<rparr>) raws
            else if er_Type r = ''queue-operation'' \<and> er_Operation r = ''dispatch-unknown'' \<and> er_UUID r = message_uuid op @ '':unknown''
            then observe_queue clock parse op (ev\<lparr>ce_Dispatch := ''dispatch-unknown''\<rparr>) raws
            else if er_Type r = ''user'' \<and> er_UUID r = message_uuid op
            then observe_turn clock parse op (ev\<lparr>ce_Dispatch := ''dispatched'', ce_DispatchedAt := clock (er_Timestamp r)\<rparr>) raws
            else observe_queue clock parse op ev raws)"

definition ObserveClaudeOperation :: "(string \<Rightarrow> int option) \<Rightarrow> (byte list \<Rightarrow> json option) \<Rightarrow> byte list list \<Rightarrow> string \<Rightarrow> claude_evidence" where
  "ObserveClaudeOperation clock parse events op = observe_queue clock parse op no_evidence events"

section \<open>Only new records confirm\<close>

lemma window_since:
  assumes "record_inv s" and "f \<ge> 0"
  shows "ew_Events (EventsWindow (Some f) None None s) = drop (nat (ew_StartIndex (EventsWindow (Some f) None None s))) (ss_AllRecords s)"
    "ew_TotalCount (EventsWindow (Some f) None None s) = int (length (ss_AllRecords s))"
    "ew_StartIndex (EventsWindow (Some f) None None s) \<ge> min f (int (length (ss_AllRecords s)))"
proof -
  have c: "0 \<le> ss_ClaudeBase s" "ss_Claude s = drop (nat (ss_ClaudeBase s)) (ss_AllRecords s)"
    using assms(1) unfolding record_inv_def by blast+
  note n = record_index [OF assms(1)]
  define k where "k = clamp (f - ss_ClaudeBase s) 0 (int (length (ss_Claude s)))"
  have k: "0 \<le> k" "k \<le> int (length (ss_Claude s))" "k = f - ss_ClaudeBase s \<or> f < ss_ClaudeBase s \<or> k = int (length (ss_Claude s))"
    by (auto simp: k_def clamp_def)
  have w: "ew_Events (EventsWindow (Some f) None None s) = drop (nat k) (ss_Claude s)"
    "ew_StartIndex (EventsWindow (Some f) None None s) = ss_ClaudeBase s + k"
    using k(1,2) assms(2) by (simp_all add: EventsWindow_def Let_def k_def [symmetric] min_absorb1)
  show "ew_Events (EventsWindow (Some f) None None s) = drop (nat (ew_StartIndex (EventsWindow (Some f) None None s))) (ss_AllRecords s)"
    unfolding w by (subst c(2)) (use c(1) k(1) in \<open>simp add: drop_drop nat_add_distrib add.commute\<close>)
  show "ew_StartIndex (EventsWindow (Some f) None None s) \<ge> min f (int (length (ss_AllRecords s)))"
    unfolding w using k n by auto
  show "ew_TotalCount (EventsWindow (Some f) None None s) = int (length (ss_AllRecords s))"
    using n by (simp add: EventsWindow_def Let_def)
qed

lemma applyEvent_records: "prefix (ss_AllRecords s) (ss_AllRecords (applyEvent clock parse now ns ev s))"
proof (cases ev)
  case (EventOutput o1)
  obtain e t where a: "apply_output now o1 s = (e, t)" by (cases "apply_output now o1 s")
  show ?thesis using apply_output_effect [OF a] by (simp add: applyEvent_def EventOutput a broadcastEventLocked_def)
next
  case (EventClaude raw x y)
  obtain index at t where r: "recordClaudeLocked clock parse now FromWatcher raw s = (index, at, t)" by (cases rule: prod_cases3)
  show ?thesis by (simp add: applyEvent_def EventClaude r broadcastEventLocked_def record_effect(4) [OF r])
next
  case (EventCodex raw x y)
  obtain e t where c: "apply_codex clock parse now raw s = (e, t)" by (cases "apply_codex clock parse now raw s")
  show ?thesis by (simp add: applyEvent_def EventCodex c broadcastEventLocked_def apply_codex_effect(4) [OF c])
qed (simp_all add: applyEvent_def apply_lost_def apply_exit_def broadcast_terminal_def broadcastEventLocked_def Let_def)

lemma step_records: "session_step clock parse s t \<Longrightarrow> prefix (ss_AllRecords s) (ss_AllRecords t)"
proof (induction rule: session_step.induct)
  case (session_manage s t)
  then show ?case using manage_frames by simp
qed (simp_all add: applyEvent_records Attach_def cancel_attachment_def Let_def)

lemma steps_records: "(session_step clock parse)\<^sup>*\<^sup>* s t \<Longrightarrow> prefix (ss_AllRecords s) (ss_AllRecords t)"
  by (induction rule: rtranclp_induct) (blast intro: step_records prefix_order.order_trans)+

lemma boundary_cursor:
  assumes "session_reached clock parse s"
  shows "ti_Cursor (transcript_boundary digest hash data s) = int (length (ss_AllRecords s))"
proof -
  have "record_inv s" using session_attach_inv [OF assms] by (simp add: attach_inv_def)
  from record_index [OF this] show ?thesis by (simp add: transcript_boundary_def EventsWindow_def Let_def)
qed

lemma reconcile_new:
  assumes "record_inv s" and "reconcileTranscriptAcceptance clock parse digest hash r intent s" and "ti_Cursor intent \<ge> 0"
  shows "\<exists>raw \<in> set (drop (nat (ti_Cursor intent)) (ss_AllRecords s)). MatchesLateUserEvent clock parse hash raw (ti_MessageHash intent) (dr_CreatedAtMS r)"
proof -
  define start where "start = (if ti_Cursor intent > 0 then ti_Cursor intent - 1 else ti_Cursor intent)"
  have s0: "start \<ge> 0" using assms(3) by (simp add: start_def)
  note w = window_since [OF assms(1) s0]
  have i: "ew_StartIndex (EventsWindow (Some start) None None s) = start"
    and found: "\<exists>raw \<in> set (if ti_Cursor intent > 0 then tl (ew_Events (EventsWindow (Some start) None None s))
        else ew_Events (EventsWindow (Some start) None None s)).
      MatchesLateUserEvent clock parse hash raw (ti_MessageHash intent) (dr_CreatedAtMS r)"
    using assms(2) by (auto simp: reconcileTranscriptAcceptance_def Let_def start_def [symmetric] split: if_splits)
  have "(if ti_Cursor intent > 0 then tl (ew_Events (EventsWindow (Some start) None None s))
      else ew_Events (EventsWindow (Some start) None None s)) = drop (nat (ti_Cursor intent)) (ss_AllRecords s)"
    unfolding w(1) i using assms(3) by (auto simp: start_def drop_Suc [symmetric] tl_drop Suc_nat_eq_nat_zadd1 simp flip: drop_Suc)
  then show ?thesis using found by simp
qed

lemma wait_new:
  assumes "\<And>s. s \<in> set ss \<Longrightarrow> record_inv s \<and> n \<le> length (ss_AllRecords s)" and "int n \<le> cursor"
    and "waitForCompleteLegacyMessage parse data cursor ss"
  shows "\<exists>s \<in> set ss. \<exists>raw \<in> set (drop n (ss_AllRecords s)). MatchingUserText parse raw data"
  using assms
proof (induction ss arbitrary: cursor)
  case (Cons s ss)
  have s: "record_inv s" "n \<le> length (ss_AllRecords s)" using Cons.prems(1) [of s] by simp_all
  note w = window_since [OF s(1), of cursor]
  have c: "cursor \<ge> 0" using Cons.prems(2) by linarith
  show ?case
  proof (cases "\<exists>raw \<in> set (ew_Events (EventsWindow (Some cursor) None None s)). MatchingUserText parse raw data")
    case True
    have "ew_StartIndex (EventsWindow (Some cursor) None None s) \<ge> int n"
      using w(3) [OF c] s(2) Cons.prems(2) by linarith
    then have "n \<le> nat (ew_StartIndex (EventsWindow (Some cursor) None None s))" by linarith
    then have "set (ew_Events (EventsWindow (Some cursor) None None s)) \<subseteq> set (drop n (ss_AllRecords s))"
      unfolding w(1) [OF c] by (rule set_drop_subset_set_drop)
    then show ?thesis using True by auto
  next
    case False
    then have "waitForCompleteLegacyMessage parse data (ew_TotalCount (EventsWindow (Some cursor) None None s)) ss"
      using Cons.prems(3) by (simp add: legacy_look_def Let_def)
    moreover have "int n \<le> ew_TotalCount (EventsWindow (Some cursor) None None s)" using w(2) [OF c] s(2) by simp
    ultimately show ?thesis using Cons.IH Cons.prems(1) by force
  qed
qed simp

text \<open>C21: a terminal message is only confirmed by the conversation itself: a user record whose text is the submitted
  one, and that was recorded after the submission had noted where the conversation stood and before anything was typed.
  This holds for the request that waits, whenever it looks, and for every later request that asks again.\<close>

theorem confirmation_is_new:
  assumes "session_reached clock parse s0" and "\<And>s. s \<in> set ss \<Longrightarrow> (session_step clock parse)\<^sup>*\<^sup>* s0 s"
    and "intent = transcript_boundary digest hash data s0"
  shows "(waitForCompleteLegacyMessage parse data (ti_Cursor intent) ss \<longrightarrow>
            (\<exists>s \<in> set ss. \<exists>raw \<in> set (drop (length (ss_AllRecords s0)) (ss_AllRecords s)). MatchingUserText parse raw data))
       \<and> (\<forall>s \<in> set ss. reconcileTranscriptAcceptance clock parse digest hash r intent s \<longrightarrow>
            (\<exists>raw \<in> set (drop (length (ss_AllRecords s0)) (ss_AllRecords s)).
               MatchesLateUserEvent clock parse hash raw (MessageHash hash data) (dr_CreatedAtMS r)))"
proof -
  have c: "ti_Cursor intent = int (length (ss_AllRecords s0))" "ti_MessageHash intent = MessageHash hash data"
    using boundary_cursor [OF assms(1), of digest hash data] assms(3) by (simp_all add: transcript_boundary_def Let_def)
  have s: "record_inv s" "length (ss_AllRecords s0) \<le> length (ss_AllRecords s)" if "s \<in> set ss" for s
    using session_attach_inv [OF reached_rtranclp [OF assms(1) assms(2) [OF that]]] prefix_length_le [OF steps_records [OF assms(2) [OF that]]]
    by (simp_all add: attach_inv_def)
  show ?thesis
  proof (intro conjI ballI impI)
    assume "waitForCompleteLegacyMessage parse data (ti_Cursor intent) ss"
    then show "\<exists>s \<in> set ss. \<exists>raw \<in> set (drop (length (ss_AllRecords s0)) (ss_AllRecords s)). MatchingUserText parse raw data"
      by (intro wait_new [of ss _ "ti_Cursor intent"]) (simp_all add: s c)
  next
    fix s assume "s \<in> set ss" "reconcileTranscriptAcceptance clock parse digest hash r intent s"
    then show "\<exists>raw \<in> set (drop (length (ss_AllRecords s0)) (ss_AllRecords s)).
        MatchesLateUserEvent clock parse hash raw (MessageHash hash data) (dr_CreatedAtMS r)"
      using reconcile_new [OF s(1)] c by fastforce
  qed
qed

section \<open>Evidence belongs to the message's own turn\<close>

text \<open>The provider's records of the turn: up to the next message that Sessions dispatched.\<close>

definition own_records_of :: "(byte list \<Rightarrow> json option) \<Rightarrow> string \<Rightarrow> byte list list \<Rightarrow> evidence_record list" where
  "own_records_of parse op raws = filter (own_provider_record op)
     (takeWhile (\<lambda>r. \<not> (er_Origin r = ''sessions'' \<and> er_Type r = ''user'')) (List.map_filter (evidence_of \<circ> parse) raws))"

lemma observe_turn_fold:
  "observe_turn clock parse op ev raws = foldl (\<lambda>ev r. observe_own clock r ev) ev (own_records_of parse op raws)"
  by (induction raws arbitrary: ev) (auto simp: own_records_of_def map_filter_simps split: option.split)

lemma observe_fold_result:
  "let ev' = foldl (\<lambda>ev r. observe_own clock r ev) ev rs; results = filter (\<lambda>r. er_Type r = ''result'') rs in
    ce_Dispatch ev' = ce_Dispatch ev \<and> ce_DispatchedAt ev' = ce_DispatchedAt ev \<and> ce_EnqueuedAt ev' = ce_EnqueuedAt ev
    \<and> ce_ProviderResult ev' = (if results = [] then ce_ProviderResult ev else Some (if er_IsError (last results) then ''error'' else ''success''))
    \<and> ce_ProviderResultObservedAt ev' = (if results = [] then ce_ProviderResultObservedAt ev else clock (er_ObservedAt (last results)))"
proof (induction rs rule: rev_induct)
  case (snoc r rs)
  then show ?case by (simp add: observe_own_def Let_def)
qed simp

lemma observe_fold_first:
  "ce_ProviderRecordObservedAt (foldl (\<lambda>ev r. observe_own clock r ev) ev rs)
    = (case ce_ProviderRecordObservedAt ev of Some t \<Rightarrow> Some t
       | None \<Rightarrow> (case List.map_filter (clock \<circ> er_ObservedAt) rs of [] \<Rightarrow> None | t # _ \<Rightarrow> Some t))"
  by (induction rs arbitrary: ev) (auto simp: observe_own_def Let_def map_filter_simps split: option.split)

lemma observe_queue_before:
  assumes "\<And>raw r. raw \<in> set before \<Longrightarrow> evidence_of (parse raw) = Some r \<Longrightarrow> \<not> (er_Type r = ''user'' \<and> er_UUID r = message_uuid op)"
  shows "\<exists>ev'. observe_queue clock parse op ev (before @ rest) = observe_queue clock parse op ev' rest
     \<and> ce_ProviderResult ev' = ce_ProviderResult ev \<and> ce_ProviderResultObservedAt ev' = ce_ProviderResultObservedAt ev
     \<and> ce_ProviderRecordObservedAt ev' = ce_ProviderRecordObservedAt ev"
  using assms
proof (induction before arbitrary: ev)
  case (Cons raw before)
  show ?case
  proof (cases "infix_of (text_bytes (CHR 0x22 # message_uuid op)) raw \<and> evidence_of (parse raw) \<noteq> None")
    case True
    then obtain r where r: "evidence_of (parse raw) = Some r" by auto
    have nu: "\<not> (er_Type r = ''user'' \<and> er_UUID r = message_uuid op)" using Cons.prems [of raw r] r by simp
    let ?ev = "if er_Type r = ''queue-operation'' \<and> er_Operation r = ''enqueue'' \<and> er_UUID r = message_uuid op
      then ev\<lparr>ce_EnqueuedAt := clock (er_Timestamp r)\<rparr>
      else if er_Type r = ''queue-operation'' \<and> er_Operation r = ''dispatch-unknown'' \<and> er_UUID r = message_uuid op @ '':unknown''
      then ev\<lparr>ce_Dispatch := ''dispatch-unknown''\<rparr> else ev"
    have "observe_queue clock parse op ev ((raw # before) @ rest) = observe_queue clock parse op ?ev (before @ rest)"
      using True r nu by (auto simp del: infix_of.simps)
    moreover have "ce_ProviderResult ?ev = ce_ProviderResult ev \<and> ce_ProviderResultObservedAt ?ev = ce_ProviderResultObservedAt ev
        \<and> ce_ProviderRecordObservedAt ?ev = ce_ProviderRecordObservedAt ev" by simp
    ultimately show ?thesis using Cons.IH [of ?ev] Cons.prems by (metis list.set_intros(2))
  next
    case False
    then have "observe_queue clock parse op ev ((raw # before) @ rest) = observe_queue clock parse op ev (before @ rest)"
      by (auto simp del: infix_of.simps)
    then show ?thesis using Cons.IH [of ev] Cons.prems by (metis list.set_intros(2))
  qed
qed auto

text \<open>C35: what a receipt reports of the provider comes from the turn that this very message started.  The records that
  count are those after the runner's user record of the message and before the next message that Sessions dispatched, written
  by the provider and not by Sessions or its queue; a record of the agent SDK, whose background work may come in between, counts
  only when it names this operation.  The result is that of the last result record among them, the time of the first
  record the first one that can be read, and with no such record there is none.\<close>

theorem evidence_of_own_turn:
  assumes "\<And>raw r. raw \<in> set before \<Longrightarrow> evidence_of (parse raw) = Some r \<Longrightarrow> \<not> (er_Type r = ''user'' \<and> er_UUID r = message_uuid op)"
    and "infix_of (text_bytes (CHR 0x22 # message_uuid op)) raw" and "evidence_of (parse raw) = Some u"
    and "er_Type u = ''user''" and "er_UUID u = message_uuid op"
  shows "let ev = ObserveClaudeOperation clock parse (before @ raw # after) op;
             turn = takeWhile (\<lambda>r. er_Origin r \<noteq> ''sessions'' \<or> er_Type r \<noteq> ''user'') (List.map_filter (evidence_of \<circ> parse) after);
             own = filter (\<lambda>r. er_Source r = ''claude-p-stream-json'' \<and> er_Origin r \<noteq> ''sessions'' \<and> er_Type r \<noteq> ''queue-operation''
                \<and> (er_Transport r \<noteq> ''agent-sdk'' \<or> er_SessionsOperationID r = op)) turn;
             results = filter (\<lambda>r. er_Type r = ''result'') own in
     ce_Dispatch ev = ''dispatched'' \<and> ce_DispatchedAt ev = clock (er_Timestamp u)
     \<and> ce_ProviderRecordObservedAt ev = (case List.map_filter (clock \<circ> er_ObservedAt) own of [] \<Rightarrow> None | t # _ \<Rightarrow> Some t)
     \<and> ce_ProviderResult ev = (if results = [] then None else Some (if er_IsError (last results) then ''error'' else ''success''))
     \<and> ce_ProviderResultObservedAt ev = (if results = [] then None else clock (er_ObservedAt (last results)))"
proof -
  have "\<exists>ev'. observe_queue clock parse op no_evidence (before @ raw # after) = observe_queue clock parse op ev' (raw # after)
     \<and> ce_ProviderResult ev' = ce_ProviderResult no_evidence \<and> ce_ProviderResultObservedAt ev' = ce_ProviderResultObservedAt no_evidence
     \<and> ce_ProviderRecordObservedAt ev' = ce_ProviderRecordObservedAt no_evidence"
    by (rule observe_queue_before) (use assms(1) in blast)
  then obtain ev' where e: "ObserveClaudeOperation clock parse (before @ raw # after) op = observe_queue clock parse op ev' (raw # after)"
    "ce_ProviderResult ev' = None" "ce_ProviderResultObservedAt ev' = None" "ce_ProviderRecordObservedAt ev' = None"
    unfolding ObserveClaudeOperation_def by (auto simp: no_evidence_def simp del: observe_queue.simps)
  let ?ev = "ev'\<lparr>ce_Dispatch := ''dispatched'', ce_DispatchedAt := clock (er_Timestamp u)\<rparr>"
  have "observe_queue clock parse op ev' (raw # after) = observe_turn clock parse op ?ev after"
    using assms(2-5) by (simp del: infix_of.simps)
  moreover have "own_records_of parse op after
    = filter (\<lambda>r. er_Source r = ''claude-p-stream-json'' \<and> er_Origin r \<noteq> ''sessions'' \<and> er_Type r \<noteq> ''queue-operation''
        \<and> (er_Transport r \<noteq> ''agent-sdk'' \<or> er_SessionsOperationID r = op))
      (takeWhile (\<lambda>r. er_Origin r \<noteq> ''sessions'' \<or> er_Type r \<noteq> ''user'') (List.map_filter (evidence_of \<circ> parse) after))"
    unfolding own_records_of_def by (intro filter_cong arg_cong2 [where f = takeWhile]) (auto simp: own_provider_record_def)
  ultimately show ?thesis
    using observe_fold_result [of clock ?ev "own_records_of parse op after"] observe_fold_first [of clock ?ev "own_records_of parse op after"] e
    by (simp add: observe_turn_fold Let_def)
qed

section \<open>Examples\<close>

definition sample_marker :: "byte list" where
  "sample_marker = text_bytes (CHR 0x22 # message_uuid ''a'')"

definition sample_parse :: "byte list \<Rightarrow> json option" where
  "sample_parse raw =
     (if raw = [1] then Some (JObj [(''type'', JStr ''user''), (''message'', JObj [(''role'', JStr ''user''), (''content'', JStr ''hi'')])])
      else if raw = [2] then Some (JObj [(''type'', JStr ''result''), (''source'', JStr ''claude-p-stream-json''), (''is_error'', JBool True)])
      else if raw = [3] then Some (JObj [(''type'', JStr ''result''), (''source'', JStr ''claude-p-stream-json''),
          (''transport'', JStr ''agent-sdk''), (''sessions_operation_id'', JStr ''b'')])
      else if raw = sample_marker then Some (JObj [(''type'', JStr ''user''), (''uuid'', JStr (message_uuid ''a''))])
      else None)"

lemma sample_matches: "MatchingUserText sample_parse [1] ''hi''"
  by (simp add: MatchingUserText_def UserText_def sample_parse_def dec_user_event_def dec_user_message_def zero_user_event_def
      field_def field_step_def dec_raw_def NormalizedMessage_def composerMessageText_def PasteStart_def has_suffix_def text_eval)

definition sample_later :: session where
  "sample_later = applyEvent (\<lambda>_. None) sample_parse 10 (\<lambda>_. 0) (EventClaude [1] 0 0) (small_session (\<lambda>_. None) sample_parse)"

lemma sample_later_step: "session_step (\<lambda>_. None) sample_parse (small_session (\<lambda>_. None) sample_parse) sample_later"
  unfolding sample_later_def by (rule session_watch)

lemma sample_later_records: "ss_AllRecords sample_later = [[1]]" "ss_ClaudeBase sample_later = 0"
proof -
  obtain index at t where r: "recordClaudeLocked (\<lambda>_. None) sample_parse 10 FromWatcher [1] (small_session (\<lambda>_. None) sample_parse) = (index, at, t)"
    by (cases rule: prod_cases3)
  show "ss_AllRecords sample_later = [[1]]" "ss_ClaudeBase sample_later = 0"
    using record_effect(3,4) [OF r] retain_suffix [of "[]" "[1]"]
    by (simp_all add: sample_later_def applyEvent_def r broadcastEventLocked_def small_session_eval)
qed

theorem confirmation_is_new_witness:
  "waitForCompleteLegacyMessage sample_parse ''hi'' 0 [sample_later]
   \<and> (\<exists>raw \<in> set (drop 0 (ss_AllRecords sample_later)). MatchingUserText sample_parse raw ''hi'')"
proof -
  let ?s = "small_session (\<lambda>_. None) sample_parse"
  have r: "session_reached (\<lambda>_. None) sample_parse sample_later"
    using reached_step [OF small_reached(1) sample_later_step] .
  have inv: "record_inv sample_later" using session_attach_inv [OF r] by (simp add: attach_inv_def)
  have "ew_StartIndex (EventsWindow (Some 0) None None sample_later) = 0"
    using sample_later_records by (simp add: EventsWindow_def clamp_def Let_def)
  then have f: "waitForCompleteLegacyMessage sample_parse ''hi'' 0 [sample_later]"
    using window_since(1) [OF inv, of 0] sample_matches by (simp add: legacy_look_def Let_def sample_later_records)
  have "ti_Cursor (transcript_boundary (\<lambda>_. []) (\<lambda>t. t) ''hi'' ?s) = 0"
    using boundary_cursor [OF small_reached(1)] by (simp add: small_session_eval)
  then show ?thesis
    using f confirmation_is_new [of "\<lambda>_. None" sample_parse ?s "[sample_later]" _ "\<lambda>_. []" "\<lambda>t. t" "''hi''",
        OF small_reached(1) _ refl] sample_later_step by (auto simp: small_session_eval)
qed

text \<open>A failed result of the turn, then the good result of another operation's background work.\<close>

theorem evidence_of_own_turn_witness:
  "ce_ProviderResult (ObserveClaudeOperation (\<lambda>_. Some 5) sample_parse ([] @ sample_marker # [[2], [3]]) ''a'') = Some ''error''"
proof -
  have m: "infix_of (text_bytes (CHR 0x22 # message_uuid ''a'')) sample_marker" "sample_marker \<noteq> [1]" "sample_marker \<noteq> [2]" "sample_marker \<noteq> [3]"
    by (simp_all add: sample_marker_def text_bytes_def message_uuid_def)
  note eval = sample_parse_def evidence_of_def dec_evidence_def field_def field_step_def upper_char_def set_bit5_def
  have u: "evidence_of (sample_parse sample_marker) = Some \<lparr>er_Type = ''user'', er_Operation = [], er_UUID = message_uuid ''a'', er_Origin = [],
      er_Source = [], er_Timestamp = [], er_ObservedAt = [], er_IsError = False, er_Transport = [], er_SessionsOperationID = []\<rparr>"
    using m by (simp add: eval)
  have r: "List.map_filter (evidence_of \<circ> sample_parse) [[2], [3]] = [\<lparr>er_Type = ''result'', er_Operation = [], er_UUID = [], er_Origin = [],
      er_Source = ''claude-p-stream-json'', er_Timestamp = [], er_ObservedAt = [], er_IsError = True, er_Transport = [], er_SessionsOperationID = []\<rparr>,
      \<lparr>er_Type = ''result'', er_Operation = [], er_UUID = [], er_Origin = [], er_Source = ''claude-p-stream-json'', er_Timestamp = [],
      er_ObservedAt = [], er_IsError = False, er_Transport = ''agent-sdk'', er_SessionsOperationID = ''b''\<rparr>]"
    by (simp add: map_filter_simps eval)
  show ?thesis
    using evidence_of_own_turn [where before = "[]" and raw = sample_marker and parse = sample_parse and op = "''a''"
        and clock = "\<lambda>_. Some 5" and after = "[[2], [3]]", OF _ m(1) u] unfolding r by (simp add: Let_def)
qed

end
