(* ===== verification/Mux_Work.thy ===== *)
theory Mux_Work
  imports Event_Streams
begin

text \<open>
  The commands of one multiplexed connection: \<open>muxWork\<close> of \<open>runtime/internal/api/mux_work.go\<close>.  Eight workers share a
  channel of session ids; \<open>mu\<close> makes each step below atomic.  \<open>None\<close> is a send that would block with the lock held, or
  an index out of range.  The last three fields are history: what was admitted, executed and finished, in order.
\<close>

section \<open>State\<close>

record client_message =
  cm_Type :: string
  cm_SessionID :: string
  cm_RequestID :: string
  cm_Data :: string

datatype worker = Idle | Holding string | Took string client_message | Ran string client_message | Gone

record mux_work =
  mw_Closed :: bool
  mw_Cancelled :: bool
  mw_Ready :: "string list"
  mw_Sessions :: "(string \<times> client_message list) list"
  mw_Count :: int
  mw_Bytes :: int
  mw_Workers :: "worker list"
  mw_Admitted :: "client_message list"
  mw_Executed :: "client_message list"
  mw_Finished :: "client_message list"

definition muxWorkSessions :: nat where "muxWorkSessions = 8"
definition muxWorkMessages :: int where "muxWorkMessages = 64"
definition muxWorkBytes :: int where "muxWorkBytes = 1024 * 1024"

definition newMuxWork :: mux_work where
  "newMuxWork = \<lparr>mw_Closed = False, mw_Cancelled = False, mw_Ready = [], mw_Sessions = [], mw_Count = 0, mw_Bytes = 0,
     mw_Workers = [], mw_Admitted = [], mw_Executed = [], mw_Finished = []\<rparr>"

definition muxMessageBytes :: "client_message \<Rightarrow> int" where
  "muxMessageBytes m = int (length (cm_Type m)) + int (length (cm_SessionID m)) + int (length (cm_RequestID m)) + int (length (cm_Data m))"

definition pending :: "string \<Rightarrow> mux_work \<Rightarrow> client_message list" where
  "pending i w = (case map_of (mw_Sessions w) i of None \<Rightarrow> [] | Some q \<Rightarrow> q)"

section \<open>Operations\<close>

definition send_ready :: "string \<Rightarrow> mux_work \<Rightarrow> mux_work option" where
  "send_ready i w = (if length (mw_Ready w) < muxWorkSessions then Some (w\<lparr>mw_Ready := mw_Ready w @ [i]\<rparr>) else None)"

definition enqueue :: "client_message \<Rightarrow> mux_work \<Rightarrow> (bool \<times> mux_work) option" where
  "enqueue m w =
     (let i = cm_SessionID m; exists = (map_of (mw_Sessions w) i \<noteq> None) in
      if mw_Closed w \<or> mw_Cancelled w \<or> mw_Count w \<ge> muxWorkMessages \<or> mw_Bytes w + muxMessageBytes m > muxWorkBytes
         \<or> (\<not> exists \<and> length (mw_Sessions w) \<ge> muxWorkSessions)
      then Some (False, w)
      else let w1 = w\<lparr>mw_Sessions := AList.update i (pending i w @ [m]) (mw_Sessions w), mw_Count := mw_Count w + 1,
                      mw_Bytes := mw_Bytes w + muxMessageBytes m,
                      mw_Workers := (if mw_Workers w = [] then replicate muxWorkSessions Idle else mw_Workers w),
                      mw_Admitted := mw_Admitted w @ [m]\<rparr>
           in if exists then Some (True, w1) else map_option (Pair True) (send_ready i w1))"

text \<open>The turns of worker \<open>k\<close>: receive an id; take the message; execute it; account for it.\<close>

definition work_receive :: "nat \<Rightarrow> mux_work \<Rightarrow> mux_work" where
  "work_receive k w = (case mw_Ready w of [] \<Rightarrow> w
     | i # rest \<Rightarrow> w\<lparr>mw_Ready := rest, mw_Workers := (mw_Workers w)[k := Holding i]\<rparr>)"

definition work_take :: "nat \<Rightarrow> string \<Rightarrow> mux_work \<Rightarrow> mux_work option" where
  "work_take k i w =
     (if mw_Cancelled w then Some (w\<lparr>mw_Workers := (mw_Workers w)[k := Gone]\<rparr>)
      else case pending i w of
          [] \<Rightarrow> None
        | m # rest \<Rightarrow> Some (w\<lparr>mw_Sessions := AList.update i rest (mw_Sessions w), mw_Workers := (mw_Workers w)[k := Took i m]\<rparr>))"

definition work_execute :: "nat \<Rightarrow> string \<Rightarrow> client_message \<Rightarrow> mux_work \<Rightarrow> mux_work" where
  "work_execute k i m w = w\<lparr>mw_Workers := (mw_Workers w)[k := Ran i m],
     mw_Executed := (if mw_Cancelled w then mw_Executed w else mw_Executed w @ [m])\<rparr>"

definition work_finish :: "nat \<Rightarrow> string \<Rightarrow> client_message \<Rightarrow> mux_work \<Rightarrow> mux_work option" where
  "work_finish k i m w =
     (let w1 = w\<lparr>mw_Count := mw_Count w - 1, mw_Bytes := mw_Bytes w - muxMessageBytes m,
                mw_Workers := (mw_Workers w)[k := Idle], mw_Finished := mw_Finished w @ [m]\<rparr>
      in if pending i w = [] then Some (w1\<lparr>mw_Sessions := AList.delete i (mw_Sessions w)\<rparr>)
         else if \<not> mw_Cancelled w then send_ready i w1
         else Some w1)"

definition work_close :: "mux_work \<Rightarrow> mux_work" where
  "work_close w = w\<lparr>mw_Closed := True, mw_Cancelled := True\<rparr>"

definition work_reset :: "mux_work \<Rightarrow> mux_work" where
  "work_reset w = w\<lparr>mw_Sessions := [], mw_Count := 0, mw_Bytes := 0\<rparr>"

inductive worker_step :: "mux_work \<Rightarrow> mux_work option \<Rightarrow> bool" where
  step_receive: "k < length (mw_Workers w) \<Longrightarrow> mw_Workers w ! k = Idle \<Longrightarrow> mw_Ready w \<noteq> [] \<Longrightarrow> worker_step w (Some (work_receive k w))"
| step_take: "k < length (mw_Workers w) \<Longrightarrow> mw_Workers w ! k = Holding i \<Longrightarrow> worker_step w (work_take k i w)"
| step_execute: "k < length (mw_Workers w) \<Longrightarrow> mw_Workers w ! k = Took i m \<Longrightarrow> worker_step w (Some (work_execute k i m w))"
| step_finish: "k < length (mw_Workers w) \<Longrightarrow> mw_Workers w ! k = Ran i m \<Longrightarrow> worker_step w (work_finish k i m w)"

text \<open>The context may also be cancelled from outside; an idle worker then ends, and \<open>close\<close> waits for all of them.\<close>

inductive mux_step :: "mux_work \<Rightarrow> mux_work option \<Rightarrow> bool" where
  mux_worker: "worker_step w x \<Longrightarrow> mux_step w x"
| mux_enqueue: "mux_step w (map_option snd (enqueue m w))"
| mux_cancel: "mux_step w (Some (w\<lparr>mw_Cancelled := True\<rparr>))"
| mux_close: "mux_step w (Some (work_close w))"
| mux_leave: "k < length (mw_Workers w) \<Longrightarrow> mw_Workers w ! k = Idle \<Longrightarrow> mw_Cancelled w \<Longrightarrow>
     mux_step w (Some (w\<lparr>mw_Workers := (mw_Workers w)[k := Gone]\<rparr>))"
| mux_reset: "mw_Closed w \<Longrightarrow> list_all (\<lambda>x. x = Gone) (mw_Workers w) \<Longrightarrow> mux_step w (Some (work_reset w))"

inductive mux_reached :: "mux_work \<Rightarrow> bool" where
  mux_start: "mux_reached newMuxWork"
| mux_next: "mux_reached w \<Longrightarrow> mux_step w (Some w') \<Longrightarrow> mux_reached w'"

section \<open>The invariant\<close>

fun worker_id :: "worker \<Rightarrow> string option" where
  "worker_id (Holding i) = Some i"
| "worker_id (Took i m) = Some i"
| "worker_id (Ran i m) = Some i"
| "worker_id _ = None"

definition holds :: "mux_work \<Rightarrow> nat \<Rightarrow> string \<Rightarrow> bool" where
  "holds w k i \<longleftrightarrow> k < length (mw_Workers w) \<and> worker_id (mw_Workers w ! k) = Some i"

text \<open>The messages of one session among some, and the one a worker has of it.\<close>

definition of_session :: "string \<Rightarrow> client_message list \<Rightarrow> client_message list" where
  "of_session i ms = filter (\<lambda>m. cm_SessionID m = i) ms"

fun took_msg :: "string \<Rightarrow> worker \<Rightarrow> client_message list" where
  "took_msg i (Took j m) = (if i = j then [m] else [])"
| "took_msg i _ = []"

fun ran_msg :: "string \<Rightarrow> worker \<Rightarrow> client_message list" where
  "ran_msg i (Ran j m) = (if i = j then [m] else [])"
| "ran_msg i _ = []"

definition took_of :: "string \<Rightarrow> mux_work \<Rightarrow> client_message list" where
  "took_of i w = concat (map (took_msg i) (mw_Workers w))"

definition ran_of :: "string \<Rightarrow> mux_work \<Rightarrow> client_message list" where
  "ran_of i w = concat (map (ran_msg i) (mw_Workers w))"

text \<open>Every session has one token, in the channel or with a worker, and no worker is handed an empty queue.\<close>

definition token_inv :: "mux_work \<Rightarrow> bool" where
  "token_inv w \<longleftrightarrow> distinct (map fst (mw_Sessions w)) \<and> length (mw_Sessions w) \<le> muxWorkSessions \<and> distinct (mw_Ready w)
     \<and> (\<forall>i \<in> set (mw_Ready w). pending i w \<noteq> [])
     \<and> (\<forall>k i. holds w k i \<longrightarrow> i \<in> fst ` set (mw_Sessions w) \<and> i \<notin> set (mw_Ready w))
     \<and> (\<forall>k i. k < length (mw_Workers w) \<longrightarrow> mw_Workers w ! k = Holding i \<longrightarrow> pending i w \<noteq> [])
     \<and> (\<forall>k l i. holds w k i \<longrightarrow> holds w l i \<longrightarrow> k = l)
     \<and> (\<forall>i \<in> fst ` set (mw_Sessions w). i \<in> set (mw_Ready w) \<or> (\<exists>k. holds w k i))
     \<and> (mw_Workers w = [] \<and> mw_Sessions w = [] \<or> length (mw_Workers w) = muxWorkSessions) \<and> (\<forall>x \<in> set (mw_Workers w). x \<noteq> Gone)"

definition order_inv :: "mux_work \<Rightarrow> bool" where
  "order_inv w \<longleftrightarrow> (\<forall>i. of_session i (mw_Admitted w) = of_session i (mw_Finished w) @ ran_of i w @ took_of i w @ pending i w
     \<and> of_session i (mw_Executed w) = of_session i (mw_Finished w) @ ran_of i w)"

lemma holds_update:
  "mw_Workers w' = (mw_Workers w)[k := x] \<Longrightarrow> k < length (mw_Workers w) \<Longrightarrow>
   holds w' l i \<longleftrightarrow> (if l = k then worker_id x = Some i else holds w l i)"
  by (auto simp: holds_def)

lemma pending_update: "mw_Sessions w' = AList.update i q (mw_Sessions w) \<Longrightarrow> pending j w' = (if j = i then q else pending j w)"
  by (simp add: pending_def update_conv)

lemma pending_delete: "mw_Sessions w' = AList.delete i (mw_Sessions w) \<Longrightarrow> pending j w' = (if j = i then [] else pending j w)"
  by (simp add: pending_def delete_conv)

lemma pending_same: "mw_Sessions w' = mw_Sessions w \<Longrightarrow> pending j w' = pending j w"
  by (simp add: pending_def)

lemma pending_key: "pending i w \<noteq> [] \<Longrightarrow> i \<in> fst ` set (mw_Sessions w)"
  by (auto simp: pending_def split: option.splits dest!: map_of_SomeD) (metis fst_conv image_eqI)

lemma keys_update:
  "fst ` set (AList.update i q al) = insert i (fst ` set al)"
  "distinct (map fst al) \<Longrightarrow> distinct (map fst (AList.update i q al))"
  "i \<in> fst ` set al \<Longrightarrow> length (AList.update i q al) = length al"
  "i \<notin> fst ` set al \<Longrightarrow> length (AList.update i q al) = Suc (length al)"
proof -
  have k: "map fst (AList.update i q al) = (if i \<in> fst ` set al then map fst al else map fst al @ [i])" by (simp add: update_keys)
  show "fst ` set (AList.update i q al) = insert i (fst ` set al)"
    using arg_cong [OF k, of set] by (auto split: if_splits)
  show "distinct (map fst al) \<Longrightarrow> distinct (map fst (AList.update i q al))" by (rule distinct_update)
  show "i \<in> fst ` set al \<Longrightarrow> length (AList.update i q al) = length al" using arg_cong [OF k, of length] by simp
  show "i \<notin> fst ` set al \<Longrightarrow> length (AList.update i q al) = Suc (length al)" using arg_cong [OF k, of length] by simp
qed

lemma keys_delete:
  "fst ` set (AList.delete i al) = fst ` set al - {i}" "distinct (map fst al) \<Longrightarrow> distinct (map fst (AList.delete i al))"
  "length (AList.delete i al) \<le> length al"
  by (auto simp: AList.delete_eq distinct_map_filter)

text \<open>The parts of the token invariant, to be taken apart and put together.\<close>

lemma token_invI:
  assumes "distinct (map fst (mw_Sessions w))" "length (mw_Sessions w) \<le> muxWorkSessions" "distinct (mw_Ready w)"
    "\<And>i. i \<in> set (mw_Ready w) \<Longrightarrow> pending i w \<noteq> []"
    "\<And>k i. holds w k i \<Longrightarrow> i \<in> fst ` set (mw_Sessions w) \<and> i \<notin> set (mw_Ready w)"
    "\<And>k i. k < length (mw_Workers w) \<Longrightarrow> mw_Workers w ! k = Holding i \<Longrightarrow> pending i w \<noteq> []"
    "\<And>k l i. holds w k i \<Longrightarrow> holds w l i \<Longrightarrow> k = l"
    "\<And>i. i \<in> fst ` set (mw_Sessions w) \<Longrightarrow> i \<in> set (mw_Ready w) \<or> (\<exists>k. holds w k i)"
    "mw_Workers w = [] \<and> mw_Sessions w = [] \<or> length (mw_Workers w) = muxWorkSessions" "\<And>x. x \<in> set (mw_Workers w) \<Longrightarrow> x \<noteq> Gone"
  shows "token_inv w"
  unfolding token_inv_def using assms by blast

lemma token_invD:
  assumes "token_inv w"
  shows "distinct (map fst (mw_Sessions w))" "length (mw_Sessions w) \<le> muxWorkSessions" "distinct (mw_Ready w)"
    "i \<in> set (mw_Ready w) \<Longrightarrow> pending i w \<noteq> []"
    "holds w k i \<Longrightarrow> i \<in> fst ` set (mw_Sessions w)" "holds w k i \<Longrightarrow> i \<notin> set (mw_Ready w)"
    "k < length (mw_Workers w) \<Longrightarrow> mw_Workers w ! k = Holding i \<Longrightarrow> pending i w \<noteq> []"
    "holds w k i \<Longrightarrow> holds w l i \<Longrightarrow> k = l"
    "i \<in> fst ` set (mw_Sessions w) \<Longrightarrow> i \<in> set (mw_Ready w) \<or> (\<exists>k. holds w k i)"
    "mw_Workers w = [] \<and> mw_Sessions w = [] \<or> length (mw_Workers w) = muxWorkSessions" "x \<in> set (mw_Workers w) \<Longrightarrow> x \<noteq> Gone"
proof -
  have c: "\<forall>i \<in> set (mw_Ready w). pending i w \<noteq> []" "\<forall>k i. holds w k i \<longrightarrow> i \<in> fst ` set (mw_Sessions w) \<and> i \<notin> set (mw_Ready w)"
    "\<forall>k i. k < length (mw_Workers w) \<longrightarrow> mw_Workers w ! k = Holding i \<longrightarrow> pending i w \<noteq> []"
    "\<forall>k l i. holds w k i \<longrightarrow> holds w l i \<longrightarrow> k = l"
    "\<forall>i \<in> fst ` set (mw_Sessions w). i \<in> set (mw_Ready w) \<or> (\<exists>k. holds w k i)" "\<forall>x \<in> set (mw_Workers w). x \<noteq> Gone"
    using assms unfolding token_inv_def by - (elim conjE, assumption)+
  show "distinct (map fst (mw_Sessions w))" "length (mw_Sessions w) \<le> muxWorkSessions" "distinct (mw_Ready w)"
    "mw_Workers w = [] \<and> mw_Sessions w = [] \<or> length (mw_Workers w) = muxWorkSessions"
    using assms unfolding token_inv_def by - (elim conjE, assumption)+
  show "i \<in> set (mw_Ready w) \<Longrightarrow> pending i w \<noteq> []" using c(1) by (rule bspec)
  show "holds w k i \<Longrightarrow> i \<in> fst ` set (mw_Sessions w)" "holds w k i \<Longrightarrow> i \<notin> set (mw_Ready w)" using c(2) by simp_all
  show "k < length (mw_Workers w) \<Longrightarrow> mw_Workers w ! k = Holding i \<Longrightarrow> pending i w \<noteq> []" using c(3) by simp
  show "holds w k i \<Longrightarrow> holds w l i \<Longrightarrow> k = l" using c(4) by blast
  show "i \<in> fst ` set (mw_Sessions w) \<Longrightarrow> i \<in> set (mw_Ready w) \<or> (\<exists>k. holds w k i)" using c(5) by (rule bspec)
  show "x \<in> set (mw_Workers w) \<Longrightarrow> x \<noteq> Gone" using c(6) by (rule bspec)
qed

lemma ready_room:
  assumes "token_inv w" "i \<in> fst ` set (mw_Sessions w)" "i \<notin> set (mw_Ready w)"
  shows "length (mw_Ready w) < muxWorkSessions"
proof -
  have "set (mw_Ready w) \<subseteq> fst ` set (mw_Sessions w)" using token_invD(4) [OF assms(1)] pending_key by blast
  then have "card (insert i (set (mw_Ready w))) \<le> card (fst ` set (mw_Sessions w))" using assms(2) by (intro card_mono) auto
  moreover have "card (insert i (set (mw_Ready w))) = Suc (length (mw_Ready w))"
    using assms(3) token_invD(3) [OF assms(1)] by (simp add: distinct_card)
  moreover have "card (fst ` set (mw_Sessions w)) \<le> muxWorkSessions"
    using card_length [of "map fst (mw_Sessions w)"] token_invD(2) [OF assms(1)] by simp
  ultimately show ?thesis by simp
qed

lemma receive_token:
  assumes "token_inv w" "k < length (mw_Workers w)" "mw_Workers w ! k = Idle" "mw_Ready w = i # rest"
  shows "token_inv (work_receive k w)"
proof -
  let ?w = "work_receive k w"
  have f: "mw_Ready ?w = rest" "mw_Sessions ?w = mw_Sessions w" "mw_Workers ?w = (mw_Workers w)[k := Holding i]"
    by (simp_all add: work_receive_def assms(4))
  note h = holds_update [OF f(3) assms(2)] and p = pending_same [OF f(2)] and d = token_invD [OF assms(1)]
  have i: "pending i w \<noteq> []" "i \<in> fst ` set (mw_Sessions w)" "i \<notin> set rest" "\<not> holds w l i" for l
    using d(4) [of i] d(3) d(6) [of l i] assms(4) pending_key by auto
  have nk: "\<not> holds w k j" for j using assms(3) by (simp add: holds_def)
  show ?thesis
  proof (rule token_invI)
    show "pending j ?w \<noteq> []" if "l < length (mw_Workers ?w)" "mw_Workers ?w ! l = Holding j" for l j
      using that d(7) [of l j] i(1) assms(2) unfolding p by (auto simp: f nth_list_update split: if_splits)
    show "j \<in> set (mw_Ready ?w) \<or> (\<exists>l. holds ?w l j)" if "j \<in> fst ` set (mw_Sessions ?w)" for j
    proof (cases "j = i")
      case True
      then have "holds ?w k j" by (simp add: h)
      then show ?thesis by blast
    next
      case False
      then show ?thesis using that d(9) [of j] nk unfolding f(1,2) h assms(4) by auto (metis nk)
    qed
    show "x \<noteq> Gone" if "x \<in> set (mw_Workers ?w)" for x
      using that d(11) set_update_subset_insert [of "mw_Workers w" k "Holding i"] unfolding f(3) by auto
  qed (use d i nk assms(4) in \<open>auto simp: f h p split: if_splits\<close>)
qed

lemma workers_gone: "x \<in> set (xs[k := y]) \<Longrightarrow> (\<And>x. x \<in> set xs \<Longrightarrow> x \<noteq> Gone) \<Longrightarrow> y \<noteq> Gone \<Longrightarrow> x \<noteq> Gone"
  using set_update_subset_insert [of xs k y] by auto

lemma take_token:
  assumes "token_inv w" "k < length (mw_Workers w)" "mw_Workers w ! k = Holding i" "\<not> mw_Cancelled w"
  shows "\<exists>m rest. pending i w = m # rest \<and> work_take k i w = Some (w\<lparr>mw_Sessions := AList.update i rest (mw_Sessions w),
     mw_Workers := (mw_Workers w)[k := Took i m]\<rparr>) \<and> token_inv (w\<lparr>mw_Sessions := AList.update i rest (mw_Sessions w),
     mw_Workers := (mw_Workers w)[k := Took i m]\<rparr>)"
proof -
  note d = token_invD [OF assms(1)]
  obtain m rest where q: "pending i w = m # rest" using d(7) [OF assms(2,3)] by (cases "pending i w") auto
  let ?w = "w\<lparr>mw_Sessions := AList.update i rest (mw_Sessions w), mw_Workers := (mw_Workers w)[k := Took i m]\<rparr>"
  have f: "mw_Workers ?w = (mw_Workers w)[k := Took i m]" "mw_Sessions ?w = AList.update i rest (mw_Sessions w)" by simp_all
  note h = holds_update [OF f(1) assms(2)] and p = pending_update [OF f(2)]
  have hk: "holds w k i" using assms(2,3) by (simp add: holds_def)
  have key: "i \<in> fst ` set (mw_Sessions w)" "i \<notin> set (mw_Ready w)" using d(5,6) [OF hk] by auto
  have keys: "fst ` set (mw_Sessions ?w) = fst ` set (mw_Sessions w)" using key(1) by (auto simp: keys_update(1))
  have same: "holds ?w l j \<longleftrightarrow> holds w l j" for l j using hk unfolding h by (auto simp: holds_def)
  have "token_inv ?w"
  proof (rule token_invI)
    show "pending j ?w \<noteq> []" if "l < length (mw_Workers ?w)" "mw_Workers ?w ! l = Holding j" for l j
    proof -
      have lj: "l < length (mw_Workers w)" "mw_Workers w ! l = Holding j" "l \<noteq> k"
        using that assms(2) by (auto simp: nth_list_update split: if_splits)
      then have "holds w l j" by (simp add: holds_def)
      then have "j \<noteq> i" using d(8) [OF hk] lj(3) by blast
      then show ?thesis using d(7) [OF lj(1,2)] unfolding p by simp
    qed
    show "distinct (map fst (mw_Sessions ?w))" using keys_update(2) [OF d(1)] by simp
    show "length (mw_Sessions ?w) \<le> muxWorkSessions" using d(2) keys_update(3) [OF key(1)] by simp
    show "pending j ?w \<noteq> []" if "j \<in> set (mw_Ready ?w)" for j using that d(4) [of j] key(2) unfolding p by auto
    show "j \<in> fst ` set (mw_Sessions ?w) \<and> j \<notin> set (mw_Ready ?w)" if "holds ?w l j" for l j
      using that d(5,6) [of l j] unfolding same keys by simp
    show "l = l'" if "holds ?w l j" "holds ?w l' j" for l l' j using that d(8) unfolding same by blast
    show "j \<in> set (mw_Ready ?w) \<or> (\<exists>l. holds ?w l j)" if "j \<in> fst ` set (mw_Sessions ?w)" for j
      using that d(9) [of j] unfolding same keys by simp
    show "x \<noteq> Gone" if "x \<in> set (mw_Workers ?w)" for x using that d(11) unfolding f(1) by (elim workers_gone) auto
  qed (use d(3,10) assms(2) in auto)
  then show ?thesis using q assms(4) by (simp add: work_take_def)
qed

lemma execute_token:
  assumes "token_inv w" "k < length (mw_Workers w)" "mw_Workers w ! k = Took i m"
  shows "token_inv (work_execute k i m w)"
proof -
  let ?w = "work_execute k i m w"
  have f: "mw_Workers ?w = (mw_Workers w)[k := Ran i m]" "mw_Sessions ?w = mw_Sessions w" "mw_Ready ?w = mw_Ready w"
    by (simp_all add: work_execute_def)
  note d = token_invD [OF assms(1)] and h = holds_update [OF f(1) assms(2)] and p = pending_same [OF f(2)]
  have same: "holds ?w l j \<longleftrightarrow> holds w l j" for l j using assms(2,3) unfolding h by (auto simp: holds_def)
  show ?thesis
  proof (rule token_invI)
    show "pending j ?w \<noteq> []" if "l < length (mw_Workers ?w)" "mw_Workers ?w ! l = Holding j" for l j
      using that d(7) [of l j] assms(2) unfolding p by (auto simp: f nth_list_update split: if_splits)
    show "x \<noteq> Gone" if "x \<in> set (mw_Workers ?w)" for x using that d(11) unfolding f(1) by (elim workers_gone) auto
    show "l = l'" if "holds ?w l j" "holds ?w l' j" for l l' j using that d(8) unfolding same by blast
    show "j \<in> set (mw_Ready ?w) \<or> (\<exists>l. holds ?w l j)" if "j \<in> fst ` set (mw_Sessions ?w)" for j
      using that d(9) [of j] unfolding same f by simp
    show "j \<in> fst ` set (mw_Sessions ?w) \<and> j \<notin> set (mw_Ready ?w)" if "holds ?w l j" for l j
      using that d(5,6) [of l j] unfolding same f by simp
    show "pending j ?w \<noteq> []" if "j \<in> set (mw_Ready ?w)" for j using that d(4) [of j] unfolding p f by simp
  qed (use d(1-3,10) assms(2) in \<open>auto simp: f\<close>)
qed

lemma finish_token:
  assumes "token_inv w" "k < length (mw_Workers w)" "mw_Workers w ! k = Ran i m" "\<not> mw_Cancelled w"
  shows "\<exists>w'. work_finish k i m w = Some w' \<and> token_inv w' \<and> mw_Workers w' = (mw_Workers w)[k := Idle]
     \<and> (\<forall>j. pending j w' = pending j w) \<and> mw_Admitted w' = mw_Admitted w \<and> mw_Executed w' = mw_Executed w
     \<and> mw_Finished w' = mw_Finished w @ [m] \<and> mw_Count w' = mw_Count w - 1 \<and> mw_Bytes w' = mw_Bytes w - muxMessageBytes m
     \<and> mw_Cancelled w' = mw_Cancelled w \<and> mw_Closed w' = mw_Closed w
     \<and> length (mw_Ready w') \<le> Suc (length (mw_Ready w))"
proof -
  note d = token_invD [OF assms(1)]
  have hk: "holds w k i" using assms(2,3) by (simp add: holds_def)
  have key: "i \<in> fst ` set (mw_Sessions w)" "i \<notin> set (mw_Ready w)" using d(5,6) [OF hk] by auto
  have room: "length (mw_Ready w) < muxWorkSessions" using ready_room [OF assms(1) key] .
  define w1 where "w1 = w\<lparr>mw_Count := mw_Count w - 1, mw_Bytes := mw_Bytes w - muxMessageBytes m,
                mw_Workers := (mw_Workers w)[k := Idle], mw_Finished := mw_Finished w @ [m]\<rparr>"
  define w' where "w' = (if pending i w = [] then w1\<lparr>mw_Sessions := AList.delete i (mw_Sessions w)\<rparr> else w1\<lparr>mw_Ready := mw_Ready w @ [i]\<rparr>)"
  have w: "work_finish k i m w = Some w'"
    using room assms(4) by (simp add: work_finish_def w'_def w1_def send_ready_def Let_def)
  have f: "mw_Workers w' = (mw_Workers w)[k := Idle]" by (simp add: w'_def w1_def)
  note h = holds_update [OF f assms(2)]
  have p: "pending j w' = pending j w" for j
    by (auto simp: w'_def w1_def pending_def delete_conv split: option.splits)
  have keys: "fst ` set (mw_Sessions w') = (if pending i w = [] then fst ` set (mw_Sessions w) - {i} else fst ` set (mw_Sessions w))"
    by (simp add: w'_def w1_def keys_delete(1))
  have ready: "mw_Ready w' = (if pending i w = [] then mw_Ready w else mw_Ready w @ [i])" by (simp add: w'_def w1_def)
  have only: "holds w' l j \<longleftrightarrow> holds w l j \<and> j \<noteq> i" for l j
  proof (cases "l = k")
    case True
    then show ?thesis using assms(2,3) unfolding h by (auto simp: holds_def)
  next
    case False
    then show ?thesis using d(8) [OF hk, of l] unfolding h by auto
  qed
  have "token_inv w'"
  proof (rule token_invI)
    show "distinct (map fst (mw_Sessions w'))" using d(1) by (simp add: w'_def w1_def keys_delete(2))
    show "length (mw_Sessions w') \<le> muxWorkSessions"
      using d(2) keys_delete(3) [of i "mw_Sessions w"] by (simp add: w'_def w1_def)
    show "distinct (mw_Ready w')" using d(3) key(2) by (simp add: ready)
    show "pending j w' \<noteq> []" if "j \<in> set (mw_Ready w')" for j using that d(4) [of j] unfolding p ready by (auto split: if_splits)
    show "j \<in> fst ` set (mw_Sessions w') \<and> j \<notin> set (mw_Ready w')" if "holds w' l j" for l j
      using that d(5,6) [of l j] unfolding only keys ready by auto
    show "pending j w' \<noteq> []" if "l < length (mw_Workers w')" "mw_Workers w' ! l = Holding j" for l j
      using that d(7) [of l j] assms(2) unfolding p by (auto simp: f nth_list_update split: if_splits)
    show "l = l'" if "holds w' l j" "holds w' l' j" for l l' j using that d(8) unfolding only by blast
    show "j \<in> set (mw_Ready w') \<or> (\<exists>l. holds w' l j)" if "j \<in> fst ` set (mw_Sessions w')" for j
      using that d(9) [of j] unfolding only keys ready by (auto split: if_splits)
    show "x \<noteq> Gone" if "x \<in> set (mw_Workers w')" for x using that d(11) unfolding f by (elim workers_gone) auto
  qed (use d(10) f assms(2) in auto)
  then show ?thesis using w f p by (auto simp: w'_def w1_def)
qed

lemma enqueue_token:
  assumes "token_inv w" "\<not> mw_Cancelled w"
  shows "\<exists>b w'. enqueue m w = Some (b, w') \<and> token_inv w' \<and> (\<not> b \<longrightarrow> w' = w) \<and> (b \<longrightarrow>
     mw_Admitted w' = mw_Admitted w @ [m] \<and> (\<forall>j. pending j w' = (if j = cm_SessionID m then pending j w @ [m] else pending j w))
     \<and> mw_Count w' = mw_Count w + 1 \<and> mw_Bytes w' = mw_Bytes w + muxMessageBytes m \<and> mw_Count w < muxWorkMessages
     \<and> mw_Bytes w' \<le> muxWorkBytes \<and> mw_Executed w' = mw_Executed w \<and> mw_Finished w' = mw_Finished w
     \<and> mw_Workers w' = (if mw_Workers w = [] then replicate muxWorkSessions Idle else mw_Workers w)
     \<and> mw_Cancelled w' = mw_Cancelled w \<and> mw_Closed w' = mw_Closed w)"
proof -
  note d = token_invD [OF assms(1)]
  let ?i = "cm_SessionID m" and ?ws = "if mw_Workers w = [] then replicate muxWorkSessions Idle else mw_Workers w"
  let ?e = "map_of (mw_Sessions w) ?i \<noteq> None"
  have e: "?e \<longleftrightarrow> ?i \<in> fst ` set (mw_Sessions w)" by (simp add: map_of_eq_None_iff)
  show ?thesis
  proof (cases "mw_Closed w \<or> mw_Cancelled w \<or> mw_Count w \<ge> muxWorkMessages \<or> mw_Bytes w + muxMessageBytes m > muxWorkBytes
         \<or> (\<not> ?e \<and> length (mw_Sessions w) \<ge> muxWorkSessions)")
    case True
    then show ?thesis using assms(1) by (auto simp: enqueue_def Let_def)
  next
    case False
    define w' where "w' = w\<lparr>mw_Sessions := AList.update ?i (pending ?i w @ [m]) (mw_Sessions w), mw_Count := mw_Count w + 1,
                      mw_Bytes := mw_Bytes w + muxMessageBytes m, mw_Workers := ?ws, mw_Admitted := mw_Admitted w @ [m],
                      mw_Ready := (if ?e then mw_Ready w else mw_Ready w @ [?i])\<rparr>"
    have new: "?i \<notin> set (mw_Ready w)" if "\<not> ?e" using that e d(4) [of ?i] pending_key by blast
    have "length (mw_Ready w) < muxWorkSessions" if "\<not> ?e"
    proof -
      have "set (mw_Ready w) \<subseteq> set (map fst (mw_Sessions w))" using d(4) pending_key by auto
      then have "card (set (mw_Ready w)) \<le> card (set (map fst (mw_Sessions w)))" by (intro card_mono) auto
      then have "length (mw_Ready w) \<le> length (mw_Sessions w)" using d(3) card_length [of "map fst (mw_Sessions w)"] by (simp add: distinct_card)
      then show ?thesis using False that by simp
    qed
    then have w: "enqueue m w = Some (True, w')"
      using False by (auto simp: enqueue_def Let_def w'_def send_ready_def)
    have s: "mw_Sessions w' = AList.update ?i (pending ?i w @ [m]) (mw_Sessions w)" by (simp add: w'_def)
    note p = pending_update [OF s]
    have same: "holds w' l j \<longleftrightarrow> holds w l j" for l j by (auto simp: holds_def w'_def)
    have keys: "fst ` set (mw_Sessions w') = insert ?i (fst ` set (mw_Sessions w))" by (simp add: s keys_update(1))
    have "token_inv w'"
    proof (rule token_invI)
      show "distinct (map fst (mw_Sessions w'))" using keys_update(2) [OF d(1)] by (simp add: s)
      show "length (mw_Sessions w') \<le> muxWorkSessions"
        using d(2) False e keys_update(3,4) [of ?i "mw_Sessions w"] unfolding s by (cases ?e) auto
      show "distinct (mw_Ready w')" using d(3) new by (simp add: w'_def)
      show "pending j w' \<noteq> []" if "j \<in> set (mw_Ready w')" for j using that d(4) [of j] unfolding p by (auto simp: w'_def split: if_splits)
      show "j \<in> fst ` set (mw_Sessions w') \<and> j \<notin> set (mw_Ready w')" if "holds w' l j" for l j
      proof -
        have a: "j \<in> fst ` set (mw_Sessions w)" "j \<notin> set (mw_Ready w)" using that d(5,6) [of l j] same by blast+
        have "\<not> ?e \<Longrightarrow> j \<noteq> ?i" using a(1) e by blast
        then show ?thesis using a unfolding keys by (simp add: w'_def)
      qed
      show "pending j w' \<noteq> []" if "l < length (mw_Workers w')" "mw_Workers w' ! l = Holding j" for l j
        using that d(7) [of l j] unfolding p by (auto simp: w'_def split: if_splits)
      show "l = l'" if "holds w' l j" "holds w' l' j" for l l' j using that d(8) unfolding same by blast
      show "j \<in> set (mw_Ready w') \<or> (\<exists>l. holds w' l j)" if "j \<in> fst ` set (mw_Sessions w')" for j
        using that d(9) [of j] e unfolding same keys by (auto simp: w'_def)
      show "mw_Workers w' = [] \<and> mw_Sessions w' = [] \<or> length (mw_Workers w') = muxWorkSessions" using d(10) by (auto simp: w'_def)
      show "x \<noteq> Gone" if "x \<in> set (mw_Workers w')" for x using that d(11) [of x] by (auto simp: w'_def split: if_splits)
    qed
    then show ?thesis using w p False by (auto simp: w'_def)
  qed
qed

section \<open>Order and counts\<close>

lemma concat_map_at:
  assumes "k < length xs" and "\<And>l. l < length xs \<Longrightarrow> l \<noteq> k \<Longrightarrow> f (xs ! l) = []"
  shows "concat (map f xs) = f (xs ! k)"
proof -
  have e: "concat (map f (take k xs)) = []" "concat (map f (drop (Suc k) xs)) = []"
    using assms by (auto simp: in_set_conv_nth)
  show ?thesis
    by (subst id_take_nth_drop [OF assms(1)]) (simp only: map_append list.map concat_append concat.simps e append_Nil append_Nil2)
qed

lemma busy_at:
  assumes "holds w k i" and "\<And>l. holds w l i \<Longrightarrow> l = k"
  shows "took_of i w = took_msg i (mw_Workers w ! k)" "ran_of i w = ran_msg i (mw_Workers w ! k)"
proof -
  have o: "worker_id (mw_Workers w ! l) \<noteq> Some i" if "l < length (mw_Workers w)" "l \<noteq> k" for l
    using assms(2) [of l] that by (auto simp: holds_def)
  have none: "worker_id x \<noteq> Some i \<Longrightarrow> took_msg i x = []" "worker_id x \<noteq> Some i \<Longrightarrow> ran_msg i x = []" for x by (cases x; simp)+
  show "took_of i w = took_msg i (mw_Workers w ! k)" "ran_of i w = ran_msg i (mw_Workers w ! k)"
    unfolding took_of_def ran_of_def
    by (rule concat_map_at, use assms(1) o none in \<open>auto simp: holds_def\<close>)+
qed

lemma busy_none:
  assumes "\<And>k. \<not> holds w k i"
  shows "took_of i w = []" "ran_of i w = []"
proof -
  have none: "worker_id x \<noteq> Some i \<Longrightarrow> took_msg i x = [] \<and> ran_msg i x = []" for x by (cases x) auto
  have "\<forall>x \<in> set (mw_Workers w). took_msg i x = [] \<and> ran_msg i x = []"
    using assms none by (auto simp: holds_def in_set_conv_nth)
  then show "took_of i w = []" "ran_of i w = []" by (simp_all add: took_of_def ran_of_def)
qed

lemma busy_update:
  assumes "mw_Workers w' = (mw_Workers w)[k := x]" "k < length (mw_Workers w)" "took_msg i x = took_msg i (mw_Workers w ! k)" "ran_msg i x = ran_msg i (mw_Workers w ! k)"
  shows "took_of i w' = took_of i w" "ran_of i w' = ran_of i w"
proof -
  have "map (took_msg i) ((mw_Workers w)[k := x]) = map (took_msg i) (mw_Workers w)" "map (ran_msg i) ((mw_Workers w)[k := x]) = map (ran_msg i) (mw_Workers w)"
    using assms(2-4) by (simp_all add: map_update list_update_same_conv)
  then show "took_of i w' = took_of i w" "ran_of i w' = ran_of i w" by (simp_all add: took_of_def ran_of_def assms(1))
qed

definition count_inv :: "mux_work \<Rightarrow> bool" where
  "count_inv w \<longleftrightarrow> mw_Count w + int (length (mw_Finished w)) = int (length (mw_Admitted w))
     \<and> mw_Bytes w + (\<Sum>m \<leftarrow> mw_Finished w. muxMessageBytes m) = (\<Sum>m \<leftarrow> mw_Admitted w. muxMessageBytes m)
     \<and> mw_Count w \<le> muxWorkMessages \<and> mw_Bytes w \<le> muxWorkBytes"

definition live_inv :: "mux_work \<Rightarrow> bool" where
  "live_inv w \<longleftrightarrow> token_inv w \<and> order_inv w \<and> count_inv w \<and> (\<forall>k i m. k < length (mw_Workers w) \<longrightarrow>
     mw_Workers w ! k = Took i m \<or> mw_Workers w ! k = Ran i m \<longrightarrow> cm_SessionID m = i) \<and> (\<forall>i. \<forall>m \<in> set (pending i w). cm_SessionID m = i)"

lemma new_live: "live_inv newMuxWork"
  by (simp add: live_inv_def newMuxWork_def token_inv_def order_inv_def count_inv_def of_session_def took_of_def ran_of_def pending_def
      holds_def muxWorkMessages_def muxWorkBytes_def)

lemma worker_live:
  assumes "live_inv w" "\<not> mw_Cancelled w" "worker_step w x"
  shows "\<exists>w'. x = Some w' \<and> live_inv w' \<and> \<not> mw_Cancelled w'"
  using assms(3)
proof (cases rule: worker_step.cases)
  case (step_receive k)
  obtain i rest where r: "mw_Ready w = i # rest" using step_receive(4) by (cases "mw_Ready w") auto
  let ?w = "work_receive k w"
  have f: "mw_Workers ?w = (mw_Workers w)[k := Holding i]" "mw_Sessions ?w = mw_Sessions w" "mw_Admitted ?w = mw_Admitted w"
    "mw_Executed ?w = mw_Executed w" "mw_Finished ?w = mw_Finished w" "mw_Count ?w = mw_Count w" "mw_Bytes ?w = mw_Bytes w"
    "mw_Cancelled ?w = mw_Cancelled w"
    by (simp_all add: work_receive_def r)
  have b: "took_of j ?w = took_of j w" "ran_of j ?w = ran_of j w" for j
    using busy_update [OF f(1) step_receive(2), of j] step_receive(3) by auto
  have "token_inv ?w" using receive_token [OF _ step_receive(2,3) r] assms(1) by (simp add: live_inv_def)
  moreover have "order_inv ?w" using assms(1) by (simp add: live_inv_def order_inv_def b f(3-5) pending_same [OF f(2)])
  moreover have "count_inv ?w" using assms(1) by (simp add: live_inv_def count_inv_def f)
  ultimately have "live_inv ?w"
    using assms(1) step_receive(2) by (auto simp: live_inv_def f(1) pending_same [OF f(2)] nth_list_update split: if_splits)
  then show ?thesis using step_receive(1) assms(2) f(8) by simp
next
  case (step_take k i)
  have t: "token_inv w" using assms(1) by (simp add: live_inv_def)
  obtain m rest where q: "pending i w = m # rest"
    and x: "work_take k i w = Some (w\<lparr>mw_Sessions := AList.update i rest (mw_Sessions w), mw_Workers := (mw_Workers w)[k := Took i m]\<rparr>)"
    and tok: "token_inv (w\<lparr>mw_Sessions := AList.update i rest (mw_Sessions w), mw_Workers := (mw_Workers w)[k := Took i m]\<rparr>)"
    using take_token [OF t step_take(2,3) assms(2)] by blast
  let ?w = "w\<lparr>mw_Sessions := AList.update i rest (mw_Sessions w), mw_Workers := (mw_Workers w)[k := Took i m]\<rparr>"
  have f: "mw_Workers ?w = (mw_Workers w)[k := Took i m]" "mw_Sessions ?w = AList.update i rest (mw_Sessions w)" by simp_all
  note p = pending_update [OF f(2)]
  have h: "holds w k i" "holds ?w k i" using step_take(2,3) by (simp_all add: holds_def)
  have "took_of i w = []" "ran_of i w = []" "took_of i ?w = [m]" "ran_of i ?w = []"
    using busy_at [OF h(1)] busy_at [OF h(2)] token_invD(8) [OF t] token_invD(8) [OF tok] h step_take(2,3) by auto
  moreover have "took_of j ?w = took_of j w" "ran_of j ?w = ran_of j w" if "j \<noteq> i" for j
    using busy_update [OF f(1) step_take(2), of j] step_take(3) that by auto
  ultimately have "order_inv ?w" using assms(1) q unfolding live_inv_def order_inv_def p by auto
  moreover have "count_inv ?w" using assms(1) by (simp add: live_inv_def count_inv_def)
  moreover have "cm_SessionID m = i" using assms(1) q unfolding live_inv_def by (metis list.set_intros(1))
  moreover have "\<forall>j. \<forall>n \<in> set (pending j ?w). cm_SessionID n = j" using assms(1) q unfolding live_inv_def p by (metis list.set_intros(2))
  ultimately have "live_inv ?w"
    using assms(1) tok step_take(2) by (auto simp: live_inv_def nth_list_update split: if_splits)
  then show ?thesis using step_take(1) assms(2) x by simp
next
  case (step_execute k i m)
  have t: "token_inv w" using assms(1) by (simp add: live_inv_def)
  let ?w = "work_execute k i m w"
  have tok: "token_inv ?w" using execute_token [OF t step_execute(2,3)] .
  have f: "mw_Workers ?w = (mw_Workers w)[k := Ran i m]" "mw_Sessions ?w = mw_Sessions w" by (simp_all add: work_execute_def)
  have h: "holds w k i" "holds ?w k i" using step_execute(2,3) by (simp_all add: holds_def f)
  have "took_of i w = [m]" "ran_of i w = []" "took_of i ?w = []" "ran_of i ?w = [m]"
    using busy_at [OF h(1)] busy_at [OF h(2)] token_invD(8) [OF t] token_invD(8) [OF tok] h step_execute(2,3) by (auto simp: f)
  moreover have "took_of j ?w = took_of j w" "ran_of j ?w = ran_of j w" if "j \<noteq> i" for j
    using busy_update [OF f(1) step_execute(2), of j] step_execute(3) that by auto
  moreover have m: "cm_SessionID m = i" using assms(1) step_execute(2,3) by (auto simp: live_inv_def)
  ultimately have "order_inv ?w"
    using assms(1,2) unfolding live_inv_def order_inv_def pending_same [OF f(2)]
    by (auto simp: work_execute_def of_session_def)
  moreover have "count_inv ?w" using assms(1) by (simp add: live_inv_def count_inv_def work_execute_def)
  ultimately have "live_inv ?w"
    using assms(1) tok step_execute(2) m unfolding live_inv_def pending_same [OF f(2)] by (auto simp: f(1) nth_list_update split: if_splits)
  then show ?thesis using step_execute(1) assms(2) by (simp add: work_execute_def)
next
  case (step_finish k i m)
  have t: "token_inv w" using assms(1) by (simp add: live_inv_def)
  obtain w' where w: "work_finish k i m w = Some w'" and tok: "token_inv w'" and f: "mw_Workers w' = (mw_Workers w)[k := Idle]"
    and p: "\<forall>j. pending j w' = pending j w" and g: "mw_Admitted w' = mw_Admitted w" "mw_Executed w' = mw_Executed w"
      "mw_Finished w' = mw_Finished w @ [m]" "mw_Count w' = mw_Count w - 1" "mw_Bytes w' = mw_Bytes w - muxMessageBytes m"
      "mw_Cancelled w' = mw_Cancelled w"
    using finish_token [OF t step_finish(2,3) assms(2)] by blast
  have h: "holds w k i" using step_finish(2,3) by (simp add: holds_def)
  have none: "\<not> holds w' l i" for l
    using holds_update [OF f step_finish(2)] token_invD(8) [OF t h] by auto
  have "took_of i w = []" "ran_of i w = [m]" "took_of i w' = []" "ran_of i w' = []"
    using busy_at [OF h] busy_none [OF none] token_invD(8) [OF t] h step_finish(2,3) by auto
  moreover have "took_of j w' = took_of j w" "ran_of j w' = ran_of j w" if "j \<noteq> i" for j
    using busy_update [OF f step_finish(2), of j] step_finish(3) that by auto
  moreover have m: "cm_SessionID m = i" using assms(1) step_finish(2,3) by (auto simp: live_inv_def)
  ultimately have "order_inv w'"
    using assms(1) p unfolding live_inv_def order_inv_def g by (auto simp: of_session_def)
  moreover have "0 \<le> muxMessageBytes m" by (simp add: muxMessageBytes_def)
  then have "count_inv w'" using assms(1) by (simp add: live_inv_def count_inv_def g)
  ultimately have "live_inv w'"
    using assms(1) tok step_finish(2) p unfolding live_inv_def by (auto simp: f nth_list_update split: if_splits)
  then show ?thesis using step_finish(1) assms(2) w g by simp
qed

lemma enqueue_live:
  assumes "live_inv w" "\<not> mw_Cancelled w"
  shows "\<exists>b w'. enqueue m w = Some (b, w') \<and> live_inv w' \<and> \<not> mw_Cancelled w'"
proof -
  have t: "token_inv w" using assms(1) by (simp add: live_inv_def)
  obtain b w' where e: "enqueue m w = Some (b, w')" "token_inv w'" "\<not> b \<longrightarrow> w' = w"
    and g: "b \<longrightarrow> mw_Admitted w' = mw_Admitted w @ [m] \<and> (\<forall>j. pending j w' = (if j = cm_SessionID m then pending j w @ [m] else pending j w))
     \<and> mw_Count w' = mw_Count w + 1 \<and> mw_Bytes w' = mw_Bytes w + muxMessageBytes m \<and> mw_Count w < muxWorkMessages
     \<and> mw_Bytes w' \<le> muxWorkBytes \<and> mw_Executed w' = mw_Executed w \<and> mw_Finished w' = mw_Finished w
     \<and> mw_Workers w' = (if mw_Workers w = [] then replicate muxWorkSessions Idle else mw_Workers w)
     \<and> mw_Cancelled w' = mw_Cancelled w \<and> mw_Closed w' = mw_Closed w"
    using enqueue_token [OF t assms(2)] by blast
  have "live_inv w'" if b
  proof -
    have b: "took_of j w' = took_of j w" "ran_of j w' = ran_of j w" for j
      using g that by (auto simp: took_of_def ran_of_def)
    have "order_inv w'" using assms(1) g that unfolding live_inv_def order_inv_def b by (auto simp: of_session_def)
    moreover have "count_inv w'" using assms(1) g that by (simp add: live_inv_def count_inv_def)
    ultimately show ?thesis using assms(1) e(2) g that unfolding live_inv_def by auto
  qed
  then show ?thesis using e g assms by (cases b) auto
qed

section \<open>Every reachable state\<close>

lemma after_cancel:
  assumes "mw_Cancelled w" "mux_step w x"
  shows "\<exists>w'. x = Some w' \<and> mw_Cancelled w' \<and> mw_Executed w' = mw_Executed w \<and> mw_Admitted w' = mw_Admitted w"
  using assms(2)
proof (cases rule: mux_step.cases)
  case mux_worker
  then show ?thesis
    by (cases rule: worker_step.cases)
       (use assms(1) in \<open>auto simp: work_receive_def work_take_def work_execute_def work_finish_def Let_def split: list.split\<close>)
qed (use assms(1) in \<open>auto simp: enqueue_def work_close_def work_reset_def Let_def\<close>)

lemma live_next:
  assumes "live_inv w" "\<not> mw_Cancelled w" "mux_step w x" and "mw_Closed w \<longrightarrow> mw_Cancelled w"
  shows "\<exists>w'. x = Some w' \<and> (\<not> mw_Cancelled w' \<longrightarrow> live_inv w') \<and> (mw_Cancelled w' \<longrightarrow> mw_Executed w' = mw_Executed w \<and> mw_Admitted w' = mw_Admitted w)"
  using assms(3)
proof (cases rule: mux_step.cases)
  case mux_worker
  then show ?thesis using worker_live [OF assms(1,2)] by blast
next
  case (mux_enqueue m)
  then show ?thesis using enqueue_live [OF assms(1,2), of m] by fastforce
next
  case mux_cancel
  then show ?thesis using assms(1) by simp
next
  case mux_close
  then show ?thesis by (simp add: work_close_def)
next
  case mux_leave
  then show ?thesis using assms(2) by simp
next
  case mux_reset
  then show ?thesis using assms(2,4) by simp
qed

lemma closed_cancelled: "mux_reached w \<Longrightarrow> mw_Closed w \<longrightarrow> mw_Cancelled w"
proof (induction rule: mux_reached.induct)
  case (mux_next w w')
  from mux_next(2) show ?case
  proof (cases rule: mux_step.cases)
    case mux_worker
    then show ?thesis
      by (cases rule: worker_step.cases)
         (use mux_next.IH in \<open>auto simp: work_receive_def work_take_def work_execute_def work_finish_def send_ready_def Let_def
            split: list.splits if_splits\<close>)
  next
    case (mux_enqueue m)
    then show ?thesis using mux_next.IH
      by (auto simp: enqueue_def send_ready_def Let_def split: if_splits)
  qed (use mux_next.IH in \<open>auto simp: work_close_def work_reset_def\<close>)
qed (simp add: newMuxWork_def)

lemma executed_prefix: "order_inv w \<Longrightarrow> prefix (of_session i (mw_Executed w)) (of_session i (mw_Admitted w))"
  by (simp add: order_inv_def)

lemma mux_inv: "mux_reached w \<Longrightarrow> (\<not> mw_Cancelled w \<longrightarrow> live_inv w) \<and> (\<forall>i. prefix (of_session i (mw_Executed w)) (of_session i (mw_Admitted w)))"
proof (induction rule: mux_reached.induct)
  case mux_start
  have "live_inv newMuxWork" by (rule new_live)
  then show ?case using executed_prefix by (auto simp: live_inv_def)
next
  case (mux_next w w')
  show ?case
  proof (cases "mw_Cancelled w")
    case True
    then show ?thesis using after_cancel [OF True mux_next(2)] mux_next.IH by auto
  next
    case False
    then have l: "live_inv w" using mux_next.IH by simp
    obtain v where v: "Some w' = Some v" "\<not> mw_Cancelled v \<longrightarrow> live_inv v" "mw_Cancelled v \<longrightarrow> mw_Executed v = mw_Executed w \<and> mw_Admitted v = mw_Admitted w"
      using live_next [OF l False mux_next(2) closed_cancelled [OF mux_next(1)]] by blast
    then show ?thesis using mux_next.IH executed_prefix by (cases "mw_Cancelled w'") (auto simp: live_inv_def)
  qed
qed

section \<open>Draining\<close>

fun weight :: "worker \<Rightarrow> nat" where
  "weight (Holding i) = 3"
| "weight (Took i m) = 2"
| "weight (Ran i m) = 1"
| "weight _ = 0"

definition work_measure :: "mux_work \<Rightarrow> nat" where
  "work_measure w = 6 * nat (mw_Count w) + 4 * length (mw_Ready w) + (\<Sum>x \<leftarrow> mw_Workers w. weight x)"

lemma weight_update:
  "k < length xs \<Longrightarrow> (\<Sum>x \<leftarrow> xs[k := y]. weight x) + weight (xs ! k) = (\<Sum>x \<leftarrow> xs. weight x) + weight y"
  by (induction xs arbitrary: k) (auto split: nat.split)

lemma of_session_mset:
  assumes "\<And>i. \<exists>ys. of_session i xs = of_session i ys' @ ys"
  shows "mset ys' \<subseteq># mset xs"
proof (rule mset_subset_eqI)
  fix m
  have c: "count (mset zs) m = count (mset (of_session (cm_SessionID m) zs)) m" for zs
    by (induction zs) (auto simp: of_session_def)
  obtain ys where "of_session (cm_SessionID m) xs = of_session (cm_SessionID m) ys' @ ys" using assms by blast
  then show "count (mset ys') m \<le> count (mset xs) m" by (simp add: c [of xs] c [of ys'])
qed

lemma ran_counts:
  assumes "live_inv w" "k < length (mw_Workers w)" "mw_Workers w ! k = Ran i m"
  shows "mw_Count w \<ge> 1"
proof -
  have t: "token_inv w" and o: "order_inv w" and mi: "cm_SessionID m = i" using assms by (auto simp: live_inv_def)
  have h: "holds w k i" using assms(2,3) by (simp add: holds_def)
  have r: "ran_of i w = [m]" using busy_at [OF h] token_invD(8) [OF t h] assms(3) by auto
  have "\<exists>ys. of_session j (mw_Admitted w) = of_session j (mw_Finished w @ [m]) @ ys" for j
  proof (cases "j = i")
    case True
    then show ?thesis using o r mi by (auto simp: order_inv_def of_session_def)
  next
    case False
    then show ?thesis using o mi by (auto simp: order_inv_def of_session_def)
  qed
  then have "size (mset (mw_Finished w @ [m])) \<le> size (mset (mw_Admitted w))" by (intro size_mset_mono of_session_mset)
  then show ?thesis using assms(1) by (auto simp: live_inv_def count_inv_def)
qed

lemma worker_decreases:
  assumes "live_inv w" "\<not> mw_Cancelled w" "worker_step w (Some w')"
  shows "work_measure w' < work_measure w \<and> mw_Admitted w' = mw_Admitted w"
  using assms(3)
proof (cases rule: worker_step.cases)
  case (step_receive k)
  then show ?thesis
    using weight_update [of k "mw_Workers w" "Holding (hd (mw_Ready w))"]
    by (cases "mw_Ready w") (auto simp: work_receive_def work_measure_def)
next
  case (step_take k i)
  have t: "token_inv w" using assms(1) by (simp add: live_inv_def)
  obtain m rest where "work_take k i w = Some (w\<lparr>mw_Sessions := AList.update i rest (mw_Sessions w), mw_Workers := (mw_Workers w)[k := Took i m]\<rparr>)"
    using take_token [OF t step_take(2,3) assms(2)] by blast
  then show ?thesis
    using step_take weight_update [of k "mw_Workers w" "Took i m"] by (simp add: work_measure_def)
next
  case (step_execute k i m)
  then show ?thesis
    using weight_update [of k "mw_Workers w" "Ran i m"] by (simp add: work_execute_def work_measure_def)
next
  case (step_finish k i m)
  have t: "token_inv w" using assms(1) by (simp add: live_inv_def)
  obtain v where v: "work_finish k i m w = Some v" "mw_Workers v = (mw_Workers w)[k := Idle]" "mw_Count v = mw_Count w - 1"
      "length (mw_Ready v) \<le> Suc (length (mw_Ready w))" "mw_Admitted v = mw_Admitted w"
    using finish_token [OF t step_finish(2,3) assms(2)] by blast
  have "nat (mw_Count w) = Suc (nat (mw_Count v))" using ran_counts [OF assms(1) step_finish(2,3)] v(3) by simp
  then show ?thesis
    using step_finish v weight_update [of k "mw_Workers w" Idle] by (simp add: work_measure_def)
qed

lemma stuck_is_drained:
  assumes "live_inv w" "\<not> mw_Cancelled w" "\<nexists>x. worker_step w x"
  shows "mw_Count w = 0 \<and> mw_Bytes w = 0 \<and> (\<forall>i. of_session i (mw_Executed w) = of_session i (mw_Admitted w))"
proof -
  have t: "token_inv w" and o: "order_inv w" and c: "count_inv w" using assms(1) by (auto simp: live_inv_def)
  note d = token_invD [OF t]
  have idle: "mw_Workers w ! k = Idle" if "k < length (mw_Workers w)" for k
  proof (cases "mw_Workers w ! k")
    case Gone
    then show ?thesis using d(11) nth_mem [OF that] by metis
  qed (use assms(3) that worker_step.intros in blast)+
  then have none: "\<not> holds w k i" for k i by (simp add: holds_def)
  have "mw_Ready w = []"
  proof (rule ccontr)
    assume r: "mw_Ready w \<noteq> []"
    then have "pending (hd (mw_Ready w)) w \<noteq> []" using d(4) by simp
    then have s: "hd (mw_Ready w) \<in> fst ` set (mw_Sessions w)" by (rule pending_key)
    have "mw_Workers w \<noteq> []" using d(10) s by (auto simp: muxWorkSessions_def)
    then show False using assms(3) step_receive [of 0 w] idle r by blast
  qed
  then have "i \<notin> set (mw_Ready w)" for i by simp
  then have "i \<notin> fst ` set (mw_Sessions w)" for i using d(9) [of i] none by blast
  then have p: "pending i w = []" for i using pending_key by blast
  have e: "of_session i (mw_Admitted w) = of_session i (mw_Finished w)" "of_session i (mw_Executed w) = of_session i (mw_Finished w)" for i
    using o p busy_none [of w i] none by (simp_all add: order_inv_def)
  have "mset (mw_Admitted w) = mset (mw_Finished w)"
    by (rule subset_mset.antisym; rule of_session_mset) (simp_all add: e)
  then have "length (mw_Admitted w) = length (mw_Finished w)"
    "(\<Sum>m \<leftarrow> mw_Admitted w. muxMessageBytes m) = (\<Sum>m \<leftarrow> mw_Finished w. muxMessageBytes m)"
    by (metis size_mset, metis mset_map sum_mset_sum_list)
  then show ?thesis using c e by (simp add: count_inv_def)
qed

section \<open>Properties\<close>

text \<open>C7: on one connection the commands of a session are executed in the order in which they were admitted, and never
  two of one session at a time; at most 64 commands and one mebibyte are admitted and not yet finished, of at most eight
  sessions.  Neither the receive loop nor a worker ever blocks while it holds the lock, nor takes from an empty queue.\<close>

theorem mux_work_order:
  assumes "mux_reached w"
  shows "prefix (of_session i (mw_Executed w)) (of_session i (mw_Admitted w))
    \<and> (\<forall>x. mux_step w x \<longrightarrow> x \<noteq> None)
    \<and> (\<not> mw_Cancelled w \<longrightarrow>
         (\<forall>k l. holds w k i \<and> holds w l i \<longrightarrow> k = l)
         \<and> int (length (mw_Admitted w)) - int (length (mw_Finished w)) \<le> 64
         \<and> (\<Sum>m \<leftarrow> mw_Admitted w. muxMessageBytes m) - (\<Sum>m \<leftarrow> mw_Finished w. muxMessageBytes m) \<le> 1048576
         \<and> length (mw_Sessions w) \<le> 8)"
proof -
  note inv = mux_inv [OF assms]
  have "x \<noteq> None" if "mux_step w x" for x
  proof (cases "mw_Cancelled w")
    case True
    then show ?thesis using after_cancel [OF True that] by auto
  next
    case False
    then show ?thesis using live_next [OF _ False that closed_cancelled [OF assms]] inv by auto
  qed
  moreover have "(\<forall>k l. holds w k i \<and> holds w l i \<longrightarrow> k = l) \<and> length (mw_Sessions w) \<le> 8 \<and> count_inv w" if "\<not> mw_Cancelled w"
  proof -
    have t: "token_inv w" and c: "count_inv w" using inv that by (auto simp: live_inv_def)
    show ?thesis using token_invD(2,8) [OF t] c unfolding muxWorkSessions_def by blast
  qed
  ultimately show ?thesis
    using inv by (auto simp: count_inv_def muxWorkMessages_def muxWorkBytes_def)
qed

text \<open>C27: the workers drain what was admitted.  As long as the connection lives, each of their turns decreases a measure, so
  with nothing more admitted they come to rest; and when they rest, every command has been executed, in the order of
  its session, and nothing is counted any more.\<close>

theorem mux_work_drains:
  assumes "mux_reached w" and "\<not> mw_Cancelled w"
  shows "(\<forall>x. worker_step w x \<longrightarrow> (\<exists>w'. x = Some w' \<and> work_measure w' < work_measure w \<and> mw_Admitted w' = mw_Admitted w))
    \<and> ((\<nexists>x. worker_step w x) \<longrightarrow> mw_Count w = 0 \<and> mw_Bytes w = 0
         \<and> (\<forall>i. of_session i (mw_Executed w) = of_session i (mw_Admitted w)))
    \<and> (\<exists>w'. (\<lambda>a b. worker_step a (Some b))\<^sup>*\<^sup>* w w' \<and> mw_Count w' = 0 \<and> mw_Admitted w' = mw_Admitted w
         \<and> (\<forall>i. of_session i (mw_Executed w') = of_session i (mw_Admitted w)))"
proof -
  have l: "live_inv w" using mux_inv [OF assms(1)] assms(2) by simp
  have run: "\<exists>w'. (\<lambda>a b. worker_step a (Some b))\<^sup>*\<^sup>* v w' \<and> mw_Count w' = 0 \<and> mw_Admitted w' = mw_Admitted v
         \<and> (\<forall>i. of_session i (mw_Executed w') = of_session i (mw_Admitted v))" if "live_inv v" "\<not> mw_Cancelled v" for v
    using that
  proof (induction v rule: measure_induct_rule [of work_measure])
    case (less v)
    show ?case
    proof (cases "\<exists>x. worker_step v x")
      case True
      then obtain v' where v': "worker_step v (Some v')" "live_inv v'" "\<not> mw_Cancelled v'"
        using worker_live [OF less.prems] by blast
      note dec = worker_decreases [OF less.prems v'(1)]
      obtain w' where w': "(\<lambda>a b. worker_step a (Some b))\<^sup>*\<^sup>* v' w'" "mw_Count w' = 0" "mw_Admitted w' = mw_Admitted v'"
        "\<forall>i. of_session i (mw_Executed w') = of_session i (mw_Admitted v')"
        using less.IH [OF conjunct1 [OF dec] v'(2,3)] by blast
      have "(\<lambda>a b. worker_step a (Some b))\<^sup>*\<^sup>* v w'" using v'(1) w'(1) by (rule converse_rtranclp_into_rtranclp)
      then show ?thesis using w' dec by auto
    next
      case False
      then show ?thesis using stuck_is_drained [OF less.prems False] by blast
    qed
  qed
  have "\<exists>w'. x = Some w' \<and> work_measure w' < work_measure w \<and> mw_Admitted w' = mw_Admitted w" if x: "worker_step w x" for x
  proof -
    obtain v where "x = Some v" using worker_live [OF l assms(2) x] by blast
    then show ?thesis using worker_decreases [OF l assms(2), of v] x by simp
  qed
  then show ?thesis using stuck_is_drained [OF l assms(2)] run [OF l assms(2)] by blast
qed

definition sample_message :: client_message where
  "sample_message = \<lparr>cm_Type = ''input'', cm_SessionID = ''s'', cm_RequestID = [], cm_Data = ''x''\<rparr>"

definition sample_work :: mux_work where
  "sample_work = (case enqueue sample_message newMuxWork of Some (_, w) \<Rightarrow> w | None \<Rightarrow> newMuxWork)"

lemma sample_work_reached: "mux_reached sample_work \<and> \<not> mw_Cancelled sample_work \<and> mw_Admitted sample_work = [sample_message]"
proof -
  have e: "\<exists>w. enqueue sample_message newMuxWork = Some (True, w) \<and> \<not> mw_Cancelled w \<and> mw_Admitted w = [sample_message]"
    by (simp add: enqueue_def newMuxWork_def sample_message_def send_ready_def muxMessageBytes_def muxWorkMessages_def muxWorkBytes_def
        muxWorkSessions_def Let_def)
  then obtain w where w: "enqueue sample_message newMuxWork = Some (True, w)" "\<not> mw_Cancelled w" "mw_Admitted w = [sample_message]" by blast
  have "mux_step newMuxWork (Some w)" using mux_enqueue [of newMuxWork sample_message] w(1) by simp
  then show ?thesis using mux_next [OF mux_start] w by (simp add: sample_work_def)
qed

theorem mux_work_order_witness:
  "mw_Admitted sample_work = [sample_message] \<and> prefix (of_session ''s'' (mw_Executed sample_work)) [sample_message]"
proof -
  have "prefix (of_session ''s'' (mw_Executed sample_work)) (of_session ''s'' (mw_Admitted sample_work))"
    using mux_work_order [of sample_work "''s''"] sample_work_reached by blast
  then show ?thesis using sample_work_reached by (simp add: of_session_def sample_message_def)
qed

theorem mux_work_drains_witness:
  "\<exists>w'. (\<lambda>a b. worker_step a (Some b))\<^sup>*\<^sup>* sample_work w' \<and> of_session ''s'' (mw_Executed w') = [sample_message]"
proof -
  obtain w' where "(\<lambda>a b. worker_step a (Some b))\<^sup>*\<^sup>* sample_work w'"
    "\<forall>i. of_session i (mw_Executed w') = of_session i (mw_Admitted sample_work)"
    using mux_work_drains [of sample_work] sample_work_reached by blast
  then show ?thesis using sample_work_reached by (auto simp: of_session_def sample_message_def)
qed

end
