(* ===== verification/Mux_Attach.thy ===== *)
theory Mux_Attach
  imports Prelude "HOL-Library.Multiset"
begin

text \<open>
  The attachments of one multiplexed connection (api/mux_attach.go).  A slot is reserved before the session is looked up,
  the attachment is installed into it, and whoever takes the slot out of the table runs its cancel function outside of the
  lock.  A slot is a pointer: the number of the handler that reserved it.  The handlers, the detach commands and the end of the
  connection interleave at their lock sections.
\<close>

section \<open>The table\<close>

definition maxMuxAttachments :: nat where "maxMuxAttachments = 256"

record mux_attachments =
  ma_entries :: "(string \<times> nat) list"
  ma_slots :: "nat option list"
  ma_closed :: bool

definition newMuxAttachments :: mux_attachments where
  "newMuxAttachments = \<lparr>ma_entries = [], ma_slots = [], ma_closed = False\<rparr>"

definition without :: "string \<Rightarrow> (string \<times> nat) list \<Rightarrow> (string \<times> nat) list" where
  "without i es = [e \<leftarrow> es. fst e \<noteq> i]"

definition reserve :: "string \<Rightarrow> mux_attachments \<Rightarrow> (nat option \<times> bool) \<times> mux_attachments" where
  "reserve i a =
     (if ma_closed a \<or> map_of (ma_entries a) i \<noteq> None then ((None, False), a)
      else if length (ma_entries a) \<ge> maxMuxAttachments then ((None, True), a)
      else let slot = length (ma_slots a)
           in ((Some slot, False), a\<lparr>ma_slots := ma_slots a @ [None], ma_entries := (i, slot) # ma_entries a\<rparr>))"

definition install :: "string \<Rightarrow> nat \<Rightarrow> nat \<Rightarrow> mux_attachments \<Rightarrow> (bool \<times> nat list) \<times> mux_attachments" where
  "install i slot cancel a =
     (if \<not> ma_closed a \<and> map_of (ma_entries a) i = Some slot
      then ((True, []), a\<lparr>ma_slots := (ma_slots a)[slot := Some cancel]\<rparr>)
      else ((False, [cancel]), a))"

definition release :: "string \<Rightarrow> nat option \<Rightarrow> mux_attachments \<Rightarrow> nat list \<times> mux_attachments" where
  "release i expected a =
     (let slot = map_of (ma_entries a) i
      in if expected \<noteq> None \<and> slot \<noteq> expected then ([], a)
         else ((case slot of None \<Rightarrow> [] | Some p \<Rightarrow> (case ma_slots a ! p of None \<Rightarrow> [] | Some c \<Rightarrow> [c])),
               a\<lparr>ma_entries := without i (ma_entries a)\<rparr>))"

definition detach :: "string \<Rightarrow> mux_attachments \<Rightarrow> nat list \<times> mux_attachments" where
  "detach i = release i None"

definition cancels_of :: "nat option list \<Rightarrow> (string \<times> nat) list \<Rightarrow> nat list" where
  "cancels_of slots es = List.map_filter (\<lambda>e. slots ! snd e) es"

definition close_attachments :: "mux_attachments \<Rightarrow> nat list \<times> mux_attachments" where
  "close_attachments a = (cancels_of (ma_slots a) (ma_entries a), a\<lparr>ma_entries := [], ma_closed := True\<rparr>)"

section \<open>The handlers of one connection\<close>

text \<open>
  A handler that holds a slot waits for the session, holds an attachment it has not installed yet, streams, or is over.  The
  attachments are numbered in the order in which Session.Attach made them.  \<open>mh_todo\<close> are the cancel functions taken out under the
  lock and not yet run, \<open>mh_cancelled\<close> those that ran, in order.
\<close>

datatype attach_phase = Reserved | Attached nat | Streaming | Over

record mux_handlers =
  mh_table :: mux_attachments
  mh_handlers :: "(string \<times> attach_phase) list"
  mh_made :: nat
  mh_todo :: "nat list"
  mh_cancelled :: "nat list"

definition set_phase :: "nat \<Rightarrow> attach_phase \<Rightarrow> mux_handlers \<Rightarrow> mux_handlers" where
  "set_phase k p h = h\<lparr>mh_handlers := (mh_handlers h)[k := (fst (mh_handlers h ! k), p)]\<rparr>"

definition start_attach :: "string \<Rightarrow> mux_handlers \<Rightarrow> bool \<times> mux_handlers" where
  "start_attach i h =
     (if i = [] then (False, h)
      else case reserve i (mh_table h) of
        ((_, True), t) \<Rightarrow> (True, h)
      | ((None, False), t) \<Rightarrow> (False, h)
      | ((Some slot, False), t) \<Rightarrow> (False, h\<lparr>mh_table := t, mh_handlers := mh_handlers h @ [(i, Reserved)]\<rparr>))"

definition handler_attach :: "nat \<Rightarrow> mux_handlers \<Rightarrow> mux_handlers" where
  "handler_attach k h = set_phase k (Attached (mh_made h)) (h\<lparr>mh_made := mh_made h + 1\<rparr>)"

definition handler_install :: "nat \<Rightarrow> nat \<Rightarrow> mux_handlers \<Rightarrow> mux_handlers" where
  "handler_install k c h =
     (case install (fst (mh_handlers h ! k)) k c (mh_table h) of ((ok, todo), t) \<Rightarrow>
        set_phase k (if ok then Streaming else Over) (h\<lparr>mh_table := t, mh_todo := mh_todo h @ todo\<rparr>))"

definition handler_release :: "nat \<Rightarrow> mux_handlers \<Rightarrow> mux_handlers" where
  "handler_release k h =
     (case release (fst (mh_handlers h ! k)) (Some k) (mh_table h) of (todo, t) \<Rightarrow>
        set_phase k Over (h\<lparr>mh_table := t, mh_todo := mh_todo h @ todo\<rparr>))"

definition connection_detach :: "string \<Rightarrow> mux_handlers \<Rightarrow> mux_handlers" where
  "connection_detach i h = (case detach i (mh_table h) of (todo, t) \<Rightarrow> h\<lparr>mh_table := t, mh_todo := mh_todo h @ todo\<rparr>)"

definition connection_close :: "mux_handlers \<Rightarrow> mux_handlers" where
  "connection_close h = (case close_attachments (mh_table h) of (todo, t) \<Rightarrow> h\<lparr>mh_table := t, mh_todo := mh_todo h @ todo\<rparr>)"

definition run_cancel :: "mux_handlers \<Rightarrow> mux_handlers" where
  "run_cancel h = (case mh_todo h of [] \<Rightarrow> h | c # cs \<Rightarrow> h\<lparr>mh_todo := cs, mh_cancelled := mh_cancelled h @ [c]\<rparr>)"

text \<open>
  The session is unknown, or the attachment is made; it is installed; the initial messages fail, the session has exited, or
  its stream ends.  A stream whose connection is gone ends without giving up its slot, which the close of the table does.
\<close>

inductive attach_step :: "mux_handlers \<Rightarrow> mux_handlers \<Rightarrow> bool" where
  attach_begin: "attach_step h (snd (start_attach i h))"
| attach_unknown: "k < length (mh_handlers h) \<Longrightarrow> snd (mh_handlers h ! k) = Reserved \<Longrightarrow> attach_step h (handler_release k h)"
| attach_made: "k < length (mh_handlers h) \<Longrightarrow> snd (mh_handlers h ! k) = Reserved \<Longrightarrow> attach_step h (handler_attach k h)"
| attach_installed: "k < length (mh_handlers h) \<Longrightarrow> snd (mh_handlers h ! k) = Attached c \<Longrightarrow> attach_step h (handler_install k c h)"
| attach_released: "k < length (mh_handlers h) \<Longrightarrow> snd (mh_handlers h ! k) = Streaming \<Longrightarrow> attach_step h (handler_release k h)"
| attach_detach: "attach_step h (connection_detach i h)"
| attach_close: "attach_step h (connection_close h)"
| attach_cancel: "attach_step h (run_cancel h)"

definition attach_start :: mux_handlers where
  "attach_start = \<lparr>mh_table = newMuxAttachments, mh_handlers = [], mh_made = 0, mh_todo = [], mh_cancelled = []\<rparr>"

inductive attach_reached :: "mux_handlers \<Rightarrow> bool" where
  attach_zero: "attach_reached attach_start"
| attach_next: "attach_reached h \<Longrightarrow> attach_step h h' \<Longrightarrow> attach_reached h'"

section \<open>Where every attachment is\<close>

definition waiting :: "(string \<times> attach_phase) list \<Rightarrow> nat list" where
  "waiting hs = List.map_filter (\<lambda>h. case snd h of Attached c \<Rightarrow> Some c | _ \<Rightarrow> None) hs"

definition table_inv :: "mux_handlers \<Rightarrow> bool" where
  "table_inv h \<longleftrightarrow> (let t = mh_table h in
     distinct (map fst (ma_entries t)) \<and> distinct (map snd (ma_entries t)) \<and> length (ma_entries t) \<le> maxMuxAttachments
     \<and> (ma_closed t \<longrightarrow> ma_entries t = []) \<and> length (ma_slots t) = length (mh_handlers h)
     \<and> (\<forall>e \<in> set (ma_entries t). snd e < length (mh_handlers h) \<and> fst (mh_handlers h ! snd e) = fst e)
     \<and> (\<forall>k < length (mh_handlers h). snd (mh_handlers h ! k) \<in> {Reserved} \<union> range Attached \<longrightarrow> ma_slots t ! k = None))"

definition balance :: "mux_handlers \<Rightarrow> bool" where
  "balance h \<longleftrightarrow> mset (waiting (mh_handlers h)) + mset (cancels_of (ma_slots (mh_table h)) (ma_entries (mh_table h)))
     + mset (mh_todo h) + mset (mh_cancelled h) = mset [0 ..< mh_made h]"

lemma table_invD:
  assumes "table_inv h"
  shows "distinct (map fst (ma_entries (mh_table h)))" "distinct (map snd (ma_entries (mh_table h)))"
    "length (ma_entries (mh_table h)) \<le> maxMuxAttachments" "ma_closed (mh_table h) \<Longrightarrow> ma_entries (mh_table h) = []"
    "length (ma_slots (mh_table h)) = length (mh_handlers h)"
    "e \<in> set (ma_entries (mh_table h)) \<Longrightarrow> snd e < length (mh_handlers h)"
    "e \<in> set (ma_entries (mh_table h)) \<Longrightarrow> fst (mh_handlers h ! snd e) = fst e"
    "k < length (mh_handlers h) \<Longrightarrow> snd (mh_handlers h ! k) = Reserved \<Longrightarrow> ma_slots (mh_table h) ! k = None"
    "k < length (mh_handlers h) \<Longrightarrow> snd (mh_handlers h ! k) = Attached c \<Longrightarrow> ma_slots (mh_table h) ! k = None"
  using assms by (auto simp: table_inv_def Let_def)

lemma waiting_simps [simp]:
  "waiting [] = []" "waiting (hs @ hs') = waiting hs @ waiting hs'"
  "waiting ((i, Reserved) # hs) = waiting hs" "waiting ((i, Streaming) # hs) = waiting hs" "waiting ((i, Over) # hs) = waiting hs"
  "waiting ((i, Attached c) # hs) = c # waiting hs"
  by (simp_all add: waiting_def map_filter_simps map_filter_def)

lemma waiting_update:
  assumes "k < length hs"
  shows "mset (waiting (hs[k := (i, p)])) + mset (waiting [(j, snd (hs ! k))]) = mset (waiting hs) + mset (waiting [(i, p)])"
proof -
  have s: "hs = take k hs @ (hs ! k) # drop (Suc k) hs" using assms by (rule id_take_nth_drop)
  have one: "waiting [(j, snd (hs ! k))] = waiting [hs ! k]" by (simp add: waiting_def map_filter_def)
  have "waiting hs = waiting (take k hs) @ waiting [hs ! k] @ waiting (drop (Suc k) hs)"
    by (subst s, metis append_Cons append_Nil waiting_simps(2))
  moreover have "waiting (hs[k := (i, p)]) = waiting (take k hs) @ waiting [(i, p)] @ waiting (drop (Suc k) hs)"
    unfolding upd_conv_take_nth_drop [OF assms] by (metis append_Cons append_Nil waiting_simps(2))
  ultimately show ?thesis using one by simp
qed

lemma cancels_simps [simp]:
  "cancels_of s [] = []" "cancels_of s (e # es) = (case s ! snd e of None \<Rightarrow> [] | Some c \<Rightarrow> [c]) @ cancels_of s es"
  by (simp_all add: cancels_of_def map_filter_simps split: option.split)

lemma cancels_cong: "(\<And>e. e \<in> set es \<Longrightarrow> s ! snd e = s' ! snd e) \<Longrightarrow> cancels_of s es = cancels_of s' es"
  by (induction es) simp_all

lemma cancels_without:
  assumes "distinct (map fst es)" "map_of es i = Some p"
  shows "mset (cancels_of s es) = mset (case s ! p of None \<Rightarrow> [] | Some c \<Rightarrow> [c]) + mset (cancels_of s (without i es))"
  using assms
proof (induction es)
  case (Cons e es)
  show ?case
  proof (cases "fst e = i")
    case True
    then have "fst x \<noteq> i" if "x \<in> set es" for x using True Cons.prems(1) imageI [OF that, of fst] by (metis distinct.simps(2) image_set list.simps(9))
    then have "without i es = es" by (simp add: without_def filter_id_conv)
    then show ?thesis using True Cons.prems by (simp add: without_def)
  next
    case False
    then show ?thesis using Cons by (simp add: without_def)
  qed
qed simp

lemma without_absent: "map_of es i = None \<Longrightarrow> without i es = es"
  by (auto simp: without_def filter_id_conv map_of_eq_None_iff)

lemma without_inv:
  "set (without i es) \<subseteq> set es" "length (without i es) \<le> length es"
  "distinct (map fst es) \<Longrightarrow> distinct (map fst (without i es))" "distinct (map snd es) \<Longrightarrow> distinct (map snd (without i es))"
  by (auto simp: without_def distinct_map_filter)

lemma release_moves:
  assumes "release i x t = (todo, t')" "distinct (map fst (ma_entries t))"
  shows "mset (cancels_of (ma_slots t) (ma_entries t)) = mset todo + mset (cancels_of (ma_slots t') (ma_entries t'))"
    "ma_slots t' = ma_slots t" "ma_closed t' = ma_closed t" "ma_entries t' = ma_entries t \<or> ma_entries t' = without i (ma_entries t)"
proof -
  show "ma_slots t' = ma_slots t" "ma_closed t' = ma_closed t" "ma_entries t' = ma_entries t \<or> ma_entries t' = without i (ma_entries t)"
    using assms(1) by (auto simp: release_def Let_def split: if_splits)
  show "mset (cancels_of (ma_slots t) (ma_entries t)) = mset todo + mset (cancels_of (ma_slots t') (ma_entries t'))"
  proof (cases "map_of (ma_entries t) i")
    case None
    then show ?thesis using assms(1) without_absent [OF None] by (auto simp: release_def split: if_splits)
  next
    case (Some p)
    then show ?thesis using assms(1) cancels_without [OF assms(2) Some, of "ma_slots t"]
      by (auto simp: release_def Let_def split: if_splits)
  qed
qed

lemma table_inv_shrink:
  assumes "table_inv h" "set (ma_entries t') \<subseteq> set (ma_entries (mh_table h))" "length (ma_entries t') \<le> length (ma_entries (mh_table h))"
    "distinct (map fst (ma_entries t'))" "distinct (map snd (ma_entries t'))"
    "ma_slots t' = ma_slots (mh_table h)" "ma_closed t' \<longrightarrow> ma_entries t' = []"
  shows "table_inv (h\<lparr>mh_table := t', mh_todo := todo\<rparr>)"
  using assms unfolding table_inv_def Let_def by auto

lemma release_inv:
  assumes "table_inv h" "release i x (mh_table h) = (todo, t')"
  shows "table_inv (h\<lparr>mh_table := t', mh_todo := todo'\<rparr>)"
proof -
  note d = table_invD [OF assms(1)] and r = release_moves [OF assms(2) table_invD(1) [OF assms(1)]]
  show ?thesis using r(4)
  proof
    assume e: "ma_entries t' = ma_entries (mh_table h)"
    show ?thesis by (rule table_inv_shrink [OF assms(1)]) (use d r(2,3) e in auto)
  next
    assume e: "ma_entries t' = without i (ma_entries (mh_table h))"
    show ?thesis by (rule table_inv_shrink [OF assms(1)])
      (use d(1-4) r(2,3) e without_inv [where i = i and es = "ma_entries (mh_table h)"] in \<open>auto simp: without_def\<close>)
  qed
qed

lemma release_balance:
  assumes "table_inv h" "balance h" "release i x (mh_table h) = (todo, t')"
  shows "balance (h\<lparr>mh_table := t', mh_todo := mh_todo h @ todo\<rparr>)"
  using release_moves [OF assms(3) table_invD(1) [OF assms(1)]] assms(2) by (simp add: balance_def ac_simps)

text \<open>Moving a handler on: to an attachment it holds, or to a phase in which it holds none.\<close>

lemma set_phase_inv:
  assumes "table_inv h" "k < length (mh_handlers h)" "p \<in> {Reserved} \<union> range Attached \<longrightarrow> ma_slots (mh_table h) ! k = None"
  shows "table_inv (set_phase k p h)"
proof -
  note d = table_invD [OF assms(1)]
  have f: "fst ((mh_handlers h)[k := (fst (mh_handlers h ! k), p)] ! j) = fst (mh_handlers h ! j)" for j
    using assms(2) by (cases "j = k") simp_all
  have "ma_slots (mh_table h) ! j = None" if "j < length (mh_handlers h)"
      "snd ((mh_handlers h)[k := (fst (mh_handlers h ! k), p)] ! j) \<in> {Reserved} \<union> range Attached" for j
    using that assms(1,3) assms(2) by (cases "j = k") (auto simp: table_inv_def Let_def)
  then show ?thesis using d(1-7) by (simp add: table_inv_def set_phase_def f)
qed

lemma set_phase_waiting:
  assumes "k < length (mh_handlers h)"
  shows "mset (waiting (mh_handlers (set_phase k p h))) + mset (waiting [([], snd (mh_handlers h ! k))])
    = mset (waiting (mh_handlers h)) + mset (waiting [([], p)])"
proof -
  have "waiting [(fst (mh_handlers h ! k), p)] = waiting [([], p)]" by (cases p) simp_all
  then show ?thesis using waiting_update [OF assms, of "fst (mh_handlers h ! k)" p "[]"] by (simp add: set_phase_def)
qed

lemma set_phase_fields [simp]: "mh_table (set_phase k p h) = mh_table h" "mh_todo (set_phase k p h) = mh_todo h"
  "mh_cancelled (set_phase k p h) = mh_cancelled h" "mh_made (set_phase k p h) = mh_made h"
  by (simp_all add: set_phase_def)

lemma handler_release_inv:
  assumes "table_inv h" "balance h" "k < length (mh_handlers h)" "\<nexists>c. snd (mh_handlers h ! k) = Attached c"
  shows "table_inv (handler_release k h) \<and> balance (handler_release k h)"
proof -
  obtain todo t' where r: "release (fst (mh_handlers h ! k)) (Some k) (mh_table h) = (todo, t')" by fastforce
  let ?g = "h\<lparr>mh_table := t', mh_todo := mh_todo h @ todo\<rparr>"
  have i: "table_inv ?g" "balance ?g" using release_inv [OF assms(1) r] release_balance [OF assms(1,2) r] by auto
  have "mset (waiting (mh_handlers (set_phase k Over ?g))) = mset (waiting (mh_handlers ?g))"
    using set_phase_waiting [of k ?g Over] assms(3,4) by (cases "snd (mh_handlers h ! k)") simp_all
  then have "balance (set_phase k Over ?g)" using i(2) by (simp add: balance_def)
  moreover have "table_inv (set_phase k Over ?g)" by (rule set_phase_inv [OF i(1)]) (use assms(3) in auto)
  ultimately show ?thesis by (simp add: handler_release_def r)
qed

lemma handler_attach_inv:
  assumes "table_inv h" "balance h" "k < length (mh_handlers h)" "snd (mh_handlers h ! k) = Reserved"
  shows "table_inv (handler_attach k h) \<and> balance (handler_attach k h)"
proof -
  let ?g = "h\<lparr>mh_made := mh_made h + 1\<rparr>"
  have "table_inv ?g" using assms(1) by (simp add: table_inv_def)
  then have "table_inv (set_phase k (Attached (mh_made h)) ?g)"
    using set_phase_inv [of ?g k] assms(3) table_invD(8) [OF assms(1,3,4)] by simp
  moreover have "mset (waiting (mh_handlers (set_phase k (Attached (mh_made h)) ?g))) = mset (waiting (mh_handlers h)) + {#mh_made h#}"
    using set_phase_waiting [of k ?g "Attached (mh_made h)"] assms(3,4) by simp
  ultimately show ?thesis using assms(2) by (simp add: handler_attach_def balance_def ac_simps)
qed

lemma handler_install_inv:
  assumes "table_inv h" "balance h" "k < length (mh_handlers h)" "snd (mh_handlers h ! k) = Attached c"
  shows "table_inv (handler_install k c h) \<and> balance (handler_install k c h)"
proof -
  note d = table_invD [OF assms(1)] and none = table_invD(9) [OF assms(1,3,4)]
  let ?i = "fst (mh_handlers h ! k)" and ?t = "mh_table h"
  have w: "mset (waiting (mh_handlers (set_phase k p g))) + {#c#} = mset (waiting (mh_handlers h))"
    if "mh_handlers g = mh_handlers h" "p = Streaming \<or> p = Over" for g p
    using set_phase_waiting [of k g p] that assms(3,4) by auto
  show ?thesis
  proof (cases "\<not> ma_closed ?t \<and> map_of (ma_entries ?t) ?i = Some k")
    case True
    let ?t' = "?t\<lparr>ma_slots := (ma_slots ?t)[k := Some c]\<rparr>"
    let ?g = "h\<lparr>mh_table := ?t', mh_todo := mh_todo h @ []\<rparr>"
    have e: "handler_install k c h = set_phase k Streaming ?g" using True by (simp add: handler_install_def install_def)
    have wo: "cancels_of (ma_slots ?t') (without ?i (ma_entries ?t)) = cancels_of (ma_slots ?t) (without ?i (ma_entries ?t))"
    proof (rule cancels_cong)
      fix x assume x: "x \<in> set (without ?i (ma_entries ?t))"
      then have "x \<in> set (ma_entries ?t)" "fst x \<noteq> ?i" by (auto simp: without_def)
      then have "snd x \<noteq> k" using d(7) by fastforce
      then show "ma_slots ?t' ! snd x = ma_slots ?t ! snd x" by simp
    qed
    have one: "mset (cancels_of (ma_slots ?t') (ma_entries ?t)) = mset (cancels_of (ma_slots ?t) (ma_entries ?t)) + {#c#}"
      using cancels_without [OF d(1) conjunct2 [OF True], of "ma_slots ?t'"] cancels_without [OF d(1) conjunct2 [OF True], of "ma_slots ?t"]
        wo none assms(3) d(5) by simp
    have "balance (set_phase k Streaming ?g)"
      using w [of ?g Streaming] one assms(2) by (simp add: balance_def ac_simps flip: w [of ?g Streaming])
    moreover have "table_inv (set_phase k Streaming ?g)"
    proof -
      have f: "fst ((mh_handlers h)[k := (?i, Streaming)] ! j) = fst (mh_handlers h ! j)" for j
        using assms(3) by (cases "j = k") simp_all
      have "(ma_slots ?t)[k := Some c] ! j = None" if "j < length (mh_handlers h)"
          "snd ((mh_handlers h)[k := (?i, Streaming)] ! j) \<in> {Reserved} \<union> range Attached" for j
        using that assms(1,3) by (cases "j = k") (auto simp: table_inv_def Let_def)
      then show ?thesis using d(1-7) by (simp add: table_inv_def set_phase_def f)
    qed
    ultimately show ?thesis by (simp add: e)
  next
    case False
    let ?g = "h\<lparr>mh_table := ?t, mh_todo := mh_todo h @ [c]\<rparr>"
    have e: "handler_install k c h = set_phase k Over ?g" using False by (auto simp: handler_install_def install_def)
    have "table_inv ?g" using assms(1) by (simp add: table_inv_def)
    then have "table_inv (set_phase k Over ?g)" by (rule set_phase_inv) (use assms(3) in auto)
    moreover have "balance (set_phase k Over ?g)"
      using w [of ?g Over] assms(2) by (simp add: balance_def ac_simps flip: w [of ?g Over])
    ultimately show ?thesis by (simp add: e)
  qed
qed

lemma start_attach_inv:
  assumes "table_inv h" "balance h"
  shows "table_inv (snd (start_attach i h)) \<and> balance (snd (start_attach i h))"
proof (cases "i \<noteq> [] \<and> \<not> ma_closed (mh_table h) \<and> map_of (ma_entries (mh_table h)) i = None \<and> length (ma_entries (mh_table h)) < maxMuxAttachments")
  case False
  then have "snd (start_attach i h) = h" by (auto simp: start_attach_def reserve_def)
  then show ?thesis using assms by simp
next
  case True
  note d = table_invD [OF assms(1)]
  let ?t = "mh_table h" and ?n = "length (mh_handlers h)"
  let ?t' = "?t\<lparr>ma_slots := ma_slots ?t @ [None], ma_entries := (i, ?n) # ma_entries ?t\<rparr>"
  let ?h = "h\<lparr>mh_table := ?t', mh_handlers := mh_handlers h @ [(i, Reserved)]\<rparr>"
  have e: "snd (start_attach i h) = ?h" using True d(5) by (auto simp: start_attach_def reserve_def Let_def)
  have old: "(ma_slots ?t @ [None]) ! snd x = ma_slots ?t ! snd x" if "x \<in> set (ma_entries ?t)" for x
    using d(5,6) that by (simp add: nth_append)
  have "cancels_of (ma_slots ?t @ [None]) (ma_entries ?t) = cancels_of (ma_slots ?t) (ma_entries ?t)"
    by (rule cancels_cong) (rule old)
  then have "balance ?h" using assms(2) d(5) by (simp add: balance_def nth_append)
  moreover have "table_inv ?h"
  proof -
    have k: "i \<notin> fst ` set (ma_entries ?t)" using True by (simp add: map_of_eq_None_iff)
    have n: "?n \<notin> snd ` set (ma_entries ?t)" using d(6) by force
    have "snd x < Suc ?n" "fst ((mh_handlers h @ [(i, Reserved)]) ! snd x) = fst x" if "x \<in> set ((i, ?n) # ma_entries ?t)" for x
      using that d(6) [of x] d(7) [of x] by (auto simp: nth_append)
    moreover have "(ma_slots ?t @ [None]) ! j = None" if "j < Suc ?n" "snd ((mh_handlers h @ [(i, Reserved)]) ! j) \<in> {Reserved} \<union> range Attached" for j
      using that d(5) d(8) [of j] d(9) [of j] by (auto simp: nth_append split: if_splits)
    ultimately show ?thesis using d(1,2,5) k n True by (simp add: table_inv_def)
  qed
  ultimately show ?thesis by (simp add: e)
qed

lemma connection_detach_inv: "table_inv h \<Longrightarrow> balance h \<Longrightarrow> table_inv (connection_detach i h) \<and> balance (connection_detach i h)"
  using release_inv release_balance by (auto simp: connection_detach_def detach_def split: prod.split)

lemma connection_close_inv: "table_inv h \<Longrightarrow> balance h \<Longrightarrow> table_inv (connection_close h) \<and> balance (connection_close h)"
  by (simp add: connection_close_def close_attachments_def table_inv_def balance_def Let_def ac_simps)

lemma run_cancel_inv: "table_inv h \<Longrightarrow> balance h \<Longrightarrow> table_inv (run_cancel h) \<and> balance (run_cancel h)"
  by (cases "mh_todo h") (simp_all add: run_cancel_def table_inv_def balance_def)

lemma attach_inv: "attach_reached h \<Longrightarrow> table_inv h \<and> balance h"
proof (induction rule: attach_reached.induct)
  case attach_zero
  show ?case by (simp add: attach_start_def newMuxAttachments_def table_inv_def balance_def)
next
  case (attach_next h h')
  from attach_next.hyps(2) attach_next.IH show ?case
    by cases (simp_all add: start_attach_inv handler_release_inv handler_attach_inv handler_install_inv connection_detach_inv
        connection_close_inv run_cancel_inv)
qed

text \<open>A handler takes no slot out of the table but its own: another attachment of the same session stays.\<close>

lemma handler_release_own:
  "e \<in> set (ma_entries (mh_table h)) \<Longrightarrow> snd e \<noteq> k \<Longrightarrow> distinct (map fst (ma_entries (mh_table h)))
     \<Longrightarrow> e \<in> set (ma_entries (mh_table (handler_release k h)))"
  using eq_key_imp_eq_value [of "ma_entries (mh_table h)"] by (cases e) (auto simp: handler_release_def release_def Let_def without_def)

lemma distinct_of_mset:
  assumes "mset xs \<subseteq># mset ys" "distinct ys"
  shows "distinct xs"
proof -
  obtain zs where "mset ys - mset xs = mset zs" by (metis ex_mset)
  then have "mset ys = mset (xs @ zs)" using assms(1) by (metis mset_append subset_mset.add_diff_inverse)
  then show ?thesis using assms(2) mset_eq_imp_distinct_iff by fastforce
qed

section \<open>Property\<close>

text \<open>C28: whatever attaches, detaches and ends of streams interleave, a connection holds at most 256 attachments, one for each
  session; no attachment is cancelled twice; and once the connection is closed and the handlers have come to their end,
  every attachment that was ever made has been cancelled: no subscriber leaks.  The end of one stream never takes away the
  slot of another.\<close>

theorem no_attachment_leaks:
  assumes "attach_reached h"
  shows "length (ma_entries (mh_table h)) \<le> maxMuxAttachments \<and> distinct (map fst (ma_entries (mh_table h)))
    \<and> distinct (mh_cancelled h) \<and> set (mh_cancelled h) \<subseteq> {0 ..< mh_made h}
    \<and> (ma_closed (mh_table h) \<and> waiting (mh_handlers h) = [] \<and> mh_todo h = [] \<longrightarrow> set (mh_cancelled h) = {0 ..< mh_made h})
    \<and> (\<forall>e k. e \<in> set (ma_entries (mh_table h)) \<and> snd e \<noteq> k \<longrightarrow> e \<in> set (ma_entries (mh_table (handler_release k h))))"
proof -
  have t: "table_inv h" and b: "balance h" using attach_inv [OF assms] by auto
  note d = table_invD [OF t]
  have s: "mset (mh_cancelled h) \<subseteq># mset [0 ..< mh_made h]" using b by (metis balance_def mset_subset_eq_add_right)
  have "set (mh_cancelled h) \<subseteq> {0 ..< mh_made h}" using set_mset_mono [OF s] by simp
  moreover have "distinct (mh_cancelled h)" by (rule distinct_of_mset [OF s]) simp
  moreover have "set (mh_cancelled h) = {0 ..< mh_made h}"
    if "ma_closed (mh_table h) \<and> waiting (mh_handlers h) = [] \<and> mh_todo h = []"
  proof -
    have "mset (mh_cancelled h) = mset [0 ..< mh_made h]" using b d(4) that by (simp add: balance_def)
    then show ?thesis by (metis set_mset_mset set_upt)
  qed
  ultimately show ?thesis using d(1,3) handler_release_own by blast
qed

definition sample_attached :: mux_handlers where
  "sample_attached = handler_install 0 0 (handler_attach 0 (snd (start_attach ''s'' attach_start)))"

definition sample_closed :: mux_handlers where
  "sample_closed = run_cancel (connection_close sample_attached)"

theorem no_attachment_leaks_witness: "mh_made sample_closed = 1 \<and> set (mh_cancelled sample_closed) = {0 ..< 1}"
proof -
  note e = start_attach_def reserve_def attach_start_def newMuxAttachments_def maxMuxAttachments_def handler_attach_def set_phase_def
    handler_install_def install_def
  let ?a = "snd (start_attach ''s'' attach_start)"
  have a: "length (mh_handlers ?a) = 1 \<and> snd (mh_handlers ?a ! 0) = Reserved" by (simp add: e)
  have b: "length (mh_handlers (handler_attach 0 ?a)) = 1 \<and> snd (mh_handlers (handler_attach 0 ?a) ! 0) = Attached 0" by (simp add: e)
  have "attach_reached ?a" using attach_next [OF attach_zero attach_begin] .
  then have "attach_reached (handler_attach 0 ?a)" by (rule attach_next) (rule attach_made, simp_all add: a)
  then have "attach_reached sample_attached" unfolding sample_attached_def by (rule attach_next) (rule attach_installed, simp_all add: b)
  then have r: "attach_reached sample_closed"
    unfolding sample_closed_def using attach_next [OF attach_next [OF _ attach_close] attach_cancel] by blast
  have s: "mh_made sample_closed = 1 \<and> ma_closed (mh_table sample_closed) \<and> waiting (mh_handlers sample_closed) = [] \<and> mh_todo sample_closed = []"
    by (simp add: sample_closed_def sample_attached_def e connection_close_def close_attachments_def run_cancel_def)
  have "set (mh_cancelled sample_closed) = {0 ..< mh_made sample_closed}" using no_attachment_leaks [OF r] s by blast
  then show ?thesis using s by simp
qed

end
