(* ===== verification/Wait_Conditions.thy ===== *)
theory Wait_Conditions
  imports Prelude
begin

text \<open>
  What \<open>sessions wait\<close> observes: \<open>runtime/internal/waitcond/waitcond.go\<close>.  A condition is asked again on every tick or wake;
  here the observations it makes are a list, in order, and the end of the list is the end of its context.  What the file
  system, git and the daemon answer is what the list holds.
\<close>

section \<open>Outcomes\<close>

datatype 'r wait_outcome = Satisfied nat 'r | WaitFailed nat | StillWaiting

text \<open>The observation with that number, counted from zero, ended the wait.\<close>

fun later :: "'r wait_outcome \<Rightarrow> 'r wait_outcome" where
  "later (Satisfied n r) = Satisfied (Suc n) r"
| "later (WaitFailed n) = WaitFailed (Suc n)"
| "later StillWaiting = StillWaiting"

section \<open>A file that holds a text\<close>

type_synonym bytes = "8 word list"

definition MaxFileRead :: int where "MaxFileRead = 8 * 1024 * 1024"
definition mtimeGranularity :: int where "mtimeGranularity = 1000000000"

record file_info =
  fi_Id :: nat
  fi_Size :: int
  fi_ModTime :: int
  fi_Regular :: bool

text \<open>What one look finds: nothing, an error, or a file, with what reading it gives (or that reading fails).\<close>

datatype file_look = NotExist | OpenFailed | Looked file_info "bytes option"

record file_probe =
  fp_Needle :: bytes
  fp_Last :: "file_info option"
  fp_ReadAt :: int

definition new_probe :: "bytes \<Rightarrow> file_probe option" where
  "new_probe needle = (if int (length needle) > MaxFileRead then None
     else Some \<lparr>fp_Needle = needle, fp_Last = None, fp_ReadAt = 0\<rparr>)"

definition unchanged :: "file_probe \<Rightarrow> file_info \<Rightarrow> file_info \<Rightarrow> bool" where
  "unchanged p previous current \<longleftrightarrow> fi_Size current = fi_Size previous \<and> fi_ModTime current = fi_ModTime previous
     \<and> fi_ModTime current + mtimeGranularity < fp_ReadAt p"

definition read_start :: "file_probe \<Rightarrow> file_info \<Rightarrow> int" where
  "read_start p info =
     (let s0 = (case fp_Last p of
                  Some previous \<Rightarrow> if fi_Id previous = fi_Id info \<and> fi_Size info > fi_Size previous
                    then fi_Size previous - int (length (fp_Needle p)) + 1 else 0
                | None \<Rightarrow> 0);
          s1 = max s0 0;
          s2 = min s1 (fi_Size info)
      in if fi_Size info - s2 > MaxFileRead then fi_Size info - MaxFileRead else s2)"

definition read_section :: "int \<Rightarrow> int \<Rightarrow> bytes \<Rightarrow> bytes" where
  "read_section start n content = take (nat n) (drop (nat start) content)"

text \<open>The result: an error, or whether the file holds the needle.  \<open>now\<close> is the clock after the read.\<close>

definition probe_contains :: "int \<Rightarrow> file_look \<Rightarrow> file_probe \<Rightarrow> bool option \<times> file_probe" where
  "probe_contains now look p =
     (case look of
        NotExist \<Rightarrow> (Some False, p\<lparr>fp_Last := None\<rparr>)
      | OpenFailed \<Rightarrow> (None, p)
      | Looked info content \<Rightarrow>
          if \<not> fi_Regular info then (None, p)
          else if (case fp_Last p of None \<Rightarrow> False | Some previous \<Rightarrow> fi_Id previous = fi_Id info \<and> unchanged p previous info)
          then (Some False, p)
          else case content of
              None \<Rightarrow> (None, p)
            | Some c \<Rightarrow>
                let start = read_start p info
                in (Some (infix_of (fp_Needle p) (read_section start (fi_Size info - start) c)),
                    p\<lparr>fp_Last := Some info, fp_ReadAt := now\<rparr>))"

fun file_wait :: "file_probe \<Rightarrow> (file_look \<times> int) list \<Rightarrow> unit wait_outcome" where
  "file_wait p [] = StillWaiting"
| "file_wait p ((look, now) # rest) =
     (case probe_contains now look p of
        (None, _) \<Rightarrow> WaitFailed 0
      | (Some True, _) \<Rightarrow> Satisfied 0 ()
      | (Some False, p') \<Rightarrow> later (file_wait p' rest))"

section \<open>A session that stays idle\<close>

datatype idle_sample = ObserveFailed | ObservePrecondition | IdleSample bool string

definition idlePollInterval :: int where "idlePollInterval = 100000000"

definition idle_poll :: "int \<Rightarrow> int" where
  "idle_poll span =
     (let quarter = span div 4;
          poll = (if quarter > 0 \<and> quarter < idlePollInterval then quarter else idlePollInterval)
      in if poll < 10000000 then 10000000 else poll)"

fun idle_wait :: "int \<Rightarrow> int option \<Rightarrow> (int \<times> idle_sample) list \<Rightarrow> string wait_outcome" where
  "idle_wait span since [] = StillWaiting"
| "idle_wait span since ((now, sample) # rest) =
     (case sample of
        ObservePrecondition \<Rightarrow> WaitFailed 0
      | ObserveFailed \<Rightarrow> later (idle_wait span None rest)
      | IdleSample working source \<Rightarrow>
          if working then later (idle_wait span None rest)
          else let since' = (case since of None \<Rightarrow> now | Some t \<Rightarrow> t)
               in if now - since' \<ge> span then Satisfied 0 source else later (idle_wait span (Some since') rest))"

section \<open>A new commit\<close>

text \<open>
  One check asks git for HEAD, whether the baseline is an ancestor of it (\<open>None\<close>: git failed otherwise) and for the subject.
\<close>

record commit_look =
  ck_Head :: "string option"
  ck_Ancestor :: "bool option"
  ck_Subject :: "string option"

record commit_result =
  cr_Baseline :: string
  cr_Commit :: string
  cr_Subject :: string
  cr_HistoryRewritten :: bool

definition historyRewritten :: "commit_look \<Rightarrow> bool option" where
  "historyRewritten k = map_option Not (ck_Ancestor k)"

definition commit_check :: "string \<Rightarrow> commit_look \<Rightarrow> unit + commit_result option" where
  "commit_check baseline k =
     (case ck_Head k of
        None \<Rightarrow> Inl ()
      | Some current \<Rightarrow>
          if current = baseline then Inr None
          else case historyRewritten k of
              None \<Rightarrow> Inl ()
            | Some rewritten \<Rightarrow> (case ck_Subject k of
                  None \<Rightarrow> Inl ()
                | Some subject \<Rightarrow> Inr (Some \<lparr>cr_Baseline = baseline, cr_Commit = current, cr_Subject = subject,
                    cr_HistoryRewritten = rewritten\<rparr>)))"

fun commit_wait :: "string \<Rightarrow> commit_look list \<Rightarrow> commit_result wait_outcome" where
  "commit_wait baseline [] = StillWaiting"
| "commit_wait baseline (k # ks) =
     (case commit_check baseline k of
        Inl _ \<Rightarrow> WaitFailed 0
      | Inr None \<Rightarrow> later (commit_wait baseline ks)
      | Inr (Some r) \<Rightarrow> Satisfied 0 r)"

section \<open>The first of several\<close>

text \<open>
  The outcomes arrive in the order in which the conditions end; \<open>ended\<close> is whether the context has ended when that
  outcome is received, and the last argument whether it has when all of them are in.
\<close>

datatype ('e, 'r) condition_outcome = Met 'r | Interrupted | Unmet 'e

datatype ('e, 'r) any_result = AnyMet 'r | AnyInterrupted | AnyFailed "'e list" | NoConditions

fun wait_outcomes :: "'e list \<Rightarrow> (('e, 'r) condition_outcome \<times> bool) list \<Rightarrow> bool \<Rightarrow> 'e \<Rightarrow> ('e, 'r) any_result" where
  "wait_outcomes seen [] ended cancelled = (if ended then AnyInterrupted else AnyFailed (rev seen))"
| "wait_outcomes seen ((out, over) # rest) ended cancelled =
     (case out of
        Met r \<Rightarrow> AnyMet r
      | Interrupted \<Rightarrow> if over then AnyInterrupted else wait_outcomes (cancelled # seen) rest ended cancelled
      | Unmet e \<Rightarrow> wait_outcomes (e # seen) rest ended cancelled)"

definition WaitAny :: "(('e, 'r) condition_outcome \<times> bool) list \<Rightarrow> bool \<Rightarrow> 'e \<Rightarrow> ('e, 'r) any_result" where
  "WaitAny outs ended cancelled = (if outs = [] then NoConditions else wait_outcomes [] outs ended cancelled)"

text \<open>A burst of notifications costs one window: further wakes are absorbed until the timer fires or the context ends.\<close>

datatype burst_event = Woken | WindowOver | ContextOver

fun coalesce_events :: "burst_event list \<Rightarrow> (bool \<times> burst_event list) option" where
  "coalesce_events [] = None"
| "coalesce_events (Woken # es) = coalesce_events es"
| "coalesce_events (WindowOver # es) = Some (True, es)"
| "coalesce_events (ContextOver # es) = Some (False, es)"

definition coalesce :: "int \<Rightarrow> burst_event list \<Rightarrow> (bool \<times> burst_event list) option" where
  "coalesce window es = (if window \<le> 0 then Some (True, es) else coalesce_events es)"

section \<open>Files\<close>

lemma infix_of_append:
  assumes "\<not> infix_of w old" "w \<noteq> []"
  shows "infix_of w (old @ new) \<longleftrightarrow> infix_of w (drop (length old - (length w - 1)) (old @ new))"
proof
  assume "infix_of w (old @ new)"
  then obtain a b where ab: "old @ new = a @ w @ b" by (auto simp: infix_of_iff)
  have "length old < length a + length w"
  proof (rule ccontr)
    assume "\<not> length old < length a + length w"
    then have "old = take (length old) (a @ w @ b)" using ab by (metis append_eq_conv_conj)
    also have "\<dots> = a @ w @ take (length old - length a - length w) b" using \<open>\<not> length old < length a + length w\<close> by simp
    finally show False using assms(1) infix_of_iff by blast
  qed
  then have "length old - (length w - 1) \<le> length a" using assms(2) by (cases w) auto
  then have "drop (length old - (length w - 1)) (old @ new) = drop (length old - (length w - 1)) a @ w @ b" by (simp add: ab)
  then show "infix_of w (drop (length old - (length w - 1)) (old @ new))" by (auto simp: infix_of_iff)
next
  assume "infix_of w (drop (length old - (length w - 1)) (old @ new))"
  then obtain a b where "drop (length old - (length w - 1)) (old @ new) = a @ w @ b" by (auto simp: infix_of_iff)
  then have "old @ new = (take (length old - (length w - 1)) (old @ new) @ a) @ w @ b" by (metis append.assoc append_take_drop_id)
  then show "infix_of w (old @ new)" unfolding infix_of_iff by blast
qed

text \<open>
  What may have happened to the file between two looks.  It appeared, was replaced by another one, or is gone; it was
  appended to; or it was rewritten without growing, and then a file system whose clock ticks at least once in
  \<open>mtimeGranularity\<close> shows the change, in the size or the modification time, unless the read before was as recent as that.
  At most \<open>MaxFileRead\<close> bytes are new.
\<close>

type_synonym last_read = "(file_info \<times> bytes \<times> int) option"

fun ordinary :: "bytes \<Rightarrow> last_read \<Rightarrow> file_look \<Rightarrow> bool" where
  "ordinary w prev NotExist = True"
| "ordinary w prev OpenFailed = False"
| "ordinary w prev (Looked info None) = False"
| "ordinary w prev (Looked info (Some c)) \<longleftrightarrow> fi_Regular info \<and> fi_Size info = int (length c) \<and>
     (case prev of
        Some (old, oldc, t) \<Rightarrow>
          if fi_Id old \<noteq> fi_Id info then fi_Size info \<le> MaxFileRead
          else (take (length oldc) c = oldc \<and> int (length c) - int (length oldc) + int (length w) - 1 \<le> MaxFileRead
                \<and> (length c = length oldc \<longrightarrow> int (length c) \<le> MaxFileRead))
             \<or> (length c \<le> length oldc \<and> fi_Size info \<le> MaxFileRead
                \<and> (fi_Size info = fi_Size old \<and> fi_ModTime info = fi_ModTime old \<longrightarrow> t \<le> fi_ModTime info + mtimeGranularity))
      | None \<Rightarrow> fi_Size info \<le> MaxFileRead)"

fun read_of :: "last_read \<Rightarrow> file_look \<times> int \<Rightarrow> last_read" where
  "read_of prev (Looked info (Some c), now) =
     (case prev of
        Some (old, oldc, t) \<Rightarrow> if fi_Id old = fi_Id info \<and> fi_Size info = fi_Size old \<and> fi_ModTime info = fi_ModTime old
            \<and> fi_ModTime info + mtimeGranularity < t then prev else Some (info, c, now)
      | None \<Rightarrow> Some (info, c, now))"
| "read_of prev _ = None"

fun ordinary_looks :: "bytes \<Rightarrow> last_read \<Rightarrow> (file_look \<times> int) list \<Rightarrow> bool" where
  "ordinary_looks w prev [] = True"
| "ordinary_looks w prev ((look, now) # rest) \<longleftrightarrow> ordinary w prev look \<and> ordinary_looks w (read_of prev (look, now)) rest"

definition holds_needle :: "bytes \<Rightarrow> file_look \<times> int \<Rightarrow> bool" where
  "holds_needle w o1 = (case fst o1 of Looked _ (Some c) \<Rightarrow> infix_of w c | _ \<Rightarrow> False)"

definition probe_at :: "bytes \<Rightarrow> last_read \<Rightarrow> file_probe \<Rightarrow> bool" where
  "probe_at w prev p \<longleftrightarrow> fp_Needle p = w \<and>
     (case prev of None \<Rightarrow> fp_Last p = None
      | Some (old, oldc, t) \<Rightarrow> fp_Last p = Some old \<and> fp_ReadAt p = t \<and> fi_Size old = int (length oldc) \<and> \<not> infix_of w oldc)"

lemma infix_of_Nil: "infix_of [] s"
  by (induction s) simp_all

lemma section_all: "n = int (length c) \<Longrightarrow> read_section 0 n c = c"
  by (simp add: read_section_def)

lemma probe_contains_ordinary:
  assumes "probe_at w prev p" "ordinary w prev look"
  shows "\<exists>p'. probe_contains now look p = (Some (holds_needle w (look, now)), p')
     \<and> (\<not> holds_needle w (look, now) \<longrightarrow> probe_at w (read_of prev (look, now)) p')"
proof (cases look)
  case NotExist
  then show ?thesis using assms(1) by (simp add: probe_contains_def holds_needle_def probe_at_def split: option.splits)
next
  case OpenFailed
  then show ?thesis using assms(2) by simp
next
  case (Looked info content)
  with assms(2) obtain c where c: "look = Looked info (Some c)" by (cases content) auto
  then have reg: "fi_Regular info" "fi_Size info = int (length c)" using assms(2) by auto
  have needle: "fp_Needle p = w" using assms(1) by (simp add: probe_at_def)
  have fresh: ?thesis if "read_start p info = 0" "\<not> (case fp_Last p of None \<Rightarrow> False | Some previous \<Rightarrow> fi_Id previous = fi_Id info \<and> unchanged p previous info)"
      "read_of prev (look, now) = Some (info, c, now)"
    using that reg needle c by (simp add: probe_contains_def holds_needle_def probe_at_def Let_def section_all)
  show ?thesis
  proof (cases prev)
    case None
    then have l: "fp_Last p = None" using assms(1) by (simp add: probe_at_def)
    show ?thesis by (rule fresh) (use l None c reg assms(2) in \<open>auto simp: read_start_def Let_def\<close>)
  next
    case (Some q)
    obtain old oldc t where q: "q = (old, oldc, t)" by (cases q)
    have l: "fp_Last p = Some old" "fp_ReadAt p = t" "fi_Size old = int (length oldc)" "\<not> infix_of w oldc"
      using assms(1) Some q by (auto simp: probe_at_def)
    have w: "w \<noteq> []" using l(4) infix_of_Nil by blast
    show ?thesis
    proof (cases "fi_Id old = fi_Id info")
      case False
      show ?thesis by (rule fresh) (use l Some q c reg assms(2) False in \<open>auto simp: read_start_def Let_def\<close>)
    next
      case same: True
      show ?thesis
      proof (cases "unchanged p old info")
        case True
        then have u: "fi_Size info = fi_Size old" "fi_ModTime info = fi_ModTime old" "fi_ModTime info + mtimeGranularity < t"
          using l(2) by (auto simp: unchanged_def)
        then have "c = oldc" using assms(2) Some q c same reg l(3) by auto
        then show ?thesis using True u same l Some q c reg needle assms(1)
          by (simp add: probe_contains_def holds_needle_def)
      next
        case False
        then have f: "\<not> (fi_Size info = fi_Size old \<and> fi_ModTime info = fi_ModTime old \<and> fi_ModTime info + mtimeGranularity < t)"
          using l(2) by (auto simp: unchanged_def)
        then have r: "read_of prev (look, now) = Some (info, c, now)" using Some q c by auto
        show ?thesis
        proof (cases "length c \<le> length oldc")
          case True
          have "fi_Size info \<le> MaxFileRead"
          proof -
            consider "take (length oldc) c = oldc" "length c = length oldc \<longrightarrow> int (length c) \<le> MaxFileRead" | "fi_Size info \<le> MaxFileRead"
              using assms(2) Some q c same by auto
            then show ?thesis
            proof cases
              case 1
              then have "length c = length oldc" using True by (metis length_take min.absorb2 min.absorb_iff2 nle_le)
              then show ?thesis using 1 reg by simp
            qed
          qed
          then have "read_start p info = 0" using l True same reg by (simp add: read_start_def Let_def)
          then show ?thesis by (rule fresh) (use l same False r in auto)
        next
          case grown: False
          then have a: "take (length oldc) c = oldc" "int (length c) - int (length oldc) + int (length w) - 1 \<le> MaxFileRead"
            using assms(2) Some q c same by auto
          define s where "s = max (int (length oldc) - int (length w) + 1) 0"
          have s: "read_start p info = s" "nat s = length oldc - (length w - 1)"
            using l same reg grown a(2) w needle by (auto simp: read_start_def Let_def s_def MaxFileRead_def Suc_le_eq length_greater_0_conv)
          have "c = oldc @ drop (length oldc) c" using a(1) by (metis append_take_drop_id)
          then have "infix_of w c \<longleftrightarrow> infix_of w (drop (nat s) c)"
            using infix_of_append [OF l(4) w, of "drop (length oldc) c"] s(2) by metis
          moreover have "read_section s (fi_Size info - s) c = drop (nat s) c"
            using reg by (simp add: read_section_def s_def)
          ultimately show ?thesis using l same False reg needle c r s(1)
            by (simp add: probe_contains_def holds_needle_def probe_at_def Let_def)
        qed
      qed
    qed
  qed
qed

lemma file_wait_ordinary:
  assumes "probe_at w prev p" "ordinary_looks w prev obs"
  shows "file_wait p obs = (if \<exists>x \<in> set obs. holds_needle w x
           then Satisfied (length (takeWhile (\<lambda>x. \<not> holds_needle w x) obs)) () else StillWaiting)"
  using assms
proof (induction obs arbitrary: prev p)
  case (Cons x rest)
  obtain look now where x: "x = (look, now)" by (cases x)
  obtain p' where p': "probe_contains now look p = (Some (holds_needle w x), p')"
      "\<not> holds_needle w x \<longrightarrow> probe_at w (read_of prev x) p'"
    using probe_contains_ordinary [OF Cons.prems(1)] Cons.prems(2) x by (metis ordinary_looks.simps(2))
  show ?case
  proof (cases "holds_needle w x")
    case True
    then show ?thesis using p'(1) x by simp
  next
    case False
    then have "file_wait p' rest = (if \<exists>x \<in> set rest. holds_needle w x
           then Satisfied (length (takeWhile (\<lambda>x. \<not> holds_needle w x) rest)) () else StillWaiting)"
      using Cons.IH p'(2) Cons.prems(2) x by simp
    then show ?thesis using p'(1) x False by auto
  qed
qed simp

text \<open>However the file changes, a wait that ends found the text in the file at that look.\<close>

lemma read_section_infix: "infix_of w (read_section a n c) \<Longrightarrow> infix_of w c"
proof -
  assume "infix_of w (read_section a n c)"
  then obtain x y where xy: "take (nat n) (drop (nat a) c) = x @ w @ y" by (auto simp: infix_of_iff read_section_def)
  have "c = take (nat a) c @ take (nat n) (drop (nat a) c) @ drop (nat n) (drop (nat a) c)"
    by (simp only: append_take_drop_id)
  also have "\<dots> = (take (nat a) c @ x) @ w @ (y @ drop (nat n) (drop (nat a) c))" by (simp add: xy)
  finally show "infix_of w c" unfolding infix_of_iff by blast
qed

lemma probe_contains_sound:
  assumes "probe_contains now look p = (Some b, p')"
  shows "fp_Needle p' = fp_Needle p" "b \<Longrightarrow> holds_needle (fp_Needle p) (look, now)"
  using assms read_section_infix
  by (auto simp: probe_contains_def holds_needle_def Let_def split: file_look.splits option.splits if_splits)

lemma file_wait_sound:
  "file_wait p obs = Satisfied n () \<Longrightarrow> n < length obs \<and> holds_needle (fp_Needle p) (obs ! n)"
proof (induction obs arbitrary: p n)
  case (Cons x rest)
  obtain look now where x: "x = (look, now)" by (cases x)
  obtain r p' where r: "probe_contains now look p = (r, p')" by fastforce
  show ?case
  proof (cases r)
    case None
    then show ?thesis using Cons.prems x r by simp
  next
    case (Some b)
    note sound = probe_contains_sound [OF r [unfolded Some]]
    show ?thesis
    proof (cases b)
      case True
      then show ?thesis using Cons.prems x r Some sound(2) by simp
    next
      case False
      then have "later (file_wait p' rest) = Satisfied n ()" using Cons.prems x r Some by simp
      then obtain m where m: "file_wait p' rest = Satisfied m ()" "n = Suc m" by (cases "file_wait p' rest") auto
      show ?thesis using Cons.IH [OF m(1)] sound(1) m(2) by simp
    qed
  qed
qed simp


definition seen_file :: "int \<Rightarrow> bytes \<Rightarrow> file_look" where
  "seen_file mtime c = Looked \<lparr>fi_Id = 7, fi_Size = int (length c), fi_ModTime = mtime, fi_Regular = True\<rparr> (Some c)"


text \<open>
  A file rewritten in place that has grown is read only from where its old end was: a text written before that is missed,
  and as long as the file does not change again it stays missed.
\<close>

lemma grown_rewrite_missed:
  assumes "mtime + mtimeGranularity < now"
  shows "file_wait \<lparr>fp_Needle = [2, 3], fp_Last = None, fp_ReadAt = 0\<rparr>
     ((seen_file 5 [0, 0, 0], 10) # (seen_file mtime [2, 3, 0, 0], now) # map (\<lambda>t. (seen_file mtime [2, 3, 0, 0], t)) ticks) = StillWaiting"
proof -
  let ?p = "\<lparr>fp_Needle = [2, 3], fp_Last = Some \<lparr>fi_Id = 7, fi_Size = 4, fi_ModTime = mtime, fi_Regular = True\<rparr>, fp_ReadAt = now\<rparr>"
  have "file_wait ?p (map (\<lambda>t. (seen_file mtime [2, 3, 0, 0], t)) ticks) = StillWaiting"
  proof (induction ticks)
    case (Cons t ticks)
    have "probe_contains t (seen_file mtime [2, 3, 0, 0]) ?p = (Some False, ?p)"
      using assms by (simp add: probe_contains_def seen_file_def unchanged_def)
    then show ?case using Cons.IH by simp
  qed simp
  then show ?thesis
    by (simp add: probe_contains_def seen_file_def unchanged_def read_start_def read_section_def Let_def MaxFileRead_def)
qed

section \<open>Idle sessions\<close>

definition idle_at :: "(int \<times> idle_sample) list \<Rightarrow> nat \<Rightarrow> bool" where
  "idle_at obs k \<longleftrightarrow> k < length obs \<and> (\<exists>src. snd (obs ! k) = IdleSample False src)"

text \<open>From sample \<open>j\<close> to sample \<open>k\<close> every sample was idle, over at least the time \<open>span\<close>.\<close>

definition stable_at :: "int \<Rightarrow> (int \<times> idle_sample) list \<Rightarrow> nat \<Rightarrow> bool" where
  "stable_at span obs k \<longleftrightarrow> (\<exists>j \<le> k. (\<forall>i. j \<le> i \<and> i \<le> k \<longrightarrow> idle_at obs i) \<and> fst (obs ! k) - fst (obs ! j) \<ge> span)"

text \<open>The same with an idle stretch that began before the list, at \<open>since\<close>.\<close>

definition stable_from :: "int \<Rightarrow> int option \<Rightarrow> (int \<times> idle_sample) list \<Rightarrow> nat \<Rightarrow> bool" where
  "stable_from span since obs k \<longleftrightarrow> stable_at span obs k
     \<or> (\<exists>t. since = Some t \<and> (\<forall>i \<le> k. idle_at obs i) \<and> fst (obs ! k) - t \<ge> span)"

definition ends_first :: "(nat \<Rightarrow> bool) \<Rightarrow> (int \<times> idle_sample) list \<Rightarrow> nat \<Rightarrow> bool" where
  "ends_first P obs k \<longleftrightarrow> k < length obs \<and> P k \<and> (\<forall>i < k. \<not> P i \<and> snd (obs ! i) \<noteq> ObservePrecondition)"

lemma idle_at_Cons: "idle_at (x # obs) (Suc k) = idle_at obs k" "idle_at (x # obs) 0 \<longleftrightarrow> (\<exists>src. snd x = IdleSample False src)"
  by (simp_all add: idle_at_def)

lemma stable_at_Suc:
  "stable_at span (x # obs) (Suc k) \<longleftrightarrow> stable_at span obs k
     \<or> ((\<exists>src. snd x = IdleSample False src) \<and> (\<forall>i \<le> k. idle_at obs i) \<and> fst (obs ! k) - fst x \<ge> span)"
proof
  assume "stable_at span (x # obs) (Suc k)"
  then obtain j where j: "j \<le> Suc k" "\<forall>i. j \<le> i \<and> i \<le> Suc k \<longrightarrow> idle_at (x # obs) i" "fst (obs ! k) - fst ((x # obs) ! j) \<ge> span"
    by (auto simp: stable_at_def)
  show "stable_at span obs k \<or> ((\<exists>src. snd x = IdleSample False src) \<and> (\<forall>i \<le> k. idle_at obs i) \<and> fst (obs ! k) - fst x \<ge> span)"
  proof (cases j)
    case 0
    then have "idle_at (x # obs) 0" "\<forall>i \<le> k. idle_at (x # obs) (Suc i)" using j(2) by auto
    then show ?thesis using 0 j(3) by (simp add: idle_at_Cons)
  next
    case (Suc j')
    then have "\<forall>i. j' \<le> i \<and> i \<le> k \<longrightarrow> idle_at obs i" using j(2) by (metis Suc_le_mono idle_at_Cons(1))
    then show ?thesis using Suc j by (auto simp: stable_at_def)
  qed
next
  assume "stable_at span obs k \<or> ((\<exists>src. snd x = IdleSample False src) \<and> (\<forall>i \<le> k. idle_at obs i) \<and> fst (obs ! k) - fst x \<ge> span)"
  then show "stable_at span (x # obs) (Suc k)"
  proof
    assume "stable_at span obs k"
    then obtain j where j: "j \<le> k" "\<forall>i. j \<le> i \<and> i \<le> k \<longrightarrow> idle_at obs i" "fst (obs ! k) - fst (obs ! j) \<ge> span"
      by (auto simp: stable_at_def)
    have "\<forall>i. Suc j \<le> i \<and> i \<le> Suc k \<longrightarrow> idle_at (x # obs) i"
      using j(2) by (metis Suc_le_D Suc_le_mono idle_at_Cons(1))
    then show ?thesis using j unfolding stable_at_def by (intro exI [of _ "Suc j"]) simp
  next
    assume a: "(\<exists>src. snd x = IdleSample False src) \<and> (\<forall>i \<le> k. idle_at obs i) \<and> fst (obs ! k) - fst x \<ge> span"
    have "idle_at (x # obs) i" if "i \<le> Suc k" for i using a that by (cases i) (auto simp: idle_at_Cons)
    then show ?thesis using a unfolding stable_at_def by (intro exI [of _ 0]) simp
  qed
qed

lemma later_Satisfied: "later x = Satisfied k r \<longleftrightarrow> (\<exists>n. k = Suc n \<and> x = Satisfied n r)"
  by (cases x) auto

lemma ends_first_Suc:
  "ends_first P (x # obs) (Suc k) \<longleftrightarrow> \<not> P 0 \<and> snd x \<noteq> ObservePrecondition \<and> ends_first (\<lambda>i. P (Suc i)) obs k"
  by (auto simp: ends_first_def less_Suc_eq_0_disj)

lemma ends_first_zero: "ends_first P (x # obs) 0 \<longleftrightarrow> P 0"
  by (simp add: ends_first_def)

lemma stable_from_zero:
  "span > 0 \<Longrightarrow> stable_from span since (x # obs) 0 \<longleftrightarrow> (\<exists>src. snd x = IdleSample False src) \<and> (\<exists>t. since = Some t \<and> fst x - t \<ge> span)"
  by (auto simp: stable_from_def stable_at_def idle_at_def)

lemma stable_from_Suc:
  "stable_from span since (x # obs) (Suc k) \<longleftrightarrow>
     (if \<exists>src. snd x = IdleSample False src
      then stable_from span (Some (case since of None \<Rightarrow> fst x | Some t \<Rightarrow> min t (fst x))) obs k
      else stable_from span None obs k)"
proof -
  have a: "(\<forall>i \<le> Suc k. idle_at (x # obs) i) \<longleftrightarrow> (\<exists>src. snd x = IdleSample False src) \<and> (\<forall>i \<le> k. idle_at obs i)"
    by (metis Suc_le_mono idle_at_Cons le0 not0_implies_Suc)
  show ?thesis unfolding stable_from_def stable_at_Suc a by (cases since) auto
qed

lemma idle_wait_first:
  assumes "span > 0" "sorted (map fst obs)" "\<forall>t. since = Some t \<longrightarrow> (\<forall>x \<in> set obs. t \<le> fst x)"
  shows "idle_wait span since obs = Satisfied k r
    \<longleftrightarrow> ends_first (stable_from span since obs) obs k \<and> snd (obs ! k) = IdleSample False r"
  using assms(2,3)
proof (induction obs arbitrary: since k)
  case Nil
  show ?case by (simp add: ends_first_def)
next
  case (Cons x obs)
  obtain now sample where x: "x = (now, sample)" by (cases x)
  have s: "sorted (map fst obs)" and above: "\<forall>y \<in> set obs. now \<le> fst y" using Cons.prems(1) x by auto
  have ih: "idle_wait span since' obs = Satisfied n r
      \<longleftrightarrow> ends_first (stable_from span since' obs) obs n \<and> snd (obs ! n) = IdleSample False r"
    if "since' = None \<or> (\<exists>t. since' = Some t \<and> t \<le> now)" for since' n
    using Cons.IH [OF s, of since' n] that above by fastforce
  have skip: "idle_wait span since (x # obs) = later (idle_wait span since' obs) \<Longrightarrow> sample \<noteq> ObservePrecondition \<Longrightarrow>
      \<not> stable_from span since (x # obs) 0 \<Longrightarrow> since' = None \<or> (\<exists>t. since' = Some t \<and> t \<le> now) \<Longrightarrow>
      (\<And>n. stable_from span since (x # obs) (Suc n) = stable_from span since' obs n) \<Longrightarrow> ?case" for since'
    using ih [of since'] x by (cases k) (auto simp: later_Satisfied ends_first_Suc ends_first_zero)
  show ?case
  proof (cases sample)
    case ObserveFailed
    show ?thesis by (rule skip [of None]) (simp_all add: x ObserveFailed stable_from_zero [OF assms(1)] stable_from_Suc)
  next
    case ObservePrecondition
    then show ?thesis by (cases k) (simp_all add: x ends_first_Suc ends_first_zero stable_from_zero [OF assms(1)])
  next
    case (IdleSample working source)
    show ?thesis
    proof (cases working)
      case True
      show ?thesis by (rule skip [of None]) (simp_all add: x IdleSample True stable_from_zero [OF assms(1)] stable_from_Suc)
    next
      case False
      let ?t = "case since of None \<Rightarrow> now | Some t \<Rightarrow> t"
      have t: "?t \<le> now" using Cons.prems(2) x by (cases since) auto
      have z: "stable_from span since (x # obs) 0 \<longleftrightarrow> now - ?t \<ge> span"
        using assms(1) by (cases since) (auto simp: stable_from_zero x IdleSample False)
      show ?thesis
      proof (cases "now - ?t \<ge> span")
        case True
        then show ?thesis using z x IdleSample False by (cases k) (auto simp: ends_first_Suc ends_first_zero)
      next
        case no: False
        have u: "stable_from span since (x # obs) (Suc n) = stable_from span (Some ?t) obs n" for n
          using t unfolding x IdleSample stable_from_Suc by (cases since) (simp_all add: False)
        show ?thesis by (rule skip [of "Some ?t"]) (use z no t u in \<open>simp_all add: x IdleSample False\<close>)
      qed
    qed
  qed
qed

text \<open>C38: waiting for an idle session ends at exactly the first sample at which the session had been seen idle, sample after
  sample, for the stable time; one busy or failed sample starts the time again, and a precondition error ends the wait.\<close>

theorem idle_wait_exact:
  assumes "span > 0" and "sorted (map fst obs)"
  shows "idle_wait span None obs = Satisfied k source \<longleftrightarrow> k < length obs \<and> snd (obs ! k) = IdleSample False source
    \<and> stable_at span obs k \<and> (\<forall>i < k. \<not> stable_at span obs i \<and> snd (obs ! i) \<noteq> ObservePrecondition)"
  using idle_wait_first [OF assms, of None k source] by (auto simp: ends_first_def stable_from_def)

theorem idle_wait_exact_witness:
  "idle_wait 5 None [(0, IdleSample False ''a''), (4, ObserveFailed), (6, IdleSample False ''a''), (11, IdleSample False ''b'')] = Satisfied 3 ''b''
   \<and> stable_at 5 [(0, IdleSample False ''a''), (4, ObserveFailed), (6, IdleSample False ''a''), (11, IdleSample False ''b'')] 3"
proof -
  let ?obs = "[(0, IdleSample False ''a''), (4, ObserveFailed), (6, IdleSample False ''a''), (11, IdleSample False ''b'')]"
  have w: "idle_wait 5 None ?obs = Satisfied 3 ''b''" by simp
  then show ?thesis using idle_wait_exact [of 5 ?obs 3 "''b''"] by simp
qed

text \<open>The poll is never shorter than ten milliseconds nor longer than a tenth of a second.\<close>

lemma idle_poll_range: "10000000 \<le> idle_poll span \<and> idle_poll span \<le> 100000000"
  by (simp add: idle_poll_def idlePollInterval_def Let_def)

section \<open>Commits and several conditions\<close>

lemma commit_wait_exact:
  assumes "commit_wait baseline ks = Satisfied n r"
  shows "n < length ks \<and> cr_Baseline r = baseline \<and> ck_Head (ks ! n) = Some (cr_Commit r) \<and> cr_Commit r \<noteq> baseline
    \<and> ck_Ancestor (ks ! n) = Some (\<not> cr_HistoryRewritten r) \<and> (\<forall>i < n. ck_Head (ks ! i) = Some baseline)"
  using assms
proof (induction ks arbitrary: n)
  case (Cons k ks)
  show ?case
  proof (cases "commit_check baseline k")
    case (Inr x)
    show ?thesis
    proof (cases x)
      case None
      then obtain n' where n: "n = Suc n'" "commit_wait baseline ks = Satisfied n' r"
        using Cons.prems Inr by (auto simp: later_Satisfied)
      have "ck_Head k = Some baseline" using Inr None by (auto simp: commit_check_def split: option.splits if_splits)
      then show ?thesis using Cons.IH [OF n(2)] n(1) by (auto simp: less_Suc_eq_0_disj)
    next
      case (Some q)
      then show ?thesis using Cons.prems Inr
        by (auto simp: commit_check_def historyRewritten_def split: option.splits if_splits)
    qed
  qed (use Cons.prems in simp)
qed simp

text \<open>The first condition that is met decides, unless the context ended first; all failing gives every error, in order.\<close>

lemma WaitAny_first:
  assumes "\<forall>y \<in> set before. \<exists>e. y = (Unmet e, over)"
  shows "WaitAny (before @ (Met r, b) # rest) ended cancelled = AnyMet r"
proof -
  have "wait_outcomes seen (before @ (Met r, b) # rest) ended cancelled = AnyMet r" for seen
    using assms by (induction before arbitrary: seen) auto
  then show ?thesis by (simp add: WaitAny_def)
qed

lemma WaitAny_all_fail:
  assumes "es \<noteq> []"
  shows "WaitAny (map (\<lambda>e. (Unmet e, False)) es) False cancelled = AnyFailed es"
proof -
  have "wait_outcomes seen (map (\<lambda>e. (Unmet e, False)) es) False cancelled = AnyFailed (rev seen @ es)" for seen
    by (induction es arbitrary: seen) simp_all
  from this [of "[]"] show ?thesis using assms by (simp add: WaitAny_def)
qed

text \<open>A burst ends with its window or its context, whatever number of wakes it has.\<close>

lemma coalesce_burst: "window > 0 \<Longrightarrow> coalesce window (replicate n Woken @ WindowOver # es) = Some (True, es)"
  by (induction n) (simp_all add: coalesce_def)

end
