(* ===== verification/Reflow.thy ===== *)
theory Reflow
  imports Go_Text
begin

text \<open>
  Reflowing a serialized screen to another width: \<open>runtime/internal/mirror/reflow.go\<close>.  A line becomes glyphs (the bytes of a
  rune, its display width and the colours in force), the glyphs are wrapped, and each row is padded and written with its
  colours.  The four regular expressions are deterministic, so matching one is a scan.
\<close>

section \<open>Escape sequences\<close>

abbreviation ESC :: char where "ESC \<equiv> CHR 0x1B"

definition in_range :: "nat \<Rightarrow> nat \<Rightarrow> char \<Rightarrow> bool" where
  "in_range a b c \<longleftrightarrow> a \<le> byte_of c \<and> byte_of c \<le> b"

text \<open>Each scan is given the text from the escape on and returns the length of the match.\<close>

definition sgr_param :: "char \<Rightarrow> bool" where
  "sgr_param c \<longleftrightarrow> in_range 48 57 c \<or> c = CHR '';''"

definition sgrRE :: "string \<Rightarrow> nat option" where
  "sgrRE s = (case s of
     e # b # cs \<Rightarrow> if e = ESC \<and> b = CHR ''['' then
         (let ps = takeWhile sgr_param cs; rest = dropWhile sgr_param cs
          in case rest of f # _ \<Rightarrow> if f = CHR ''m'' then Some (length ps + 3) else None | [] \<Rightarrow> None)
       else None
   | _ \<Rightarrow> None)"

definition csiRE :: "string \<Rightarrow> nat option" where
  "csiRE s = (case s of
     e # b # cs \<Rightarrow> if e = ESC \<and> b = CHR ''['' then
         (let ps = takeWhile (in_range 0x30 0x3F) cs; r1 = dropWhile (in_range 0x30 0x3F) cs;
              is = takeWhile (in_range 0x20 0x2F) r1; r2 = dropWhile (in_range 0x20 0x2F) r1
          in case r2 of f # _ \<Rightarrow> if in_range 0x40 0x7E f then Some (length ps + length is + 3) else None | [] \<Rightarrow> None)
       else None
   | _ \<Rightarrow> None)"

definition oscRE :: "string \<Rightarrow> nat option" where
  "oscRE s = (case s of
     e # b # cs \<Rightarrow> if e = ESC \<and> b = CHR '']'' then
         (let body = takeWhile (\<lambda>c. c \<noteq> CHR 0x07) cs; rest = dropWhile (\<lambda>c. c \<noteq> CHR 0x07) cs
          in case rest of _ # _ \<Rightarrow> Some (length body + 3) | [] \<Rightarrow> None)
       else None
   | _ \<Rightarrow> None)"

definition matchEscape :: "string \<Rightarrow> nat option" where
  "matchEscape s = (case csiRE s of Some n \<Rightarrow> Some n | None \<Rightarrow> oscRE s)"

text \<open>\<open>strconv.Atoi\<close> of a string of digits: out of range is an error.\<close>

definition atoi_digits :: "string \<Rightarrow> nat" where
  "atoi_digits ds = foldl (\<lambda>n c. n * 10 + (byte_of c - 48)) 0 ds"

definition forward_spaces :: "string \<Rightarrow> string" where
  "forward_spaces ds = (if atoi_digits ds < 2 ^ 63 then replicate (atoi_digits ds) (CHR '' '') else [])"

fun expandCursorForward :: "string \<Rightarrow> string" where
  "expandCursorForward [] = []"
| "expandCursorForward (c # cs) =
     (if c = ESC \<and> cs \<noteq> [] \<and> hd cs = CHR ''['' then
        (let ds = takeWhile (in_range 48 57) (tl cs); rest = dropWhile (in_range 48 57) (tl cs)
         in if ds \<noteq> [] \<and> rest \<noteq> [] \<and> hd rest = CHR ''C'' then forward_spaces ds @ expandCursorForward (drop (length ds + 2) cs)
            else c # expandCursorForward cs)
      else c # expandCursorForward cs)"

fun stripANSI :: "string \<Rightarrow> string" where
  "stripANSI [] = []"
| "stripANSI (c # cs) =
     (if c = ESC then (case matchEscape (c # cs) of Some n \<Rightarrow> stripANSI (drop (n - 1) cs) | None \<Rightarrow> stripANSI cs)
      else (let n = snd (decode_rune c cs) in (c # take (n - 1) cs) @ stripANSI (drop (n - 1) cs)))"

section \<open>Widths\<close>

definition wide_ranges :: "(nat \<times> nat) list" where
  "wide_ranges = [(0x1100, 0x115f), (0x2e80, 0x303e), (0x3041, 0x33ff), (0x3400, 0x4dbf), (0x4e00, 0x9fff), (0xa000, 0xa4cf),
     (0xac00, 0xd7a3), (0xf900, 0xfaff), (0xfe30, 0xfe4f), (0xff00, 0xff60), (0xffe0, 0xffe6), (0x1f300, 0x1faff), (0x20000, 0x3fffd)]"

definition charWidth :: "nat \<Rightarrow> nat" where
  "charWidth cp =
     (if cp = 0 \<or> cp < 0x20 \<or> (cp \<ge> 0x7f \<and> cp < 0xa0) then 0
      else if 0x0300 \<le> cp \<and> cp \<le> 0x036f then 0
      else if list_ex (\<lambda>(a, b). a \<le> cp \<and> cp \<le> b) wide_ranges then 2
      else 1)"

definition visibleWidth :: "string \<Rightarrow> nat" where
  "visibleWidth s = (\<Sum>r \<leftarrow> runes s. charWidth (fst r))"

definition hasBoxDrawing :: "string \<Rightarrow> bool" where
  "hasBoxDrawing s = has_rune (\<lambda>r. (0x2500 \<le> r \<and> r \<le> 0x257F) \<or> (0x2580 \<le> r \<and> r \<le> 0x259F)) s"

definition ws_char :: "char \<Rightarrow> bool" where
  "ws_char c \<longleftrightarrow> c \<in> set [CHR '' '', CHR 0x09, CHR 0x0D, CHR 0x0A, CHR 0x0B, CHR 0x0C]"

definition isPipeTableRow :: "string \<Rightarrow> bool" where
  "isPipeTableRow s =
     (let trimmed = rev (dropWhile ws_char (rev s))
      in trimmed \<noteq> [] \<and> last trimmed = CHR ''|'' \<and> length (filter (\<lambda>c. c = CHR ''|'') trimmed) \<ge> 3)"

section \<open>Glyphs\<close>

record glyph =
  gl_Sgr :: string
  gl_Ch :: string
  gl_W :: nat

definition next_sgr :: "string \<Rightarrow> string \<Rightarrow> string" where
  "next_sgr sgr found = (let inner = take (length found - 3) (drop 2 found)
     in if inner = [] \<or> inner = ''0'' then [] else sgr @ found)"

fun tokenizeLine :: "string \<Rightarrow> string \<Rightarrow> glyph list" where
  "tokenizeLine sgr [] = []"
| "tokenizeLine sgr (c # cs) =
     (if c = ESC then
        (case sgrRE (c # cs) of
           Some n \<Rightarrow> tokenizeLine (next_sgr sgr (take n (c # cs))) (drop (n - 1) cs)
         | None \<Rightarrow> (case matchEscape (c # cs) of Some n \<Rightarrow> tokenizeLine sgr (drop (n - 1) cs) | None \<Rightarrow> tokenizeLine sgr cs))
      else (let (r, n) = decode_rune c cs
            in \<lparr>gl_Sgr = sgr, gl_Ch = c # take (n - 1) cs, gl_W = charWidth r\<rparr> # tokenizeLine sgr (drop (n - 1) cs)))"

definition sgr_reset :: string where "sgr_reset = ESC # ''[0m''"

fun render_from :: "string \<Rightarrow> glyph list \<Rightarrow> string" where
  "render_from active [] = (if active \<noteq> [] then sgr_reset else [])"
| "render_from active (g # gs) =
     (if gl_Sgr g \<noteq> active then (if active \<noteq> [] then sgr_reset else []) @ gl_Sgr g else []) @ gl_Ch g @ render_from (gl_Sgr g) gs"

definition renderGlyphs :: "glyph list \<Rightarrow> string" where
  "renderGlyphs gs = render_from [] gs"

definition glyphWidth :: "glyph list \<Rightarrow> nat" where
  "glyphWidth gs = (\<Sum>g \<leftarrow> gs. gl_W g)"

definition is_space_glyph :: "glyph \<Rightarrow> bool" where
  "is_space_glyph g \<longleftrightarrow> gl_Ch g = '' ''"

section \<open>Wrapping\<close>

record wrap =
  wr_Lines :: "glyph list list"
  wr_Cur :: "glyph list"
  wr_Width :: nat
  wr_Break :: "nat option"
  wr_First :: bool

definition last_space :: "glyph list \<Rightarrow> nat option" where
  "last_space gs = fold (\<lambda>j b. if is_space_glyph (gs ! j) then Some j else b) [0 ..< length gs] None"

definition wrap_limit :: "nat \<Rightarrow> nat \<Rightarrow> bool \<Rightarrow> nat" where
  "wrap_limit width indent first = (if first then width else max 1 (width - indent))"

definition wrap_break :: "wrap \<Rightarrow> wrap" where
  "wrap_break w =
     (case wr_Break w of
        Some b \<Rightarrow> let tail = drop (b + 1) (wr_Cur w)
          in w\<lparr>wr_Lines := wr_Lines w @ [take b (wr_Cur w)], wr_Cur := tail, wr_Width := glyphWidth tail, wr_Break := last_space tail, wr_First := False\<rparr>
      | None \<Rightarrow> w\<lparr>wr_Lines := wr_Lines w @ [wr_Cur w], wr_Cur := [], wr_Width := 0, wr_First := False\<rparr>)"

definition wrap_step :: "nat \<Rightarrow> nat \<Rightarrow> wrap \<Rightarrow> glyph \<Rightarrow> wrap" where
  "wrap_step width indent w g =
     (let w1 = (if wr_Width w + gl_W g > wrap_limit width indent (wr_First w) \<and> wr_Cur w \<noteq> [] then wrap_break w else w);
          cur = wr_Cur w1 @ [g]
      in w1\<lparr>wr_Cur := cur, wr_Width := wr_Width w1 + gl_W g,
           wr_Break := (if is_space_glyph g then Some (length cur - 1) else wr_Break w1)\<rparr>)"

definition wrap_start :: wrap where
  "wrap_start = \<lparr>wr_Lines = [], wr_Cur = [], wr_Width = 0, wr_Break = None, wr_First = True\<rparr>"

definition wrapGlyphs :: "glyph list \<Rightarrow> nat \<Rightarrow> nat \<Rightarrow> glyph list list" where
  "wrapGlyphs gs width indent =
     (if gs = [] then [[]]
      else let w = foldl (wrap_step width indent) wrap_start gs in wr_Lines w @ [wr_Cur w])"

section \<open>Lines\<close>

definition space_glyph :: "string \<Rightarrow> glyph" where
  "space_glyph sgr = \<lparr>gl_Sgr = sgr, gl_Ch = '' '', gl_W = 1\<rparr>"

definition pad_segment :: "nat \<Rightarrow> glyph list \<Rightarrow> glyph list" where
  "pad_segment limit gs =
     (if gs \<noteq> [] \<and> glyphWidth gs < limit then gs @ replicate (limit - glyphWidth gs) (space_glyph (gl_Sgr (last gs))) else gs)"

definition leading_indent :: "string \<Rightarrow> string" where
  "leading_indent plain = unrunes (takeWhile (\<lambda>r. fst r \<in> {32, 9, 13, 10, 11, 12}) (runes plain))"

text \<open>The indentation and the rows of a line; \<open>None\<close> where the line is left as it is, or is empty.\<close>

definition line_indent :: "string \<Rightarrow> nat \<Rightarrow> bool \<Rightarrow> string" where
  "line_indent plain width preserve =
     (let indent = (if preserve then leading_indent plain else [])
      in if visibleWidth indent > width div 2 then [] else indent)"

definition line_rows :: "string \<Rightarrow> nat \<Rightarrow> string \<Rightarrow> glyph list list" where
  "line_rows line width indent =
     (let iw = visibleWidth indent
      in case wrapGlyphs (tokenizeLine [] line) width iw of
           [] \<Rightarrow> []
         | first # rest \<Rightarrow> pad_segment width first # map (pad_segment (max 1 (width - iw))) rest)"

fun join_text :: "string \<Rightarrow> string list \<Rightarrow> string" where
  "join_text d [] = []"
| "join_text d [w] = w"
| "join_text d (w # ws) = w @ d @ join_text d ws"

definition crlf :: string where "crlf = [CHR 0x0D, CHR 0x0A]"

definition expand_tabs :: "nat \<Rightarrow> string \<Rightarrow> string" where
  "expand_tabs n s = concat (map (\<lambda>c. if c = CHR 0x09 then replicate n (CHR '' '') else [c]) s)"

definition reflowLine :: "string \<Rightarrow> int \<Rightarrow> bool \<Rightarrow> nat \<Rightarrow> string" where
  "reflowLine line0 width0 preserve tabWidth =
     (let width = nat (max 4 width0); line = expand_tabs tabWidth line0; plain = stripANSI line
      in if line0 = [] then []
         else if trim_space plain = [] then []
         else if visibleWidth plain > width \<and> (hasBoxDrawing plain \<or> isPipeTableRow plain) then line
         else let indent = line_indent plain width preserve
              in case line_rows line width indent of
                   [] \<Rightarrow> []
                 | first # rest \<Rightarrow> join_text crlf (renderGlyphs first # map (\<lambda>gs. indent @ renderGlyphs gs) rest))"

definition ReflowANSI :: "string \<Rightarrow> int \<Rightarrow> string" where
  "ReflowANSI text width =
     join_text crlf (map (\<lambda>line. reflowLine line width True 8) (split_on (CHR 0x0A) (replace_crlf (expandCursorForward text))))"

section \<open>Nothing but a space is lost\<close>

text \<open>The lines give the glyphs back, joined by nothing or by the space at which the line was broken.\<close>

fun rejoins :: "glyph list list \<Rightarrow> glyph list \<Rightarrow> bool" where
  "rejoins [] gs = (gs = [])"
| "rejoins [l] gs = (gs = l)"
| "rejoins (l # ls) gs \<longleftrightarrow> take (length l) gs = l \<and>
     (rejoins ls (drop (length l) gs)
      \<or> (case drop (length l) gs of [] \<Rightarrow> False | g # rest \<Rightarrow> is_space_glyph g \<and> rejoins ls rest))"

lemma rejoins_Cons: "ls \<noteq> [] \<Longrightarrow> rejoins (l # ls) gs \<longleftrightarrow>
   (\<exists>rest. gs = l @ rest \<and> rejoins ls rest) \<or> (\<exists>g rest. gs = l @ g # rest \<and> is_space_glyph g \<and> rejoins ls rest)"
proof (cases ls)
  case (Cons l' ls')
  have t: "take (length l) gs = l \<longleftrightarrow> (\<exists>rest. gs = l @ rest)" by (metis append_eq_conv_conj append_take_drop_id)
  show ?thesis unfolding Cons rejoins.simps t by (auto split: list.splits)
qed simp

lemma rejoins_snoc: "rejoins (ls @ [cur]) gs \<Longrightarrow> rejoins (ls @ [cur @ new]) (gs @ new)"
proof (induction ls arbitrary: gs)
  case (Cons l ls)
  have ih: "rejoins (ls @ [cur]) rest \<Longrightarrow> rejoins (ls @ [cur @ new]) (rest @ new)" for rest by (rule Cons.IH)
  show ?case using Cons.prems by (simp add: rejoins_Cons) (metis append.assoc append_Cons ih)
qed simp

lemma rejoins_split: "rejoins (ls @ [a @ b]) gs \<Longrightarrow> rejoins (ls @ [a, b]) gs"
proof (induction ls arbitrary: gs)
  case (Cons l ls)
  then show ?case by (simp add: rejoins_Cons) metis
qed (simp add: rejoins_Cons)

lemma rejoins_break: "rejoins (ls @ [a @ s # b]) gs \<Longrightarrow> is_space_glyph s \<Longrightarrow> rejoins (ls @ [a, b]) gs"
proof (induction ls arbitrary: gs)
  case (Cons l ls)
  then show ?case by (simp add: rejoins_Cons) metis
qed (auto simp: rejoins_Cons)

lemma last_space_snoc: "last_space (gs @ [g]) = (if is_space_glyph g then Some (length gs) else last_space gs)"
proof -
  have "fold (\<lambda>j b. if is_space_glyph ((gs @ [g]) ! j) then Some j else b) [0 ..< length gs] x
      = fold (\<lambda>j b. if is_space_glyph (gs ! j) then Some j else b) [0 ..< length gs] x" for x
    by (rule fold_cong) (auto simp: nth_append fun_eq_iff)
  then show ?thesis by (simp add: last_space_def)
qed

lemma last_space_Nil [simp]: "last_space [] = None"
  by (simp add: last_space_def)

lemma last_space_spec:
  "(last_space gs = None \<longrightarrow> (\<forall>g \<in> set gs. \<not> is_space_glyph g))
   \<and> (\<forall>b. last_space gs = Some b \<longrightarrow> b < length gs \<and> is_space_glyph (gs ! b) \<and> (\<forall>g \<in> set (drop (b + 1) gs). \<not> is_space_glyph g))"
  by (induction gs rule: rev_induct) (auto simp: last_space_snoc nth_append split: if_splits)

lemma last_space_split:
  assumes "last_space gs = Some b"
  shows "gs = take b gs @ gs ! b # drop (b + 1) gs" "is_space_glyph (gs ! b)" "\<forall>g \<in> set (drop (b + 1) gs). \<not> is_space_glyph g"
  using last_space_spec [of gs] assms id_take_nth_drop [of b gs] by auto

lemma last_space_after:
  assumes "i < length gs" "is_space_glyph (gs ! i)"
  shows "\<exists>b \<ge> i. last_space gs = Some b"
proof (cases "last_space gs")
  case None
  then show ?thesis using last_space_spec [of gs] assms nth_mem by blast
next
  case (Some b)
  have "\<not> i > b"
  proof
    assume "i > b"
    then have "gs ! i \<in> set (drop (b + 1) gs)" using assms(1) using nth_mem [of "i - (b + 1)" "drop (b + 1) gs"] by simp
    then show False using last_space_split(3) [OF Some] assms(2) by blast
  qed
  then show ?thesis using Some by auto
qed

lemma rejoins_set: "rejoins (ls @ [cur]) gs \<Longrightarrow> set cur \<subseteq> set gs"
proof (induction ls arbitrary: gs)
  case (Cons l ls)
  then show ?case by (simp add: rejoins_Cons) fastforce
qed simp

definition wrap_inv :: "glyph list \<Rightarrow> wrap \<Rightarrow> bool" where
  "wrap_inv gs w \<longleftrightarrow> rejoins (wr_Lines w @ [wr_Cur w]) gs \<and> wr_Width w = glyphWidth (wr_Cur w) \<and> wr_Break w = last_space (wr_Cur w)"

lemma glyphWidth_simps [simp]: "glyphWidth [] = 0" "glyphWidth (g # gs) = gl_W g + glyphWidth gs"
  "glyphWidth (gs @ hs) = glyphWidth gs + glyphWidth hs"
  by (simp_all add: glyphWidth_def)

lemma wrap_break_inv:
  assumes "wrap_inv gs w"
  shows "wrap_inv gs (wrap_break w)"
proof (cases "wr_Break w")
  case None
  then show ?thesis using assms rejoins_split [of "wr_Lines w" "wr_Cur w" "[]" gs] by (simp add: wrap_inv_def wrap_break_def)
next
  case (Some b)
  then have l: "last_space (wr_Cur w) = Some b" using assms by (simp add: wrap_inv_def)
  have "rejoins (wr_Lines w @ [take b (wr_Cur w) @ wr_Cur w ! b # drop (b + 1) (wr_Cur w)]) gs"
    using assms last_space_split(1) [OF l] by (simp add: wrap_inv_def)
  from rejoins_break [OF this last_space_split(2) [OF l]] show ?thesis
    using Some by (simp add: wrap_inv_def wrap_break_def Let_def)
qed

lemma wrap_step_inv:
  assumes "wrap_inv gs w"
  shows "wrap_inv (gs @ [g]) (wrap_step width indent w g)"
proof -
  have add: "wrap_inv (gs @ [g]) (w1\<lparr>wr_Cur := wr_Cur w1 @ [g], wr_Width := wr_Width w1 + gl_W g,
      wr_Break := (if is_space_glyph g then Some (length (wr_Cur w1 @ [g]) - 1) else wr_Break w1)\<rparr>)" if "wrap_inv gs w1" for w1
    using that rejoins_snoc [of "wr_Lines w1" "wr_Cur w1" gs "[g]"] by (simp add: wrap_inv_def last_space_snoc)
  show ?thesis unfolding wrap_step_def Let_def
    by (rule add) (simp add: assms wrap_break_inv [OF assms])
qed

lemma foldl_wrap_inv: "wrap_inv gs w \<Longrightarrow> wrap_inv (gs @ hs) (foldl (wrap_step width indent) w hs)"
proof (induction hs arbitrary: gs w)
  case (Cons h hs)
  then show ?case using wrap_step_inv [of gs w h width indent] by (simp add: Cons.IH [of "gs @ [h]", simplified])
qed simp

lemma wrapGlyphs_rejoins: "rejoins (wrapGlyphs gs width indent) gs"
proof -
  have "wrap_inv [] wrap_start" by (simp add: wrap_inv_def wrap_start_def)
  from foldl_wrap_inv [OF this, of gs width indent] show ?thesis by (simp add: wrapGlyphs_def wrap_inv_def Let_def)
qed

section \<open>The width of a row\<close>

text \<open>
  A line breaks at its last space, and the glyph that did not fit is put after the tail without another look at the limit.
  \<open>m\<close> is the width of the widest glyph.  The tail holds no space; with an indentation it can fill the limit of a
  continuation row, so that the glyph sticks out; without one it is at least a column shorter.
\<close>

definition overhang :: "nat \<Rightarrow> nat \<Rightarrow> nat" where
  "overhang m indent = (if indent = 0 then m - 1 else m)"

definition width_inv :: "nat \<Rightarrow> nat \<Rightarrow> nat \<Rightarrow> glyph list \<Rightarrow> wrap \<Rightarrow> bool" where
  "width_inv m width indent gs w \<longleftrightarrow>
     (if wr_First w then wr_Lines w = [] \<and> wr_Cur w = gs \<and> glyphWidth gs \<le> width
      else wr_Lines w \<noteq> [] \<and> glyphWidth (hd (wr_Lines w)) \<le> width
        \<and> (\<forall>l \<in> set (tl (wr_Lines w)). glyphWidth l \<le> width - indent + overhang m indent)
        \<and> (glyphWidth (wr_Cur w) \<le> width - indent
           \<or> (glyphWidth (wr_Cur w) \<le> width - indent + overhang m indent \<and> (\<forall>g \<in> set (butlast (wr_Cur w)). \<not> is_space_glyph g))))"

text \<open>The glyphs begin with an indentation of that width: spaces and glyphs that take no room.\<close>

definition indented :: "nat \<Rightarrow> glyph list \<Rightarrow> bool" where
  "indented indent gs \<longleftrightarrow> (\<exists>n \<le> length gs. glyphWidth (take n gs) = indent \<and> (\<forall>g \<in> set (take n gs). is_space_glyph g \<or> gl_W g = 0))"

definition glyphs_ok :: "nat \<Rightarrow> glyph list \<Rightarrow> bool" where
  "glyphs_ok m gs \<longleftrightarrow> (\<forall>g \<in> set gs. gl_W g \<le> m \<and> (is_space_glyph g \<longrightarrow> gl_W g = 1))"

lemma glyphWidth_take_mono: "i \<le> j \<Longrightarrow> glyphWidth (take i gs) \<le> glyphWidth (take j gs)"
proof -
  assume "i \<le> j"
  then have "take j gs = take i gs @ drop i (take j gs)" by (metis append_take_drop_id min.absorb1 take_take)
  then show ?thesis by (metis glyphWidth_simps(3) le_add1)
qed

lemma last_wide: "glyphWidth gs > 0 \<Longrightarrow> \<exists>i < length gs. gl_W (gs ! i) > 0 \<and> glyphWidth (take (Suc i) gs) = glyphWidth gs"
proof (induction gs rule: rev_induct)
  case (snoc g gs)
  show ?case
  proof (cases "gl_W g > 0")
    case True
    then show ?thesis by (intro exI [of _ "length gs"]) simp
  next
    case False
    then obtain i where "i < length gs" "gl_W (gs ! i) > 0" "glyphWidth (take (Suc i) gs) = glyphWidth gs"
      using snoc by auto
    then show ?thesis using False by (intro exI [of _ i]) (simp add: nth_append)
  qed
qed simp

text \<open>The break of the first row is at or after the end of the indentation.\<close>

lemma first_tail:
  assumes "indented indent (cur @ rest)" "indent < glyphWidth cur" "last_space cur = Some b" "glyphs_ok m cur"
  shows "glyphWidth (drop (b + 1) cur) + (if indent = 0 then 1 else indent) \<le> glyphWidth cur"
proof -
  have split: "glyphWidth cur = glyphWidth (take (b + 1) cur) + glyphWidth (drop (b + 1) cur)"
    by (metis append_take_drop_id glyphWidth_simps(3))
  have b: "b < length cur" "is_space_glyph (cur ! b)" using last_space_spec [of cur] assms(3) by auto
  have one: "glyphWidth (take (b + 1) cur) \<ge> 1"
    using b assms(4) nth_mem [OF b(1)] by (simp add: take_Suc_conv_app_nth glyphs_ok_def)
  show ?thesis
  proof (cases "indent = 0")
    case True
    then show ?thesis using split one by simp
  next
    case False
    obtain n where n: "n \<le> length (cur @ rest)" "glyphWidth (take n (cur @ rest)) = indent"
      "\<forall>g \<in> set (take n (cur @ rest)). is_space_glyph g \<or> gl_W g = 0" using assms(1) by (auto simp: indented_def)
    have nc: "n \<le> length cur"
    proof (rule ccontr)
      assume "\<not> n \<le> length cur"
      then have "glyphWidth cur \<le> glyphWidth (take n (cur @ rest))" using glyphWidth_take_mono [of "length cur" n "cur @ rest"] by simp
      then show False using n(2) assms(2) by simp
    qed
    then have t: "take n (cur @ rest) = take n cur" by simp
    obtain i where i: "i < length (take n cur)" "gl_W (take n cur ! i) > 0" "glyphWidth (take (Suc i) (take n cur)) = indent"
      using last_wide [of "take n cur"] n(2) False t by (metis neq0_conv)
    have "take n cur ! i \<in> set (take n cur)" using i(1) by (rule nth_mem)
    then have "is_space_glyph (cur ! i)" using n(3) i(1,2) t by fastforce
    then have "i \<le> b" using last_space_after [of i cur] i(1) assms(3) by auto
    then have "glyphWidth (take (Suc i) cur) \<le> glyphWidth (take (b + 1) cur)" by (intro glyphWidth_take_mono) simp
    moreover have "take (Suc i) (take n cur) = take (Suc i) cur" using i(1) by simp
    ultimately show ?thesis using i(3) split False by simp
  qed
qed

lemma glyphWidth_butlast: "glyphWidth (take b gs) \<le> glyphWidth gs"
  by (metis append_take_drop_id glyphWidth_simps(3) le_add1)

lemma glyphs_ok_simps [simp]: "glyphs_ok m (gs @ hs) \<longleftrightarrow> glyphs_ok m gs \<and> glyphs_ok m hs" "glyphs_ok m [g] \<longleftrightarrow> gl_W g \<le> m \<and> (is_space_glyph g \<longrightarrow> gl_W g = 1)"
  by (auto simp: glyphs_ok_def)

text \<open>After a break at a space the tail holds no space and leaves room; after one without a space the row is empty.\<close>

lemma break_cur:
  assumes "wrap_inv gs w"
  shows "(wr_Break w = None \<and> wr_Cur (wrap_break w) = []) \<or> (\<exists>b. last_space (wr_Cur w) = Some b \<and> wr_Cur (wrap_break w) = drop (b + 1) (wr_Cur w)
      \<and> wr_Lines (wrap_break w) = wr_Lines w @ [take b (wr_Cur w)])"
  using assms by (auto simp: wrap_break_def wrap_inv_def Let_def split: option.split)

lemma break_frame: "\<not> wr_First (wrap_break w)" "wr_Lines (wrap_break w) = wr_Lines w @ [case wr_Break w of Some b \<Rightarrow> take b (wr_Cur w) | None \<Rightarrow> wr_Cur w]"
  by (auto simp: wrap_break_def Let_def split: option.split)

lemma wrap_step_width:
  assumes "wrap_inv gs w" "width_inv m width indent gs w" "indented indent (gs @ g # rest)" "glyphs_ok m (gs @ [g])"
    and "1 \<le> m" "m \<le> 2" "4 \<le> width" "indent \<le> width div 2"
  shows "width_inv m width indent (gs @ [g]) (wrap_step width indent w g)"
proof -
  let ?lim = "width - indent" and ?e = "overhang m indent"
  have lim: "wrap_limit width indent f = (if f then width else ?lim)" for f using assms(7,8) by (auto simp: wrap_limit_def)
  have e: "m \<le> ?e + 1" "m \<le> ?lim" using assms(5-8) by (auto simp: overhang_def)
  have w: "wr_Width w = glyphWidth (wr_Cur w)" and b: "wr_Break w = last_space (wr_Cur w)" using assms(1) by (auto simp: wrap_inv_def)
  have g: "gl_W g \<le> m" using assms(4) by simp
  have step: "wr_Cur (wrap_step width indent w g) = wr_Cur w1 @ [g] \<and> wr_Lines (wrap_step width indent w g) = wr_Lines w1
      \<and> wr_First (wrap_step width indent w g) = wr_First w1"
    if "w1 = (if wr_Width w + gl_W g > wrap_limit width indent (wr_First w) \<and> wr_Cur w \<noteq> [] then wrap_break w else w)" for w1
    using that by (simp add: wrap_step_def Let_def)
  show ?thesis
  proof (cases "wr_Width w + gl_W g > wrap_limit width indent (wr_First w) \<and> wr_Cur w \<noteq> []")
    case False
    have s: "wr_Cur (wrap_step width indent w g) = wr_Cur w @ [g]" "wr_Lines (wrap_step width indent w g) = wr_Lines w"
      "wr_First (wrap_step width indent w g) = wr_First w" using step [of w] False by auto
    note f = False
    show ?thesis
    proof (cases "wr_First w")
      case True
      have "glyphWidth gs + gl_W g \<le> width"
        using f True assms(2) w lim e(2) g assms(5-8) by (auto simp: width_inv_def)
      then show ?thesis using s f True assms(2) by (simp add: width_inv_def)
    next
      case no: False
      have "glyphWidth (wr_Cur w @ [g]) \<le> ?lim" using f no w lim e(2) g by (cases "wr_Cur w = []") auto
      then show ?thesis using s f no assms(2) by (simp add: width_inv_def)
    qed
  next
    case True
    note s = step [of "wrap_break w"]
    have c: "wr_Cur (wrap_step width indent w g) = wr_Cur (wrap_break w) @ [g]" "wr_Lines (wrap_step width indent w g) = wr_Lines (wrap_break w)"
      "\<not> wr_First (wrap_step width indent w g)" using s True break_frame(1) [of w] by auto
    let ?head = "case wr_Break w of Some b \<Rightarrow> take b (wr_Cur w) | None \<Rightarrow> wr_Cur w"
    have hd: "glyphWidth ?head \<le> glyphWidth (wr_Cur w)" using glyphWidth_butlast by (auto split: option.split)
    have lines: "wr_Lines (wrap_break w) \<noteq> [] \<and> glyphWidth (List.hd (wr_Lines (wrap_break w))) \<le> width
        \<and> (\<forall>l \<in> set (tl (wr_Lines (wrap_break w))). glyphWidth l \<le> ?lim + ?e)"
      using assms(2) hd break_frame(2) [of w] by (cases "wr_Lines w") (auto simp: width_inv_def split: if_splits)
    have cur: "glyphWidth (wr_Cur (wrap_break w)) + gl_W g \<le> ?lim
        \<or> (glyphWidth (wr_Cur (wrap_break w)) + gl_W g \<le> ?lim + ?e \<and> (\<forall>x \<in> set (wr_Cur (wrap_break w)). \<not> is_space_glyph x))"
      using break_cur [OF assms(1)]
    proof (elim disjE exE conjE)
      assume "wr_Cur (wrap_break w) = []"
      then show ?thesis using e(2) g by simp
    next
      fix k assume k: "last_space (wr_Cur w) = Some k" "wr_Cur (wrap_break w) = drop (k + 1) (wr_Cur w)"
      have nospace: "\<forall>x \<in> set (drop (k + 1) (wr_Cur w)). \<not> is_space_glyph x" using last_space_split(3) [OF k(1)] .
      have "glyphWidth (drop (k + 1) (wr_Cur w)) + m \<le> ?lim + ?e \<or> wr_Cur (wrap_break w) = []"
      proof (cases "wr_First w")
        case fst: True
        then have cg: "wr_Cur w = gs" "glyphWidth gs \<le> width" using assms(2) by (auto simp: width_inv_def)
        have "indent < glyphWidth gs" using True fst w cg lim g assms(6-8) by auto
        then have "glyphWidth (drop (k + 1) gs) + (if indent = 0 then 1 else indent) \<le> glyphWidth gs"
          using first_tail [of indent gs "g # rest" k m] assms(3,4) k(1) cg(1) by simp
        then show ?thesis using cg assms(5) by (auto simp: overhang_def split: if_splits)
      next
        case no: False
        have sp: "wr_Cur w = take k (wr_Cur w) @ wr_Cur w ! k # drop (k + 1) (wr_Cur w)" "is_space_glyph (wr_Cur w ! k)"
          using last_space_split [OF k(1)] by auto
        have kl: "k < length (wr_Cur w)" using last_space_spec [of "wr_Cur w"] k(1) by auto
        show ?thesis
        proof (cases "glyphWidth (wr_Cur w) \<le> ?lim")
          case True
          have "set (wr_Cur w) \<subseteq> set gs" using assms(1) rejoins_set unfolding wrap_inv_def by blast
          then have "wr_Cur w ! k \<in> set gs" using nth_mem [OF kl] by blast
          then have "gl_W (wr_Cur w ! k) = 1" using sp(2) assms(4) by (simp add: glyphs_ok_def)
          then have "glyphWidth (drop (k + 1) (wr_Cur w)) + 1 \<le> ?lim" using True sp(1) by (metis add.commute add.left_commute glyphWidth_simps(2,3) le_add1 le_trans)
          then show ?thesis using e(1) by linarith
        next
          case False
          then have "\<forall>x \<in> set (butlast (wr_Cur w)). \<not> is_space_glyph x" using assms(2) no by (simp add: width_inv_def)
          moreover have "wr_Cur w ! k \<in> set (butlast (wr_Cur w))" if "k < length (wr_Cur w) - 1"
            using that nth_mem [of k "butlast (wr_Cur w)"] by (simp add: nth_butlast)
          ultimately have "k = length (wr_Cur w) - 1" using sp(2) kl by force
          then show ?thesis using k(2) by simp
        qed
      qed
      then show ?thesis using k(2) nospace g e(2) by auto
    qed
    show ?thesis using lines cur c by (auto simp: width_inv_def)
  qed
qed

lemma foldl_wrap_width:
  assumes "1 \<le> m" "m \<le> 2" "4 \<le> width" "indent \<le> width div 2"
  shows "wrap_inv gs w \<Longrightarrow> width_inv m width indent gs w \<Longrightarrow> indented indent (gs @ hs) \<Longrightarrow> glyphs_ok m (gs @ hs)
    \<Longrightarrow> width_inv m width indent (gs @ hs) (foldl (wrap_step width indent) w hs)"
proof (induction hs arbitrary: gs w)
  case (Cons h hs)
  have "width_inv m width indent (gs @ [h]) (wrap_step width indent w h)"
    by (rule wrap_step_width [OF Cons.prems(1,2,3) _ assms]) (use Cons.prems(4) in \<open>auto simp: glyphs_ok_def\<close>)
  from Cons.IH [OF wrap_step_inv [OF Cons.prems(1)] this] show ?case using Cons.prems(3,4) by simp
qed simp

lemma wrapGlyphs_widths:
  assumes "1 \<le> m" "m \<le> 2" "4 \<le> width" "indent \<le> width div 2" "indented indent gs" "glyphs_ok m gs" "wrapGlyphs gs width indent = row # rest"
  shows "glyphWidth row \<le> width" "l \<in> set rest \<Longrightarrow> glyphWidth l \<le> width - indent + overhang m indent"
proof -
  let ?w = "foldl (wrap_step width indent) wrap_start gs"
  have "width_inv m width indent ([] @ gs) ?w"
    by (rule foldl_wrap_width [OF assms(1-4)]) (use assms(5,6) in \<open>simp_all add: wrap_inv_def wrap_start_def width_inv_def\<close>)
  then have i: "width_inv m width indent gs ?w" by simp
  show "glyphWidth row \<le> width"
    using i assms(7) by (cases "wr_Lines ?w") (auto simp: wrapGlyphs_def width_inv_def Let_def split: if_splits)
  show "glyphWidth l \<le> width - indent + overhang m indent" if "l \<in> set rest"
    using i assms(7) that by (cases "wr_Lines ?w") (auto simp: wrapGlyphs_def width_inv_def Let_def split: if_splits)
qed

section \<open>The glyphs of a line\<close>

lemma charWidth_le: "charWidth r \<le> 2"
  by (simp add: charWidth_def)

lemma decode_rune_ascii: "byte_of c < 128 \<Longrightarrow> decode_rune c cs = (byte_of c, 1)"
  by (simp add: decode_rune_def)

lemma mod_nat_sub: "128 \<le> x \<Longrightarrow> x < 192 \<Longrightarrow> x mod 64 = x - (128 :: nat)"
  by (simp add: le_mod_geq)

lemma decode2_high: "194 \<le> b \<Longrightarrow> b < 224 \<Longrightarrow> 128 \<le> fst (decode2 b cs)"
proof -
  assume "194 \<le> b" "b < 224"
  then have "2 \<le> b mod 32" by presburger
  then show ?thesis by (auto simp: decode2_def rune_error_def split: list.split)
qed

lemma decode3_high: "224 \<le> b \<Longrightarrow> b < 240 \<Longrightarrow> 128 \<le> fst (decode3 b cs)"
proof -
  assume b: "224 \<le> b" "b < 240"
  have h: "128 \<le> (b mod 16) * 4096 + (x mod 64) * 64 + y" if "b = 224 \<longrightarrow> 160 \<le> x" "x < 192" for x y
  proof (cases "b = 224")
    case True
    then have "x mod 64 = x - 128" using that by (auto simp: mod_nat_sub)
    then have "2 \<le> x mod 64" using that True by simp
    then show ?thesis by simp
  next
    case False
    then have "1 \<le> b mod 16" using b by presburger
    then show ?thesis by simp
  qed
  show ?thesis using h by (auto simp: decode3_def rune_error_def cont_byte_def split: list.split)
qed

lemma decode4_high: "240 \<le> b \<Longrightarrow> b < 245 \<Longrightarrow> 128 \<le> fst (decode4 b cs)"
proof -
  assume b: "240 \<le> b" "b < 245"
  have h: "128 \<le> (b mod 8) * 262144 + (x mod 64) * 4096 + y + z" if "b = 240 \<longrightarrow> 144 \<le> x" "x < 192" for x y z
  proof (cases "b = 240")
    case True
    then have "x mod 64 = x - 128" using that by (auto simp: mod_nat_sub)
    then have "2 \<le> x mod 64" using that True by simp
    then show ?thesis by simp
  next
    case False
    then have "1 \<le> b mod 8" using b by presburger
    then show ?thesis by simp
  qed
  show ?thesis using h by (auto simp: decode4_def rune_error_def cont_byte_def split: list.split)
qed

lemma decode_rune_high: "128 \<le> byte_of c \<Longrightarrow> 128 \<le> fst (decode_rune c cs)"
  using decode2_high [of "byte_of c" cs] decode3_high [of "byte_of c" cs] decode4_high [of "byte_of c" cs]
  by (simp add: decode_rune_def rune_error_def Let_def)

lemma charWidth_space: "charWidth 32 = 1"
  by (simp add: charWidth_def wide_ranges_def)

lemma glyphs_ok_Cons: "glyphs_ok m (g # gs) \<longleftrightarrow> gl_W g \<le> m \<and> (is_space_glyph g \<longrightarrow> gl_W g = 1) \<and> glyphs_ok m gs"
  by (auto simp: glyphs_ok_def)

lemma tokens_ok: "glyphs_ok 2 (tokenizeLine sgr s)"
proof (induction sgr s rule: tokenizeLine.induct)
  case (2 sgr c cs)
  show ?case
  proof (cases "c = ESC")
    case True
    then show ?thesis using 2 by (simp split: option.split)
  next
    case False
    obtain r n where d: "decode_rune c cs = (r, n)" by fastforce
    have "r = 32" if "c = CHR '' ''" using d that by (simp add: decode_rune_ascii)
    then have "c # take (n - 1) cs = '' '' \<longrightarrow> charWidth r = 1" using charWidth_space by simp
    then show ?thesis using 2(4) [OF False d [symmetric] refl] charWidth_le False d by (simp add: glyphs_ok_Cons is_space_glyph_def)
  qed
qed (simp add: glyphs_ok_def)

text \<open>The white space that a line begins with is the white space that its glyphs begin with.\<close>

lemma ws_char_cases: "ws_char c \<longleftrightarrow> byte_of c \<in> {32, 9, 13, 10, 11, 12}"
proof -
  have "byte_of c = byte_of d \<longleftrightarrow> c = d" for d by (metis char_of_char)
  from this [of "CHR '' ''"] this [of "CHR 0x09"] this [of "CHR 0x0D"] this [of "CHR 0x0A"] this [of "CHR 0x0B"] this [of "CHR 0x0C"]
  show ?thesis by (simp add: ws_char_def)
qed

lemma ws_rune: "fst (decode_rune c cs) \<in> {32, 9, 13, 10, 11, 12} \<longleftrightarrow> ws_char c"
proof (cases "byte_of c < 128")
  case True
  then show ?thesis by (simp add: decode_rune_ascii ws_char_cases)
next
  case False
  then have "128 \<le> fst (decode_rune c cs)" "\<not> ws_char c" using decode_rune_high [of c cs] by (auto simp: ws_char_cases)
  then show ?thesis by auto
qed

lemma ws_decode: "ws_char c \<Longrightarrow> decode_rune c cs = (byte_of c, 1)"
  by (rule decode_rune_ascii) (auto simp: ws_char_cases)

lemma leading_indent_bytes: "leading_indent s = takeWhile ws_char s"
  unfolding leading_indent_def
proof (induction s rule: runes.induct)
  case (2 c cs)
  obtain r n where d: "decode_rune c cs = (r, n)" by fastforce
  show ?case
  proof (cases "ws_char c")
    case True
    then have "r = byte_of c" "n = 1" using ws_decode [OF True, of cs] d by auto
    then show ?thesis using 2 [OF d [symmetric] refl] True d ws_rune [of c cs] by (simp add: unrunes_def)
  next
    case False
    then show ?thesis using ws_rune [of c cs] d by (simp add: unrunes_def)
  qed
qed (simp add: unrunes_def)

definition ws_glyph :: "glyph \<Rightarrow> bool" where
  "ws_glyph g \<longleftrightarrow> ws_char (hd (gl_Ch g))"

lemma ESC_not_ws: "\<not> ws_char ESC"
  by (simp add: ws_char_def)

lemma strip_token:
  assumes "c \<noteq> ESC"
  shows "stripANSI (c # cs) = (c # take (snd (decode_rune c cs) - 1) cs) @ stripANSI (drop (snd (decode_rune c cs) - 1) cs)"
    "tokenizeLine sgr (c # cs) = \<lparr>gl_Sgr = sgr, gl_Ch = c # take (snd (decode_rune c cs) - 1) cs, gl_W = charWidth (fst (decode_rune c cs))\<rparr>
       # tokenizeLine sgr (drop (snd (decode_rune c cs) - 1) cs)"
  using assms by (simp_all add: Let_def split: prod.split)

text \<open>A colour sequence is a control sequence, so both scans skip the same escapes.\<close>

lemma sgr_is_csi: "sgrRE s = Some n \<Longrightarrow> csiRE s = Some n"
proof -
  assume a: "sgrRE s = Some n"
  then obtain cs ps rest where s: "s = ESC # CHR ''['' # cs" "ps = takeWhile sgr_param cs" "dropWhile sgr_param cs = CHR ''m'' # rest" "n = length ps + 3"
    by (auto simp: sgrRE_def Let_def split: list.splits if_splits)
  have sub: "sgr_param c \<Longrightarrow> in_range 0x30 0x3F c" for c by (auto simp: sgr_param_def in_range_def)
  have cs: "cs = ps @ CHR ''m'' # rest" using s(2,3) by (metis takeWhile_dropWhile_id)
  have ps: "\<forall>c \<in> set ps. in_range 0x30 0x3F c" using s(2) sub by (metis set_takeWhileD)
  have m: "\<not> in_range 0x30 0x3F (CHR ''m'')" "\<not> in_range 0x20 0x2F (CHR ''m'')" "in_range 0x40 0x7E (CHR ''m'')" by (simp_all add: in_range_def)
  have "takeWhile (in_range 0x30 0x3F) cs = ps" "dropWhile (in_range 0x30 0x3F) cs = CHR ''m'' # rest"
    using ps m(1) by (simp_all add: cs takeWhile_append2 dropWhile_append2)
  then show ?thesis using s(1,4) m by (simp add: csiRE_def Let_def)
qed

lemma strip_leading:
  "takeWhile ws_char (stripANSI s) = concat (map gl_Ch (takeWhile ws_glyph (tokenizeLine sgr s)))
   \<and> (\<forall>g \<in> set (takeWhile ws_glyph (tokenizeLine sgr s)). \<exists>c. gl_Ch g = [c] \<and> ws_char c \<and> gl_W g = charWidth (byte_of c))"
proof (induction sgr s rule: tokenizeLine.induct)
  case (2 sgr c cs)
  show ?case
  proof (cases "c = ESC")
    case True
    then show ?thesis using 2 sgr_is_csi [of "c # cs"] by (auto simp: matchEscape_def split: option.splits)
  next
    case False
    obtain r n where d: "decode_rune c cs = (r, n)" by fastforce
    note t = strip_token [OF False, of cs] strip_token(2) [OF False, of sgr cs]
    show ?thesis
    proof (cases "ws_char c")
      case True
      then have "r = byte_of c" "n = 1" using ws_decode [OF True, of cs] d by auto
      then show ?thesis using 2(4) [OF False d [symmetric] refl] True d unfolding t by (simp add: ws_glyph_def)
    next
      case no: False
      then show ?thesis unfolding t by (simp add: ws_glyph_def)
    qed
  qed
qed simp

lemma runes_ws: "\<forall>c \<in> set s. ws_char c \<Longrightarrow> runes s = map (\<lambda>c. (byte_of c, [c])) s"
  by (rule runes_ascii) (auto simp: ascii_def list_all_iff ws_char_cases)

lemma visibleWidth_ws: "\<forall>c \<in> set s. ws_char c \<Longrightarrow> visibleWidth s = (\<Sum>c \<leftarrow> s. charWidth (byte_of c))"
  by (simp add: visibleWidth_def runes_ws o_def)

lemma sum_concat: "(\<forall>g \<in> set gs. \<exists>c. gl_Ch g = [c] \<and> gl_W g = charWidth (byte_of c))
   \<Longrightarrow> (\<Sum>c \<leftarrow> concat (map gl_Ch gs). charWidth (byte_of c)) = glyphWidth gs"
  by (induction gs) auto

lemma ws_width: "ws_char c \<Longrightarrow> c = CHR '' '' \<or> charWidth (byte_of c) = 0"
  by (auto simp: ws_char_def charWidth_def)

lemma indentedI: "gs = p @ q \<Longrightarrow> glyphWidth p = n \<Longrightarrow> (\<And>g. g \<in> set p \<Longrightarrow> is_space_glyph g \<or> gl_W g = 0) \<Longrightarrow> indented n gs"
  unfolding indented_def by (intro exI [of _ "length p"]) simp

lemma line_indented: "indented (visibleWidth (leading_indent (stripANSI s))) (tokenizeLine sgr s)"
proof (rule indentedI)
  let ?p = "takeWhile ws_glyph (tokenizeLine sgr s)"
  note l = strip_leading [of s sgr]
  have ws: "\<forall>c \<in> set (takeWhile ws_char (stripANSI s)). ws_char c" using set_takeWhileD by metis
  have "visibleWidth (leading_indent (stripANSI s)) = (\<Sum>c \<leftarrow> concat (map gl_Ch ?p). charWidth (byte_of c))"
    unfolding leading_indent_bytes visibleWidth_ws [OF ws] using l by simp
  also have "\<dots> = glyphWidth ?p" by (rule sum_concat) (use l in blast)
  finally show "glyphWidth ?p = visibleWidth (leading_indent (stripANSI s))" by (rule sym)
  show "tokenizeLine sgr s = ?p @ dropWhile ws_glyph (tokenizeLine sgr s)" by simp
  fix g assume "g \<in> set ?p"
  then obtain c where "gl_Ch g = [c]" "ws_char c" "gl_W g = charWidth (byte_of c)" using l by blast
  then show "is_space_glyph g \<or> gl_W g = 0" using ws_width [of c] by (auto simp: is_space_glyph_def)
qed

lemma not_indented: "indented 0 gs"
  unfolding indented_def by (intro exI [of _ 0]) simp

lemma line_indent_ok:
  "indented (visibleWidth (line_indent (stripANSI line) width preserve)) (tokenizeLine sgr line)
   \<and> visibleWidth (line_indent (stripANSI line) width preserve) \<le> width div 2"
  using line_indented [of line sgr] not_indented by (auto simp: line_indent_def Let_def visibleWidth_def)

section \<open>Properties\<close>

definition widest :: "glyph list \<Rightarrow> nat" where
  "widest gs = (if list_ex (\<lambda>g. gl_W g = 2) gs then 2 else 1)"

lemma widest_ok: "glyphs_ok 2 gs \<Longrightarrow> glyphs_ok (widest gs) gs"
  by (fastforce simp: glyphs_ok_def widest_def list_ex_iff)

lemma glyphWidth_replicate: "glyphWidth (replicate n (space_glyph s)) = n"
  by (induction n) (simp_all add: space_glyph_def)

lemma pad_width: "glyphWidth (pad_segment limit gs) = (if gs = [] then 0 else max limit (glyphWidth gs))"
  by (auto simp: pad_segment_def glyphWidth_replicate)

definition padded :: "glyph list \<Rightarrow> glyph list \<Rightarrow> bool" where
  "padded l r \<longleftrightarrow> (\<exists>n s. r = l @ replicate n (space_glyph s))"

lemma padded_pad: "padded l (pad_segment limit l)"
  unfolding padded_def pad_segment_def by (metis append_Nil2 replicate_0)

text \<open>C37: every row of a reflowed line is at least as wide as asked unless it is empty, the first one is no wider, and a
  continuation row, its indentation included, sticks out by at most the overhang: nothing for single-width text that is not
  indented, one column for wide or for indented text, two for both.  Taken together and without their padding the rows are the
  glyphs of the line, in order, with at most the space at which each row was broken missing.\<close>

theorem reflow_rows:
  assumes "4 \<le> width" and "indent = line_indent (stripANSI line) width preserve" and "line_rows line width indent = row # rest"
  shows "(row \<noteq> [] \<longrightarrow> glyphWidth row = width)
    \<and> (\<forall>r \<in> set rest. r \<noteq> [] \<longrightarrow> width \<le> visibleWidth indent + glyphWidth r
         \<and> visibleWidth indent + glyphWidth r \<le> width + overhang (widest (tokenizeLine [] line)) (visibleWidth indent))
    \<and> (\<exists>rows. rejoins rows (tokenizeLine [] line) \<and> list_all2 padded rows (row # rest))"
proof -
  let ?gs = "tokenizeLine [] line" and ?iw = "visibleWidth indent"
  let ?m = "widest ?gs"
  have m: "1 \<le> ?m" "?m \<le> 2" by (simp_all add: widest_def)
  have i: "indented ?iw ?gs" "?iw \<le> width div 2" using line_indent_ok [of line width preserve "[]"] assms(2) by auto
  have lim: "max 1 (width - ?iw) = width - ?iw" "?iw \<le> width" using i(2) assms(1) by auto
  obtain l ls where w: "wrapGlyphs ?gs width ?iw = l # ls" using assms(3) by (auto simp: line_rows_def Let_def split: list.splits)
  then have e: "row = pad_segment width l" "rest = map (pad_segment (width - ?iw)) ls"
    using assms(3) lim(1) by (simp_all add: line_rows_def Let_def)
  note b = wrapGlyphs_widths [OF m assms(1) i(2,1) widest_ok [OF tokens_ok] w]
  have "row \<noteq> [] \<longrightarrow> glyphWidth row = width" using b(1) e(1) pad_width [of width l] by (auto simp: pad_segment_def)
  moreover have "r \<noteq> [] \<longrightarrow> width \<le> ?iw + glyphWidth r \<and> ?iw + glyphWidth r \<le> width + overhang ?m ?iw" if r: "r \<in> set rest" for r
  proof
    assume "r \<noteq> []"
    obtain k where k: "k \<in> set ls" "r = pad_segment (width - ?iw) k" using r e(2) by auto
    have "k \<noteq> []" using \<open>r \<noteq> []\<close> k(2) by (auto simp: pad_segment_def)
    then have "glyphWidth r = max (width - ?iw) (glyphWidth k)" using k(2) by (simp add: pad_width)
    then show "width \<le> ?iw + glyphWidth r \<and> ?iw + glyphWidth r \<le> width + overhang ?m ?iw" using b(2) [OF k(1)] lim(2) by linarith
  qed
  moreover have "rejoins (l # ls) ?gs \<and> list_all2 padded (l # ls) (row # rest)"
    using wrapGlyphs_rejoins [of ?gs width ?iw] w e padded_pad by (simp add: list.rel_map list_all2_same)
  ultimately show ?thesis by blast
qed

text \<open>Two spaces and three letters at four columns.\<close>

definition sample_line :: string where "sample_line = ''  xxx''"

lemma two: "replicate 2 x = [x, x]" and three: "replicate 3 x = [x, x, x]"
  by (simp_all add: numeral_2_eq_2 numeral_3_eq_3)

lemma sample_eval:
  "stripANSI sample_line = sample_line"
  "line_indent sample_line 4 True = ''  ''"
  "tokenizeLine [] sample_line = replicate 2 (space_glyph []) @ replicate 3 \<lparr>gl_Sgr = [], gl_Ch = ''x'', gl_W = 1\<rparr>"
proof -
  have d: "decode_rune c cs = (byte_of c, 1)" if "c = CHR '' '' \<or> c = CHR ''x''" for c cs using decode_rune_ascii [of c cs] that by auto
  have w: "charWidth 32 = 1" "charWidth 120 = 1" by (simp_all add: charWidth_def wide_ranges_def)
  show s: "stripANSI sample_line = sample_line" by (simp add: sample_line_def d)
  have "leading_indent sample_line = ''  ''" by (simp add: leading_indent_bytes sample_line_def ws_char_def)
  then show "line_indent sample_line 4 True = ''  ''" by (simp add: line_indent_def visibleWidth_def d w)
  show "tokenizeLine [] sample_line = replicate 2 (space_glyph []) @ replicate 3 \<lparr>gl_Sgr = [], gl_Ch = ''x'', gl_W = 1\<rparr>"
    unfolding two three by (simp add: sample_line_def d w space_glyph_def)
qed

lemma sample_rows:
  "line_rows sample_line 4 ''  '' = [replicate 4 (space_glyph []), replicate 3 \<lparr>gl_Sgr = [], gl_Ch = ''x'', gl_W = 1\<rparr>]"
proof -
  have v: "visibleWidth ''  '' = 2" by (simp add: visibleWidth_def decode_rune_ascii charWidth_space)
  have l: "last_space [space_glyph []] = Some 0" "last_space [a] = None" if "gl_Ch a = ''x''" for a
    using last_space_snoc [of "[]"] that by (simp_all add: is_space_glyph_def space_glyph_def)
  have l2: "last_space [a, b] = None" if "gl_Ch a = ''x''" "gl_Ch b = ''x''" for a b
    using last_space_snoc [of "[a]" b] l(2) [OF that(1)] that by (simp add: is_space_glyph_def)
  show ?thesis
    unfolding line_rows_def sample_eval v
    by (simp add: wrapGlyphs_def wrap_step_def wrap_break_def wrap_start_def wrap_limit_def is_space_glyph_def space_glyph_def
        pad_segment_def l l2 numeral_2_eq_2 numeral_3_eq_3 Let_def eval_nat_numeral)
qed

theorem reflow_rows_witness:
  "visibleWidth ''  '' + glyphWidth (replicate 3 \<lparr>gl_Sgr = [], gl_Ch = ''x'', gl_W = 1\<rparr>) \<le> 4 + 1"
proof -
  have i: "''  '' = line_indent (stripANSI sample_line) 4 True" by (simp add: sample_eval)
  have w: "overhang (widest (tokenizeLine [] sample_line)) (visibleWidth ''  '') \<le> 1"
    by (simp add: sample_eval widest_def overhang_def space_glyph_def numeral_2_eq_2 numeral_3_eq_3)
  show ?thesis using reflow_rows [OF _ i sample_rows] w by simp
qed

text \<open>An indented word that fills its continuation row exactly is continued on the same row: reflowed to four columns, a
  line of five gives a blank row and then a row of five columns.\<close>

lemma reflow_sticks_out:
  "reflowLine sample_line 4 True 8 = ''    '' @ crlf @ ''  xxx''"
proof -
  have t: "expand_tabs 8 sample_line = sample_line" by (simp add: expand_tabs_def sample_line_def)
  have n: "trim_space sample_line \<noteq> []"
    by (simp add: trim_space_def sample_line_def decode_rune_ascii is_space_def unrunes_def)
  have b: "\<not> hasBoxDrawing sample_line" "\<not> isPipeTableRow sample_line"
    by (simp_all add: hasBoxDrawing_def has_rune_def isPipeTableRow_def sample_line_def decode_rune_ascii ws_char_def)
  have r: "renderGlyphs (replicate 4 (space_glyph [])) = ''    ''" "renderGlyphs (replicate 3 \<lparr>gl_Sgr = [], gl_Ch = ''x'', gl_W = 1\<rparr>) = ''xxx''"
    by (simp_all add: renderGlyphs_def space_glyph_def eval_nat_numeral)
  then have r: "renderGlyphs (replicate 4 (space_glyph [])) = ''    ''"
    "renderGlyphs (replicate 3 \<lparr>gl_Sgr = [], gl_Ch = ''x'', gl_W = Suc 0\<rparr>) = ''xxx''" by simp_all
  have s: "sample_line \<noteq> []" by (simp add: sample_line_def)
  show ?thesis unfolding reflowLine_def Let_def t sample_eval(1) using s n b by (simp add: sample_eval(2) sample_rows r)
qed

end
