(* ===== verification/Compaction_Window.thy ===== *)
theory Compaction_Window
  imports Delivery_Text
begin

text \<open>
  When an idle Claude lane may compact: \<open>observe.go\<close> and \<open>window.go\<close> of \<open>runtime/internal/compaction\<close>.  The retained
  records of a lane say what its last request was and what followed it; from that and the facts of the lane comes a plan, or
  the reason that there is none.  Durations are milliseconds; \<open>parse\<close> is the JSON of a record and \<open>clock\<close> parses a timestamp.
\<close>

section \<open>What the records say\<close>

definition CommandText :: string where "CommandText = ''/compact''"
definition MinContextTokens :: int where "MinContextTokens = 100000"
definition Lead :: int where "Lead = 2 * 60 * 1000"
definition ttlOneHour :: int where "ttlOneHour = 60 * 60 * 1000"
definition ttlFiveMinutes :: int where "ttlFiveMinutes = 5 * 60 * 1000"
definition observeLimit :: nat where "observeLimit = 20000"

record compaction_observation =
  bo_RequestID :: string
  bo_RequestStartMS :: int
  bo_TTL :: int
  bo_ContextTokens :: int
  bo_LastUserCompact :: bool
  bo_CompactedAfterRequest :: bool
  bo_QueuedInput :: bool

record observed_usage =
  us_InputTokens :: int
  us_CacheCreationInputTokens :: int
  us_CacheReadInputTokens :: int
  us_OutputTokens :: int
  us_CacheCreation :: "(int \<times> int) option"

record observed_message =
  om_ID :: string
  om_Role :: string
  om_Model :: string
  om_Content :: "json option"
  om_Usage :: "observed_usage option"

record observed_record =
  or_Type :: string
  or_Subtype :: string
  or_Operation :: string
  or_IsMeta :: bool
  or_IsCompactSummary :: bool
  or_Timestamp :: json
  or_Message :: "observed_message option"

definition zero_usage :: observed_usage where
  "zero_usage = \<lparr>us_InputTokens = 0, us_CacheCreationInputTokens = 0, us_CacheReadInputTokens = 0, us_OutputTokens = 0, us_CacheCreation = None\<rparr>"

definition zero_message :: observed_message where
  "zero_message = \<lparr>om_ID = [], om_Role = [], om_Model = [], om_Content = None, om_Usage = None\<rparr>"

definition zero_record :: observed_record where
  "zero_record = \<lparr>or_Type = [], or_Subtype = [], or_Operation = [], or_IsMeta = False, or_IsCompactSummary = False,
     or_Timestamp = JNull, or_Message = None\<rparr>"

definition dec_creation :: "int \<times> int \<Rightarrow> members \<Rightarrow> (int \<times> int) option" where
  "dec_creation z ms = (case (field dec_int ''ephemeral_5m_input_tokens'' (fst z) ms, field dec_int ''ephemeral_1h_input_tokens'' (snd z) ms) of
       (Some a, Some b) \<Rightarrow> Some (a, b) | _ \<Rightarrow> None)"

definition dec_usage :: "observed_usage \<Rightarrow> members \<Rightarrow> observed_usage option" where
  "dec_usage z ms =
     (case (field dec_int ''input_tokens'' (us_InputTokens z) ms, field dec_int ''cache_creation_input_tokens'' (us_CacheCreationInputTokens z) ms,
            field dec_int ''cache_read_input_tokens'' (us_CacheReadInputTokens z) ms, field dec_int ''output_tokens'' (us_OutputTokens z) ms,
            field (dec_ptr (0, 0) (dec_struct dec_creation)) ''cache_creation'' (us_CacheCreation z) ms) of
       (Some a, Some b, Some c, Some d, Some e) \<Rightarrow> Some \<lparr>us_InputTokens = a, us_CacheCreationInputTokens = b,
          us_CacheReadInputTokens = c, us_OutputTokens = d, us_CacheCreation = e\<rparr>
     | _ \<Rightarrow> None)"

definition dec_message :: "observed_message \<Rightarrow> members \<Rightarrow> observed_message option" where
  "dec_message z ms =
     (case (field dec_str ''id'' (om_ID z) ms, field dec_str ''role'' (om_Role z) ms, field dec_str ''model'' (om_Model z) ms,
            field dec_raw ''content'' (om_Content z) ms, field (dec_ptr zero_usage (dec_struct dec_usage)) ''usage'' (om_Usage z) ms) of
       (Some a, Some b, Some c, Some d, Some e) \<Rightarrow> Some \<lparr>om_ID = a, om_Role = b, om_Model = c, om_Content = d, om_Usage = e\<rparr>
     | _ \<Rightarrow> None)"

definition dec_observed :: "observed_record \<Rightarrow> members \<Rightarrow> observed_record option" where
  "dec_observed z ms =
     (case (field dec_str ''type'' (or_Type z) ms, field dec_str ''subtype'' (or_Subtype z) ms, field dec_str ''operation'' (or_Operation z) ms,
            field dec_bool ''isMeta'' (or_IsMeta z) ms, field dec_bool ''isCompactSummary'' (or_IsCompactSummary z) ms,
            field dec_any ''timestamp'' (or_Timestamp z) ms, field (dec_ptr zero_message (dec_struct dec_message)) ''message'' (or_Message z) ms) of
       (Some a, Some b, Some c, Some d, Some e, Some f, Some g) \<Rightarrow>
          Some \<lparr>or_Type = a, or_Subtype = b, or_Operation = c, or_IsMeta = d, or_IsCompactSummary = e, or_Timestamp = f, or_Message = g\<rparr>
     | _ \<Rightarrow> None)"

definition decodeRecord :: "(byte list \<Rightarrow> json option) \<Rightarrow> byte list \<Rightarrow> observed_record option" where
  "decodeRecord parse raw = unmarshal (dec_struct dec_observed) zero_record (parse raw)"

definition atMS :: "(string \<Rightarrow> int option) \<Rightarrow> observed_record \<Rightarrow> int" where
  "atMS clock r = (case or_Timestamp r of
       JStr s \<Rightarrow> (case clock s of Some t \<Rightarrow> t | None \<Rightarrow> 0)
     | JInt n \<Rightarrow> int64_of (JInt n)
     | JReal s \<Rightarrow> int64_of (JReal s)
     | _ \<Rightarrow> 0)"

definition requestRecord :: "observed_record \<Rightarrow> bool" where
  "requestRecord r \<longleftrightarrow> or_Type r = ''assistant'' \<and> (case or_Message r of None \<Rightarrow> False
     | Some m \<Rightarrow> om_ID m \<noteq> [] \<and> om_Usage m \<noteq> None \<and> om_Model m \<noteq> ''<synthetic>'')"

definition conversationRecord :: "observed_record \<Rightarrow> bool" where
  "conversationRecord r \<longleftrightarrow> or_Type r = ''user'' \<or> or_Type r = ''assistant'' \<or> (or_Type r = ''claude'' \<and> or_Subtype r = ''turn_started'')"

definition cacheTTL :: "observed_usage \<Rightarrow> int" where
  "cacheTTL u = (case us_CacheCreation u of None \<Rightarrow> 0
     | Some (five, hour) \<Rightarrow> if hour > 0 then ttlOneHour else if five > 0 then ttlFiveMinutes else 0)"

text \<open>The loops below run from the newest record; they are given the records newest first.\<close>

fun request_start_from :: "(string \<Rightarrow> int option) \<Rightarrow> (byte list \<Rightarrow> json option) \<Rightarrow> string \<Rightarrow> int \<Rightarrow> byte list list \<Rightarrow> int" where
  "request_start_from clock parse rid own [] = 0"
| "request_start_from clock parse rid own (raw # older) =
     (case decodeRecord parse raw of
        None \<Rightarrow> request_start_from clock parse rid own older
      | Some r \<Rightarrow>
          if or_Type r = ''assistant'' \<and> (case or_Message r of None \<Rightarrow> False | Some m \<Rightarrow> om_ID m = rid)
          then request_start_from clock parse rid (if atMS clock r > 0 then atMS clock r else own) older
          else if \<not> conversationRecord r then request_start_from clock parse rid own older
          else if atMS clock r \<le> 0 then 0
          else if own > 0 \<and> own < atMS clock r then own
          else atMS clock r)"

definition requestStart :: "(string \<Rightarrow> int option) \<Rightarrow> (byte list \<Rightarrow> json option) \<Rightarrow> byte list list \<Rightarrow> string \<Rightarrow> int" where
  "requestStart clock parse events rid = request_start_from clock parse rid 0 (rev events)"

fun queued_from :: "(byte list \<Rightarrow> json option) \<Rightarrow> byte list list \<Rightarrow> bool" where
  "queued_from parse [] = False"
| "queued_from parse (raw # older) =
     (if \<not> infix_of (text_bytes ''queue-operation'') raw then queued_from parse older
      else case decodeRecord parse raw of
          None \<Rightarrow> queued_from parse older
        | Some r \<Rightarrow> if or_Type r \<noteq> ''queue-operation'' then queued_from parse older else or_Operation r = ''enqueue'')"

definition QueuedInput :: "(byte list \<Rightarrow> json option) \<Rightarrow> byte list list \<Rightarrow> bool" where
  "QueuedInput parse events = queued_from parse (rev events)"

fun join_lines :: "string list \<Rightarrow> string" where
  "join_lines [] = []"
| "join_lines [w] = w"
| "join_lines (w # ws) = w @ CHR 0x0A # join_lines ws"

definition authoredText :: "json option \<Rightarrow> string option" where
  "authoredText content =
     (case unmarshal dec_str [] content of
        Some text \<Rightarrow> Some text
      | None \<Rightarrow>
          (case unmarshal (dec_list ([], []) (dec_struct dec_text_block)) [] content of
             None \<Rightarrow> None
           | Some blocks \<Rightarrow>
               if \<exists>b \<in> set blocks. fst b = ''tool_result'' then None
               else let parts = map snd (filter (\<lambda>b. fst b = ''text'') blocks)
                    in if parts = [] then None else Some (join_lines parts)))"

definition localCommandOutput :: "string \<Rightarrow> bool" where
  "localCommandOutput text = list_ex (has_prefix (trim_space text))
     [''<local-command-'', ''<command-stdout>'', ''<command-stderr>'', ''<system-reminder>'']"

definition IsCompactCommand :: "string \<Rightarrow> bool" where
  "IsCompactCommand text = (let trimmed = lower (trim_space text) in
     trimmed = CommandText \<or> has_prefix trimmed (CommandText @ '' '')
     \<or> infix_of ''<command-name>/compact</command-name>'' trimmed)"

fun last_compact_from :: "(byte list \<Rightarrow> json option) \<Rightarrow> byte list list \<Rightarrow> bool" where
  "last_compact_from parse [] = False"
| "last_compact_from parse (raw # older) =
     (if \<not> infix_of (text_bytes (CHR 0x22 # ''user'' @ [CHR 0x22])) raw then last_compact_from parse older
      else case decodeRecord parse raw of
          None \<Rightarrow> last_compact_from parse older
        | Some r \<Rightarrow>
            (case or_Message r of
               None \<Rightarrow> last_compact_from parse older
             | Some m \<Rightarrow>
                 if or_Type r \<noteq> ''user'' \<or> om_Role m \<noteq> ''user'' \<or> or_IsMeta r \<or> or_IsCompactSummary r then last_compact_from parse older
                 else case authoredText (om_Content m) of
                     None \<Rightarrow> last_compact_from parse older
                   | Some text \<Rightarrow> if localCommandOutput text then last_compact_from parse older else IsCompactCommand text))"

definition lastUserCompact :: "(byte list \<Rightarrow> json option) \<Rightarrow> byte list list \<Rightarrow> bool" where
  "lastUserCompact parse events = last_compact_from parse (rev events)"

definition request_at :: "(byte list \<Rightarrow> json option) \<Rightarrow> byte list \<Rightarrow> observed_record option" where
  "request_at parse raw =
     (if \<not> infix_of (text_bytes (CHR 0x22 # ''usage'' @ [CHR 0x22])) raw then None
      else case decodeRecord parse raw of Some r \<Rightarrow> if requestRecord r then Some r else None | None \<Rightarrow> None)"

text \<open>The newest request among records given newest first: it, the records after it and those up to it, oldest first.\<close>

fun newest_request :: "(byte list \<Rightarrow> json option) \<Rightarrow> byte list list \<Rightarrow> byte list list \<Rightarrow> (observed_record \<times> byte list list \<times> byte list list) option" where
  "newest_request parse after [] = None"
| "newest_request parse after (raw # older) =
     (case request_at parse raw of
        Some r \<Rightarrow> Some (r, after, rev (raw # older))
      | None \<Rightarrow> newest_request parse (raw # after) older)"

definition compact_boundary :: "(byte list \<Rightarrow> json option) \<Rightarrow> byte list \<Rightarrow> bool" where
  "compact_boundary parse raw \<longleftrightarrow> infix_of (text_bytes ''compact_boundary'') raw
     \<and> (case decodeRecord parse raw of None \<Rightarrow> False | Some r \<Rightarrow> or_Type r = ''system'' \<and> or_Subtype r = ''compact_boundary'')"

definition Observe :: "(string \<Rightarrow> int option) \<Rightarrow> (byte list \<Rightarrow> json option) \<Rightarrow> byte list list \<Rightarrow> compaction_observation" where
  "Observe clock parse all =
     (let events = drop (length all - observeLimit) all;
          base = \<lparr>bo_RequestID = [], bo_RequestStartMS = 0, bo_TTL = 0, bo_ContextTokens = 0,
            bo_LastUserCompact = lastUserCompact parse events, bo_CompactedAfterRequest = False, bo_QueuedInput = QueuedInput parse events\<rparr>
      in case newest_request parse [] (rev events) of
          None \<Rightarrow> base
        | Some (r, after, before) \<Rightarrow>
            (case or_Message r of None \<Rightarrow> base
             | Some m \<Rightarrow> (case om_Usage m of None \<Rightarrow> base
                | Some u \<Rightarrow> base\<lparr>bo_RequestID := om_ID m,
                    bo_ContextTokens := i64 (us_InputTokens u + us_CacheCreationInputTokens u + us_CacheReadInputTokens u + us_OutputTokens u),
                    bo_TTL := cacheTTL u, bo_RequestStartMS := requestStart clock parse before (om_ID m),
                    bo_CompactedAfterRequest := list_ex (compact_boundary parse) after\<rparr>)))"

section \<open>The window\<close>

record compaction_lane =
  cn_ID :: string
  cn_Name :: string
  cn_Claude :: bool
  cn_Structured :: bool
  cn_Exited :: bool
  cn_Unreachable :: bool
  cn_Launching :: bool
  cn_Working :: bool
  cn_NeedsInput :: bool
  cn_Blocked :: bool
  cn_Child :: bool

text \<open>The reasons the daemon reports, \<open>ReasonBelowThreshold\<close> with the number it prints; the last two come from the scheduler.\<close>

datatype reason =
    ReasonNotClaude | ReasonEnded | ReasonUnreachable | ReasonLaunching | ReasonWorking | ReasonNeedsInput | ReasonBlocked
  | ReasonChild | ReasonQueued | ReasonNoRequest | ReasonUnknownTTL | ReasonUnknownStart | ReasonCompacted | ReasonExpired
  | ReasonBelowThreshold int | ReasonOff | ReasonAlready string

record compaction_plan =
  cp_Key :: string
  cp_FireAtMS :: int
  cp_ExpiresAtMS :: int
  cp_ContextTokens :: int
  cp_TTLMS :: int

definition LaneReason :: "compaction_lane \<Rightarrow> reason option" where
  "LaneReason l =
     (if \<not> cn_Claude l then Some ReasonNotClaude
      else if cn_Exited l then Some ReasonEnded
      else if cn_Unreachable l then Some ReasonUnreachable
      else if cn_Launching l then Some ReasonLaunching
      else if cn_Child l then Some ReasonChild
      else if cn_Working l then Some ReasonWorking
      else if cn_NeedsInput l then Some ReasonNeedsInput
      else if cn_Blocked l then Some ReasonBlocked
      else None)"

definition empty_plan :: compaction_plan where
  "empty_plan = \<lparr>cp_Key = [], cp_FireAtMS = 0, cp_ExpiresAtMS = 0, cp_ContextTokens = 0, cp_TTLMS = 0\<rparr>"

definition Window :: "compaction_lane \<Rightarrow> compaction_observation \<Rightarrow> int \<Rightarrow> compaction_plan \<times> reason option" where
  "Window l obs now =
     (case LaneReason l of
        Some why \<Rightarrow> (empty_plan, Some why)
      | None \<Rightarrow>
          if bo_QueuedInput obs then (empty_plan, Some ReasonQueued)
          else if bo_RequestID obs = [] then (empty_plan, Some ReasonNoRequest)
          else if bo_LastUserCompact obs \<or> bo_CompactedAfterRequest obs then (empty_plan, Some ReasonCompacted)
          else if bo_ContextTokens obs < MinContextTokens then (empty_plan, Some (ReasonBelowThreshold (bo_ContextTokens obs)))
          else if bo_TTL obs \<le> 0 then (empty_plan, Some ReasonUnknownTTL)
          else if bo_RequestStartMS obs \<le> 0 then (empty_plan, Some ReasonUnknownStart)
          else
            (let expires = i64 (bo_RequestStartMS obs + bo_TTL obs);
                 p = \<lparr>cp_Key = bo_RequestID obs, cp_FireAtMS = i64 (expires - Lead), cp_ExpiresAtMS = expires,
                      cp_ContextTokens = bo_ContextTokens obs, cp_TTLMS = bo_TTL obs\<rparr>
             in if now \<ge> expires then (p, Some ReasonExpired) else (p, None)))"

text \<open>The plan a request allows: it expires when the cache the request wrote does, and fires \<open>Lead\<close> before that.\<close>

definition request_window :: "compaction_observation \<Rightarrow> compaction_plan \<Rightarrow> bool" where
  "request_window obs p \<longleftrightarrow> bo_RequestID obs \<noteq> [] \<and> cp_Key p = bo_RequestID obs
     \<and> 0 < bo_RequestStartMS obs \<and> 0 < bo_TTL obs \<and> cp_TTLMS p = bo_TTL obs
     \<and> cp_ExpiresAtMS p = i64 (bo_RequestStartMS obs + bo_TTL obs) \<and> cp_FireAtMS p = i64 (cp_ExpiresAtMS p - Lead)
     \<and> cp_ContextTokens p = bo_ContextTokens obs \<and> MinContextTokens \<le> bo_ContextTokens obs
     \<and> \<not> bo_LastUserCompact obs \<and> \<not> bo_CompactedAfterRequest obs \<and> \<not> bo_QueuedInput obs"

lemma Window_request: "Window l obs now = (p, None) \<Longrightarrow> request_window obs p"
  by (auto simp: Window_def request_window_def Let_def split: option.splits if_splits)

lemma Window_plan:
  assumes "Window l obs now = (p, None)"
  shows "LaneReason l = None" "\<not> bo_QueuedInput obs" "bo_RequestID obs \<noteq> []" "cp_Key p = bo_RequestID obs"
    "\<not> bo_LastUserCompact obs" "\<not> bo_CompactedAfterRequest obs" "cp_ContextTokens p \<ge> MinContextTokens" "now < cp_ExpiresAtMS p"
    "cp_ExpiresAtMS p = i64 (bo_RequestStartMS obs + bo_TTL obs)" "bo_TTL obs > 0" "bo_RequestStartMS obs > 0"
  using assms by (auto simp: Window_def Let_def split: option.splits if_splits)

text \<open>
  The start of a request: the newest conversation record before the records of its own response, or the earliest of those
  when its time is earlier still.  It is never later than any of the two.
\<close>

lemma request_start_before_own:
  assumes "own > 0" "request_start_from clock parse rid own older \<noteq> 0"
    and "\<forall>raw \<in> set older. \<forall>r. decodeRecord parse raw = Some r \<longrightarrow> \<not> (or_Type r = ''assistant'' \<and> (\<exists>m. or_Message r = Some m \<and> om_ID m = rid))"
  shows "request_start_from clock parse rid own older \<le> own \<or> (\<exists>raw \<in> set older. \<exists>r. decodeRecord parse raw = Some r \<and> conversationRecord r
     \<and> atMS clock r = request_start_from clock parse rid own older)"
  using assms by (induction clock parse rid own older rule: request_start_from.induct) (auto split: option.splits if_splits)

end
