(* ===== verification/Compaction_Store.thy ===== *)
theory Compaction_Store
  imports Compaction_Window
begin

text \<open>
  The durable state of idle compaction: \<open>store.go\<close> of \<open>runtime/internal/compaction\<close>.  One JSON document holds the latest
  plan of every lane and what became of it, the lanes' explicit choices and the compactions that were sent.  The file is
  modelled by the document it decodes to; \<open>nil\<close> maps and empty maps are the same.  Whether a read or a write of the file
  works is an argument of each operation; \<open>writeDocument\<close> replaces the file by a rename, so a failing write leaves it.
\<close>

section \<open>The document\<close>

definition StateScheduled :: string where "StateScheduled = ''scheduled''"
definition StateSending :: string where "StateSending = ''sending''"
definition StateSent :: string where "StateSent = ''sent''"
definition StateUnconfirmed :: string where "StateUnconfirmed = ''unconfirmed''"
definition StateFailed :: string where "StateFailed = ''failed''"
definition StateMissed :: string where "StateMissed = ''missed''"

lemmas entry_states = StateScheduled_def StateSending_def StateSent_def StateUnconfirmed_def StateFailed_def StateMissed_def

lemma entry_states_differ [simp]:
  "StateSending \<noteq> StateScheduled" "StateSent \<noteq> StateScheduled" "StateUnconfirmed \<noteq> StateScheduled"
  "StateFailed \<noteq> StateScheduled" "StateMissed \<noteq> StateScheduled"
  "StateSent \<noteq> []" "StateUnconfirmed \<noteq> []" "StateFailed \<noteq> []" "StateUnconfirmed \<noteq> StateFailed" "StateSent \<noteq> StateFailed"
  by (simp_all add: entry_states)

definition storeVersion :: int where "storeVersion = 1"
definition sentLimit :: nat where "sentLimit = 16"

definition UnixMilli :: "int \<Rightarrow> int" where "UnixMilli now = now div 1000000"

record compaction_entry =
  ce_Plan :: compaction_plan
  ce_State :: string
  ce_OperationID :: string
  ce_Detail :: string
  ce_UpdatedAtMS :: int

record sent_record =
  sn_OperationID :: string
  sn_Text :: string
  sn_AtMS :: int

record store_document =
  cd_Version :: int
  cd_Lanes :: "string \<rightharpoonup> compaction_entry"
  cd_Overrides :: "string \<rightharpoonup> bool"
  cd_Sent :: "string \<rightharpoonup> sent_record list"

definition emptyDocument :: store_document where
  "emptyDocument = \<lparr>cd_Version = storeVersion, cd_Lanes = Map.empty, cd_Overrides = Map.empty, cd_Sent = Map.empty\<rparr>"

section \<open>Opening and updating\<close>

datatype store_file = NoFile | Garbled | Holds store_document

datatype compaction_error = StoreUnreadable | StoreUndecodable | StoreVersion int | WriteFailed

record compaction_store =
  st_File :: store_file
  st_Doc :: store_document
  st_Err :: "compaction_error option"

definition OpenStore :: "bool \<Rightarrow> store_file \<Rightarrow> compaction_store" where
  "OpenStore readable file =
     (let paused = (\<lambda>e. \<lparr>st_File = file, st_Doc = emptyDocument, st_Err = Some e\<rparr>)
      in if \<not> readable then paused StoreUnreadable
         else case file of
             NoFile \<Rightarrow> \<lparr>st_File = NoFile, st_Doc = emptyDocument, st_Err = None\<rparr>
           | Garbled \<Rightarrow> paused StoreUndecodable
           | Holds d \<Rightarrow> if cd_Version d \<noteq> storeVersion then paused (StoreVersion (cd_Version d))
                      else \<lparr>st_File = file, st_Doc = d, st_Err = None\<rparr>)"

definition cloneDocument :: "store_document \<Rightarrow> store_document" where
  "cloneDocument d = emptyDocument\<lparr>cd_Lanes := cd_Lanes d, cd_Overrides := cd_Overrides d, cd_Sent := cd_Sent d\<rparr>"

definition update :: "bool \<Rightarrow> (store_document \<Rightarrow> store_document) \<Rightarrow> compaction_store \<Rightarrow> compaction_error option \<times> compaction_store" where
  "update writes change s =
     (case st_Err s of
        Some e \<Rightarrow> (Some e, s)
      | None \<Rightarrow>
          let nxt = change (cloneDocument (st_Doc s))
          in if \<not> writes then (Some WriteFailed, s) else (None, s\<lparr>st_File := Holds nxt, st_Doc := nxt\<rparr>))"

definition Entry :: "string \<Rightarrow> compaction_store \<Rightarrow> compaction_entry option" where
  "Entry i s = cd_Lanes (st_Doc s) i"

definition Override :: "string \<Rightarrow> compaction_store \<Rightarrow> bool option" where
  "Override i s = cd_Overrides (st_Doc s) i"

definition Sent :: "string \<Rightarrow> compaction_store \<Rightarrow> sent_record list" where
  "Sent i s = (case cd_Sent (st_Doc s) i of None \<Rightarrow> [] | Some rs \<Rightarrow> rs)"

definition put_entry :: "string \<Rightarrow> compaction_entry \<Rightarrow> store_document \<Rightarrow> store_document" where
  "put_entry i e d = d\<lparr>cd_Lanes := (cd_Lanes d)(i \<mapsto> e)\<rparr>"

definition Put :: "bool \<Rightarrow> string \<Rightarrow> compaction_entry \<Rightarrow> compaction_store \<Rightarrow> compaction_error option \<times> compaction_store" where
  "Put writes i e s = update writes (put_entry i e) s"

definition delete_entry :: "string \<Rightarrow> store_document \<Rightarrow> store_document" where
  "delete_entry i d = d\<lparr>cd_Lanes := (cd_Lanes d)(i := None)\<rparr>"

definition Delete :: "bool \<Rightarrow> string \<Rightarrow> compaction_store \<Rightarrow> compaction_error option \<times> compaction_store" where
  "Delete writes i s = (if Entry i s = None then (None, s) else update writes (delete_entry i) s)"

definition choose_override :: "string \<Rightarrow> bool option \<Rightarrow> store_document \<Rightarrow> store_document" where
  "choose_override i v d = d\<lparr>cd_Overrides := (cd_Overrides d)(i := v)\<rparr>"

definition SetOverride :: "bool \<Rightarrow> string \<Rightarrow> bool option \<Rightarrow> compaction_store \<Rightarrow> compaction_error option \<times> compaction_store" where
  "SetOverride writes i v s = update writes (choose_override i v) s"

definition last_records :: "sent_record list \<Rightarrow> sent_record list" where
  "last_records rs = (if length rs > sentLimit then drop (length rs - sentLimit) rs else rs)"

definition add_record :: "string \<Rightarrow> sent_record \<Rightarrow> store_document \<Rightarrow> store_document" where
  "add_record i r d = d\<lparr>cd_Sent := (cd_Sent d)(i \<mapsto>
     last_records ((case cd_Sent d i of None \<Rightarrow> [] | Some rs \<Rightarrow> rs) @ [r]))\<rparr>"

definition AddSent :: "bool \<Rightarrow> string \<Rightarrow> sent_record \<Rightarrow> compaction_store \<Rightarrow> compaction_error option \<times> compaction_store" where
  "AddSent writes i r s = update writes (add_record i r) s"

definition recover_entry :: "int \<Rightarrow> compaction_entry \<Rightarrow> compaction_entry" where
  "recover_entry now e =
     (if ce_State e = StateSending
      then e\<lparr>ce_State := StateUnconfirmed,
             ce_Detail := ''Sessions stopped while sending /compact; inspect the conversation. It will not be sent again.'',
             ce_UpdatedAtMS := UnixMilli now\<rparr>
      else if ce_State e = StateScheduled \<and> UnixMilli now \<ge> cp_ExpiresAtMS (ce_Plan e)
      then e\<lparr>ce_State := StateMissed, ce_Detail := ''Sessions was not running when the prompt cache window closed.'',
             ce_UpdatedAtMS := UnixMilli now\<rparr>
      else e)"

definition recover_lanes :: "int \<Rightarrow> store_document \<Rightarrow> store_document" where
  "recover_lanes now d = d\<lparr>cd_Lanes := (\<lambda>i. map_option (recover_entry now) (cd_Lanes d i))\<rparr>"

definition Recover :: "bool \<Rightarrow> int \<Rightarrow> compaction_store \<Rightarrow> compaction_error option \<times> compaction_store" where
  "Recover writes now s = update writes (recover_lanes now) s"

definition prune_stale :: "(string \<Rightarrow> bool) \<Rightarrow> int \<Rightarrow> store_document \<Rightarrow> bool" where
  "prune_stale keep cutoff d \<longleftrightarrow> (\<exists>i \<in> dom (cd_Lanes d) \<union> dom (cd_Overrides d). \<not> keep i)
     \<or> (\<exists>rs \<in> ran (cd_Sent d). rs \<noteq> [] \<and> sn_AtMS (hd rs) < cutoff)"

definition recent_records :: "int \<Rightarrow> sent_record list \<Rightarrow> sent_record list option" where
  "recent_records cutoff rs = (let kept = filter (\<lambda>r. sn_AtMS r \<ge> cutoff) rs in if kept = [] then None else Some kept)"

definition prune_document :: "(string \<Rightarrow> bool) \<Rightarrow> int \<Rightarrow> store_document \<Rightarrow> store_document" where
  "prune_document keep cutoff d = d\<lparr>
     cd_Lanes := (\<lambda>i. if keep i then cd_Lanes d i else None),
     cd_Overrides := (\<lambda>i. if keep i then cd_Overrides d i else None),
     cd_Sent := (\<lambda>i. Option.bind (cd_Sent d i) (recent_records cutoff))\<rparr>"

definition Prune :: "bool \<Rightarrow> (string \<Rightarrow> bool) \<Rightarrow> int \<Rightarrow> compaction_store \<Rightarrow> compaction_error option \<times> compaction_store" where
  "Prune writes keep cutoff s =
     (if \<not> prune_stale keep cutoff (st_Doc s) then (None, s) else update writes (prune_document keep cutoff) s)"

section \<open>What the file keeps\<close>

text \<open>
  The contract of a document kept in a file: a commit keeps the document or applies the change to it, and a restart, with or
  without a readable file, finds the same document.  So what every change keeps of the document outlives failing writes,
  unreadable files and restarts.
\<close>

locale kept_document =
  fixes kept :: "'s \<Rightarrow> 'd"
    and ok :: "'s \<Rightarrow> bool"
    and sane :: "'d \<Rightarrow> bool"
    and commit :: "bool \<Rightarrow> ('d \<Rightarrow> 'd) \<Rightarrow> 's \<Rightarrow> 's"
    and restart :: "bool \<Rightarrow> 's \<Rightarrow> 's"
  assumes commit_kept: "ok s \<Longrightarrow> kept (commit w f s) = kept s \<or> kept (commit w f s) = f (kept s)"
    and commit_ok: "ok s \<Longrightarrow> sane (f (kept s)) \<Longrightarrow> ok (commit w f s)"
    and restart_kept: "kept (restart r s) = kept s"
    and restart_ok: "ok (restart r s)"
begin

lemma commit_keeps:
  assumes "ok s" "P (kept s)" "P (kept s) \<Longrightarrow> P (f (kept s))"
  shows "P (kept (commit w f s))"
  using commit_kept [OF assms(1), of w f] assms(2,3) by auto

lemma restart_keeps: "P (kept s) \<Longrightarrow> P (kept (restart r s))"
  by (simp add: restart_kept)

lemma restart_commit_keeps:
  assumes "P (kept s)" "P (kept s) \<Longrightarrow> P (f (kept s))"
  shows "P (kept (commit w f (restart r s)))"
  by (rule commit_keeps [OF restart_ok]) (simp_all add: restart_kept assms)

end

definition filed :: "compaction_store \<Rightarrow> store_document" where
  "filed s = (case st_File s of Holds d \<Rightarrow> d | _ \<Rightarrow> emptyDocument)"

definition current :: "compaction_store \<Rightarrow> bool" where
  "current s \<longleftrightarrow> (st_Err s = None \<longrightarrow> st_File s \<noteq> Garbled \<and> st_Doc s = filed s \<and> cd_Version (st_Doc s) = storeVersion)"

lemma clone_same: "cd_Version d = storeVersion \<Longrightarrow> cloneDocument d = d"
  by (simp add: cloneDocument_def emptyDocument_def)

lemma current_open: "current (OpenStore r file)"
  by (auto simp: current_def OpenStore_def filed_def Let_def emptyDocument_def split: store_file.splits)

lemma filed_open: "filed (OpenStore r file) = (case file of Holds d \<Rightarrow> d | _ \<Rightarrow> emptyDocument)"
  by (auto simp: OpenStore_def filed_def Let_def split: store_file.splits)

lemma update_cases:
  assumes "current s"
  shows "snd (update w f s) = s \<or>
    (st_Err s = None \<and> w \<and> snd (update w f s) = s\<lparr>st_File := Holds (f (filed s)), st_Doc := f (filed s)\<rparr>)"
  using assms by (auto simp: update_def current_def clone_same Let_def split: option.splits)

interpretation idle_file: kept_document filed current "\<lambda>d. cd_Version d = storeVersion" "\<lambda>w f s. snd (update w f s)"
    "\<lambda>r s. OpenStore r (st_File s)"
proof unfold_locales
  fix s w f assume c: "current s"
  show "filed (snd (update w f s)) = filed s \<or> filed (snd (update w f s)) = f (filed s)"
    using update_cases [OF c, of w f] by (auto simp: filed_def)
  assume "cd_Version (f (filed s)) = storeVersion"
  then show "current (snd (update w f s))"
    using update_cases [OF c, of w f] c by (auto simp: current_def filed_def)
next
  fix r s show "filed (OpenStore r (st_File s)) = filed s" by (subst filed_open) (simp add: filed_def)
  show "current (OpenStore r (st_File s))" by (rule current_open)
qed

lemma changes_keep_version [simp]:
  "cd_Version (put_entry i e d) = cd_Version d" "cd_Version (delete_entry i d) = cd_Version d"
  "cd_Version (choose_override i v d) = cd_Version d" "cd_Version (add_record i r d) = cd_Version d"
  "cd_Version (recover_lanes now d) = cd_Version d" "cd_Version (prune_document keep cutoff d) = cd_Version d"
  by (simp_all add: put_entry_def delete_entry_def choose_override_def add_record_def recover_lanes_def prune_document_def)

lemma update_current:
  assumes "current s" "\<And>d. cd_Version (f d) = cd_Version d"
  shows "current (snd (update w f s))"
  using update_cases [OF assms(1), of w f] assms by (auto simp: current_def filed_def)

lemma update_err [simp]: "st_Err (snd (update w f s)) = st_Err s"
  by (auto simp: update_def Let_def split: option.splits)

lemma store_current:
  assumes "current s"
  shows "current (snd (Put w i e s))" "current (snd (Delete w i s))" "current (snd (SetOverride w i v s))"
    "current (snd (AddSent w i r s))" "current (snd (Recover w now s))" "current (snd (Prune w keep cutoff s))"
  by (auto simp: Put_def Delete_def SetOverride_def AddSent_def Recover_def Prune_def intro!: update_current assms)

lemma store_err [simp]:
  "st_Err (snd (Put w i e s)) = st_Err s" "st_Err (snd (Delete w i s)) = st_Err s" "st_Err (snd (SetOverride w i v s)) = st_Err s"
  "st_Err (snd (AddSent w i r s)) = st_Err s" "st_Err (snd (Recover w now s)) = st_Err s" "st_Err (snd (Prune w keep cutoff s)) = st_Err s"
  by (auto simp: Put_def Delete_def SetOverride_def AddSent_def Recover_def Prune_def)

lemma reopen_same: "current s \<Longrightarrow> st_Err s = None \<Longrightarrow> OpenStore True (st_File s) = s"
  by (cases s) (auto simp: OpenStore_def current_def filed_def Let_def split: store_file.splits)

text \<open>A store that could not be read is left alone.\<close>

lemma paused_update: "st_Err s \<noteq> None \<Longrightarrow> snd (update w f s) = s"
  by (auto simp: update_def)

section \<open>Entries after one operation\<close>

lemma Entry_update: "Entry i (snd (update w f s)) = (if st_Err s = None \<and> w then cd_Lanes (f (cloneDocument (st_Doc s))) i else Entry i s)"
  by (auto simp: update_def Entry_def Let_def split: option.splits)

lemma Override_update: "Override i (snd (update w f s)) = (if st_Err s = None \<and> w then cd_Overrides (f (cloneDocument (st_Doc s))) i else Override i s)"
  by (auto simp: update_def Override_def Let_def split: option.splits)

lemma clone_fields [simp]: "cd_Lanes (cloneDocument d) = cd_Lanes d" "cd_Overrides (cloneDocument d) = cd_Overrides d" "cd_Sent (cloneDocument d) = cd_Sent d"
  by (simp_all add: cloneDocument_def emptyDocument_def)

lemma Entry_ops:
  "Entry j (snd (Put w i e s)) = (if j = i \<and> st_Err s = None \<and> w then Some e else Entry j s)"
  "Entry j (snd (Delete w i s)) = (if j = i \<and> st_Err s = None \<and> w then None else Entry j s)"
  "Entry j (snd (SetOverride w i v s)) = Entry j s"
  "Entry j (snd (AddSent w i r s)) = Entry j s"
  "Entry j (snd (Recover w now s)) = (if st_Err s = None \<and> w then map_option (recover_entry now) (Entry j s) else Entry j s)"
  "Entry j (snd (Prune w keep cutoff s)) =
     (if prune_stale keep cutoff (st_Doc s) \<and> st_Err s = None \<and> w \<and> \<not> keep j then None else Entry j s)"
  unfolding Put_def Delete_def SetOverride_def AddSent_def Recover_def Prune_def if_distrib [of snd] if_distrib [of "Entry j"] Entry_update
  by (auto simp: put_entry_def delete_entry_def choose_override_def add_record_def recover_lanes_def prune_document_def Entry_def)

lemma Override_ops:
  "Override j (snd (Put w i e s)) = Override j s"
  "Override j (snd (Delete w i s)) = Override j s"
  unfolding Put_def Delete_def if_distrib [of snd] if_distrib [of "Override j"] Override_update
  by (auto simp: put_entry_def delete_entry_def Override_def)

section \<open>The attribution records stay bounded\<close>

definition sent_bounded :: "store_document \<Rightarrow> bool" where
  "sent_bounded d \<longleftrightarrow> (\<forall>i rs. cd_Sent d i = Some rs \<longrightarrow> length rs \<le> sentLimit)"

lemma bounded_changes:
  assumes "sent_bounded d"
  shows "sent_bounded (put_entry i e d)" "sent_bounded (delete_entry i d)" "sent_bounded (choose_override i v d)"
    "sent_bounded (add_record i r d)" "sent_bounded (recover_lanes now d)" "sent_bounded (prune_document keep cutoff d)"
proof -
  show "sent_bounded (put_entry i e d)" "sent_bounded (delete_entry i d)" "sent_bounded (choose_override i v d)" "sent_bounded (recover_lanes now d)"
    using assms by (simp_all add: sent_bounded_def put_entry_def delete_entry_def choose_override_def recover_lanes_def)
  show "sent_bounded (add_record i r d)"
    using assms by (auto simp: sent_bounded_def add_record_def last_records_def)
  show "sent_bounded (prune_document keep cutoff d)"
  proof (unfold sent_bounded_def, intro allI impI)
    fix j rs assume "cd_Sent (prune_document keep cutoff d) j = Some rs"
    then obtain qs where q: "cd_Sent d j = Some qs" "recent_records cutoff qs = Some rs"
      by (auto simp: prune_document_def bind_eq_Some_conv)
    from q(2) have "length rs \<le> length qs" by (auto simp: recent_records_def Let_def split: if_splits)
    with q(1) assms show "length rs \<le> sentLimit" by (meson le_trans sent_bounded_def)
  qed
qed

end
