(* ===== verification/Compaction_Scheduler.thy ===== *)
theory Compaction_Scheduler
  imports Compaction_Store
begin

text \<open>
  The scheduler of idle compaction, \<open>scheduler.go\<close> of \<open>runtime/internal/compaction\<close>, and the delivery it is given,
  \<open>idle_compaction.go\<close> of \<open>runtime/internal/api\<close>.  A tick evaluates every lane, records new plans and delivers the due
  ones one after the other.  Times are nanoseconds where the code holds a \<open>time.Time\<close> and milliseconds in the document;
  the outcomes of the file writes are arguments.
\<close>

section \<open>Deciding one lane\<close>

definition absentGrace :: int where "absentGrace = 10 * 60 * 1000000000"
definition sentRetention :: int where "sentRetention = 30 * 24 * 60 * 60 * 1000000000"

record candidate =
  ca_Lane :: compaction_lane
  ca_EventCount :: int
  ca_Events :: "byte list list"

record lane_status =
  ls_ID :: string
  ls_Name :: string
  ls_Structured :: bool
  ls_Override :: "bool option"
  ls_Enabled :: bool
  ls_Reason :: "reason option"
  ls_Next :: "compaction_plan option"
  ls_Last :: "compaction_entry option"

record decision =
  dn_Status :: lane_status
  dn_Candidate :: candidate
  dn_Due :: bool

record scheduler =
  sd_Store :: compaction_store
  sd_Cache :: "string \<rightharpoonup> int \<times> compaction_observation"
  sd_Absent :: "string \<rightharpoonup> int"

definition observe_cached :: "(string \<Rightarrow> int option) \<Rightarrow> (byte list \<Rightarrow> json option) \<Rightarrow> candidate \<Rightarrow> scheduler \<Rightarrow> compaction_observation \<times> scheduler" where
  "observe_cached clock parse c s =
     (let i = cn_ID (ca_Lane c); fresh = Observe clock parse (ca_Events c);
          remembered = (fresh, s\<lparr>sd_Cache := (sd_Cache s)(i \<mapsto> (ca_EventCount c, fresh))\<rparr>)
      in case sd_Cache s i of
          None \<Rightarrow> remembered
        | Some (n, obs) \<Rightarrow> if n = ca_EventCount c then (obs, s) else remembered)"

text \<open>What \<open>decide\<close> makes of the observation and the lane's entry, before it writes anything.\<close>

datatype verdict = NoPlan reason | WindowClosed compaction_entry | Acted string | Planned compaction_plan

definition is_scheduled :: "compaction_entry option \<Rightarrow> bool" where
  "is_scheduled was = (case was of Some e \<Rightarrow> ce_State e = StateScheduled | None \<Rightarrow> False)"

definition missed_entry :: "int \<Rightarrow> compaction_entry \<Rightarrow> compaction_entry" where
  "missed_entry now e = e\<lparr>ce_State := StateMissed, ce_UpdatedAtMS := UnixMilli now,
     ce_Detail := ''The prompt cache window closed before Sessions could send /compact, for example while the computer slept.''\<rparr>"

definition verdict_of :: "compaction_lane \<Rightarrow> compaction_observation \<Rightarrow> compaction_entry option \<Rightarrow> int \<Rightarrow> verdict" where
  "verdict_of lane obs was now =
     (case Window lane obs (UnixMilli now) of (p, why) \<Rightarrow>
        case was of
          None \<Rightarrow> (case why of Some r \<Rightarrow> NoPlan r | None \<Rightarrow> Planned p)
        | Some e \<Rightarrow>
            let scheduled = (ce_State e = StateScheduled);
                recorded = (why = Some ReasonNoRequest \<and> scheduled \<and> UnixMilli now < cp_ExpiresAtMS (ce_Plan e));
                plan = (if recorded then ce_Plan e else p);
                reason = (if recorded then None else why)
            in if reason = Some ReasonExpired \<and> scheduled \<and> cp_Key (ce_Plan e) = cp_Key plan then WindowClosed (missed_entry now e)
               else case reason of
                   Some r \<Rightarrow> NoPlan r
                 | None \<Rightarrow> if cp_Key (ce_Plan e) = cp_Key plan \<and> \<not> scheduled then Acted (ce_State e) else Planned plan)"

definition scheduled_entry :: "compaction_plan \<Rightarrow> int \<Rightarrow> compaction_entry" where
  "scheduled_entry p now =
     \<lparr>ce_Plan = p, ce_State = StateScheduled, ce_OperationID = [], ce_Detail = [], ce_UpdatedAtMS = UnixMilli now\<rparr>"

text \<open>The write that follows: a cancelled schedule is deleted, a closed window recorded, a new plan put.\<close>

definition settle :: "bool \<Rightarrow> bool \<Rightarrow> string \<Rightarrow> int \<Rightarrow> verdict \<Rightarrow> compaction_store \<Rightarrow> compaction_store" where
  "settle write writes i now v st =
     (if \<not> write then st
      else case v of
          NoPlan r \<Rightarrow> if is_scheduled (Entry i st) then snd (Delete writes i st) else st
        | WindowClosed e \<Rightarrow> snd (Put writes i e st)
        | Acted w \<Rightarrow> st
        | Planned p \<Rightarrow>
            if is_scheduled (Entry i st) \<and> map_option ce_Plan (Entry i st) = Some p then st
            else snd (Put writes i (scheduled_entry p now) st))"

definition verdict_reason :: "verdict \<Rightarrow> reason option" where
  "verdict_reason v = (case v of NoPlan r \<Rightarrow> Some r | WindowClosed e \<Rightarrow> Some ReasonExpired | Acted w \<Rightarrow> Some (ReasonAlready w) | Planned p \<Rightarrow> None)"

definition verdict_plan :: "verdict \<Rightarrow> compaction_plan option" where
  "verdict_plan v = (case v of Planned p \<Rightarrow> Some p | _ \<Rightarrow> None)"

definition lane_enabled :: "bool option \<Rightarrow> bool \<Rightarrow> bool" where
  "lane_enabled choice global = (case choice of Some v \<Rightarrow> v | None \<Rightarrow> global)"

text \<open>The observation is read only when the setting and the lane's own facts allow a compaction.\<close>

definition lane_verdict ::
  "(string \<Rightarrow> int option) \<Rightarrow> (byte list \<Rightarrow> json option) \<Rightarrow> candidate \<Rightarrow> bool \<Rightarrow> int \<Rightarrow> scheduler \<Rightarrow> verdict \<times> scheduler" where
  "lane_verdict clock parse c global now s =
     (let lane = ca_Lane c in
      if \<not> lane_enabled (Override (cn_ID lane) (sd_Store s)) global then (NoPlan ReasonOff, s)
      else case LaneReason lane of
          Some r \<Rightarrow> (NoPlan r, s)
        | None \<Rightarrow> (case observe_cached clock parse c s of (obs, s1) \<Rightarrow>
            (verdict_of lane obs (Entry (cn_ID lane) (sd_Store s)) now, s1)))"

definition decide ::
  "(string \<Rightarrow> int option) \<Rightarrow> (byte list \<Rightarrow> json option) \<Rightarrow> candidate \<Rightarrow> bool \<Rightarrow> int \<Rightarrow> bool \<Rightarrow> bool \<Rightarrow> scheduler \<Rightarrow> decision \<times> scheduler" where
  "decide clock parse c global now write writes s =
     (case lane_verdict clock parse c global now s of (v, s1) \<Rightarrow>
        let lane = ca_Lane c; i = cn_ID lane; choice = Override i (sd_Store s) in
        (\<lparr>dn_Status = \<lparr>ls_ID = i, ls_Name = cn_Name lane, ls_Structured = cn_Structured lane, ls_Override = choice,
            ls_Enabled = lane_enabled choice global, ls_Reason = verdict_reason v, ls_Next = verdict_plan v,
            ls_Last = Entry i (sd_Store s)\<rparr>,
          dn_Candidate = c,
          dn_Due = (case v of Planned p \<Rightarrow> UnixMilli now \<ge> cp_FireAtMS p | _ \<Rightarrow> False)\<rparr>,
         s1\<lparr>sd_Store := settle write writes i now v (sd_Store s1)\<rparr>))"

section \<open>Evaluating every lane\<close>

text \<open>Each candidate comes with whether the write its decision may do works.\<close>

fun decide_all ::
  "(string \<Rightarrow> int option) \<Rightarrow> (byte list \<Rightarrow> json option) \<Rightarrow> bool \<Rightarrow> int \<Rightarrow> bool \<Rightarrow> (candidate \<times> bool) list \<Rightarrow> scheduler \<Rightarrow> decision list \<times> scheduler" where
  "decide_all clock parse global now write [] s = ([], s)"
| "decide_all clock parse global now write ((c, writes) # cs) s =
     (if \<not> cn_Claude (ca_Lane c) then decide_all clock parse global now write cs s
      else case decide clock parse c global now write writes s of (d, s1) \<Rightarrow>
        (case decide_all clock parse global now write cs s1 of (ds, s2) \<Rightarrow> (d # ds, s2)))"

definition is_live :: "(candidate \<times> bool) list \<Rightarrow> string \<Rightarrow> bool" where
  "is_live cs i \<longleftrightarrow> i \<in> set (map (\<lambda>c. cn_ID (ca_Lane (fst c))) cs)"

text \<open>
  \<open>prune\<close>: the lanes that are live are no longer absent, a lane that is asked for and gone is absent from now on, and one
  that was gone for \<open>absentGrace\<close> is forgotten.
\<close>

definition keeps :: "(candidate \<times> bool) list \<Rightarrow> int \<Rightarrow> scheduler \<Rightarrow> string \<Rightarrow> bool" where
  "keeps cs now s i \<longleftrightarrow> is_live cs i \<or> (case sd_Absent s i of None \<Rightarrow> True | Some since \<Rightarrow> now - since < absentGrace)"

definition absent_after :: "(candidate \<times> bool) list \<Rightarrow> int \<Rightarrow> scheduler \<Rightarrow> string \<Rightarrow> int option" where
  "absent_after cs now s i =
     (if is_live cs i then None
      else if sd_Absent s i = None \<and> (Entry i (sd_Store s) \<noteq> None \<or> Override i (sd_Store s) \<noteq> None) then Some now
      else sd_Absent s i)"

definition prune :: "bool \<Rightarrow> bool \<Rightarrow> (candidate \<times> bool) list \<Rightarrow> int \<Rightarrow> scheduler \<Rightarrow> scheduler" where
  "prune discovering writes cs now s =
     (if discovering then s
      else \<lparr>sd_Store = snd (Prune writes (keeps cs now s) (UnixMilli (now - sentRetention)) (sd_Store s)),
            sd_Cache = (\<lambda>i. if is_live cs i then sd_Cache s i else None),
            sd_Absent = absent_after cs now s\<rparr>)"

text \<open>The setting is \<open>None\<close> when it cannot be read.\<close>

datatype status_error = StoreError compaction_error | SettingError

record compaction_status =
  su_Enabled :: bool
  su_Error :: "status_error option"
  su_Lanes :: "lane_status list"

definition evaluate ::
  "(string \<Rightarrow> int option) \<Rightarrow> (byte list \<Rightarrow> json option) \<Rightarrow> bool option \<Rightarrow> int \<Rightarrow> bool \<Rightarrow> (candidate \<times> bool) list \<Rightarrow> bool \<Rightarrow> bool \<Rightarrow> scheduler
   \<Rightarrow> compaction_status \<times> decision list \<times> scheduler" where
  "evaluate clock parse setting now write cs discovering writes s =
     (case st_Err (sd_Store s) of
        Some e \<Rightarrow> (\<lparr>su_Enabled = False, su_Error = Some (StoreError e), su_Lanes = []\<rparr>, [], s)
      | None \<Rightarrow>
          (case setting of
             None \<Rightarrow> (\<lparr>su_Enabled = False, su_Error = Some SettingError, su_Lanes = []\<rparr>, [], s)
           | Some global \<Rightarrow>
               (case decide_all clock parse global now write cs s of (ds, s1) \<Rightarrow>
                  (\<lparr>su_Enabled = global, su_Error = None, su_Lanes = sort_key ls_ID (map dn_Status ds)\<rparr>, ds,
                   if write then prune discovering writes cs now s1 else s1))))"

definition Status ::
  "(string \<Rightarrow> int option) \<Rightarrow> (byte list \<Rightarrow> json option) \<Rightarrow> bool option \<Rightarrow> int \<Rightarrow> candidate list \<Rightarrow> scheduler \<Rightarrow> compaction_status \<times> scheduler" where
  "Status clock parse setting now cs s =
     (case evaluate clock parse setting now False (map (\<lambda>c. (c, True)) cs) False True s of (st, ds, s1) \<Rightarrow> (st, s1))"

text \<open>When the next plan fires, and how long \<open>Run\<close> waits before the next tick (milliseconds).\<close>

fun next_fire :: "decision list \<Rightarrow> int option" where
  "next_fire [] = None"
| "next_fire (d # ds) =
     (case (if dn_Due d then None else ls_Next (dn_Status d)) of
        None \<Rightarrow> next_fire ds
      | Some p \<Rightarrow> (case next_fire ds of None \<Rightarrow> Some (cp_FireAtMS p) | Some t \<Rightarrow> Some (min (cp_FireAtMS p) t)))"

definition Interval :: int where "Interval = 30 * 1000000000"

definition run_wait :: "int option \<Rightarrow> int \<Rightarrow> int" where
  "run_wait nxt now = (let wait = (case nxt of None \<Rightarrow> Interval | Some at \<Rightarrow> min Interval (at * 1000000 - now)) in max 1000000000 wait)"

section \<open>Delivering\<close>

record delivery_outcome =
  do_State :: string
  do_Detail :: string
  do_Observed :: "sent_record option"

text \<open>
  What \<open>deliverIdleCompaction\<close> finds and is answered: the gate of the lane, the session and its events then, whether the
  registry takes messages and what the runner answered, the steps of a paste, and the record it saw afterwards.
\<close>

record delivery_facts =
  df_GateError :: "string option"
  df_Info :: "session_info option"
  df_Child :: bool
  df_Events :: "byte list list"
  df_Service :: bool
  df_Answer :: "message_result \<times> string option"
  df_Steps :: legacy_steps
  df_Reason :: string
  df_Observed :: "sent_record option"

definition idleCompactionLane :: "bool \<Rightarrow> session_info \<Rightarrow> compaction_lane" where
  "idleCompactionLane child i =
     \<lparr>cn_ID = si_ID i,
      cn_Name = (if si_Name i \<noteq> [] then si_Name i else if si_ClaudeCustomTitle i \<noteq> [] then si_ClaudeCustomTitle i else si_ClaudeAITitle i),
      cn_Claude = (si_Tool i = ''claude-code'' \<or> si_Kind i = ''claude-structured''),
      cn_Structured = (si_Kind i = ''claude-structured''),
      cn_Exited = si_Exited i, cn_Unreachable = (si_Unreachable i \<or> si_RunnerGone i),
      cn_Launching = si_Launching i, cn_Working = si_Working i,
      cn_NeedsInput = (si_IdleReason i = ''needs-input'' \<or> si_PendingApproval i \<noteq> None),
      cn_Blocked = (si_FailureKind i \<noteq> [] \<or> si_Retry i \<noteq> None),
      cn_Child = child\<rparr>"

definition reason_text :: "(int \<Rightarrow> string) \<Rightarrow> reason \<Rightarrow> string" where
  "reason_text itoa r = (case r of
       ReasonNotClaude \<Rightarrow> ''not a Claude lane'' | ReasonEnded \<Rightarrow> ''lane has ended'' | ReasonUnreachable \<Rightarrow> ''runner is unreachable''
     | ReasonLaunching \<Rightarrow> ''lane is still starting'' | ReasonWorking \<Rightarrow> ''lane is working'' | ReasonNeedsInput \<Rightarrow> ''lane is waiting for input''
     | ReasonBlocked \<Rightarrow> ''lane is blocked by a provider failure'' | ReasonChild \<Rightarrow> ''delegated child lane''
     | ReasonQueued \<Rightarrow> ''input is queued for the next turn'' | ReasonNoRequest \<Rightarrow> ''no Claude request observed yet''
     | ReasonUnknownTTL \<Rightarrow> ''cache lifetime unknown: the last request was served from cache''
     | ReasonUnknownStart \<Rightarrow> ''request start time unknown'' | ReasonCompacted \<Rightarrow> ''already compacted since the last request''
     | ReasonExpired \<Rightarrow> ''prompt cache already expired''
     | ReasonBelowThreshold n \<Rightarrow> ''context '' @ itoa n @ '' tokens is below '' @ itoa MinContextTokens
     | ReasonOff \<Rightarrow> ''idle compaction is off for this lane''
     | ReasonAlready w \<Rightarrow> ''compaction for this request already '' @ w)"

definition outcome :: "string \<Rightarrow> string \<Rightarrow> delivery_outcome" where
  "outcome state detail = \<lparr>do_State = state, do_Detail = detail, do_Observed = None\<rparr>"

definition submitIdleCompaction :: "bool \<Rightarrow> message_result \<times> string option \<Rightarrow> delivery_outcome" where
  "submitIdleCompaction service answer =
     (if \<not> service then outcome StateFailed ''acknowledged message control is unavailable; nothing was sent''
      else case answer of (r, err) \<Rightarrow>
        (case err of
           Some e \<Rightarrow> outcome StateUnconfirmed (''runner did not confirm /compact: '' @ e @ ''; inspect the conversation'')
         | None \<Rightarrow>
             if mr_Boundary r = ''unknown'' then outcome StateUnconfirmed ''runner could not confirm /compact; inspect the conversation''
             else if mr_Accepted r then outcome StateSent (''accepted by the runner ('' @ mr_Boundary r @ '')'')
             else outcome StateFailed (''runner refused /compact: '' @ mr_Error r)))"

definition pasteIdleCompaction :: "legacy_steps \<Rightarrow> string \<Rightarrow> delivery_outcome" where
  "pasteIdleCompaction g reason =
     (case deliverLegacyProvider g of (st, delivered, touched) \<Rightarrow>
        if delivered then outcome StateSent reason
        else if st = StatusNotDelivered then outcome StateFailed reason
        else outcome StateUnconfirmed reason)"

text \<open>The second result is whether the lane was given input: a message handed to the runner, or bytes written to its terminal.\<close>

definition deliverIdleCompaction ::
  "(string \<Rightarrow> int option) \<Rightarrow> (byte list \<Rightarrow> json option) \<Rightarrow> (int \<Rightarrow> string) \<Rightarrow> candidate \<Rightarrow> string \<Rightarrow> delivery_facts \<Rightarrow> delivery_outcome \<times> bool" where
  "deliverIdleCompaction clock parse itoa c operation f =
     (case df_GateError f of
        Some e \<Rightarrow> (outcome [] (''lane input is busy: '' @ e), False)
      | None \<Rightarrow>
          (case df_Info f of
             None \<Rightarrow> (outcome [] ''lane is unavailable'', False)
           | Some i \<Rightarrow>
               (case LaneReason (idleCompactionLane (df_Child f \<or> cn_Child (ca_Lane c)) i) of
                  Some r \<Rightarrow> (outcome [] (reason_text itoa r), False)
                | None \<Rightarrow>
                    if bo_QueuedInput (Observe clock parse (df_Events f)) then (outcome [] (reason_text itoa ReasonQueued), False)
                    else if \<not> si_MessageSubmit i \<and> \<not> legacyProvider i
                    then (outcome StateFailed ''lane accepts no message input; nothing was sent'', False)
                    else let (out, given) =
                           (if si_MessageSubmit i then (submitIdleCompaction (df_Service f) (df_Answer f), df_Service f)
                            else (pasteIdleCompaction (df_Steps f) (df_Reason f), snd (snd (deliverLegacyProvider (df_Steps f)))))
                         in if do_State out = StateFailed then (out, given)
                            else case df_Observed f of
                                None \<Rightarrow> (out, given)
                              | Some r \<Rightarrow>
                                  ((if do_State out = StateUnconfirmed
                                    then out\<lparr>do_State := StateSent, do_Detail := ''/compact observed in provider history''\<rparr>
                                    else out)\<lparr>do_Observed := Some (r\<lparr>sn_OperationID := operation\<rparr>)\<rparr>, given))))"

text \<open>The two halves of \<open>deliver\<close>: the sending state before anything reaches the lane, and what became of it.\<close>

definition sending_entry :: "compaction_plan \<Rightarrow> string \<Rightarrow> int \<Rightarrow> compaction_entry" where
  "sending_entry p operation now =
     \<lparr>ce_Plan = p, ce_State = StateSending, ce_OperationID = operation, ce_Detail = [], ce_UpdatedAtMS = UnixMilli now\<rparr>"

definition deliver_begin :: "bool \<Rightarrow> string \<Rightarrow> compaction_plan \<Rightarrow> string \<Rightarrow> int \<Rightarrow> compaction_store \<Rightarrow> compaction_error option \<times> compaction_store" where
  "deliver_begin writes i p operation now st = Put writes i (sending_entry p operation now) st"

definition deliver_end ::
  "bool \<Rightarrow> bool \<Rightarrow> string \<Rightarrow> compaction_plan \<Rightarrow> string \<Rightarrow> int \<Rightarrow> int \<Rightarrow> delivery_outcome \<Rightarrow> compaction_store \<Rightarrow> compaction_store" where
  "deliver_end writes writes' i p operation sentAt now out st =
     (let was = (sending_entry p operation sentAt)\<lparr>ce_UpdatedAtMS := UnixMilli now, ce_Detail := do_Detail out\<rparr> in
      if do_State out = [] then snd (Put writes i (was\<lparr>ce_State := StateScheduled, ce_OperationID := []\<rparr>) st)
      else let st1 = snd (Put writes i (was\<lparr>ce_State := do_State out\<rparr>) st) in
        if do_State out = StateFailed then st1
        else snd (AddSent writes' i
          (case do_Observed out of
             None \<Rightarrow> \<lparr>sn_OperationID = operation, sn_Text = CommandText, sn_AtMS = UnixMilli sentAt\<rparr>
           | Some r \<Rightarrow> \<lparr>sn_OperationID = operation, sn_Text = sn_Text r, sn_AtMS = sn_AtMS r\<rparr>) st1))"

section \<open>What a decision rests on\<close>

lemma LaneReason_facts: "LaneReason l \<noteq> Some ReasonNoRequest" "LaneReason l \<noteq> Some ReasonExpired"
  by (simp_all add: LaneReason_def)

lemma Window_no_request: "Window l obs now = (p, Some ReasonNoRequest) \<Longrightarrow> LaneReason l = None \<and> bo_RequestID obs = []"
  using LaneReason_facts by (auto simp: Window_def Let_def split: option.splits if_splits)

lemma verdict_planned:
  assumes "verdict_of lane obs was now = Planned p"
  shows "LaneReason lane = None" "UnixMilli now < cp_ExpiresAtMS p"
    and "\<And>e. was = Some e \<Longrightarrow> cp_Key (ce_Plan e) = cp_Key p \<Longrightarrow> ce_State e = StateScheduled"
    and "(bo_RequestID obs \<noteq> [] \<and> cp_Key p = bo_RequestID obs)
       \<or> (bo_RequestID obs = [] \<and> (\<exists>e. was = Some e \<and> ce_State e = StateScheduled \<and> p = ce_Plan e))"
proof -
  obtain q why where w: "Window lane obs (UnixMilli now) = (q, why)" by fastforce
  have base: "(why = None \<and> p = q) \<or> (why = Some ReasonNoRequest \<and> (\<exists>e. was = Some e \<and> ce_State e = StateScheduled
      \<and> UnixMilli now < cp_ExpiresAtMS (ce_Plan e) \<and> p = ce_Plan e))"
    using assms by (auto simp: verdict_of_def w Let_def split: option.splits if_splits)
  show "LaneReason lane = None" using base Window_plan(1) Window_no_request w by blast
  show "UnixMilli now < cp_ExpiresAtMS p" using base Window_plan(8) w by blast
  show "(bo_RequestID obs \<noteq> [] \<and> cp_Key p = bo_RequestID obs)
       \<or> (bo_RequestID obs = [] \<and> (\<exists>e. was = Some e \<and> ce_State e = StateScheduled \<and> p = ce_Plan e))"
    using base Window_plan(3,4) Window_no_request w by blast
  show "ce_State e = StateScheduled" if "was = Some e" "cp_Key (ce_Plan e) = cp_Key p" for e
    using assms that by (auto simp: verdict_of_def w Let_def split: option.splits if_splits)
qed

text \<open>A plan is the one the observed request allows, or the recorded one when no request is observed.\<close>

lemma verdict_window:
  assumes "verdict_of lane obs was now = Planned p"
  shows "request_window obs p
    \<or> (bo_RequestID obs = [] \<and> (\<exists>e. was = Some e \<and> ce_State e = StateScheduled \<and> p = ce_Plan e))"
proof -
  obtain q why where w: "Window lane obs (UnixMilli now) = (q, why)" by fastforce
  have "(why = None \<and> p = q) \<or> (why = Some ReasonNoRequest \<and> (\<exists>e. was = Some e \<and> ce_State e = StateScheduled \<and> p = ce_Plan e))"
    using assms by (auto simp: verdict_of_def w Let_def split: option.splits if_splits)
  then show ?thesis using Window_request Window_no_request w by blast
qed

lemma verdict_closed:
  assumes "verdict_of lane obs was now = WindowClosed e"
  shows "\<exists>x. was = Some x \<and> ce_State x = StateScheduled \<and> e = missed_entry now x"
proof -
  obtain q why where w: "Window lane obs (UnixMilli now) = (q, why)" by fastforce
  show ?thesis using assms by (auto simp: verdict_of_def w Let_def split: option.splits if_splits)
qed

lemma lane_verdict_cases:
  obtains r where "fst (lane_verdict clock parse c global now s) = NoPlan r"
    "\<not> lane_enabled (Override (cn_ID (ca_Lane c)) (sd_Store s)) global \<or> LaneReason (ca_Lane c) \<noteq> None"
  | "lane_enabled (Override (cn_ID (ca_Lane c)) (sd_Store s)) global" "LaneReason (ca_Lane c) = None"
    "fst (lane_verdict clock parse c global now s)
      = verdict_of (ca_Lane c) (fst (observe_cached clock parse c s)) (Entry (cn_ID (ca_Lane c)) (sd_Store s)) now"
  by (cases "LaneReason (ca_Lane c)"; cases "lane_enabled (Override (cn_ID (ca_Lane c)) (sd_Store s)) global")
    (auto simp: lane_verdict_def Let_def case_prod_unfold)

text \<open>All that one lane's decision reads of the scheduler, and all that it changes.\<close>

definition lane_view :: "string \<Rightarrow> scheduler \<Rightarrow> bool option \<times> compaction_entry option \<times> (int \<times> compaction_observation) option \<times> compaction_error option" where
  "lane_view i s = (Override i (sd_Store s), Entry i (sd_Store s), sd_Cache s i, st_Err (sd_Store s))"

lemma observe_store [simp]: "sd_Store (snd (observe_cached clock parse c s)) = sd_Store s"
  by (simp add: observe_cached_def Let_def split: option.splits)

lemma observe_absent [simp]: "sd_Absent (snd (observe_cached clock parse c s)) = sd_Absent s"
  by (simp add: observe_cached_def Let_def split: option.splits)

lemma lane_verdict_store [simp]: "sd_Store (snd (lane_verdict clock parse c global now s)) = sd_Store s"
  by (simp add: lane_verdict_def Let_def split: option.splits prod.splits) (metis observe_store snd_conv)

lemma observe_local:
  assumes "sd_Cache s (cn_ID (ca_Lane c)) = sd_Cache s' (cn_ID (ca_Lane c))"
  shows "fst (observe_cached clock parse c s) = fst (observe_cached clock parse c s')"
    "sd_Cache (snd (observe_cached clock parse c s)) (cn_ID (ca_Lane c)) = sd_Cache (snd (observe_cached clock parse c s')) (cn_ID (ca_Lane c))"
  using assms by (auto simp: observe_cached_def Let_def split: option.splits)

lemma observe_other: "j \<noteq> cn_ID (ca_Lane c) \<Longrightarrow> sd_Cache (snd (observe_cached clock parse c s)) j = sd_Cache s j"
  by (auto simp: observe_cached_def Let_def split: option.splits)

lemma lane_verdict_local:
  assumes "lane_view (cn_ID (ca_Lane c)) s = lane_view (cn_ID (ca_Lane c)) s'"
  shows "fst (lane_verdict clock parse c global now s) = fst (lane_verdict clock parse c global now s')"
    "sd_Cache (snd (lane_verdict clock parse c global now s)) (cn_ID (ca_Lane c))
      = sd_Cache (snd (lane_verdict clock parse c global now s')) (cn_ID (ca_Lane c))"
  using observe_local [of s c s' clock parse] assms
  by (auto simp: lane_verdict_def lane_view_def Let_def split: option.splits prod.splits)

lemma lane_verdict_other: "j \<noteq> cn_ID (ca_Lane c) \<Longrightarrow> sd_Cache (snd (lane_verdict clock parse c global now s)) j = sd_Cache s j"
  using observe_other [of j c clock parse s]
  by (auto simp: lane_verdict_def Let_def split: option.splits prod.splits)

lemma settle_err [simp]: "st_Err (settle write writes i now v st) = st_Err st"
  by (auto simp: settle_def split: verdict.splits)

lemma settle_override [simp]: "Override j (settle write writes i now v st) = Override j st"
  by (auto simp: settle_def Override_ops split: verdict.splits)

lemma settle_other: "j \<noteq> i \<Longrightarrow> Entry j (settle write writes i now v st) = Entry j st"
  by (auto simp: settle_def Entry_ops split: verdict.splits)

lemma settle_local:
  "Entry i st = Entry i st' \<Longrightarrow> st_Err st = st_Err st' \<Longrightarrow>
     Entry i (settle write writes i now v st) = Entry i (settle write writes i now v st')"
  by (auto simp: settle_def Entry_ops split: verdict.splits)

lemma decide_status: "fst (decide clock parse c global now write writes s) = fst (decide clock parse c global now write' writes' s)"
  by (simp add: decide_def Let_def split: prod.splits)

lemma decide_parts:
  "dn_Candidate (fst (decide clock parse c global now write writes s)) = c"
  "ls_ID (dn_Status (fst (decide clock parse c global now write writes s))) = cn_ID (ca_Lane c)"
  "ls_Next (dn_Status (fst (decide clock parse c global now write writes s))) = verdict_plan (fst (lane_verdict clock parse c global now s))"
  "ls_Last (dn_Status (fst (decide clock parse c global now write writes s))) = Entry (cn_ID (ca_Lane c)) (sd_Store s)"
  "sd_Store (snd (decide clock parse c global now write writes s))
     = settle write writes (cn_ID (ca_Lane c)) now (fst (lane_verdict clock parse c global now s)) (sd_Store s)"
  "sd_Cache (snd (decide clock parse c global now write writes s)) = sd_Cache (snd (lane_verdict clock parse c global now s))"
  by (simp_all add: decide_def Let_def split: prod.splits) (metis lane_verdict_store snd_conv)

lemma decide_local:
  assumes "lane_view (cn_ID (ca_Lane c)) s = lane_view (cn_ID (ca_Lane c)) s'"
  shows "fst (decide clock parse c global now write writes s) = fst (decide clock parse c global now write writes s')"
    and "lane_view (cn_ID (ca_Lane c)) (snd (decide clock parse c global now write writes s))
       = lane_view (cn_ID (ca_Lane c)) (snd (decide clock parse c global now write writes s'))"
proof -
  note l = lane_verdict_local [OF assms]
  show "fst (decide clock parse c global now write writes s) = fst (decide clock parse c global now write writes s')"
    using l(1) [of clock parse global now] assms by (simp add: decide_def Let_def lane_view_def case_prod_unfold)
  show "lane_view (cn_ID (ca_Lane c)) (snd (decide clock parse c global now write writes s))
       = lane_view (cn_ID (ca_Lane c)) (snd (decide clock parse c global now write writes s'))"
    using l(1,2) assms by (auto simp: lane_view_def decide_parts intro: settle_local)
qed

lemma decide_other:
  "j \<noteq> cn_ID (ca_Lane c) \<Longrightarrow> lane_view j (snd (decide clock parse c global now write writes s)) = lane_view j s"
  by (simp add: lane_view_def decide_parts settle_other lane_verdict_other)

abbreviation candidate_id :: "candidate \<times> bool \<Rightarrow> string" where
  "candidate_id c \<equiv> cn_ID (ca_Lane (fst c))"

definition distinct_lanes :: "(candidate \<times> bool) list \<Rightarrow> bool" where
  "distinct_lanes cs \<longleftrightarrow> distinct (map candidate_id cs)"

lemma decide_all_other:
  "j \<notin> candidate_id ` set cs \<Longrightarrow> lane_view j (snd (decide_all clock parse global now write cs s)) = lane_view j s"
proof (induction cs arbitrary: s)
  case (Cons c cs)
  then show ?case by (cases c) (simp split: prod.splits, metis decide_other snd_conv)
qed simp

text \<open>With one candidate per lane, each decision is the one made of the scheduler as the tick found it.\<close>

lemma decide_all_status:
  assumes "distinct_lanes cs" "\<And>c. c \<in> set cs \<Longrightarrow> lane_view (candidate_id c) s = lane_view (candidate_id c) s'"
  shows "fst (decide_all clock parse global now write cs s)
    = map (\<lambda>c. fst (decide clock parse (fst c) global now False True s')) (filter (\<lambda>c. cn_Claude (ca_Lane (fst c))) cs)"
  using assms
proof (induction cs arbitrary: s)
  case (Cons c cs)
  obtain a w where c: "c = (a, w)" by fastforce
  have ids: "\<And>d. d \<in> set cs \<Longrightarrow> candidate_id d \<noteq> cn_ID (ca_Lane a)" and rest: "distinct_lanes cs"
    using Cons.prems(1) by (force simp: distinct_lanes_def c)+
  let ?s1 = "snd (decide clock parse a global now write w s)"
  have "lane_view (candidate_id d) ?s1 = lane_view (candidate_id d) s'" if "d \<in> set cs" for d
    using decide_other [OF ids [OF that]] Cons.prems(2) that by simp
  from Cons.IH [OF rest this]
  have tail: "fst (decide_all clock parse global now write cs ?s1)
    = map (\<lambda>c. fst (decide clock parse (fst c) global now False True s')) (filter (\<lambda>c. cn_Claude (ca_Lane (fst c))) cs)" .
  have head: "fst (decide clock parse a global now write w s) = fst (decide clock parse a global now False True s')"
    using decide_local(1) [of a s s' clock parse global now "write" w] Cons.prems(2) [of c] decide_status [of clock parse a global now "write" w s' False True]
    by (simp add: c)
  from Cons.IH [OF rest] Cons.prems(2) have skip: "fst (decide_all clock parse global now write cs s)
    = map (\<lambda>c. fst (decide clock parse (fst c) global now False True s')) (filter (\<lambda>c. cn_Claude (ca_Lane (fst c))) cs)" by simp
  show ?case using head tail skip by (simp add: c split: prod.splits) (metis fst_conv snd_conv)
qed simp

lemma decide_all_entry:
  assumes "distinct_lanes cs" "c \<in> set cs" "cn_Claude (ca_Lane (fst c))"
  shows "lane_view (candidate_id c) (snd (decide_all clock parse global now write cs s))
    = lane_view (candidate_id c) (snd (decide clock parse (fst c) global now write (snd c) s))"
  using assms
proof (induction cs arbitrary: s)
  case (Cons b cs)
  obtain a w where b: "b = (a, w)" by fastforce
  have rest: "distinct_lanes cs" and ids: "cn_ID (ca_Lane a) \<notin> candidate_id ` set cs"
    using Cons.prems(1) by (auto simp: distinct_lanes_def b)
  let ?s1 = "if cn_Claude (ca_Lane a) then snd (decide clock parse a global now write w s) else s"
  have step: "snd (decide_all clock parse global now write (b # cs) s) = snd (decide_all clock parse global now write cs ?s1)"
    by (simp add: b case_prod_unfold)
  show ?case
  proof (cases "c = b")
    case True
    then show ?thesis using decide_all_other [OF ids, of clock parse global now "write"] Cons.prems(3)
      by (simp only: step) (simp add: b)
  next
    case False
    then have c: "c \<in> set cs" using Cons.prems(2) by simp
    then have ne: "candidate_id c \<noteq> cn_ID (ca_Lane a)" using ids by (metis image_eqI)
    have "lane_view (candidate_id c) ?s1 = lane_view (candidate_id c) s" using decide_other [OF ne] by simp
    from decide_local(2) [OF this] Cons.IH [OF rest c Cons.prems(3)] show ?thesis by (simp only: step)
  qed
qed simp

lemma decide_all_member:
  assumes "d \<in> set (fst (decide_all clock parse global now write cs s))"
  obtains c s' where "c \<in> set cs" "cn_Claude (ca_Lane (fst c))" "d = fst (decide clock parse (fst c) global now write (snd c) s')"
  using assms
proof (induction cs arbitrary: s)
  case (Cons b cs)
  obtain a w where b: "b = (a, w)" by fastforce
  show ?case
  proof (cases "cn_Claude (ca_Lane a)")
    case False
    then have "d \<in> set (fst (decide_all clock parse global now write cs s))" using Cons.prems(2) by (simp add: b)
    then show ?thesis using Cons.IH [of s] Cons.prems(1) by (meson list.set_intros(2))
  next
    case True
    let ?s1 = "snd (decide clock parse a global now write w s)"
    have "d = fst (decide clock parse a global now write w s) \<or> d \<in> set (fst (decide_all clock parse global now write cs ?s1))"
      using Cons.prems(2) True by (auto simp: b split: prod.splits)
    then show ?thesis
    proof
      assume "d = fst (decide clock parse a global now write w s)"
      then show ?thesis using Cons.prems(1) [of b s] True by (simp add: b)
    next
      assume "d \<in> set (fst (decide_all clock parse global now write cs ?s1))"
      then show ?thesis using Cons.IH [of ?s1] Cons.prems(1) by (meson list.set_intros(2))
    qed
  qed
qed simp

end
