(* ===== verification/Compaction_Runs.thy ===== *)
theory Compaction_Runs
  imports Compaction_Scheduler
begin

text \<open>
  Idle compaction as it runs: ticks, the deliveries of their due lanes one after the other, choices a person makes in between,
  status requests, and the daemon stopping at any moment and starting again on the file it finds.  Two fields only record
  history: for each lane the requests its ticks observed, and those for which the lane was given \<open>/compact\<close> since the lane
  was last forgotten.
\<close>

section \<open>The system\<close>

record compaction_system =
  cs_Sched :: scheduler
  cs_Pending :: "(candidate \<times> compaction_plan) list"
  cs_Sending :: "(candidate \<times> compaction_plan \<times> string \<times> int) option"
  cs_Seen :: "string \<Rightarrow> string list"
  cs_Given :: "string \<Rightarrow> string list"

text \<open>
  A tick, given the setting, the time, the candidates with the outcome of each write, whether the registry is still
  discovering and whether the pruning write works; a status request; the sending state of the next due lane; the end of its
  delivery; a lane's choice; and the daemon stopped (the flag is whether the lane of a delivery under way was given the
  command) and started on a readable or unreadable file.
\<close>

datatype compaction_action =
    Tick "bool option" int "(candidate \<times> bool) list" bool bool
  | AskStatus "bool option" int "candidate list"
  | StartSending string int bool
  | Delivered delivery_facts int bool bool
  | Choose string "bool option" bool
  | Restart bool bool int bool

definition due_plans :: "decision list \<Rightarrow> (candidate \<times> compaction_plan) list" where
  "due_plans ds = List.map_filter (\<lambda>d. if dn_Due d then map_option (Pair (dn_Candidate d)) (ls_Next (dn_Status d)) else None) ds"

definition seen_key :: "(string \<Rightarrow> int option) \<Rightarrow> (byte list \<Rightarrow> json option) \<Rightarrow> bool \<Rightarrow> scheduler \<Rightarrow> candidate \<Rightarrow> string option" where
  "seen_key clock parse global s c =
     (let lane = ca_Lane c; k = bo_RequestID (fst (observe_cached clock parse c s)) in
      if cn_Claude lane \<and> lane_enabled (Override (cn_ID lane) (sd_Store s)) global \<and> LaneReason lane = None \<and> k \<noteq> [] then Some k else None)"

definition seen_keys ::
  "(string \<Rightarrow> int option) \<Rightarrow> (byte list \<Rightarrow> json option) \<Rightarrow> bool option \<Rightarrow> (candidate \<times> bool) list \<Rightarrow> scheduler \<Rightarrow> string \<Rightarrow> string list" where
  "seen_keys clock parse setting cs s i =
     (case (st_Err (sd_Store s), setting) of
        (None, Some global) \<Rightarrow> List.map_filter (seen_key clock parse global s) (map fst (filter (\<lambda>c. candidate_id c = i) cs))
      | _ \<Rightarrow> [])"

definition forgotten :: "scheduler \<Rightarrow> scheduler \<Rightarrow> bool \<Rightarrow> (candidate \<times> bool) list \<Rightarrow> int \<Rightarrow> string \<Rightarrow> bool" where
  "forgotten before after discovering cs now i \<longleftrightarrow> \<not> discovering \<and> \<not> keeps cs now before i
     \<and> Entry i (sd_Store before) \<noteq> None \<and> Entry i (sd_Store after) = None"

definition sending_id :: "candidate \<times> compaction_plan \<times> string \<times> int \<Rightarrow> string" where
  "sending_id x = cn_ID (ca_Lane (fst x))"

definition note_given :: "bool \<Rightarrow> (candidate \<times> compaction_plan \<times> string \<times> int) option \<Rightarrow> (string \<Rightarrow> string list) \<Rightarrow> string \<Rightarrow> string list" where
  "note_given given sending g =
     (case sending of
        Some (c, p, operation, at) \<Rightarrow>
          if given then g(cn_ID (ca_Lane c) := g (cn_ID (ca_Lane c)) @ [cp_Key p]) else g
      | None \<Rightarrow> g)"

definition compaction_step ::
  "(string \<Rightarrow> int option) \<Rightarrow> (byte list \<Rightarrow> json option) \<Rightarrow> (int \<Rightarrow> string) \<Rightarrow> compaction_action \<Rightarrow> compaction_system \<Rightarrow> compaction_system" where
  "compaction_step clock parse itoa a s =
     (let sched = cs_Sched s; st = sd_Store sched in
      case a of
        Tick setting now cs discovering writes \<Rightarrow>
          if cs_Pending s \<noteq> [] \<or> cs_Sending s \<noteq> None then s
          else (case evaluate clock parse setting now True cs discovering writes sched of (out, ds, sched') \<Rightarrow>
            s\<lparr>cs_Sched := sched', cs_Pending := due_plans ds,
              cs_Seen := (\<lambda>i. cs_Seen s i @ seen_keys clock parse setting cs sched i),
              cs_Given := (\<lambda>i. if forgotten sched sched' discovering cs now i then [] else cs_Given s i)\<rparr>)
      | AskStatus setting now cs \<Rightarrow> s\<lparr>cs_Sched := snd (Status clock parse setting now cs sched)\<rparr>
      | StartSending operation now writes \<Rightarrow>
          (case (cs_Sending s, cs_Pending s) of
             (None, (c, p) # rest) \<Rightarrow>
               (case deliver_begin writes (cn_ID (ca_Lane c)) p operation now st of
                  (None, st') \<Rightarrow> s\<lparr>cs_Sched := sched\<lparr>sd_Store := st'\<rparr>, cs_Pending := rest, cs_Sending := Some (c, p, operation, now)\<rparr>
                | (Some e, st') \<Rightarrow> s\<lparr>cs_Sched := sched\<lparr>sd_Store := st'\<rparr>, cs_Pending := rest\<rparr>)
           | _ \<Rightarrow> s)
      | Delivered facts now writes writes' \<Rightarrow>
          (case cs_Sending s of
             Some (c, p, operation, at) \<Rightarrow>
               (case deliverIdleCompaction clock parse itoa c operation facts of (out, given) \<Rightarrow>
                  s\<lparr>cs_Sched := sched\<lparr>sd_Store := deliver_end writes writes' (cn_ID (ca_Lane c)) p operation at now out st\<rparr>,
                    cs_Sending := None, cs_Given := note_given given (cs_Sending s) (cs_Given s)\<rparr>)
           | None \<Rightarrow> s)
      | Choose i v writes \<Rightarrow> s\<lparr>cs_Sched := sched\<lparr>sd_Store := snd (SetOverride writes i v st)\<rparr>\<rparr>
      | Restart given readable now writes \<Rightarrow>
          s\<lparr>cs_Sched := \<lparr>sd_Store = snd (Recover writes now (OpenStore readable (st_File st))), sd_Cache = Map.empty, sd_Absent = Map.empty\<rparr>,
            cs_Pending := [], cs_Sending := None, cs_Given := note_given given (cs_Sending s) (cs_Given s)\<rparr>)"

definition compaction_start :: compaction_system where
  "compaction_start = \<lparr>cs_Sched = \<lparr>sd_Store = OpenStore True NoFile, sd_Cache = Map.empty, sd_Absent = Map.empty\<rparr>,
     cs_Pending = [], cs_Sending = None, cs_Seen = (\<lambda>i. []), cs_Given = (\<lambda>i. [])\<rparr>"

definition compaction_run ::
  "(string \<Rightarrow> int option) \<Rightarrow> (byte list \<Rightarrow> json option) \<Rightarrow> (int \<Rightarrow> string) \<Rightarrow> compaction_action list \<Rightarrow> compaction_system" where
  "compaction_run clock parse itoa as = foldl (\<lambda>s a. compaction_step clock parse itoa a s) compaction_start as"

definition one_candidate_per_lane :: "compaction_action \<Rightarrow> bool" where
  "one_candidate_per_lane a = (case a of Tick setting now cs discovering writes \<Rightarrow> distinct_lanes cs | _ \<Rightarrow> True)"

section \<open>The store behind a run\<close>

definition sound_store :: "compaction_store \<Rightarrow> bool" where
  "sound_store st \<longleftrightarrow> current st \<and> sent_bounded (filed st)"

lemma update_sound:
  assumes "sound_store st" "\<And>d. cd_Version (f d) = cd_Version d" "\<And>d. sent_bounded d \<Longrightarrow> sent_bounded (f d)"
  shows "sound_store (snd (update w f st))"
  using assms unfolding sound_store_def by (blast intro: update_current idle_file.commit_keeps)

lemma store_sound:
  assumes "sound_store st"
  shows "sound_store (snd (Put w i e st))" "sound_store (snd (Delete w i st))" "sound_store (snd (SetOverride w i v st))"
    "sound_store (snd (AddSent w i r st))" "sound_store (snd (Recover w now st))" "sound_store (snd (Prune w keep cutoff st))"
  by (auto simp: Put_def Delete_def SetOverride_def AddSent_def Recover_def Prune_def intro!: update_sound assms bounded_changes)

lemma settle_sound: "sound_store st \<Longrightarrow> sound_store (settle write w i now v st)"
  by (auto simp: settle_def intro: store_sound split: verdict.splits)

lemma decide_all_sound: "sound_store (sd_Store s) \<Longrightarrow> sound_store (sd_Store (snd (decide_all clock parse global now write cs s)))"
proof (induction cs arbitrary: s)
  case (Cons c cs)
  then show ?case by (cases c) (simp add: case_prod_unfold decide_parts settle_sound)
qed simp

lemma evaluate_sound: "sound_store (sd_Store s) \<Longrightarrow> sound_store (sd_Store (snd (snd (evaluate clock parse setting now write cs disc w s))))"
  using decide_all_sound by (auto simp: evaluate_def prune_def store_sound case_prod_unfold split: option.splits)

lemma deliver_end_sound: "sound_store st \<Longrightarrow> sound_store (deliver_end w w' i p operation at now out st)"
  by (auto simp: deliver_end_def Let_def intro!: store_sound)

lemma open_sound: "sound_store st \<Longrightarrow> sound_store (OpenStore r (st_File st))"
  by (simp add: sound_store_def current_open idle_file.restart_keeps)

lemma Status_store: "sd_Store (snd (Status clock parse setting now cs s)) = sd_Store s"
proof -
  have "sd_Store (snd (decide_all clock parse g now False bs t)) = sd_Store t" for g bs t
  proof (induction bs arbitrary: t)
    case (Cons b bs)
    then show ?case by (cases b) (simp add: case_prod_unfold decide_parts settle_def)
  qed simp
  then show ?thesis by (auto simp: Status_def evaluate_def case_prod_unfold split: option.splits)
qed

lemma step_sound:
  assumes "sound_store (sd_Store (cs_Sched s))"
  shows "sound_store (sd_Store (cs_Sched (compaction_step clock parse itoa a s)))"
  using assms evaluate_sound [of "cs_Sched s" clock parse]
  by (cases a) (auto simp: compaction_step_def Let_def case_prod_unfold Status_store deliver_begin_def
      intro: store_sound deliver_end_sound open_sound split: option.splits list.splits)

lemma start_sound: "sound_store (sd_Store (cs_Sched compaction_start))"
  by (simp add: compaction_start_def sound_store_def current_open filed_open sent_bounded_def emptyDocument_def)

lemma run_sound: "sound_store (sd_Store (cs_Sched (compaction_run clock parse itoa as)))"
  unfolding compaction_run_def by (rule foldl_inv [where P = "\<lambda>s. sound_store (sd_Store (cs_Sched s))"]) (simp_all add: start_sound step_sound)

section \<open>One lane\<close>

text \<open>
  What holds of a lane at every moment, of the requests it was seen with, those it was given the command for and its entry:
  the entry of the request seen last is not scheduled when the lane was given the command for it, and the entry of a request
  the lane was given the command for is never scheduled.
\<close>

abbreviation entry_key :: "compaction_entry \<Rightarrow> string" where
  "entry_key e \<equiv> cp_Key (ce_Plan e)"

definition lane_ok :: "string list \<Rightarrow> string list \<Rightarrow> compaction_entry option \<Rightarrow> bool" where
  "lane_ok met g e \<longleftrightarrow> distinct g \<and> set g \<subseteq> set met
     \<and> (\<forall>x. e = Some x \<longrightarrow> entry_key x \<in> set met \<and> (ce_State x = StateScheduled \<longrightarrow> entry_key x \<notin> set g))
     \<and> (met \<noteq> [] \<and> last met \<in> set g \<longrightarrow> (\<exists>x. e = Some x \<and> entry_key x = last met \<and> ce_State x \<noteq> StateScheduled))"

definition open_key :: "string list \<Rightarrow> string list \<Rightarrow> string \<Rightarrow> bool" where
  "open_key met g k \<longleftrightarrow> k \<in> set met \<and> k \<notin> set g \<and> last met \<notin> set g"

definition no_return :: "string list \<Rightarrow> bool" where
  "no_return ks \<longleftrightarrow> distinct (remdups_adj ks)"

lemma no_return_prefix: "no_return (xs @ ys) \<Longrightarrow> no_return xs"
  by (cases "xs = []") (simp_all add: no_return_def remdups_adj_append'')

lemma no_return_last:
  assumes "no_return (xs @ [k])" "k \<in> set xs"
  shows "k = last xs"
proof (rule ccontr)
  assume "k \<noteq> last xs"
  moreover have "xs \<noteq> []" using assms(2) by auto
  ultimately have "remdups_adj (xs @ [k]) = remdups_adj xs @ [k]" by (simp add: remdups_adj_append'')
  then show False using assms by (simp add: no_return_def)
qed

lemma lane_ok_put: "lane_ok met g e \<Longrightarrow> open_key met g (entry_key x) \<Longrightarrow> lane_ok met g (Some x)"
  by (auto simp: lane_ok_def open_key_def)

lemma lane_ok_given:
  "lane_ok met g (Some e) \<Longrightarrow> open_key met g (entry_key e) \<Longrightarrow> ce_State e \<noteq> StateScheduled \<Longrightarrow> lane_ok met (g @ [entry_key e]) (Some e)"
  by (auto simp: lane_ok_def open_key_def)

lemma lane_ok_forget: "lane_ok met g e \<Longrightarrow> lane_ok met [] None"
  by (simp add: lane_ok_def)

lemma lane_ok_drop: "lane_ok met g (Some e) \<Longrightarrow> ce_State e = StateScheduled \<Longrightarrow> lane_ok met g None"
  by (auto simp: lane_ok_def)

lemma recover_entry_same:
  "entry_key (recover_entry now e) = entry_key e" "ce_State (recover_entry now e) = StateScheduled \<Longrightarrow> ce_State e = StateScheduled"
  "ce_State e \<noteq> StateScheduled \<Longrightarrow> ce_State (recover_entry now e) \<noteq> StateScheduled"
  by (auto simp: recover_entry_def split: if_splits)

lemma lane_ok_recover: "lane_ok met g e \<Longrightarrow> lane_ok met g (map_option (recover_entry now) e)"
  by (cases e) (auto simp: lane_ok_def recover_entry_same(1) dest: recover_entry_same(2,3))

text \<open>The request met by a tick is the last one, or a new one.\<close>

lemma seen_last:
  assumes "lane_ok met g e" "no_return (met @ ks)" "length ks \<le> 1" "met @ ks \<noteq> []" "last (met @ ks) \<in> set g"
  shows "\<exists>x. e = Some x \<and> entry_key x = last (met @ ks) \<and> ce_State x \<noteq> StateScheduled"
proof -
  have last: "last (met @ ks) \<in> set met" using assms(1,5) by (auto simp: lane_ok_def)
  then have ne: "met \<noteq> []" by auto
  have "last (met @ ks) = last met"
  proof (cases ks)
    case (Cons k ks')
    then have ks: "ks = [k]" using assms(3) by simp
    then show ?thesis using no_return_last [of met k] assms(2) last by simp
  qed simp
  then show ?thesis using assms(1,5) ne by (auto simp: lane_ok_def)
qed

lemma lane_ok_seen:
  "lane_ok met g e \<Longrightarrow> no_return (met @ ks) \<Longrightarrow> length ks \<le> 1 \<Longrightarrow> lane_ok (met @ ks) g e"
  using seen_last [of met g e ks] by (auto simp: lane_ok_def)

lemma lane_ok_verdict:
  assumes ok: "lane_ok met g (Entry i st)" and i: "i = cn_ID (ca_Lane c)" and st: "st = sd_Store s"
    and v: "v = fst (lane_verdict clock parse c global now s)" and claude: "cn_Claude (ca_Lane c)"
    and ks: "ks = (case seen_key clock parse global s c of None \<Rightarrow> [] | Some k \<Rightarrow> [k])" and nr: "no_return (met @ ks)"
  shows "lane_ok (met @ ks) g (Entry i (settle True w i now v st))"
    and "v = Planned p \<Longrightarrow> open_key (met @ ks) g (cp_Key p)"
proof -
  have len: "length ks \<le> 1" using ks by (simp split: option.splits)
  have ok': "lane_ok (met @ ks) g (Entry i st)" by (rule lane_ok_seen [OF ok nr len])
  have planned: "open_key (met @ ks) g (cp_Key p)" if p: "v = Planned p" for p
  proof -
    obtain obs where o: "lane_enabled (Override i st) global" "LaneReason (ca_Lane c) = None" "fst (observe_cached clock parse c s) = obs"
      "verdict_of (ca_Lane c) obs (Entry i st) now = Planned p"
      using p unfolding v i st by (cases rule: lane_verdict_cases [of clock parse c global now s]) auto
    have key: "ks = (if bo_RequestID obs \<noteq> [] then [bo_RequestID obs] else [])"
      using o(1,2,3) claude by (simp add: ks seen_key_def Let_def i st)
    note f = verdict_planned [OF o(4)]
    have mem: "cp_Key p \<in> set (met @ ks)" using f(4) key ok' by (auto simp: lane_ok_def)
    then have ne: "met @ ks \<noteq> []" by auto
    have last: "last (met @ ks) \<notin> set g"
    proof
      assume "last (met @ ks) \<in> set g"
      then obtain x where x: "Entry i st = Some x" "entry_key x = last (met @ ks)" "ce_State x \<noteq> StateScheduled"
        using seen_last [OF ok nr len ne] by blast
      then show False using f(3) [OF x(1)] f(4) key by (auto split: if_splits)
    qed
    have "cp_Key p \<notin> set g"
      using f(4) key last ok' by (auto simp: lane_ok_def split: if_splits)
    then show ?thesis using mem last by (simp add: open_key_def)
  qed
  then show "v = Planned p \<Longrightarrow> open_key (met @ ks) g (cp_Key p)" .
  have missed: "\<exists>e0. Entry i st = Some e0 \<and> ce_State e0 = StateScheduled \<and> e = missed_entry now e0" if "v = WindowClosed e" for e
    using that verdict_closed unfolding v i st by (cases rule: lane_verdict_cases [of clock parse c global now s]) fastforce+
  show "lane_ok (met @ ks) g (Entry i (settle True w i now v st))"
  proof (cases v)
    case (NoPlan r)
    then show ?thesis using ok' lane_ok_drop [of "met @ ks" g]
      by (auto simp: settle_def Entry_ops is_scheduled_def split: option.splits)
  next
    case (WindowClosed e)
    then obtain e0 where e0: "Entry i st = Some e0" "ce_State e0 = StateScheduled" "e = missed_entry now e0" using missed by blast
    then have "lane_ok (met @ ks) g (Some e)" using ok' by (auto simp: lane_ok_def missed_entry_def)
    then show ?thesis using WindowClosed ok' by (simp add: settle_def Entry_ops)
  next
    case (Acted x)
    then show ?thesis using ok' by (simp add: settle_def)
  next
    case (Planned p)
    have "lane_ok (met @ ks) g (Some (scheduled_entry p now))"
      by (rule lane_ok_put [OF ok']) (simp add: scheduled_entry_def planned [OF Planned])
    then show ?thesis using Planned ok' by (simp add: settle_def Entry_ops)
  qed
qed

section \<open>A tick\<close>

lemma filter_one: "distinct (map f xs) \<Longrightarrow> x \<in> set xs \<Longrightarrow> filter (\<lambda>y. f y = f x) xs = [x]"
proof (induction xs)
  case (Cons y ys)
  show ?case
  proof (cases "x = y")
    case True
    have "filter (\<lambda>z. f z = f x) ys = []" using True Cons.prems(1) by (simp add: filter_empty_conv) (metis image_eqI)
    then show ?thesis using True by simp
  next
    case False
    then have "x \<in> set ys" "f y \<noteq> f x" using Cons.prems by auto
    then show ?thesis using Cons by simp
  qed
qed simp

lemma due_plans_Nil [simp]: "due_plans [] = []"
  by (simp add: due_plans_def List.map_filter_def)

lemma due_plans_iff: "(c, p) \<in> set (due_plans ds) \<longleftrightarrow> (\<exists>d \<in> set ds. dn_Due d \<and> dn_Candidate d = c \<and> ls_Next (dn_Status d) = Some p)"
  by (force simp: due_plans_def List.map_filter_def)

lemma due_plans_distinct:
  "distinct (map (\<lambda>d. cn_ID (ca_Lane (dn_Candidate d))) ds) \<Longrightarrow> distinct (map (\<lambda>x. cn_ID (ca_Lane (fst x))) (due_plans ds))"
proof (induction ds)
  case (Cons d ds)
  have sub: "cn_ID (ca_Lane (fst x)) \<in> (\<lambda>d. cn_ID (ca_Lane (dn_Candidate d))) ` set ds" if "x \<in> set (due_plans ds)" for x
    using that due_plans_iff [of "fst x" "snd x" ds] by (metis image_eqI prod.collapse)
  have split: "due_plans (d # ds) = due_plans [d] @ due_plans ds" by (simp add: due_plans_def List.map_filter_def)
  have one: "set (map (\<lambda>x. cn_ID (ca_Lane (fst x))) (due_plans [d])) \<subseteq> {cn_ID (ca_Lane (dn_Candidate d))}"
    "distinct (map (\<lambda>x. cn_ID (ca_Lane (fst x))) (due_plans [d]))"
    by (auto simp: due_plans_def List.map_filter_def split: if_splits)
  have apart: "set (map (\<lambda>x. cn_ID (ca_Lane (fst x))) (due_plans [d])) \<inter> set (map (\<lambda>x. cn_ID (ca_Lane (fst x))) (due_plans ds)) = {}"
  proof -
    have "cn_ID (ca_Lane (dn_Candidate d)) \<notin> set (map (\<lambda>x. cn_ID (ca_Lane (fst x))) (due_plans ds))"
      using sub Cons.prems by fastforce
    then show ?thesis using one(1) by blast
  qed
  show ?case unfolding split map_append distinct_append using Cons one(2) apart by simp
qed (simp add: due_plans_def List.map_filter_def)

lemma decide_all_absent: "sd_Absent (snd (decide_all clock parse global now write cs s)) = sd_Absent s"
proof (induction cs arbitrary: s)
  case (Cons c cs)
  have "sd_Absent (snd (lane_verdict clock parse x global now s)) = sd_Absent s" for x s
    using observe_absent [of clock parse x s] by (auto simp: lane_verdict_def Let_def case_prod_unfold split: option.splits)
  then have "sd_Absent (snd (decide clock parse x global now write w s)) = sd_Absent s" for x w s
    by (simp add: decide_def Let_def case_prod_unfold)
  with Cons show ?case by (cases c) (simp add: case_prod_unfold)
qed simp

lemma seen_keys_one:
  assumes "distinct_lanes cs" "c \<in> set cs" "st_Err (sd_Store s) = None"
  shows "seen_keys clock parse (Some global) cs s (candidate_id c) = (case seen_key clock parse global s (fst c) of None \<Rightarrow> [] | Some k \<Rightarrow> [k])"
  using filter_one [of candidate_id cs c] assms
  by (simp add: distinct_lanes_def seen_keys_def List.map_filter_def split: option.splits)

lemma seen_keys_none:
  assumes "\<And>c. c \<in> set cs \<Longrightarrow> candidate_id c = i \<Longrightarrow> \<not> cn_Claude (ca_Lane (fst c))"
  shows "seen_keys clock parse setting cs s i = []"
  using assms by (auto simp: seen_keys_def List.map_filter_def seen_key_def Let_def filter_empty_conv split: option.splits)

text \<open>The entry of a lane after the lanes are decided and before they are pruned, and its due plan.\<close>

lemma decided_lane:
  assumes d: "distinct_lanes cs" and e: "st_Err (sd_Store s) = None" and ok: "lane_ok met g (Entry i (sd_Store s))"
    and nr: "no_return (met @ seen_keys clock parse (Some global) cs s i)"
    and r: "decide_all clock parse global now True cs s = (ds, s1)"
  shows "lane_ok (met @ seen_keys clock parse (Some global) cs s i) g (Entry i (sd_Store s1))"
    and "(c, p) \<in> set (due_plans ds) \<Longrightarrow> cn_ID (ca_Lane c) = i \<Longrightarrow> open_key (met @ seen_keys clock parse (Some global) cs s i) g (cp_Key p)"
    and "(\<forall>c \<in> set cs. candidate_id c = i \<longrightarrow> \<not> cn_Claude (ca_Lane (fst c))) \<longrightarrow> Entry i (sd_Store s1) = Entry i (sd_Store s)"
proof -
  have ds: "ds = map (\<lambda>c. fst (decide clock parse (fst c) global now False True s)) (filter (\<lambda>c. cn_Claude (ca_Lane (fst c))) cs)"
    using decide_all_status [OF d, of s s clock parse global now True] by (simp add: r)
  have due: "\<exists>b \<in> set cs. fst b = c \<and> cn_Claude (ca_Lane c) \<and> fst (lane_verdict clock parse c global now s) = Planned p"
    if "(c, p) \<in> set (due_plans ds)" for c p
  proof -
    from that obtain b where b: "b \<in> set cs" "cn_Claude (ca_Lane (fst b))" "fst b = c"
      "verdict_plan (fst (lane_verdict clock parse (fst b) global now s)) = Some p"
      by (auto simp: due_plans_iff ds decide_parts)
    then show ?thesis by (intro bexI [of _ b]) (auto simp: verdict_plan_def split: verdict.splits)
  qed
  show none: "(\<forall>c \<in> set cs. candidate_id c = i \<longrightarrow> \<not> cn_Claude (ca_Lane (fst c))) \<longrightarrow> Entry i (sd_Store s1) = Entry i (sd_Store s)"
  proof
    assume "\<forall>c \<in> set cs. candidate_id c = i \<longrightarrow> \<not> cn_Claude (ca_Lane (fst c))"
    then have "lane_view i (snd (decide_all clock parse global now True cs s)) = lane_view i s"
    proof (induction cs arbitrary: s)
      case (Cons b bs)
      then show ?case
        by (cases b) (simp add: case_prod_unfold, metis decide_other)
    qed simp
    then show "Entry i (sd_Store s1) = Entry i (sd_Store s)" by (simp add: r lane_view_def)
  qed
  show "lane_ok (met @ seen_keys clock parse (Some global) cs s i) g (Entry i (sd_Store s1))"
  proof (cases "\<exists>c \<in> set cs. candidate_id c = i \<and> cn_Claude (ca_Lane (fst c))")
    case True
    then obtain b where b: "b \<in> set cs" "candidate_id b = i" "cn_Claude (ca_Lane (fst b))" by blast
    have ks: "seen_keys clock parse (Some global) cs s i = (case seen_key clock parse global s (fst b) of None \<Rightarrow> [] | Some k \<Rightarrow> [k])"
      using seen_keys_one [OF d b(1) e] b(2) by simp
    have "Entry i (sd_Store s1) = Entry i (settle True (snd b) i now (fst (lane_verdict clock parse (fst b) global now s)) (sd_Store s))"
      using decide_all_entry [OF d b(1,3), of clock parse global now True s] b(2) by (simp add: r lane_view_def decide_parts)
    then show ?thesis
      using lane_ok_verdict(1) [OF ok b(2) [symmetric] refl refl b(3) ks nr] by simp
  next
    case False
    then show ?thesis using none ok seen_keys_none [of cs i clock parse "Some global" s] by auto
  qed
  assume cp: "(c, p) \<in> set (due_plans ds)" and i: "cn_ID (ca_Lane c) = i"
  from due [OF cp] obtain b where b: "b \<in> set cs" "fst b = c" "cn_Claude (ca_Lane c)" "fst (lane_verdict clock parse c global now s) = Planned p"
    by blast
  have ks: "seen_keys clock parse (Some global) cs s i = (case seen_key clock parse global s c of None \<Rightarrow> [] | Some k \<Rightarrow> [k])"
    using seen_keys_one [OF d b(1) e] b(2) i by simp
  show "open_key (met @ seen_keys clock parse (Some global) cs s i) g (cp_Key p)"
    by (rule lane_ok_verdict(2) [OF ok i [symmetric] refl refl b(3) ks nr b(4)])
qed

lemma tick_lane:
  assumes d: "distinct_lanes cs" and ok: "lane_ok met g (Entry i (sd_Store s))"
    and nr: "no_return (met @ seen_keys clock parse setting cs s i)"
    and r: "evaluate clock parse setting now True cs discovering writes s = (out, ds, s')"
    and g': "g' = (if forgotten s s' discovering cs now i then [] else g)"
  shows "lane_ok (met @ seen_keys clock parse setting cs s i) g' (Entry i (sd_Store s'))
    \<and> (\<forall>c p. (c, p) \<in> set (due_plans ds) \<and> cn_ID (ca_Lane c) = i \<longrightarrow> open_key (met @ seen_keys clock parse setting cs s i) g' (cp_Key p))"
proof (cases "st_Err (sd_Store s) = None \<and> setting \<noteq> None")
  case False
  then have s': "s' = s" "ds = []" using r by (auto simp: evaluate_def split: option.splits)
  have "seen_keys clock parse setting cs s i = []" using False by (auto simp: seen_keys_def split: option.splits)
  moreover have "g' = g" using g' s' by (auto simp: forgotten_def)
  ultimately show ?thesis using ok s' by (simp add: due_plans_def List.map_filter_def)
next
  case True
  then obtain global where g: "setting = Some global" and e: "st_Err (sd_Store s) = None" by blast
  obtain s1 where s1: "decide_all clock parse global now True cs s = (ds, s1)" "s' = prune discovering writes cs now s1"
    using r e by (cases "decide_all clock parse global now True cs s") (simp add: evaluate_def g)
  note l = decided_lane [OF d e ok nr [unfolded g] s1(1)]
  have keeps: "keeps cs now s1 = keeps cs now s"
    using decide_all_absent [of clock parse global now True cs s] by (simp add: fun_eq_iff keeps_def s1(1))
  have live: "is_live cs i" if "c \<in> set cs" "candidate_id c = i" for c using that by (force simp: is_live_def)
  have entry: "Entry i (sd_Store s') = Entry i (sd_Store s1) \<or> (\<not> discovering \<and> \<not> keeps cs now s i \<and> Entry i (sd_Store s') = None)"
    using keeps by (simp add: s1(2) prune_def Entry_ops)
  have stay: "\<not> forgotten s s' discovering cs now i" if "is_live cs i" using that by (simp add: forgotten_def keeps_def)
  have ok': "lane_ok (met @ seen_keys clock parse setting cs s i) g' (Entry i (sd_Store s'))"
  proof (cases "is_live cs i")
    case True
    then show ?thesis using entry l(1) stay by (auto simp: g' g keeps_def)
  next
    case False
    then have "Entry i (sd_Store s1) = Entry i (sd_Store s)" using l(3) live by blast
    then show ?thesis using entry l(1) lane_ok_forget [OF l(1)] by (auto simp: g' g forgotten_def)
  qed
  have due: "open_key (met @ seen_keys clock parse setting cs s i) g' (cp_Key p)" if cp: "(c, p) \<in> set (due_plans ds)" "cn_ID (ca_Lane c) = i" for c p
  proof -
    from cp(1) have "c \<in> fst ` set cs"
      using decide_all_status [OF d, of s s clock parse global now True] by (force simp: due_plans_iff s1(1) decide_parts)
    then have "is_live cs i" using live cp(2) by auto
    then show ?thesis using l(2) [OF cp] stay by (simp add: g' g)
  qed
  show ?thesis using ok' due by blast
qed

lemma tick_queue:
  assumes d: "distinct_lanes cs" and r: "evaluate clock parse setting now True cs discovering writes s = (out, ds, s')"
  shows "distinct (map (\<lambda>x. cn_ID (ca_Lane (fst x))) (due_plans ds))" "ds \<noteq> [] \<Longrightarrow> st_Err (sd_Store s) = None"
    "st_Err (sd_Store s') = st_Err (sd_Store s)"
proof -
  have err: "st_Err (sd_Store (snd (decide_all clock parse global now True cs t))) = st_Err (sd_Store t)" for global t
  proof (induction cs arbitrary: t)
    case (Cons c cs)
    then show ?case by (cases c) (simp add: case_prod_unfold decide_parts)
  qed simp
  have ids: "distinct (map (\<lambda>d. cn_ID (ca_Lane (dn_Candidate d))) (fst (decide_all clock parse global now True cs s)))" for global
    using d by (simp add: decide_all_status [OF d, of s s] comp_def decide_parts distinct_lanes_def distinct_map_filter)
  show "distinct (map (\<lambda>x. cn_ID (ca_Lane (fst x))) (due_plans ds))"
    using r due_plans_distinct [OF ids] by (auto simp: evaluate_def case_prod_unfold split: option.splits)
  show "ds \<noteq> [] \<Longrightarrow> st_Err (sd_Store s) = None" using r by (auto simp: evaluate_def split: option.splits)
  show "st_Err (sd_Store s') = st_Err (sd_Store s)"
    using r err by (auto simp: evaluate_def prune_def case_prod_unfold split: option.splits)
qed

end
