(* ===== verification/Compaction_Safety.thy ===== *)
theory Compaction_Safety
  imports Compaction_Runs
begin

text \<open>
  What the runs of idle compaction guarantee: an invariant of every lane's entry, history and deliveries, that a request is
  compacted at most once, and that the file always holds the store.
\<close>

section \<open>The invariant of a run\<close>

definition kept_lane :: "string \<Rightarrow> compaction_system \<Rightarrow> compaction_entry option" where
  "kept_lane i s = cd_Lanes (filed (sd_Store (cs_Sched s))) i"

definition pending_ids :: "compaction_system \<Rightarrow> string list" where
  "pending_ids s = map (\<lambda>x. cn_ID (ca_Lane (fst x))) (cs_Pending s)"

definition queue_ok :: "compaction_system \<Rightarrow> bool" where
  "queue_ok s \<longleftrightarrow> distinct (pending_ids s) \<and> (\<forall>x. cs_Sending s = Some x \<longrightarrow> sending_id x \<notin> set (pending_ids s))
     \<and> (cs_Pending s \<noteq> [] \<or> cs_Sending s \<noteq> None \<longrightarrow> st_Err (sd_Store (cs_Sched s)) = None)"

definition entry_inv :: "string \<Rightarrow> compaction_system \<Rightarrow> bool" where
  "entry_inv i s \<longleftrightarrow> lane_ok (cs_Seen s i) (cs_Given s i) (kept_lane i s)
     \<and> (\<forall>c p. (c, p) \<in> set (cs_Pending s) \<and> cn_ID (ca_Lane c) = i \<longrightarrow> open_key (cs_Seen s i) (cs_Given s i) (cp_Key p))
     \<and> (\<forall>c p operation at. cs_Sending s = Some (c, p, operation, at) \<and> cn_ID (ca_Lane c) = i \<longrightarrow>
          open_key (cs_Seen s i) (cs_Given s i) (cp_Key p)
          \<and> (\<exists>e. kept_lane i s = Some e \<and> entry_key e = cp_Key p \<and> ce_State e \<noteq> StateScheduled))"

lemma kept_entry: "current st \<Longrightarrow> st_Err st = None \<Longrightarrow> cd_Lanes (filed st) i = Entry i st"
  by (simp add: current_def Entry_def)

lemma kept_override: "current st \<Longrightarrow> cd_Lanes (filed (snd (SetOverride w i v st))) = cd_Lanes (filed st)"
  using update_cases [of st w "choose_override i v"] by (auto simp: SetOverride_def filed_def choose_override_def)

lemma kept_restart:
  "cd_Lanes (filed (snd (Recover w now (OpenStore r (st_File st))))) = cd_Lanes (filed st)
   \<or> cd_Lanes (filed (snd (Recover w now (OpenStore r (st_File st))))) = (\<lambda>i. map_option (recover_entry now) (cd_Lanes (filed st) i))"
proof -
  have f: "filed (OpenStore r (st_File st)) = filed st" by (rule idle_file.restart_kept)
  show ?thesis
    using idle_file.commit_kept [OF current_open, of w "recover_lanes now" r "st_File st"]
    by (auto simp: Recover_def f recover_lanes_def)
qed

text \<open>What a delivery that gave the lane input answers: never the empty state, which plans the compaction again.\<close>

lemma submit_state: "do_State (submitIdleCompaction b a) \<in> {StateSent, StateUnconfirmed, StateFailed}"
  by (cases a) (auto simp: submitIdleCompaction_def outcome_def split: option.splits)

lemma paste_state: "do_State (pasteIdleCompaction g r) \<in> {StateSent, StateUnconfirmed, StateFailed}"
  by (auto simp: pasteIdleCompaction_def outcome_def split: prod.splits)

lemma delivered_state:
  assumes "deliverIdleCompaction clock parse itoa c operation f = (out, given)"
  shows "(\<not> given \<and> do_State out \<in> {[], StateFailed}) \<or> do_State out \<in> {StateSent, StateUnconfirmed, StateFailed}"
proof (cases "df_GateError f")
  case None
  show ?thesis
  proof (cases "df_Info f")
    case None
    then show ?thesis using assms \<open>df_GateError f = None\<close> by (auto simp: deliverIdleCompaction_def outcome_def)
  next
    case (Some i)
    define l where "l = LaneReason (idleCompactionLane (df_Child f \<or> cn_Child (ca_Lane c)) i)"
    define o' where "o' = (if si_MessageSubmit i then submitIdleCompaction (df_Service f) (df_Answer f) else pasteIdleCompaction (df_Steps f) (df_Reason f))"
    have s: "do_State o' \<in> {StateSent, StateUnconfirmed, StateFailed}" using submit_state paste_state by (simp add: o'_def)
    show ?thesis
    proof (cases "l = None \<and> \<not> bo_QueuedInput (Observe clock parse (df_Events f)) \<and> (si_MessageSubmit i \<or> legacyProvider i)")
      case True
      then have "do_State out \<in> {do_State o', StateSent}"
        using assms None Some
        by (cases "si_MessageSubmit i"; cases "do_State o' = StateFailed"; cases "df_Observed f")
          (auto simp: deliverIdleCompaction_def l_def [symmetric] o'_def Let_def split: if_splits)
      then show ?thesis using s by auto
    next
      case False
      then show ?thesis using assms None Some
        by (cases l) (auto simp: deliverIdleCompaction_def l_def [symmetric] outcome_def split: if_splits)
    qed
  qed
next
  case (Some e)
  then show ?thesis using assms by (auto simp: deliverIdleCompaction_def outcome_def)
qed

lemma deliver_end_entry:
  "Entry j (deliver_end w w' i p operation at now out st) =
     (if j = i \<and> st_Err st = None \<and> w
      then Some \<lparr>ce_Plan = p, ce_State = (if do_State out = [] then StateScheduled else do_State out),
        ce_OperationID = (if do_State out = [] then [] else operation), ce_Detail = do_Detail out, ce_UpdatedAtMS = UnixMilli now\<rparr>
      else Entry j st)"
  by (auto simp: deliver_end_def Let_def Entry_ops sending_entry_def split: option.splits)

lemma start_sending:
  assumes "cs_Sending s = None" "cs_Pending s = (c, p) # rest" "st = sd_Store (cs_Sched s)" "st_Err st = None"
  shows "compaction_step clock parse itoa (StartSending operation now writes) s =
    (if writes then s\<lparr>cs_Sched := (cs_Sched s)\<lparr>sd_Store := snd (Put True (cn_ID (ca_Lane c)) (sending_entry p operation now) st)\<rparr>,
        cs_Pending := rest, cs_Sending := Some (c, p, operation, now)\<rparr>
     else s\<lparr>cs_Pending := rest\<rparr>)"
proof -
  have r: "Put writes i e st = (if writes then (None, snd (Put True i e st)) else (Some WriteFailed, st))" for i e
    using assms(4) by (simp add: Put_def update_def Let_def)
  have same: "(cs_Sched s)\<lparr>sd_Store := st\<rparr> = cs_Sched s" by (simp add: assms(3))
  show ?thesis
    by (simp add: compaction_step_def Let_def deliver_begin_def assms(1,2) assms(3) [symmetric] r same)
qed

lemma start_sending_idle:
  assumes "cs_Sending s \<noteq> None \<or> cs_Pending s = []"
  shows "compaction_step clock parse itoa (StartSending operation now writes) s = s"
  using assms by (auto simp: compaction_step_def Let_def split: option.splits list.splits)

lemma queue_step:
  assumes q: "queue_ok s" and one: "one_candidate_per_lane a"
  shows "queue_ok (compaction_step clock parse itoa a s)"
proof (cases a)
  case (Tick setting now cs discovering writes)
  obtain out ds sched' where ev: "evaluate clock parse setting now True cs discovering writes (cs_Sched s) = (out, ds, sched')"
    using prod_cases3 by blast
  have d: "distinct_lanes cs" using one by (simp add: Tick one_candidate_per_lane_def)
  have "due_plans ds \<noteq> [] \<Longrightarrow> ds \<noteq> []" by (auto simp: due_plans_def List.map_filter_def)
  then show ?thesis
    using q tick_queue [OF d ev] by (auto simp: Tick compaction_step_def Let_def ev queue_ok_def pending_ids_def)
next
  case (AskStatus setting now cs)
  then show ?thesis using q by (simp add: compaction_step_def Let_def queue_ok_def pending_ids_def Status_store)
next
  case (StartSending operation now writes)
  show ?thesis
  proof (cases "cs_Sending s \<noteq> None \<or> cs_Pending s = []")
    case True
    then show ?thesis using q by (simp add: StartSending start_sending_idle)
  next
    case False
    then obtain c p rest where s: "cs_Sending s = None" "cs_Pending s = (c, p) # rest" by (metis list.exhaust surj_pair)
    have e: "st_Err (sd_Store (cs_Sched s)) = None" using q s(2) by (simp add: queue_ok_def)
    show ?thesis using q s e
      by (auto simp: StartSending start_sending [OF s refl e] queue_ok_def pending_ids_def sending_id_def)
  qed
next
  case (Delivered facts now writes writes')
  have "st_Err (deliver_end writes writes' i p operation at now out st) = st_Err st" for i p operation at out st
    by (simp add: deliver_end_def Let_def)
  then show ?thesis using q Delivered
    by (auto simp: compaction_step_def Let_def queue_ok_def pending_ids_def case_prod_unfold split: option.splits)
next
  case (Choose i v writes)
  then show ?thesis using q by (simp add: compaction_step_def Let_def queue_ok_def pending_ids_def)
next
  case (Restart given readable now writes)
  then show ?thesis by (simp add: compaction_step_def Let_def queue_ok_def pending_ids_def)
qed

lemma lane_inv_tick:
  assumes cur: "sound_store (sd_Store (cs_Sched s))" and inv: "entry_inv i s" and d: "distinct_lanes cs"
    and idle: "cs_Pending s = []" "cs_Sending s = None"
    and nr: "no_return (cs_Seen (compaction_step clock parse itoa (Tick setting now cs discovering writes) s) i)"
  shows "entry_inv i (compaction_step clock parse itoa (Tick setting now cs discovering writes) s)"
proof -
  let ?st = "sd_Store (cs_Sched s)"
  obtain out ds sched' where ev: "evaluate clock parse setting now True cs discovering writes (cs_Sched s) = (out, ds, sched')"
    using prod_cases3 by blast
  define ks where "ks = seen_keys clock parse setting cs (cs_Sched s) i"
  define g where "g = (if forgotten (cs_Sched s) sched' discovering cs now i then [] else cs_Given s i)"
  have kept: "cd_Lanes (filed (sd_Store sched')) i = Entry i (sd_Store sched')" if "st_Err ?st = None"
  proof -
    have "sound_store (sd_Store sched')" using evaluate_sound [OF cur, of clock parse setting now True cs discovering writes] by (simp add: ev)
    then show ?thesis using tick_queue(3) [OF d ev] that by (simp add: sound_store_def kept_entry)
  qed
  have goal: "entry_inv i (compaction_step clock parse itoa (Tick setting now cs discovering writes) s) \<longleftrightarrow>
      lane_ok (cs_Seen s i @ ks) g (cd_Lanes (filed (sd_Store sched')) i)
      \<and> (\<forall>c p. (c, p) \<in> set (due_plans ds) \<and> cn_ID (ca_Lane c) = i \<longrightarrow> open_key (cs_Seen s i @ ks) g (cp_Key p))"
    by (simp add: compaction_step_def Let_def idle ev entry_inv_def kept_lane_def ks_def g_def)
  have nr': "no_return (cs_Seen s i @ seen_keys clock parse setting cs (cs_Sched s) i)"
    using nr by (simp add: compaction_step_def Let_def idle ev)
  show ?thesis
  proof (cases "st_Err ?st")
    case None
    have "lane_ok (cs_Seen s i) (cs_Given s i) (Entry i ?st)"
      using inv cur None by (simp add: entry_inv_def kept_lane_def kept_entry sound_store_def)
    from tick_lane [OF d this nr' ev g_def] show ?thesis using kept [OF None] by (simp add: goal ks_def)
  next
    case (Some e)
    then have "ds = []" "sched' = cs_Sched s" "ks = []" "g = cs_Given s i"
      using ev by (auto simp: evaluate_def ks_def seen_keys_def g_def forgotten_def)
    then show ?thesis using inv unfolding goal by (simp add: entry_inv_def kept_lane_def)
  qed
qed

lemma lane_inv_sending:
  assumes cur: "sound_store (sd_Store (cs_Sched s))" and q: "queue_ok s" and inv: "entry_inv i s"
  shows "entry_inv i (compaction_step clock parse itoa (StartSending operation now writes) s)"
proof (cases "cs_Sending s \<noteq> None \<or> cs_Pending s = []")
  case True
  then show ?thesis using inv by (simp add: start_sending_idle)
next
  case False
  then obtain c p rest where s: "cs_Sending s = None" "cs_Pending s = (c, p) # rest" by (metis list.exhaust surj_pair)
  let ?st = "sd_Store (cs_Sched s)" and ?x = "sending_entry p operation now"
  have e: "st_Err ?st = None" using q s(2) by (simp add: queue_ok_def)
  have cur': "current (snd (Put True (cn_ID (ca_Lane c)) ?x ?st))" using cur by (simp add: sound_store_def store_current)
  have kept: "cd_Lanes (filed (snd (Put True (cn_ID (ca_Lane c)) ?x ?st))) i = (if i = cn_ID (ca_Lane c) then Some ?x else kept_lane i s)"
    using kept_entry [OF cur', of i] kept_entry [of ?st i] cur e by (simp add: Entry_ops kept_lane_def sound_store_def)
  have x: "ce_Plan ?x = p" "ce_State ?x = StateSending" by (simp_all add: sending_entry_def)
  have pend: "(c', p') \<in> set (cs_Pending s) \<Longrightarrow> cn_ID (ca_Lane c') = i \<Longrightarrow> open_key (cs_Seen s i) (cs_Given s i) (cp_Key p')" for c' p'
    using inv by (simp add: entry_inv_def)
  have ok: "lane_ok (cs_Seen s i) (cs_Given s i) (if i = cn_ID (ca_Lane c) then Some ?x else kept_lane i s)"
  proof (cases "i = cn_ID (ca_Lane c)")
    case True
    have "lane_ok (cs_Seen s i) (cs_Given s i) (kept_lane i s)" using inv by (simp add: entry_inv_def)
    from lane_ok_put [OF this, of ?x] show ?thesis using pend [of c p] s(2) True by (simp add: x)
  qed (use inv in \<open>simp add: entry_inv_def\<close>)
  show ?thesis
  proof (cases "writes")
    case True
    let ?s = "s\<lparr>cs_Sched := (cs_Sched s)\<lparr>sd_Store := snd (Put True (cn_ID (ca_Lane c)) ?x ?st)\<rparr>,
        cs_Pending := rest, cs_Sending := Some (c, p, operation, now)\<rparr>"
    have k: "kept_lane i ?s = (if i = cn_ID (ca_Lane c) then Some ?x else kept_lane i s)" using kept by (simp add: kept_lane_def)
    have "entry_inv i ?s" unfolding entry_inv_def k using ok pend x s(2) by auto
    then show ?thesis by (simp add: start_sending [OF s refl e] True)
  next
    case False
    have "entry_inv i (s\<lparr>cs_Pending := rest\<rparr>)" using inv s(2) by (auto simp: entry_inv_def kept_lane_def)
    then show ?thesis by (simp add: start_sending [OF s refl e] False)
  qed
qed

lemma given_ok:
  assumes "lane_ok met g (Some e)" "open_key met g k" "entry_key e = k" "ce_State e \<noteq> StateScheduled"
  shows "lane_ok met (if given then g @ [k] else g) (Some e)"
  using assms lane_ok_given by auto

lemma note_given_at:
  "note_given given (Some (c, p, operation, at)) f i = (if given \<and> i = cn_ID (ca_Lane c) then f i @ [cp_Key p] else f i)"
  by (simp add: note_given_def)

lemma lane_inv_delivered:
  assumes cur: "sound_store (sd_Store (cs_Sched s))" and q: "queue_ok s" and inv: "entry_inv i s"
  shows "entry_inv i (compaction_step clock parse itoa (Delivered facts now writes writes') s)"
proof (cases "cs_Sending s")
  case None
  then show ?thesis using inv by (simp add: compaction_step_def Let_def)
next
  case (Some x)
  then obtain c p operation at where x: "cs_Sending s = Some (c, p, operation, at)" by (cases x) auto
  let ?st = "sd_Store (cs_Sched s)" and ?j = "cn_ID (ca_Lane c)"
  obtain out given where out: "deliverIdleCompaction clock parse itoa c operation facts = (out, given)" by fastforce
  let ?st' = "deliver_end writes writes' ?j p operation at now out ?st"
  let ?e = "\<lparr>ce_Plan = p, ce_State = (if do_State out = [] then StateScheduled else do_State out),
        ce_OperationID = (if do_State out = [] then [] else operation), ce_Detail = do_Detail out, ce_UpdatedAtMS = UnixMilli now\<rparr>"
  have e: "st_Err ?st = None" using q x by (simp add: queue_ok_def)
  have cur': "current ?st'" "st_Err ?st' = None" using deliver_end_sound [OF cur] e by (simp_all add: sound_store_def deliver_end_def Let_def)
  have kept: "cd_Lanes (filed ?st') i = (if i = ?j \<and> writes then Some ?e else kept_lane i s)"
    using kept_entry [OF cur', of i] kept_entry [of ?st i] cur e by (simp add: deliver_end_entry kept_lane_def sound_store_def)
  have seq: "compaction_step clock parse itoa (Delivered facts now writes writes') s =
      s\<lparr>cs_Sched := (cs_Sched s)\<lparr>sd_Store := ?st'\<rparr>, cs_Sending := None, cs_Given := note_given given (cs_Sending s) (cs_Given s)\<rparr>"
    by (simp add: compaction_step_def Let_def x out)
  show ?thesis
  proof (cases "i = ?j")
    case False
    then show ?thesis using inv kept by (auto simp: seq entry_inv_def kept_lane_def x note_given_at)
  next
    case True
    have free: "(c', p') \<notin> set (cs_Pending s)" if "cn_ID (ca_Lane c') = i" for c' p'
      using q that x True by (force simp: queue_ok_def pending_ids_def sending_id_def)
    obtain e0 where o: "open_key (cs_Seen s i) (cs_Given s i) (cp_Key p)"
      and e0: "kept_lane i s = Some e0" "entry_key e0 = cp_Key p" "ce_State e0 \<noteq> StateScheduled"
      using inv x True unfolding entry_inv_def by blast
    have ok: "lane_ok (cs_Seen s i) (cs_Given s i) (kept_lane i s)" using inv by (simp add: entry_inv_def)
    have nt: "note_given given (cs_Sending s) (cs_Given s) i = (if given then cs_Given s i @ [cp_Key p] else cs_Given s i)"
      using True by (simp add: x note_given_at)
    have "lane_ok (cs_Seen s i) (if given then cs_Given s i @ [cp_Key p] else cs_Given s i) (cd_Lanes (filed ?st') i)"
    proof (cases "writes")
      case False
      then have k: "cd_Lanes (filed ?st') i = Some e0" using kept e0(1) by simp
      show ?thesis unfolding k by (rule given_ok [OF _ o e0(2,3)]) (use ok e0(1) in simp)
    next
      case w: True
      then have k: "cd_Lanes (filed ?st') i = Some ?e" using kept True by simp
      have put: "lane_ok (cs_Seen s i) (cs_Given s i) (Some ?e)" by (rule lane_ok_put [OF ok]) (simp add: o)
      have st: "ce_State ?e \<noteq> StateScheduled" if given using delivered_state [OF out] that by (auto simp: entry_states)
      show ?thesis unfolding k using put lane_ok_given [OF put _ st] o by (cases given) simp_all
    qed
    then show ?thesis using free unfolding seq entry_inv_def kept_lane_def by (auto simp: nt)
  qed
qed

lemma lane_inv_restart:
  assumes inv: "entry_inv i s"
  shows "entry_inv i (compaction_step clock parse itoa (Restart given readable now writes) s)"
proof -
  let ?st = "sd_Store (cs_Sched s)" and ?st' = "snd (Recover writes now (OpenStore readable (st_File (sd_Store (cs_Sched s)))))"
  have kept: "cd_Lanes (filed ?st') i = kept_lane i s \<or> cd_Lanes (filed ?st') i = map_option (recover_entry now) (kept_lane i s)"
    using kept_restart [of writes now readable ?st] by (auto simp: kept_lane_def)
  have ok: "lane_ok (cs_Seen s i) (note_given given (cs_Sending s) (cs_Given s) i) (kept_lane i s)"
  proof (cases "cs_Sending s")
    case None
    then show ?thesis using inv by (simp add: entry_inv_def note_given_def)
  next
    case (Some x)
    then obtain c p operation at where x: "cs_Sending s = Some (c, p, operation, at)" by (cases x) auto
    show ?thesis
    proof (cases "i = cn_ID (ca_Lane c)")
      case True
      then obtain e0 where "open_key (cs_Seen s i) (cs_Given s i) (cp_Key p)"
        "kept_lane i s = Some e0" "entry_key e0 = cp_Key p" "ce_State e0 \<noteq> StateScheduled"
        using inv x unfolding entry_inv_def by blast
      note o = this
      have nt: "note_given given (cs_Sending s) (cs_Given s) i = (if given then cs_Given s i @ [cp_Key p] else cs_Given s i)"
        using True by (simp add: x note_given_at)
      show ?thesis unfolding nt o(2) by (rule given_ok [OF _ o(1,3,4)]) (use inv o(2) in \<open>simp add: entry_inv_def\<close>)
    next
      case False
      then show ?thesis using inv by (simp add: x note_given_at entry_inv_def)
    qed
  qed
  have "lane_ok (cs_Seen s i) (note_given given (cs_Sending s) (cs_Given s) i) (cd_Lanes (filed ?st') i)"
    using kept ok lane_ok_recover [OF ok, of now] by (elim disjE) simp_all
  then show ?thesis by (simp add: compaction_step_def Let_def entry_inv_def kept_lane_def)
qed

lemma lane_step:
  assumes "sound_store (sd_Store (cs_Sched s))" "queue_ok s" "one_candidate_per_lane a" "entry_inv i s"
    and "no_return (cs_Seen (compaction_step clock parse itoa a s) i)"
  shows "entry_inv i (compaction_step clock parse itoa a s)"
proof (cases a)
  case (Tick setting now cs discovering writes)
  show ?thesis
  proof (cases "cs_Pending s \<noteq> [] \<or> cs_Sending s \<noteq> None")
    case True
    then show ?thesis using assms(4) by (auto simp: Tick compaction_step_def Let_def)
  next
    case False
    then have idle: "cs_Pending s = []" "cs_Sending s = None" by blast+
    have d: "distinct_lanes cs" using assms(3) by (simp add: Tick one_candidate_per_lane_def)
    show ?thesis unfolding Tick by (rule lane_inv_tick [OF assms(1,4) d idle assms(5) [unfolded Tick]])
  qed
next
  case (AskStatus setting now cs)
  then show ?thesis using assms(4) by (simp add: compaction_step_def Let_def entry_inv_def kept_lane_def Status_store)
next
  case (StartSending operation now writes)
  then show ?thesis using lane_inv_sending assms by simp
next
  case (Delivered facts now writes writes')
  then show ?thesis using lane_inv_delivered assms by simp
next
  case (Choose j v writes)
  then show ?thesis using assms(1,4) by (simp add: compaction_step_def Let_def entry_inv_def kept_lane_def kept_override sound_store_def)
next
  case (Restart given readable now writes)
  then show ?thesis using lane_inv_restart assms(4) by simp
qed

section \<open>What a run guarantees\<close>

lemma run_snoc: "compaction_run clock parse itoa (as @ [a]) = compaction_step clock parse itoa a (compaction_run clock parse itoa as)"
  by (simp add: compaction_run_def)

lemma seen_grows: "\<exists>ks. cs_Seen (compaction_step clock parse itoa a s) i = cs_Seen s i @ ks"
proof (cases a)
  case (Tick setting now cs discovering writes)
  then show ?thesis by (auto simp: compaction_step_def Let_def case_prod_unfold)
next
  case (StartSending operation now writes)
  then show ?thesis by (auto simp: compaction_step_def Let_def split: option.splits list.splits prod.splits)
next
  case (Delivered facts now writes writes')
  then show ?thesis by (auto simp: compaction_step_def Let_def split: option.splits prod.splits)
qed (simp_all add: compaction_step_def Let_def)

lemma compaction_start_inv: "queue_ok compaction_start" "entry_inv i compaction_start"
  by (simp_all add: compaction_start_def queue_ok_def pending_ids_def entry_inv_def lane_ok_def kept_lane_def filed_open emptyDocument_def)

lemma run_inv:
  assumes "list_all one_candidate_per_lane as" "no_return (cs_Seen (compaction_run clock parse itoa as) i)"
  shows "queue_ok (compaction_run clock parse itoa as) \<and> entry_inv i (compaction_run clock parse itoa as)"
  using assms
proof (induction as rule: rev_induct)
  case Nil
  then show ?case using compaction_start_inv by (simp add: compaction_run_def)
next
  case (snoc a as)
  let ?s = "compaction_run clock parse itoa as"
  have one: "list_all one_candidate_per_lane as" "one_candidate_per_lane a" using snoc.prems(1) by simp_all
  have nr: "no_return (cs_Seen ?s i)"
    using snoc.prems(2) seen_grows [of clock parse itoa a ?s i] no_return_prefix unfolding run_snoc by metis
  show ?case
    using snoc.IH [OF one(1) nr] queue_step [OF _ one(2)] lane_step [OF run_sound _ one(2)] snoc.prems(2) unfolding run_snoc by blast
qed

text \<open>C5: a lane is given \<open>/compact\<close> at most once for one provider request.  Over any sequence of ticks, deliveries, choices, status
  requests and restarts, whatever writes of the document fail, whatever the runners answer, wherever the daemon stops and
  whether or not the file is readable when it starts, as long as a lane's ticks do not see an older request again after a newer
  one and no tick lists a lane twice: the requests for which the lane was given the command, since it was last forgotten, are
  all different.
\<close>

theorem compaction_at_most_once:
  assumes "list_all one_candidate_per_lane as" "distinct (remdups_adj (cs_Seen (compaction_run clock parse itoa as) i))"
  shows "distinct (cs_Given (compaction_run clock parse itoa as) i)"
  using run_inv [OF assms(1), of clock parse itoa i] assms(2) by (simp add: no_return_def entry_inv_def lane_ok_def)

text \<open>
  A lane with one large request an hour ago but for two minutes: a tick finds the compaction due, the daemon stops while it is
  being delivered, and the tick after the restart does not send it again.
\<close>

definition compact_lane :: compaction_lane where
  "compact_lane = \<lparr>cn_ID = ''a'', cn_Name = [], cn_Claude = True, cn_Structured = True, cn_Exited = False, cn_Unreachable = False,
     cn_Launching = False, cn_Working = False, cn_NeedsInput = False, cn_Blocked = False, cn_Child = False\<rparr>"

definition compact_parse :: "byte list \<Rightarrow> json option" where
  "compact_parse raw =
     (if raw = [] then Some (JObj [(''type'', JStr ''user''), (''timestamp'', JStr ''t0'')])
      else Some (JObj [(''type'', JStr ''assistant''), (''timestamp'', JStr ''t1''),
        (''message'', JObj [(''id'', JStr ''r1''), (''usage'', JObj [(''input_tokens'', JInt 150000),
           (''cache_creation'', JObj [(''ephemeral_1h_input_tokens'', JInt 1)])])])]))"

definition compact_raw :: "byte list" where
  "compact_raw = text_bytes (CHR 0x22 # ''usage'' @ [CHR 0x22])"

definition compact_events :: "byte list list" where
  "compact_events = [[], compact_raw]"

definition compact_clock :: "string \<Rightarrow> int option" where
  "compact_clock s = (if s = ''t0'' then Some 1000000 else Some 1005000)"

definition compact_candidate :: candidate where
  "compact_candidate = \<lparr>ca_Lane = compact_lane, ca_EventCount = 2, ca_Events = compact_events\<rparr>"

definition compact_observation :: compaction_observation where
  "compact_observation = \<lparr>bo_RequestID = ''r1'', bo_RequestStartMS = 1000000, bo_TTL = 3600000, bo_ContextTokens = 150000,
     bo_LastUserCompact = False, bo_CompactedAfterRequest = False, bo_QueuedInput = False\<rparr>"

lemma compact_records:
  "decodeRecord compact_parse [] = Some (zero_record\<lparr>or_Type := ''user'', or_Timestamp := JStr ''t0''\<rparr>)"
  "raw \<noteq> [] \<Longrightarrow> decodeRecord compact_parse raw = Some (zero_record\<lparr>or_Type := ''assistant'', or_Timestamp := JStr ''t1'',
     or_Message := Some (zero_message\<lparr>om_ID := ''r1'', om_Usage := Some (zero_usage\<lparr>us_InputTokens := 150000, us_CacheCreation := Some (0, 1)\<rparr>)\<rparr>)\<rparr>)"
  by (simp_all add: decodeRecord_def compact_parse_def dec_observed_def dec_message_def dec_usage_def dec_creation_def dec_any_def
      json_simps key_simps zero_record_def zero_message_def zero_usage_def in_i64_def)

lemma compact_raw_markers:
  "infix_of (text_bytes (CHR 0x22 # ''usage'' @ [CHR 0x22])) compact_raw" "compact_raw \<noteq> []"
  "\<not> infix_of (text_bytes ''queue-operation'') compact_raw" "\<not> infix_of (text_bytes (CHR 0x22 # ''user'' @ [CHR 0x22])) compact_raw"
  "\<not> infix_of (text_bytes ''queue-operation'') []" "\<not> infix_of (text_bytes (CHR 0x22 # ''user'' @ [CHR 0x22])) []"
  by (simp_all add: compact_raw_def text_bytes_def)

lemma compact_observe: "Observe compact_clock compact_parse compact_events = compact_observation"
proof -
  have q: "\<not> QueuedInput compact_parse [[], compact_raw]" and l: "\<not> lastUserCompact compact_parse [[], compact_raw]"
    using compact_raw_markers by (simp_all add: QueuedInput_def lastUserCompact_def)
  have a: "request_at compact_parse compact_raw = Some (the (decodeRecord compact_parse compact_raw))"
    using compact_raw_markers by (simp add: request_at_def compact_records requestRecord_def zero_message_def zero_record_def)
  have s: "requestStart compact_clock compact_parse [[], compact_raw] ''r1'' = 1000000"
    using compact_raw_markers(2)
    by (simp add: requestStart_def compact_records zero_message_def zero_record_def conversationRecord_def atMS_def compact_clock_def)
  have o: "Observe compact_clock compact_parse [[], compact_raw] = compact_observation"
    using compact_raw_markers(2)
    by (simp add: Observe_def observeLimit_def q l a s compact_records zero_message_def zero_usage_def zero_record_def cacheTTL_def
        ttlOneHour_def i64_def compact_observation_def Let_def)
  then show ?thesis by (simp add: compact_events_def)
qed

definition compact_tick :: "int \<Rightarrow> compaction_action" where
  "compact_tick ms = Tick (Some True) (ms * 1000000) [(compact_candidate, True)] False True"

definition compact_plan :: compaction_plan where
  "compact_plan = \<lparr>cp_Key = ''r1'', cp_FireAtMS = 4480000, cp_ExpiresAtMS = 4600000, cp_ContextTokens = 150000, cp_TTLMS = 3600000\<rparr>"

lemma compact_window: "Window compact_lane compact_observation ms = (compact_plan, if ms \<ge> 4600000 then Some ReasonExpired else None)"
  by (simp add: Window_def LaneReason_def compact_lane_def compact_observation_def compact_plan_def MinContextTokens_def i64_def Lead_def Let_def)

definition compact_store :: "compaction_entry \<Rightarrow> compaction_store" where
  "compact_store e = (let d = emptyDocument\<lparr>cd_Lanes := [''a'' \<mapsto> e]\<rparr> in \<lparr>st_File = Holds d, st_Doc = d, st_Err = None\<rparr>)"

lemma compact_store_eval:
  "st_Err (compact_store e) = None" "Entry ''a'' (compact_store e) = Some e" "snd (Put True ''a'' x (compact_store e)) = compact_store x"
  "st_File (compact_store e) = Holds (st_Doc (compact_store e))" "cd_Version (st_Doc (compact_store e)) = storeVersion"
  "snd (Recover True now (OpenStore True (st_File (compact_store e)))) = compact_store (recover_entry now e)"
  by (simp_all add: compact_store_def Let_def Entry_def Put_def update_def put_entry_def cloneDocument_def emptyDocument_def
      OpenStore_def Recover_def recover_lanes_def fun_eq_iff)

lemma compact_first:
  "\<exists>sched. evaluate compact_clock compact_parse (Some True) 4500000000000 True [(compact_candidate, True)] False True (cs_Sched compaction_start)
     = (\<lparr>su_Enabled = True, su_Error = None, su_Lanes = [\<lparr>ls_ID = ''a'', ls_Name = [], ls_Structured = True,
           ls_Override = None, ls_Enabled = True, ls_Reason = None, ls_Next = Some compact_plan, ls_Last = None\<rparr>]\<rparr>,
        [\<lparr>dn_Status = \<lparr>ls_ID = ''a'', ls_Name = [], ls_Structured = True,
           ls_Override = None, ls_Enabled = True, ls_Reason = None, ls_Next = Some compact_plan, ls_Last = None\<rparr>,
          dn_Candidate = compact_candidate, dn_Due = True\<rparr>], sched)
     \<and> sd_Store sched = compact_store (scheduled_entry compact_plan 4500000000000)"
  apply (simp add: evaluate_def compaction_start_def OpenStore_def emptyDocument_def storeVersion_def compact_candidate_def compact_lane_def decide_def lane_verdict_def
    Override_def Entry_def lane_enabled_def LaneReason_def observe_cached_def compact_observe Let_def verdict_of_def)
  apply (simp add: compact_window [unfolded compact_lane_def] UnixMilli_def verdict_plan_def verdict_reason_def settle_def is_scheduled_def Put_def
    Entry_def update_def cloneDocument_def emptyDocument_def storeVersion_def put_entry_def scheduled_entry_def Let_def)
  apply (simp add: prune_def Prune_def prune_stale_def keeps_def is_live_def absent_after_def Entry_def Override_def compact_plan_def compact_store_def
    emptyDocument_def storeVersion_def Let_def)
  done

definition compact_acts :: "compaction_action list" where
  "compact_acts = [Tick (Some True) 4500000000000 [(compact_candidate, True)] False True, StartSending ''op'' 4500000000000 True,
     Restart True True 4510000000000 True]"

lemma compact_seen:
  "seen_keys compact_clock compact_parse (Some True) [(compact_candidate, True)] (cs_Sched compaction_start) ''a'' = [''r1'']"
  by (simp add: seen_keys_def compaction_start_def OpenStore_def seen_key_def compact_candidate_def compact_lane_def lane_enabled_def Override_def
      emptyDocument_def LaneReason_def observe_cached_def compact_observe compact_observation_def Let_def map_filter_simps)

text \<open>After the tick, the sending state and the restart: the command counts as given, and the entry says that its outcome is unknown.\<close>

lemma compact_after:
  "let s = compaction_run compact_clock compact_parse (\<lambda>_. []) compact_acts in
     cs_Seen s ''a'' = [''r1''] \<and> cs_Given s ''a'' = [''r1''] \<and> map_option ce_State (Entry ''a'' (sd_Store (cs_Sched s))) = Some StateUnconfirmed"
proof -
  obtain out ds sched where ev: "evaluate compact_clock compact_parse (Some True) 4500000000000 True [(compact_candidate, True)] False True (cs_Sched compaction_start)
      = (out, ds, sched)" and ds: "due_plans ds = [(compact_candidate, compact_plan)]"
    and st: "sd_Store sched = compact_store (scheduled_entry compact_plan 4500000000000)"
    using compact_first by (auto simp: due_plans_def List.map_filter_def)
  define s1 where "s1 = compaction_step compact_clock compact_parse (\<lambda>_. []) (Tick (Some True) 4500000000000 [(compact_candidate, True)] False True) compaction_start"
  have s1: "cs_Sched s1 = sched" "cs_Pending s1 = [(compact_candidate, compact_plan)]" "cs_Sending s1 = None"
    "cs_Seen s1 ''a'' = [''r1'']" "cs_Given s1 ''a'' = []"
  proof -
    have f: "cs_Pending compaction_start = []" "cs_Sending compaction_start = None" "cs_Seen compaction_start ''a'' = []" "cs_Given compaction_start ''a'' = []"
      by (simp_all add: compaction_start_def)
    show "cs_Sched s1 = sched" "cs_Pending s1 = [(compact_candidate, compact_plan)]" "cs_Sending s1 = None"
      "cs_Seen s1 ''a'' = [''r1'']" "cs_Given s1 ''a'' = []"
      by (simp_all add: s1_def compaction_step_def Let_def ev ds compact_seen f)
  qed
  have i: "cn_ID (ca_Lane compact_candidate) = ''a''" by (simp add: compact_candidate_def compact_lane_def)
  have run: "compaction_run compact_clock compact_parse (\<lambda>_. []) compact_acts = compaction_step compact_clock compact_parse (\<lambda>_. [])
      (Restart True True 4510000000000 True) (compaction_step compact_clock compact_parse (\<lambda>_. []) (StartSending ''op'' 4500000000000 True) s1)"
    by (simp add: compaction_run_def compact_acts_def s1_def)
  have two: "compaction_step compact_clock compact_parse (\<lambda>_. []) (StartSending ''op'' 4500000000000 True) s1
      = s1\<lparr>cs_Sched := sched\<lparr>sd_Store := compact_store (sending_entry compact_plan ''op'' 4500000000000)\<rparr>,
          cs_Pending := [], cs_Sending := Some (compact_candidate, compact_plan, ''op'', 4500000000000)\<rparr>"
    using start_sending [OF s1(3,2) refl, of compact_clock compact_parse "\<lambda>_. []" "''op''" 4500000000000 True]
    by (simp add: s1(1) st i compact_store_eval)
  show ?thesis unfolding run two
    by (simp add: compaction_step_def Let_def compact_store_eval(2,6) note_given_def i s1(4,5) compact_plan_def
        recover_entry_def sending_entry_def)
qed

theorem compaction_at_most_once_witness:
  "distinct (cs_Given (compaction_run compact_clock compact_parse (\<lambda>_. []) compact_acts) ''a'')
   \<and> cs_Given (compaction_run compact_clock compact_parse (\<lambda>_. []) compact_acts) ''a'' = [''r1'']"
proof -
  have one: "list_all one_candidate_per_lane compact_acts" by (simp add: compact_acts_def one_candidate_per_lane_def distinct_lanes_def)
  show ?thesis
    using compaction_at_most_once [OF one, of compact_clock compact_parse "\<lambda>_. []" "''a''"] compact_after by (simp add: Let_def)
qed

text \<open>C25: the document on disk is the document in memory.  After any sequence of actions, opening the file of a store that is not
  paused gives exactly that store, so a restart loses no plan, choice or attribution; a paused store leaves the file alone in
  every operation; and the attribution history of a lane never exceeds its limit.
\<close>

theorem store_reopens:
  assumes "st = sd_Store (cs_Sched (compaction_run clock parse itoa as))"
  shows "(st_Err st = None \<longrightarrow> OpenStore True (st_File st) = st)
    \<and> (st_Err st \<noteq> None \<longrightarrow> snd (Put w i e st) = st \<and> snd (Delete w i st) = st \<and> snd (SetOverride w i v st) = st
        \<and> snd (AddSent w i r st) = st \<and> snd (Recover w now st) = st \<and> snd (Prune w keep cutoff st) = st)
    \<and> length (Sent i (OpenStore True (st_File st))) \<le> sentLimit"
proof -
  have s: "current st" "sent_bounded (filed st)" using run_sound [of clock parse itoa as] by (simp_all add: assms sound_store_def)
  have "sent_bounded (st_Doc (OpenStore True (st_File st)))"
    using s(2) by (auto simp: OpenStore_def Let_def filed_def sent_bounded_def emptyDocument_def split: store_file.splits)
  then have "length (Sent i (OpenStore True (st_File st))) \<le> sentLimit" by (auto simp: Sent_def sent_bounded_def split: option.splits)
  moreover have "snd (Put w i e st) = st \<and> snd (Delete w i st) = st \<and> snd (SetOverride w i v st) = st
        \<and> snd (AddSent w i r st) = st \<and> snd (Recover w now st) = st \<and> snd (Prune w keep cutoff st) = st" if "st_Err st \<noteq> None"
    by (simp add: Put_def Delete_def SetOverride_def AddSent_def Recover_def Prune_def paused_update [OF that])
  ultimately show ?thesis using reopen_same [OF s(1)] by blast
qed

theorem store_reopens_witness:
  "OpenStore True (st_File (sd_Store (cs_Sched (compaction_run compact_clock compact_parse (\<lambda>_. []) [Choose ''a'' (Some True) True]))))
     = sd_Store (cs_Sched (compaction_run compact_clock compact_parse (\<lambda>_. []) [Choose ''a'' (Some True) True]))"
proof -
  have "st_Err (sd_Store (cs_Sched (compaction_run compact_clock compact_parse (\<lambda>_. []) [Choose ''a'' (Some True) True]))) = None"
    by (simp add: compaction_run_def compaction_step_def compaction_start_def OpenStore_def)
  then show ?thesis
    using store_reopens [OF refl, where clock = compact_clock and parse = compact_parse and itoa = "\<lambda>_. []" and as = "[Choose ''a'' (Some True) True]"] by blast
qed

section \<open>The window of a request\<close>

text \<open>What the ticks and status requests of a run offered for a lane, and what goes back to it: every plan and every cached observation.\<close>

definition candidates_of :: "compaction_action \<Rightarrow> candidate list" where
  "candidates_of a = (case a of Tick setting now cs discovering writes \<Rightarrow> map fst cs | AskStatus setting now cs \<Rightarrow> cs | _ \<Rightarrow> [])"

definition offered :: "compaction_action list \<Rightarrow> candidate set" where
  "offered as = {c. \<exists>a \<in> set as. c \<in> set (candidates_of a)}"

definition window_from ::
  "(string \<Rightarrow> int option) \<Rightarrow> (byte list \<Rightarrow> json option) \<Rightarrow> candidate set \<Rightarrow> string \<Rightarrow> compaction_plan \<Rightarrow> bool" where
  "window_from clock parse C i p \<longleftrightarrow> (\<exists>c \<in> C. cn_ID (ca_Lane c) = i \<and> request_window (Observe clock parse (ca_Events c)) p)"

definition plans_from ::
  "(string \<Rightarrow> int option) \<Rightarrow> (byte list \<Rightarrow> json option) \<Rightarrow> candidate set \<Rightarrow> store_document \<Rightarrow> bool" where
  "plans_from clock parse C d \<longleftrightarrow> (\<forall>i e. cd_Lanes d i = Some e \<longrightarrow> window_from clock parse C i (ce_Plan e))"

definition cache_from ::
  "(string \<Rightarrow> int option) \<Rightarrow> (byte list \<Rightarrow> json option) \<Rightarrow> candidate set \<Rightarrow> scheduler \<Rightarrow> bool" where
  "cache_from clock parse C s \<longleftrightarrow> (\<forall>i n obs. sd_Cache s i = Some (n, obs) \<longrightarrow>
     (\<exists>c \<in> C. cn_ID (ca_Lane c) = i \<and> ca_EventCount c = n \<and> obs = Observe clock parse (ca_Events c)))"

definition sched_from ::
  "(string \<Rightarrow> int option) \<Rightarrow> (byte list \<Rightarrow> json option) \<Rightarrow> candidate set \<Rightarrow> scheduler \<Rightarrow> bool" where
  "sched_from clock parse C s \<longleftrightarrow> sound_store (sd_Store s) \<and> plans_from clock parse C (filed (sd_Store s)) \<and> cache_from clock parse C s"

definition run_from ::
  "(string \<Rightarrow> int option) \<Rightarrow> (byte list \<Rightarrow> json option) \<Rightarrow> candidate set \<Rightarrow> compaction_system \<Rightarrow> bool" where
  "run_from clock parse C s \<longleftrightarrow> sched_from clock parse C (cs_Sched s)
     \<and> (\<forall>(c, p) \<in> set (cs_Pending s). window_from clock parse C (cn_ID (ca_Lane c)) p)
     \<and> (\<forall>c p operation at. cs_Sending s = Some (c, p, operation, at) \<longrightarrow> window_from clock parse C (cn_ID (ca_Lane c)) p)"

lemma window_from_mono: "C \<subseteq> D \<Longrightarrow> window_from clock parse C i p \<Longrightarrow> window_from clock parse D i p"
  by (auto simp: window_from_def)

lemma run_from_mono:
  assumes "C \<subseteq> D" "run_from clock parse C s"
  shows "run_from clock parse D s"
proof -
  have "cache_from clock parse D (cs_Sched s)"
    using assms by (simp add: run_from_def sched_from_def cache_from_def) (meson subsetD)
  moreover have "plans_from clock parse D (filed (sd_Store (cs_Sched s)))"
    using assms window_from_mono [OF assms(1)] by (auto simp: run_from_def sched_from_def plans_from_def)
  ultimately show ?thesis
    using assms(2) window_from_mono [OF assms(1)] by (auto simp: run_from_def sched_from_def)
qed

lemma plans_changes:
  assumes "plans_from clock parse C d"
  shows "plans_from clock parse C (delete_entry i d)" "plans_from clock parse C (choose_override i v d)"
    "plans_from clock parse C (add_record i r d)" "plans_from clock parse C (recover_lanes now d)"
    "plans_from clock parse C (prune_document keep cutoff d)"
    "window_from clock parse C i (ce_Plan e) \<Longrightarrow> plans_from clock parse C (put_entry i e d)"
  using assms by (auto simp: plans_from_def delete_entry_def choose_override_def add_record_def recover_lanes_def
      prune_document_def put_entry_def recover_entry_def)

lemma plans_store:
  assumes "sound_store st" "plans_from clock parse C (filed st)"
  shows "plans_from clock parse C (filed (snd (Delete w i st)))" "plans_from clock parse C (filed (snd (SetOverride w i v st)))"
    "plans_from clock parse C (filed (snd (AddSent w i r st)))" "plans_from clock parse C (filed (snd (Recover w now st)))"
    "plans_from clock parse C (filed (snd (Prune w keep cutoff st)))"
    "window_from clock parse C i (ce_Plan e) \<Longrightarrow> plans_from clock parse C (filed (snd (Put w i e st)))"
proof -
  have c: "current st" using assms(1) by (simp add: sound_store_def)
  note k = idle_file.commit_keeps [OF c, where P = "plans_from clock parse C", OF assms(2)]
  show "plans_from clock parse C (filed (snd (Delete w i st)))" using k plans_changes(1) assms(2) by (simp add: Delete_def)
  show "plans_from clock parse C (filed (snd (SetOverride w i v st)))" unfolding SetOverride_def by (rule k) (rule plans_changes(2))
  show "plans_from clock parse C (filed (snd (AddSent w i r st)))" unfolding AddSent_def by (rule k) (rule plans_changes(3))
  show "plans_from clock parse C (filed (snd (Recover w now st)))" unfolding Recover_def by (rule k) (rule plans_changes(4))
  show "plans_from clock parse C (filed (snd (Prune w keep cutoff st)))" using k plans_changes(5) assms(2) by (simp add: Prune_def)
  show "plans_from clock parse C (filed (snd (Put w i e st)))" if "window_from clock parse C i (ce_Plan e)"
    unfolding Put_def by (rule k) (rule plans_changes(6) [OF _ that])
qed

lemma observed_from:
  assumes "cache_from clock parse C s" "c \<in> C"
  shows "\<exists>c0 \<in> C. cn_ID (ca_Lane c0) = cn_ID (ca_Lane c) \<and> ca_EventCount c0 = ca_EventCount c
      \<and> fst (observe_cached clock parse c s) = Observe clock parse (ca_Events c0)"
    and "cache_from clock parse C (snd (observe_cached clock parse c s))"
proof -
  let ?i = "cn_ID (ca_Lane c)" and ?n = "ca_EventCount c" and ?o = "Observe clock parse (ca_Events c)"
  have "(\<exists>c0 \<in> C. cn_ID (ca_Lane c0) = ?i \<and> ca_EventCount c0 = ?n \<and> fst (observe_cached clock parse c s) = Observe clock parse (ca_Events c0))
      \<and> cache_from clock parse C (snd (observe_cached clock parse c s))"
  proof (cases "\<exists>obs. sd_Cache s ?i = Some (?n, obs)")
    case True
    then obtain obs where o: "sd_Cache s ?i = Some (?n, obs)" by blast
    then have r: "observe_cached clock parse c s = (obs, s)" by (simp add: observe_cached_def Let_def)
    have "\<exists>c0 \<in> C. cn_ID (ca_Lane c0) = ?i \<and> ca_EventCount c0 = ?n \<and> obs = Observe clock parse (ca_Events c0)"
      using assms(1) o unfolding cache_from_def by blast
    then show ?thesis using assms(1) r by simp
  next
    case False
    then have r: "observe_cached clock parse c s = (?o, s\<lparr>sd_Cache := (sd_Cache s)(?i \<mapsto> (?n, ?o))\<rparr>)"
      by (auto simp: observe_cached_def Let_def split: option.splits)
    have "cache_from clock parse C (s\<lparr>sd_Cache := (sd_Cache s)(?i \<mapsto> (?n, ?o))\<rparr>)"
      using assms by (auto simp: cache_from_def)
    then show ?thesis using assms(2) r by auto
  qed
  then show "\<exists>c0 \<in> C. cn_ID (ca_Lane c0) = ?i \<and> ca_EventCount c0 = ?n
      \<and> fst (observe_cached clock parse c s) = Observe clock parse (ca_Events c0)"
    "cache_from clock parse C (snd (observe_cached clock parse c s))" by blast+
qed

lemma lane_verdict_cache:
  "cache_from clock parse C s \<Longrightarrow> c \<in> C \<Longrightarrow> cache_from clock parse C (snd (lane_verdict clock parse c global now s))"
  using observed_from(2) [of clock parse C s c]
  by (auto simp: lane_verdict_def Let_def case_prod_unfold split: option.splits)

text \<open>What one decision plans: the window of the request it observes, or the recorded plan.\<close>

definition planned_from ::
  "(string \<Rightarrow> int option) \<Rightarrow> (byte list \<Rightarrow> json option) \<Rightarrow> candidate set \<Rightarrow> candidate \<Rightarrow> compaction_entry option \<Rightarrow> compaction_plan \<Rightarrow> bool" where
  "planned_from clock parse C c was p \<longleftrightarrow> (\<exists>c0 \<in> C. cn_ID (ca_Lane c0) = cn_ID (ca_Lane c) \<and> ca_EventCount c0 = ca_EventCount c
     \<and> (request_window (Observe clock parse (ca_Events c0)) p
        \<or> bo_RequestID (Observe clock parse (ca_Events c0)) = []
          \<and> (\<exists>e. was = Some e \<and> ce_State e = StateScheduled \<and> ce_Plan e = p \<and> window_from clock parse C (cn_ID (ca_Lane c)) p)))"

lemma planned_window: "planned_from clock parse C c was p \<Longrightarrow> window_from clock parse C (cn_ID (ca_Lane c)) p"
  by (auto simp: planned_from_def window_from_def)

lemma verdict_from:
  assumes "sched_from clock parse C s" "st_Err (sd_Store s) = None" "c \<in> C"
  shows "fst (lane_verdict clock parse c global now s) = Planned p \<Longrightarrow> planned_from clock parse C c (Entry (cn_ID (ca_Lane c)) (sd_Store s)) p"
    and "fst (lane_verdict clock parse c global now s) = WindowClosed e \<Longrightarrow> window_from clock parse C (cn_ID (ca_Lane c)) (ce_Plan e)"
proof -
  let ?i = "cn_ID (ca_Lane c)" and ?was = "Entry (cn_ID (ca_Lane c)) (sd_Store s)"
  have kept: "cd_Lanes (filed (sd_Store s)) ?i = ?was" using assms(1,2) by (simp add: sched_from_def sound_store_def kept_entry)
  then have old: "window_from clock parse C ?i (ce_Plan x)" if "?was = Some x" for x
    using assms(1) that by (simp add: sched_from_def plans_from_def)
  obtain c0 where c0: "c0 \<in> C" "cn_ID (ca_Lane c0) = ?i" "ca_EventCount c0 = ca_EventCount c"
    "fst (observe_cached clock parse c s) = Observe clock parse (ca_Events c0)"
    using observed_from(1) [of clock parse C s c] assms by (auto simp: sched_from_def)
  show "planned_from clock parse C c ?was p" if v: "fst (lane_verdict clock parse c global now s) = Planned p"
  proof -
    have "verdict_of (ca_Lane c) (Observe clock parse (ca_Events c0)) ?was now = Planned p"
      using v c0(4) by (cases rule: lane_verdict_cases [of clock parse c global now s]) simp_all
    from verdict_window [OF this] show ?thesis using c0(1-3) old unfolding planned_from_def by blast
  qed
  show "window_from clock parse C ?i (ce_Plan e)" if v: "fst (lane_verdict clock parse c global now s) = WindowClosed e"
  proof -
    have "verdict_of (ca_Lane c) (Observe clock parse (ca_Events c0)) ?was now = WindowClosed e"
      using v c0(4) by (cases rule: lane_verdict_cases [of clock parse c global now s]) simp_all
    from verdict_closed [OF this] show ?thesis using old by (auto simp: missed_entry_def)
  qed
qed

lemma decide_from:
  assumes "sched_from clock parse C s" "st_Err (sd_Store s) = None" "c \<in> C"
  shows "sched_from clock parse C (snd (decide clock parse c global now write w s))"
proof -
  let ?i = "cn_ID (ca_Lane c)" and ?v = "fst (lane_verdict clock parse c global now s)" and ?st = "sd_Store s"
  have s: "sound_store ?st" "plans_from clock parse C (filed ?st)" using assms(1) by (simp_all add: sched_from_def)
  have "plans_from clock parse C (filed (settle write w ?i now ?v ?st))"
  proof (cases ?v)
    case (NoPlan r)
    then show ?thesis using plans_store(1) [OF s] s(2) by (simp add: settle_def)
  next
    case (WindowClosed e)
    then show ?thesis using plans_store(6) [OF s verdict_from(2) [OF assms WindowClosed]] s(2) by (simp add: settle_def)
  next
    case (Acted x)
    then show ?thesis using s(2) by (simp add: settle_def)
  next
    case (Planned p)
    have "window_from clock parse C ?i (ce_Plan (scheduled_entry p now))"
      using planned_window [OF verdict_from(1) [OF assms Planned]] by (simp add: scheduled_entry_def)
    then show ?thesis using Planned plans_store(6) [OF s] s(2) by (simp add: settle_def)
  qed
  moreover have "cache_from clock parse C (snd (decide clock parse c global now write w s))"
    using lane_verdict_cache [of clock parse C s c global now] assms(1,3)
    by (simp add: cache_from_def decide_parts sched_from_def)
  ultimately show ?thesis using settle_sound [OF s(1)] by (simp add: sched_from_def decide_parts)
qed

lemma decide_all_from:
  assumes "sched_from clock parse C s" "st_Err (sd_Store s) = None" "fst ` set cs \<subseteq> C"
  shows "sched_from clock parse C (snd (decide_all clock parse global now write cs s))
    \<and> (\<forall>d \<in> set (fst (decide_all clock parse global now write cs s)). \<forall>p. ls_Next (dn_Status d) = Some p \<longrightarrow>
         planned_from clock parse C (dn_Candidate d) (ls_Last (dn_Status d)) p)"
  using assms
proof (induction cs arbitrary: s)
  case (Cons b cs)
  obtain a w where b: "b = (a, w)" by fastforce
  have a: "a \<in> C" "fst ` set cs \<subseteq> C" using Cons.prems(3) by (simp_all add: b)
  let ?s1 = "snd (decide clock parse a global now write w s)" and ?d = "fst (decide clock parse a global now write w s)"
  have s1: "sched_from clock parse C ?s1" "st_Err (sd_Store ?s1) = None"
    using decide_from [OF Cons.prems(1,2) a(1)] Cons.prems(2) by (simp_all add: decide_parts)
  have d: "planned_from clock parse C (dn_Candidate ?d) (ls_Last (dn_Status ?d)) p" if "ls_Next (dn_Status ?d) = Some p" for p
  proof -
    have "fst (lane_verdict clock parse a global now s) = Planned p"
      using that by (auto simp: decide_parts verdict_plan_def split: verdict.splits)
    from verdict_from(1) [OF Cons.prems(1,2) a(1) this] show ?thesis by (simp add: decide_parts)
  qed
  show ?case using Cons.IH [OF s1 a(2)] Cons.IH [OF Cons.prems(1,2) a(2)] d by (auto simp: b case_prod_unfold)
qed simp

lemma evaluate_from:
  assumes "sched_from clock parse C s" "fst ` set cs \<subseteq> C"
    and "evaluate clock parse setting now write cs discovering writes s = (st, ds, s1)"
  shows "sched_from clock parse C s1"
    and "d \<in> set ds \<Longrightarrow> ls_Next (dn_Status d) = Some p \<Longrightarrow> planned_from clock parse C (dn_Candidate d) (ls_Last (dn_Status d)) p"
proof -
  have "sched_from clock parse C s1 \<and> (\<forall>d \<in> set ds. \<forall>p. ls_Next (dn_Status d) = Some p \<longrightarrow>
      planned_from clock parse C (dn_Candidate d) (ls_Last (dn_Status d)) p)"
  proof (cases "st_Err (sd_Store s)")
    case None
    show ?thesis
    proof (cases setting)
      case None
      then show ?thesis using assms(1,3) \<open>st_Err (sd_Store s) = None\<close> by (auto simp: evaluate_def)
    next
      case (Some global)
      let ?r = "decide_all clock parse global now write cs s"
      have r: "ds = fst ?r" "s1 = (if write then prune discovering writes cs now (snd ?r) else snd ?r)"
        using assms(3) None Some by (auto simp: evaluate_def case_prod_unfold)
      note all = decide_all_from [OF assms(1) None assms(2), of global now "write"]
      have "sched_from clock parse C (prune discovering writes cs now t)" if "sched_from clock parse C t" for t
        using that plans_store(5) [of "sd_Store t"] store_sound(6) [of "sd_Store t"]
        by (auto simp: sched_from_def prune_def cache_from_def)
      then show ?thesis using all r by auto
    qed
  next
    case (Some e)
    then show ?thesis using assms(1,3) by (auto simp: evaluate_def)
  qed
  then show "sched_from clock parse C s1"
    "d \<in> set ds \<Longrightarrow> ls_Next (dn_Status d) = Some p \<Longrightarrow> planned_from clock parse C (dn_Candidate d) (ls_Last (dn_Status d)) p"
    by blast+
qed

lemma deliver_end_from:
  assumes "sound_store st" "plans_from clock parse C (filed st)" "window_from clock parse C i p"
  shows "plans_from clock parse C (filed (deliver_end w w' i p operation at now out st))"
proof -
  have put: "plans_from clock parse C (filed (snd (Put w i e st)))" if "ce_Plan e = p" for e
    using plans_store(6) [OF assms(1,2)] assms(3) that by simp
  have "plans_from clock parse C (filed (snd (AddSent w' i r (snd (Put w i e st)))))" if "ce_Plan e = p" for e r
    using plans_store(3) [OF store_sound(1) [OF assms(1)] put [OF that]] .
  then show ?thesis using put by (simp add: deliver_end_def sending_entry_def Let_def)
qed

lemma step_from:
  assumes "run_from clock parse C s" "set (candidates_of a) \<subseteq> C"
  shows "run_from clock parse C (compaction_step clock parse itoa a s)"
proof -
  let ?sched = "cs_Sched s" and ?st = "sd_Store (cs_Sched s)"
  have sc: "sched_from clock parse C ?sched" using assms(1) by (simp add: run_from_def)
  then have so: "sound_store ?st" and pl: "plans_from clock parse C (filed ?st)" and ca: "cache_from clock parse C ?sched"
    by (simp_all add: sched_from_def)
  have pe: "window_from clock parse C (cn_ID (ca_Lane c)) p" if "(c, p) \<in> set (cs_Pending s)" for c p
    using assms(1) that by (auto simp: run_from_def)
  have se: "window_from clock parse C (cn_ID (ca_Lane c)) p" if "cs_Sending s = Some (c, p, operation, at)" for c p operation at
    using assms(1) that by (auto simp: run_from_def)
  have store: "sched_from clock parse C (?sched\<lparr>sd_Store := st'\<rparr>)" if "sound_store st'" "plans_from clock parse C (filed st')" for st'
    using that ca by (simp add: sched_from_def cache_from_def)
  show ?thesis
  proof (cases a)
    case (Tick setting now cs discovering writes)
    have sub: "fst ` set cs \<subseteq> C" using assms(2) by (simp add: Tick candidates_of_def)
    obtain out ds sched' where ev: "evaluate clock parse setting now True cs discovering writes ?sched = (out, ds, sched')"
      by (metis prod_cases3)
    note e = evaluate_from [OF sc sub ev]
    have "window_from clock parse C (cn_ID (ca_Lane c)) p" if due: "(c, p) \<in> set (due_plans ds)" for c p
    proof -
      obtain d where d: "d \<in> set ds" "dn_Candidate d = c" "ls_Next (dn_Status d) = Some p"
        using due unfolding due_plans_iff by blast
      show ?thesis using planned_window [OF e(2) [OF d(1,3)]] d(2) by simp
    qed
    then show ?thesis using e(1) assms(1) by (auto simp: compaction_step_def Tick Let_def ev run_from_def)
  next
    case (AskStatus setting now cs)
    let ?cs = "map (\<lambda>c. (c, True)) cs"
    have sub: "fst ` set ?cs \<subseteq> C" using assms(2) by (auto simp: AskStatus candidates_of_def)
    obtain out ds sched' where ev: "evaluate clock parse setting now False ?cs False True ?sched = (out, ds, sched')"
      by (metis prod_cases3)
    show ?thesis using evaluate_from(1) [OF sc sub ev] assms(1)
      by (simp add: compaction_step_def AskStatus Status_def ev run_from_def)
  next
    case (StartSending operation now writes)
    show ?thesis
    proof (cases "cs_Sending s = None \<and> cs_Pending s \<noteq> []")
      case True
      then obtain c p rest where q: "cs_Pending s = (c, p) # rest" by (cases "cs_Pending s") auto
      have w: "window_from clock parse C (cn_ID (ca_Lane c)) p" using pe [of c p] q by simp
      let ?put = "Put writes (cn_ID (ca_Lane c)) (sending_entry p operation now) ?st"
      have "sched_from clock parse C (?sched\<lparr>sd_Store := snd ?put\<rparr>)"
        by (rule store) (use store_sound(1) [OF so] plans_store(6) [OF so pl] w in \<open>simp_all add: sending_entry_def\<close>)
      then show ?thesis using True q w pe
        by (cases ?put; cases "fst ?put") (auto simp: compaction_step_def StartSending deliver_begin_def run_from_def)
    next
      case False
      then have "compaction_step clock parse itoa a s = s"
        by (auto simp: compaction_step_def StartSending Let_def split: option.splits list.splits)
      then show ?thesis using assms(1) by simp
    qed
  next
    case (Delivered facts now writes writes')
    show ?thesis
    proof (cases "cs_Sending s")
      case None
      then show ?thesis using assms(1) by (simp add: compaction_step_def Delivered Let_def)
    next
      case (Some x)
      obtain c p operation at where x: "x = (c, p, operation, at)" by (metis prod_cases4)
      have w: "window_from clock parse C (cn_ID (ca_Lane c)) p" using se Some x by simp
      have "sched_from clock parse C (?sched\<lparr>sd_Store := deliver_end writes writes' (cn_ID (ca_Lane c)) p operation at now out ?st\<rparr>)" for out
        by (rule store) (rule deliver_end_sound [OF so], rule deliver_end_from [OF so pl w])
      then show ?thesis using Some x assms(1) by (simp add: compaction_step_def Delivered Let_def case_prod_unfold run_from_def)
    qed
  next
    case (Choose i v writes)
    have "sched_from clock parse C (?sched\<lparr>sd_Store := snd (SetOverride writes i v ?st)\<rparr>)"
      by (rule store) (rule store_sound(3) [OF so], rule plans_store(2) [OF so pl])
    then show ?thesis using assms(1) by (simp add: compaction_step_def Choose Let_def run_from_def)
  next
    case (Restart given readable now writes)
    let ?o = "OpenStore readable (st_File ?st)"
    have o: "sound_store ?o" "plans_from clock parse C (filed ?o)"
      using open_sound [OF so] idle_file.restart_keeps [where P = "plans_from clock parse C", OF pl] by simp_all
    have "sched_from clock parse C \<lparr>sd_Store = snd (Recover writes now ?o), sd_Cache = Map.empty, sd_Absent = Map.empty\<rparr>"
      using store_sound(5) [OF o(1)] plans_store(4) [OF o] by (simp add: sched_from_def cache_from_def)
    then show ?thesis by (simp add: compaction_step_def Restart Let_def run_from_def)
  qed
qed

lemma offered_snoc: "offered (as @ [a]) = offered as \<union> set (candidates_of a)"
  by (auto simp: offered_def)

lemma runs_from: "run_from clock parse (offered as) (compaction_run clock parse itoa as)"
proof (induction as rule: rev_induct)
  case Nil
  have "plans_from clock parse C (filed (OpenStore True NoFile))" for C
    by (simp add: plans_from_def filed_open emptyDocument_def)
  then show ?case using start_sound
    by (simp add: compaction_run_def run_from_def sched_from_def cache_from_def compaction_start_def)
next
  case (snoc a as)
  have "run_from clock parse (offered (as @ [a])) (compaction_run clock parse itoa as)"
    by (rule run_from_mono [OF _ snoc.IH]) (simp add: offered_snoc)
  then show ?case unfolding run_snoc by (rule step_from) (simp add: offered_snoc)
qed

lemma due_facts:
  assumes "evaluate clock parse setting now write cs discovering writes s = (st, ds, s1)" "d \<in> set ds" "dn_Due d"
  shows "\<exists>p. ls_Next (dn_Status d) = Some p \<and> cp_FireAtMS p \<le> UnixMilli now \<and> UnixMilli now < cp_ExpiresAtMS p
    \<and> dn_Candidate d \<in> fst ` set cs \<and> ls_Enabled (dn_Status d) \<and> LaneReason (ca_Lane (dn_Candidate d)) = None
    \<and> (\<forall>e. ls_Last (dn_Status d) = Some e \<and> cp_Key (ce_Plan e) = cp_Key p \<longrightarrow> ce_State e = StateScheduled)"
proof -
  obtain global where "d \<in> set (fst (decide_all clock parse global now write cs s))"
    using assms(1,2) by (auto simp: evaluate_def split: option.splits prod.splits) (metis fst_conv)
  then obtain c s' where c: "c \<in> set cs" "d = fst (decide clock parse (fst c) global now write (snd c) s')"
    by (rule decide_all_member)
  let ?l = "ca_Lane (fst c)" and ?was = "Entry (cn_ID (ca_Lane (fst c))) (sd_Store s')"
  have st: "dn_Candidate d = fst c" "ls_Last (dn_Status d) = ?was"
    "ls_Next (dn_Status d) = verdict_plan (fst (lane_verdict clock parse (fst c) global now s'))"
    by (simp_all add: c(2) decide_parts)
  have en: "ls_Enabled (dn_Status d) = lane_enabled (Override (cn_ID ?l) (sd_Store s')) global"
    and due: "dn_Due d = (case fst (lane_verdict clock parse (fst c) global now s') of Planned p \<Rightarrow> UnixMilli now \<ge> cp_FireAtMS p | _ \<Rightarrow> False)"
    by (simp_all add: c(2) decide_def Let_def case_prod_unfold)
  from assms(3) due obtain p where p: "fst (lane_verdict clock parse (fst c) global now s') = Planned p" "UnixMilli now \<ge> cp_FireAtMS p"
    by (auto split: verdict.splits)
  then obtain obs where o: "lane_enabled (Override (cn_ID ?l) (sd_Store s')) global" "verdict_of ?l obs ?was now = Planned p"
    by (auto simp: lane_verdict_def Let_def split: if_splits option.splits prod.splits)
  note v = verdict_planned [OF o(2)]
  show ?thesis
    using v(1,2,3) st p(2) en o(1) c(1) by (auto simp: p(1) verdict_plan_def)
qed

text \<open>C23: a compaction is due only inside the window of its request.  In any run, whatever writes failed and however often the daemon
  was restarted, a lane a tick hands to delivery is one of its candidates, its setting is on, its own facts allow a
  compaction, nothing was done for its request before, and its plan has fired and not expired.  That plan belongs to a request in
  the records offered for the lane: those of this tick or of an earlier candidate with the same number of records, or, when
  they hold no request, those the recorded schedule was made from.  It expires at the start of that request plus the lifetime of its
  cache, fires two minutes earlier, and the request is large, neither followed by a compaction nor by queued input.
\<close>

theorem due_in_window:
  assumes "evaluate clock parse setting now True cs discovering writes (cs_Sched (compaction_run clock parse itoa as)) = (st, ds, s1)"
    and "d \<in> set ds" and "dn_Due d"
  shows "\<exists>p c. ls_Next (dn_Status d) = Some p \<and> cp_FireAtMS p \<le> UnixMilli now \<and> UnixMilli now < cp_ExpiresAtMS p
    \<and> c \<in> offered (as @ [Tick setting now cs discovering writes]) \<and> cn_ID (ca_Lane c) = cn_ID (ca_Lane (dn_Candidate d))
    \<and> request_window (Observe clock parse (ca_Events c)) p
    \<and> (ca_EventCount c = ca_EventCount (dn_Candidate d)
       \<or> (\<exists>e c0. ls_Last (dn_Status d) = Some e \<and> ce_State e = StateScheduled \<and> ce_Plan e = p
            \<and> c0 \<in> offered (as @ [Tick setting now cs discovering writes]) \<and> cn_ID (ca_Lane c0) = cn_ID (ca_Lane (dn_Candidate d))
            \<and> ca_EventCount c0 = ca_EventCount (dn_Candidate d) \<and> bo_RequestID (Observe clock parse (ca_Events c0)) = []))
    \<and> dn_Candidate d \<in> fst ` set cs \<and> ls_Enabled (dn_Status d) \<and> LaneReason (ca_Lane (dn_Candidate d)) = None
    \<and> (\<forall>e. ls_Last (dn_Status d) = Some e \<and> cp_Key (ce_Plan e) = cp_Key p \<longrightarrow> ce_State e = StateScheduled)"
proof -
  obtain p where p: "ls_Next (dn_Status d) = Some p" "cp_FireAtMS p \<le> UnixMilli now" "UnixMilli now < cp_ExpiresAtMS p"
    "dn_Candidate d \<in> fst ` set cs" "ls_Enabled (dn_Status d)" "LaneReason (ca_Lane (dn_Candidate d)) = None"
    "\<forall>e. ls_Last (dn_Status d) = Some e \<and> cp_Key (ce_Plan e) = cp_Key p \<longrightarrow> ce_State e = StateScheduled"
    using due_facts [OF assms] by blast
  let ?C = "offered (as @ [Tick setting now cs discovering writes])"
  have "sched_from clock parse ?C (cs_Sched (compaction_run clock parse itoa as))"
    using run_from_mono [OF _ runs_from, of as ?C clock parse itoa] by (simp add: run_from_def offered_snoc)
  moreover have "fst ` set cs \<subseteq> ?C" by (simp add: offered_snoc candidates_of_def)
  ultimately have "planned_from clock parse ?C (dn_Candidate d) (ls_Last (dn_Status d)) p"
    using evaluate_from(2) [OF _ _ assms(1,2) p(1)] by blast
  then show ?thesis using p unfolding planned_from_def window_from_def by blast
qed

lemma compact_run_start: "cs_Sched (compaction_run compact_clock compact_parse (\<lambda>_. []) []) = cs_Sched compaction_start"
  by (simp add: compaction_run_def)

text \<open>The lane above, one hour but a hundred seconds after its request began: the plan expires an hour after that.\<close>

theorem due_in_window_witness:
  "map (\<lambda>d. map_option (\<lambda>p. (cp_Key p, cp_FireAtMS p, cp_ExpiresAtMS p)) (ls_Next (dn_Status d)))
     (fst (snd (evaluate compact_clock compact_parse (Some True) 4500000000000 True [(compact_candidate, True)] False True (cs_Sched compaction_start))))
   = [Some (''r1'', 1000000 + 60 * 60 * 1000 - 2 * 60 * 1000, 1000000 + 60 * 60 * 1000)]"
proof -
  obtain out ds sched where ev: "evaluate compact_clock compact_parse (Some True) 4500000000000 True [(compact_candidate, True)] False True
        (cs_Sched (compaction_run compact_clock compact_parse (\<lambda>_. []) [])) = (out, ds, sched)"
      and d: "\<exists>d. ds = [d] \<and> dn_Due d"
    using compact_first unfolding compact_run_start by auto
  from d obtain d where d: "ds = [d]" "dn_Due d" by blast
  then have "d \<in> set ds" by simp
  from due_in_window [OF ev this d(2)] obtain p c where p: "ls_Next (dn_Status d) = Some p"
    and c: "c \<in> offered [Tick (Some True) 4500000000000 [(compact_candidate, True)] False True]"
    and w: "request_window (Observe compact_clock compact_parse (ca_Events c)) p" by auto
  have "c = compact_candidate" using c by (simp add: offered_def candidates_of_def)
  then have "request_window compact_observation p" using w compact_observe by (simp add: compact_candidate_def)
  then show ?thesis using ev d(1) p unfolding compact_run_start
    by (simp add: request_window_def compact_observation_def i64_def Lead_def)
qed

text \<open>C24: \<open>sessions compaction status\<close> tells what a tick would do.  Asked at the same moment of the same scheduler, with one
  candidate per lane, it reports the setting, the reason, the plan and the last entry that the decisions of a tick report,
  whatever the outcomes of that tick's writes, and it changes nothing of the store.
\<close>

theorem Status_matches_tick:
  assumes "distinct_lanes cs"
  shows "fst (Status clock parse setting now (map fst cs) s) = fst (evaluate clock parse setting now True cs discovering writes s)
    \<and> sd_Store (snd (Status clock parse setting now (map fst cs) s)) = sd_Store s"
proof -
  let ?cs = "map (\<lambda>c. (c, True)) (map fst cs)"
  have d: "distinct_lanes ?cs" using assms by (simp add: distinct_lanes_def comp_def)
  have same: "fst (decide_all clock parse g now False ?cs s) = fst (decide_all clock parse g now True cs s)" for g
    using decide_all_status [OF d, of s s clock parse g now False] decide_all_status [OF assms, of s s clock parse g now True]
    by (simp add: filter_map comp_def)
  have keep: "sd_Store (snd (decide_all clock parse g now False bs t)) = sd_Store t" for g bs t
  proof (induction bs arbitrary: t)
    case (Cons b bs)
    then show ?case by (cases b) (simp add: case_prod_unfold decide_parts settle_def)
  qed simp
  show ?thesis using same keep by (auto simp: Status_def evaluate_def case_prod_unfold split: option.splits)
qed

theorem Status_matches_tick_witness:
  "fst (Status compact_clock compact_parse (Some True) 4500000000000 [compact_candidate] (cs_Sched compaction_start))
   = fst (evaluate compact_clock compact_parse (Some True) 4500000000000 True [(compact_candidate, False)] False True (cs_Sched compaction_start))"
  using Status_matches_tick [of "[(compact_candidate, False)]" compact_clock compact_parse "Some True" 4500000000000 "cs_Sched compaction_start" False True]
  by (simp add: distinct_lanes_def)

end
