(* ===== verification/Notify_Queue.thy ===== *)
theory Notify_Queue
  imports Event_Streams
begin

text \<open>
  The queue of session notifications, \<open>queueSessionNotification\<close>, \<open>flushSessionNotification\<close> and \<open>closeNotifications\<close> of
  \<open>runtime/internal/session/notifications.go\<close>.  Callers, timers and the flushes they start interleave at the lock: a flush
  reads the pending notification, asks for the settings without the lock, and looks again.  A notification queued is a pointer
  in the code; here it is the number under which it was queued, and a timer the number under which it was started.
\<close>

section \<open>The queue\<close>

record push_payload =
  pp_Title :: string
  pp_Body :: string

record queued_notification =
  qn_Kind :: string
  qn_Payload :: push_payload

record notification_state =
  ns_LastSent :: "int option"
  ns_Pending :: "(nat \<times> queued_notification) option"
  ns_Timer :: "nat option"

datatype flush_phase = Reading | Asking nat

text \<open>
  The timers that are armed (number, session, when they fire), the flushes under way (the timer that started them, session,
  phase), and what was sent, in order (number, session, the time stamped).
\<close>

record notification_queue =
  nq_Closed :: bool
  nq_States :: "string \<rightharpoonup> notification_state"
  nq_Armed :: "(nat \<times> string \<times> int) list"
  nq_Flushes :: "(nat \<times> string \<times> flush_phase) list"
  nq_Next :: nat
  nq_Now :: int
  nq_Sent :: "(nat \<times> string \<times> int) list"

definition stop_timer :: "nat option \<Rightarrow> (nat \<times> string \<times> int) list \<Rightarrow> (nat \<times> string \<times> int) list" where
  "stop_timer t ts = filter (\<lambda>x. Some (fst x) \<noteq> t) ts"

definition new_state :: notification_state where
  "new_state = \<lparr>ns_LastSent = None, ns_Pending = None, ns_Timer = None\<rparr>"

text \<open>\<open>now\<close> is the clock as the caller read it before it took the lock; \<open>enabled\<close> what the settings said.\<close>

definition queueSessionNotification ::
  "int \<Rightarrow> bool \<Rightarrow> int \<Rightarrow> string \<Rightarrow> queued_notification \<Rightarrow> notification_queue \<Rightarrow> notification_queue" where
  "queueSessionNotification cooldown enabled now i n q =
     (if i = [] \<or> \<not> enabled \<or> nq_Closed q then q
      else let cur = (case nq_States q i of None \<Rightarrow> new_state | Some s \<Rightarrow> s); k = nq_Next q in
        if (case ns_LastSent cur of None \<Rightarrow> True | Some t \<Rightarrow> now - t \<ge> cooldown)
        then q\<lparr>nq_States := (nq_States q)(i \<mapsto> \<lparr>ns_LastSent = Some now, ns_Pending = None, ns_Timer = None\<rparr>),
               nq_Armed := stop_timer (ns_Timer cur) (nq_Armed q), nq_Next := k + 1, nq_Sent := nq_Sent q @ [(k, i, now)]\<rparr>
        else let due = nq_Now q + (cooldown - (now - the (ns_LastSent cur))) in
          q\<lparr>nq_States := (nq_States q)(i \<mapsto> cur\<lparr>ns_Pending := Some (k, n),
                 ns_Timer := (case ns_Timer cur of None \<Rightarrow> Some k | Some t \<Rightarrow> Some t)\<rparr>),
            nq_Armed := (if ns_Timer cur = None then nq_Armed q @ [(k, i, due)] else nq_Armed q), nq_Next := k + 1\<rparr>)"

text \<open>A timer that is due starts a flush; \<open>k\<close> is its place among the armed ones.\<close>

definition fire_timer :: "nat \<Rightarrow> notification_queue \<Rightarrow> notification_queue" where
  "fire_timer k q = (case nq_Armed q ! k of (t, i, due) \<Rightarrow>
     q\<lparr>nq_Armed := take k (nq_Armed q) @ drop (Suc k) (nq_Armed q), nq_Flushes := nq_Flushes q @ [(t, i, Reading)]\<rparr>)"

definition end_flush :: "nat \<Rightarrow> notification_queue \<Rightarrow> notification_queue" where
  "end_flush k q = q\<lparr>nq_Flushes := take k (nq_Flushes q) @ drop (Suc k) (nq_Flushes q)\<rparr>"

text \<open>The two lock sections of \<open>flushSessionNotification\<close>, for the flush at place \<open>k\<close>.\<close>

definition flush_read :: "nat \<Rightarrow> notification_queue \<Rightarrow> notification_queue" where
  "flush_read k q = (case nq_Flushes q ! k of (t, i, ph) \<Rightarrow>
     if nq_Closed q then end_flush k q
     else case Option.bind (nq_States q i) ns_Pending of
         None \<Rightarrow> end_flush k q
       | Some (p, n) \<Rightarrow> q\<lparr>nq_Flushes := (nq_Flushes q)[k := (t, i, Asking p)]\<rparr>)"

definition flush_commit :: "bool \<Rightarrow> nat \<Rightarrow> notification_queue \<Rightarrow> notification_queue" where
  "flush_commit enabled k q = (case nq_Flushes q ! k of
     (t, i, Asking p) \<Rightarrow>
       if nq_Closed q then end_flush k q
       else (case nq_States q i of
           None \<Rightarrow> q\<lparr>nq_Flushes := (nq_Flushes q)[k := (t, i, Reading)]\<rparr>
         | Some cur \<Rightarrow>
             if map_option fst (ns_Pending cur) \<noteq> Some p then q\<lparr>nq_Flushes := (nq_Flushes q)[k := (t, i, Reading)]\<rparr>
             else (end_flush k q)\<lparr>nq_States := (nq_States q)(i \<mapsto>
                      \<lparr>ns_LastSent = (if enabled then Some (nq_Now q) else ns_LastSent cur), ns_Pending = None, ns_Timer = None\<rparr>),
                    nq_Sent := (if enabled then nq_Sent q @ [(p, i, nq_Now q)] else nq_Sent q)\<rparr>)
   | _ \<Rightarrow> q)"

definition closeNotifications :: "notification_queue \<Rightarrow> notification_queue" where
  "closeNotifications q =
     q\<lparr>nq_Closed := True, nq_States := Map.empty,
       nq_Armed := filter (\<lambda>(t, i, due). Option.bind (nq_States q i) ns_Timer \<noteq> Some t) (nq_Armed q)\<rparr>"

definition queue_start :: notification_queue where
  "queue_start = \<lparr>nq_Closed = False, nq_States = Map.empty, nq_Armed = [], nq_Flushes = [], nq_Next = 0, nq_Now = 0, nq_Sent = []\<rparr>"

text \<open>The clock never goes back, a caller read it earlier, and a timer fires when it is due.\<close>

inductive notification_step :: "int \<Rightarrow> notification_queue \<Rightarrow> notification_queue \<Rightarrow> bool" for cooldown where
  q_tick: "t \<ge> nq_Now q \<Longrightarrow> notification_step cooldown q (q\<lparr>nq_Now := t\<rparr>)"
| q_queue: "now \<le> nq_Now q \<Longrightarrow> notification_step cooldown q (queueSessionNotification cooldown enabled now i n q)"
| q_fire: "k < length (nq_Armed q) \<Longrightarrow> snd (snd (nq_Armed q ! k)) \<le> nq_Now q \<Longrightarrow> notification_step cooldown q (fire_timer k q)"
| q_read: "k < length (nq_Flushes q) \<Longrightarrow> snd (snd (nq_Flushes q ! k)) = Reading \<Longrightarrow> notification_step cooldown q (flush_read k q)"
| q_commit: "k < length (nq_Flushes q) \<Longrightarrow> notification_step cooldown q (flush_commit enabled k q)"
| q_close: "notification_step cooldown q (closeNotifications q)"

abbreviation queue_reached :: "int \<Rightarrow> notification_queue \<Rightarrow> bool" where
  "queue_reached cooldown \<equiv> reached (notification_step cooldown) (\<lambda>q. q = queue_start)"

lemma queue_reached_step: "queue_reached cooldown q \<Longrightarrow> notification_step cooldown q q' \<Longrightarrow> queue_reached cooldown q'"
  by (rule reached_step)

section \<open>Nothing pending is forgotten\<close>

text \<open>
  A pending notification has a timer of its own, which is armed or has started a flush that is still under way.  Numbers are
  used once: those in use are below the next one, no two sessions share a timer or a pending notification, and what is pending
  was not sent.  \<open>T\<close> and \<open>P\<close> are the timer and the pending number of each session, \<open>W\<close> the timers watched for, \<open>n\<close> the
  next number, \<open>S\<close> the numbers sent.
\<close>

definition timer_of :: "notification_queue \<Rightarrow> string \<Rightarrow> nat option" where
  "timer_of q i = Option.bind (nq_States q i) ns_Timer"

definition pending_of :: "notification_queue \<Rightarrow> string \<Rightarrow> nat option" where
  "pending_of q i = Option.bind (nq_States q i) (\<lambda>s. map_option fst (ns_Pending s))"

definition watched_timers :: "notification_queue \<Rightarrow> (string \<times> nat) set" where
  "watched_timers q = {(i, t). (\<exists>due. (t, i, due) \<in> set (nq_Armed q)) \<or> (\<exists>ph. (t, i, ph) \<in> set (nq_Flushes q))}"

definition numbers_ok :: "(string \<Rightarrow> nat option) \<Rightarrow> (string \<Rightarrow> nat option) \<Rightarrow> (string \<times> nat) set \<Rightarrow> nat \<Rightarrow> nat list \<Rightarrow> bool" where
  "numbers_ok T P W n S \<longleftrightarrow> (\<forall>i. P i = None \<longleftrightarrow> T i = None) \<and> (\<forall>i t. T i = Some t \<longrightarrow> t < n \<and> (i, t) \<in> W)
     \<and> (\<forall>i p. P i = Some p \<longrightarrow> p < n \<and> p \<notin> set S) \<and> (\<forall>i j t. T i = Some t \<and> T j = Some t \<longrightarrow> i = j)
     \<and> (\<forall>i j p. P i = Some p \<and> P j = Some p \<longrightarrow> i = j) \<and> (\<forall>p \<in> set S. p < n) \<and> distinct S"

lemma numbers_frame:
  "numbers_ok T P W n S \<Longrightarrow> (\<And>i t. T i = Some t \<Longrightarrow> (i, t) \<in> W \<Longrightarrow> (i, t) \<in> W') \<Longrightarrow> numbers_ok T P W' n S"
  unfolding numbers_ok_def by blast

lemma numbers_send:
  assumes "numbers_ok T P W n S" "\<And>j t. j \<noteq> i \<Longrightarrow> T j = Some t \<Longrightarrow> T i \<noteq> Some t \<Longrightarrow> (j, t) \<in> W \<Longrightarrow> (j, t) \<in> W'"
  shows "numbers_ok (T(i := None)) (P(i := None)) W' (n + 1) (S @ [n])"
proof -
  have "(j, t) \<in> W'" if "j \<noteq> i" "T j = Some t" for j t
    using assms that unfolding numbers_ok_def by metis
  then show ?thesis using assms(1) unfolding numbers_ok_def by (auto simp: less_Suc_eq)
qed

lemma numbers_put:
  assumes "numbers_ok T P W n S" "W \<subseteq> W'" "T i = None \<Longrightarrow> (i, n) \<in> W'"
  shows "numbers_ok (T(i := Some (case T i of None \<Rightarrow> n | Some t \<Rightarrow> t))) (P(i := Some n)) W' (n + 1) S"
proof -
  have lt: "T j = Some t \<Longrightarrow> t < n \<and> (j, t) \<in> W'" "P j = Some t \<Longrightarrow> t < n" "t \<in> set S \<Longrightarrow> t < n" for j t
    using assms(1,2) unfolding numbers_ok_def by blast+
  show ?thesis using assms(1,3) lt unfolding numbers_ok_def
    by (auto simp: less_Suc_eq split: option.splits) (metis less_irrefl lt)+
qed

lemma numbers_take:
  assumes "numbers_ok T P W n S" "P i = Some p" "\<And>j t. j \<noteq> i \<Longrightarrow> (j, t) \<in> W \<Longrightarrow> (j, t) \<in> W'"
  shows "numbers_ok (T(i := None)) (P(i := None)) W' n S" "numbers_ok (T(i := None)) (P(i := None)) W' n (S @ [p])"
proof -
  have p: "p < n" "p \<notin> set S" "\<And>j. j \<noteq> i \<Longrightarrow> P j \<noteq> Some p" using assms(1,2) unfolding numbers_ok_def by blast+
  show "numbers_ok (T(i := None)) (P(i := None)) W' n S" "numbers_ok (T(i := None)) (P(i := None)) W' n (S @ [p])"
    using assms(1,3) p unfolding numbers_ok_def by auto
qed

definition queue_inv :: "notification_queue \<Rightarrow> bool" where
  "queue_inv q \<longleftrightarrow> numbers_ok (timer_of q) (pending_of q) (watched_timers q) (nq_Next q) (map fst (nq_Sent q))"

lemma queue_inv_frame:
  assumes "queue_inv q" "nq_States q' = nq_States q" "nq_Next q' = nq_Next q" "nq_Sent q' = nq_Sent q"
    and "\<And>i t. timer_of q i = Some t \<Longrightarrow> (i, t) \<in> watched_timers q \<Longrightarrow> (i, t) \<in> watched_timers q'"
  shows "queue_inv q'"
proof -
  have "timer_of q' = timer_of q" "pending_of q' = pending_of q" by (simp_all add: fun_eq_iff timer_of_def pending_of_def assms(2))
  then show ?thesis using assms(1) numbers_frame [OF _ assms(5)] by (simp add: queue_inv_def assms(3,4))
qed

lemma queue_inv_start: "queue_inv queue_start"
  by (simp add: queue_inv_def queue_start_def numbers_ok_def timer_of_def pending_of_def)

lemma queue_inv_queue:
  assumes inv: "queue_inv q"
  shows "queue_inv (queueSessionNotification cooldown enabled now i n q)"
proof (cases "i = [] \<or> \<not> enabled \<or> nq_Closed q")
  case True
  then show ?thesis using inv by (auto simp: queueSessionNotification_def)
next
  case admitted: False
  define cur where "cur = (case nq_States q i of None \<Rightarrow> new_state | Some s \<Rightarrow> s)"
  have T: "ns_Timer cur = timer_of q i" by (simp add: cur_def timer_of_def new_state_def split: option.splits)
  have inv': "numbers_ok (timer_of q) (pending_of q) (watched_timers q) (nq_Next q) (map fst (nq_Sent q))" using inv by (simp add: queue_inv_def)
  show ?thesis
  proof (cases "case ns_LastSent cur of None \<Rightarrow> True | Some t \<Rightarrow> now - t \<ge> cooldown")
    case True
    let ?q = "queueSessionNotification cooldown enabled now i n q"
    have q: "?q = q\<lparr>nq_States := (nq_States q)(i \<mapsto> \<lparr>ns_LastSent = Some now, ns_Pending = None, ns_Timer = None\<rparr>),
               nq_Armed := stop_timer (ns_Timer cur) (nq_Armed q), nq_Next := nq_Next q + 1, nq_Sent := nq_Sent q @ [(nq_Next q, i, now)]\<rparr>"
      using admitted True by (simp add: queueSessionNotification_def cur_def [symmetric] Let_def)
    have p: "timer_of ?q = (timer_of q)(i := None)" "pending_of ?q = (pending_of q)(i := None)"
      by (auto simp: q timer_of_def pending_of_def fun_eq_iff)
    have w: "timer_of q i \<noteq> Some t \<Longrightarrow> (j, t) \<in> watched_timers q \<Longrightarrow> (j, t) \<in> watched_timers ?q" for j t
      by (force simp: q watched_timers_def stop_timer_def T)
    show ?thesis unfolding queue_inv_def p using numbers_send [OF inv', of i "watched_timers ?q"] w by (simp add: q)
  next
    case False
    let ?q = "queueSessionNotification cooldown enabled now i n q"
    have q: "?q = q\<lparr>nq_States := (nq_States q)(i \<mapsto> cur\<lparr>ns_Pending := Some (nq_Next q, n),
                 ns_Timer := (case ns_Timer cur of None \<Rightarrow> Some (nq_Next q) | Some t \<Rightarrow> Some t)\<rparr>),
            nq_Armed := (if ns_Timer cur = None
              then nq_Armed q @ [(nq_Next q, i, nq_Now q + (cooldown - (now - the (ns_LastSent cur))))] else nq_Armed q),
            nq_Next := nq_Next q + 1\<rparr>"
      using admitted False by (simp add: queueSessionNotification_def cur_def [symmetric] Let_def)
    have p: "timer_of ?q = (timer_of q)(i := Some (case timer_of q i of None \<Rightarrow> nq_Next q | Some t \<Rightarrow> t))"
      "pending_of ?q = (pending_of q)(i := Some (nq_Next q))"
      by (auto simp: q T [symmetric] fun_eq_iff split: option.splits) (auto simp: timer_of_def pending_of_def T)
    have w: "watched_timers q \<subseteq> watched_timers ?q" "timer_of q i = None \<Longrightarrow> (i, nq_Next q) \<in> watched_timers ?q"
      by (auto simp: q watched_timers_def T)
    show ?thesis unfolding queue_inv_def p using numbers_put [OF inv' w] by (simp add: q)
  qed
qed

lemma drop_nth: "k < length xs \<Longrightarrow> set xs = insert (xs ! k) (set (take k xs @ drop (Suc k) xs))"
  by (subst id_take_nth_drop [of k xs]) auto

lemma queue_inv_fire:
  assumes "queue_inv q" "k < length (nq_Armed q)"
  shows "queue_inv (fire_timer k q)"
proof -
  obtain t i due where x: "nq_Armed q ! k = (t, i, due)" by (metis prod_cases3)
  have "watched_timers q \<subseteq> watched_timers (fire_timer k q)"
    using drop_nth [OF assms(2)] by (auto simp: watched_timers_def fire_timer_def x)
  then show ?thesis by (intro queue_inv_frame [OF assms(1)]) (auto simp: fire_timer_def x)
qed

lemma watched_end:
  assumes "k < length (nq_Flushes q)" "nq_Flushes q ! k = (t, i, ph)" "(j, u) \<in> watched_timers q" "(j, u) \<noteq> (i, t)"
  shows "(j, u) \<in> watched_timers (end_flush k q)"
  using drop_nth [OF assms(1)] assms(2,3,4) by (auto simp: watched_timers_def end_flush_def)

lemma watched_phase:
  assumes "k < length (nq_Flushes q)" "nq_Flushes q ! k = (t, i, ph)"
  shows "watched_timers (q\<lparr>nq_Flushes := (nq_Flushes q)[k := (t, i, ph')]\<rparr>) = watched_timers q"
  using drop_nth [OF assms(1)] drop_nth [of k "(nq_Flushes q)[k := (t, i, ph')]"] assms by (auto simp: watched_timers_def)

lemma queue_inv_phase:
  assumes "queue_inv q" "k < length (nq_Flushes q)" "nq_Flushes q ! k = (t, i, ph)"
  shows "queue_inv (q\<lparr>nq_Flushes := (nq_Flushes q)[k := (t, i, ph')]\<rparr>)"
  using watched_phase [OF assms(2,3)] by (intro queue_inv_frame [OF assms(1)]) simp_all

lemma queue_inv_read:
  assumes inv: "queue_inv q" and k: "k < length (nq_Flushes q)" and closed: "nq_Closed q \<Longrightarrow> nq_States q = Map.empty"
  shows "queue_inv (flush_read k q)"
proof -
  obtain t i ph where x: "nq_Flushes q ! k = (t, i, ph)" by (metis prod_cases3)
  have ended: "queue_inv (end_flush k q)" if "timer_of q i = None"
  proof -
    have "timer_of q j = Some u \<Longrightarrow> (j, u) \<in> watched_timers q \<Longrightarrow> (j, u) \<in> watched_timers (end_flush k q)" for j u
      using watched_end [OF k x] that by fastforce
    then show ?thesis by (intro queue_inv_frame [OF inv]) (simp_all add: end_flush_def)
  qed
  show ?thesis
  proof (cases "nq_Closed q")
    case True
    then show ?thesis using ended closed by (simp add: flush_read_def x timer_of_def)
  next
    case False
    show ?thesis
    proof (cases "Option.bind (nq_States q i) ns_Pending")
      case None
      then have "pending_of q i = None" by (cases "nq_States q i") (simp_all add: pending_of_def)
      then have "timer_of q i = None" using inv by (simp add: queue_inv_def numbers_ok_def)
      then show ?thesis using ended None False by (simp add: flush_read_def x)
    next
      case (Some pn)
      then show ?thesis using queue_inv_phase [OF inv k x] False by (cases pn) (simp add: flush_read_def x)
    qed
  qed
qed

lemma queue_inv_commit:
  assumes inv: "queue_inv q" and k: "k < length (nq_Flushes q)" and closed: "nq_Closed q \<Longrightarrow> nq_States q = Map.empty"
  shows "queue_inv (flush_commit enabled k q)"
proof -
  obtain t i ph where x: "nq_Flushes q ! k = (t, i, ph)" by (metis prod_cases3)
  show ?thesis
  proof (cases ph)
    case Reading
    then show ?thesis using inv by (simp add: flush_commit_def x)
  next
    case (Asking p)
    show ?thesis
    proof (cases "nq_Closed q")
      case True
      have "queue_inv (end_flush k q)"
        using closed [OF True] by (intro queue_inv_frame [OF inv]) (simp_all add: end_flush_def timer_of_def)
      then show ?thesis using True by (simp add: flush_commit_def x Asking)
    next
      case False
      show ?thesis
      proof (cases "pending_of q i = Some p")
        case mine: True
        then obtain cur where cur: "nq_States q i = Some cur" "map_option fst (ns_Pending cur) = Some p"
          by (auto simp: pending_of_def bind_eq_Some_conv)
        let ?q = "flush_commit enabled k q"
        have q: "?q = (end_flush k q)\<lparr>nq_States := (nq_States q)(i \<mapsto>
              \<lparr>ns_LastSent = (if enabled then Some (nq_Now q) else ns_LastSent cur), ns_Pending = None, ns_Timer = None\<rparr>),
            nq_Sent := (if enabled then nq_Sent q @ [(p, i, nq_Now q)] else nq_Sent q)\<rparr>"
          using False cur by (auto simp: flush_commit_def x Asking)
        have tp: "timer_of ?q = (timer_of q)(i := None)" "pending_of ?q = (pending_of q)(i := None)"
          by (auto simp: q timer_of_def pending_of_def fun_eq_iff)
        have w: "j \<noteq> i \<Longrightarrow> (j, u) \<in> watched_timers q \<Longrightarrow> (j, u) \<in> watched_timers ?q" for j u
          using watched_end [OF k x, of j u] by (simp add: q watched_timers_def)
        have n: "nq_Next ?q = nq_Next q" "map fst (nq_Sent ?q) = (if enabled then map fst (nq_Sent q) @ [p] else map fst (nq_Sent q))"
          by (simp_all add: q end_flush_def)
        show ?thesis
          using numbers_take [OF inv [unfolded queue_inv_def] mine, of "watched_timers ?q"] w
          unfolding queue_inv_def tp n by (cases enabled) simp_all
      next
        case False
        then have "queue_inv (q\<lparr>nq_Flushes := (nq_Flushes q)[k := (t, i, Reading)]\<rparr>)"
          using queue_inv_phase [OF inv k x] by simp
        then show ?thesis using \<open>\<not> nq_Closed q\<close> False
          by (auto simp: flush_commit_def x Asking pending_of_def split: option.splits)
      qed
    qed
  qed
qed

definition closed_empty :: "notification_queue \<Rightarrow> bool" where
  "closed_empty q \<longleftrightarrow> (nq_Closed q \<longrightarrow> nq_States q = Map.empty)"

lemma closed_empty_start: "q = queue_start \<Longrightarrow> queue_inv q \<and> closed_empty q"
  by (simp add: queue_inv_start) (simp add: closed_empty_def queue_start_def)

lemma closed_empty_step: "closed_empty q \<Longrightarrow> notification_step cooldown q q' \<Longrightarrow> closed_empty q'"
  by (erule notification_step.cases)
    (auto simp: closed_empty_def queueSessionNotification_def Let_def fire_timer_def flush_read_def flush_commit_def end_flush_def
      closeNotifications_def split: prod.splits option.splits flush_phase.splits)

lemma queue_inv_step: "queue_inv q \<Longrightarrow> closed_empty q \<Longrightarrow> notification_step cooldown q q' \<Longrightarrow> queue_inv q'"
proof (erule notification_step.cases, goal_cases)
  case (1 t q0)
  then show ?case using queue_inv_frame [of q0 "q0\<lparr>nq_Now := t\<rparr>"] by (simp add: watched_timers_def)
next
  case (6 q0)
  have "timer_of (closeNotifications q) = (\<lambda>i. None)" "pending_of (closeNotifications q) = (\<lambda>i. None)"
    by (simp_all add: fun_eq_iff timer_of_def pending_of_def closeNotifications_def)
  then show ?case using 6 by (simp add: queue_inv_def numbers_ok_def) (simp add: closeNotifications_def)
qed (simp_all add: queue_inv_queue queue_inv_fire queue_inv_read queue_inv_commit closed_empty_def)

lemma queue_reached_inv: "queue_reached cooldown q \<Longrightarrow> queue_inv q \<and> closed_empty q"
proof (erule reached_invariant)
  fix s t assume "queue_inv s \<and> closed_empty s" "notification_step cooldown s t"
  then show "queue_inv t \<and> closed_empty t" using queue_inv_step closed_empty_step by blast
qed (rule closed_empty_start)

text \<open>A session notified twice within the cooldown: the second notification is pending under a timer that is armed.\<close>

lemma second_pending:
  "queue_reached 10 \<lparr>nq_Closed = False, nq_States = [''a'' \<mapsto> \<lparr>ns_LastSent = Some 0, ns_Pending = Some (1, n), ns_Timer = Some 1\<rparr>],
      nq_Armed = [(1, ''a'', 10)], nq_Flushes = [], nq_Next = 2, nq_Now = 1, nq_Sent = [(0, ''a'', 0)]\<rparr>" (is "queue_reached 10 ?q2")
proof -
  define q1 where "q1 = queueSessionNotification 10 True 0 ''a'' n queue_start"
  have e1: "q1 = \<lparr>nq_Closed = False, nq_States = [''a'' \<mapsto> \<lparr>ns_LastSent = Some 0, ns_Pending = None, ns_Timer = None\<rparr>],
      nq_Armed = [], nq_Flushes = [], nq_Next = 1, nq_Now = 0, nq_Sent = [(0, ''a'', 0)]\<rparr>"
    by (simp add: q1_def queueSessionNotification_def queue_start_def new_state_def stop_timer_def Let_def)
  have e2: "?q2 = queueSessionNotification 10 True 1 ''a'' n (q1\<lparr>nq_Now := 1\<rparr>)"
    by (simp add: e1 queueSessionNotification_def Let_def)
  have "queue_reached 10 queue_start" by (simp add: reached_init)
  then have "queue_reached 10 q1" unfolding q1_def by (rule queue_reached_step [OF _ q_queue]) (simp add: queue_start_def)
  then have "queue_reached 10 (q1\<lparr>nq_Now := 1\<rparr>)" by (rule queue_reached_step [OF _ q_tick]) (simp_all add: e1)
  then show ?thesis unfolding e2 by (rule queue_reached_step [OF _ q_queue]) simp
qed

text \<open>C40: no pending notification is forgotten and none is sent twice.  In every reachable state, whatever callers, timers, flushes
  and the settings interleave, a session's pending notification has a timer that is armed for that session or whose flush is
  still under way and will look at it, the notifications sent are all different, and none of them is still pending.
\<close>

theorem notification_watched:
  assumes "queue_reached cooldown q"
  shows "(\<forall>i p. pending_of q i = Some p \<longrightarrow>
      (\<exists>t. timer_of q i = Some t \<and> ((\<exists>due. (t, i, due) \<in> set (nq_Armed q)) \<or> (\<exists>ph. (t, i, ph) \<in> set (nq_Flushes q))))
      \<and> p \<notin> fst ` set (nq_Sent q))
    \<and> distinct (map fst (nq_Sent q))"
  using queue_reached_inv [OF assms] unfolding queue_inv_def numbers_ok_def
  by (simp add: watched_timers_def) (metis not_None_eq)

text \<open>Its instance: the second notification of a session within the cooldown, pending under an armed timer.\<close>

theorem notification_watched_witness:
  "let q = \<lparr>nq_Closed = False, nq_States = [''a'' \<mapsto> \<lparr>ns_LastSent = Some 0,
        ns_Pending = Some (1, \<lparr>qn_Kind = ''done'', qn_Payload = \<lparr>pp_Title = [], pp_Body = []\<rparr>\<rparr>), ns_Timer = Some 1\<rparr>],
      nq_Armed = [(1, ''a'', 10)], nq_Flushes = [], nq_Next = 2, nq_Now = 1, nq_Sent = [(0, ''a'', 0)]\<rparr>
   in pending_of q ''a'' = Some 1 \<and> (\<exists>due. (1, ''a'', due) \<in> set (nq_Armed q)) \<and> 1 \<notin> fst ` set (nq_Sent q)"
  using notification_watched [OF second_pending [of "\<lparr>qn_Kind = ''done'', qn_Payload = \<lparr>pp_Title = [], pp_Body = []\<rparr>\<rparr>"]]
  by (simp add: pending_of_def timer_of_def)

section \<open>The cooldown\<close>

text \<open>C26: the cooldown can be broken.  A flush that has read the pending notification asks for the settings without the lock; when
  meanwhile a notification is sent at once and the next one is queued, the flush finds another pending notification, takes it
  for its own and sends it, here one nanosecond after the last one with a cooldown of ten.
\<close>

theorem cooldown_broken:
  "\<exists>q. queue_reached 10 q \<and> nq_Sent q = [(0, ''a'', 0), (2, ''a'', 10), (3, ''a'', 11)]"
proof -
  let ?n = "\<lparr>qn_Kind = ''done'', qn_Payload = \<lparr>pp_Title = [], pp_Body = []\<rparr>\<rparr>"
  let ?q2 = "\<lparr>nq_Closed = False, nq_States = [''a'' \<mapsto> \<lparr>ns_LastSent = Some 0, ns_Pending = Some (1, ?n), ns_Timer = Some 1\<rparr>],
      nq_Armed = [(1, ''a'', 10)], nq_Flushes = [], nq_Next = 2, nq_Now = 1, nq_Sent = [(0, ''a'', 0)]\<rparr>"
  define q3 where "q3 = flush_read 0 (fire_timer 0 (?q2\<lparr>nq_Now := 10\<rparr>))"
  define q4 where "q4 = queueSessionNotification 10 True 10 ''a'' ?n q3"
  define q5 where "q5 = queueSessionNotification 10 True 11 ''a'' ?n (q4\<lparr>nq_Now := 11\<rparr>)"
  define q6 where "q6 = flush_commit True 0 (flush_read 0 (flush_commit True 0 q5))"
  note ops = queueSessionNotification_def queue_start_def new_state_def stop_timer_def fire_timer_def flush_read_def flush_commit_def
    end_flush_def Let_def
  have e3: "q3 = \<lparr>nq_Closed = False, nq_States = [''a'' \<mapsto> \<lparr>ns_LastSent = Some 0, ns_Pending = Some (1, ?n), ns_Timer = Some 1\<rparr>],
      nq_Armed = [], nq_Flushes = [(1, ''a'', Asking 1)], nq_Next = 2, nq_Now = 10, nq_Sent = [(0, ''a'', 0)]\<rparr>"
    by (simp add: q3_def ops)
  have e4: "q4 = \<lparr>nq_Closed = False, nq_States = [''a'' \<mapsto> \<lparr>ns_LastSent = Some 10, ns_Pending = None, ns_Timer = None\<rparr>],
      nq_Armed = [], nq_Flushes = [(1, ''a'', Asking 1)], nq_Next = 3, nq_Now = 10, nq_Sent = [(0, ''a'', 0), (2, ''a'', 10)]\<rparr>"
    by (simp add: q4_def e3 ops)
  have e5: "q5 = \<lparr>nq_Closed = False, nq_States = [''a'' \<mapsto> \<lparr>ns_LastSent = Some 10, ns_Pending = Some (3, ?n), ns_Timer = Some 3\<rparr>],
      nq_Armed = [(3, ''a'', 20)], nq_Flushes = [(1, ''a'', Asking 1)], nq_Next = 4, nq_Now = 11, nq_Sent = [(0, ''a'', 0), (2, ''a'', 10)]\<rparr>"
    by (simp add: q5_def e4 ops)
  have e6: "nq_Sent q6 = [(0, ''a'', 0), (2, ''a'', 10), (3, ''a'', 11)]" by (simp add: q6_def e5 ops)
  have "queue_reached 10 ?q2" by (rule second_pending)
  then have "queue_reached 10 (?q2\<lparr>nq_Now := 10\<rparr>)" by (rule queue_reached_step [OF _ q_tick]) simp_all
  then have "queue_reached 10 (fire_timer 0 (?q2\<lparr>nq_Now := 10\<rparr>))" by (rule queue_reached_step [OF _ q_fire]) simp_all
  then have "queue_reached 10 q3" unfolding q3_def by (rule queue_reached_step [OF _ q_read]) (simp_all add: fire_timer_def)
  then have "queue_reached 10 q4" unfolding q4_def by (rule queue_reached_step [OF _ q_queue]) (simp add: e3)
  then have "queue_reached 10 (q4\<lparr>nq_Now := 11\<rparr>)" by (rule queue_reached_step [OF _ q_tick]) (simp_all add: e4)
  then have "queue_reached 10 q5" unfolding q5_def by (rule queue_reached_step [OF _ q_queue]) simp
  then have "queue_reached 10 (flush_commit True 0 q5)" by (rule queue_reached_step [OF _ q_commit]) (simp add: e5)
  then have "queue_reached 10 (flush_read 0 (flush_commit True 0 q5))"
    by (rule queue_reached_step [OF _ q_read]) (simp_all add: e5 ops)
  then have "queue_reached 10 q6" unfolding q6_def by (rule queue_reached_step [OF _ q_commit]) (simp add: e5 ops)
  then show ?thesis using e6 by blast
qed

end
