(* ===== verification/Spec2Isabelle.thy ===== *)
theory Spec2Isabelle
  imports Lane_Recovery Runner_Link Delivery_Text Mux_Work Mux_Attach Wait_Conditions Reflow Compaction_Safety Notify_Queue
begin

text \<open>
  Verification of the Sessions runtime, the Go module under \<open>src/runtime\<close>.

  Sessions keeps agent conversations (lanes) alive.  Each lane has a runner process that owns the terminal or the structured
  provider and speaks a framed protocol on a socket.  One daemon connects to the runners, keeps a record of every session,
  serves clients over WebSocket and HTTP, hands submitted messages to the runners and writes what happened to every lane into
  a ledger, an append-only SQLite table.  The current state of the lanes, the bindings of conversations to lanes and the plan
  for recovering lost lanes are computed from the ledger.  The development follows that path from the bytes of a frame to the
  recovery plan.  Paths below are relative to \<open>src/runtime/internal\<close> unless they begin with \<open>cmd\<close>.

  The language and the library.  \<open>Prelude\<close> fixes how Go is read: strings are byte lists with the byte order, \<open>int64\<close> is
  \<open>int\<close> with the wrap-around of \<open>i64\<close> where the code computes, \<open>uint32\<close> sequence numbers are 32-bit words, an error
  return is an option or a sum.  \<open>Go_Text\<close> has the functions of \<open>strings\<close>, \<open>unicode\<close>, \<open>utf8\<close>, \<open>hex\<close> and \<open>filepath\<close>
  that the code calls, \<open>Json\<close> the decoding and encoding rules of \<open>encoding/json\<close> over parsed values.

  The contracts, as locales.  \<open>Keyed_Fold\<close>: an event stream reduced into one state per key, for the ledger's fold, where its
  order independence and the invariant of every state come from.  \<open>Append_Log\<close>: steps that only append, for the ledger's
  table.  \<open>Codec\<close>: a self-delimiting wire format, for the frames and for the records of the output file.
  \<open>Event_Streams\<close>: feeds of bounded channels with a last event, for the connection of a runner and for a session.
  \<open>Task_Links\<close>: linking that settles.  \<open>Compaction_Store\<close>: a document kept in a file.  Each is interpreted on the
  definitions of the model, and the lemmas behind the properties use the facts of that interpretation.

  The ledger (\<open>ledger\<close>, \<open>providerargs\<close>).  \<open>Ledger_Types\<close> has the event vocabulary and the lane state of \<open>types.go\<close>,
  \<open>Ledger_Payloads\<close> the payload of every event with its decoder and encoder, \<open>Provider_Args\<close> and \<open>Recipes\<close> the argument
  lists and what may be recorded as a resume command.  \<open>Task_Links\<close> and \<open>Pull_Requests\<close> are the link tables of a lane,
  \<open>Lane_Events\<close> every handler of \<open>fold_events.go\<close>, \<open>Lane_Fold\<close> the fold, the classification and the recovery plan of
  \<open>fold.go\<close>.  \<open>Lane_Store\<close> is the table with its constraints and the coalescing append, \<open>Lane_Writers\<close> every \<open>Record\<close>
  method, \<open>Lane_Log\<close> and \<open>Lane_System\<close> any number of processes writing to one table, \<open>Lane_Projection\<close> the incremental
  projection of \<open>current.go\<close> and the questions of \<open>bindings.go\<close>, \<open>Lane_Recovery\<close> the way from a writer to the plan.
  Shown: each call adds all its rows or none and the log keeps its invariant; the fold does not depend on the order of its rows
  and keeps the lane invariant; the projection is the fold of the whole log whatever was written and read before; a user's kill
  is final; the plan names only lanes that may be recovered.

  The socket between runner and daemon (\<open>proto\<close>, \<open>cmd/sessions-runner/main.go\<close>, \<open>state/eventlog.go\<close>,
  \<open>state/persistent.go\<close>).  \<open>Frames\<close> is the framing, \<open>Event_Log\<close> the replay ring, the file of recorded output and the window
  of structured events, \<open>Runner_Messages\<close> the payloads, \<open>Runner_Client\<close> the daemon's side as a step relation over one
  connection, \<open>Runner_Calls\<close> what its callers rely on, \<open>Runner_Server\<close> the runner's side, and \<open>Runner_Link\<close> both together.
  Shown: frames and file records are read back, a replay over the socket is exactly the history after the number asked for or
  reports its gap, no caller is left waiting on a closed connection, and no acknowledgment is lost or given to another
  operation.

  A session of the daemon (\<open>state\<close>, \<open>claudehooks\<close>, \<open>providerfault\<close>).  \<open>Provider_Fault\<close> and \<open>Structured_Record\<close> read
  one provider record, \<open>Observations\<close> and \<open>Hook_Tracker\<close> keep the evidence of turns and open tool calls, \<open>Session\<close> is the
  record of one session with the operations of the event pump, the transcript watcher, the hook follower, the manager and its
  callers, \<open>Session_Steps\<close> their interleaving.  \<open>Session_Attach\<close> is what a WebSocket client is sent (\<open>api/ws.go\<close>), and
  \<open>Session_Ends\<close> how a session ends for its record and its subscribers.  Shown: an attaching client gets every output and
  record once and in order, the exit of a session is the exit its runner reported, the open tool count is exact when it says
  so, and what hooks report does not depend on the order of the lines.

  The daemon's routes (\<open>api\<close>, \<open>delivery\<close>).  \<open>Delivery_Store\<close> holds the receipts, \<open>Delivery_Submit\<close> the submit route with
  its retries, crashes and late confirmations, \<open>Delivery_Text\<close> how a message is recognised in the transcript.  \<open>Mux_Work\<close> and
  \<open>Mux_Attach\<close> are the commands and the attachments of one multiplexed connection.  Shown: a message is given to the provider
  at most once for one operation, a confirmation rests on a record that is newer than the submission, commands of a session run
  in order, and attachments are all cancelled, once.

  Around them.  \<open>Wait_Conditions\<close> is \<open>sessions wait\<close> (\<open>waitcond\<close>), \<open>Reflow\<close> the screen shown at another width
  (\<open>mirror/reflow.go\<close>).  \<open>Compaction_Window\<close>, \<open>Compaction_Store\<close>, \<open>Compaction_Scheduler\<close>, \<open>Compaction_Runs\<close> and
  \<open>Compaction_Safety\<close> are idle compaction (\<open>compaction\<close>, \<open>api/idle_compaction.go\<close>): the window of a request, the durable
  document, the decisions, and their runs over failing writes and restarts, in which a request is compacted at most once.
  \<open>Notify_Queue\<close> is the queue of session notifications (\<open>session/notifications.go\<close>).

  State and concurrency.  A Go struct is a record, a map is an association list or a map, a channel is a list with its
  capacity.  What runs under one mutex is one step; goroutines are interleaved as lists of such steps or as inductive step
  relations, and every property of them is proved of all sequences.  A property about the past of a run carries it in fields
  that no operation reads.

  Parameters.  What is not code of the repository is an argument: \<open>parse\<close> and \<open>enc\<close> (the text of JSON values), \<open>clock\<close>
  (timestamps), \<open>hash\<close> and \<open>digest\<close> (SHA-256), \<open>explain\<close> and \<open>itoa\<close> (texts of errors and numbers), the outcomes of file
  and system calls, the answers of the provider and the times at which things happen.  What is assumed of them stands in the
  statement that uses it, and its witness instantiates them.

  Bounds and termination.  No definition uses fuel: a loop is structural over the observations or inputs it is given, or a
  function with a measure (the bytes left to read or to write), and the worker pool has a termination property of its own.
  The limits of the code are definitions with their values: frames of 4 MiB, 4 MiB of replayed output, 16 MiB of recorded
  output trimmed to 8 MiB, 1200 structured events, 512 buffered events of a subscriber, 1024 tracked tool calls, 64 tasks and
  32 pull requests of a lane, 64 commands and 256 attachments of a connection, 16 attributions and 20000 observed records of a
  lane.

  Not modelled.  The HTTP server outside the routes named, authentication, pairing, relay and fleet: they rest on the network
  and cryptographic libraries.  The loops of the session manager, the registry and the launchers: processes, sockets and
  operating system services; what they record is modelled where it is recorded.  The terminal emulator behind the mirror,
  which is a third-party library.  The structured runners and the clients of the Codex app server and of the Claude print mode:
  protocols of subprocesses.  The file watching of transcripts, history and integrations, search, usage, worktrees, reviews,
  backups, accounts, and the command line: reading and rendering files and answers, not reached by this development.  The
  front end, the desktop shell and the cloud functions are not Go.  Of the modelled parts: the creation of the runner's process
  and terminal, the retry time in provider messages, the frames a client sends on its WebSocket, what a multiplexed command
  does, the watcher that wakes a wait, and the HTTP handlers of the compaction settings.
\<close>

end
